(* ===== verification/Prelude.thy ===== *)
theory Prelude
  imports Complex_Main "HOL-Library.AList" "HOL-Library.List_Lexorder" "HOL-Library.Product_Lexorder"
    "HOL-Library.Multiset"
    "HOL-Library.Word"
begin

text \<open>
  Shared vocabulary of the development: Python strings, bytes, exceptions and
  insertion-ordered dicts, the parts of the Python standard library the sources use
  (decimal conversion, \<^verbatim>\<open>rsplit\<close>, UTF-8, big-endian packing, \<^verbatim>\<open>bisect\<close>,
  order-preserving deduplication), and the generic lemmas the component theories share.

  A Python \<^verbatim>\<open>str\<close> is the list of its code points, so comparison of strings is the
  lexicographic order of \<^verbatim>\<open>List_Lexorder\<close>, exactly Python's. A float is an exact
  rational: rounding, infinities and NaN are outside the model. The text of an exception
  message is not modelled, its class is.
\<close>

named_theorems dict_simps \<open>rewrite rules for insertion-ordered dicts\<close>
named_theorems codec_simps \<open>rewrite rules for the byte and text codecs\<close>

subsection \<open>Types\<close>

type_synonym pystr = "nat list"
type_synonym byte = "8 word"
type_synonym bytes = "8 word list"
type_synonym seconds = rat

text \<open>A dict: an association list in insertion order, with distinct keys.\<close>

type_synonym ('k, 'v) dict = "('k \<times> 'v) list"

abbreviation lit :: "string \<Rightarrow> pystr" where
  "lit s \<equiv> map of_char s"

text \<open>The exception classes that the modelled code raises or catches.\<close>

datatype error =
    ValueError
  | UnicodeEncodeError
  | KeyError
  | TypeError
  | OverflowError
  | RuntimeError
  | StructError
  | TimeoutErr
  | NoSilosAvailableError
  | ClusterNotReadyError
  | TransportError
  | HandshakeError
  | MessageTooLargeError
  | BackpressureError
  | TransportTimeoutError
  | TransportConnectionError
  | TransportClosedError
  | MembershipError
  | TableStaleError
  | SiloNotFoundError
  | MembershipUnavailableError
  | StorageError
  | StorageInconsistencyError
  | StorageUnavailableError
  | StorageSerializationError
  | StartupAbortedError
  | SerializationError
  | OtherException

text \<open>What an \<^verbatim>\<open>except ValueError\<close> clause catches among them.\<close>

fun is_value_error :: "error \<Rightarrow> bool" where
  "is_value_error ValueError = True"
| "is_value_error UnicodeEncodeError = True"
| "is_value_error _ = False"

text \<open>The class hierarchy under \<^verbatim>\<open>transport.errors.TransportError\<close>.\<close>

fun is_transport_error :: "error \<Rightarrow> bool" where
  "is_transport_error TransportError = True"
| "is_transport_error HandshakeError = True"
| "is_transport_error MessageTooLargeError = True"
| "is_transport_error BackpressureError = True"
| "is_transport_error TransportTimeoutError = True"
| "is_transport_error TransportConnectionError = True"
| "is_transport_error TransportClosedError = True"
| "is_transport_error _ = False"

type_synonym 'a result = "error + 'a"

fun res_bind :: "'a result \<Rightarrow> ('a \<Rightarrow> 'b result) \<Rightarrow> 'b result" where
  "res_bind (Inl e) f = Inl e"
| "res_bind (Inr x) f = f x"

lemma res_bind_Inr_iff:
  "res_bind r f = Inr y \<longleftrightarrow> (\<exists>x. r = Inr x \<and> f x = Inr y)"
  by (cases r) auto

lemma res_bind_Inl_iff:
  "res_bind r f = Inl e \<longleftrightarrow> r = Inl e \<or> (\<exists>x. r = Inr x \<and> f x = Inl e)"
  by (cases r) auto

text \<open>A list comprehension whose element expression may raise.\<close>

fun res_map :: "('a \<Rightarrow> 'b result) \<Rightarrow> 'a list \<Rightarrow> 'b list result" where
  "res_map f [] = Inr []"
| "res_map f (x # xs) =
     res_bind (f x) (\<lambda>y. res_bind (res_map f xs) (\<lambda>ys. Inr (y # ys)))"

lemma res_map_Inr:
  "(\<And>x. x \<in> set xs \<Longrightarrow> f (g x) = Inr x) \<Longrightarrow> res_map f (map g xs) = Inr xs"
  by (induction xs) auto

subsection \<open>Literals\<close>

lemma lit_inj [simp]: "lit s = lit t \<longleftrightarrow> s = t"
proof
  assume "lit s = lit t"
  moreover have "inj (of_char :: char \<Rightarrow> nat)"
    by (rule inj_of_char)
  ultimately show "s = t"
    by (metis inj_map_eq_map)
qed simp

subsection \<open>Insertion-ordered dicts\<close>

text \<open>
  \<^verbatim>\<open>d.get(k)\<close>, \<^verbatim>\<open>d[k] = v\<close> (in place for a present key, at the end for a new one),
  \<^verbatim>\<open>d.pop(k, None)\<close> and \<^verbatim>\<open>OrderedDict.move_to_end(k)\<close>.
\<close>

definition dget :: "('k, 'v) dict \<Rightarrow> 'k \<Rightarrow> 'v option" where
  "dget d k = map_of d k"

definition dset :: "('k, 'v) dict \<Rightarrow> 'k \<Rightarrow> 'v \<Rightarrow> ('k, 'v) dict" where
  "dset d k v = AList.update k v d"

definition dpop :: "('k, 'v) dict \<Rightarrow> 'k \<Rightarrow> ('k, 'v) dict" where
  "dpop d k = filter (\<lambda>(k', _). k' \<noteq> k) d"

definition dmove_to_end :: "('k, 'v) dict \<Rightarrow> 'k \<Rightarrow> ('k, 'v) dict" where
  "dmove_to_end d k = (case dget d k of None \<Rightarrow> d | Some v \<Rightarrow> dpop d k @ [(k, v)])"

abbreviation dkeys :: "('k, 'v) dict \<Rightarrow> 'k list" where
  "dkeys d \<equiv> map fst d"

abbreviation dict_ok :: "('k, 'v) dict \<Rightarrow> bool" where
  "dict_ok d \<equiv> distinct (dkeys d)"

lemma dget_Nil [dict_simps, simp]: "dget [] k = None"
  by (simp add: dget_def)

lemma dget_dset [dict_simps, simp]: "dget (dset d k v) k' = (if k' = k then Some v else dget d k')"
  by (simp add: dget_def dset_def update_conv')

lemma dpop_delete: "dpop d k = AList.delete k d"
  by (auto simp: dpop_def AList.delete_eq intro!: filter_cong)

lemma dget_dpop [dict_simps, simp]: "dget (dpop d k) k' = (if k' = k then None else dget d k')"
  by (simp add: dget_def dpop_delete delete_conv')

lemma dget_None_iff: "dget d k = None \<longleftrightarrow> k \<notin> set (dkeys d)"
  by (simp add: dget_def map_of_eq_None_iff)

lemma dget_Some_iff: "dict_ok d \<Longrightarrow> dget d k = Some v \<longleftrightarrow> (k, v) \<in> set d"
  by (simp add: dget_def)

lemma dget_Some_key: "dget d k = Some v \<Longrightarrow> k \<in> set (dkeys d)"
  by (force simp: dget_def dest: map_of_SomeD)

lemma dict_ok_dset [intro, simp]: "dict_ok d \<Longrightarrow> dict_ok (dset d k v)"
  by (simp add: dset_def distinct_update)

lemma dict_ok_filter [intro, simp]: "dict_ok d \<Longrightarrow> dict_ok (filter P d)"
  by (induction d) auto

lemma dict_ok_dpop [intro, simp]: "dict_ok d \<Longrightarrow> dict_ok (dpop d k)"
  by (simp add: dpop_def)

lemma keys_dpop: "set (dkeys (dpop d k)) = set (dkeys d) - {k}"
  by (auto simp: dpop_def)

lemma keys_dset: "set (dkeys (dset d k v)) = insert k (set (dkeys d))"
  by (simp add: dset_def dom_update)

lemma dict_ok_move [intro, simp]: "dict_ok d \<Longrightarrow> dict_ok (dmove_to_end d k)"
  using keys_dpop [of d k] by (auto simp: dmove_to_end_def split: option.split)

lemma dget_append: "dget (d @ d') k = (case dget d k of None \<Rightarrow> dget d' k | Some v \<Rightarrow> Some v)"
  by (auto simp: dget_def map_add_def split: option.split)

lemma dget_move [dict_simps, simp]: "dget (dmove_to_end d k) k' = dget d k'"
  by (auto simp: dmove_to_end_def dget_append split: option.split) (simp add: dget_def)+

lemma dset_absent: "dget d k = None \<Longrightarrow> dset d k v = d @ [(k, v)]"
  by (induction d) (auto simp: dset_def dget_def split: if_splits)

lemma length_dset: "length (dset d k v) = (if dget d k = None then Suc (length d) else length d)"
  by (induction d) (auto simp: dset_def dget_def)

lemma length_dpop: "dict_ok d \<Longrightarrow> k \<in> set (dkeys d) \<Longrightarrow> Suc (length (dpop d k)) = length d"
proof (induction d)
  case (Cons p d)
  show ?case
  proof (cases "fst p = k")
    case True
    with Cons.prems have "dpop d k = d"
      by (auto simp: dpop_def filter_id_conv) (metis fst_conv image_eqI)
    with True show ?thesis by (simp add: dpop_def split_beta)
  next
    case False
    with Cons show ?thesis by (simp add: dpop_def split_beta)
  qed
qed simp

lemma length_move: "dict_ok d \<Longrightarrow> length (dmove_to_end d k) = length d"
  using length_dpop [of d k] dget_Some_key [of d k]
  by (auto simp: dmove_to_end_def split: option.split)

subsection \<open>Lists: order-preserving deduplication, binary search\<close>

text \<open>\<^verbatim>\<open>list(dict.fromkeys(xs))\<close> keeps the first occurrence of each element.\<close>

fun dedup :: "'a list \<Rightarrow> 'a list" where
  "dedup [] = []"
| "dedup (x # xs) = x # dedup (removeAll x xs)"

lemma set_dedup [simp]: "set (dedup xs) = set xs"
  by (induction xs rule: dedup.induct) auto

lemma distinct_dedup [simp]: "distinct (dedup xs)"
  by (induction xs rule: dedup.induct) auto

text \<open>\<^verbatim>\<open>bisect.bisect_left(a, x)\<close>: the halving loop on \<open>[lo, hi)\<close>.\<close>

function bisect_loop :: "nat list \<Rightarrow> nat \<Rightarrow> nat \<Rightarrow> nat \<Rightarrow> nat" where
  "bisect_loop a x lo hi =
     (if lo < hi
      then (let mid = (lo + hi) div 2
            in if a ! mid < x then bisect_loop a x (Suc mid) hi else bisect_loop a x lo mid)
      else lo)"
  by pat_completeness auto
termination
  by (relation "measure (\<lambda>(a, x, lo, hi). hi - lo)") auto

declare bisect_loop.simps [simp del]

definition bisect_left :: "nat list \<Rightarrow> nat \<Rightarrow> nat" where
  "bisect_left a x = bisect_loop a x 0 (length a)"

lemma bisect_loop_spec:
  assumes "sorted a" "lo \<le> hi" "hi \<le> length a"
    and "\<forall>i < lo. a ! i < x" and "\<forall>i < length a. hi \<le> i \<longrightarrow> x \<le> a ! i"
  shows "bisect_loop a x lo hi \<le> length a
    \<and> (\<forall>i < bisect_loop a x lo hi. a ! i < x)
    \<and> (\<forall>i < length a. bisect_loop a x lo hi \<le> i \<longrightarrow> x \<le> a ! i)"
  using assms
proof (induction a x lo hi rule: bisect_loop.induct)
  case (1 a x lo hi)
  show ?case
  proof (cases "lo < hi")
    case False
    then have "bisect_loop a x lo hi = lo"
      by (simp add: bisect_loop.simps [of a x lo hi])
    with False "1.prems" show ?thesis by auto
  next
    case True
    define mid where "mid = (lo + hi) div 2"
    have mid: "lo \<le> mid" "mid < hi" "mid < length a"
      using True "1.prems" by (auto simp: mid_def)
    show ?thesis
    proof (cases "a ! mid < x")
      case less: True
      have "\<forall>i < Suc mid. a ! i < x"
        using less mid "1.prems"(1) by (auto simp: less_Suc_eq_le intro: le_less_trans sorted_nth_mono)
      with "1.IH"(1) [OF True mid_def less] "1.prems" mid
      show ?thesis
        by (simp add: bisect_loop.simps [of a x lo hi] True less Let_def flip: mid_def)
    next
      case ge: False
      have "\<forall>i < length a. mid \<le> i \<longrightarrow> x \<le> a ! i"
        using ge mid "1.prems"(1) by (auto intro: order_trans [OF _ sorted_nth_mono] simp: not_less)
      with "1.IH"(2) [OF True mid_def ge] "1.prems" mid
      show ?thesis
        by (simp add: bisect_loop.simps [of a x lo hi] True ge Let_def flip: mid_def)
    qed
  qed
qed

lemma bisect_left_spec:
  assumes "sorted a"
  shows "bisect_left a x \<le> length a"
    and "i < bisect_left a x \<Longrightarrow> a ! i < x"
    and "i < length a \<Longrightarrow> bisect_left a x \<le> i \<Longrightarrow> x \<le> a ! i"
  using bisect_loop_spec [OF assms, of 0 "length a" x] unfolding bisect_left_def by auto

end
