(* ===== verification/PyText.thy ===== *)
theory PyText
  imports Prelude
begin

text \<open>
  The pieces of Python's standard library that turn numbers and text into text and bytes:
  \<^verbatim>\<open>str(int)\<close>, \<^verbatim>\<open>int(str)\<close>, \<^verbatim>\<open>str.rsplit\<close>, UTF-8, and big-endian integers as
  \<^verbatim>\<open>struct\<close> and \<^verbatim>\<open>int.from_bytes\<close> read and write them, each with its round trip.
  \<^verbatim>\<open>int(str)\<close> is modelled on ASCII text: decimal digits of other scripts, which Python
  accepts too, are rejected here.
\<close>

subsection \<open>Decimal integers\<close>

fun dec :: "nat \<Rightarrow> pystr" where
  "dec n = (if n < 10 then [48 + n] else dec (n div 10) @ [48 + n mod 10])"

declare dec.simps [simp del]

definition str_int :: "int \<Rightarrow> pystr" where
  "str_int i = (if i < 0 then 45 # dec (nat (- i)) else dec (nat i))"

definition is_digit :: "nat \<Rightarrow> bool" where
  "is_digit c \<longleftrightarrow> 48 \<le> c \<and> c \<le> 57"

definition is_ws :: "nat \<Rightarrow> bool" where
  "is_ws c \<longleftrightarrow> 9 \<le> c \<and> c \<le> 13 \<or> c = 32"

definition strip_ws :: "pystr \<Rightarrow> pystr" where
  "strip_ws s = rev (dropWhile is_ws (rev (dropWhile is_ws s)))"

text \<open>Digits after a first digit: single underscores may separate them.\<close>

fun more_digits :: "nat \<Rightarrow> pystr \<Rightarrow> nat option" where
  "more_digits acc [] = Some acc"
| "more_digits acc (c # cs) =
     (if is_digit c then more_digits (acc * 10 + (c - 48)) cs
      else if c = 95 then
        (case cs of
           [] \<Rightarrow> None
         | d # ds \<Rightarrow> if is_digit d then more_digits (acc * 10 + (d - 48)) ds else None)
      else None)"

fun parse_nat :: "pystr \<Rightarrow> nat option" where
  "parse_nat [] = None"
| "parse_nat (c # cs) = (if is_digit c then more_digits (c - 48) cs else None)"

definition parse_int :: "pystr \<Rightarrow> int option" where
  "parse_int s =
     (case strip_ws s of
        [] \<Rightarrow> None
      | c # cs \<Rightarrow>
          if c = 45 then map_option (\<lambda>n. - int n) (parse_nat cs)
          else if c = 43 then map_option int (parse_nat cs)
          else map_option int (parse_nat (c # cs)))"

definition int_of_str :: "pystr \<Rightarrow> int result" where
  "int_of_str s = (case parse_int s of None \<Rightarrow> Inl ValueError | Some i \<Rightarrow> Inr i)"

lemma dec_digits: "\<forall>c \<in> set (dec n). is_digit c"
proof (induction n rule: dec.induct)
  case (1 n)
  then show ?case by (subst dec.simps) (auto simp: is_digit_def)
qed

lemma dec_nonempty [simp]: "dec n \<noteq> []"
  by (subst dec.simps) simp

lemma dec_value: "foldl (\<lambda>a c. a * 10 + (c - 48)) 0 (dec n) = n"
proof (induction n rule: dec.induct)
  case (1 n)
  then show ?case by (subst dec.simps) simp
qed

lemma more_digits_fold:
  "\<forall>c \<in> set ds. is_digit c \<Longrightarrow> more_digits acc ds = Some (foldl (\<lambda>a c. a * 10 + (c - 48)) acc ds)"
  by (induction acc ds rule: more_digits.induct) auto

lemma parse_nat_dec: "parse_nat (dec n) = Some n"
proof (cases "dec n")
  case (Cons c cs)
  then have "is_digit c" "\<forall>d \<in> set cs. is_digit d"
    using dec_digits [of n] by auto
  moreover have "foldl (\<lambda>a c. a * 10 + (c - 48)) (c - 48) cs = n"
    using dec_value [of n] by (simp add: Cons)
  ultimately show ?thesis by (simp add: Cons more_digits_fold)
qed simp

lemma strip_no_ws:
  assumes "\<forall>c \<in> set s. \<not> is_ws c"
  shows "strip_ws s = s"
proof -
  have drop: "dropWhile is_ws t = t" if "\<forall>c \<in> set t. \<not> is_ws c" for t
    using that by (cases t) auto
  show ?thesis using drop [of s] drop [of "rev s"] assms by (simp add: strip_ws_def)
qed

lemma digit_not_ws: "is_digit c \<Longrightarrow> \<not> is_ws c"
  by (auto simp: is_digit_def is_ws_def)

lemma str_int_chars: "c \<in> set (str_int i) \<Longrightarrow> is_digit c \<or> c = 45"
  using dec_digits by (auto simp: str_int_def split: if_splits)

lemma str_int_nonempty [simp]: "str_int i \<noteq> []"
  by (simp add: str_int_def)

lemma parse_int_str_int [codec_simps, simp]: "parse_int (str_int i) = Some i"
proof -
  have strip: "strip_ws (str_int i) = str_int i"
    by (rule strip_no_ws) (auto dest!: str_int_chars digit_not_ws, simp add: is_ws_def)
  show ?thesis
  proof (cases "i < 0")
    case True
    with strip show ?thesis
      by (simp add: parse_int_def str_int_def parse_nat_dec)
  next
    case False
    obtain c cs where dec: "dec (nat i) = c # cs" by (cases "dec (nat i)") auto
    then have "c \<noteq> 45" "c \<noteq> 43"
      using dec_digits [of "nat i"] by (auto simp: is_digit_def)
    then show ?thesis
      using strip False parse_nat_dec [of "nat i"]
      by (simp add: parse_int_def str_int_def dec del: parse_nat.simps)
  qed
qed

lemma int_of_str_str_int [codec_simps, simp]: "int_of_str (str_int i) = Inr i"
  by (simp add: int_of_str_def)

lemma str_int_inj [simp]: "str_int i = str_int j \<longleftrightarrow> i = j"
  by (metis option.inject parse_int_str_int)

subsection \<open>rsplit\<close>

fun rsplit_once :: "nat \<Rightarrow> pystr \<Rightarrow> (pystr \<times> pystr) option" where
  "rsplit_once c [] = None"
| "rsplit_once c (x # xs) =
     (case rsplit_once c xs of
        Some (a, b) \<Rightarrow> Some (x # a, b)
      | None \<Rightarrow> if x = c then Some ([], xs) else None)"

text \<open>\<^verbatim>\<open>s.rsplit(c, n)\<close>: at most \<open>n\<close> splits, from the right.\<close>

fun rsplit :: "nat \<Rightarrow> nat \<Rightarrow> pystr \<Rightarrow> pystr list" where
  "rsplit c 0 s = [s]"
| "rsplit c (Suc n) s =
     (case rsplit_once c s of None \<Rightarrow> [s] | Some (a, b) \<Rightarrow> rsplit c n a @ [b])"

lemma rsplit_once_None: "rsplit_once c s = None \<longleftrightarrow> c \<notin> set s"
  by (induction s) (auto split: option.splits)

lemma rsplit_once_append [codec_simps]:
  "c \<notin> set b \<Longrightarrow> rsplit_once c (a @ c # b) = Some (a, b)"
proof (induction a)
  case Nil
  then show ?case by (auto simp: rsplit_once_None split: option.split dest: rsplit_once_None [THEN iffD2])
qed simp

lemma rsplit_once_Some: "rsplit_once c s = Some (a, b) \<Longrightarrow> s = a @ c # b \<and> c \<notin> set b"
  by (induction s arbitrary: a) (auto split: option.splits if_splits simp: rsplit_once_None)

subsection \<open>UTF-8\<close>

definition valid_cp :: "nat \<Rightarrow> bool" where
  "valid_cp c \<longleftrightarrow> c < 1114112 \<and> \<not> (55296 \<le> c \<and> c \<le> 57343)"

definition utf8_enc1 :: "nat \<Rightarrow> bytes" where
  "utf8_enc1 c =
     (if c < 128 then [of_nat c]
      else if c < 2048 then [of_nat (192 + c div 64), of_nat (128 + c mod 64)]
      else if c < 65536 then
        [of_nat (224 + c div 4096), of_nat (128 + c div 64 mod 64), of_nat (128 + c mod 64)]
      else
        [of_nat (240 + c div 262144), of_nat (128 + c div 4096 mod 64),
         of_nat (128 + c div 64 mod 64), of_nat (128 + c mod 64)])"

definition utf8_bytes :: "pystr \<Rightarrow> bytes" where
  "utf8_bytes s = concat (map utf8_enc1 s)"

text \<open>\<^verbatim>\<open>s.encode("utf-8")\<close>: a lone surrogate raises.\<close>

definition utf8_encode :: "pystr \<Rightarrow> bytes result" where
  "utf8_encode s = (if list_all valid_cp s then Inr (utf8_bytes s) else Inl UnicodeEncodeError)"

definition is_cont :: "byte \<Rightarrow> bool" where
  "is_cont b \<longleftrightarrow> 128 \<le> unat b \<and> unat b < 192"

text \<open>\<^verbatim>\<open>b.decode("utf-8")\<close>, strict: overlong forms, surrogates and truncation are refused.\<close>

fun utf8_decode :: "bytes \<Rightarrow> pystr option" where
  "utf8_decode [] = Some []"
| "utf8_decode (b # bs) =
     (let n = unat b in
      if n < 128 then map_option (Cons n) (utf8_decode bs)
      else if n < 194 then None
      else if n < 224 then
        (case bs of
           b1 # r \<Rightarrow>
             if is_cont b1 then map_option (Cons ((n - 192) * 64 + (unat b1 - 128))) (utf8_decode r)
             else None
         | _ \<Rightarrow> None)
      else if n < 240 then
        (case bs of
           b1 # b2 # r \<Rightarrow>
             let c = (n - 224) * 4096 + (unat b1 - 128) * 64 + (unat b2 - 128)
             in if is_cont b1 \<and> is_cont b2 \<and> 2048 \<le> c \<and> valid_cp c
                then map_option (Cons c) (utf8_decode r) else None
         | _ \<Rightarrow> None)
      else if n < 245 then
        (case bs of
           b1 # b2 # b3 # r \<Rightarrow>
             let c = (n - 240) * 262144 + (unat b1 - 128) * 4096 + (unat b2 - 128) * 64
                     + (unat b3 - 128)
             in if is_cont b1 \<and> is_cont b2 \<and> is_cont b3 \<and> 65536 \<le> c \<and> valid_cp c
                then map_option (Cons c) (utf8_decode r) else None
         | _ \<Rightarrow> None)
      else None)"

lemma unat_byte: "n < 256 \<Longrightarrow> unat (of_nat n :: byte) = n"
  by (simp add: unat_of_nat take_bit_nat_eq_self)

lemma base64_digits3: "c div 4096 * 4096 + c div 64 mod 64 * 64 + c mod 64 = (c::nat)"
proof -
  have "c div 4096 = c div 64 div 64" by (simp add: div_mult2_eq [of c 64 64, simplified])
  then show ?thesis
    using div_mult_mod_eq [of c 64] div_mult_mod_eq [of "c div 64" 64] by linarith
qed

lemma base64_digits4:
  "c div 262144 * 262144 + c div 4096 mod 64 * 4096 + c div 64 mod 64 * 64 + c mod 64 = (c::nat)"
proof -
  have "c div 262144 = c div 4096 div 64" by (simp add: div_mult2_eq [of c 4096 64, simplified])
  then show ?thesis
    using base64_digits3 [of c] div_mult_mod_eq [of "c div 4096" 64] by linarith
qed

lemma utf8_decode_enc1:
  assumes "valid_cp c"
  shows "utf8_decode (utf8_enc1 c @ r) = map_option (Cons c) (utf8_decode r)"
proof -
  have c: "c < 1114112" using assms by (simp add: valid_cp_def)
  consider "c < 128" | "128 \<le> c" "c < 2048" | "2048 \<le> c" "c < 65536" | "65536 \<le> c" by linarith
  then show ?thesis
  proof cases
    case 1
    then show ?thesis by (simp add: utf8_enc1_def unat_byte)
  next
    case 2
    then have "unat (of_nat (192 + c div 64) :: byte) = 192 + c div 64"
      "unat (of_nat (128 + c mod 64) :: byte) = 128 + c mod 64"
      by (auto intro!: unat_byte simp del: of_nat_add)
    moreover have "2 \<le> c div 64" "c div 64 < 32" using 2 by auto
    ultimately show ?thesis using 2 by (simp add: utf8_enc1_def is_cont_def Let_def del: of_nat_add)
  next
    case 3
    then have "unat (of_nat (224 + c div 4096) :: byte) = 224 + c div 4096"
      "unat (of_nat (128 + c div 64 mod 64) :: byte) = 128 + c div 64 mod 64"
      "unat (of_nat (128 + c mod 64) :: byte) = 128 + c mod 64"
      by (auto intro!: unat_byte simp del: of_nat_add)
    moreover have "c div 4096 < 16" using 3 by auto
    ultimately show ?thesis using 3 assms by (simp add: base64_digits3 utf8_enc1_def is_cont_def Let_def del: of_nat_add)
  next
    case 4
    then have "unat (of_nat (240 + c div 262144) :: byte) = 240 + c div 262144"
      "unat (of_nat (128 + c div 4096 mod 64) :: byte) = 128 + c div 4096 mod 64"
      "unat (of_nat (128 + c div 64 mod 64) :: byte) = 128 + c div 64 mod 64"
      "unat (of_nat (128 + c mod 64) :: byte) = 128 + c mod 64"
      using c by (auto intro!: unat_byte simp del: of_nat_add)
    moreover have "c div 262144 < 5" using c by auto
    ultimately show ?thesis using 4 assms by (simp add: base64_digits4 utf8_enc1_def is_cont_def Let_def del: of_nat_add)
  qed
qed

lemma utf8_decode_bytes [codec_simps]:
  "list_all valid_cp s \<Longrightarrow> utf8_decode (utf8_bytes s) = Some s"
  by (induction s) (auto simp: utf8_bytes_def utf8_decode_enc1)

lemma utf8_roundtrip [codec_simps]: "utf8_encode s = Inr bs \<Longrightarrow> utf8_decode bs = Some s"
  by (auto simp: utf8_encode_def utf8_decode_bytes split: if_splits)

lemma utf8_bytes_append: "utf8_bytes (s @ t) = utf8_bytes s @ utf8_bytes t"
  by (simp add: utf8_bytes_def)

lemma utf8_bytes_inj:
  "list_all valid_cp s \<Longrightarrow> list_all valid_cp t \<Longrightarrow> utf8_bytes s = utf8_bytes t \<longleftrightarrow> s = t"
  by (metis option.inject utf8_decode_bytes)

subsection \<open>Big-endian integers\<close>

fun be_bytes :: "nat \<Rightarrow> nat \<Rightarrow> bytes" where
  "be_bytes 0 n = []"
| "be_bytes (Suc k) n = be_bytes k (n div 256) @ [of_nat (n mod 256)]"

definition be_nat :: "bytes \<Rightarrow> nat" where
  "be_nat bs = foldl (\<lambda>a b. a * 256 + unat b) 0 bs"

lemma be_nat_simps [simp]:
  "be_nat [] = 0" "be_nat (bs @ [b]) = be_nat bs * 256 + unat b"
  by (simp_all add: be_nat_def)

lemma length_be_bytes [simp]: "length (be_bytes k n) = k"
  by (induction k n rule: be_bytes.induct) auto

lemma be_nat_be_bytes [codec_simps]: "n < 256 ^ k \<Longrightarrow> be_nat (be_bytes k n) = n"
proof (induction k n rule: be_bytes.induct)
  case (2 k n)
  then have "n div 256 < 256 ^ k" by (simp add: less_mult_imp_div_less mult.commute)
  with 2 show ?case by (simp add: unat_byte)
qed simp

lemma be_nat_bound: "be_nat bs < 256 ^ length bs"
proof (induction bs rule: rev_induct)
  case (snoc b bs)
  have "unat b < 256" using unsigned_less [of b] by simp
  with snoc show ?case by simp
qed simp

text \<open>\<^verbatim>\<open>struct\<close> packing of one unsigned field of \<open>k\<close> bytes.\<close>

definition pack_uint :: "nat \<Rightarrow> int \<Rightarrow> bytes result" where
  "pack_uint k i =
     (if 0 \<le> i \<and> i < 256 ^ k then Inr (be_bytes k (nat i)) else Inl StructError)"

lemma pack_uint_Inr:
  "pack_uint k i = Inr bs \<longleftrightarrow> 0 \<le> i \<and> i < 256 ^ k \<and> bs = be_bytes k (nat i)"
  by (auto simp: pack_uint_def)

lemma be_nat_nat [codec_simps]:
  assumes "0 \<le> i" "i < 256 ^ k"
  shows "int (be_nat (be_bytes k (nat i))) = i"
proof -
  have "nat i < 256 ^ k" using assms by (simp add: nat_less_iff)
  then show ?thesis using assms by (simp add: be_nat_be_bytes)
qed

end
