(* ===== verification/Identity.thy ===== *)
theory Identity
  imports PyText
begin

text \<open>
  The identity types of \<^verbatim>\<open>pyleans/identity.py\<close> and \<^verbatim>\<open>pyleans/cluster/identity.py\<close>:
  grains, silos and membership rows, the canonical text form of a silo with its parser, the
  order on silos, the cluster id and the 64-bit position hash. The digest
  (\<^verbatim>\<open>hashlib.sha256\<close>) is a parameter \<open>sha\<close> of every definition that hashes, and no
  theorem assumes anything of it.
\<close>

subsection \<open>identity.py\<close>

datatype SiloStatus = JOINING | ACTIVE | SHUTTING_DOWN | DEAD

fun status_value :: "SiloStatus \<Rightarrow> pystr" where
  "status_value JOINING = lit ''joining''"
| "status_value ACTIVE = lit ''active''"
| "status_value SHUTTING_DOWN = lit ''shutting_down''"
| "status_value DEAD = lit ''dead''"

text \<open>\<^verbatim>\<open>SiloStatus(value)\<close> looks the member up by value.\<close>

definition status_of_value :: "pystr \<Rightarrow> SiloStatus result" where
  "status_of_value v =
     (if v = status_value JOINING then Inr JOINING
      else if v = status_value ACTIVE then Inr ACTIVE
      else if v = status_value SHUTTING_DOWN then Inr SHUTTING_DOWN
      else if v = status_value DEAD then Inr DEAD
      else Inl ValueError)"

lemma status_of_value_inverse [codec_simps, simp]: "status_of_value (status_value s) = Inr s"
  by (cases s) (simp_all add: status_of_value_def del: list.map)

datatype GrainId = GrainId (grain_type: pystr) (grain_key: pystr)

definition grain_str :: "GrainId \<Rightarrow> pystr" where
  "grain_str g = grain_type g @ lit ''/'' @ grain_key g"

datatype SiloAddress = SiloAddress (host: pystr) (port: int) (epoch: int)

definition silo_id :: "SiloAddress \<Rightarrow> pystr" where
  "silo_id a = host a @ lit '':'' @ str_int (port a) @ lit '':'' @ str_int (epoch a)"

definition encoded :: "SiloAddress \<Rightarrow> pystr" where
  "encoded a = host a @ lit ''_'' @ str_int (port a) @ lit ''_'' @ str_int (epoch a)"

text \<open>A parse failure of either number is re-raised as a \<^verbatim>\<open>ValueError\<close>.\<close>

definition from_silo_id :: "pystr \<Rightarrow> SiloAddress result" where
  "from_silo_id s =
     (case rsplit 58 2 s of
        [h, port_str, epoch_str] \<Rightarrow>
          (case int_of_str port_str of
             Inl e \<Rightarrow> Inl ValueError
           | Inr p \<Rightarrow>
              (case int_of_str epoch_str of
                 Inl e \<Rightarrow> Inl ValueError
               | Inr q \<Rightarrow> Inr (SiloAddress h p q)))
      | _ \<Rightarrow> Inl ValueError)"

lemma colon_not_in_str_int: "58 \<notin> set (str_int i)"
  by (auto dest: str_int_chars simp: is_digit_def)

lemma from_silo_id_silo_id [codec_simps, simp]: "from_silo_id (silo_id a) = Inr a"
proof -
  have once: "rsplit_once 58 (silo_id a) = Some (host a @ 58 # str_int (port a), str_int (epoch a))"
    using rsplit_once_append [OF colon_not_in_str_int, of "host a @ 58 # str_int (port a)" "epoch a"]
    by (simp add: silo_id_def)
  have "rsplit 58 2 (silo_id a) = [host a, str_int (port a), str_int (epoch a)]"
    using once rsplit_once_append [OF colon_not_in_str_int, of "host a" "port a"]
    by (simp add: numeral_2_eq_2)
  then show ?thesis by (simp add: from_silo_id_def)
qed

lemma silo_id_inj [simp]: "silo_id a = silo_id b \<longleftrightarrow> a = b"
  by (metis from_silo_id_silo_id sum.inject(2))

text \<open>
  \<^verbatim>\<open>SiloAddress.__lt__\<close> compares the canonical forms. They are injective, so the
  comparison is a linear order.
\<close>

definition silo_address_lt :: "SiloAddress \<Rightarrow> SiloAddress \<Rightarrow> bool" where
  "silo_address_lt a b \<longleftrightarrow> silo_id a < silo_id b"

instantiation SiloAddress :: linorder
begin

definition less_eq_SiloAddress :: "SiloAddress \<Rightarrow> SiloAddress \<Rightarrow> bool" where
  "less_eq_SiloAddress a b \<longleftrightarrow> silo_address_lt a b \<or> a = b"

definition less_SiloAddress :: "SiloAddress \<Rightarrow> SiloAddress \<Rightarrow> bool" where
  "less_SiloAddress a b \<longleftrightarrow> silo_address_lt a b"

instance
  by standard (auto simp: less_eq_SiloAddress_def less_SiloAddress_def silo_address_lt_def not_less le_less)

end

lemma less_eq_silo_id: "a \<le> b \<longleftrightarrow> silo_id a \<le> silo_id (b :: SiloAddress)"
  by (auto simp: less_eq_SiloAddress_def silo_address_lt_def le_less)

lemma less_silo_id: "a < b \<longleftrightarrow> silo_id a < silo_id (b :: SiloAddress)"
  by (simp add: less_SiloAddress_def silo_address_lt_def)

datatype SuspicionVote = SuspicionVote (suspecting_silo: pystr) (timestamp: seconds)

record SiloInfo =
  address :: SiloAddress
  status :: SiloStatus
  last_heartbeat :: seconds
  start_time :: seconds
  cluster_id :: "pystr option"
  gateway_port :: "int option"
  row_version :: int
  i_am_alive :: seconds
  suspicions :: "SuspicionVote list"
  etag :: "pystr option"

subsection \<open>cluster/identity.py\<close>

datatype ClusterId = ClusterId (cluster_value: pystr)

text \<open>The constructor with its \<^verbatim>\<open>__post_init__\<close> check.\<close>

definition mk_ClusterId :: "pystr \<Rightarrow> ClusterId result" where
  "mk_ClusterId v =
     (if v = [] \<or> 47 \<in> set v \<or> 0 \<in> set v then Inl ValueError else Inr (ClusterId v))"

definition stable_hash :: "(bytes \<Rightarrow> bytes) \<Rightarrow> bytes \<Rightarrow> nat" where
  "stable_hash sha data = be_nat (take 8 (sha data))"

definition hash_grain_id :: "(bytes \<Rightarrow> bytes) \<Rightarrow> GrainId \<Rightarrow> nat" where
  "hash_grain_id sha g = stable_hash sha (utf8_bytes (grain_str g))"

definition hash_silo_virtual_node :: "(bytes \<Rightarrow> bytes) \<Rightarrow> SiloAddress \<Rightarrow> nat \<Rightarrow> nat" where
  "hash_silo_virtual_node sha s i =
     stable_hash sha (utf8_bytes (silo_id s @ lit ''#'' @ str_int (int i)))"

lemma stable_hash_bound: "stable_hash sha data < 2 ^ 64"
proof -
  have "be_nat (take 8 (sha data)) < 256 ^ length (take 8 (sha data))"
    by (rule be_nat_bound)
  also have "\<dots> \<le> 256 ^ 8"
    by (rule power_increasing) auto
  finally show ?thesis by (simp add: stable_hash_def)
qed

text \<open>
  A silo's canonical text form determines the silo, whatever its host, port and epoch:
  \<^verbatim>\<open>SiloAddress.from_silo_id\<close> parses every \<^verbatim>\<open>silo_id\<close> back to the address it came
  from, hosts that contain colons included, so two silos never share a row key, a handshake
  identity or a tie-break position.
\<close>

theorem silo_id_roundtrip:
  "from_silo_id (silo_id a) = Inr a \<and> (silo_id a = silo_id b \<longleftrightarrow> a = b)"
  by simp

end
