(* ===== verification/HashRing.thy ===== *)
theory HashRing
  imports Identity
begin

text \<open>
  \<^verbatim>\<open>pyleans/cluster/hash_ring.py\<close>: the consistent hash ring. \<open>ring_for\<close> is what
  the constructor builds once its argument check has passed, \<open>new_ring\<close> the constructor;
  lookups are the code's binary search and clockwise walk. The lemmas reduce both to
  order-free descriptions (the least position at or after a key; the first occurrences on
  the walk), from which determinism, minimal movement and the probe-target laws follow.
\<close>

datatype RingPosition = RingPosition (position: nat) (rp_silo: SiloAddress) (vnode_index: nat)

record ConsistentHashRing =
  ring_silos :: "SiloAddress list"
  ring_vnodes :: nat
  ring_positions :: "RingPosition list"
  ring_hashes :: "nat list"

definition VIRTUAL_NODES_PER_SILO :: int where
  "VIRTUAL_NODES_PER_SILO = 30"

definition pos_key :: "RingPosition \<Rightarrow> nat \<times> pystr \<times> nat" where
  "pos_key p = (position p, silo_id (rp_silo p), vnode_index p)"

definition silo_positions :: "(bytes \<Rightarrow> bytes) \<Rightarrow> nat \<Rightarrow> SiloAddress \<Rightarrow> RingPosition list" where
  "silo_positions sha v s =
     map (\<lambda>i. RingPosition (hash_silo_virtual_node sha s i) s i) [0..<v]"

definition build_positions ::
  "(bytes \<Rightarrow> bytes) \<Rightarrow> SiloAddress list \<Rightarrow> nat \<Rightarrow> RingPosition list" where
  "build_positions sha silos v = sort_key pos_key (concat (map (silo_positions sha v) silos))"

definition ring_for :: "(bytes \<Rightarrow> bytes) \<Rightarrow> SiloAddress list \<Rightarrow> nat \<Rightarrow> ConsistentHashRing" where
  "ring_for sha silos v =
     (let ss = sort_key silo_id (dedup silos); ps = build_positions sha ss v
      in \<lparr>ring_silos = ss, ring_vnodes = v, ring_positions = ps, ring_hashes = map position ps\<rparr>)"

definition new_ring :: "(bytes \<Rightarrow> bytes) \<Rightarrow> SiloAddress list \<Rightarrow> int \<Rightarrow> ConsistentHashRing result" where
  "new_ring sha silos v = (if v < 1 then Inl ValueError else Inr (ring_for sha silos (nat v)))"

text \<open>\<^verbatim>\<open>ConsistentHashRing(silos)\<close> with the default number of virtual nodes.\<close>

definition default_ring :: "(bytes \<Rightarrow> bytes) \<Rightarrow> SiloAddress list \<Rightarrow> ConsistentHashRing" where
  "default_ring sha silos = ring_for sha silos (nat VIRTUAL_NODES_PER_SILO)"

lemma new_ring_default: "new_ring sha silos VIRTUAL_NODES_PER_SILO = Inr (default_ring sha silos)"
  by (simp add: new_ring_def default_ring_def VIRTUAL_NODES_PER_SILO_def)

definition owner_of :: "ConsistentHashRing \<Rightarrow> nat \<Rightarrow> SiloAddress option" where
  "owner_of r key_hash =
     (if ring_positions r = [] then None
      else let index = bisect_left (ring_hashes r) key_hash;
               index = (if index = length (ring_positions r) then 0 else index)
           in Some (rp_silo (ring_positions r ! index)))"

fun first_vnode_from :: "nat \<Rightarrow> RingPosition list \<Rightarrow> SiloAddress \<Rightarrow> nat option" where
  "first_vnode_from i [] s = None"
| "first_vnode_from i (p # ps) s = (if rp_silo p = s then Some i else first_vnode_from (Suc i) ps s)"

definition first_vnode_index :: "ConsistentHashRing \<Rightarrow> SiloAddress \<Rightarrow> nat option" where
  "first_vnode_index r s = first_vnode_from 0 (ring_positions r) s"

text \<open>The loop of \<^verbatim>\<open>successors\<close> over the walked candidates, with its early exit.\<close>

fun succ_walk ::
  "SiloAddress list \<Rightarrow> nat \<Rightarrow> SiloAddress list \<Rightarrow> SiloAddress set \<Rightarrow> SiloAddress list" where
  "succ_walk [] n result seen = result"
| "succ_walk (c # cs) n result seen =
     (if c \<in> seen then succ_walk cs n result seen
      else let result' = result @ [c]
           in if length result' = n then result' else succ_walk cs n result' (insert c seen))"

definition successors :: "ConsistentHashRing \<Rightarrow> SiloAddress \<Rightarrow> int \<Rightarrow> SiloAddress list" where
  "successors r s n =
     (if n \<le> 0 \<or> s \<notin> set (ring_silos r) \<or> length (ring_silos r) \<le> 1 then []
      else case first_vnode_index r s of
             None \<Rightarrow> []
           | Some start \<Rightarrow>
               let total = length (ring_positions r)
               in succ_walk
                    (map (\<lambda>off. rp_silo (ring_positions r ! ((start + off) mod total)))
                      [1..<Suc total])
                    (nat n) [] {s})"

subsection \<open>The positions of a ring\<close>

lemma ring_for_simps [simp]:
  "ring_silos (ring_for sha silos v) = sort_key silo_id (dedup silos)"
  "ring_hashes (ring_for sha silos v) = map position (ring_positions (ring_for sha silos v))"
  "ring_vnodes (ring_for sha silos v) = v"
  by (simp_all add: ring_for_def Let_def)

lemma set_ring_silos: "set (ring_silos (ring_for sha silos v)) = set silos"
  by simp

lemma set_ring_positions:
  "set (ring_positions (ring_for sha silos v)) =
     {RingPosition (hash_silo_virtual_node sha s i) s i | s i. s \<in> set silos \<and> i < v}"
  by (auto simp: ring_for_def Let_def build_positions_def silo_positions_def)

lemma sorted_ring_positions: "sorted (map pos_key (ring_positions (ring_for sha silos v)))"
  by (simp add: ring_for_def Let_def build_positions_def)

lemma pos_key_fst: "pos_key p \<le> pos_key q \<Longrightarrow> position p \<le> position q"
  by (auto simp: pos_key_def less_eq_prod_def)

lemma sorted_map_mono:
  "sorted (map f xs) \<Longrightarrow> (\<And>x y. f x \<le> f y \<Longrightarrow> g x \<le> g y) \<Longrightarrow> sorted (map g xs)"
  by (induction xs) auto

lemma sorted_ring_hashes: "sorted (map position (ring_positions (ring_for sha silos v)))"
  using sorted_ring_positions by (rule sorted_map_mono) (rule pos_key_fst)

lemma pos_key_inj:
  assumes "p \<in> set (ring_positions (ring_for sha silos v))"
    and "q \<in> set (ring_positions (ring_for sha silos v))"
    and "pos_key p = pos_key q"
  shows "p = q"
  using assms by (cases p; cases q) (auto simp: pos_key_def)

lemma ring_silo_has_vnode:
  assumes "s \<in> set silos" "0 < v"
  shows "\<exists>p \<in> set (ring_positions (ring_for sha silos v)). rp_silo p = s"
  using assms by (auto simp: set_ring_positions intro!: exI [of _ 0])

lemma ring_positions_silos:
  "0 < v \<Longrightarrow> rp_silo ` set (ring_positions (ring_for sha silos v)) = set silos"
  by (auto simp: set_ring_positions image_def intro!: exI [of _ 0])

lemma ring_positions_empty:
  "0 < v \<Longrightarrow> ring_positions (ring_for sha silos v) = [] \<longleftrightarrow> silos = []"
  using ring_positions_silos [of v sha silos] by auto

text \<open>The ring depends on the set of silos only, not on their order or repetition.\<close>

lemma sort_key_silo_id: "sort_key silo_id xs = sort xs"
proof -
  have "sorted (sort_key silo_id xs)"
    using sorted_sort_key [of silo_id xs]
    by (rule sorted_map_mono [where g = "\<lambda>x. x", simplified]) (simp add: less_eq_silo_id)
  then show ?thesis by (intro properties_for_sort [symmetric]) simp_all
qed

lemma sort_silos_set:
  assumes "set xs = set ys"
  shows "sort_key silo_id (dedup xs) = sort_key silo_id (dedup ys)"
  unfolding sort_key_silo_id using assms by (intro sorted_distinct_set_unique) auto

lemma ring_for_cong: "set xs = set ys \<Longrightarrow> ring_for sha xs v = ring_for sha ys v"
  using sort_silos_set [of xs ys] by (simp add: ring_for_def)

subsection \<open>Ownership\<close>

text \<open>
  \<open>owns_key P k p\<close>: among the positions \<open>P\<close>, \<open>p\<close> is the first one clockwise from \<open>k\<close>,
  the least at or after \<open>k\<close> or, when there is none, the least of all.
\<close>

definition owns_key :: "RingPosition set \<Rightarrow> nat \<Rightarrow> RingPosition \<Rightarrow> bool" where
  "owns_key P k p \<longleftrightarrow> p \<in> P \<and>
     ((k \<le> position p \<and> (\<forall>q \<in> P. k \<le> position q \<longrightarrow> pos_key p \<le> pos_key q))
      \<or> ((\<forall>q \<in> P. position q < k) \<and> (\<forall>q \<in> P. pos_key p \<le> pos_key q)))"

lemma sorted_key_nth_le:
  "sorted (map f xs) \<Longrightarrow> i \<le> j \<Longrightarrow> j < length xs \<Longrightarrow> f (xs ! i) \<le> f (xs ! j)"
  using sorted_nth_mono [of "map f xs" i j] by simp

lemma owner_of_position:
  fixes sha silos v k
  defines "r \<equiv> ring_for sha silos v"
  defines "P \<equiv> ring_positions r"
  assumes "P \<noteq> []"
  shows "\<exists>i < length P. owner_of r k = Some (rp_silo (P ! i)) \<and> owns_key (set P) k (P ! i)"
proof -
  define b where "b = bisect_left (map position P) k"
  have sorted: "sorted (map position P)" "sorted (map pos_key P)"
    by (simp_all add: P_def r_def sorted_ring_hashes sorted_ring_positions)
  have b: "b \<le> length P" "\<And>i. i < b \<Longrightarrow> i < length P \<Longrightarrow> position (P ! i) < k"
    "\<And>i. b \<le> i \<Longrightarrow> i < length P \<Longrightarrow> k \<le> position (P ! i)"
    using bisect_left_spec(1) [OF sorted(1), of k] bisect_left_spec(2) [OF sorted(1), where x = k]
      bisect_left_spec(3) [OF sorted(1), where x = k]
    by (fastforce simp: b_def)+
  have own: "owner_of r k = Some (rp_silo (P ! (if b = length P then 0 else b)))"
    using assms(3) by (simp add: owner_of_def r_def P_def b_def Let_def)
  show ?thesis
  proof (cases "b = length P")
    case True
    have "position q < k" if "q \<in> set P" for q
      using that b(2) True by (auto simp: in_set_conv_nth)
    moreover have "pos_key (P ! 0) \<le> pos_key q" if "q \<in> set P" for q
      using that sorted_key_nth_le [OF sorted(2), of 0] by (auto simp: in_set_conv_nth)
    ultimately show ?thesis
      using own True assms(3) by (intro exI [of _ 0]) (auto simp: owns_key_def)
  next
    case False
    then have lt: "b < length P" using b(1) by simp
    have "pos_key (P ! b) \<le> pos_key q" if q: "q \<in> set P" "k \<le> position q" for q
    proof -
      obtain j where j: "j < length P" "q = P ! j" using q(1) by (auto simp: in_set_conv_nth)
      have "b \<le> j" using b(2) [of j] q(2) j by (auto simp: not_less [symmetric])
      then show ?thesis using sorted_key_nth_le [OF sorted(2)] j by simp
    qed
    then show ?thesis
      using own lt b(3) [of b] by (intro exI [of _ b]) (auto simp: owns_key_def)
  qed
qed

lemma owns_key_unique:
  assumes "owns_key P k p" "owns_key P k q"
    and "\<And>p q. p \<in> P \<Longrightarrow> q \<in> P \<Longrightarrow> pos_key p = pos_key q \<Longrightarrow> p = q"
  shows "p = q"
proof -
  have "pos_key p = pos_key q"
    using assms(1,2) by (fastforce simp: owns_key_def)
  then show ?thesis using assms by (auto simp: owns_key_def)
qed

lemma owner_of_iff:
  "owner_of (ring_for sha silos v) k = Some s \<longleftrightarrow>
     (\<exists>p. owns_key (set (ring_positions (ring_for sha silos v))) k p \<and> rp_silo p = s)"
    (is "?l \<longleftrightarrow> ?r")
proof (cases "ring_positions (ring_for sha silos v) = []")
  case True
  then show ?thesis by (auto simp: owner_of_def owns_key_def)
next
  case False
  from owner_of_position [OF False, of k] obtain q
    where "owner_of (ring_for sha silos v) k = Some (rp_silo q)"
      "owns_key (set (ring_positions (ring_for sha silos v))) k q" by auto
  then show ?thesis
    using owns_key_unique [of "set (ring_positions (ring_for sha silos v))" k]
      pos_key_inj [of _ sha silos v] by (metis option.inject)
qed

lemma owner_of_None: "0 < v \<Longrightarrow> owner_of (ring_for sha silos v) k = None \<longleftrightarrow> silos = []"
  by (auto simp: owner_of_def ring_positions_empty Let_def)

lemma owner_in_silos: "owner_of (ring_for sha silos v) k = Some s \<Longrightarrow> s \<in> set silos"
  by (auto simp: owner_of_iff owns_key_def set_ring_positions)

lemma owns_key_subset: "owns_key P' k p \<Longrightarrow> P \<subseteq> P' \<Longrightarrow> p \<in> P \<Longrightarrow> owns_key P k p"
  by (auto simp: owns_key_def)

lemma owner_of_shrink:
  assumes "set silos \<subseteq> set silos'" "owner_of (ring_for sha silos' v) k = Some s" "s \<in> set silos"
  shows "owner_of (ring_for sha silos v) k = Some s"
proof -
  from assms(2) obtain p where p: "owns_key (set (ring_positions (ring_for sha silos' v))) k p"
    "rp_silo p = s" by (auto simp: owner_of_iff)
  then have "p \<in> set (ring_positions (ring_for sha silos v))"
    using assms(3) by (auto simp: owns_key_def set_ring_positions)
  moreover have "set (ring_positions (ring_for sha silos v))
      \<subseteq> set (ring_positions (ring_for sha silos' v))"
    using assms(1) by (auto simp: set_ring_positions)
  ultimately show ?thesis
    using p by (auto simp: owner_of_iff intro: owns_key_subset)
qed

subsection \<open>Successors\<close>

text \<open>The walk collects the first occurrences of the silos not yet seen, up to the count.\<close>

lemma succ_walk_eq:
  "length result < n \<Longrightarrow>
   succ_walk cs n result seen
     = result @ take (n - length result) (dedup (filter (\<lambda>c. c \<notin> seen) cs))"
proof (induction cs n result seen rule: succ_walk.induct)
  case (2 c cs n result seen)
  show ?case
  proof (cases "c \<in> seen")
    case True
    with 2 show ?thesis by simp
  next
    case False
    have eq: "removeAll c (filter (\<lambda>d. d \<notin> seen) cs) = filter (\<lambda>d. d \<notin> insert c seen) cs"
      by (induction cs) auto
    show ?thesis
    proof (cases "length (result @ [c]) = n")
      case True
      then have "n - length result = Suc 0" by simp
      with False True show ?thesis by simp
    next
      case more: False
      then have "n - length result = Suc (n - length (result @ [c]))"
        using "2.prems" by simp
      moreover have "length (result @ [c]) < n" using more "2.prems" by simp
      ultimately show ?thesis
        using "2.IH"(2) [OF False refl more] False more by (simp add: eq)
    qed
  qed
qed simp

lemma first_vnode_from_Some:
  "(\<exists>p \<in> set ps. rp_silo p = s) \<Longrightarrow>
   \<exists>j < length ps. first_vnode_from i ps s = Some (i + j) \<and> rp_silo (ps ! j) = s"
proof (induction ps arbitrary: i)
  case (Cons p ps)
  show ?case
  proof (cases "rp_silo p = s")
    case False
    with Cons.prems have "\<exists>q \<in> set ps. rp_silo q = s" by auto
    from Cons.IH [OF this, of "Suc i"] obtain j where
      "j < length ps" "first_vnode_from (Suc i) ps s = Some (Suc i + j)" "rp_silo (ps ! j) = s"
      by auto
    with False show ?thesis by (intro exI [of _ "Suc j"]) auto
  qed auto
qed simp

lemma walk_is_rotation:
  "map (\<lambda>off. xs ! ((start + off) mod length xs)) [1..<Suc (length xs)] = rotate (Suc start) xs"
  by (rule nth_equalityI) (simp_all add: nth_rotate del: upt_Suc rotate_Suc)

text \<open>The silos in the order the walk meets them, without the starting silo.\<close>

lemma successors_walk:
  assumes "0 < n" "0 < v" "s \<in> set silos" "2 \<le> length (ring_silos (ring_for sha silos v))"
  shows "\<exists>cs. set cs = set silos
    \<and> successors (ring_for sha silos v) s n = take (nat n) (dedup (filter (\<lambda>c. c \<noteq> s) cs))"
proof -
  define P where "P = ring_positions (ring_for sha silos v)"
  obtain st where st: "st < length P" "first_vnode_index (ring_for sha silos v) s = Some st"
    using first_vnode_from_Some [of P s 0] ring_silo_has_vnode [OF assms(3,2), of sha]
    by (auto simp: P_def first_vnode_index_def)
  define cs where "cs = map (\<lambda>off. rp_silo (P ! ((st + off) mod length P))) [1..<Suc (length P)]"
  have "cs = map rp_silo (rotate (Suc st) P)"
    by (simp only: cs_def map_map comp_def flip: walk_is_rotation)
  then have "set cs = set silos"
    using ring_positions_silos [OF assms(2), of sha silos] by (simp add: P_def)
  moreover have "successors (ring_for sha silos v) s n = succ_walk cs (nat n) [] {s}"
    using assms st(2) by (simp add: successors_def cs_def P_def Let_def del: upt_Suc)
  ultimately show ?thesis
    using assms(1) by (auto simp: succ_walk_eq)
qed

lemma length_ring_silos: "length (ring_silos (ring_for sha silos v)) = card (set silos)"
  by (metis distinct_card distinct_dedup length_sort ring_for_simps(1) set_dedup)

lemma successors_of_ring:
  assumes "new_ring sha silos v = Inr r" "s \<in> set silos"
  shows "distinct (successors r s n) \<and> set (successors r s n) \<subseteq> set silos - {s}
    \<and> length (successors r s n) = min (nat n) (card (set silos - {s}))"
proof -
  have r: "r = ring_for sha silos (nat v)" and v: "0 < nat v"
    using assms(1) by (auto simp: new_ring_def split: if_splits)
  show ?thesis
  proof (cases "0 < n \<and> 2 \<le> length (ring_silos r)")
    case True
    then obtain cs where cs: "set cs = set silos"
      "successors r s n = take (nat n) (dedup (filter (\<lambda>c. c \<noteq> s) cs))"
      using successors_walk [OF _ v assms(2), of n sha] r by auto
    have set: "set (dedup (filter (\<lambda>c. c \<noteq> s) cs)) = set silos - {s}" using cs(1) by auto
    then have "length (dedup (filter (\<lambda>c. c \<noteq> s) cs)) = card (set silos - {s})"
      by (metis distinct_card distinct_dedup)
    then show ?thesis using cs(2) set set_take_subset by (fastforce simp: min_def)
  next
    case False
    then have "successors r s n = []" by (auto simp: successors_def)
    moreover have "n \<le> 0 \<or> card (set silos) \<le> 1"
      using False length_ring_silos [of sha silos "nat v"] r by auto
    then have "n \<le> 0 \<or> card (set silos - {s}) = 0"
      using assms(2) by (simp add: card_Diff_singleton)
    then have "min (nat n) (card (set silos - {s})) = 0" by (elim disjE) (simp, simp only: min_0R)
    ultimately show ?thesis by simp
  qed
qed

subsection \<open>Properties\<close>

text \<open>
  Ownership on the ring: with at least one virtual node per silo, every key has exactly
  one owner as soon as there is a silo, the owner is a member of the ring, and it is the silo
  of the least position at or after the key, or of the least position of all when the key lies
  beyond the last one, which is what the binary search with its wrap-around computes.
\<close>

theorem ring_owner_spec:
  assumes "new_ring sha silos v = Inr r"
  shows "(owner_of r k = None \<longleftrightarrow> silos = [])
    \<and> (\<forall>s. owner_of r k = Some s \<longleftrightarrow>
          s \<in> set silos \<and> (\<exists>p. owns_key (set (ring_positions r)) k p \<and> rp_silo p = s))"
proof -
  have "r = ring_for sha silos (nat v)" "0 < nat v"
    using assms by (auto simp: new_ring_def split: if_splits)
  then show ?thesis
    using owner_of_None owner_of_iff owner_in_silos by metis
qed

text \<open>Two concrete silos and a digest (the first byte) for the closed instances.\<close>

definition silo_a :: SiloAddress where
  "silo_a = SiloAddress (lit ''a'') 1 1"

definition silo_b :: SiloAddress where
  "silo_b = SiloAddress (lit ''b'') 1 1"

lemmas ring_eval = new_ring_def owner_of_def ring_for_def build_positions_def silo_positions_def
  hash_silo_virtual_node_def stable_hash_def silo_id_def str_int_def dec.simps utf8_bytes_def
  utf8_enc1_def be_nat_def pos_key_def Let_def bisect_left_def bisect_loop.simps
  silo_a_def silo_b_def

theorem ring_owner_spec_witness:
  "owner_of (ring_for (take 1) [silo_a, silo_b] 1) 98 \<noteq> None"
proof -
  have "new_ring (take 1) [silo_a, silo_b] 1 = Inr (ring_for (take 1) [silo_a, silo_b] 1)"
    by (simp add: new_ring_def)
  from conjunct1 [OF ring_owner_spec [OF this]] show ?thesis by simp
qed

text \<open>
  Two silos that build the ring from the same membership, whatever the order in which they
  list it and however often they list a silo, build the same ring, so they agree on the owner
  of every grain and on every silo's successors.
\<close>

theorem ring_agreement:
  assumes "set xs = set ys"
  shows "new_ring sha xs v = new_ring sha ys v"
  using ring_for_cong [OF assms] by (simp add: new_ring_def)

theorem ring_agreement_witness:
  "new_ring (take 1) [silo_b, silo_a, silo_b] 3 = new_ring (take 1) [silo_a, silo_b] 3"
  by (rule ring_agreement) auto

text \<open>
  C34. Minimal movement: when silos join (or leave) the cluster, a key whose owner in the larger
  ring is a member of the smaller one has the same owner in both. Keys therefore move only to
  the silos that joined, or away from the silos that left.
\<close>

theorem ring_minimal_movement:
  assumes "new_ring sha silos v = Inr r" "new_ring sha silos' v = Inr r'"
    and "set silos \<subseteq> set silos'" and "owner_of r' k = Some s" and "s \<in> set silos"
  shows "owner_of r k = Some s"
  using assms owner_of_shrink [of silos silos' sha "nat v" k s]
  by (auto simp: new_ring_def split: if_splits)

theorem ring_minimal_movement_witness:
  "owner_of (ring_for (take 1) [silo_b] 1) 98 = Some silo_b"
  by (rule ring_minimal_movement [of "take 1" "[silo_b]" 1 _ "[silo_a, silo_b]"
        "ring_for (take 1) [silo_a, silo_b] 1"])
    (simp_all add: ring_eval)

text \<open>
  Probe targets on the ring: for a member of a ring with at least one virtual node per silo,
  \<^verbatim>\<open>successors\<close> returns distinct silos of the ring, never the silo itself, and exactly as
  many as asked for or as there are others.
\<close>

theorem successors_spec:
  assumes "new_ring sha silos v = Inr r" "s \<in> set silos"
  shows "distinct (successors r s n) \<and> set (successors r s n) \<subseteq> set silos - {s}
    \<and> length (successors r s n) = min (nat n) (card (set silos - {s}))"
  by (rule successors_of_ring [OF assms])

theorem successors_spec_witness:
  "length (successors (ring_for (take 1) [silo_a, silo_b] 2) silo_a 5) = 1"
  using successors_spec [of "take 1" "[silo_a, silo_b]" 2 "ring_for (take 1) [silo_a, silo_b] 2" silo_a 5]
  by (simp add: new_ring_def silo_a_def silo_b_def insert_Diff_if)

end
