(* ===== verification/Placement.thy ===== *)
theory Placement
  imports HashRing
begin

text \<open>
  \<^verbatim>\<open>pyleans/cluster/placement.py\<close>: the strategies that pick the silo of a new
  activation. A pseudo-random draw is a parameter: \<open>rand seed n\<close> is the number drawn by a
  generator seeded with \<open>seed\<close>, and \<^verbatim>\<open>Random.choice\<close> on \<open>n\<close> elements takes the element
  at that number modulo \<open>n\<close>, which covers every in-range choice and needs no hypothesis.
  The locale \<open>placement_port\<close> is the contract of \<^verbatim>\<open>PlacementStrategy.pick_silo\<close>.
\<close>

type_synonym rand = "nat \<Rightarrow> nat \<Rightarrow> nat"

definition choice :: "rand \<Rightarrow> nat \<Rightarrow> 'a list \<Rightarrow> 'a" where
  "choice rand seed xs = xs ! (rand seed (length xs) mod length xs)"

lemma choice_in_set: "xs \<noteq> [] \<Longrightarrow> choice rand seed xs \<in> set xs"
  by (simp add: choice_def)

datatype PlacementStrategy = RandomPlacement | PreferLocalPlacement

definition require_silos :: "SiloAddress list \<Rightarrow> unit result" where
  "require_silos active = (if active = [] then Inl NoSilosAvailableError else Inr ())"

definition first_attempt_pick ::
  "rand \<Rightarrow> (bytes \<Rightarrow> bytes) \<Rightarrow> GrainId \<Rightarrow> SiloAddress list \<Rightarrow> SiloAddress" where
  "first_attempt_pick rand sha g active =
     choice rand (hash_grain_id sha g) (sort_key silo_id active)"

definition random_pick_silo ::
  "rand \<Rightarrow> (bytes \<Rightarrow> bytes) \<Rightarrow> GrainId \<Rightarrow> SiloAddress option \<Rightarrow> SiloAddress list \<Rightarrow> SiloAddress result"
  where
  "random_pick_silo rand sha g caller active =
     res_bind (require_silos active) (\<lambda>_. Inr (first_attempt_pick rand sha g active))"

text \<open>The retry draws from the strategy's own unseeded generator: \<open>draw\<close> is its next number.\<close>

definition pick_silo_retry :: "nat \<Rightarrow> SiloAddress list \<Rightarrow> SiloAddress result" where
  "pick_silo_retry draw active =
     res_bind (require_silos active) (\<lambda>_. Inr (choice (\<lambda>_ _. draw) 0 active))"

definition prefer_local_pick_silo ::
  "rand \<Rightarrow> (bytes \<Rightarrow> bytes) \<Rightarrow> GrainId \<Rightarrow> SiloAddress option \<Rightarrow> SiloAddress list \<Rightarrow> SiloAddress result"
  where
  "prefer_local_pick_silo rand sha g caller active =
     res_bind (require_silos active) (\<lambda>_.
       case caller of
         Some c \<Rightarrow> if c \<in> set active then Inr c else random_pick_silo rand sha g caller active
       | None \<Rightarrow> random_pick_silo rand sha g caller active)"

fun pick_silo ::
  "rand \<Rightarrow> (bytes \<Rightarrow> bytes) \<Rightarrow> PlacementStrategy \<Rightarrow> GrainId \<Rightarrow> SiloAddress option
   \<Rightarrow> SiloAddress list \<Rightarrow> SiloAddress result" where
  "pick_silo rand sha RandomPlacement = random_pick_silo rand sha"
| "pick_silo rand sha PreferLocalPlacement = prefer_local_pick_silo rand sha"

text \<open>
  The \<^verbatim>\<open>_placement_strategy\<close> attribute of a grain class, set by the \<^verbatim>\<open>placement\<close>
  decorator, with its default.
\<close>

definition get_placement_strategy :: "PlacementStrategy option \<Rightarrow> PlacementStrategy" where
  "get_placement_strategy attr = (case attr of None \<Rightarrow> RandomPlacement | Some s \<Rightarrow> s)"

subsection \<open>The placement contract\<close>

locale placement_port =
  fixes pick :: "GrainId \<Rightarrow> SiloAddress option \<Rightarrow> SiloAddress list \<Rightarrow> SiloAddress result"
  assumes pick_empty: "pick g caller [] = Inl NoSilosAvailableError"
    and pick_total: "active \<noteq> [] \<Longrightarrow> \<exists>s. pick g caller active = Inr s"
    and pick_active: "pick g caller active = Inr s \<Longrightarrow> s \<in> set active"
begin

lemma pick_cases:
  "(active = [] \<and> pick g caller active = Inl NoSilosAvailableError)
   \<or> (\<exists>s \<in> set active. pick g caller active = Inr s)"
  using pick_empty pick_total pick_active by (cases "active = []") blast+

lemma pick_singleton: "pick g caller [s] = Inr s"
  using pick_total [of "[s]" g caller] pick_active [of g caller "[s]"] by auto

end

lemma random_pick_eq:
  "random_pick_silo rand sha g caller active =
     (if active = [] then Inl NoSilosAvailableError else Inr (first_attempt_pick rand sha g active))"
  by (simp add: random_pick_silo_def require_silos_def)

lemma first_attempt_pick_active: "active \<noteq> [] \<Longrightarrow> first_attempt_pick rand sha g active \<in> set active"
proof -
  assume "active \<noteq> []"
  then have "sort_key silo_id active \<noteq> []" by (metis set_empty set_sort)
  then show ?thesis unfolding first_attempt_pick_def by (metis choice_in_set set_sort)
qed

interpretation placement: placement_port "pick_silo rand sha strategy" for rand sha strategy
proof unfold_locales
  show "pick_silo rand sha strategy g caller [] = Inl NoSilosAvailableError" for g caller
    by (cases strategy) (simp_all add: random_pick_eq prefer_local_pick_silo_def require_silos_def)
  show "\<exists>s. pick_silo rand sha strategy g caller active = Inr s" if "active \<noteq> []" for g caller active
    using that by (cases strategy)
      (auto simp: random_pick_eq prefer_local_pick_silo_def require_silos_def split: option.split)
  show "s \<in> set active" if "pick_silo rand sha strategy g caller active = Inr s" for g caller active s
    using that by (cases strategy)
      (auto simp: random_pick_eq prefer_local_pick_silo_def require_silos_def
        dest: first_attempt_pick_active split: option.splits if_splits)
qed

subsection \<open>Properties\<close>

text \<open>
  Placement of a new activation: every strategy fails with \<^verbatim>\<open>NoSilosAvailableError\<close>
  exactly when there is no active silo and otherwise returns an active silo; the prefer-local
  strategy returns the caller whenever the caller is active; and the first attempt of the
  random strategy depends on the grain and on the active silos but not on the order in which
  they are listed, so two clients that race to activate one grain choose the same silo.
\<close>

theorem placement_contract:
  shows "((\<exists>e. pick_silo rand sha strategy g caller active = Inl e) \<longleftrightarrow> active = [])
    \<and> pick_silo rand sha strategy g caller [] = Inl NoSilosAvailableError
    \<and> (\<forall>s. pick_silo rand sha strategy g caller active = Inr s \<longrightarrow> s \<in> set active)
    \<and> (\<forall>c. c \<in> set active \<longrightarrow> pick_silo rand sha PreferLocalPlacement g (Some c) active = Inr c)
    \<and> (\<forall>active'. mset active = mset active' \<longrightarrow>
          pick_silo rand sha RandomPlacement g caller active
            = pick_silo rand sha RandomPlacement g caller' active')"
  (is "?fail \<and> ?none \<and> ?act \<and> ?local \<and> ?race")
proof (intro conjI)
  show ?fail
    using placement.pick_cases [of active rand sha strategy g caller] by auto
  show ?none by (rule placement.pick_empty)
  show ?act using placement.pick_active by blast
  show ?local by (auto simp: prefer_local_pick_silo_def require_silos_def)
  show ?race
  proof (intro allI impI)
    fix active' assume eq: "mset active = mset active'"
    then have "sort_key silo_id active = sort_key silo_id active'"
      unfolding sort_key_silo_id by (intro properties_for_sort) simp_all
    with eq show "pick_silo rand sha RandomPlacement g caller active
        = pick_silo rand sha RandomPlacement g caller' active'"
      by (auto simp: random_pick_eq first_attempt_pick_def)
  qed
qed

theorem placement_contract_witness:
  "pick_silo (\<lambda>_ _. 5) (take 1) PreferLocalPlacement (GrainId [] []) (Some silo_b) [silo_a, silo_b]
     = Inr silo_b"
  using placement_contract [of "\<lambda>_ _. 5" "take 1" PreferLocalPlacement "GrainId [] []"
      "Some silo_b" "[silo_a, silo_b]" None] by simp

end
