(* ===== verification/Directory.thy ===== *)
theory Directory
  imports Placement
begin

text \<open>
  The grain directory port (\<^verbatim>\<open>pyleans/cluster/directory.py\<close>) and its single-silo
  adapter (\<^verbatim>\<open>pyleans/server/local_directory.py\<close>). The locale \<open>grain_directory\<close> is
  the contract of the port: register-if-absent, owner-checked unregister, find-or-allocate,
  and epochs that grow with every new registration. What a client observes of any directory
  is the list of its answers, and the locale proves once that these answers never name two
  activations of a grain that was not unregistered in between.
\<close>

datatype DirectoryEntry =
  DirectoryEntry (entry_grain: GrainId) (entry_silo: SiloAddress) (activation_epoch: int)

text \<open>A placement strategy object, as the directory calls it.\<close>

type_synonym picker = "GrainId \<Rightarrow> SiloAddress option \<Rightarrow> SiloAddress list \<Rightarrow> SiloAddress result"

subsection \<open>What a client observes\<close>

datatype dir_op =
    Register GrainId SiloAddress
  | Lookup GrainId
  | Unregister GrainId SiloAddress
  | Resolve picker GrainId "SiloAddress option"

fun dir_answers ::
  "('d \<Rightarrow> GrainId \<Rightarrow> DirectoryEntry option)
   \<Rightarrow> (GrainId \<Rightarrow> SiloAddress \<Rightarrow> 'd \<Rightarrow> DirectoryEntry \<times> 'd)
   \<Rightarrow> (GrainId \<Rightarrow> SiloAddress \<Rightarrow> 'd \<Rightarrow> 'd)
   \<Rightarrow> (picker \<Rightarrow> GrainId \<Rightarrow> SiloAddress option \<Rightarrow> 'd \<Rightarrow> DirectoryEntry result \<times> 'd)
   \<Rightarrow> dir_op list \<Rightarrow> 'd \<Rightarrow> (GrainId \<times> DirectoryEntry) list" where
  "dir_answers lk rg un rs [] d = []"
| "dir_answers lk rg un rs (Register g s # ops) d =
     (case rg g s d of (e, d') \<Rightarrow> (g, e) # dir_answers lk rg un rs ops d')"
| "dir_answers lk rg un rs (Lookup g # ops) d =
     (case lk d g of
        None \<Rightarrow> dir_answers lk rg un rs ops d
      | Some e \<Rightarrow> (g, e) # dir_answers lk rg un rs ops d)"
| "dir_answers lk rg un rs (Unregister g s # ops) d = dir_answers lk rg un rs ops (un g s d)"
| "dir_answers lk rg un rs (Resolve p g c # ops) d =
     (case rs p g c d of
        (Inl _, d') \<Rightarrow> dir_answers lk rg un rs ops d'
      | (Inr e, d') \<Rightarrow> (g, e) # dir_answers lk rg un rs ops d')"

text \<open>A list of answers in which two entries of one grain are equal or have grown in epoch.\<close>

definition answers_ordered :: "(GrainId \<times> DirectoryEntry) list \<Rightarrow> bool" where
  "answers_ordered =
     sorted_wrt (\<lambda>(g, e) (g', e'). g = g' \<longrightarrow> e = e' \<or> activation_epoch e < activation_epoch e')"

definition unregisters :: "GrainId \<Rightarrow> dir_op \<Rightarrow> bool" where
  "unregisters g op = (case op of Unregister g' s \<Rightarrow> g' = g | _ \<Rightarrow> False)"

subsection \<open>The port\<close>

locale grain_directory =
  fixes lk :: "'d \<Rightarrow> GrainId \<Rightarrow> DirectoryEntry option"
    and rg :: "GrainId \<Rightarrow> SiloAddress \<Rightarrow> 'd \<Rightarrow> DirectoryEntry \<times> 'd"
    and un :: "GrainId \<Rightarrow> SiloAddress \<Rightarrow> 'd \<Rightarrow> 'd"
    and rs :: "picker \<Rightarrow> GrainId \<Rightarrow> SiloAddress option \<Rightarrow> 'd \<Rightarrow> DirectoryEntry result \<times> 'd"
    and last_epoch :: "'d \<Rightarrow> int"
    and invar :: "'d \<Rightarrow> bool"
  assumes entry_ok: "invar d \<Longrightarrow> lk d g = Some e \<Longrightarrow> entry_grain e = g \<and> activation_epoch e \<le> last_epoch d"
    and register_present: "invar d \<Longrightarrow> lk d g = Some e \<Longrightarrow> rg g s d = (e, d)"
    and register_absent: "invar d \<Longrightarrow> lk d g = None \<Longrightarrow> rg g s d = (e, d') \<Longrightarrow>
      e = DirectoryEntry g s (last_epoch d + 1) \<and> lk d' = (lk d)(g \<mapsto> e)
      \<and> last_epoch d' = last_epoch d + 1 \<and> invar d'"
    and unregister_lookup: "invar d \<Longrightarrow> lk (un g s d) =
      (if \<exists>e. lk d g = Some e \<and> entry_silo e = s then (lk d)(g := None) else lk d)"
    and unregister_state: "invar d \<Longrightarrow> invar (un g s d) \<and> last_epoch (un g s d) = last_epoch d"
    and resolve_present: "invar d \<Longrightarrow> lk d g = Some e \<Longrightarrow> rs p g c d = (Inr e, d)"
    and resolve_absent: "invar d \<Longrightarrow> lk d g = None \<Longrightarrow> rs p g c d = (r, d') \<Longrightarrow>
      (\<exists>x. r = Inl x \<and> d' = d)
      \<or> (\<exists>s. r = Inr (DirectoryEntry g s (last_epoch d + 1))
           \<and> lk d' = (lk d)(g \<mapsto> DirectoryEntry g s (last_epoch d + 1))
           \<and> last_epoch d' = last_epoch d + 1 \<and> invar d')"
begin

abbreviation answers :: "dir_op list \<Rightarrow> 'd \<Rightarrow> (GrainId \<times> DirectoryEntry) list" where
  "answers \<equiv> dir_answers lk rg un rs"

text \<open>One step towards an answer: the entry is recorded, and old or of a new epoch.\<close>

lemma register_step:
  assumes "invar d" "rg g s d = (e, d')"
  shows "invar d' \<and> lk d' = (lk d)(g \<mapsto> e) \<and> last_epoch d \<le> last_epoch d'
    \<and> (lk d g = Some e \<or> lk d g = None \<and> last_epoch d < activation_epoch e)"
proof (cases "lk d g")
  case None
  with register_absent [OF assms(1) None assms(2)] show ?thesis by auto
next
  case (Some e')
  with register_present [OF assms(1) Some] assms show ?thesis by auto
qed

lemma resolve_step:
  assumes "invar d" "rs p g c d = (r, d')"
  shows "invar d' \<and> last_epoch d \<le> last_epoch d' \<and>
    (case r of
       Inl x \<Rightarrow> d' = d
     | Inr e \<Rightarrow> lk d' = (lk d)(g \<mapsto> e)
         \<and> (lk d g = Some e \<or> lk d g = None \<and> last_epoch d < activation_epoch e))"
proof (cases "lk d g")
  case None
  with resolve_absent [OF assms(1) None assms(2)] assms(1) show ?thesis by auto
next
  case (Some e')
  with resolve_present [OF assms(1) Some] assms show ?thesis by (auto simp: fun_upd_idem)
qed

text \<open>An answer names the entry on record or one of a later epoch than all on record.\<close>

lemma answer_origin:
  "invar d \<Longrightarrow> (g, e) \<in> set (answers ops d) \<Longrightarrow> lk d g = Some e \<or> last_epoch d < activation_epoch e"
proof (induction ops arbitrary: d)
  case (Cons op ops)
  note IH = Cons.IH
  show ?case
  proof (cases op)
    case (Register g' s)
    obtain e' d' where r: "rg g' s d = (e', d')" by fastforce
    from register_step [OF Cons.prems(1) r] IH [of d'] Cons.prems(2) r Register
    show ?thesis by (auto split: if_splits)
  next
    case (Lookup g')
    with Cons.prems IH [of d] show ?thesis by (auto split: option.splits)
  next
    case (Unregister g' s)
    with Cons.prems IH [of "un g' s d"] unregister_state [of d g' s] unregister_lookup [of d g' s]
    show ?thesis by (auto split: if_splits)
  next
    case (Resolve p g' c)
    obtain r d' where r: "rs p g' c d = (r, d')" by fastforce
    from resolve_step [OF Cons.prems(1) r] IH [of d'] Cons.prems(2) r Resolve
    show ?thesis by (auto split: if_splits sum.splits)
  qed
qed simp

text \<open>Answers that extend a recorded entry stay ordered after it.\<close>

lemma answer_after:
  assumes "invar d'" "lk d' g = Some e" "(g, e') \<in> set (answers ops d')"
  shows "e = e' \<or> activation_epoch e < activation_epoch e'"
  using answer_origin [OF assms(1,3)] entry_ok [OF assms(1,2)] assms(2) by auto

lemma answers_ordered_run: "invar d \<Longrightarrow> answers_ordered (answers ops d)"
proof (induction ops arbitrary: d)
  case Nil
  then show ?case by (simp add: answers_ordered_def)
next
  case (Cons op ops)
  have step: "answers_ordered ((g, e) # answers ops d')" if "invar d'" "lk d' g = Some e" for g e d'
    using Cons.IH [OF that(1)] answer_after [OF that] by (auto simp: answers_ordered_def)
  show ?case
  proof (cases op)
    case (Register g' s)
    obtain e' d' where r: "rg g' s d = (e', d')" by fastforce
    with register_step [OF Cons.prems r] Register show ?thesis by (simp add: step)
  next
    case (Lookup g')
    with Cons show ?thesis by (auto split: option.split simp: step)
  next
    case (Unregister g' s)
    with Cons unregister_state show ?thesis by simp
  next
    case (Resolve p g' c)
    obtain r d' where r: "rs p g' c d = (r, d')" by fastforce
    with resolve_step [OF Cons.prems r] Resolve Cons.IH [of d'] show ?thesis
      by (auto split: sum.split simp: step)
  qed
qed

text \<open>Without an unregister of the grain its recorded entry is the only answer.\<close>

lemma answers_stable:
  "invar d \<Longrightarrow> lk d g = Some e \<Longrightarrow> \<forall>op \<in> set ops. \<not> unregisters g op \<Longrightarrow>
   (g, e') \<in> set (answers ops d) \<Longrightarrow> e' = e"
proof (induction ops arbitrary: d)
  case (Cons op ops)
  note IH = Cons.IH
  show ?case
  proof (cases op)
    case (Register g' s)
    obtain x d' where r: "rg g' s d = (x, d')" by fastforce
    from register_step [OF Cons.prems(1) r] IH [of d'] Cons.prems r Register
    show ?thesis by (cases "g = g'") auto
  next
    case (Lookup g')
    with Cons.prems IH [of d] show ?thesis by (auto split: option.splits)
  next
    case (Unregister g' s)
    then have "g \<noteq> g'" using Cons.prems(3) by (auto simp: unregisters_def)
    with Unregister Cons.prems IH [of "un g' s d"] unregister_state [of d g' s]
      unregister_lookup [of d g' s]
    show ?thesis by (auto split: if_splits)
  next
    case (Resolve p g' c)
    obtain r d' where r: "rs p g' c d = (r, d')" by fastforce
    from resolve_step [OF Cons.prems(1) r] IH [of d'] Cons.prems r Resolve
    show ?thesis by (cases "g = g'") (auto split: sum.splits)
  qed
qed simp

lemma single_activation:
  "invar d \<Longrightarrow> \<forall>op \<in> set ops. \<not> unregisters g op \<Longrightarrow>
   (g, e) \<in> set (answers ops d) \<Longrightarrow> (g, e') \<in> set (answers ops d) \<Longrightarrow> e = e'"
proof (induction ops arbitrary: d)
  case (Cons op ops)
  have step: "e = e'"
    if "invar d'" "answers (op # ops) d = (g', x) # answers ops d'" "lk d' g' = Some x" for g' x d'
    using that Cons.IH [OF that(1)] Cons.prems answers_stable [OF that(1), of g _ ops]
    by (cases "g' = g") auto
  show ?case
  proof (cases op)
    case (Register g' s)
    obtain x d' where r: "rg g' s d = (x, d')" by fastforce
    show ?thesis
      by (rule step [of d' g' x]) (use register_step [OF Cons.prems(1) r] r Register in auto)
  next
    case (Lookup g')
    show ?thesis
    proof (cases "lk d g'")
      case None
      with Lookup Cons show ?thesis by auto
    next
      case (Some x)
      show ?thesis by (rule step [of d g' x]) (use Some Lookup Cons.prems in auto)
    qed
  next
    case (Unregister g' s)
    with Cons unregister_state [of d g' s] show ?thesis by auto
  next
    case (Resolve p g' c)
    obtain r d' where r: "rs p g' c d = (r, d')" by fastforce
    note res = resolve_step [OF Cons.prems(1) r]
    show ?thesis
    proof (cases r)
      case (Inl x)
      with Resolve r res Cons show ?thesis by auto
    next
      case (Inr x)
      show ?thesis by (rule step [of d' g' x]) (use Inr Resolve r res in auto)
    qed
  qed
qed simp

end

subsection \<open>Entry tables\<close>

text \<open>
  Both adapters keep their entries in a dict next to an epoch counter. \<open>table_ok\<close> is the
  invariant they share: every entry is filed under its own grain and no epoch exceeds the
  counter.
\<close>

definition table_ok :: "(GrainId, DirectoryEntry) dict \<Rightarrow> int \<Rightarrow> bool" where
  "table_ok t n \<longleftrightarrow> dict_ok t
     \<and> (\<forall>g e. dget t g = Some e \<longrightarrow> entry_grain e = g \<and> activation_epoch e \<le> n)"

lemma table_ok_Nil [simp]: "table_ok [] n"
  by (simp add: table_ok_def)

lemma table_ok_get:
  "table_ok t n \<Longrightarrow> dget t g = Some e \<Longrightarrow> entry_grain e = g \<and> activation_epoch e \<le> n"
  by (auto simp: table_ok_def)

lemma table_ok_set:
  "table_ok t n \<Longrightarrow> entry_grain e = g \<Longrightarrow> activation_epoch e \<le> m \<Longrightarrow> n \<le> m \<Longrightarrow> table_ok (dset t g e) m"
  by (fastforce simp: table_ok_def)

lemma table_ok_pop: "table_ok t n \<Longrightarrow> table_ok (dpop t g) n"
  by (auto simp: table_ok_def split: if_splits)

lemma table_ok_filter: "table_ok t n \<Longrightarrow> table_ok (filter P t) n"
  unfolding table_ok_def by (auto simp: dget_Some_iff)

lemma dget_dset_fun: "dget (dset t g e) = (dget t)(g \<mapsto> e)"
  by (simp add: fun_eq_iff)

lemma dget_dpop_fun: "dget (dpop t g) = (dget t)(g := None)"
  by (simp add: fun_eq_iff)

end
