(* ===== verification/LocalDirectory.thy ===== *)
theory LocalDirectory
  imports Directory
begin

text \<open>
  \<^verbatim>\<open>pyleans/server/local_directory.py\<close>: the directory of a single silo. Every operation
  runs to completion under the adapter's lock (nothing awaits while holding it), so an
  operation is one state transition. It interprets the directory port.
\<close>

record LocalGrainDirectory =
  ld_local :: SiloAddress
  ld_entries :: "(GrainId, DirectoryEntry) dict"
  ld_epoch :: int

definition new_local_directory :: "SiloAddress \<Rightarrow> LocalGrainDirectory" where
  "new_local_directory s = \<lparr>ld_local = s, ld_entries = [], ld_epoch = 0\<rparr>"

definition local_register ::
  "GrainId \<Rightarrow> SiloAddress \<Rightarrow> LocalGrainDirectory \<Rightarrow> DirectoryEntry \<times> LocalGrainDirectory" where
  "local_register g s d =
     (case dget (ld_entries d) g of
        Some existing \<Rightarrow> (existing, d)
      | None \<Rightarrow>
          let n = ld_epoch d + 1; entry = DirectoryEntry g s n
          in (entry, d\<lparr>ld_epoch := n, ld_entries := dset (ld_entries d) g entry\<rparr>))"

definition local_lookup :: "LocalGrainDirectory \<Rightarrow> GrainId \<Rightarrow> DirectoryEntry option" where
  "local_lookup d g = dget (ld_entries d) g"

definition local_unregister ::
  "GrainId \<Rightarrow> SiloAddress \<Rightarrow> LocalGrainDirectory \<Rightarrow> LocalGrainDirectory" where
  "local_unregister g s d =
     (case dget (ld_entries d) g of
        None \<Rightarrow> d
      | Some entry \<Rightarrow>
          if entry_silo entry \<noteq> s then d else d\<lparr>ld_entries := dpop (ld_entries d) g\<rparr>)"

definition local_resolve ::
  "picker \<Rightarrow> GrainId \<Rightarrow> SiloAddress option \<Rightarrow> LocalGrainDirectory
   \<Rightarrow> DirectoryEntry result \<times> LocalGrainDirectory" where
  "local_resolve pick g caller d =
     (case dget (ld_entries d) g of
        Some existing \<Rightarrow> (Inr existing, d)
      | None \<Rightarrow>
          (case pick g caller [ld_local d] of
             Inl e \<Rightarrow> (Inl e, d)
           | Inr chosen \<Rightarrow>
               if chosen \<noteq> ld_local d then (Inl RuntimeError, d)
               else (case local_register g (ld_local d) d of (entry, d') \<Rightarrow> (Inr entry, d'))))"

definition local_ok :: "LocalGrainDirectory \<Rightarrow> bool" where
  "local_ok d \<longleftrightarrow> table_ok (ld_entries d) (ld_epoch d)"

lemma local_ok_new: "local_ok (new_local_directory s)"
  by (simp add: local_ok_def new_local_directory_def)

interpretation local_dir: grain_directory local_lookup local_register local_unregister local_resolve
  ld_epoch local_ok
proof unfold_locales
  fix d g e
  assume ok: "local_ok d" and get: "local_lookup d g = Some e"
  from ok get show "entry_grain e = g \<and> activation_epoch e \<le> ld_epoch d"
    by (auto simp: local_ok_def local_lookup_def dest: table_ok_get)
  from get show "local_register g s d = (e, d)" for s
    by (simp add: local_lookup_def local_register_def)
  from get show "local_resolve p g c d = (Inr e, d)" for p c
    by (simp add: local_lookup_def local_resolve_def)
next
  fix d g s e d'
  assume ok: "local_ok d" and get: "local_lookup d g = None" and rg: "local_register g s d = (e, d')"
  from get rg have e: "e = DirectoryEntry g s (ld_epoch d + 1)"
    "d' = d\<lparr>ld_epoch := ld_epoch d + 1, ld_entries := dset (ld_entries d) g e\<rparr>"
    by (auto simp: local_lookup_def local_register_def Let_def)
  with ok show "e = DirectoryEntry g s (ld_epoch d + 1) \<and> local_lookup d' = (local_lookup d)(g \<mapsto> e)
      \<and> ld_epoch d' = ld_epoch d + 1 \<and> local_ok d'"
    by (auto simp: local_lookup_def [abs_def] local_ok_def dget_dset_fun intro: table_ok_set)
next
  fix d g s
  assume ok: "local_ok d"
  then show "local_lookup (local_unregister g s d) =
      (if \<exists>e. local_lookup d g = Some e \<and> entry_silo e = s then (local_lookup d)(g := None)
       else local_lookup d)"
    by (auto simp: local_lookup_def [abs_def] local_unregister_def dget_dpop_fun split: option.split)
  from ok show "local_ok (local_unregister g s d) \<and> ld_epoch (local_unregister g s d) = ld_epoch d"
    by (auto simp: local_unregister_def local_ok_def table_ok_pop split: option.split)
next
  fix d g p c r d'
  assume ok: "local_ok d" and get: "local_lookup d g = None" and rs: "local_resolve p g c d = (r, d')"
  let ?e = "\<lambda>s. DirectoryEntry g s (ld_epoch d + 1)"
  have "table_ok (dset (ld_entries d) g (?e (ld_local d))) (ld_epoch d + 1)"
    using ok by (auto simp: local_ok_def intro: table_ok_set)
  then show "(\<exists>x. r = Inl x \<and> d' = d) \<or> (\<exists>s. r = Inr (?e s) \<and> local_lookup d' = (local_lookup d)(g \<mapsto> ?e s)
      \<and> ld_epoch d' = ld_epoch d + 1 \<and> local_ok d')"
    using get rs by (auto simp: local_lookup_def [abs_def] local_resolve_def local_register_def Let_def
        local_ok_def dget_dset_fun split: sum.splits if_splits)
qed

subsection \<open>Properties\<close>

text \<open>
  The single-silo directory and its clients: over any sequence of calls from a new directory,
  the answers for one grain are ordered by epoch, a later answer being either the same entry or
  one of a strictly higher epoch, so a stale reference can be told from a current one; and while
  the grain is not unregistered all answers for it are the same entry.
\<close>

theorem local_directory_answers:
  shows "answers_ordered
      (dir_answers local_lookup local_register local_unregister local_resolve ops (new_local_directory s))
    \<and> (\<forall>g e e'. (\<forall>op \<in> set ops. \<not> unregisters g op) \<longrightarrow>
        {(g, e), (g, e')} \<subseteq> set (dir_answers local_lookup local_register local_unregister
          local_resolve ops (new_local_directory s)) \<longrightarrow> e = e')"
  using local_dir.answers_ordered_run [OF local_ok_new]
    local_dir.single_activation [OF local_ok_new] by auto

definition grain_x :: GrainId where
  "grain_x = GrainId (lit ''Counter'') (lit ''x'')"

theorem local_directory_answers_witness:
  "let ops = [Register grain_x silo_a, Register grain_x silo_b, Unregister grain_x silo_b, Lookup grain_x]
   in answers_ordered (dir_answers local_lookup local_register local_unregister local_resolve ops
        (new_local_directory silo_a))
     \<and> set (dir_answers local_lookup local_register local_unregister local_resolve
          [Register grain_x silo_a, Register grain_x silo_b] (new_local_directory silo_a))
        = {(grain_x, DirectoryEntry grain_x silo_a 1)}"
proof -
  let ?run = "\<lambda>ops. dir_answers local_lookup local_register local_unregister local_resolve ops
    (new_local_directory silo_a)"
  have "\<forall>e. (grain_x, e) \<in> set (?run [Register grain_x silo_a, Register grain_x silo_b]) \<longrightarrow>
      e = DirectoryEntry grain_x silo_a 1"
    using conjunct2 [OF local_directory_answers [of "[Register grain_x silo_a, Register grain_x silo_b]" silo_a]]
    by (simp add: unregisters_def local_register_def new_local_directory_def Let_def)
  moreover have "answers_ordered (?run [Register grain_x silo_a, Register grain_x silo_b,
      Unregister grain_x silo_b, Lookup grain_x])"
    by (rule conjunct1 [OF local_directory_answers])
  ultimately show ?thesis
    by (simp add: local_register_def new_local_directory_def Let_def)
qed

text \<open>
  \<^verbatim>\<open>resolve_or_activate\<close> of the single-silo directory: a registered grain is answered
  from the table without consulting placement; otherwise a strategy that honours the placement
  contract always yields a new entry on the local silo with the next epoch, and the assertion
  that placement stayed local never fires.
\<close>

theorem local_resolve_spec:
  assumes "dget (ld_entries d) g = None"
  shows "local_resolve (pick_silo rand sha strategy) g caller d =
    (Inr (DirectoryEntry g (ld_local d) (ld_epoch d + 1)),
     d\<lparr>ld_epoch := ld_epoch d + 1,
       ld_entries := dset (ld_entries d) g (DirectoryEntry g (ld_local d) (ld_epoch d + 1))\<rparr>)"
  using assms by (simp add: local_resolve_def placement.pick_singleton local_register_def Let_def)

theorem local_resolve_spec_witness:
  "fst (local_resolve (pick_silo (\<lambda>_ _. 3) (take 1) PreferLocalPlacement) grain_x (Some silo_b)
      (new_local_directory silo_a)) = Inr (DirectoryEntry grain_x silo_a 1)"
  using local_resolve_spec [of "new_local_directory silo_a" grain_x "\<lambda>_ _. 3" "take 1"
      PreferLocalPlacement "Some silo_b"]
  by (simp add: new_local_directory_def)

end
