(* ===== verification/DirectoryCache.thy ===== *)
theory DirectoryCache
  imports LocalDirectory
begin

text \<open>
  \<^verbatim>\<open>pyleans/cluster/directory_cache.py\<close>: the LRU cache with expiry in front of any
  directory. The inner directory is a record of operations over its own state; a clock
  reading is an argument of the operation that takes it (\<open>now\<close> when the cached entry is
  checked, \<open>later\<close> when an answer of the inner directory is stored, since the code awaits
  between the two). The cache proves to be transparent over every directory that satisfies
  the port's contract, as long as all calls go through it.
\<close>

record 'd IGrainDirectory =
  in_register :: "GrainId \<Rightarrow> SiloAddress \<Rightarrow> 'd \<Rightarrow> DirectoryEntry result \<times> 'd"
  in_lookup :: "GrainId \<Rightarrow> 'd \<Rightarrow> DirectoryEntry option result \<times> 'd"
  in_unregister :: "GrainId \<Rightarrow> SiloAddress \<Rightarrow> 'd \<Rightarrow> unit result \<times> 'd"
  in_resolve :: "picker \<Rightarrow> GrainId \<Rightarrow> SiloAddress option \<Rightarrow> 'd \<Rightarrow> DirectoryEntry result \<times> 'd"

datatype CacheEntry = CacheEntry (cached_value: DirectoryEntry) (expires_at: seconds)

definition is_expired :: "CacheEntry \<Rightarrow> seconds \<Rightarrow> bool" where
  "is_expired e now \<longleftrightarrow> expires_at e \<le> now"

record 'd DirectoryCache =
  dc_inner :: 'd
  dc_max_size :: int
  dc_ttl :: seconds
  dc_cache :: "(GrainId, CacheEntry) dict"

definition new_cache :: "'d \<Rightarrow> int \<Rightarrow> seconds \<Rightarrow> 'd DirectoryCache result" where
  "new_cache inner max_size ttl =
     (if max_size \<le> 0 then Inl ValueError
      else if ttl \<le> 0 then Inl ValueError
      else Inr \<lparr>dc_inner = inner, dc_max_size = max_size, dc_ttl = ttl, dc_cache = []\<rparr>)"

definition cache_size :: "'d DirectoryCache \<Rightarrow> nat" where
  "cache_size c = length (dc_cache c)"

definition cache_contains :: "GrainId \<Rightarrow> seconds \<Rightarrow> 'd DirectoryCache \<Rightarrow> bool" where
  "cache_contains g now c =
     (case dget (dc_cache c) g of None \<Rightarrow> False | Some e \<Rightarrow> \<not> is_expired e now)"

text \<open>\<^verbatim>\<open>while len(cache) > max_size: cache.popitem(last=False)\<close>\<close>

fun evict :: "int \<Rightarrow> (GrainId, CacheEntry) dict \<Rightarrow> (GrainId, CacheEntry) dict" where
  "evict m [] = []"
| "evict m (x # xs) = (if int (length (x # xs)) > m then evict m xs else x # xs)"

definition cache_put :: "GrainId \<Rightarrow> DirectoryEntry \<Rightarrow> seconds \<Rightarrow> 'd DirectoryCache \<Rightarrow> 'd DirectoryCache" where
  "cache_put g v now c =
     (let entry = CacheEntry v (now + dc_ttl c)
      in case dget (dc_cache c) g of
           Some existing \<Rightarrow> c\<lparr>dc_cache := dmove_to_end (dset (dc_cache c) g entry) g\<rparr>
         | None \<Rightarrow> c\<lparr>dc_cache := evict (dc_max_size c) (dset (dc_cache c) g entry)\<rparr>)"

text \<open>
  The common prefix of \<^verbatim>\<open>lookup\<close> and \<^verbatim>\<open>resolve_or_activate\<close>: a live entry is
  returned and becomes the most recent, an expired one is dropped.
\<close>

definition cache_probe ::
  "GrainId \<Rightarrow> seconds \<Rightarrow> 'd DirectoryCache \<Rightarrow> DirectoryEntry option \<times> 'd DirectoryCache" where
  "cache_probe g now c =
     (case dget (dc_cache c) g of
        None \<Rightarrow> (None, c)
      | Some e \<Rightarrow>
          if \<not> is_expired e now
          then (Some (cached_value e), c\<lparr>dc_cache := dmove_to_end (dc_cache c) g\<rparr>)
          else (None, c\<lparr>dc_cache := dpop (dc_cache c) g\<rparr>))"

definition cache_register ::
  "'d IGrainDirectory \<Rightarrow> GrainId \<Rightarrow> SiloAddress \<Rightarrow> seconds \<Rightarrow> 'd DirectoryCache
   \<Rightarrow> DirectoryEntry result \<times> 'd DirectoryCache" where
  "cache_register ops g s later c =
     (case in_register ops g s (dc_inner c) of
        (Inl e, i) \<Rightarrow> (Inl e, c\<lparr>dc_inner := i\<rparr>)
      | (Inr v, i) \<Rightarrow> (Inr v, cache_put g v later (c\<lparr>dc_inner := i\<rparr>)))"

definition cache_lookup ::
  "'d IGrainDirectory \<Rightarrow> GrainId \<Rightarrow> seconds \<Rightarrow> seconds \<Rightarrow> 'd DirectoryCache
   \<Rightarrow> DirectoryEntry option result \<times> 'd DirectoryCache" where
  "cache_lookup ops g now later c =
     (case cache_probe g now c of
        (Some v, c') \<Rightarrow> (Inr (Some v), c')
      | (None, c') \<Rightarrow>
          (case in_lookup ops g (dc_inner c') of
             (Inl e, i) \<Rightarrow> (Inl e, c'\<lparr>dc_inner := i\<rparr>)
           | (Inr None, i) \<Rightarrow> (Inr None, c'\<lparr>dc_inner := i\<rparr>)
           | (Inr (Some v), i) \<Rightarrow> (Inr (Some v), cache_put g v later (c'\<lparr>dc_inner := i\<rparr>))))"

definition cache_unregister ::
  "'d IGrainDirectory \<Rightarrow> GrainId \<Rightarrow> SiloAddress \<Rightarrow> 'd DirectoryCache
   \<Rightarrow> unit result \<times> 'd DirectoryCache" where
  "cache_unregister ops g s c =
     (case in_unregister ops g s (dc_inner c) of
        (r, i) \<Rightarrow> (r, c\<lparr>dc_inner := i, dc_cache := dpop (dc_cache c) g\<rparr>))"

definition cache_resolve ::
  "'d IGrainDirectory \<Rightarrow> picker \<Rightarrow> GrainId \<Rightarrow> SiloAddress option \<Rightarrow> seconds \<Rightarrow> seconds
   \<Rightarrow> 'd DirectoryCache \<Rightarrow> DirectoryEntry result \<times> 'd DirectoryCache" where
  "cache_resolve ops pick g caller now later c =
     (case cache_probe g now c of
        (Some v, c') \<Rightarrow> (Inr v, c')
      | (None, c') \<Rightarrow>
          (case in_resolve ops pick g caller (dc_inner c') of
             (Inl e, i) \<Rightarrow> (Inl e, c'\<lparr>dc_inner := i\<rparr>)
           | (Inr v, i) \<Rightarrow> (Inr v, cache_put g v later (c'\<lparr>dc_inner := i\<rparr>))))"

definition invalidate :: "GrainId \<Rightarrow> 'd DirectoryCache \<Rightarrow> 'd DirectoryCache" where
  "invalidate g c = c\<lparr>dc_cache := dpop (dc_cache c) g\<rparr>"

definition invalidate_all :: "'d DirectoryCache \<Rightarrow> 'd DirectoryCache" where
  "invalidate_all c = c\<lparr>dc_cache := []\<rparr>"

definition invalidate_silo :: "SiloAddress \<Rightarrow> 'd DirectoryCache \<Rightarrow> 'd DirectoryCache" where
  "invalidate_silo s c =
     (let stale = [gid. (gid, e) \<leftarrow> dc_cache c, entry_silo (cached_value e) = s]
      in c\<lparr>dc_cache := fold (\<lambda>gid d. dpop d gid) stale (dc_cache c)\<rparr>)"

subsection \<open>The bound and the eviction order\<close>

definition cache_ok :: "'d DirectoryCache \<Rightarrow> bool" where
  "cache_ok c \<longleftrightarrow> dict_ok (dc_cache c) \<and> 0 < dc_max_size c \<and> 0 < dc_ttl c
     \<and> int (length (dc_cache c)) \<le> dc_max_size c"

lemma cache_ok_new: "new_cache inner m ttl = Inr c \<Longrightarrow> cache_ok c"
  by (auto simp: new_cache_def cache_ok_def split: if_splits)

lemma evict_drop: "0 \<le> m \<Longrightarrow> evict m xs = drop (length xs - nat m) xs"
  by (induction m xs rule: evict.induct) (auto simp: Suc_diff_le nat_le_iff)

lemma dmove_dset: "dmove_to_end (dset d k v) k = dpop d k @ [(k, v)]"
proof -
  have "dpop (dset d k v) k = dpop d k"
    by (induction d) (auto simp: dpop_def dset_def)
  then show ?thesis by (simp add: dmove_to_end_def)
qed

lemma dpop_absent: "dget d k = None \<Longrightarrow> dpop d k = d"
  by (force simp: dget_None_iff dpop_def filter_id_conv)

text \<open>
  Storing an entry makes it the most recent and drops the least recent ones that no longer fit.
\<close>

lemma cache_put_eq:
  assumes "cache_ok c"
  shows "dc_cache (cache_put g v now c) =
    (let d = dpop (dc_cache c) g @ [(g, CacheEntry v (now + dc_ttl c))]
     in drop (length d - nat (dc_max_size c)) d)"
proof (cases "dget (dc_cache c) g")
  case None
  with assms show ?thesis
    by (simp add: cache_put_def Let_def dset_absent dpop_absent evict_drop cache_ok_def)
next
  case (Some e)
  then have "Suc (length (dpop (dc_cache c) g)) = length (dc_cache c)"
    using assms by (auto simp: cache_ok_def intro: length_dpop dget_Some_key)
  moreover have "length (dc_cache c) \<le> nat (dc_max_size c)" using assms by (auto simp: cache_ok_def)
  ultimately show ?thesis
    using Some by (simp add: cache_put_def Let_def dmove_dset)
qed

lemma cache_put_simps [simp]:
  "dc_inner (cache_put g v now c) = dc_inner c"
  "dc_max_size (cache_put g v now c) = dc_max_size c"
  "dc_ttl (cache_put g v now c) = dc_ttl c"
  by (simp_all add: cache_put_def Let_def split: option.split)

lemma distinct_drop_map: "distinct (map f xs) \<Longrightarrow> distinct (map f (drop n xs))"
  by (simp add: drop_map distinct_drop flip: drop_map)

lemma cache_put_ok:
  assumes "cache_ok c"
  shows "cache_ok (cache_put g v now c)"
proof -
  have "dict_ok (dpop (dc_cache c) g @ [(g, CacheEntry v (now + dc_ttl c))])"
    using assms keys_dpop [of "dc_cache c" g] by (auto simp: cache_ok_def)
  then have "dict_ok (dc_cache (cache_put g v now c))"
    unfolding cache_put_eq [OF assms] Let_def by (rule distinct_drop_map)
  moreover have "length (dc_cache (cache_put g v now c)) \<le> nat (dc_max_size c)"
    by (simp add: cache_put_eq [OF assms] Let_def)
  ultimately show ?thesis
    using assms by (auto simp: cache_ok_def)
qed

lemma cache_put_hit:
  assumes "cache_ok c"
  shows "dget (dc_cache (cache_put g v now c)) g = Some (CacheEntry v (now + dc_ttl c))"
proof -
  let ?d = "dpop (dc_cache c) g @ [(g, CacheEntry v (now + dc_ttl c))]"
  have "(g, CacheEntry v (now + dc_ttl c)) \<in> set (drop (length ?d - nat (dc_max_size c)) ?d)"
    using assms by (auto simp: cache_ok_def drop_Cons')
  then show ?thesis
    using cache_put_ok [OF assms, of g v now] cache_put_eq [OF assms, of g v now]
    by (simp add: cache_ok_def dget_Some_iff Let_def)
qed

lemma cache_put_other:
  assumes "cache_ok c" "g' \<noteq> g" "dget (dc_cache (cache_put g v now c)) g' = Some e"
  shows "dget (dc_cache c) g' = Some e"
proof -
  have "(g', e) \<in> set (dc_cache (cache_put g v now c))"
    using assms cache_put_ok [OF assms(1), of g v now] by (simp add: cache_ok_def dget_Some_iff)
  then have "(g', e) \<in> set (dc_cache c)"
    using assms(2) by (auto simp: cache_put_eq [OF assms(1)] Let_def dpop_def dest!: in_set_dropD)
  then show ?thesis using assms(1) by (simp add: cache_ok_def dget_Some_iff)
qed

lemma cache_ok_probe: "cache_ok c \<Longrightarrow> cache_ok (snd (cache_probe g now c))"
  by (auto simp: cache_probe_def cache_ok_def length_move dpop_def
      intro: order_trans [OF _ of_nat_mono] split: option.split)
    (meson length_filter_le of_nat_mono order_trans)+

lemma cache_probe_simps:
  "cache_probe g now c = (r, c') \<Longrightarrow>
     dc_inner c' = dc_inner c \<and> dc_max_size c' = dc_max_size c \<and> dc_ttl c' = dc_ttl c
     \<and> (\<forall>g' e. dget (dc_cache c') g' = Some e \<longrightarrow> dget (dc_cache c) g' = Some e)
     \<and> (\<forall>v. r = Some v \<longrightarrow> (\<exists>x. dget (dc_cache c) g = Some (CacheEntry v x) \<and> now < x))"
  by (auto simp: cache_probe_def is_expired_def split: option.splits if_splits)
    (metis CacheEntry.collapse not_le)

lemma fold_dpop: "fold (\<lambda>k d. dpop d k) ks d = filter (\<lambda>(k, _). k \<notin> set ks) d"
  by (induction ks arbitrary: d) (auto simp: dpop_def conj_commute intro!: filter_cong)

lemma invalidate_silo_eq:
  assumes "dict_ok (dc_cache c)"
  shows "dc_cache (invalidate_silo s c) = filter (\<lambda>(g, e). entry_silo (cached_value e) \<noteq> s) (dc_cache c)"
proof -
  have "(\<exists>e'. (g, e') \<in> set (dc_cache c) \<and> entry_silo (cached_value e') = s)
      \<longleftrightarrow> entry_silo (cached_value e) = s" if "(g, e) \<in> set (dc_cache c)" for g e
    using that assms by (metis dget_Some_iff option.inject)
  then show ?thesis
    by (auto simp: invalidate_silo_def Let_def fold_dpop intro!: filter_cong)
qed

lemma cache_ok_filter:
  "cache_ok c \<Longrightarrow> cache_ok (c\<lparr>dc_cache := filter P (dc_cache c)\<rparr>)"
  using order_trans [of "int (length (filter P (dc_cache c)))" "int (length (dc_cache c))" "dc_max_size c"]
  by (auto simp: cache_ok_def)

lemma same_inner [simp]: "dc_inner c = i \<Longrightarrow> c\<lparr>dc_inner := i\<rparr> = c"
  by (cases c) simp

lemma cache_ok_inner [simp]: "cache_ok (c\<lparr>dc_inner := i\<rparr>) = cache_ok c"
  by (simp add: cache_ok_def)

lemma cache_ok_pop: "cache_ok c \<Longrightarrow> cache_ok (c\<lparr>dc_cache := dpop (dc_cache c) g\<rparr>)"
  unfolding dpop_def by (rule cache_ok_filter)

subsection \<open>The cache over a directory that honours the port\<close>

definition port_ops ::
  "('d \<Rightarrow> GrainId \<Rightarrow> DirectoryEntry option)
   \<Rightarrow> (GrainId \<Rightarrow> SiloAddress \<Rightarrow> 'd \<Rightarrow> DirectoryEntry \<times> 'd)
   \<Rightarrow> (GrainId \<Rightarrow> SiloAddress \<Rightarrow> 'd \<Rightarrow> 'd)
   \<Rightarrow> (picker \<Rightarrow> GrainId \<Rightarrow> SiloAddress option \<Rightarrow> 'd \<Rightarrow> DirectoryEntry result \<times> 'd)
   \<Rightarrow> 'd IGrainDirectory" where
  "port_ops lk rg un rs =
     \<lparr>in_register = (\<lambda>g s d. case rg g s d of (e, d') \<Rightarrow> (Inr e, d')),
      in_lookup = (\<lambda>g d. (Inr (lk d g), d)),
      in_unregister = (\<lambda>g s d. (Inr (), un g s d)),
      in_resolve = rs\<rparr>"

text \<open>What a client of the cache observes; each call comes with its two clock readings.\<close>

fun cache_answers ::
  "'d IGrainDirectory \<Rightarrow> (dir_op \<times> seconds \<times> seconds) list \<Rightarrow> 'd DirectoryCache
   \<Rightarrow> (GrainId \<times> DirectoryEntry) list" where
  "cache_answers ops [] c = []"
| "cache_answers ops ((Register g s, now, later) # calls) c =
     (case cache_register ops g s later c of
        (Inl _, c') \<Rightarrow> cache_answers ops calls c'
      | (Inr e, c') \<Rightarrow> (g, e) # cache_answers ops calls c')"
| "cache_answers ops ((Lookup g, now, later) # calls) c =
     (case cache_lookup ops g now later c of
        (Inr (Some e), c') \<Rightarrow> (g, e) # cache_answers ops calls c'
      | (_, c') \<Rightarrow> cache_answers ops calls c')"
| "cache_answers ops ((Unregister g s, now, later) # calls) c =
     cache_answers ops calls (snd (cache_unregister ops g s c))"
| "cache_answers ops ((Resolve p g w, now, later) # calls) c =
     (case cache_resolve ops p g w now later c of
        (Inl _, c') \<Rightarrow> cache_answers ops calls c'
      | (Inr e, c') \<Rightarrow> (g, e) # cache_answers ops calls c')"

context grain_directory
begin

definition coherent :: "'d DirectoryCache \<Rightarrow> bool" where
  "coherent c \<longleftrightarrow> cache_ok c \<and> invar (dc_inner c)
     \<and> (\<forall>g e. dget (dc_cache c) g = Some e \<longrightarrow> lk (dc_inner c) g = Some (cached_value e))"

abbreviation pops :: "'d IGrainDirectory" where
  "pops \<equiv> port_ops lk rg un rs"

lemma coherent_put:
  assumes "coherent c" "lk (dc_inner c) g = Some v"
  shows "coherent (cache_put g v now c)"
proof -
  have ok: "cache_ok c" using assms(1) by (simp add: coherent_def)
  have "lk (dc_inner c) g' = Some (cached_value e)"
    if "dget (dc_cache (cache_put g v now c)) g' = Some e" for g' e
    using that assms cache_put_hit [OF ok, of g v now] cache_put_other [OF ok, of g' g v now e]
    by (cases "g' = g") (auto simp: coherent_def)
  then show ?thesis using assms(1) cache_put_ok [OF ok] by (simp add: coherent_def)
qed

lemma coherent_probe:
  assumes "coherent c" "cache_probe g now c = (r, c')"
  shows "coherent c' \<and> dc_inner c' = dc_inner c \<and> (\<forall>v. r = Some v \<longrightarrow> lk (dc_inner c) g = Some v)"
  using assms cache_probe_simps [OF assms(2)] cache_ok_probe [of c g now]
  by (auto simp: coherent_def)

text \<open>The inner directory moved to a state that records the cached entry or a new one.\<close>

lemma coherent_inner:
  assumes "coherent c" "invar d'" "lk d' = (lk (dc_inner c))(g \<mapsto> e)"
    and "lk (dc_inner c) g = Some e \<or> lk (dc_inner c) g = None"
  shows "coherent (c\<lparr>dc_inner := d'\<rparr>)"
  using assms by (auto simp: coherent_def)

lemma register_call:
  assumes "coherent c" "cache_register pops g s later c = (r, c')"
  shows "\<exists>e. r = Inr e \<and> rg g s (dc_inner c) = (e, dc_inner c') \<and> coherent c'"
proof -
  obtain e d' where rg: "rg g s (dc_inner c) = (e, d')" by fastforce
  have "invar (dc_inner c)" using assms(1) by (simp add: coherent_def)
  from register_step [OF this rg]
  have "coherent (c\<lparr>dc_inner := d'\<rparr>)" "lk d' g = Some e"
    using coherent_inner [OF assms(1)] by auto
  then show ?thesis
    using assms(2) rg coherent_put [of "c\<lparr>dc_inner := d'\<rparr>" g e later]
    by (auto simp: cache_register_def port_ops_def)
qed

lemma lookup_call:
  assumes "coherent c" "cache_lookup pops g now later c = (r, c')"
  shows "r = Inr (lk (dc_inner c) g) \<and> dc_inner c' = dc_inner c \<and> coherent c'"
proof -
  obtain m c1 where probe: "cache_probe g now c = (m, c1)" by fastforce
  note p = coherent_probe [OF assms(1) probe]
  show ?thesis
    using assms(2) probe p coherent_put [of c1 g _ later]
    by (auto simp: cache_lookup_def port_ops_def split: option.splits)
qed

lemma unregister_call:
  assumes "coherent c"
  shows "dc_inner (snd (cache_unregister pops g s c)) = un g s (dc_inner c)
    \<and> coherent (snd (cache_unregister pops g s c))"
  using assms unregister_state [of "dc_inner c" g s] unregister_lookup [of "dc_inner c" g s]
    cache_ok_pop [of c g]
  by (auto simp: cache_unregister_def port_ops_def coherent_def cache_ok_def split: if_splits)

lemma resolve_call:
  assumes "coherent c" "cache_resolve pops p g w now later c = (r, c')"
  shows "rs p g w (dc_inner c) = (r, dc_inner c') \<and> coherent c'"
proof -
  have inv: "invar (dc_inner c)" using assms(1) by (simp add: coherent_def)
  obtain m c1 where probe: "cache_probe g now c = (m, c1)" by fastforce
  note pr = coherent_probe [OF assms(1) probe]
  show ?thesis
  proof (cases m)
    case (Some v)
    with assms(2) probe pr resolve_present [OF inv] show ?thesis
      by (auto simp: cache_resolve_def)
  next
    case None
    obtain x d' where rs: "rs p g w (dc_inner c) = (x, d')" by fastforce
    note st = resolve_step [OF inv rs]
    show ?thesis
    proof (cases x)
      case (Inl e)
      with None assms(2) probe pr rs st show ?thesis
        by (auto simp: cache_resolve_def port_ops_def)
    next
      case (Inr e)
      have "coherent (c1\<lparr>dc_inner := d'\<rparr>)" "lk d' g = Some e"
        using coherent_inner [of c1 d' g e] pr st Inr by auto
      then show ?thesis
        using None assms(2) probe pr rs Inr coherent_put [of "c1\<lparr>dc_inner := d'\<rparr>" g e later]
        by (auto simp: cache_resolve_def port_ops_def)
    qed
  qed
qed

lemma cache_transparent:
  "coherent c \<Longrightarrow> cache_answers pops calls c = answers (map fst calls) (dc_inner c)"
proof (induction calls arbitrary: c)
  case (Cons call calls)
  obtain op now later where call: "call = (op, now, later)" by (cases call)
  show ?case
  proof (cases op)
    case (Register g s)
    obtain r c' where r: "cache_register pops g s later c = (r, c')" by fastforce
    from register_call [OF Cons.prems r] Cons.IH [of c'] Register call r show ?thesis by auto
  next
    case (Lookup g)
    obtain r c' where r: "cache_lookup pops g now later c = (r, c')" by fastforce
    from lookup_call [OF Cons.prems r] Cons.IH [of c'] Lookup call r show ?thesis
      by (auto split: option.split)
  next
    case (Unregister g s)
    with unregister_call [OF Cons.prems, of g s] Cons.IH call show ?thesis by simp
  next
    case (Resolve p g w)
    obtain r c' where r: "cache_resolve pops p g w now later c = (r, c')" by fastforce
    from resolve_call [OF Cons.prems r] Cons.IH [of c'] Resolve call r show ?thesis
      by (auto split: sum.split)
  qed
qed simp

end

subsection \<open>Properties\<close>

text \<open>
  C37. The cache is transparent: behind a cache of any size and lifetime, over any sequence of
  calls and with any clock readings, the single-silo directory gives its clients exactly the
  answers it gives without the cache. Entries that were served from memory, refreshed, expired
  or evicted make no difference, and an unregister through the cache is seen at once.
\<close>

theorem cache_transparent_local:
  assumes "new_cache (new_local_directory s) m ttl = Inr c"
  shows "cache_answers (port_ops local_lookup local_register local_unregister local_resolve) calls c
    = dir_answers local_lookup local_register local_unregister local_resolve (map fst calls)
        (new_local_directory s)"
proof -
  have "dc_inner c = new_local_directory s" "dc_cache c = []"
    using assms by (auto simp: new_cache_def split: if_splits)
  moreover from this have "local_dir.coherent c"
    using cache_ok_new [OF assms] by (simp add: local_dir.coherent_def local_ok_new)
  ultimately show ?thesis
    using local_dir.cache_transparent by metis
qed

theorem cache_transparent_local_witness:
  "cache_answers (port_ops local_lookup local_register local_unregister local_resolve)
     [(Register grain_x silo_a, 0, 0), (Lookup grain_x, 5, 5), (Unregister grain_x silo_a, 6, 6),
      (Lookup grain_x, 7, 7)]
     \<lparr>dc_inner = new_local_directory silo_a, dc_max_size = 1, dc_ttl = 60, dc_cache = []\<rparr>
   = [(grain_x, DirectoryEntry grain_x silo_a 1), (grain_x, DirectoryEntry grain_x silo_a 1)]"
  by (subst cache_transparent_local [of silo_a 1 60])
    (simp_all add: new_cache_def local_register_def local_lookup_def local_unregister_def
      new_local_directory_def Let_def)

text \<open>
  The cache is bounded and its entries are distinct: the constructor refuses a non-positive
  size or lifetime, and from a well-formed cache every operation, whatever the inner directory
  answers or raises, leads to a well-formed cache, which never holds more than
  \<^verbatim>\<open>max_size\<close> entries.
\<close>

theorem cache_bounded:
  shows "(new_cache inner m ttl = Inl ValueError \<longleftrightarrow> m \<le> 0 \<or> ttl \<le> 0)
    \<and> (\<forall>c. new_cache inner m ttl = Inr c \<longrightarrow> cache_ok c)
    \<and> (cache_ok c \<longrightarrow> int (cache_size c) \<le> dc_max_size c
        \<and> cache_ok (snd (cache_register ops g s later c))
        \<and> cache_ok (snd (cache_lookup ops g now later c))
        \<and> cache_ok (snd (cache_unregister ops g s c))
        \<and> cache_ok (snd (cache_resolve ops p g w now later c))
        \<and> cache_ok (invalidate g c) \<and> cache_ok (invalidate_all c) \<and> cache_ok (invalidate_silo s c))"
proof (intro conjI impI)
  show "new_cache inner m ttl = Inl ValueError \<longleftrightarrow> m \<le> 0 \<or> ttl \<le> 0"
    by (auto simp: new_cache_def)
  show "\<forall>c. new_cache inner m ttl = Inr c \<longrightarrow> cache_ok c" by (simp add: cache_ok_new)
next
  assume ok: "cache_ok c"
  then show "int (cache_size c) \<le> dc_max_size c" by (simp add: cache_ok_def cache_size_def)
  from ok show "cache_ok (snd (cache_register ops g s later c))"
    by (auto simp: cache_register_def cache_put_ok split: prod.split sum.split)
  have probe: "cache_ok (snd (cache_probe g now c))" using ok by (rule cache_ok_probe)
  then show "cache_ok (snd (cache_lookup ops g now later c))"
    by (auto simp: cache_lookup_def cache_put_ok split: prod.split sum.split option.split)
  from probe show "cache_ok (snd (cache_resolve ops p g w now later c))"
    by (auto simp: cache_resolve_def cache_put_ok split: prod.split sum.split option.split)
  have pop: "cache_ok (c\<lparr>dc_cache := dpop (dc_cache c) g\<rparr>)" using ok by (rule cache_ok_pop)
  then show "cache_ok (snd (cache_unregister ops g s c))"
    by (auto simp: cache_unregister_def cache_ok_def split: prod.split)
  from pop show "cache_ok (invalidate g c)" by (simp add: invalidate_def)
  from ok show "cache_ok (invalidate_all c)" by (auto simp: invalidate_all_def cache_ok_def)
  from ok show "cache_ok (invalidate_silo s c)"
    by (auto simp: invalidate_silo_def Let_def fold_dpop intro: cache_ok_filter)
qed

theorem cache_bounded_witness:
  "cache_size (invalidate_silo silo_b (\<lparr>dc_inner = (), dc_max_size = 2, dc_ttl = 60,
     dc_cache = [(grain_x, CacheEntry (DirectoryEntry grain_x silo_a 1) 60)]\<rparr>)) \<le> 2"
proof -
  let ?c = "\<lparr>dc_inner = (), dc_max_size = 2, dc_ttl = 60,
     dc_cache = [(grain_x, CacheEntry (DirectoryEntry grain_x silo_a 1) 60)]\<rparr>"
  have "cache_ok ?c" by (simp add: cache_ok_def)
  then have "cache_ok (invalidate_silo silo_b ?c)"
    using cache_bounded [of "()" 1 1 ?c undefined grain_x silo_b 0 0 undefined None] by blast
  then show ?thesis by (simp add: cache_ok_def cache_size_def invalidate_silo_def)
qed

text \<open>
  What a stored answer does to the cache: storing makes the entry the most recently used one,
  gives it the lifetime from the moment of storing, keeps the other entries in their order of use
  and evicts from the least recently used end exactly as many as no longer fit. A later check
  serves the entry until its expiry and not beyond, and serving makes it the most recent.
\<close>

theorem cache_lru_ttl:
  assumes "cache_ok c" and "c' = cache_put g v later c"
  shows "dc_cache c' =
      drop (Suc (length (dpop (dc_cache c) g)) - nat (dc_max_size c))
        (dpop (dc_cache c) g @ [(g, CacheEntry v (later + dc_ttl c))])
    \<and> (now < later + dc_ttl c \<longrightarrow> cache_probe g now c' = (Some v, c'))
    \<and> (later + dc_ttl c \<le> now \<longrightarrow>
        cache_probe g now c' = (None, c'\<lparr>dc_cache := dpop (dc_cache c') g\<rparr>))"
proof -
  define d where "d = dpop (dc_cache c) g"
  have eq: "dc_cache c' = drop (Suc (length d) - nat (dc_max_size c)) (d @ [(g, CacheEntry v (later + dc_ttl c))])"
    using cache_put_eq [OF assms(1), of g v later] by (simp add: assms(2) d_def)
  have hit: "dget (dc_cache c') g = Some (CacheEntry v (later + dc_ttl c))"
    unfolding assms(2) by (rule cache_put_hit [OF assms(1)])
  have "Suc (length d) - nat (dc_max_size c) \<le> length d"
    using assms(1) by (auto simp: cache_ok_def)
  then have "dc_cache c' = drop (Suc (length d) - nat (dc_max_size c)) d @ [(g, CacheEntry v (later + dc_ttl c))]"
    by (simp add: eq)
  moreover have "\<forall>(g', e) \<in> set (drop (Suc (length d) - nat (dc_max_size c)) d). g' \<noteq> g"
    by (auto simp: d_def dpop_def dest: in_set_dropD)
  ultimately have "dmove_to_end (dc_cache c') g = dc_cache c'"
    using hit by (auto simp: dmove_to_end_def dpop_def filter_id_conv)
  then show ?thesis
    using eq hit by (auto simp: cache_probe_def is_expired_def d_def)
qed

theorem cache_lru_ttl_witness:
  "fst (cache_probe grain_x 59 (cache_put grain_x (DirectoryEntry grain_x silo_a 1) 0
     \<lparr>dc_inner = (), dc_max_size = 1, dc_ttl = 60,
      dc_cache = [(GrainId [] [], CacheEntry (DirectoryEntry (GrainId [] []) silo_b 1) 60)]\<rparr>))
   = Some (DirectoryEntry grain_x silo_a 1)"
  by (subst conjunct1 [OF conjunct2 [OF cache_lru_ttl [OF _ refl]], rule_format])
    (simp_all add: cache_ok_def)

text \<open>
  Invalidation: after the loss of a silo's connection no cached route points to that silo and
  every other route is kept in order; after a membership change nothing is cached; an explicit
  eviction removes that grain's route and no other.
\<close>

theorem cache_invalidation:
  assumes "dict_ok (dc_cache c)"
  shows "dc_cache (invalidate_silo s c) = filter (\<lambda>(g, e). entry_silo (cached_value e) \<noteq> s) (dc_cache c)
    \<and> dc_cache (invalidate_all c) = []
    \<and> dget (dc_cache (invalidate g c)) = (dget (dc_cache c))(g := None)
    \<and> dc_inner (invalidate_silo s c) = dc_inner c"
  using invalidate_silo_eq [OF assms, of s]
  by (simp add: invalidate_all_def invalidate_def dget_dpop_fun) (simp add: invalidate_silo_def Let_def)

theorem cache_invalidation_witness:
  "dc_cache (invalidate_silo silo_a (\<lparr>dc_inner = (), dc_max_size = 2, dc_ttl = 60,
     dc_cache = [(grain_x, CacheEntry (DirectoryEntry grain_x silo_a 1) 60),
       (GrainId [] [], CacheEntry (DirectoryEntry (GrainId [] []) silo_b 1) 60)]\<rparr>))
   = [(GrainId [] [], CacheEntry (DirectoryEntry (GrainId [] []) silo_b 1) 60)]"
  by (subst conjunct1 [OF cache_invalidation]) (simp_all add: grain_x_def silo_a_def silo_b_def)

end
