(* ===== verification/Json.thy ===== *)
theory Json
  imports PyText
begin

text \<open>
  The \<^verbatim>\<open>json\<close> module as the sources use it: \<^verbatim>\<open>json.dumps(obj, separators=(",", ":"))\<close>
  (ASCII output, surrogate pairs as two escapes) and \<^verbatim>\<open>json.loads\<close>, with their round
  trip, and the coercions \<^verbatim>\<open>str(x)\<close>, \<^verbatim>\<open>int(x)\<close> and truth of a decoded value.
  A float is an exact rational printed with all of its decimals, where CPython prints the
  shortest decimal that reads back; \<^verbatim>\<open>NaN\<close> and \<^verbatim>\<open>Infinity\<close> are refused.
\<close>

datatype json =
    JNull
  | JBool bool
  | JInt int
  | JFloat rat
  | JStr pystr
  | JArr "json list"
  | JObj "(pystr \<times> json) list"

subsection \<open>Printing\<close>

definition hexdig :: "nat \<Rightarrow> nat" where
  "hexdig n = (if n < 10 then 48 + n else 87 + n)"

definition u_escape :: "nat \<Rightarrow> pystr" where
  "u_escape u = [92, 117, hexdig (u div 4096 mod 16), hexdig (u div 256 mod 16),
                 hexdig (u div 16 mod 16), hexdig (u mod 16)]"

definition json_char :: "nat \<Rightarrow> pystr" where
  "json_char c =
     (if c = 34 \<or> c = 92 then [92, c]
      else if c = 10 then [92, 110]
      else if c = 13 then [92, 114]
      else if c = 9 then [92, 116]
      else if c = 12 then [92, 102]
      else if c = 8 then [92, 98]
      else if 32 \<le> c \<and> c \<le> 126 then [c]
      else if c < 65536 then u_escape c
      else u_escape (55296 + (c - 65536) div 1024) @ u_escape (56320 + (c - 65536) mod 1024))"

definition json_string :: "pystr \<Rightarrow> pystr" where
  "json_string s = 34 # concat (map json_char s) @ [34]"

text \<open>A double has at most 1074 decimals.\<close>

fun frac_digits :: "nat \<Rightarrow> rat \<Rightarrow> pystr" where
  "frac_digits 0 r = []"
| "frac_digits (Suc n) r =
     (if r = 0 then []
      else (48 + nat \<lfloor>r * 10\<rfloor>) # frac_digits n (r * 10 - of_int \<lfloor>r * 10\<rfloor>))"

definition float_repr :: "rat \<Rightarrow> pystr" where
  "float_repr x =
     (let a = \<bar>x\<bar>; f = a - of_int \<lfloor>a\<rfloor>
      in (if x < 0 then [45] else []) @ dec (nat \<lfloor>a\<rfloor>) @ [46]
         @ (if f = 0 then [48] else frac_digits 1074 f))"

fun json_text :: "json \<Rightarrow> pystr"
  and json_items :: "json list \<Rightarrow> pystr"
  and json_members :: "(pystr \<times> json) list \<Rightarrow> pystr" where
  "json_text JNull = lit ''null''"
| "json_text (JBool b) = (if b then lit ''true'' else lit ''false'')"
| "json_text (JInt i) = str_int i"
| "json_text (JFloat x) = float_repr x"
| "json_text (JStr s) = json_string s"
| "json_text (JArr []) = [91, 93]"
| "json_text (JArr (x # xs)) = 91 # json_text x @ json_items xs"
| "json_text (JObj []) = [123, 125]"
| "json_text (JObj ((k, v) # ms)) = 123 # json_string k @ 58 # json_text v @ json_members ms"
| "json_items [] = [93]"
| "json_items (x # xs) = 44 # json_text x @ json_items xs"
| "json_members [] = [125]"
| "json_members ((k, v) # ms) = 44 # json_string k @ 58 # json_text v @ json_members ms"

subsection \<open>Reading\<close>

definition hexval :: "nat \<Rightarrow> nat option" where
  "hexval c =
     (if 48 \<le> c \<and> c \<le> 57 then Some (c - 48)
      else if 97 \<le> c \<and> c \<le> 102 then Some (c - 87)
      else if 65 \<le> c \<and> c \<le> 70 then Some (c - 55)
      else None)"

definition hex4 :: "nat \<Rightarrow> nat \<Rightarrow> nat \<Rightarrow> nat \<Rightarrow> nat option" where
  "hex4 a b c d =
     (case (hexval a, hexval b, hexval c, hexval d) of
        (Some a, Some b, Some c, Some d) \<Rightarrow> Some (a * 4096 + b * 256 + c * 16 + d)
      | _ \<Rightarrow> None)"

definition simple_escape :: "nat \<Rightarrow> nat option" where
  "simple_escape e =
     (if e = 34 \<or> e = 92 \<or> e = 47 then Some e
      else if e = 98 then Some 8
      else if e = 102 then Some 12
      else if e = 110 then Some 10
      else if e = 114 then Some 13
      else if e = 116 then Some 9
      else None)"

definition is_high_surrogate :: "nat \<Rightarrow> bool" where
  "is_high_surrogate u \<longleftrightarrow> 55296 \<le> u \<and> u \<le> 56319"

text \<open>One leading \<^verbatim>\<open>\uXXXX\<close> escape.\<close>

fun read_escape :: "pystr \<Rightarrow> (nat \<times> pystr) option" where
  "read_escape (b # e # h1 # h2 # h3 # h4 # r) =
     (if b = 92 \<and> e = 117 then map_option (\<lambda>u. (u, r)) (hex4 h1 h2 h3 h4) else None)"
| "read_escape _ = None"

lemma read_escape_length: "read_escape s = Some (u, r) \<Longrightarrow> length s = length r + 6"
  by (induction s rule: read_escape.induct) (auto split: if_splits)

text \<open>The body of a string literal, after its opening quote.\<close>

function scan_string :: "pystr \<Rightarrow> (pystr \<times> pystr) option" where
  "scan_string [] = None"
| "scan_string (c # r) =
     (if c = 34 then Some ([], r)
      else if c = 92 then
        (case read_escape (c # r) of
           Some (u, r2) \<Rightarrow>
             (if is_high_surrogate u then
                (case read_escape r2 of
                   Some (u2, r3) \<Rightarrow>
                     if 56320 \<le> u2 \<and> u2 \<le> 57343
                     then map_option (\<lambda>(t, z). ((65536 + (u - 55296) * 1024 + (u2 - 56320)) # t, z))
                            (scan_string r3)
                     else map_option (\<lambda>(t, z). (u # t, z)) (scan_string r2)
                 | None \<Rightarrow> map_option (\<lambda>(t, z). (u # t, z)) (scan_string r2))
              else map_option (\<lambda>(t, z). (u # t, z)) (scan_string r2))
         | None \<Rightarrow>
             (case r of
                [] \<Rightarrow> None
              | e # r1 \<Rightarrow>
                  (case simple_escape e of
                     None \<Rightarrow> None
                   | Some x \<Rightarrow> map_option (\<lambda>(t, z). (x # t, z)) (scan_string r1))))
      else if c < 32 then None
      else map_option (\<lambda>(t, z). (c # t, z)) (scan_string r))"
  by pat_completeness auto
termination
  by (relation "measure length") (auto dest!: read_escape_length)

definition digits_val :: "pystr \<Rightarrow> nat" where
  "digits_val ds = foldl (\<lambda>a c. a * 10 + (c - 48)) 0 ds"

definition scan_digits :: "pystr \<Rightarrow> pystr \<times> pystr" where
  "scan_digits s = (takeWhile is_digit s, dropWhile is_digit s)"

definition scan_frac :: "pystr \<Rightarrow> pystr \<times> pystr" where
  "scan_frac s =
     (case s of
        [] \<Rightarrow> ([], s)
      | c # r \<Rightarrow> if c = 46 \<and> fst (scan_digits r) \<noteq> [] then scan_digits r else ([], s))"

definition scan_exp :: "pystr \<Rightarrow> int option \<times> pystr" where
  "scan_exp s =
     (case s of
        c # d # r \<Rightarrow>
          let (neg, t) = (if d = 45 then (True, r) else if d = 43 then (False, r) else (False, d # r));
              (ds, z) = scan_digits t
          in if (c = 101 \<or> c = 69) \<and> ds \<noteq> []
             then (Some (if neg then - int (digits_val ds) else int (digits_val ds)), z)
             else (None, s)
      | _ \<Rightarrow> (None, s))"

definition ten_pow :: "int \<Rightarrow> rat" where
  "ten_pow e = (if 0 \<le> e then 10 ^ nat e else 1 / 10 ^ nat (- e))"

text \<open>An unsigned number: digits, decimals, exponent, rest.\<close>

definition scan_magnitude :: "pystr \<Rightarrow> (pystr \<times> pystr \<times> int option \<times> pystr) option" where
  "scan_magnitude s =
     (case s of
        [] \<Rightarrow> None
      | c # r \<Rightarrow>
          if \<not> is_digit c then None
          else let (ds, r2) = (if c = 48 then ([48], r) else scan_digits s);
                   (fs, r3) = scan_frac r2;
                   (ex, r4) = scan_exp r3
               in Some (ds, fs, ex, r4))"

definition signed :: "bool \<Rightarrow> 'a::uminus \<Rightarrow> 'a" where
  "signed neg x = (if neg then - x else x)"

definition number_value :: "bool \<Rightarrow> pystr \<Rightarrow> pystr \<Rightarrow> int option \<Rightarrow> json" where
  "number_value neg ds fs ex =
     (if fs = [] \<and> ex = None then JInt (signed neg (int (digits_val ds)))
      else JFloat (signed neg
             ((of_nat (digits_val ds) + of_nat (digits_val fs) / 10 ^ length fs)
              * ten_pow (case ex of None \<Rightarrow> 0 | Some e \<Rightarrow> e))))"

definition scan_number :: "pystr \<Rightarrow> (json \<times> pystr) option" where
  "scan_number s =
     (let neg = (case s of c # _ \<Rightarrow> c = 45 | [] \<Rightarrow> False)
      in map_option (\<lambda>(ds, fs, ex, z). (number_value neg ds fs ex, z))
           (scan_magnitude (if neg then tl s else s)))"

definition is_json_ws :: "nat \<Rightarrow> bool" where
  "is_json_ws c \<longleftrightarrow> c = 32 \<or> c = 9 \<or> c = 10 \<or> c = 13"

definition skip_ws :: "pystr \<Rightarrow> pystr" where
  "skip_ws s = dropWhile is_json_ws s"

definition strip_prefix :: "pystr \<Rightarrow> pystr \<Rightarrow> pystr option" where
  "strip_prefix p s = (if take (length p) s = p then Some (drop (length p) s) else None)"

definition scan_literal :: "pystr \<Rightarrow> (json \<times> pystr) option" where
  "scan_literal s =
     (case strip_prefix (lit ''null'') s of
        Some r \<Rightarrow> Some (JNull, r)
      | None \<Rightarrow>
          (case strip_prefix (lit ''true'') s of
             Some r \<Rightarrow> Some (JBool True, r)
           | None \<Rightarrow>
               (case strip_prefix (lit ''false'') s of
                  Some r \<Rightarrow> Some (JBool False, r)
                | None \<Rightarrow> scan_number s)))"

text \<open>
  The scanner proper, with fuel. A value, an item or a member costs one unit and every second
  unit consumes a character, so twice the length of the input is enough.
\<close>

fun parse_value :: "nat \<Rightarrow> pystr \<Rightarrow> (json \<times> pystr) option"
  and parse_items :: "nat \<Rightarrow> pystr \<Rightarrow> json list \<Rightarrow> (json \<times> pystr) option"
  and parse_members :: "nat \<Rightarrow> pystr \<Rightarrow> (pystr, json) dict \<Rightarrow> (json \<times> pystr) option" where
  "parse_value 0 s = None"
| "parse_value (Suc n) s =
     (case s of
        [] \<Rightarrow> None
      | c # r \<Rightarrow>
          if c = 34 then map_option (\<lambda>(t, z). (JStr t, z)) (scan_string r)
          else if c = 123 then
            (case skip_ws r of
               [] \<Rightarrow> None
             | d # z \<Rightarrow> if d = 125 then Some (JObj [], z) else parse_members n (d # z) [])
          else if c = 91 then
            (case skip_ws r of
               [] \<Rightarrow> None
             | d # z \<Rightarrow> if d = 93 then Some (JArr [], z) else parse_items n (d # z) [])
          else scan_literal s)"
| "parse_items 0 s acc = None"
| "parse_items (Suc n) s acc =
     (case parse_value n s of
        None \<Rightarrow> None
      | Some (v, r) \<Rightarrow>
          (case skip_ws r of
             [] \<Rightarrow> None
           | c # z \<Rightarrow>
               if c = 93 then Some (JArr (acc @ [v]), z)
               else if c = 44 then parse_items n (skip_ws z) (acc @ [v])
               else None))"
| "parse_members 0 s acc = None"
| "parse_members (Suc n) s acc =
     (case s of
        [] \<Rightarrow> None
      | q # s1 \<Rightarrow>
          if q \<noteq> 34 then None
          else (case scan_string s1 of
             None \<Rightarrow> None
           | Some (k, s2) \<Rightarrow>
               (case skip_ws s2 of
                  [] \<Rightarrow> None
                | col # s3 \<Rightarrow>
                    if col \<noteq> 58 then None
                    else (case parse_value n (skip_ws s3) of
                       None \<Rightarrow> None
                     | Some (v, r) \<Rightarrow>
                         (case skip_ws r of
                            [] \<Rightarrow> None
                          | c # z \<Rightarrow>
                              if c = 125 then Some (JObj (dset acc k v), z)
                              else if c = 44 then parse_members n (skip_ws z) (dset acc k v)
                              else None)))))"

text \<open>\<^verbatim>\<open>json.loads\<close> on text; a \<^verbatim>\<open>JSONDecodeError\<close> is a \<^verbatim>\<open>ValueError\<close>.\<close>

definition json_loads :: "pystr \<Rightarrow> json result" where
  "json_loads s =
     (case parse_value (2 * length s + 2) (skip_ws s) of
        None \<Rightarrow> Inl ValueError
      | Some (v, r) \<Rightarrow> if skip_ws r = [] then Inr v else Inl ValueError)"

text \<open>\<^verbatim>\<open>json.dumps(obj, separators=(",", ":"))\<close>, its bytes, and reading bytes back.\<close>

definition json_dumps :: "json \<Rightarrow> bytes" where
  "json_dumps v = utf8_bytes (json_text v)"

definition json_loads_bytes :: "bytes \<Rightarrow> json result" where
  "json_loads_bytes bs =
     (case utf8_decode bs of None \<Rightarrow> Inl ValueError | Some s \<Rightarrow> json_loads s)"


subsection \<open>Round trip\<close>

definition has_decimals :: "nat \<Rightarrow> rat \<Rightarrow> bool" where
  "has_decimals n r \<longleftrightarrow> of_int \<lfloor>r * 10 ^ n\<rfloor> = r * 10 ^ n"

text \<open>
  The values Python code passes to \<^verbatim>\<open>json.dumps\<close>: strings without lone surrogates, floats
  of at most 1074 decimals (every finite double), dicts with distinct keys.
\<close>

fun json_ok :: "json \<Rightarrow> bool" where
  "json_ok (JFloat x) = has_decimals 1074 x"
| "json_ok (JStr s) = list_all valid_cp s"
| "json_ok (JArr xs) = (\<forall>x \<in> set xs. json_ok x)"
| "json_ok (JObj ms) =
     (dict_ok ms \<and> (\<forall>m \<in> set ms. list_all valid_cp (fst m) \<and> json_ok (snd m)))"
| "json_ok _ = True"

lemma has_decimals_mono:
  assumes "has_decimals n r" "n \<le> m"
  shows "has_decimals m r"
proof -
  obtain k where m: "m = n + k" using assms(2) by (auto simp: le_iff_add)
  have "r * 10 ^ m = (r * 10 ^ n) * 10 ^ k" by (simp add: m power_add)
  also have "\<dots> = of_int \<lfloor>r * 10 ^ n\<rfloor> * 10 ^ k"
    by (rule arg_cong [where f = "\<lambda>x. x * 10 ^ k"]) (rule assms(1) [unfolded has_decimals_def, symmetric])
  finally have "r * 10 ^ m = of_int (\<lfloor>r * 10 ^ n\<rfloor> * 10 ^ k)" by simp
  then show ?thesis unfolding has_decimals_def by (simp only: floor_of_int)
qed

lemma hexval_hexdig: "n < 16 \<Longrightarrow> hexval (hexdig n) = Some n"
  by (auto simp: hexval_def hexdig_def)

lemma hex4_hexdig:
  assumes "u < 65536"
  shows "hex4 (hexdig (u div 4096 mod 16)) (hexdig (u div 256 mod 16)) (hexdig (u div 16 mod 16))
    (hexdig (u mod 16)) = Some u"
proof -
  have d: "u div 256 = u div 16 div 16" "u div 4096 = u div 16 div 16 div 16"
    by (simp_all add: div_mult2_eq [of u 16 16, simplified] div_mult2_eq [of u 256 16, simplified])
  have "u div 16 div 16 div 16 < 16" using assms by auto
  then have "u div 16 div 16 div 16 mod 16 = u div 16 div 16 div 16" by (rule mod_less)
  then have "u div 4096 mod 16 * 4096 + u div 256 mod 16 * 256 + u div 16 mod 16 * 16 + u mod 16 = u"
    unfolding d
    using div_mult_mod_eq [of u 16] div_mult_mod_eq [of "u div 16" 16]
      div_mult_mod_eq [of "u div 16 div 16" 16] by linarith
  moreover have "hex4 (hexdig a) (hexdig b) (hexdig c) (hexdig e) = Some (a * 4096 + b * 256 + c * 16 + e)"
    if "a < 16" "b < 16" "c < 16" "e < 16" for a b c e
    using that by (simp add: hex4_def hexval_hexdig)
  ultimately show ?thesis by (metis mod_less_divisor zero_less_numeral)
qed

lemma read_escape_u [simp]: "u < 65536 \<Longrightarrow> read_escape (u_escape u @ r) = Some (u, r)"
  using hex4_hexdig [of u] unfolding u_escape_def append_Cons append_Nil read_escape.simps by simp

lemma read_escape_other: "hd s \<noteq> 92 \<or> hd (tl s) \<noteq> 117 \<Longrightarrow> read_escape s = None"
  by (cases s rule: read_escape.cases) auto

lemma u_escape_Cons: "u_escape u = 92 # tl (u_escape u)"
  by (simp add: u_escape_def)

declare scan_string.simps [simp del]

lemma scan_u_plain:
  assumes "u < 65536" "\<not> is_high_surrogate u"
  shows "scan_string (u_escape u @ r) = map_option (\<lambda>(t, z). (u # t, z)) (scan_string r)"
proof -
  have "read_escape (92 # tl (u_escape u) @ r) = Some (u, r)"
    using assms read_escape_u [of u r] u_escape_Cons [of u] by (metis append_Cons)
  with assms show ?thesis
    by (subst u_escape_Cons) (simp add: scan_string.simps(2))
qed

lemma scan_u_pair:
  assumes "65536 \<le> c" "c < 1114112"
  shows "scan_string (u_escape (55296 + (c - 65536) div 1024) @ u_escape (56320 + (c - 65536) mod 1024) @ r)
    = map_option (\<lambda>(t, z). (c # t, z)) (scan_string r)"
proof -
  let ?h = "55296 + (c - 65536) div 1024" and ?l = "56320 + (c - 65536) mod 1024"
  have "(c - 65536) div 1024 < 1024" using assms by auto
  then have h: "?h < 65536" "is_high_surrogate ?h" by (auto simp: is_high_surrogate_def)
  have "(c - 65536) mod 1024 < 1024" by simp
  then have l: "?l < 65536" "56320 \<le> ?l \<and> ?l \<le> 57343" by linarith+
  have c: "65536 + (?h - 55296) * 1024 + (?l - 56320) = c"
    using assms div_mult_mod_eq [of "c - 65536" 1024] by simp
  have "read_escape (92 # tl (u_escape ?h) @ u_escape ?l @ r) = Some (?h, u_escape ?l @ r)"
    using read_escape_u [OF h(1), of "u_escape ?l @ r"] u_escape_Cons [of ?h] by (metis append_Cons)
  with h l c show ?thesis
    by (subst u_escape_Cons [of ?h]) (simp add: scan_string.simps(2) del: add_diff_cancel_left')
qed

lemma scan_json_char:
  assumes "valid_cp c"
  shows "scan_string (json_char c @ r) = map_option (\<lambda>(t, z). (c # t, z)) (scan_string r)"
proof -
  have short: "scan_string (92 # e # r) = map_option (\<lambda>(t, z). (x # t, z)) (scan_string r)"
    if "simple_escape e = Some x" for e x
    using that read_escape_other [of "92 # e # r"]
    by (auto simp: scan_string.simps(2) simple_escape_def split: if_splits)
  have c: "c < 1114112" using assms by (simp add: valid_cp_def)
  consider "65536 \<le> c" | "c < 65536" "c < 32 \<or> 126 < c" | "32 \<le> c" "c \<le> 126" by linarith
  then show ?thesis
  proof cases
    case 1
    with c show ?thesis by (simp add: json_char_def scan_u_pair)
  next
    case 2
    have "\<not> is_high_surrogate c" using assms by (auto simp: valid_cp_def is_high_surrogate_def)
    with 2 show ?thesis
      by (auto simp: json_char_def scan_u_plain short simple_escape_def)
  next
    case 3
    then show ?thesis
      by (auto simp: json_char_def short simple_escape_def scan_string.simps(2) [of c])
  qed
qed

lemma scan_string_chars:
  "list_all valid_cp s \<Longrightarrow> scan_string (concat (map json_char s) @ 34 # r) = Some (s, r)"
  by (induction s) (simp_all add: scan_json_char scan_string.simps(2) [of 34])

lemma scan_json_string [codec_simps]:
  "list_all valid_cp s \<Longrightarrow> scan_string (tl (json_string s) @ r) = Some (s, r)"
  by (simp add: json_string_def scan_string_chars)

lemma json_string_Cons: "json_string s = 34 # tl (json_string s)"
  by (simp add: json_string_def)

text \<open>What follows a value inside a document or at its end.\<close>

definition stops :: "pystr \<Rightarrow> bool" where
  "stops r \<longleftrightarrow> r = [] \<or> hd r = 44 \<or> hd r = 93 \<or> hd r = 125"

lemma stops_not_digit: "stops (c # r) \<Longrightarrow> \<not> is_digit c \<and> c \<noteq> 46 \<and> c \<noteq> 101 \<and> c \<noteq> 69"
  by (auto simp: stops_def is_digit_def)

lemma scan_digits_stop:
  assumes "\<forall>c \<in> set ds. is_digit c" "r = [] \<or> \<not> is_digit (hd r)"
  shows "scan_digits (ds @ r) = (ds, r)"
  using assms by (cases r) (auto simp: scan_digits_def takeWhile_append dropWhile_append)

lemma dec_leading: "dec n = 48 # cs \<Longrightarrow> n = 0 \<and> cs = []"
proof (induction n arbitrary: cs rule: dec.induct)
  case (1 n)
  show ?case
  proof (cases "n < 10")
    case True
    with "1.prems" show ?thesis by (simp add: dec.simps [of n])
  next
    case False
    with "1.prems" have "dec (n div 10) @ [48 + n mod 10] = 48 # cs" by (simp add: dec.simps [of n])
    then obtain ds where "dec (n div 10) = 48 # ds"
      by (cases "dec (n div 10)") auto
    from "1.IH" [OF False this] False show ?thesis by auto
  qed
qed

lemma digits_val_dec [simp]: "digits_val (dec n) = n"
  by (simp add: digits_val_def dec_value)

text \<open>The integer part of a printed number, whatever non-digit follows.\<close>

lemma scan_int_part:
  assumes "r = [] \<or> \<not> is_digit (hd r)" "dec n = c # cs"
  shows "(if c = 48 then ([48], cs @ r) else scan_digits (c # cs @ r)) = (dec n, r)"
proof (cases "c = 48")
  case True
  with dec_leading [of n cs] assms show ?thesis by simp
next
  case False
  have "\<forall>d \<in> set (dec n). is_digit d" by (rule dec_digits)
  with False scan_digits_stop [of "dec n" r] assms show ?thesis by simp
qed

lemma scan_exp_stop: "stops r \<Longrightarrow> scan_exp r = (None, r)"
proof (cases r)
  case (Cons c t)
  assume "stops r"
  with Cons stops_not_digit [of c t] show ?thesis
    by (cases t) (auto simp: scan_exp_def scan_digits_def Let_def)
qed (simp add: scan_exp_def)

lemma scan_frac_stop: "stops r \<Longrightarrow> scan_frac r = ([], r)"
  using stops_not_digit by (cases r) (auto simp: scan_frac_def)

lemma dec_head: "dec n = c # cs \<Longrightarrow> is_digit c"
  using dec_digits [of n] by auto

lemma scan_magnitude_dec:
  assumes "r = [] \<or> \<not> is_digit (hd r)"
  shows "scan_magnitude (dec n @ r) =
    (case scan_frac r of (fs, r3) \<Rightarrow> case scan_exp r3 of (ex, r4) \<Rightarrow> Some (dec n, fs, ex, r4))"
proof -
  obtain c cs where d: "dec n = c # cs" by (cases "dec n") auto
  show ?thesis
    using scan_int_part [OF assms d] dec_head [OF d]
    by (simp add: scan_magnitude_def d split_beta Let_def)
qed

lemma dec_no_sign: "(case dec n @ r of c # _ \<Rightarrow> c = 45 | [] \<Rightarrow> False) = False"
proof -
  obtain c cs where d: "dec n = c # cs" by (cases "dec n") auto
  with dec_head [OF d] show ?thesis by (auto simp: is_digit_def)
qed

lemma scan_number_int:
  assumes "stops r"
  shows "scan_number (str_int i @ r) = Some (JInt i, r)"
proof -
  have r: "r = [] \<or> \<not> is_digit (hd r)" using assms by (cases r) (auto dest: stops_not_digit)
  show ?thesis
    using assms dec_no_sign [of "nat i" r]
    by (auto simp: scan_number_def str_int_def Let_def scan_magnitude_dec [OF r] scan_frac_stop
        scan_exp_stop number_value_def signed_def)
qed

lemma digits_fold: "foldl (\<lambda>a c. a * 10 + (c - 48)) a ds = a * 10 ^ length ds + digits_val ds"
proof (induction ds arbitrary: a)
  case (Cons d ds)
  from Cons [of "a * 10 + (d - 48)"] Cons [of "d - 48"] show ?case
    by (simp add: digits_val_def algebra_simps)
qed (simp add: digits_val_def)

lemma digits_val_Cons: "digits_val (d # ds) = (d - 48) * 10 ^ length ds + digits_val ds"
  using digits_fold [of "d - 48" ds] by (simp add: digits_val_def)

lemma frac_digits_spec:
  "0 \<le> r \<Longrightarrow> r < 1 \<Longrightarrow> has_decimals n r \<Longrightarrow>
   (\<forall>c \<in> set (frac_digits n r). is_digit c)
   \<and> of_nat (digits_val (frac_digits n r)) / 10 ^ length (frac_digits n r) = r"
proof (induction n arbitrary: r)
  case 0
  then have "of_int \<lfloor>r\<rfloor> = r" by (simp add: has_decimals_def)
  moreover have "\<lfloor>r\<rfloor> = 0" using 0 by linarith
  ultimately show ?case by (simp add: digits_val_def)
next
  case (Suc n)
  show ?case
  proof (cases "r = 0")
    case False
    define d where "d = \<lfloor>r * 10\<rfloor>"
    define q where "q = r * 10 - of_int d"
    have d: "0 \<le> d" "d < 10" using Suc.prems by (auto simp: d_def floor_less_iff)
    have q: "0 \<le> q" "q < 1" using frac_ge_0 [of "r * 10"] frac_lt_1 [of "r * 10"] unfolding q_def d_def frac_def by simp_all
    have "q * 10 ^ n = r * 10 ^ Suc n - of_int d * 10 ^ n"
      by (simp add: q_def algebra_simps)
    also have "r * 10 ^ Suc n = of_int \<lfloor>r * 10 ^ Suc n\<rfloor>"
      using Suc.prems(3) unfolding has_decimals_def by (rule sym)
    finally have "q * 10 ^ n = of_int (\<lfloor>r * 10 ^ Suc n\<rfloor> - d * 10 ^ n)" by simp
    then have "has_decimals n q" unfolding has_decimals_def by (simp only: floor_of_int)
    note IH = Suc.IH [OF q this]
    let ?fs = "frac_digits n q"
    have fs: "frac_digits (Suc n) r = (48 + nat d) # ?fs"
      using False by (simp add: d_def q_def)
    have "of_nat (digits_val ?fs) = q * 10 ^ length ?fs"
      using IH by (simp add: field_simps)
    then have "of_nat (digits_val ((48 + nat d) # ?fs)) = (of_int d + q) * 10 ^ length ?fs"
      using d by (simp add: digits_val_Cons algebra_simps)
    then have "of_nat (digits_val ((48 + nat d) # ?fs)) / 10 ^ Suc (length ?fs) = r"
      by (simp add: q_def field_simps)
    with IH d fs show ?thesis by (simp add: is_digit_def)
  qed (simp add: digits_val_def)
qed

lemma scan_frac_digits:
  assumes "\<forall>c \<in> set fs. is_digit c" "fs \<noteq> []" "stops r"
  shows "scan_frac (46 # fs @ r) = (fs, r)"
proof -
  have "r = [] \<or> \<not> is_digit (hd r)" using assms(3) by (cases r) (auto dest: stops_not_digit)
  with assms scan_digits_stop [of fs r] show ?thesis by (simp add: scan_frac_def)
qed

lemma has_decimals_abs:
  assumes "has_decimals n x"
  shows "has_decimals n \<bar>x\<bar>"
proof (cases "x < 0")
  case True
  have "\<bar>x\<bar> * 10 ^ n = - (x * 10 ^ n)" using True by simp
  also have "\<dots> = of_int (- \<lfloor>x * 10 ^ n\<rfloor>)"
    using assms unfolding has_decimals_def by (simp only: of_int_minus)
  finally show ?thesis unfolding has_decimals_def by (simp only: floor_of_int)
qed (use assms in simp)

lemma has_decimals_frac:
  assumes "has_decimals n a"
  shows "has_decimals n (a - of_int \<lfloor>a\<rfloor>)"
proof -
  have "(a - of_int \<lfloor>a\<rfloor>) * 10 ^ n = of_int (\<lfloor>a * 10 ^ n\<rfloor> - \<lfloor>a\<rfloor> * 10 ^ n)"
    using assms unfolding has_decimals_def by (simp only: of_int_diff of_int_mult of_int_power
        of_int_numeral left_diff_distrib)
  then show ?thesis unfolding has_decimals_def by (simp only: floor_of_int)
qed

lemma scan_number_float:
  assumes "has_decimals 1074 x" "stops r"
  shows "scan_number (float_repr x @ r) = Some (JFloat x, r)"
proof -
  define a where "a = \<bar>x\<bar>"
  define f where "f = a - of_int \<lfloor>a\<rfloor>"
  define fs where "fs = (if f = 0 then [48] else frac_digits 1074 f)"
  have a: "0 \<le> a" by (simp add: a_def)
  have f: "0 \<le> f" "f < 1" using frac_ge_0 [of a] frac_lt_1 [of a] unfolding f_def frac_def by simp_all
  have "has_decimals 1074 a" unfolding a_def by (rule has_decimals_abs [OF assms(1)])
  then have dec_f: "has_decimals 1074 f" unfolding f_def by (rule has_decimals_frac)
  note spec = frac_digits_spec [OF f dec_f]
  have fs: "\<forall>c \<in> set fs. is_digit c" "of_nat (digits_val fs) / 10 ^ length fs = f" "fs \<noteq> []"
    using spec by (auto simp: fs_def is_digit_def digits_val_def simp del: frac_digits.simps)
  have "of_int \<lfloor>a\<rfloor> + f = a" by (simp add: f_def)
  then have val: "number_value (x < 0) (dec (nat \<lfloor>a\<rfloor>)) fs None = JFloat x"
    using a fs by (auto simp: number_value_def signed_def ten_pow_def a_def)
  have dot: "\<not> is_digit (hd (46 # fs @ r))" by (simp add: is_digit_def)
  have mag: "scan_magnitude (dec (nat \<lfloor>a\<rfloor>) @ 46 # fs @ r) = Some (dec (nat \<lfloor>a\<rfloor>), fs, None, r)"
    using scan_magnitude_dec [of "46 # fs @ r" "nat \<lfloor>a\<rfloor>"] dot
    by (simp add: scan_frac_digits fs assms(2) scan_exp_stop)
  have "float_repr x @ r = (if x < 0 then [45] else []) @ dec (nat \<lfloor>a\<rfloor>) @ 46 # fs @ r"
    by (simp add: float_repr_def Let_def a_def f_def fs_def del: frac_digits.simps)
  with mag val dec_no_sign [of "nat \<lfloor>a\<rfloor>" "46 # fs @ r"] show ?thesis
    by (auto simp: scan_number_def Let_def)
qed

text \<open>Literals and numbers start with a letter, a digit or a minus sign.\<close>

definition value_start :: "nat \<Rightarrow> bool" where
  "value_start c \<longleftrightarrow> \<not> is_json_ws c \<and> c \<noteq> 93 \<and> c \<noteq> 125 \<and> c \<noteq> 44 \<and> c \<noteq> 58"

lemma str_int_head: "str_int i = c # cs \<Longrightarrow> is_digit c \<or> c = 45"
  using str_int_chars [of c i] by simp

lemma float_repr_head: "float_repr x = c # cs \<Longrightarrow> is_digit c \<or> c = 45"
  using dec_head [of "nat \<lfloor>\<bar>x\<bar>\<rfloor>"]
  by (cases "dec (nat \<lfloor>\<bar>x\<bar>\<rfloor>)") (auto simp: float_repr_def Let_def split: if_splits)

lemma json_text_head: "\<exists>c cs. json_text v = c # cs \<and> value_start c"
proof (cases v)
  case (JInt i)
  then show ?thesis
    using str_int_head [of i] by (cases "str_int i") (auto simp: value_start_def is_digit_def is_json_ws_def)
next
  case (JFloat x)
  moreover have "float_repr x \<noteq> []" by (simp add: float_repr_def Let_def)
  ultimately show ?thesis
    using float_repr_head [of x] by (cases "float_repr x") (auto simp: value_start_def is_digit_def is_json_ws_def)
next
  case (JArr xs)
  then show ?thesis by (cases xs) (auto simp: value_start_def is_json_ws_def)
next
  case (JObj ms)
  then show ?thesis by (cases ms) (auto simp: value_start_def is_json_ws_def)
qed (auto simp: json_string_def value_start_def is_json_ws_def)

lemma skip_ws_start: "value_start c \<Longrightarrow> skip_ws (c # s) = c # s"
  by (simp add: skip_ws_def value_start_def)

lemma skip_ws_text: "skip_ws (json_text v @ r) = json_text v @ r"
  using json_text_head [of v] skip_ws_start by auto

lemma skip_ws_punct [simp]:
  "skip_ws (34 # s) = 34 # s" "skip_ws (44 # s) = 44 # s" "skip_ws (58 # s) = 58 # s"
  "skip_ws (91 # s) = 91 # s" "skip_ws (93 # s) = 93 # s" "skip_ws (123 # s) = 123 # s"
  "skip_ws (125 # s) = 125 # s" "skip_ws [] = []"
  by (simp_all add: skip_ws_def is_json_ws_def)

text \<open>A number reaches \<^verbatim>\<open>scan_number\<close>.\<close>

lemma parse_number:
  assumes "is_digit c \<or> c = 45" "0 < n"
  shows "parse_value n (c # s) = scan_number (c # s)"
proof -
  have "c \<noteq> 34" "c \<noteq> 123" "c \<noteq> 91" "c \<noteq> 110" "c \<noteq> 116" "c \<noteq> 102"
    using assms(1) by (auto simp: is_digit_def)
  with assms(2) show ?thesis
    by (cases n) (auto simp: scan_literal_def strip_prefix_def)
qed

text \<open>Where the item and member loops continue after a value.\<close>

definition items_tail :: "nat \<Rightarrow> json list \<Rightarrow> pystr \<Rightarrow> (json \<times> pystr) option" where
  "items_tail n acc r =
     (case skip_ws r of
        [] \<Rightarrow> None
      | c # z \<Rightarrow> if c = 93 then Some (JArr acc, z)
                 else if c = 44 then parse_items n (skip_ws z) acc else None)"

definition members_tail :: "nat \<Rightarrow> (pystr, json) dict \<Rightarrow> pystr \<Rightarrow> (json \<times> pystr) option" where
  "members_tail n acc r =
     (case skip_ws r of
        [] \<Rightarrow> None
      | c # z \<Rightarrow> if c = 125 then Some (JObj acc, z)
                 else if c = 44 then parse_members n (skip_ws z) acc else None)"

lemma parse_items_step:
  "parse_value n s = Some (v, r) \<Longrightarrow> parse_items (Suc n) s acc = items_tail n (acc @ [v]) r"
  by (simp add: items_tail_def)

lemma parse_members_step:
  assumes "list_all valid_cp k" "parse_value n (json_text v @ r) = Some (v, r)"
  shows "parse_members (Suc n) (json_string k @ 58 # json_text v @ r) acc = members_tail n (dset acc k v) r"
proof -
  have "scan_string (tl (json_string k) @ 58 # json_text v @ r) = Some (k, 58 # json_text v @ r)"
    using assms(1) by (rule scan_json_string)
  with assms(2) show ?thesis
    by (subst json_string_Cons) (simp add: members_tail_def skip_ws_text)
qed

lemma stops_items: "stops (json_items xs @ r)"
  by (cases xs) (auto simp: stops_def)

lemma stops_members: "stops (json_members ms @ r)"
  by (cases ms) (auto simp: stops_def)

lemma parse_literals:
  "0 < n \<Longrightarrow> parse_value n (lit ''null'' @ r) = Some (JNull, r)"
  "0 < n \<Longrightarrow> parse_value n (lit ''true'' @ r) = Some (JBool True, r)"
  "0 < n \<Longrightarrow> parse_value n (lit ''false'' @ r) = Some (JBool False, r)"
  by (cases n; simp add: scan_literal_def strip_prefix_def)+

lemma parse_json_int: "stops r \<Longrightarrow> 0 < n \<Longrightarrow> parse_value n (str_int i @ r) = Some (JInt i, r)"
  using str_int_head [of i] parse_number scan_number_int [of r i] by (cases "str_int i") auto

lemma parse_json_float:
  assumes "has_decimals 1074 x" "stops r" "0 < n"
  shows "parse_value n (float_repr x @ r) = Some (JFloat x, r)"
proof -
  have "float_repr x \<noteq> []" by (simp add: float_repr_def Let_def)
  then obtain c cs where "float_repr x = c # cs" by (cases "float_repr x") auto
  with float_repr_head [of x] scan_number_float [OF assms(1,2)] parse_number [of c n "cs @ r"] assms(3)
  show ?thesis by simp
qed

lemma parse_json_string:
  "list_all valid_cp s \<Longrightarrow> 0 < n \<Longrightarrow> parse_value n (json_string s @ r) = Some (JStr s, r)"
  using scan_json_string [of s r] by (subst json_string_Cons) (cases n, auto)

lemma parse_array_start:
  "parse_value (Suc n) (91 # json_text v @ r) = parse_items n (json_text v @ r) []"
  using json_text_head [of v] skip_ws_start by (auto simp: value_start_def)

lemma parse_object_start:
  "parse_value (Suc n) (123 # json_string k @ r) = parse_members n (json_string k @ r) []"
  by (simp add: json_string_def)

lemma text_nonempty: "0 < length (json_text v)"
  using json_text_head [of v] by auto

lemma parse_json_text:
  shows "json_ok v \<Longrightarrow> stops r \<Longrightarrow> 2 * length (json_text v) \<le> n \<Longrightarrow>
      parse_value n (json_text v @ r) = Some (v, r)"
    and "\<forall>x \<in> set xs. json_ok x \<Longrightarrow> 2 * length (json_items xs) \<le> n \<Longrightarrow>
      items_tail n acc (json_items xs @ r) = Some (JArr (acc @ xs), r)"
    and "\<forall>m \<in> set ms. list_all valid_cp (fst m) \<and> json_ok (snd m) \<Longrightarrow> dict_ok (dacc @ ms) \<Longrightarrow>
      2 * length (json_members ms) \<le> n \<Longrightarrow>
      members_tail n dacc (json_members ms @ r) = Some (JObj (dacc @ ms), r)"
proof (induction v and xs and ms arbitrary: n r and n r acc and n r dacc
    rule: json_text_json_items_json_members.induct)
  case (2 b)
  then show ?case using parse_literals [of n r] by (auto simp del: list.map)
next
  case (7 x xs)
  obtain m where n: "n = Suc (Suc m)" "2 * length (json_text x) \<le> m" "2 * length (json_items xs) \<le> m"
    using "7.prems"(3) text_nonempty [of x] by (cases n; cases "n - 1") auto
  have "parse_value m (json_text x @ json_items xs @ r) = Some (x, json_items xs @ r)"
    using "7.prems" n by (intro "7.IH"(1)) (auto simp: stops_items)
  then have "parse_items (Suc m) (json_text x @ json_items xs @ r) [] = items_tail m [x] (json_items xs @ r)"
    by (simp add: parse_items_step del: parse_items.simps)
  also have "\<dots> = Some (JArr (x # xs), r)"
    using "7.IH"(2) [of m "[x]" r] "7.prems" n by simp
  finally show ?case
    by (simp add: n parse_array_start del: parse_items.simps parse_value.simps)
next
  case (9 k v ms)
  obtain m where n: "n = Suc (Suc m)" "2 * length (json_text v) \<le> m" "2 * length (json_members ms) \<le> m"
    using "9.prems"(3) text_nonempty [of v] by (cases n; cases "n - 1") auto
  have v: "parse_value m (json_text v @ json_members ms @ r) = Some (v, json_members ms @ r)"
    using "9.prems" n by (intro "9.IH"(1)) (auto simp: stops_members)
  have "parse_members (Suc m) (json_string k @ 58 # json_text v @ json_members ms @ r) []
      = members_tail m (dset [] k v) (json_members ms @ r)"
    using "9.prems" v by (intro parse_members_step) auto
  also have "\<dots> = Some (JObj ((k, v) # ms), r)"
    using "9.IH"(2) [of "[(k, v)]" m r] "9.prems" n by (simp add: dset_absent)
  finally show ?case
    by (simp add: n parse_object_start del: parse_members.simps parse_value.simps)
next
  case (11 x xs)
  obtain m where n: "n = Suc m" "2 * length (json_text x) \<le> m" "2 * length (json_items xs) \<le> m"
    using "11.prems"(2) by (cases n) auto
  have "parse_value m (json_text x @ json_items xs @ r) = Some (x, json_items xs @ r)"
    using "11.prems" n by (intro "11.IH"(1)) (auto simp: stops_items)
  then have "parse_items n (json_text x @ json_items xs @ r) acc
      = items_tail m (acc @ [x]) (json_items xs @ r)"
    by (simp add: n parse_items_step del: parse_items.simps)
  with "11.IH"(2) [of m "acc @ [x]" r] "11.prems" n show ?case
    by (subst items_tail_def) (simp add: skip_ws_text del: parse_items.simps)
next
  case (13 k v ms)
  obtain m where n: "n = Suc m" "2 * length (json_text v) \<le> m" "2 * length (json_members ms) \<le> m"
    using "13.prems"(3) by (cases n) auto
  have v: "parse_value m (json_text v @ json_members ms @ r) = Some (v, json_members ms @ r)"
    using "13.prems" n by (intro "13.IH"(1)) (auto simp: stops_members)
  have "parse_members n (json_string k @ 58 # json_text v @ json_members ms @ r) dacc
      = members_tail m (dset dacc k v) (json_members ms @ r)"
    unfolding n(1) using "13.prems" v by (intro parse_members_step) auto
  moreover have "dset dacc k v = dacc @ [(k, v)]"
    using "13.prems"(2) by (intro dset_absent) (auto simp: dget_None_iff)
  moreover have "skip_ws (json_string k @ s) = json_string k @ s" for s
    by (simp add: json_string_def)
  ultimately show ?case
    using "13.IH"(2) [of "dacc @ [(k, v)]" m r] "13.prems" n
    by (subst members_tail_def) (simp del: parse_members.simps)
next
  case (3 i)
  then have "0 < n" using text_nonempty [of "JInt i"] by linarith
  with 3 show ?case by (simp add: parse_json_int)
next
  case (4 x)
  then have "0 < n" using text_nonempty [of "JFloat x"] by linarith
  with 4 show ?case by (simp add: parse_json_float)
next
  case (5 s)
  then have "0 < n" using text_nonempty [of "JStr s"] by linarith
  with 5 show ?case by (simp add: parse_json_string)
next
  case 6
  then show ?case by (cases n) simp_all
next
  case 8
  then show ?case by (cases n) simp_all
qed (auto simp: parse_literals items_tail_def members_tail_def simp del: list.map)

text \<open>The output is ASCII, so it always encodes.\<close>

lemma hexdig_ascii: "c < 16 \<Longrightarrow> hexdig c < 128"
  by (simp add: hexdig_def)

lemma json_char_ascii: "d \<in> set (json_char c) \<Longrightarrow> d < 128"
  by (auto simp: json_char_def u_escape_def hexdig_ascii split: if_splits)

lemma json_string_ascii: "c \<in> set (json_string s) \<Longrightarrow> c < 128"
  by (auto simp: json_string_def dest: json_char_ascii)

lemma dec_ascii: "c \<in> set (dec n) \<Longrightarrow> c < 128"
  using dec_digits [of n] by (auto simp: is_digit_def)

lemma frac_range: "0 \<le> a - rat_of_int \<lfloor>a\<rfloor> \<and> a - rat_of_int \<lfloor>a\<rfloor> < 1"
  using frac_ge_0 [of a] frac_lt_1 [of a] unfolding frac_def by simp

lemma frac_digits_ascii:
  "0 \<le> r \<and> r < 1 \<Longrightarrow> c \<in> set (frac_digits n r) \<Longrightarrow> c < 128"
proof (induction n arbitrary: r)
  case (Suc n)
  have "\<lfloor>r * 10\<rfloor> < 10" using Suc.prems by (simp add: floor_less_iff)
  then have "48 + nat \<lfloor>r * 10\<rfloor> < 128" by linarith
  moreover have "c = 48 + nat \<lfloor>r * 10\<rfloor> \<or> c \<in> set (frac_digits n (r * 10 - of_int \<lfloor>r * 10\<rfloor>))"
    using Suc.prems(2) by (simp split: if_splits)
  ultimately show ?case using Suc.IH [OF frac_range] by blast
qed simp

lemma float_repr_ascii: "c \<in> set (float_repr x) \<Longrightarrow> c < 128"
  using dec_ascii frac_digits_ascii [OF frac_range]
  by (auto simp: float_repr_def Let_def simp del: frac_digits.simps split: if_splits)

lemma json_text_ascii:
  shows "c \<in> set (json_text v) \<Longrightarrow> c < 128" and "c \<in> set (json_items xs) \<Longrightarrow> c < 128"
    and "c \<in> set (json_members ms) \<Longrightarrow> c < 128"
proof (induction v and xs and ms rule: json_text_json_items_json_members.induct)
  case (3 i)
  then show ?case using str_int_chars [of c i] by (auto simp: is_digit_def)
qed (auto simp: json_string_ascii float_repr_ascii split: if_splits)

lemma json_text_valid: "list_all valid_cp (json_text v)"
  using json_text_ascii(1) [of _ v] by (force simp: list_all_iff valid_cp_def)

lemma json_loads_text: "json_ok v \<Longrightarrow> json_loads (json_text v) = Inr v"
  using parse_json_text(1) [of v "[]" "2 * length (json_text v) + 2"] skip_ws_text [of v "[]"]
  by (simp add: json_loads_def stops_def)

lemma json_loads_dumps [codec_simps]: "json_ok v \<Longrightarrow> json_loads_bytes (json_dumps v) = Inr v"
  by (simp add: json_loads_bytes_def json_dumps_def utf8_decode_bytes json_text_valid json_loads_text)

subsection \<open>Values in a program\<close>

text \<open>\<^verbatim>\<open>obj[key]\<close> on a decoded dict, and \<^verbatim>\<open>obj.get(key)\<close>.\<close>

definition jget :: "(pystr \<times> json) list \<Rightarrow> pystr \<Rightarrow> json option" where
  "jget ms k = dget ms k"

definition jfield :: "(pystr \<times> json) list \<Rightarrow> pystr \<Rightarrow> json result" where
  "jfield ms k = (case dget ms k of None \<Rightarrow> Inl KeyError | Some v \<Rightarrow> Inr v)"

text \<open>
  \<^verbatim>\<open>repr\<close> of a string: the quote that needs no escape, control characters escaped;
  every character above \<open>U+00A0\<close> counts as printable.
\<close>

definition repr_char :: "nat \<Rightarrow> nat \<Rightarrow> pystr" where
  "repr_char q c =
     (if c = q \<or> c = 92 then [92, c]
      else if c = 10 then [92, 110]
      else if c = 13 then [92, 114]
      else if c = 9 then [92, 116]
      else if c < 32 \<or> 127 \<le> c \<and> c \<le> 160 then [92, 120, hexdig (c div 16), hexdig (c mod 16)]
      else [c])"

definition repr_str :: "pystr \<Rightarrow> pystr" where
  "repr_str s =
     (let q = (if 39 \<in> set s \<and> 34 \<notin> set s then 34 else 39)
      in q # concat (map (repr_char q) s) @ [q])"

fun join_comma :: "pystr list \<Rightarrow> pystr" where
  "join_comma [] = []"
| "join_comma [x] = x"
| "join_comma (x # xs) = x @ [44, 32] @ join_comma xs"

fun py_repr :: "json \<Rightarrow> pystr" where
  "py_repr JNull = lit ''None''"
| "py_repr (JBool b) = (if b then lit ''True'' else lit ''False'')"
| "py_repr (JInt i) = str_int i"
| "py_repr (JFloat x) = float_repr x"
| "py_repr (JStr s) = repr_str s"
| "py_repr (JArr xs) = 91 # join_comma (map py_repr xs) @ [93]"
| "py_repr (JObj ms) = 123 # join_comma (map (\<lambda>(k, v). repr_str k @ [58, 32] @ py_repr v) ms) @ [125]"

text \<open>\<^verbatim>\<open>str(x)\<close>, \<^verbatim>\<open>int(x)\<close>, \<^verbatim>\<open>float(x)\<close> of an exact number, and \<^verbatim>\<open>bool(x)\<close>.\<close>

definition py_str :: "json \<Rightarrow> pystr" where
  "py_str v = (case v of JStr s \<Rightarrow> s | _ \<Rightarrow> py_repr v)"

fun py_int :: "json \<Rightarrow> int result" where
  "py_int (JBool b) = Inr (if b then 1 else 0)"
| "py_int (JInt i) = Inr i"
| "py_int (JFloat x) = Inr (if x < 0 then - \<lfloor>- x\<rfloor> else \<lfloor>x\<rfloor>)"
| "py_int (JStr s) = int_of_str s"
| "py_int _ = Inl TypeError"

fun truthy :: "json \<Rightarrow> bool" where
  "truthy JNull = False"
| "truthy (JBool b) = b"
| "truthy (JInt i) = (i \<noteq> 0)"
| "truthy (JFloat x) = (x \<noteq> 0)"
| "truthy (JStr s) = (s \<noteq> [])"
| "truthy (JArr xs) = (xs \<noteq> [])"
| "truthy (JObj ms) = (ms \<noteq> [])"

lemma py_str_JStr [codec_simps, simp]: "py_str (JStr s) = s"
  by (simp add: py_str_def)

subsection \<open>Fields of literal objects\<close>

lemma lit_neq [simp]: "s \<noteq> t \<Longrightarrow> lit s \<noteq> lit t"
  by simp

lemma dget_Cons [dict_simps]: "dget ((k, v) # d) k' = (if k' = k then Some v else dget d k')"
  by (simp add: dget_def)

lemma dkeys_simps [dict_simps]: "dkeys [] = []" "dkeys ((k, v) # d) = k # dkeys d"
  by simp_all

lemmas field_simps_json = jfield_def jget_def dget_Cons dkeys_simps

end
