(* ===== verification/DirectoryMessages.thy ===== *)
theory DirectoryMessages
  imports Directory Json
begin

text \<open>
  \<^verbatim>\<open>pyleans/cluster/directory_messages.py\<close>: the bodies of the directory's inter-silo
  RPCs, encoded to and decoded from JSON bytes, and the hash-ring arcs a rebuild query names.
  A decoder is total: it returns the request or the exception the code raises on that input.
\<close>

definition DIRECTORY_HEADER_PREFIX :: bytes where
  "DIRECTORY_HEADER_PREFIX = utf8_bytes (lit ''pyleans/directory/v1/'')"

definition DIRECTORY_REGISTER_HEADER :: bytes where
  "DIRECTORY_REGISTER_HEADER = DIRECTORY_HEADER_PREFIX @ utf8_bytes (lit ''register'')"

definition DIRECTORY_LOOKUP_HEADER :: bytes where
  "DIRECTORY_LOOKUP_HEADER = DIRECTORY_HEADER_PREFIX @ utf8_bytes (lit ''lookup'')"

definition DIRECTORY_UNREGISTER_HEADER :: bytes where
  "DIRECTORY_UNREGISTER_HEADER = DIRECTORY_HEADER_PREFIX @ utf8_bytes (lit ''unregister'')"

definition DIRECTORY_RESOLVE_HEADER :: bytes where
  "DIRECTORY_RESOLVE_HEADER = DIRECTORY_HEADER_PREFIX @ utf8_bytes (lit ''resolve'')"

definition DIRECTORY_HANDOFF_HEADER :: bytes where
  "DIRECTORY_HANDOFF_HEADER = DIRECTORY_HEADER_PREFIX @ utf8_bytes (lit ''handoff'')"

definition DIRECTORY_DEACTIVATE_HEADER :: bytes where
  "DIRECTORY_DEACTIVATE_HEADER = DIRECTORY_HEADER_PREFIX @ utf8_bytes (lit ''deactivate'')"

definition DIRECTORY_REBUILD_QUERY_HEADER :: bytes where
  "DIRECTORY_REBUILD_QUERY_HEADER = DIRECTORY_HEADER_PREFIX @ utf8_bytes (lit ''rebuild-query'')"

definition starts_with :: "bytes \<Rightarrow> bytes \<Rightarrow> bool" where
  "starts_with bs p \<longleftrightarrow> take (length p) bs = p"

definition is_directory_header :: "bytes \<Rightarrow> bool" where
  "is_directory_header header = starts_with header DIRECTORY_HEADER_PREFIX"

datatype RegisterRequest = RegisterRequest (reg_grain: GrainId) (reg_silo: SiloAddress)

datatype LookupRequest = LookupRequest (look_grain: GrainId)

datatype UnregisterRequest = UnregisterRequest (unreg_grain: GrainId) (unreg_silo: SiloAddress)

datatype ResolveRequest =
  ResolveRequest (res_grain: GrainId) (placement_class: pystr) (res_caller: "SiloAddress option")

datatype HandoffRequest = HandoffRequest (handoff_entry: DirectoryEntry)

datatype DeactivateRequest = DeactivateRequest (deact_grain: GrainId) (deact_epoch: int)

datatype Arc = Arc (arc_start: int) (arc_end: int)

definition arc_contains :: "Arc \<Rightarrow> int \<Rightarrow> bool" where
  "arc_contains a h =
     (if arc_start a \<le> arc_end a then arc_start a < h \<and> h \<le> arc_end a
      else h > arc_start a \<or> h \<le> arc_end a)"

datatype RebuildQueryRequest = RebuildQueryRequest (query_arcs: "Arc list")

datatype RebuildQueryResponse = RebuildQueryResponse (response_entries: "DirectoryEntry list")

subsection \<open>Codec helpers\<close>

definition dump_obj :: "(pystr \<times> json) list \<Rightarrow> bytes" where
  "dump_obj fs = json_dumps (JObj fs)"

definition load_obj :: "bytes \<Rightarrow> (pystr \<times> json) list result" where
  "load_obj data =
     (case json_loads_bytes data of
        Inl e \<Rightarrow> Inl ValueError
      | Inr (JObj fs) \<Rightarrow> Inr fs
      | Inr _ \<Rightarrow> Inl ValueError)"

definition grain_id_to_dict :: "GrainId \<Rightarrow> json" where
  "grain_id_to_dict g =
     JObj [(lit ''grain_type'', JStr (grain_type g)), (lit ''key'', JStr (grain_key g))]"

text \<open>A \<^verbatim>\<open>KeyError\<close> or \<^verbatim>\<open>TypeError\<close> inside becomes a \<^verbatim>\<open>ValueError\<close>.\<close>

definition grain_id_from_dict :: "json \<Rightarrow> GrainId result" where
  "grain_id_from_dict obj =
     (case obj of
        JObj f \<Rightarrow>
          (case (jfield f (lit ''grain_type''), jfield f (lit ''key'')) of
             (Inr t, Inr k) \<Rightarrow> Inr (GrainId (py_str t) (py_str k))
           | _ \<Rightarrow> Inl ValueError)
      | _ \<Rightarrow> Inl ValueError)"

definition silo_from_str :: "json \<Rightarrow> SiloAddress result" where
  "silo_from_str value = (case value of JStr s \<Rightarrow> from_silo_id s | _ \<Rightarrow> Inl ValueError)"

definition entry_to_dict :: "DirectoryEntry \<Rightarrow> json" where
  "entry_to_dict e =
     JObj [(lit ''grain_id'', grain_id_to_dict (entry_grain e)),
           (lit ''silo'', JStr (silo_id (entry_silo e))),
           (lit ''activation_epoch'', JInt (activation_epoch e))]"

definition entry_from_dict :: "json \<Rightarrow> DirectoryEntry result" where
  "entry_from_dict obj =
     (case obj of
        JObj f \<Rightarrow>
          (case res_bind (jfield f (lit ''grain_id'')) (\<lambda>g.
                res_bind (grain_id_from_dict g) (\<lambda>grain.
                res_bind (jfield f (lit ''silo'')) (\<lambda>s.
                res_bind (silo_from_str s) (\<lambda>silo.
                res_bind (jfield f (lit ''activation_epoch'')) (\<lambda>n.
                res_bind (py_int n) (\<lambda>epoch. Inr (DirectoryEntry grain silo epoch))))))) of
             Inl e \<Rightarrow> Inl ValueError
           | Inr entry \<Rightarrow> Inr entry)
      | _ \<Rightarrow> Inl ValueError)"

subsection \<open>Requests and responses\<close>

definition encode_register :: "RegisterRequest \<Rightarrow> bytes" where
  "encode_register req =
     dump_obj [(lit ''grain_id'', grain_id_to_dict (reg_grain req)),
               (lit ''silo'', JStr (silo_id (reg_silo req)))]"

definition decode_register :: "bytes \<Rightarrow> RegisterRequest result" where
  "decode_register data =
     res_bind (load_obj data) (\<lambda>f.
     res_bind (jfield f (lit ''grain_id'')) (\<lambda>g.
     res_bind (grain_id_from_dict g) (\<lambda>grain.
     res_bind (jfield f (lit ''silo'')) (\<lambda>s.
     res_bind (silo_from_str s) (\<lambda>silo. Inr (RegisterRequest grain silo))))))"

definition encode_lookup :: "LookupRequest \<Rightarrow> bytes" where
  "encode_lookup req = dump_obj [(lit ''grain_id'', grain_id_to_dict (look_grain req))]"

definition decode_lookup :: "bytes \<Rightarrow> LookupRequest result" where
  "decode_lookup data =
     res_bind (load_obj data) (\<lambda>f.
     res_bind (jfield f (lit ''grain_id'')) (\<lambda>g.
     res_bind (grain_id_from_dict g) (\<lambda>grain. Inr (LookupRequest grain))))"

definition encode_unregister :: "UnregisterRequest \<Rightarrow> bytes" where
  "encode_unregister req =
     dump_obj [(lit ''grain_id'', grain_id_to_dict (unreg_grain req)),
               (lit ''silo'', JStr (silo_id (unreg_silo req)))]"

definition decode_unregister :: "bytes \<Rightarrow> UnregisterRequest result" where
  "decode_unregister data =
     res_bind (load_obj data) (\<lambda>f.
     res_bind (jfield f (lit ''grain_id'')) (\<lambda>g.
     res_bind (grain_id_from_dict g) (\<lambda>grain.
     res_bind (jfield f (lit ''silo'')) (\<lambda>s.
     res_bind (silo_from_str s) (\<lambda>silo. Inr (UnregisterRequest grain silo))))))"

definition encode_resolve :: "ResolveRequest \<Rightarrow> bytes" where
  "encode_resolve req =
     dump_obj [(lit ''grain_id'', grain_id_to_dict (res_grain req)),
               (lit ''placement_class'', JStr (placement_class req)),
               (lit ''caller'', (case res_caller req of None \<Rightarrow> JNull | Some c \<Rightarrow> JStr (silo_id c)))]"

text \<open>\<^verbatim>\<open>obj.get("caller")\<close>: an absent field and a null both mean no caller.\<close>

definition decode_resolve :: "bytes \<Rightarrow> ResolveRequest result" where
  "decode_resolve data =
     res_bind (load_obj data) (\<lambda>f.
     res_bind (jfield f (lit ''grain_id'')) (\<lambda>g.
     res_bind (grain_id_from_dict g) (\<lambda>grain.
     res_bind (jfield f (lit ''placement_class'')) (\<lambda>p.
     res_bind (case jget f (lit ''caller'') of
                 None \<Rightarrow> Inr None
               | Some JNull \<Rightarrow> Inr None
               | Some v \<Rightarrow> res_bind (silo_from_str v) (\<lambda>s. Inr (Some s))) (\<lambda>caller.
     Inr (ResolveRequest grain (py_str p) caller))))))"

definition encode_entry :: "DirectoryEntry option \<Rightarrow> bytes" where
  "encode_entry entry =
     (case entry of
        None \<Rightarrow> dump_obj [(lit ''entry'', JNull)]
      | Some e \<Rightarrow> dump_obj [(lit ''entry'', entry_to_dict e)])"

definition decode_entry :: "bytes \<Rightarrow> DirectoryEntry option result" where
  "decode_entry data =
     res_bind (load_obj data) (\<lambda>f.
       (case jget f (lit ''entry'') of
          None \<Rightarrow> Inr None
        | Some JNull \<Rightarrow> Inr None
        | Some raw \<Rightarrow> res_bind (entry_from_dict raw) (\<lambda>e. Inr (Some e))))"

definition encode_none :: bytes where
  "encode_none = dump_obj [(lit ''ok'', JBool True)]"

definition decode_none :: "bytes \<Rightarrow> unit result" where
  "decode_none data =
     res_bind (load_obj data) (\<lambda>f.
       (case jget f (lit ''ok'') of
          Some v \<Rightarrow> if truthy v then Inr () else Inl ValueError
        | None \<Rightarrow> Inl ValueError))"

definition encode_handoff :: "HandoffRequest \<Rightarrow> bytes" where
  "encode_handoff req = dump_obj [(lit ''entry'', entry_to_dict (handoff_entry req))]"

definition decode_handoff :: "bytes \<Rightarrow> HandoffRequest result" where
  "decode_handoff data =
     res_bind (load_obj data) (\<lambda>f.
     res_bind (jfield f (lit ''entry'')) (\<lambda>raw.
     res_bind (entry_from_dict raw) (\<lambda>e. Inr (HandoffRequest e))))"

definition encode_deactivate :: "DeactivateRequest \<Rightarrow> bytes" where
  "encode_deactivate req =
     dump_obj [(lit ''grain_id'', grain_id_to_dict (deact_grain req)),
               (lit ''activation_epoch'', JInt (deact_epoch req))]"

definition decode_deactivate :: "bytes \<Rightarrow> DeactivateRequest result" where
  "decode_deactivate data =
     res_bind (load_obj data) (\<lambda>f.
     res_bind (jfield f (lit ''grain_id'')) (\<lambda>g.
     res_bind (grain_id_from_dict g) (\<lambda>grain.
     res_bind (jfield f (lit ''activation_epoch'')) (\<lambda>n.
     res_bind (py_int n) (\<lambda>e. Inr (DeactivateRequest grain e))))))"

definition arc_to_dict :: "Arc \<Rightarrow> json" where
  "arc_to_dict a = JObj [(lit ''start'', JInt (arc_start a)), (lit ''end'', JInt (arc_end a))]"

definition encode_rebuild_query :: "RebuildQueryRequest \<Rightarrow> bytes" where
  "encode_rebuild_query req = dump_obj [(lit ''arcs'', JArr (map arc_to_dict (query_arcs req)))]"

text \<open>Items that are not objects are skipped; a malformed object raises.\<close>

fun arcs_from :: "json list \<Rightarrow> Arc list result" where
  "arcs_from [] = Inr []"
| "arcs_from (JObj f # xs) =
     res_bind (jfield f (lit ''start'')) (\<lambda>s.
     res_bind (py_int s) (\<lambda>s'.
     res_bind (jfield f (lit ''end'')) (\<lambda>e.
     res_bind (py_int e) (\<lambda>e'.
     res_bind (arcs_from xs) (\<lambda>arcs. Inr (Arc s' e' # arcs))))))"
| "arcs_from (_ # xs) = arcs_from xs"

definition decode_rebuild_query :: "bytes \<Rightarrow> RebuildQueryRequest result" where
  "decode_rebuild_query data =
     res_bind (load_obj data) (\<lambda>f.
       (case jget f (lit ''arcs'') of
          None \<Rightarrow> Inr (RebuildQueryRequest [])
        | Some (JArr xs) \<Rightarrow> res_bind (arcs_from xs) (\<lambda>arcs. Inr (RebuildQueryRequest arcs))
        | Some _ \<Rightarrow> Inl ValueError))"

definition encode_rebuild_response :: "RebuildQueryResponse \<Rightarrow> bytes" where
  "encode_rebuild_response resp =
     dump_obj [(lit ''entries'', JArr (map entry_to_dict (response_entries resp)))]"

definition decode_rebuild_response :: "bytes \<Rightarrow> RebuildQueryResponse result" where
  "decode_rebuild_response data =
     res_bind (load_obj data) (\<lambda>f.
       (case jget f (lit ''entries'') of
          None \<Rightarrow> Inr (RebuildQueryResponse [])
        | Some (JArr xs) \<Rightarrow>
            res_bind (res_map entry_from_dict xs) (\<lambda>es. Inr (RebuildQueryResponse es))
        | Some _ \<Rightarrow> Inl ValueError))"

subsection \<open>Round trips\<close>

text \<open>Text that UTF-8 can carry: the JSON writer escapes a lone surrogate ambiguously.\<close>

definition valid_str :: "pystr \<Rightarrow> bool" where
  "valid_str s = list_all valid_cp s"

definition grain_text_ok :: "GrainId \<Rightarrow> bool" where
  "grain_text_ok g \<longleftrightarrow> valid_str (grain_type g) \<and> valid_str (grain_key g)"

definition silo_text_ok :: "SiloAddress \<Rightarrow> bool" where
  "silo_text_ok s \<longleftrightarrow> valid_str (host s)"

definition entry_text_ok :: "DirectoryEntry \<Rightarrow> bool" where
  "entry_text_ok e \<longleftrightarrow> grain_text_ok (entry_grain e) \<and> silo_text_ok (entry_silo e)"

lemma valid_lit [simp]: "list_all valid_cp (lit s)"
proof -
  have "valid_cp (of_char c)" for c
    using nat_of_char_less_256 [of c] unfolding valid_cp_def by linarith
  then show ?thesis by (simp add: list_all_iff)
qed

lemma valid_str_int: "list_all valid_cp (str_int i)"
  by (auto simp: list_all_iff is_digit_def valid_cp_def dest: str_int_chars)

lemma valid_silo_id: "silo_text_ok s \<Longrightarrow> list_all valid_cp (silo_id s)"
  by (simp add: silo_text_ok_def valid_str_def silo_id_def valid_str_int valid_cp_def)

lemma load_dump [codec_simps]: "json_ok (JObj f) \<Longrightarrow> load_obj (dump_obj f) = Inr f"
  by (simp add: load_obj_def dump_obj_def json_loads_dumps)

lemma json_ok_grain: "grain_text_ok g \<Longrightarrow> json_ok (grain_id_to_dict g)"
  by (simp add: grain_id_to_dict_def grain_text_ok_def valid_str_def field_simps_json
      del: list.map)

lemma grain_id_roundtrip [codec_simps]: "grain_id_from_dict (grain_id_to_dict g) = Inr g"
  by (simp add: grain_id_to_dict_def grain_id_from_dict_def field_simps_json del: list.map)

lemma json_ok_entry: "entry_text_ok e \<Longrightarrow> json_ok (entry_to_dict e)"
  by (simp add: entry_to_dict_def entry_text_ok_def json_ok_grain valid_silo_id
      field_simps_json del: list.map)

lemma entry_roundtrip [codec_simps]: "entry_from_dict (entry_to_dict e) = Inr e"
  by (simp add: entry_to_dict_def entry_from_dict_def field_simps_json codec_simps silo_from_str_def
      del: list.map)

lemma arcs_roundtrip [codec_simps]: "arcs_from (map arc_to_dict as) = Inr as"
proof (induction as)
  case (Cons a as)
  have "arcs_from (arc_to_dict a # xs) = res_bind (arcs_from xs) (\<lambda>as. Inr (a # as))" for xs
    by (simp add: arc_to_dict_def field_simps_json del: list.map)
  with Cons show ?case by simp
qed simp

lemma decode_register_encode:
  "grain_text_ok g \<Longrightarrow> silo_text_ok s \<Longrightarrow>
   decode_register (encode_register (RegisterRequest g s)) = Inr (RegisterRequest g s)"
  by (simp add: encode_register_def decode_register_def load_dump json_ok_grain valid_silo_id
      grain_id_roundtrip silo_from_str_def field_simps_json del: list.map)

lemma decode_lookup_encode:
  "grain_text_ok g \<Longrightarrow> decode_lookup (encode_lookup (LookupRequest g)) = Inr (LookupRequest g)"
  by (simp add: encode_lookup_def decode_lookup_def load_dump json_ok_grain grain_id_roundtrip
      field_simps_json del: list.map)

lemma decode_unregister_encode:
  "grain_text_ok g \<Longrightarrow> silo_text_ok s \<Longrightarrow>
   decode_unregister (encode_unregister (UnregisterRequest g s)) = Inr (UnregisterRequest g s)"
  by (simp add: encode_unregister_def decode_unregister_def load_dump json_ok_grain valid_silo_id
      grain_id_roundtrip silo_from_str_def field_simps_json del: list.map)

lemma decode_resolve_encode:
  "grain_text_ok g \<Longrightarrow> valid_str p \<Longrightarrow> pred_option silo_text_ok c \<Longrightarrow>
   decode_resolve (encode_resolve (ResolveRequest g p c)) = Inr (ResolveRequest g p c)"
  by (cases c)
    (simp_all add: encode_resolve_def decode_resolve_def load_dump json_ok_grain valid_silo_id
      valid_str_def grain_id_roundtrip silo_from_str_def field_simps_json del: list.map)

lemma entry_to_dict_JObj: "\<exists>f. entry_to_dict e = JObj f"
  by (simp add: entry_to_dict_def)

lemma decode_entry_encode:
  assumes "pred_option entry_text_ok r"
  shows "decode_entry (encode_entry r) = Inr r"
proof (cases r)
  case None
  then show ?thesis
    by (simp add: encode_entry_def decode_entry_def load_dump field_simps_json del: list.map)
next
  case (Some e)
  obtain f where f: "entry_to_dict e = JObj f" using entry_to_dict_JObj by blast
  have "load_obj (dump_obj [(lit ''entry'', entry_to_dict e)]) = Inr [(lit ''entry'', entry_to_dict e)]"
    using assms Some by (intro load_dump) (simp add: json_ok_entry field_simps_json del: list.map)
  with Some f entry_roundtrip [of e] show ?thesis
    by (simp add: encode_entry_def decode_entry_def field_simps_json del: list.map)
qed

lemma decode_none_encode: "decode_none encode_none = Inr ()"
  by (simp add: decode_none_def encode_none_def load_dump field_simps_json del: list.map)

lemma decode_handoff_encode:
  "entry_text_ok e \<Longrightarrow> decode_handoff (encode_handoff (HandoffRequest e)) = Inr (HandoffRequest e)"
  by (simp add: encode_handoff_def decode_handoff_def load_dump json_ok_entry entry_roundtrip
      field_simps_json del: list.map)

lemma decode_deactivate_encode:
  "grain_text_ok g \<Longrightarrow>
   decode_deactivate (encode_deactivate (DeactivateRequest g n)) = Inr (DeactivateRequest g n)"
  by (simp add: encode_deactivate_def decode_deactivate_def load_dump json_ok_grain grain_id_roundtrip
      field_simps_json del: list.map)

lemma decode_rebuild_query_encode:
  "decode_rebuild_query (encode_rebuild_query (RebuildQueryRequest as)) = Inr (RebuildQueryRequest as)"
proof -
  have "json_ok (arc_to_dict a)" for a
    by (simp add: arc_to_dict_def field_simps_json del: list.map)
  then have "load_obj (dump_obj [(lit ''arcs'', JArr (map arc_to_dict as))])
      = Inr [(lit ''arcs'', JArr (map arc_to_dict as))]"
    by (intro load_dump) (simp add: field_simps_json del: list.map)
  then show ?thesis
    by (simp add: encode_rebuild_query_def decode_rebuild_query_def arcs_roundtrip field_simps_json
        del: list.map)
qed

lemma decode_rebuild_response_encode:
  assumes "list_all entry_text_ok es"
  shows "decode_rebuild_response (encode_rebuild_response (RebuildQueryResponse es))
    = Inr (RebuildQueryResponse es)"
proof -
  have "load_obj (dump_obj [(lit ''entries'', JArr (map entry_to_dict es))])
      = Inr [(lit ''entries'', JArr (map entry_to_dict es))]"
  proof (rule load_dump)
    have "\<forall>e \<in> set es. entry_text_ok e" using assms by (simp add: list_all_iff)
    then show "json_ok (JObj [(lit ''entries'', JArr (map entry_to_dict es))])"
      by (simp add: field_simps_json json_ok_entry del: list.map)
  qed
  moreover have "res_map entry_from_dict (map entry_to_dict es) = Inr es"
    by (rule res_map_Inr) (rule entry_roundtrip)
  ultimately show ?thesis
    by (simp add: encode_rebuild_response_def decode_rebuild_response_def field_simps_json
        del: list.map)
qed

subsection \<open>Properties\<close>

text \<open>
  The directory wire codec is lossless: for grains and hosts that are Unicode text, every
  request and response of the seven directory operations decodes from its encoded bytes to
  itself, through the JSON writer and reader and the silo-id parser; a missing entry, an absent
  caller and an empty list of arcs or entries included.
\<close>

theorem directory_codec_roundtrip:
  assumes "grain_text_ok g" "silo_text_ok s" "valid_str p" "pred_option silo_text_ok c"
    "pred_option entry_text_ok r" "list_all entry_text_ok es"
  shows "decode_register (encode_register (RegisterRequest g s)) = Inr (RegisterRequest g s)
    \<and> decode_lookup (encode_lookup (LookupRequest g)) = Inr (LookupRequest g)
    \<and> decode_unregister (encode_unregister (UnregisterRequest g s)) = Inr (UnregisterRequest g s)
    \<and> decode_resolve (encode_resolve (ResolveRequest g p c)) = Inr (ResolveRequest g p c)
    \<and> decode_entry (encode_entry r) = Inr r
    \<and> decode_none encode_none = Inr ()
    \<and> decode_handoff (encode_handoff (HandoffRequest (DirectoryEntry g s n)))
        = Inr (HandoffRequest (DirectoryEntry g s n))
    \<and> decode_deactivate (encode_deactivate (DeactivateRequest g n)) = Inr (DeactivateRequest g n)
    \<and> decode_rebuild_query (encode_rebuild_query (RebuildQueryRequest as)) = Inr (RebuildQueryRequest as)
    \<and> decode_rebuild_response (encode_rebuild_response (RebuildQueryResponse es))
        = Inr (RebuildQueryResponse es)"
  using assms
  by (simp add: decode_register_encode decode_lookup_encode decode_unregister_encode
      decode_resolve_encode decode_entry_encode decode_none_encode decode_handoff_encode
      entry_text_ok_def decode_deactivate_encode decode_rebuild_query_encode
      decode_rebuild_response_encode)

theorem directory_codec_roundtrip_witness:
  "let g = GrainId (lit ''Counter'') [233, 128512]; s = SiloAddress (lit ''h'') 5 1
   in decode_resolve (encode_resolve (ResolveRequest g (lit ''RandomPlacement'') (Some s)))
      = Inr (ResolveRequest g (lit ''RandomPlacement'') (Some s))"
proof -
  define g where "g = GrainId (lit ''Counter'') [233, 128512]"
  define s where "s = SiloAddress (lit ''h'') 5 1"
  have ok: "grain_text_ok g" "silo_text_ok s" "valid_str (lit ''RandomPlacement'')"
    "pred_option silo_text_ok (Some s)" "pred_option entry_text_ok None" "list_all entry_text_ok []"
    by (simp_all add: g_def s_def grain_text_ok_def silo_text_ok_def valid_str_def valid_cp_def
        del: list.map)
  have "decode_resolve (encode_resolve (ResolveRequest g (lit ''RandomPlacement'') (Some s)))
      = Inr (ResolveRequest g (lit ''RandomPlacement'') (Some s))"
    using directory_codec_roundtrip [OF ok] by blast
  then show ?thesis by (simp add: g_def s_def Let_def)
qed

text \<open>The exceptions of the helpers.\<close>

lemma from_silo_id_errors: "from_silo_id s \<in> insert (Inl ValueError) (range Inr)"
  by (auto simp: from_silo_id_def split: list.split sum.split)

lemma silo_from_str_errors: "silo_from_str v \<in> insert (Inl ValueError) (range Inr)"
  using from_silo_id_errors by (cases v) (auto simp: silo_from_str_def)

lemma grain_id_from_dict_errors: "grain_id_from_dict v \<in> insert (Inl ValueError) (range Inr)"
  by (auto simp: grain_id_from_dict_def split: json.split sum.split)

lemma load_obj_errors: "load_obj d \<in> insert (Inl ValueError) (range Inr)"
  by (auto simp: load_obj_def split: json.split sum.split)

lemma jfield_errors: "jfield f k \<in> insert (Inl KeyError) (range Inr)"
  by (auto simp: jfield_def split: option.split)

lemma entry_from_dict_errors: "entry_from_dict v \<in> insert (Inl ValueError) (range Inr)"
  by (auto simp: entry_from_dict_def split: json.split sum.split)

lemma py_int_errors: "py_int v \<in> insert (Inl ValueError) (insert (Inl TypeError) (range Inr))"
  by (cases v) (auto simp: int_of_str_def split: option.split)

lemma res_bind_errors:
  "r \<in> A \<union> range Inr \<Longrightarrow> A \<subseteq> Inl ` E \<Longrightarrow> (\<And>x. f x \<in> Inl ` E \<union> range Inr) \<Longrightarrow>
   res_bind r f \<in> Inl ` E \<union> range Inr"
  by (cases r) auto

lemma res_bind_errors_insert:
  assumes "r \<in> insert (Inl e) (range Inr)" "e \<in> E" "\<And>x. f x \<in> Inl ` E \<union> range Inr"
  shows "res_bind r f \<in> Inl ` E \<union> range Inr"
  using res_bind_errors [of r "{Inl e}" E f] assms by auto

lemmas decode_errors_step =
  res_bind_errors_insert [OF load_obj_errors] res_bind_errors_insert [OF jfield_errors]
  res_bind_errors_insert [OF grain_id_from_dict_errors] res_bind_errors_insert [OF silo_from_str_errors]
  res_bind_errors_insert [OF entry_from_dict_errors]

text \<open>
  What a malformed body can raise: whatever bytes arrive, the five request decoders of the
  directory return a request, a \<^verbatim>\<open>ValueError\<close> or a \<^verbatim>\<open>KeyError\<close>, and a body with no
  grain id does raise the latter, outside the \<^verbatim>\<open>except ValueError\<close> of the request handler.
  Nested objects are stricter: every defect of an entry, a missing field included, is a
  \<^verbatim>\<open>ValueError\<close>.
\<close>

theorem directory_decode_errors:
  "decode_register data \<in> Inl ` {ValueError, KeyError} \<union> range Inr
   \<and> decode_lookup data \<in> Inl ` {ValueError, KeyError} \<union> range Inr
   \<and> decode_unregister data \<in> Inl ` {ValueError, KeyError} \<union> range Inr
   \<and> decode_resolve data \<in> Inl ` {ValueError, KeyError} \<union> range Inr
   \<and> decode_handoff data \<in> Inl ` {ValueError, KeyError} \<union> range Inr
   \<and> decode_register (dump_obj []) = Inl KeyError \<and> decode_lookup (dump_obj []) = Inl KeyError
   \<and> entry_from_dict v \<in> insert (Inl ValueError) (range Inr)"
proof (intro conjI)
  show "decode_register data \<in> Inl ` {ValueError, KeyError} \<union> range Inr"
    unfolding decode_register_def by (intro decode_errors_step) auto
  show "decode_lookup data \<in> Inl ` {ValueError, KeyError} \<union> range Inr"
    unfolding decode_lookup_def by (intro decode_errors_step) auto
  show "decode_unregister data \<in> Inl ` {ValueError, KeyError} \<union> range Inr"
    unfolding decode_unregister_def by (intro decode_errors_step) auto
  have caller: "(case c of None \<Rightarrow> Inr None | Some JNull \<Rightarrow> Inr None
      | Some v \<Rightarrow> res_bind (silo_from_str v) (\<lambda>s. Inr (Some s))) \<in> insert (Inl ValueError) (range Inr)" for c
  proof -
    have "res_bind (silo_from_str v) (\<lambda>s. Inr (Some s)) \<in> insert (Inl ValueError) (range Inr)" for v
      using silo_from_str_errors [of v] by auto
    then show ?thesis by (cases c) (auto split: json.split)
  qed
  show "decode_resolve data \<in> Inl ` {ValueError, KeyError} \<union> range Inr"
    unfolding decode_resolve_def
    by (intro decode_errors_step res_bind_errors_insert [OF caller]) auto
  show "decode_handoff data \<in> Inl ` {ValueError, KeyError} \<union> range Inr"
    unfolding decode_handoff_def by (intro decode_errors_step) auto
  show "decode_register (dump_obj []) = Inl KeyError" "decode_lookup (dump_obj []) = Inl KeyError"
    by (simp_all add: decode_register_def decode_lookup_def load_dump jfield_def)
  show "entry_from_dict v \<in> insert (Inl ValueError) (range Inr)" by (rule entry_from_dict_errors)
qed

end
