(* ===== verification/RemoteInvoke.thy ===== *)
theory RemoteInvoke
  imports DirectoryMessages
begin

text \<open>
  \<^verbatim>\<open>pyleans/server/remote_invoke.py\<close>: the request, success and failure envelopes of a
  grain call between silos. Arguments and results are the JSON values that cross the wire. An
  exception is its class name, its text and its cause; Python's rendering of a traceback is a
  parameter.
\<close>

definition GRAIN_CALL_HEADER :: bytes where
  "GRAIN_CALL_HEADER = utf8_bytes (lit ''pyleans/grain-call/v1'')"

definition GRAIN_CALL_SCHEMA_VERSION :: int where
  "GRAIN_CALL_SCHEMA_VERSION = 1"

definition MAX_EXCEPTION_MESSAGE_LEN :: nat where
  "MAX_EXCEPTION_MESSAGE_LEN = 8 * 1024"

definition MAX_TRACEBACK_LEN :: nat where
  "MAX_TRACEBACK_LEN = 32 * 1024"

record GrainCallRequest =
  gc_grain :: GrainId
  gc_method :: pystr
  gc_args :: "json list"
  gc_kwargs :: "(pystr \<times> json) list"
  gc_caller_silo :: "pystr option"
  gc_call_id :: int
  gc_deadline :: "seconds option"

datatype GrainCallResponse =
    GrainCallSuccess json
  | GrainCallFailure (exception_type: pystr) (failure_message: pystr) (remote_traceback: "pystr option")

datatype exn = Exn (exn_class: pystr) (exn_text: pystr) (exn_cause: "exn option")

definition opt_json :: "('a \<Rightarrow> json) \<Rightarrow> 'a option \<Rightarrow> json" where
  "opt_json f v = (case v of None \<Rightarrow> JNull | Some x \<Rightarrow> f x)"

definition encode_request :: "GrainCallRequest \<Rightarrow> bytes" where
  "encode_request req =
     dump_obj [(lit ''v'', JInt GRAIN_CALL_SCHEMA_VERSION),
               (lit ''grain_type'', JStr (grain_type (gc_grain req))),
               (lit ''grain_key'', JStr (grain_key (gc_grain req))),
               (lit ''method'', JStr (gc_method req)),
               (lit ''args'', JArr (gc_args req)),
               (lit ''kwargs'', JObj (gc_kwargs req)),
               (lit ''caller'', opt_json JStr (gc_caller_silo req)),
               (lit ''call_id'', JInt (gc_call_id req)),
               (lit ''deadline'', opt_json JFloat (gc_deadline req))]"

text \<open>\<^verbatim>\<open>version != 1\<close> in Python, where \<^verbatim>\<open>True == 1 == 1.0\<close>.\<close>

definition is_one :: "json option \<Rightarrow> bool" where
  "is_one v = (v = Some (JInt GRAIN_CALL_SCHEMA_VERSION) \<or> v = Some (JFloat 1) \<or> v = Some (JBool True))"

definition get_or :: "(pystr \<times> json) list \<Rightarrow> pystr \<Rightarrow> json \<Rightarrow> json" where
  "get_or f k dflt = (case jget f k of None \<Rightarrow> dflt | Some v \<Rightarrow> v)"

text \<open>
  \<^verbatim>\<open>float(raw)\<close> of a decoded value; a string is read as a JSON number, the other spellings
  Python accepts being refused here.
\<close>

fun to_float :: "json \<Rightarrow> seconds result" where
  "to_float (JBool b) = Inr (if b then 1 else 0)"
| "to_float (JInt i) = Inr (of_int i)"
| "to_float (JFloat x) = Inr x"
| "to_float (JStr s) =
     (case scan_number (strip_ws s) of
        Some (JInt i, []) \<Rightarrow> Inr (of_int i)
      | Some (JFloat x, []) \<Rightarrow> Inr x
      | _ \<Rightarrow> Inl ValueError)"
| "to_float _ = Inl TypeError"

definition decode_request :: "bytes \<Rightarrow> GrainCallRequest result" where
  "decode_request data =
     res_bind (load_obj data) (\<lambda>f.
       if \<not> is_one (jget f (lit ''v'')) then Inl ValueError
       else
         (case (jfield f (lit ''grain_type''), jfield f (lit ''grain_key''), jfield f (lit ''method'')) of
            (Inr t, Inr k, Inr m) \<Rightarrow>
              (case (get_or f (lit ''args'') (JArr []), get_or f (lit ''kwargs'') (JObj [])) of
                 (JArr args, JObj kwargs) \<Rightarrow>
                   res_bind (py_int (get_or f (lit ''call_id'') (JInt 0))) (\<lambda>call_id.
                   res_bind (case get_or f (lit ''deadline'') JNull of
                               JNull \<Rightarrow> Inr None
                             | v \<Rightarrow> res_bind (to_float v) (\<lambda>x. Inr (Some x))) (\<lambda>deadline.
                     Inr \<lparr>gc_grain = GrainId (py_str t) (py_str k), gc_method = py_str m, gc_args = args,
                          gc_kwargs = kwargs,
                          gc_caller_silo = (case get_or f (lit ''caller'') JNull of
                                              JNull \<Rightarrow> None | v \<Rightarrow> Some (py_str v)),
                          gc_call_id = call_id, gc_deadline = deadline\<rparr>))
               | _ \<Rightarrow> Inl ValueError)
          | _ \<Rightarrow> Inl ValueError))"

definition encode_success :: "json \<Rightarrow> bytes" where
  "encode_success r = dump_obj [(lit ''ok'', JBool True), (lit ''result'', r)]"

definition encode_failure :: "pystr \<Rightarrow> pystr \<Rightarrow> pystr option \<Rightarrow> bytes" where
  "encode_failure etype message tb =
     dump_obj [(lit ''ok'', JBool False), (lit ''exception_type'', JStr etype),
               (lit ''message'', JStr (take MAX_EXCEPTION_MESSAGE_LEN message)),
               (lit ''traceback'', opt_json JStr (map_option (take MAX_TRACEBACK_LEN) tb))]"

definition decode_response :: "bytes \<Rightarrow> GrainCallResponse result" where
  "decode_response data =
     res_bind (load_obj data) (\<lambda>f.
       if truthy (get_or f (lit ''ok'') JNull)
       then Inr (GrainCallSuccess (get_or f (lit ''result'') JNull))
       else Inr (GrainCallFailure
              (py_str (get_or f (lit ''exception_type'') (JStr (lit ''Exception''))))
              (py_str (get_or f (lit ''message'') (JStr [])))
              (case get_or f (lit ''traceback'') JNull of JNull \<Rightarrow> None | v \<Rightarrow> Some (py_str v))))"

definition format_exception_for_wire :: "(exn \<Rightarrow> pystr) \<Rightarrow> exn \<Rightarrow> pystr \<times> pystr \<times> pystr" where
  "format_exception_for_wire tb e = (exn_class e, exn_text e, tb e)"

subsection \<open>Round trips\<close>

definition request_ok :: "GrainCallRequest \<Rightarrow> bool" where
  "request_ok req \<longleftrightarrow> valid_str (grain_type (gc_grain req)) \<and> valid_str (grain_key (gc_grain req))
     \<and> valid_str (gc_method req) \<and> json_ok (JArr (gc_args req)) \<and> json_ok (JObj (gc_kwargs req))
     \<and> pred_option valid_str (gc_caller_silo req) \<and> pred_option (has_decimals 1074) (gc_deadline req)"

lemma decode_encode_request:
  assumes "request_ok req"
  shows "decode_request (encode_request req) = Inr req"
proof -
  obtain g m as ks c i d where req: "req = \<lparr>gc_grain = g, gc_method = m, gc_args = as, gc_kwargs = ks,
      gc_caller_silo = c, gc_call_id = i, gc_deadline = d\<rparr>" by (cases req) auto
  have opt: "json_ok (opt_json JStr c)" "json_ok (opt_json JFloat d)"
    using assms by (cases c; cases d; simp add: opt_json_def request_ok_def req valid_str_def)+
  let ?f = "[(lit ''v'', JInt GRAIN_CALL_SCHEMA_VERSION), (lit ''grain_type'', JStr (grain_type g)),
    (lit ''grain_key'', JStr (grain_key g)), (lit ''method'', JStr m), (lit ''args'', JArr as),
    (lit ''kwargs'', JObj ks), (lit ''caller'', opt_json JStr c), (lit ''call_id'', JInt i),
    (lit ''deadline'', opt_json JFloat d)]"
  have "load_obj (encode_request req) = Inr ?f"
    unfolding encode_request_def req GrainCallRequest.simps
    using assms opt by (intro load_dump)
      (simp add: request_ok_def req valid_str_def field_simps_json valid_cp_def del: list.map)
  then show ?thesis
    by (cases c; cases d)
      (simp_all add: decode_request_def field_simps_json is_one_def get_or_def opt_json_def req del: list.map)
qed

lemma decode_encode_success:
  "json_ok r \<Longrightarrow> decode_response (encode_success r) = Inr (GrainCallSuccess r)"
  by (simp add: decode_response_def encode_success_def load_dump field_simps_json get_or_def valid_cp_def
      del: list.map)

lemma valid_take: "valid_str s \<Longrightarrow> valid_str (take n s)"
  by (auto simp: valid_str_def list_all_iff dest: in_set_takeD)

lemma decode_encode_failure:
  assumes "valid_str etype" "valid_str message" "pred_option valid_str tb"
  shows "decode_response (encode_failure etype message tb) =
    Inr (GrainCallFailure etype (take MAX_EXCEPTION_MESSAGE_LEN message)
           (map_option (take MAX_TRACEBACK_LEN) tb))"
proof -
  let ?tb = "map_option (take MAX_TRACEBACK_LEN) tb" and ?m = "take MAX_EXCEPTION_MESSAGE_LEN message"
  have ok: "valid_str ?m" "json_ok (opt_json JStr ?tb)"
    using assms valid_take by (auto simp: opt_json_def valid_str_def split: option.split)
  let ?f = "[(lit ''ok'', JBool False), (lit ''exception_type'', JStr etype), (lit ''message'', JStr ?m),
    (lit ''traceback'', opt_json JStr ?tb)]"
  have "load_obj (encode_failure etype message tb) = Inr ?f"
    unfolding encode_failure_def using assms(1) ok
    by (intro load_dump) (simp add: valid_str_def field_simps_json valid_cp_def del: list.map)
  then show ?thesis
    by (cases tb) (simp_all add: decode_response_def field_simps_json get_or_def opt_json_def del: list.map)
qed

lemma to_float_errors: "to_float v \<in> Inl ` {ValueError, TypeError} \<union> range Inr"
  by (cases v) (auto split: option.split prod.split list.split json.split)

lemma decode_request_errors: "decode_request data \<in> Inl ` {ValueError, TypeError} \<union> range Inr"
proof -
  let ?S = "Inl ` {ValueError, TypeError} \<union> range Inr"
  have py: "py_int v \<in> ?S" for v using py_int_errors [of v] by auto
  have dl: "(case v of JNull \<Rightarrow> Inr None | w \<Rightarrow> res_bind (to_float w) (\<lambda>x. Inr (Some x))) \<in> ?S" for v
  proof -
    have "res_bind (to_float w) (\<lambda>x. Inr (Some x)) \<in> ?S" for w
      using to_float_errors [of w] by (cases "to_float w") auto
    then show ?thesis by (cases v) (simp_all only: json.case, simp)
  qed
  have tail: "res_bind (py_int a) (\<lambda>c. res_bind (case v of JNull \<Rightarrow> Inr None
      | w \<Rightarrow> res_bind (to_float w) (\<lambda>x. Inr (Some x))) (\<lambda>d. Inr (g c d))) \<in> ?S" for a v and g :: "int \<Rightarrow> seconds option \<Rightarrow> 'x"
    by (rule res_bind_errors [OF py], simp) (rule res_bind_errors [OF dl], simp_all)
  show ?thesis
    unfolding decode_request_def
  proof (rule res_bind_errors_insert [OF load_obj_errors], goal_cases)
    case (2 f)
    show ?case
      by (cases "jfield f (lit ''grain_type'')"; cases "jfield f (lit ''grain_key'')";
          cases "jfield f (lit ''method'')"; cases "get_or f (lit ''args'') (JArr [])";
          cases "get_or f (lit ''kwargs'') (JObj [])")
        (simp_all only: sum.case prod.case json.case tail split: if_split, simp_all)
  qed simp
qed

subsection \<open>Properties\<close>

text \<open>
  Grain calls cross the wire intact: a request of Unicode text and finite numbers decodes from
  its bytes to itself, arguments, keyword arguments, an absent caller and an absent deadline
  included; a result decodes as the success that was sent; and a failure decodes as a failure with
  the same class and with message and traceback cut to their limits, never as a success.
\<close>

theorem grain_call_roundtrip:
  assumes "request_ok req" "json_ok r" "valid_str etype" "valid_str message" "pred_option valid_str tb"
  shows "decode_request (encode_request req) = Inr req
    \<and> decode_response (encode_success r) = Inr (GrainCallSuccess r)
    \<and> decode_response (encode_failure etype message tb) =
        Inr (GrainCallFailure etype (take 8192 message) (map_option (take 32768) tb))"
  using decode_encode_request [OF assms(1)] decode_encode_success [OF assms(2)]
    decode_encode_failure [OF assms(3-5)]
  by (simp add: MAX_EXCEPTION_MESSAGE_LEN_def MAX_TRACEBACK_LEN_def)

definition demo_request :: GrainCallRequest where
  "demo_request = \<lparr>gc_grain = GrainId (lit ''T'') (lit ''k''), gc_method = lit ''get'', gc_args = [JInt 7],
     gc_kwargs = [], gc_caller_silo = None, gc_call_id = 1, gc_deadline = None\<rparr>"

lemma demo_request_ok: "request_ok demo_request"
  by (simp add: request_ok_def demo_request_def valid_str_def valid_cp_def)

theorem grain_call_roundtrip_witness:
  "decode_request (encode_request demo_request) = Inr demo_request
   \<and> decode_response (encode_failure (lit ''KeyError'') [] None) = Inr (GrainCallFailure (lit ''KeyError'') [] None)"
proof -
  have ok: "json_ok JNull" "valid_str (lit ''KeyError'')" "valid_str []" "pred_option valid_str None"
    by (simp_all add: valid_str_def valid_cp_def)
  from grain_call_roundtrip [OF demo_request_ok ok] show ?thesis by simp
qed

text \<open>
  What a malformed grain call raises: whatever bytes arrive, the request decoder returns a
  request or raises \<^verbatim>\<open>ValueError\<close> or \<^verbatim>\<open>TypeError\<close>, and it does raise the latter,
  outside the \<^verbatim>\<open>except ValueError\<close> of the runtime's handler, for a call id that is an array.
\<close>

theorem grain_call_decode_errors:
  "decode_request data \<in> Inl ` {ValueError, TypeError} \<union> range Inr
   \<and> decode_request (dump_obj [(lit ''v'', JInt 1), (lit ''grain_type'', JStr []), (lit ''grain_key'', JStr []),
        (lit ''method'', JStr []), (lit ''call_id'', JArr [])]) = Inl TypeError"
proof
  let ?f = "[(lit ''v'', JInt 1), (lit ''grain_type'', JStr []), (lit ''grain_key'', JStr []),
    (lit ''method'', JStr []), (lit ''call_id'', JArr [])]"
  have "load_obj (dump_obj ?f) = Inr ?f"
    by (rule load_dump) (simp add: field_simps_json valid_cp_def del: list.map)
  then show "decode_request (dump_obj ?f) = Inl TypeError"
    by (simp add: decode_request_def field_simps_json is_one_def get_or_def GRAIN_CALL_SCHEMA_VERSION_def
        del: list.map)
qed (rule decode_request_errors)

end
