(* ===== verification/GrainStorage.thy ===== *)
theory GrainStorage
  imports Json
begin

text \<open>
  Grain state persistence: the storage port of \<^verbatim>\<open>pyleans/providers/storage.py\<close> as the
  locale \<open>grain_storage\<close>, and \<^verbatim>\<open>server/providers/file_storage.py\<close>, which
  provides it. A state file is the document that orjson (a third-party package) reads from it, so
  writing a document and reading the file gives the document; the new etag (a random uuid) and
  whether the disk accepts an operation are arguments. The base directory has no symbolic links.
\<close>

subsection \<open>The port\<close>

text \<open>
  \<^verbatim>\<open>read\<close> answers a state and an etag, both JSON values; the state of an absent grain is
  the empty object and its etag null.
\<close>

type_synonym etag = "pystr option"

record 'st StorageProvider =
  st_read :: "pystr \<Rightarrow> pystr \<Rightarrow> 'st \<Rightarrow> (json \<times> json) result"
  st_write :: "pystr \<Rightarrow> pystr \<Rightarrow> json \<Rightarrow> etag \<Rightarrow> pystr \<Rightarrow> 'st \<Rightarrow> pystr result \<times> 'st"
  st_clear :: "pystr \<Rightarrow> pystr \<Rightarrow> etag \<Rightarrow> 'st \<Rightarrow> unit result \<times> 'st"

definition etag_json :: "etag \<Rightarrow> json" where
  "etag_json e = (case e of None \<Rightarrow> JNull | Some s \<Rightarrow> JStr s)"

text \<open>
  What the runtime may rely on. \<open>contents\<close> is what is stored in a slot, and \<open>slot\<close> is where a grain
  is stored, or nowhere for a name the provider refuses.
\<close>

locale grain_storage =
  fixes p :: "'st StorageProvider"
    and contents :: "'st \<Rightarrow> 'k \<Rightarrow> (json \<times> pystr) option"
    and slot :: "pystr \<Rightarrow> pystr \<Rightarrow> 'k option"
    and invar :: "'st \<Rightarrow> bool"
  assumes read_absent: "invar f \<Longrightarrow> slot t k = Some s \<Longrightarrow> contents f s = None \<Longrightarrow>
      st_read p t k f = Inr (JObj [], JNull)"
    and read_present: "invar f \<Longrightarrow> slot t k = Some s \<Longrightarrow> contents f s = Some (d, e) \<Longrightarrow>
      st_read p t k f = Inr (d, JStr e)"
    and write_ok: "invar f \<Longrightarrow> slot t k = Some s \<Longrightarrow>
      expected = None \<or> contents f s = None \<or> (\<exists>d. contents f s = Some (d, the expected)) \<Longrightarrow>
      \<exists>f'. st_write p t k d' expected new_etag f = (Inr new_etag, f') \<and> invar f'
        \<and> contents f' = (contents f)(s \<mapsto> (d', new_etag))"
    and write_conflict: "invar f \<Longrightarrow> slot t k = Some s \<Longrightarrow> contents f s = Some (d, e) \<Longrightarrow>
      expected = Some x \<Longrightarrow> x \<noteq> e \<Longrightarrow>
      st_write p t k d' expected new_etag f = (Inl StorageInconsistencyError, f)"
    and clear_ok: "invar f \<Longrightarrow> slot t k = Some s \<Longrightarrow>
      expected = None \<or> contents f s = None \<or> (\<exists>d. contents f s = Some (d, the expected)) \<Longrightarrow>
      \<exists>f'. st_clear p t k expected f = (Inr (), f') \<and> invar f' \<and> contents f' = (contents f)(s := None)"
    and clear_conflict: "invar f \<Longrightarrow> slot t k = Some s \<Longrightarrow> contents f s = Some (d, e) \<Longrightarrow>
      expected = Some x \<Longrightarrow> x \<noteq> e \<Longrightarrow> st_clear p t k expected f = (Inl StorageInconsistencyError, f)"
begin

text \<open>A write with the etag of the last read fails once anybody else has written.\<close>

lemma stale_write_refused:
  assumes "invar f" "slot t k = Some s" "contents f s = Some (d, e)" "x \<noteq> e"
  shows "st_write p t k d' (Some x) new_etag f = (Inl StorageInconsistencyError, f)"
  by (rule write_conflict [OF assms(1-3) refl assms(4)])

lemma write_read:
  assumes "invar f" "slot t k = Some s" "st_write p t k d expected new_etag f = (Inr e, f')"
  shows "invar f' \<and> contents f' = (contents f)(s \<mapsto> (d, e)) \<and> st_read p t k f' = Inr (d, JStr e)"
proof -
  have ok: "expected = None \<or> contents f s = None \<or> (\<exists>d. contents f s = Some (d, the expected))"
  proof (rule ccontr)
    assume "\<not> ?thesis"
    then obtain x d0 e0 where "expected = Some x" "contents f s = Some (d0, e0)" "x \<noteq> e0" by auto
    with write_conflict [OF assms(1,2) _ _ this(3), of d0 expected d new_etag] assms(3) show False by simp
  qed
  from write_ok [OF assms(1,2) ok, of d new_etag] assms(3) have "invar f' \<and> contents f' = (contents f)(s \<mapsto> (d, e))"
    by auto
  then show ?thesis using read_present [of f' t k s d e] assms(2) by simp
qed

end

subsection \<open>Paths\<close>

definition is_safe_char :: "nat \<Rightarrow> bool" where
  "is_safe_char c \<longleftrightarrow> 97 \<le> c \<and> c \<le> 122 \<or> 65 \<le> c \<and> c \<le> 90 \<or> 48 \<le> c \<and> c \<le> 57 \<or> c = 95 \<or> c = 45"

definition sanitize_path_component :: "pystr \<Rightarrow> pystr result" where
  "sanitize_path_component value =
     (let sanitized = map (\<lambda>c. if is_safe_char c then c else 95) value
      in if sanitized = [] then Inl StorageError else Inr sanitized)"

definition grain_path :: "pystr \<Rightarrow> pystr \<Rightarrow> pystr \<Rightarrow> pystr result" where
  "grain_path base t k =
     res_bind (sanitize_path_component t) (\<lambda>safe_type.
     res_bind (sanitize_path_component k) (\<lambda>safe_key.
       let path = base @ lit ''/'' @ safe_type @ lit ''/'' @ safe_key @ lit ''.json''
       in if take (length base) path \<noteq> base then Inl StorageError else Inr path))"

subsection \<open>FileStorageProvider\<close>

datatype state_file = Garbage | Document json

type_synonym disk = "(pystr, state_file) dict"

text \<open>\<^verbatim>\<open>data["state"], data["etag"]\<close>; indexing anything but an object is a \<^verbatim>\<open>TypeError\<close>.\<close>

definition file_fields :: "state_file \<Rightarrow> (json \<times> json) result" where
  "file_fields f =
     (case f of
        Garbage \<Rightarrow> Inl StorageError
      | Document (JObj fs) \<Rightarrow>
          (case (jfield fs (lit ''state''), jfield fs (lit ''etag'')) of
             (Inr s, Inr e) \<Rightarrow> Inr (s, e)
           | _ \<Rightarrow> Inl StorageError)
      | Document _ \<Rightarrow> Inl TypeError)"

definition file_etag :: "state_file \<Rightarrow> json result" where
  "file_etag f =
     (case f of
        Garbage \<Rightarrow> Inl StorageError
      | Document (JObj fs) \<Rightarrow> (case jfield fs (lit ''etag'') of Inl _ \<Rightarrow> Inl StorageError | Inr e \<Rightarrow> Inr e)
      | Document _ \<Rightarrow> Inl TypeError)"

definition file_check_etag :: "pystr \<Rightarrow> etag \<Rightarrow> disk \<Rightarrow> unit result" where
  "file_check_etag path expected disk =
     (case (expected, dget disk path) of
        (Some x, Some f) \<Rightarrow>
          res_bind (file_etag f) (\<lambda>actual.
            if actual \<noteq> JStr x then Inl StorageInconsistencyError else Inr ())
      | _ \<Rightarrow> Inr ())"

definition file_read :: "pystr \<Rightarrow> pystr \<Rightarrow> pystr \<Rightarrow> disk \<Rightarrow> (json \<times> json) result" where
  "file_read base t k disk =
     res_bind (grain_path base t k) (\<lambda>path.
       case dget disk path of
         None \<Rightarrow> Inr (JObj [], JNull)
       | Some f \<Rightarrow> file_fields f)"

definition file_write ::
  "pystr \<Rightarrow> bool \<Rightarrow> pystr \<Rightarrow> pystr \<Rightarrow> json \<Rightarrow> etag \<Rightarrow> pystr \<Rightarrow> disk \<Rightarrow> pystr result \<times> disk" where
  "file_write base disk_ok t k state expected new_etag disk =
     (case res_bind (grain_path base t k) (\<lambda>path.
             res_bind (file_check_etag path expected disk) (\<lambda>_. Inr path)) of
        Inl e \<Rightarrow> (Inl e, disk)
      | Inr path \<Rightarrow>
          if \<not> disk_ok then (Inl StorageError, disk)
          else (Inr new_etag,
                dset disk path (Document (JObj [(lit ''etag'', JStr new_etag), (lit ''state'', state)]))))"

definition file_clear :: "pystr \<Rightarrow> bool \<Rightarrow> pystr \<Rightarrow> pystr \<Rightarrow> etag \<Rightarrow> disk \<Rightarrow> unit result \<times> disk" where
  "file_clear base disk_ok t k expected disk =
     (case grain_path base t k of
        Inl e \<Rightarrow> (Inl e, disk)
      | Inr path \<Rightarrow>
          (case dget disk path of
             None \<Rightarrow> (Inr (), disk)
           | Some _ \<Rightarrow>
               (case file_check_etag path expected disk of
                  Inl e \<Rightarrow> (Inl e, disk)
                | Inr _ \<Rightarrow> if \<not> disk_ok then (Inl StorageError, disk) else (Inr (), dpop disk path))))"

definition file_storage :: "pystr \<Rightarrow> disk StorageProvider" where
  "file_storage base =
     \<lparr>st_read = file_read base, st_write = file_write base True, st_clear = file_clear base True\<rparr>"

text \<open>Files that this provider wrote.\<close>

definition state_doc :: "json \<Rightarrow> pystr \<Rightarrow> state_file" where
  "state_doc d e = Document (JObj [(lit ''etag'', JStr e), (lit ''state'', d)])"

definition files_ok :: "disk \<Rightarrow> bool" where
  "files_ok disk \<longleftrightarrow> dict_ok disk \<and> (\<forall>path f. dget disk path = Some f \<longrightarrow> (\<exists>d e. f = state_doc d e))"

definition file_at :: "disk \<Rightarrow> pystr \<Rightarrow> (json \<times> pystr) option" where
  "file_at disk path =
     (case dget disk path of
        Some (Document (JObj [(_, JStr e), (_, d)])) \<Rightarrow> Some (d, e)
      | _ \<Rightarrow> None)"

definition file_slot :: "pystr \<Rightarrow> pystr \<Rightarrow> pystr \<Rightarrow> pystr option" where
  "file_slot base t k = (case grain_path base t k of Inl _ \<Rightarrow> None | Inr path \<Rightarrow> Some path)"

lemma file_slot_Some: "file_slot base t k = Some path \<longleftrightarrow> grain_path base t k = Inr path"
  by (auto simp: file_slot_def split: sum.split)

lemma file_at_cases:
  assumes "files_ok disk"
  shows "file_at disk path = None \<longleftrightarrow> dget disk path = None"
    and "file_at disk path = Some (d, e) \<longleftrightarrow> dget disk path = Some (state_doc d e)"
  using assms by (cases "dget disk path"; fastforce simp: files_ok_def file_at_def state_doc_def)+

lemma state_doc_fields [simp]:
  "file_fields (state_doc d e) = Inr (d, JStr e)" "file_etag (state_doc d e) = Inr (JStr e)"
  by (simp_all add: file_fields_def file_etag_def state_doc_def field_simps_json del: list.map)

lemma files_ok_write: "files_ok disk \<Longrightarrow> files_ok (dset disk path (state_doc d e))"
  by (auto simp: files_ok_def dict_ok_dset dget_dset)

lemma files_ok_pop: "files_ok disk \<Longrightarrow> files_ok (dpop disk path)"
  by (auto simp: files_ok_def dict_ok_dpop dget_dpop split: if_split_asm)

lemma file_at_write: "file_at (dset disk path (state_doc d e)) = (file_at disk)(path \<mapsto> (d, e))"
  by (auto simp: file_at_def fun_eq_iff dget_dset state_doc_def)

lemma file_at_pop: "files_ok disk \<Longrightarrow> file_at (dpop disk path) = (file_at disk)(path := None)"
  by (auto simp: file_at_def fun_eq_iff dget_dpop files_ok_def)

interpretation file_store: grain_storage "file_storage base" file_at "file_slot base" files_ok for base
proof (unfold_locales, goal_cases)
  case (1 f t k s)
  then show ?case by (simp add: file_storage_def file_read_def file_slot_Some file_at_cases)
next
  case (2 f t k s d e)
  then show ?case by (simp add: file_storage_def file_read_def file_slot_Some file_at_cases)
next
  case (3 f t k s expected d' new_etag)
  have "file_check_etag s expected f = Inr ()"
    using 3(1,3) by (cases expected; cases "dget f s")
      (auto simp: file_check_etag_def file_at_cases)
  with 3(1,2) show ?case
    by (auto simp: file_storage_def file_write_def file_slot_Some files_ok_write file_at_write
        state_doc_def [symmetric] simp del: list.map)
next
  case (4 f t k s d e expected x d' new_etag)
  then show ?case
    by (simp add: file_storage_def file_write_def file_slot_Some file_at_cases file_check_etag_def)
next
  case (5 f t k s expected)
  show ?case
  proof (cases "dget f s")
    case None
    with 5(1,2) show ?thesis
      by (simp add: file_storage_def file_clear_def file_slot_Some file_at_cases fun_upd_idem)
  next
    case (Some x)
    then have "file_check_etag s expected f = Inr ()"
      using 5(1,3) by (cases expected) (auto simp: file_check_etag_def file_at_cases)
    with Some 5(1,2) show ?thesis
      by (simp add: file_storage_def file_clear_def file_slot_Some files_ok_pop file_at_pop)
  qed
next
  case (6 f t k s d e expected x)
  then show ?case
    by (simp add: file_storage_def file_clear_def file_slot_Some file_at_cases file_check_etag_def)
qed

subsection \<open>Properties\<close>

text \<open>
  Optimistic concurrency of grain state files: over files this provider wrote, a write with the
  etag of the stored state (or of a state that is gone) replaces exactly that grain's file and the
  next read returns the new state with the new etag; a write or a clear with any other etag raises
  \<^verbatim>\<open>StorageInconsistencyError\<close> and changes nothing. A write without an etag is not
  checked at all: it replaces whatever somebody else stored since the caller found nothing.
\<close>

theorem storage_occ:
  assumes "files_ok f" "file_slot base t k = Some path"
  shows "(file_at f path = Some (d, e) \<and> x \<noteq> e \<longrightarrow>
        file_write base True t k d' (Some x) n f = (Inl StorageInconsistencyError, f)
        \<and> file_clear base True t k (Some x) f = (Inl StorageInconsistencyError, f))
    \<and> (file_at f path = Some (d, e) \<or> file_at f path = None \<longrightarrow>
        (\<exists>f'. file_write base True t k d' (Some e) n f = (Inr n, f') \<and> files_ok f'
          \<and> file_at f' = (file_at f)(path \<mapsto> (d', n)) \<and> file_read base t k f' = Inr (d', JStr n)))
    \<and> (\<exists>f'. file_write base True t k d' None n f = (Inr n, f') \<and> file_at f' = (file_at f)(path \<mapsto> (d', n)))"
proof (intro conjI impI)
  assume *: "file_at f path = Some (d, e) \<and> x \<noteq> e"
  show "file_write base True t k d' (Some x) n f = (Inl StorageInconsistencyError, f)"
    using file_store.stale_write_refused [OF assms, of d e x d' n] * by (simp add: file_storage_def)
  show "file_clear base True t k (Some x) f = (Inl StorageInconsistencyError, f)"
    using file_store.clear_conflict [OF assms, of d e "Some x" x] * by (simp add: file_storage_def)
next
  assume "file_at f path = Some (d, e) \<or> file_at f path = None"
  then have "Some e = None \<or> file_at f path = None \<or> (\<exists>d. file_at f path = Some (d, the (Some e)))" by auto
  from file_store.write_ok [OF assms this, of d' n] obtain f' where
    w: "st_write (file_storage base) t k d' (Some e) n f = (Inr n, f')" by blast
  from file_store.write_read [OF assms w] w show "\<exists>f'. file_write base True t k d' (Some e) n f = (Inr n, f')
      \<and> files_ok f' \<and> file_at f' = (file_at f)(path \<mapsto> (d', n)) \<and> file_read base t k f' = Inr (d', JStr n)"
    by (auto simp: file_storage_def)
next
  show "\<exists>f'. file_write base True t k d' None n f = (Inr n, f') \<and> file_at f' = (file_at f)(path \<mapsto> (d', n))"
    using file_store.write_ok [OF assms, of None d' n] by (auto simp: file_storage_def)
qed

theorem storage_occ_witness:
  "\<exists>f'. file_write (lit ''/d'') True (lit ''T'') (lit ''k'') (JInt 1) None (lit ''e1'') [] = (Inr (lit ''e1''), f')
     \<and> file_at f' (lit ''/d/T/k.json'') = Some (JInt 1, lit ''e1'')"
proof -
  have slot: "file_slot (lit ''/d'') (lit ''T'') (lit ''k'') = Some (lit ''/d/T/k.json'')"
    by (simp add: file_slot_def grain_path_def sanitize_path_component_def is_safe_char_def)
  have "files_ok []" by (simp add: files_ok_def)
  from storage_occ [OF this slot, of "JInt 1" "lit ''e1''" "lit ''x''" "JInt 1" "lit ''e1''"] show ?thesis
    by auto
qed

text \<open>The name of a state file, and which grains share it.\<close>

definition sanitized :: "pystr \<Rightarrow> pystr" where
  "sanitized v = map (\<lambda>c. if is_safe_char c then c else 95) v"

lemma grain_path_eq:
  "grain_path base t k =
     (if t = [] \<or> k = [] then Inl StorageError
      else Inr (base @ lit ''/'' @ sanitized t @ lit ''/'' @ sanitized k @ lit ''.json''))"
  by (simp add: grain_path_def sanitize_path_component_def sanitized_def Let_def del: list.map(2))

lemma sanitized_safe: "c \<in> set (sanitized v) \<Longrightarrow> is_safe_char c"
  by (auto simp: sanitized_def is_safe_char_def split: if_split_asm)

lemma split_at_sep:
  "xs @ c # ys = xs' @ c # ys' \<Longrightarrow> c \<notin> set xs \<Longrightarrow> c \<notin> set xs' \<Longrightarrow> xs = xs' \<and> ys = ys'"
  by (induction xs arbitrary: xs') (case_tac xs'; auto)+

text \<open>
  State files stay inside the base directory, and grains can collide: a grain's path fails only
  for an empty type or key, otherwise it is the base directory, one directory and one file name
  whose characters are letters, digits, hyphens and underscores, so no key escapes upwards and the
  traversal check never fires; and two grains share one file exactly when their types and keys
  agree after every other character became an underscore, as \<^verbatim>\<open>a/b\<close> and \<^verbatim>\<open>a_b\<close>,
  in which case each of them reads what the other wrote.
\<close>

theorem storage_paths:
  "(grain_path base t k = Inl StorageError \<longleftrightarrow> t = [] \<or> k = [])
   \<and> (\<forall>path. grain_path base t k = Inr path \<longrightarrow>
        (\<exists>d n. path = base @ lit ''/'' @ d @ lit ''/'' @ n @ lit ''.json''
          \<and> (\<forall>c \<in> set d \<union> set n. is_safe_char c) \<and> 47 \<notin> set d \<union> set n \<and> 46 \<notin> set d \<union> set n))
   \<and> (t \<noteq> [] \<and> k \<noteq> [] \<and> t' \<noteq> [] \<and> k' \<noteq> [] \<longrightarrow>
        (grain_path base t k = grain_path base t' k' \<longleftrightarrow> sanitized t = sanitized t' \<and> sanitized k = sanitized k')
        \<and> (sanitized t = sanitized t' \<and> sanitized k = sanitized k' \<and> files_ok f
            \<and> file_write base True t k d expected n f = (Inr n, f') \<longrightarrow>
            file_read base t' k' f' = Inr (d, JStr n)))"
proof (intro conjI impI allI)
  show "grain_path base t k = Inl StorageError \<longleftrightarrow> t = [] \<or> k = []" by (simp add: grain_path_eq)
  have sep: "47 \<notin> set (sanitized v) \<and> 46 \<notin> set (sanitized v)" for v
    using sanitized_safe by (force simp: is_safe_char_def)
  show "\<exists>d n. path = base @ lit ''/'' @ d @ lit ''/'' @ n @ lit ''.json''
      \<and> (\<forall>c \<in> set d \<union> set n. is_safe_char c) \<and> 47 \<notin> set d \<union> set n \<and> 46 \<notin> set d \<union> set n"
    if "grain_path base t k = Inr path" for path
    using that sep sanitized_safe
    by (intro exI [of _ "sanitized t"] exI [of _ "sanitized k"]) (auto simp: grain_path_eq split: if_split_asm)
  assume ne: "t \<noteq> [] \<and> k \<noteq> [] \<and> t' \<noteq> [] \<and> k' \<noteq> []"
  show "grain_path base t k = grain_path base t' k' \<longleftrightarrow> sanitized t = sanitized t' \<and> sanitized k = sanitized k'"
  proof
    assume "grain_path base t k = grain_path base t' k'"
    then have "sanitized t @ 47 # sanitized k @ lit ''.json'' = sanitized t' @ 47 # sanitized k' @ lit ''.json''"
      using ne by (simp add: grain_path_eq)
    from split_at_sep [OF this] sep show "sanitized t = sanitized t' \<and> sanitized k = sanitized k'" by simp
  qed (use ne in \<open>simp add: grain_path_eq\<close>)
  assume *: "sanitized t = sanitized t' \<and> sanitized k = sanitized k' \<and> files_ok f
      \<and> file_write base True t k d expected n f = (Inr n, f')"
  then have same: "file_slot base t' k' = file_slot base t k" using ne by (simp add: file_slot_def grain_path_eq)
  obtain path where slot: "file_slot base t k = Some path" using ne by (simp add: file_slot_def grain_path_eq)
  from file_store.write_read [OF _ slot, of f d expected n n f'] * have
    "files_ok f'" "file_at f' path = Some (d, n)" by (auto simp: file_storage_def)
  with file_store.read_present [of f' base t' k' path d n] same slot show "file_read base t' k' f' = Inr (d, JStr n)"
    by (simp add: file_storage_def)
qed

theorem storage_paths_witness:
  "\<exists>f'. file_write [] True (lit ''T'') (lit ''a/b'') (JInt 1) None (lit ''e1'') [] = (Inr (lit ''e1''), f')
     \<and> file_read [] (lit ''T'') (lit ''a_b'') f' = Inr (JInt 1, JStr (lit ''e1''))"
proof -
  have same: "sanitized (lit ''a/b'') = sanitized (lit ''a_b'')" by (simp add: sanitized_def is_safe_char_def)
  have ok: "files_ok []" by (simp add: files_ok_def)
  obtain f' where w: "file_write [] True (lit ''T'') (lit ''a/b'') (JInt 1) None (lit ''e1'') [] = (Inr (lit ''e1''), f')"
    by (simp add: file_write_def grain_path_eq file_check_etag_def)
  have ne: "lit ''T'' \<noteq> [] \<and> lit ''a/b'' \<noteq> [] \<and> lit ''T'' \<noteq> [] \<and> lit ''a_b'' \<noteq> []" by simp
  have "file_read [] (lit ''T'') (lit ''a_b'') f' = Inr (JInt 1, JStr (lit ''e1''))"
    using storage_paths [where base = "[]" and t = "lit ''T''" and k = "lit ''a/b''" and t' = "lit ''T''"
        and k' = "lit ''a_b''" and f = "[]" and d = "JInt 1" and expected = None and n = "lit ''e1''" and f' = f',
        THEN conjunct2, THEN conjunct2] ne same ok w by blast
  with w show ?thesis by blast
qed

end
