(* ===== verification/Wire.thy ===== *)
theory Wire
  imports PyText
begin

text \<open>
  \<^verbatim>\<open>pyleans/transport/messages.py\<close>, \<^verbatim>\<open>transport/_io.py\<close> and
  \<^verbatim>\<open>transport/wire.py\<close>: the messages of the cluster transport and their frames. A
  stream reader at end of input is the list of bytes that remain: a read returns the bytes and
  the rest, and a read past the end is the \<^verbatim>\<open>IncompleteReadError\<close> that the caller turns
  into an error of its own.
\<close>

datatype MessageType = REQUEST | RESPONSE | ONE_WAY | PING | PONG | ERROR

fun type_code :: "MessageType \<Rightarrow> nat" where
  "type_code REQUEST = 1"
| "type_code RESPONSE = 2"
| "type_code ONE_WAY = 3"
| "type_code PING = 4"
| "type_code PONG = 5"
| "type_code ERROR = 6"

text \<open>\<^verbatim>\<open>MessageType(value)\<close>.\<close>

definition type_of_code :: "nat \<Rightarrow> MessageType result" where
  "type_of_code n =
     (if n = 1 then Inr REQUEST else if n = 2 then Inr RESPONSE else if n = 3 then Inr ONE_WAY
      else if n = 4 then Inr PING else if n = 5 then Inr PONG else if n = 6 then Inr ERROR
      else Inl ValueError)"

record TransportMessage =
  message_type :: MessageType
  correlation_id :: int
  msg_header :: bytes
  msg_body :: bytes

text \<open>\<^verbatim>\<open>readexactly_or_raise\<close> with the error its \<^verbatim>\<open>make_error\<close> builds.\<close>

definition readexactly :: "error \<Rightarrow> bytes \<Rightarrow> nat \<Rightarrow> (bytes \<times> bytes) result" where
  "readexactly err reader n =
     (if n = 0 then Inr ([], reader)
      else if length reader < n then Inl err
      else Inr (take n reader, drop n reader))"

definition FRAME_PREFIX_SIZE :: nat where
  "FRAME_PREFIX_SIZE = 4"

definition FRAME_OVERHEAD_AFTER_PREFIX :: nat where
  "FRAME_OVERHEAD_AFTER_PREFIX = 13"

definition UINT32_MAX :: int where
  "UINT32_MAX = 2 ^ 32 - 1"

definition UINT64_MAX :: int where
  "UINT64_MAX = 2 ^ 64 - 1"

definition validate_correlation_id :: "int \<Rightarrow> unit result" where
  "validate_correlation_id c = (if c < 0 \<or> c > UINT64_MAX then Inl ValueError else Inr ())"

definition frame_total :: "TransportMessage \<Rightarrow> nat" where
  "frame_total m = FRAME_OVERHEAD_AFTER_PREFIX + length (msg_header m) + length (msg_body m)"

definition encode_frame :: "TransportMessage \<Rightarrow> int \<Rightarrow> bytes result" where
  "encode_frame m max_size =
     res_bind (validate_correlation_id (correlation_id m)) (\<lambda>_.
       let header_length = length (msg_header m); total_length = frame_total m;
           full_size = FRAME_PREFIX_SIZE + total_length
       in if int header_length > UINT32_MAX then Inl ValueError
          else if int total_length > UINT32_MAX then Inl ValueError
          else if int full_size > max_size then Inl MessageTooLargeError
          else Inr (be_bytes 4 total_length @ be_bytes 1 (type_code (message_type m))
                    @ be_bytes 8 (nat (correlation_id m)) @ be_bytes 4 header_length
                    @ msg_header m @ msg_body m))"

definition read_frame :: "bytes \<Rightarrow> int \<Rightarrow> (TransportMessage \<times> bytes) result" where
  "read_frame reader max_size =
     res_bind (readexactly TransportConnectionError reader FRAME_PREFIX_SIZE) (\<lambda>(prefix, r1).
       let total_length = be_nat prefix
       in if total_length < FRAME_OVERHEAD_AFTER_PREFIX then Inl ValueError
          else if int (FRAME_PREFIX_SIZE + total_length) > max_size then Inl MessageTooLargeError
          else res_bind (readexactly TransportConnectionError r1 FRAME_OVERHEAD_AFTER_PREFIX)
            (\<lambda>(fixed, r2).
              let type_value = be_nat (take 1 fixed); corr = be_nat (take 8 (drop 1 fixed));
                  header_length = be_nat (drop 9 fixed);
                  payload_length = total_length - FRAME_OVERHEAD_AFTER_PREFIX
              in if header_length > payload_length then Inl ValueError
                 else res_bind (type_of_code type_value) (\<lambda>mt.
                   res_bind (readexactly TransportConnectionError r2 header_length) (\<lambda>(header, r3).
                   res_bind (readexactly TransportConnectionError r3 (payload_length - header_length))
                     (\<lambda>(body, r4).
                        Inr (\<lparr>message_type = mt, correlation_id = int corr, msg_header = header,
                              msg_body = body\<rparr>, r4))))))"

definition decode_frame_prefix :: "bytes \<Rightarrow> nat result" where
  "decode_frame_prefix prefix =
     (if length prefix \<noteq> FRAME_PREFIX_SIZE then Inl ValueError else Inr (be_nat prefix))"

text \<open>What a connection's read loop sees: frames until one fails.\<close>

fun read_frames :: "nat \<Rightarrow> bytes \<Rightarrow> int \<Rightarrow> TransportMessage list \<times> error option" where
  "read_frames 0 reader max_size = ([], None)"
| "read_frames (Suc n) reader max_size =
     (case read_frame reader max_size of
        Inl e \<Rightarrow> ([], Some e)
      | Inr (m, rest) \<Rightarrow> (case read_frames n rest max_size of (ms, e) \<Rightarrow> (m # ms, e)))"

subsection \<open>Facts\<close>

lemma type_of_code_type_code [codec_simps, simp]: "type_of_code (type_code t) = Inr t"
  by (cases t) (simp_all add: type_of_code_def)

lemma type_of_code_Inr: "type_of_code n = Inr t \<longleftrightarrow> n = type_code t"
  by (cases t) (auto simp: type_of_code_def split: if_splits)

lemma type_code_bound: "type_code t < 256"
  by (cases t) auto

lemma readexactly_append [codec_simps]: "readexactly err (bs @ r) (length bs) = Inr (bs, r)"
  by (simp add: readexactly_def)

lemma readexactly_Inr:
  "readexactly err reader n = Inr (bs, r) \<longleftrightarrow> reader = bs @ r \<and> length bs = n"
  by (auto simp: readexactly_def)

lemma readexactly_Inl: "readexactly err reader n = Inl e \<longleftrightarrow> e = err \<and> length reader < n"
  by (auto simp: readexactly_def)

lemma be_bytes_be_nat: "be_bytes (length bs) (be_nat bs) = bs"
proof (induction bs rule: rev_induct)
  case (snoc b bs)
  have b: "unat b < 256" using unsigned_less [of b] by simp
  then have "(be_nat bs * 256 + unat b) div 256 = be_nat bs"
    "(be_nat bs * 256 + unat b) mod 256 = unat b" by simp_all
  with snoc show ?case by simp
qed simp

lemma be_bytes_be_nat_length [codec_simps]: "length bs = k \<Longrightarrow> be_bytes k (be_nat bs) = bs"
  using be_bytes_be_nat [of bs] by simp

lemma encode_frame_Inr:
  "encode_frame m max_size = Inr bs \<longleftrightarrow>
     0 \<le> correlation_id m \<and> correlation_id m \<le> UINT64_MAX \<and> int (frame_total m) \<le> UINT32_MAX
     \<and> int (FRAME_PREFIX_SIZE + frame_total m) \<le> max_size
     \<and> bs = be_bytes 4 (frame_total m) @ be_bytes 1 (type_code (message_type m))
            @ be_bytes 8 (nat (correlation_id m)) @ be_bytes 4 (length (msg_header m))
            @ msg_header m @ msg_body m"
  unfolding encode_frame_def validate_correlation_id_def Let_def
  by (auto simp: frame_total_def simp del: be_bytes.simps split: if_splits)

lemma fixed_split:
  assumes "length a = 1" "length b = 8" "length c = 4"
  shows "take 1 (a @ b @ c) = a" "take 8 (drop 1 (a @ b @ c)) = b" "drop 9 (a @ b @ c) = c"
  using assms by simp_all

lemma read_encoded_frame:
  assumes "encode_frame m max_size = Inr bs" and "max_size \<le> max_size'"
  shows "read_frame (bs @ rest) max_size' = Inr (m, rest)"
proof -
  from assms(1) have corr: "0 \<le> correlation_id m" "correlation_id m \<le> UINT64_MAX"
    and total: "int (frame_total m) \<le> UINT32_MAX"
    and fits: "int (FRAME_PREFIX_SIZE + frame_total m) \<le> max_size"
    and bs: "bs = be_bytes 4 (frame_total m) @ be_bytes 1 (type_code (message_type m))
      @ be_bytes 8 (nat (correlation_id m)) @ be_bytes 4 (length (msg_header m))
      @ msg_header m @ msg_body m"
    unfolding encode_frame_Inr by blast+
  let ?p = "be_bytes 4 (frame_total m)" and ?a = "be_bytes 1 (type_code (message_type m))"
    and ?b = "be_bytes 8 (nat (correlation_id m))" and ?c = "be_bytes 4 (length (msg_header m))"
  have n32: "frame_total m < 256 ^ 4" "length (msg_header m) < 256 ^ 4"
    using total by (auto simp: UINT32_MAX_def frame_total_def)
  have n64: "nat (correlation_id m) < 256 ^ 8"
    using corr by (simp add: UINT64_MAX_def nat_less_iff)
  have p: "be_nat ?p = frame_total m" and a: "be_nat ?a = type_code (message_type m)"
    and b: "be_nat ?b = nat (correlation_id m)" and c: "be_nat ?c = length (msg_header m)"
    using n32 n64 type_code_bound [of "message_type m"] by (simp_all add: be_nat_be_bytes del: be_bytes.simps)
  note split = fixed_split [of ?a ?b ?c, OF length_be_bytes length_be_bytes length_be_bytes]
  have r1: "readexactly TransportConnectionError (bs @ rest) FRAME_PREFIX_SIZE
      = Inr (?p, (?a @ ?b @ ?c) @ msg_header m @ msg_body m @ rest)"
    by (simp add: readexactly_Inr bs FRAME_PREFIX_SIZE_def del: be_bytes.simps)
  have r2: "readexactly TransportConnectionError ((?a @ ?b @ ?c) @ msg_header m @ msg_body m @ rest)
      FRAME_OVERHEAD_AFTER_PREFIX = Inr (?a @ ?b @ ?c, msg_header m @ msg_body m @ rest)"
    by (simp add: readexactly_Inr FRAME_OVERHEAD_AFTER_PREFIX_def del: be_bytes.simps)
  have overhead: "\<not> frame_total m < FRAME_OVERHEAD_AFTER_PREFIX"
    "frame_total m - FRAME_OVERHEAD_AFTER_PREFIX = length (msg_header m) + length (msg_body m)"
    by (simp_all add: frame_total_def)
  have fits': "\<not> int (FRAME_PREFIX_SIZE + frame_total m) > max_size'"
    using fits assms(2) by simp
  show ?thesis
    unfolding read_frame_def r1 res_bind.simps prod.case Let_def p
    unfolding r2 split a b c overhead(2)
    using overhead(1) fits' corr by (simp add: readexactly_append r2 split a [unfolded One_nat_def] b c overhead
        del: be_bytes.simps append_assoc)
qed

text \<open>The reader accepts exactly what the writer produces.\<close>

lemma read_frame_Inr:
  assumes "read_frame bs max_size = Inr (m, rest)"
  shows "\<exists>frame. encode_frame m max_size = Inr frame \<and> bs = frame @ rest"
proof -
  from assms obtain prefix r1 where r1: "readexactly TransportConnectionError bs FRAME_PREFIX_SIZE = Inr (prefix, r1)"
    and total: "\<not> be_nat prefix < FRAME_OVERHEAD_AFTER_PREFIX"
      "\<not> int (FRAME_PREFIX_SIZE + be_nat prefix) > max_size"
    and more: "\<exists>fixed r2. readexactly TransportConnectionError r1 FRAME_OVERHEAD_AFTER_PREFIX = Inr (fixed, r2)"
    unfolding read_frame_def Let_def by (auto simp: res_bind_Inr_iff split: if_splits)
  obtain fixed r2 where r2: "readexactly TransportConnectionError r1 FRAME_OVERHEAD_AFTER_PREFIX = Inr (fixed, r2)"
    using more by blast
  let ?h = "be_nat (drop 9 fixed)" and ?pl = "be_nat prefix - FRAME_OVERHEAD_AFTER_PREFIX"
  from assms r1 r2 obtain mt header r3 body where
    hl: "\<not> ?h > ?pl" and mt: "type_of_code (be_nat (take 1 fixed)) = Inr mt"
    and r3: "readexactly TransportConnectionError r2 ?h = Inr (header, r3)"
    and r4: "readexactly TransportConnectionError r3 (?pl - ?h) = Inr (body, rest)"
    and m: "m = \<lparr>message_type = mt, correlation_id = int (be_nat (take 8 (drop 1 fixed))),
      msg_header = header, msg_body = body\<rparr>"
    unfolding read_frame_def Let_def by (auto simp: res_bind_Inr_iff split: if_splits)
  have len: "length prefix = 4" "length fixed = 13" "length header = ?h" "length body = ?pl - ?h"
    using r1 r2 r3 r4 by (simp_all add: readexactly_Inr FRAME_PREFIX_SIZE_def FRAME_OVERHEAD_AFTER_PREFIX_def)
  have bs: "bs = prefix @ fixed @ header @ body @ rest"
    using r1 r2 r3 r4 by (simp add: readexactly_Inr)
  have fixed: "fixed = take 1 fixed @ take 8 (drop 1 fixed) @ drop 9 fixed"
  proof -
    have "fixed = take 1 fixed @ drop 1 fixed" by simp
    also have "drop 1 fixed = take 8 (drop 1 fixed) @ drop 8 (drop 1 fixed)"
      by (rule append_take_drop_id [symmetric])
    finally show ?thesis by simp
  qed
  have total_m: "frame_total m = be_nat prefix"
    using len hl total by (simp add: m frame_total_def)
  have bound: "be_nat prefix < 256 ^ 4" "be_nat (take 8 (drop 1 fixed)) < 256 ^ 8"
    using be_nat_bound [of prefix] be_nat_bound [of "take 8 (drop 1 fixed)"] len by simp_all
  have parts: "be_bytes 4 (be_nat prefix) = prefix" "be_bytes 1 (type_code mt) = take 1 fixed"
    "be_bytes 8 (be_nat (take 8 (drop 1 fixed))) = take 8 (drop 1 fixed)"
    "be_bytes 4 ?h = drop 9 fixed"
    using len mt [unfolded type_of_code_Inr, symmetric]
    by (simp_all add: be_bytes_be_nat_length del: be_bytes.simps)
  have "encode_frame m max_size = Inr (prefix @ fixed @ header @ body)"
    unfolding encode_frame_Inr total_m
    using bound total(2) fixed
    by (simp add: m len parts parts [unfolded One_nat_def] UINT64_MAX_def UINT32_MAX_def
        del: be_bytes.simps)
  with bs show ?thesis by (intro exI [of _ "prefix @ fixed @ header @ body"]) simp
qed

lemma encode_frame_length:
  "encode_frame m max_size = Inr bs \<Longrightarrow> int (length bs) = int (4 + frame_total m) \<and> int (length bs) \<le> max_size"
  by (auto simp: encode_frame_Inr frame_total_def FRAME_PREFIX_SIZE_def FRAME_OVERHEAD_AFTER_PREFIX_def
      simp del: be_bytes.simps)

text \<open>A read never invents an error outside the documented three.\<close>

lemma read_frame_errors:
  "read_frame bs max_size = Inl e \<Longrightarrow> e = ValueError \<or> e = MessageTooLargeError \<or> e = TransportConnectionError"
  unfolding read_frame_def Let_def type_of_code_def
  by (auto simp: res_bind_Inl_iff readexactly_Inl split: if_splits)

text \<open>A proper prefix of a frame is an incomplete read.\<close>

lemma read_frame_mono:
  assumes "read_frame bs max_size = Inr (m, rest)"
  shows "read_frame (bs @ z) max_size = Inr (m, rest @ z)"
proof -
  from read_frame_Inr [OF assms] obtain frame where
    "encode_frame m max_size = Inr frame" "bs = frame @ rest" by blast
  with read_encoded_frame [of m max_size frame max_size "rest @ z"] show ?thesis by simp
qed

lemma readexactly_short: "length reader < n \<Longrightarrow> readexactly err reader n = Inl err"
  by (simp add: readexactly_def)

lemma read_frame_short:
  assumes "length prefix = 4" "\<not> be_nat prefix < FRAME_OVERHEAD_AFTER_PREFIX"
    "\<not> int (FRAME_PREFIX_SIZE + be_nat prefix) > max_size"
  shows "length r1 < 13 \<Longrightarrow> read_frame (prefix @ r1) max_size = Inl TransportConnectionError"
    and "length fixed = 13 \<Longrightarrow> type_of_code (be_nat (take 1 fixed)) = Inr mt \<Longrightarrow>
      \<not> be_nat (drop 9 fixed) > be_nat prefix - FRAME_OVERHEAD_AFTER_PREFIX \<Longrightarrow>
      length r2 < be_nat prefix - FRAME_OVERHEAD_AFTER_PREFIX \<Longrightarrow>
      read_frame (prefix @ fixed @ r2) max_size = Inl TransportConnectionError"
proof -
  have r1: "readexactly TransportConnectionError (prefix @ r) FRAME_PREFIX_SIZE = Inr (prefix, r)" for r
    using assms(1) by (simp add: readexactly_Inr FRAME_PREFIX_SIZE_def)
  show "length r1 < 13 \<Longrightarrow> read_frame (prefix @ r1) max_size = Inl TransportConnectionError"
    using assms(2,3) by (simp add: read_frame_def r1 Let_def readexactly_short FRAME_OVERHEAD_AFTER_PREFIX_def)
  assume fixed: "length fixed = 13" and mt: "type_of_code (be_nat (take 1 fixed)) = Inr mt"
    and hl: "\<not> be_nat (drop 9 fixed) > be_nat prefix - FRAME_OVERHEAD_AFTER_PREFIX"
    and short: "length r2 < be_nat prefix - FRAME_OVERHEAD_AFTER_PREFIX"
  have r2: "readexactly TransportConnectionError (fixed @ r2) FRAME_OVERHEAD_AFTER_PREFIX = Inr (fixed, r2)"
    using fixed by (simp add: readexactly_Inr FRAME_OVERHEAD_AFTER_PREFIX_def)
  let ?h = "be_nat (drop 9 fixed)" and ?pl = "be_nat prefix - FRAME_OVERHEAD_AFTER_PREFIX"
  have tail: "res_bind (readexactly TransportConnectionError r2 ?h) (\<lambda>(header, r3).
      res_bind (readexactly TransportConnectionError r3 (?pl - ?h)) (\<lambda>(body, r4). g header body r4))
      = Inl TransportConnectionError" for g :: "bytes \<Rightarrow> bytes \<Rightarrow> bytes \<Rightarrow> (TransportMessage \<times> bytes) result"
  proof (cases "length r2 < ?h")
    case False
    then have "readexactly TransportConnectionError r2 ?h = Inr (take ?h r2, drop ?h r2)"
      by (simp add: readexactly_Inr)
    moreover have "length (drop ?h r2) < ?pl - ?h" using False short by simp
    ultimately show ?thesis by (simp add: readexactly_short)
  qed (simp add: readexactly_short)
  show "read_frame (prefix @ fixed @ r2) max_size = Inl TransportConnectionError"
    unfolding read_frame_def r1 res_bind.simps prod.case Let_def
    using assms(2,3) hl by (simp add: r2 mt [unfolded One_nat_def] tail del: diff_diff_left)
qed

lemma read_frame_truncated:
  assumes enc: "encode_frame m max_size = Inr frame" and k: "k < length frame"
  shows "read_frame (take k frame) max_size = Inl TransportConnectionError"
proof -
  let ?p = "be_bytes 4 (frame_total m)" and ?a = "be_bytes 1 (type_code (message_type m))"
    and ?b = "be_bytes 8 (nat (correlation_id m))" and ?c = "be_bytes 4 (length (msg_header m))"
  let ?f = "?a @ ?b @ ?c"
  have frame: "frame = ?p @ ?f @ msg_header m @ msg_body m"
    and total: "int (frame_total m) \<le> UINT32_MAX"
    and fits: "\<not> int (FRAME_PREFIX_SIZE + frame_total m) > max_size"
    using enc unfolding encode_frame_Inr by auto
  have n32: "frame_total m < 256 ^ 4" "length (msg_header m) < 256 ^ 4"
    using total by (auto simp: UINT32_MAX_def frame_total_def)
  have p: "be_nat ?p = frame_total m" and a: "be_nat ?a = type_code (message_type m)"
    and c: "be_nat ?c = length (msg_header m)"
    using n32 type_code_bound [of "message_type m"] by (simp_all add: be_nat_be_bytes del: be_bytes.simps)
  note split = fixed_split [of ?a ?b ?c, OF length_be_bytes length_be_bytes length_be_bytes]
  have pf: "length ?p = 4" "\<not> be_nat ?p < FRAME_OVERHEAD_AFTER_PREFIX"
    "\<not> int (FRAME_PREFIX_SIZE + be_nat ?p) > max_size"
    using fits unfolding p by (simp_all add: frame_total_def del: be_bytes.simps)
  have len: "length ?f = 13" by (simp del: be_bytes.simps)
  show ?thesis
  proof (cases "k < 4")
    case True
    with k show ?thesis by (simp add: read_frame_def readexactly_short FRAME_PREFIX_SIZE_def)
  next
    case ge4: False
    define r1 where "r1 = take (k - 4) (?f @ msg_header m @ msg_body m)"
    have take1: "take k frame = ?p @ r1"
      using ge4 by (simp add: frame r1_def del: be_bytes.simps append_assoc)
    show ?thesis
    proof (cases "k < 17")
      case True
      with ge4 have "length r1 < 13" by (simp add: r1_def del: be_bytes.simps)
      then show ?thesis unfolding take1 by (rule read_frame_short(1) [OF pf])
    next
      case False
      define r2 where "r2 = take (k - 17) (msg_header m @ msg_body m)"
      have "r1 = ?f @ r2"
        using False len by (simp add: r1_def r2_def del: be_bytes.simps append_assoc)
      moreover have "length r2 < be_nat ?p - FRAME_OVERHEAD_AFTER_PREFIX"
        using k False unfolding p frame
        by (auto simp: r2_def frame_total_def simp del: be_bytes.simps)
      moreover have "type_of_code (be_nat (take 1 ?f)) = Inr (message_type m)"
        unfolding split a by simp
      moreover have "\<not> be_nat (drop 9 ?f) > be_nat ?p - FRAME_OVERHEAD_AFTER_PREFIX"
        unfolding split c p by (simp add: frame_total_def)
      ultimately show ?thesis
        unfolding take1 using read_frame_short(2) [OF pf len] by metis
    qed
  qed
qed

lemma read_frames_encoded:
  "list_all2 (\<lambda>m bs. encode_frame m max_size = Inr bs) ms frames \<Longrightarrow>
   read_frames (length ms) (concat frames @ rest) max_size = (ms, None)"
proof (induction rule: list_all2_induct)
  case (Cons m ms bs frames)
  from read_encoded_frame [OF Cons.hyps(1) order_refl, of "concat frames @ rest"] Cons.IH
  show ?case by simp
qed simp

subsection \<open>Properties\<close>

text \<open>
  Frames round trip, one or many: messages that were encoded under a size limit and sent back
  to back are read back one after the other as the same messages, and what follows them on the
  stream stays unread; a frame is never longer than the limit its sender checked.
\<close>

theorem frame_stream_roundtrip:
  assumes "list_all2 (\<lambda>m bs. encode_frame m max_size = Inr bs) ms frames"
  shows "read_frames (length ms) (concat frames @ rest) max_size = (ms, None)
    \<and> (\<forall>m bs. (m, bs) \<in> set (zip ms frames) \<longrightarrow>
          read_frame (bs @ rest) max_size = Inr (m, rest) \<and> int (length bs) \<le> max_size)"
proof (intro conjI allI impI)
  show "read_frames (length ms) (concat frames @ rest) max_size = (ms, None)"
    by (rule read_frames_encoded [OF assms])
  fix m bs
  assume "(m, bs) \<in> set (zip ms frames)"
  with assms have enc: "encode_frame m max_size = Inr bs" by (auto simp: list_all2_iff)
  show "read_frame (bs @ rest) max_size = Inr (m, rest)"
    by (rule read_encoded_frame [OF enc order_refl])
  show "int (length bs) \<le> max_size" using encode_frame_length [OF enc] by simp
qed

definition ping_message :: TransportMessage where
  "ping_message = \<lparr>message_type = PING, correlation_id = 7, msg_header = [1], msg_body = []\<rparr>"

lemma ping_frame: "\<exists>frame. encode_frame ping_message 18 = Inr frame"
  by (simp add: encode_frame_Inr ping_message_def UINT64_MAX_def UINT32_MAX_def frame_total_def
      FRAME_OVERHEAD_AFTER_PREFIX_def FRAME_PREFIX_SIZE_def del: be_bytes.simps)

theorem frame_stream_roundtrip_witness:
  "\<exists>frame. encode_frame ping_message 18 = Inr frame
     \<and> read_frames 2 (frame @ frame) 18 = ([ping_message, ping_message], None)"
proof -
  obtain frame where f: "encode_frame ping_message 18 = Inr frame" using ping_frame by blast
  have "list_all2 (\<lambda>m bs. encode_frame m 18 = Inr bs) [ping_message, ping_message] [frame, frame]"
    using f by simp
  from conjunct1 [OF frame_stream_roundtrip [OF this, of "[]"]] f show ?thesis
    by (auto simp: numeral_2_eq_2)
qed

text \<open>
  C33. The frame format is unambiguous and reading is total: bytes are read as a message exactly
  when they start with that message's own encoding under the limit; any other input fails with a
  \<^verbatim>\<open>ValueError\<close>, a \<^verbatim>\<open>MessageTooLargeError\<close> or a \<^verbatim>\<open>TransportConnectionError\<close>,
  and every proper prefix of an encoded frame fails as a connection that closed mid-frame.
\<close>

theorem frame_unambiguous:
  "(read_frame bs max_size = Inr (m, rest) \<longleftrightarrow>
      (\<exists>frame. encode_frame m max_size = Inr frame \<and> bs = frame @ rest))
   \<and> read_frame bs max_size \<in> Inl ` {ValueError, MessageTooLargeError, TransportConnectionError} \<union> range Inr
   \<and> (\<forall>frame k. encode_frame m max_size = Inr frame \<longrightarrow> k < length frame \<longrightarrow>
        read_frame (take k frame) max_size = Inl TransportConnectionError)"
proof (intro conjI allI impI)
  show "read_frame bs max_size = Inr (m, rest) \<longleftrightarrow>
      (\<exists>frame. encode_frame m max_size = Inr frame \<and> bs = frame @ rest)"
    using read_frame_Inr read_encoded_frame by blast
  show "read_frame bs max_size \<in> Inl ` {ValueError, MessageTooLargeError, TransportConnectionError} \<union> range Inr"
    using read_frame_errors [of bs max_size] by (cases "read_frame bs max_size") auto
  fix frame k
  assume enc: "encode_frame m max_size = Inr frame" and k: "k < length frame"
  show "read_frame (take k frame) max_size = Inl TransportConnectionError"
    by (rule read_frame_truncated [OF enc k])
qed

theorem frame_unambiguous_witness:
  "\<exists>frame. encode_frame ping_message 18 = Inr frame
     \<and> read_frame (frame @ [7]) 18 = Inr (ping_message, [7])
     \<and> read_frame (take 3 frame) 18 = Inl TransportConnectionError"
proof -
  obtain frame where f: "encode_frame ping_message 18 = Inr frame" using ping_frame by blast
  have "length frame = 18"
    using f by (auto simp: encode_frame_def frame_total_def ping_message_def pack_uint_def
        res_bind_Inr_iff validate_correlation_id_def FRAME_PREFIX_SIZE_def
        FRAME_OVERHEAD_AFTER_PREFIX_def split: if_splits)
  with f frame_unambiguous [of "frame @ [7]" 18 ping_message "[7]"] show ?thesis by auto
qed

end
