(* ===== verification/Runtime.thy ===== *)
theory Runtime
  imports RemoteInvoke GrainStorage DirectoryCache Wire
begin

text \<open>
  \<^verbatim>\<open>pyleans/server/runtime.py\<close> with \<^verbatim>\<open>grain.py\<close>: activations and their
  inboxes, the worker that runs one call at a time, state binding to a storage provider, local and
  remote invocation, the handler of inbound grain calls, deactivation and idle collection.
  Grain classes are a parameter: their members, their state codec and the body of their methods,
  which runs in one turn on the activation and the storage. An activation object and a future are
  references: indices into the lists of objects and futures. The texts of exceptions that lower
  layers and the runtime itself raise are not modelled; their classes are, and the text of what a
  method raises is.
\<close>

subsection \<open>Grain classes\<close>

text \<open>A member of a grain class: its name and whether it is a coroutine function.\<close>

record 'i GrainClass =
  cls_members :: "(pystr \<times> bool) list"
  cls_default_state :: "'i option"
  cls_storage_name :: pystr
  cls_decode :: "json \<Rightarrow> exn + 'i"
  cls_asdict :: "'i \<Rightarrow> json"
  cls_construct :: "exn + unit"

definition LIFECYCLE_METHODS :: "pystr list" where
  "LIFECYCLE_METHODS = [lit ''on_activate'', lit ''on_deactivate'']"

definition BASE_CLASS_METHODS :: "pystr list" where
  "BASE_CLASS_METHODS =
     [lit ''read_state'', lit ''write_state'', lit ''clear_state'', lit ''deactivate_on_idle'']"

definition get_grain_methods :: "'i GrainClass \<Rightarrow> pystr list" where
  "get_grain_methods c =
     map fst (filter (\<lambda>(name, is_coroutine).
       take 1 name \<noteq> lit ''_'' \<and> name \<notin> set LIFECYCLE_METHODS \<and> name \<notin> set BASE_CLASS_METHODS
       \<and> is_coroutine) (cls_members c))"

definition has_member :: "'i GrainClass \<Rightarrow> pystr \<Rightarrow> bool" where
  "has_member c name \<longleftrightarrow> name \<in> fst ` set (cls_members c)"

subsection \<open>Activations\<close>

datatype inbox_item =
    MethodCall (call_method: pystr) (call_args: "json list") (call_kwargs: "(pystr \<times> json) list")
      (call_future: nat)
  | Sentinel

datatype call_future = Unset | Returned json | Raised exn | Abandoned

record 'i GrainActivation =
  act_grain :: GrainId
  inst_state :: "'i option"
  inbox :: "inbox_item list"
  worker_running :: bool
  last_activity :: seconds
  state_loaded :: bool
  act_etag :: etag

record ('i, 'st) GrainRuntime =
  objects :: "'i GrainActivation list"
  activations :: "(GrainId, nat) dict"
  futs :: "call_future list"
  store :: 'st
  next_call_id :: int

text \<open>What a method body does in its turn: its outcome, and the activation and storage after it.\<close>

type_synonym ('i, 'st) body =
  "pystr \<Rightarrow> json list \<Rightarrow> (pystr \<times> json) list \<Rightarrow> 'i GrainActivation \<times> 'st
   \<Rightarrow> (exn + json) \<times> 'i GrainActivation \<times> 'st"

record ('i, 'st) RuntimeConfig =
  registry :: "pystr \<Rightarrow> 'i GrainClass option"
  bodies :: "pystr \<Rightarrow> ('i, 'st) body"
  storage_providers :: "pystr \<Rightarrow> 'st StorageProvider option"
  local_silo :: SiloAddress
  idle_timeout :: seconds
  remote_call_timeout :: seconds

definition new_runtime :: "'st \<Rightarrow> ('i, 'st) GrainRuntime" where
  "new_runtime st = \<lparr>objects = [], activations = [], futs = [], store = st, next_call_id = 0\<rparr>"

definition raise_named :: "string \<Rightarrow> exn option \<Rightarrow> exn" where
  "raise_named name cause = Exn (lit name) [] cause"

definition get_grain_class :: "('i, 'st) RuntimeConfig \<Rightarrow> pystr \<Rightarrow> exn + 'i GrainClass" where
  "get_grain_class cfg t =
     (case registry cfg t of None \<Rightarrow> Inl (raise_named ''GrainNotFoundError'' None) | Some c \<Rightarrow> Inr c)"

subsection \<open>State of a grain\<close>

text \<open>The Python class of an error that reaches a caller.\<close>

definition error_exn :: "error \<Rightarrow> exn" where
  "error_exn e = raise_named
     (case e of
        ValueError \<Rightarrow> ''ValueError'' | UnicodeEncodeError \<Rightarrow> ''UnicodeEncodeError'' | KeyError \<Rightarrow> ''KeyError''
      | TypeError \<Rightarrow> ''TypeError'' | OverflowError \<Rightarrow> ''OverflowError'' | RuntimeError \<Rightarrow> ''RuntimeError''
      | StructError \<Rightarrow> ''error'' | TimeoutErr \<Rightarrow> ''TimeoutError''
      | NoSilosAvailableError \<Rightarrow> ''NoSilosAvailableError'' | ClusterNotReadyError \<Rightarrow> ''ClusterNotReadyError''
      | TransportError \<Rightarrow> ''TransportError'' | HandshakeError \<Rightarrow> ''HandshakeError''
      | MessageTooLargeError \<Rightarrow> ''MessageTooLargeError'' | BackpressureError \<Rightarrow> ''BackpressureError''
      | TransportTimeoutError \<Rightarrow> ''TransportTimeoutError''
      | TransportConnectionError \<Rightarrow> ''TransportConnectionError''
      | TransportClosedError \<Rightarrow> ''TransportClosedError'' | MembershipError \<Rightarrow> ''MembershipError''
      | TableStaleError \<Rightarrow> ''TableStaleError'' | SiloNotFoundError \<Rightarrow> ''SiloNotFoundError''
      | MembershipUnavailableError \<Rightarrow> ''MembershipUnavailableError'' | StorageError \<Rightarrow> ''StorageError''
      | StorageInconsistencyError \<Rightarrow> ''StorageInconsistencyError''
      | StorageUnavailableError \<Rightarrow> ''StorageUnavailableError''
      | StorageSerializationError \<Rightarrow> ''StorageSerializationError''
      | StartupAbortedError \<Rightarrow> ''StartupAbortedError'' | SerializationError \<Rightarrow> ''SerializationError''
      | OtherException \<Rightarrow> ''Exception'') None"

text \<open>What was read, as the instance's state: an empty or false state means the default one.\<close>

definition state_from :: "'i GrainClass \<Rightarrow> 'i \<Rightarrow> json \<Rightarrow> exn + 'i" where
  "state_from c dflt state_dict = (if truthy state_dict then cls_decode c state_dict else Inr dflt)"

text \<open>\<^verbatim>\<open>activation.etag = etag\<close>: a provider answers text or null.\<close>

definition etag_of :: "json \<Rightarrow> etag" where
  "etag_of e = (case e of JStr s \<Rightarrow> Some s | _ \<Rightarrow> None)"

definition storage_of :: "('i, 'st) RuntimeConfig \<Rightarrow> 'i GrainClass \<Rightarrow> 'st StorageProvider option" where
  "storage_of cfg c = storage_providers cfg (cls_storage_name c)"

text \<open>The methods that are bound to an instance whose class has a state type.\<close>

definition read_state ::
  "('i, 'st) RuntimeConfig \<Rightarrow> 'i GrainClass \<Rightarrow> 'i GrainActivation \<times> 'st
   \<Rightarrow> (exn + unit) \<times> 'i GrainActivation \<times> 'st" where
  "read_state cfg c w =
     (case (w, storage_of cfg c, cls_default_state c) of
        ((act, st), Some p, Some dflt) \<Rightarrow>
          (case st_read p (grain_type (act_grain act)) (grain_key (act_grain act)) st of
             Inl e \<Rightarrow> (Inl (error_exn e), act, st)
           | Inr (state_dict, e) \<Rightarrow>
               (case state_from c dflt state_dict of
                  Inl x \<Rightarrow> (Inl x, act, st)
                | Inr s \<Rightarrow> (Inr (), act\<lparr>inst_state := Some s, act_etag := etag_of e\<rparr>, st)))
      | ((act, st), _, _) \<Rightarrow> (Inr (), act, st))"

definition write_state ::
  "('i, 'st) RuntimeConfig \<Rightarrow> 'i GrainClass \<Rightarrow> pystr \<Rightarrow> 'i GrainActivation \<times> 'st
   \<Rightarrow> (exn + unit) \<times> 'i GrainActivation \<times> 'st" where
  "write_state cfg c new_etag w =
     (case (w, storage_of cfg c) of
        ((act, st), Some p) \<Rightarrow>
          (case inst_state act of
             None \<Rightarrow> (Inl (raise_named ''TypeError'' None), act, st)
           | Some s \<Rightarrow>
               (case st_write p (grain_type (act_grain act)) (grain_key (act_grain act))
                       (cls_asdict c s) (act_etag act) new_etag st of
                  (Inl e, st') \<Rightarrow> (Inl (error_exn e), act, st')
                | (Inr e, st') \<Rightarrow> (Inr (), act\<lparr>act_etag := Some e\<rparr>, st')))
      | ((act, st), None) \<Rightarrow> (Inr (), act, st))"

definition clear_state ::
  "('i, 'st) RuntimeConfig \<Rightarrow> 'i GrainClass \<Rightarrow> 'i GrainActivation \<times> 'st
   \<Rightarrow> (exn + unit) \<times> 'i GrainActivation \<times> 'st" where
  "clear_state cfg c w =
     (case (w, storage_of cfg c) of
        ((act, st), Some p) \<Rightarrow>
          (case st_clear p (grain_type (act_grain act)) (grain_key (act_grain act)) (act_etag act) st of
             (Inl e, st') \<Rightarrow> (Inl (error_exn e), act, st')
           | (Inr _, st') \<Rightarrow> (Inr (), act\<lparr>act_etag := None, inst_state := cls_default_state c\<rparr>, st'))
      | ((act, st), None) \<Rightarrow> (Inr (), act, st))"

subsection \<open>The worker\<close>

text \<open>A future that its caller gave up on, or that is settled, is left alone.\<close>

definition settle_future :: "nat \<Rightarrow> call_future \<Rightarrow> call_future list \<Rightarrow> call_future list" where
  "settle_future f r fs = (if f < length fs \<and> fs ! f = Unset then fs[f := r] else fs)"

definition method_error :: "pystr \<Rightarrow> pystr \<Rightarrow> exn \<Rightarrow> exn" where
  "method_error t m e =
     Exn (lit ''GrainMethodError'') (lit ''Error in '' @ t @ lit ''.'' @ m @ lit '': '' @ exn_text e) (Some e)"

definition call_outcome :: "pystr \<Rightarrow> pystr \<Rightarrow> exn + json \<Rightarrow> call_future" where
  "call_outcome t m r = (case r of Inr v \<Rightarrow> Returned v | Inl e \<Rightarrow> Raised (method_error t m e))"

text \<open>
  One round of \<^verbatim>\<open>_grain_worker\<close> for object \<open>i\<close>: the sentinel ends the worker, a call
  runs to its end and settles its future; an exception is wrapped and kept as the cause. A worker
  that ended, or whose inbox is empty, does nothing.
\<close>

definition worker_step ::
  "('i, 'st) RuntimeConfig \<Rightarrow> seconds \<Rightarrow> nat \<Rightarrow> ('i, 'st) GrainRuntime \<Rightarrow> ('i, 'st) GrainRuntime" where
  "worker_step cfg now i rt =
     (let act = objects rt ! i
      in if \<not> (i < length (objects rt) \<and> worker_running act) then rt
         else (case inbox act of
                 [] \<Rightarrow> rt
               | Sentinel # rest \<Rightarrow>
                   rt\<lparr>objects := (objects rt)[i := act\<lparr>inbox := rest, worker_running := False\<rparr>]\<rparr>
               | MethodCall m args kwargs f # rest \<Rightarrow>
                   (case bodies cfg (grain_type (act_grain act)) m args kwargs
                           (act\<lparr>inbox := rest, last_activity := now\<rparr>, store rt) of
                      (r, act', st') \<Rightarrow>
                        rt\<lparr>objects := (objects rt)[i := act'], store := st',
                           futs := settle_future f (call_outcome (grain_type (act_grain act)) m r) (futs rt)\<rparr>)))"

text \<open>\<open>n\<close> rounds of the worker with nothing else on the event loop.\<close>

fun worker_run ::
  "('i, 'st) RuntimeConfig \<Rightarrow> seconds \<Rightarrow> nat \<Rightarrow> nat \<Rightarrow> ('i, 'st) GrainRuntime \<Rightarrow> ('i, 'st) GrainRuntime" where
  "worker_run cfg now 0 i rt = rt"
| "worker_run cfg now (Suc n) i rt = worker_run cfg now n i (worker_step cfg now i rt)"

text \<open>\<^verbatim>\<open>inbox.put(item)\<close> on an inbox that has room.\<close>

definition put_item :: "nat \<Rightarrow> inbox_item \<Rightarrow> ('i, 'st) GrainRuntime \<Rightarrow> ('i, 'st) GrainRuntime" where
  "put_item i item rt =
     rt\<lparr>objects := (objects rt)[i := (objects rt ! i)\<lparr>inbox := inbox (objects rt ! i) @ [item]\<rparr>]\<rparr>"

definition enqueue_call ::
  "nat \<Rightarrow> pystr \<Rightarrow> json list \<Rightarrow> (pystr \<times> json) list \<Rightarrow> ('i, 'st) GrainRuntime \<Rightarrow> nat \<times> ('i, 'st) GrainRuntime" where
  "enqueue_call i m args kwargs rt =
     (let f = length (futs rt)
      in (f, put_item i (MethodCall m args kwargs f) (rt\<lparr>futs := futs rt @ [Unset]\<rparr>)))"

text \<open>
  A call that is awaited: the worker gets a round for everything queued. No outcome means that the
  caller waits for ever, or for the worker to be started by nobody.
\<close>

definition await_call ::
  "('i, 'st) RuntimeConfig \<Rightarrow> seconds \<Rightarrow> nat \<Rightarrow> nat \<Rightarrow> ('i, 'st) GrainRuntime
   \<Rightarrow> (exn + json) option \<times> ('i, 'st) GrainRuntime" where
  "await_call cfg now i f rt =
     (let rt' = worker_run cfg now (length (inbox (objects rt ! i))) i rt
      in (case futs rt' ! f of
            Returned v \<Rightarrow> Some (Inr v)
          | Raised e \<Rightarrow> Some (Inl e)
          | _ \<Rightarrow> None, rt'))"

subsection \<open>Activation\<close>

text \<open>
  The part of \<^verbatim>\<open>activate_grain\<close> up to the end of the storage read: class lookup,
  construction and state. The read is an await, so other tasks may run before the activation is
  installed.
\<close>

definition load_state ::
  "('i, 'st) RuntimeConfig \<Rightarrow> 'i GrainClass \<Rightarrow> 'st \<Rightarrow> 'i GrainActivation \<Rightarrow> exn + 'i GrainActivation" where
  "load_state cfg c st act =
     (case (cls_default_state c, storage_of cfg c) of
        (None, _) \<Rightarrow> Inr act
      | (Some dflt, None) \<Rightarrow> Inr (act\<lparr>inst_state := Some dflt, state_loaded := True\<rparr>)
      | (Some dflt, Some p) \<Rightarrow>
          (case st_read p (grain_type (act_grain act)) (grain_key (act_grain act)) st of
             Inl e \<Rightarrow> Inl (raise_named ''GrainActivationError'' (Some (error_exn e)))
           | Inr (state_dict, e) \<Rightarrow>
               (case state_from c dflt state_dict of
                  Inl x \<Rightarrow> Inl (raise_named ''GrainActivationError'' (Some x))
                | Inr s \<Rightarrow> Inr (act\<lparr>inst_state := Some s, act_etag := etag_of e, state_loaded := True\<rparr>))))"

definition prepare_activation ::
  "('i, 'st) RuntimeConfig \<Rightarrow> seconds \<Rightarrow> GrainId \<Rightarrow> 'st \<Rightarrow> exn + 'i GrainActivation" where
  "prepare_activation cfg now g st =
     (case get_grain_class cfg (grain_type g) of
        Inl e \<Rightarrow> Inl e
      | Inr c \<Rightarrow>
          (case cls_construct c of
             Inl e \<Rightarrow> Inl (raise_named ''GrainActivationError'' (Some e))
           | Inr _ \<Rightarrow>
               load_state cfg c st
                 \<lparr>act_grain = g, inst_state = None, inbox = [], worker_running = False,
                  last_activity = now, state_loaded = False, act_etag = None\<rparr>))"

text \<open>The worker starts and the activation enters the table, replacing what is there.\<close>

definition install_activation ::
  "'i GrainActivation \<Rightarrow> ('i, 'st) GrainRuntime \<Rightarrow> nat \<times> ('i, 'st) GrainRuntime" where
  "install_activation act rt =
     (let i = length (objects rt)
      in (i, rt\<lparr>objects := objects rt @ [act\<lparr>worker_running := True\<rparr>],
                activations := dset (activations rt) (act_grain act) i\<rparr>))"

definition run_on_activate ::
  "('i, 'st) RuntimeConfig \<Rightarrow> seconds \<Rightarrow> nat \<Rightarrow> ('i, 'st) GrainRuntime
   \<Rightarrow> (exn + nat) option \<times> ('i, 'st) GrainRuntime" where
  "run_on_activate cfg now i rt =
     (case get_grain_class cfg (grain_type (act_grain (objects rt ! i))) of
        Inl e \<Rightarrow> (Some (Inl e), rt)
      | Inr c \<Rightarrow>
          if \<not> has_member c (lit ''on_activate'') then (Some (Inr i), rt)
          else (case enqueue_call i (lit ''on_activate'') [] [] rt of
                  (f, rt1) \<Rightarrow>
                    (case await_call cfg now i f rt1 of
                       (None, rt2) \<Rightarrow> (None, rt2)
                     | (Some (Inl e), rt2) \<Rightarrow> (Some (Inl e), rt2)
                     | (Some (Inr _), rt2) \<Rightarrow> (Some (Inr i), rt2))))"

definition activate_grain ::
  "('i, 'st) RuntimeConfig \<Rightarrow> seconds \<Rightarrow> GrainId \<Rightarrow> ('i, 'st) GrainRuntime
   \<Rightarrow> (exn + nat) option \<times> ('i, 'st) GrainRuntime" where
  "activate_grain cfg now g rt =
     (case dget (activations rt) g of
        Some i \<Rightarrow> (Some (Inr i), rt)
      | None \<Rightarrow>
          (case prepare_activation cfg now g (store rt) of
             Inl e \<Rightarrow> (Some (Inl e), rt)
           | Inr act \<Rightarrow> (case install_activation act rt of (i, rt1) \<Rightarrow> run_on_activate cfg now i rt1)))"

subsection \<open>Local calls\<close>

definition invoke_local ::
  "('i, 'st) RuntimeConfig \<Rightarrow> seconds \<Rightarrow> GrainId \<Rightarrow> pystr \<Rightarrow> json list \<Rightarrow> (pystr \<times> json) list
   \<Rightarrow> ('i, 'st) GrainRuntime \<Rightarrow> (exn + json) option \<times> ('i, 'st) GrainRuntime" where
  "invoke_local cfg now g m args kwargs rt =
     (case activate_grain cfg now g rt of
        (None, rt1) \<Rightarrow> (None, rt1)
      | (Some (Inl e), rt1) \<Rightarrow> (Some (Inl e), rt1)
      | (Some (Inr i), rt1) \<Rightarrow>
          (case get_grain_class cfg (grain_type g) of
             Inl e \<Rightarrow> (Some (Inl e), rt1)
           | Inr c \<Rightarrow>
               if m \<notin> set (get_grain_methods c)
               then (Some (Inl (raise_named ''GrainMethodError'' None)), rt1)
               else (case enqueue_call i m args kwargs rt1 of
                       (f, rt2) \<Rightarrow> await_call cfg now i f rt2)))"

subsection \<open>Remote calls\<close>

type_synonym 'w grain_rpc = "SiloAddress \<Rightarrow> bytes \<Rightarrow> bytes \<Rightarrow> 'w \<Rightarrow> bytes result \<times> 'w"

definition remote_exn :: "pystr \<Rightarrow> pystr \<Rightarrow> exn" where
  "remote_exn etype message = Exn (lit ''RemoteGrainException'') (etype @ lit '': '' @ message) None"

text \<open>\<open>None\<close> as transport is a runtime without one; \<open>'w\<close> is the rest of the cluster.\<close>

definition invoke_remote ::
  "('i, 'st) RuntimeConfig \<Rightarrow> 'w grain_rpc option \<Rightarrow> seconds \<Rightarrow> SiloAddress \<Rightarrow> GrainId \<Rightarrow> pystr \<Rightarrow> json list
   \<Rightarrow> (pystr \<times> json) list \<Rightarrow> ('i, 'st) GrainRuntime \<Rightarrow> 'w \<Rightarrow> (exn + json) \<times> ('i, 'st) GrainRuntime \<times> 'w" where
  "invoke_remote cfg send now owner g m args kwargs rt w =
     (case send of
        None \<Rightarrow> (Inl (raise_named ''RuntimeError'' None), rt, w)
      | Some s \<Rightarrow>
          let rt1 = rt\<lparr>next_call_id := next_call_id rt + 1\<rparr>;
              deadline = (if remote_call_timeout cfg > 0 then Some (now + remote_call_timeout cfg) else None);
              body = encode_request
                \<lparr>gc_grain = g, gc_method = m, gc_args = args, gc_kwargs = kwargs,
                 gc_caller_silo = Some (silo_id (local_silo cfg)), gc_call_id = next_call_id rt1,
                 gc_deadline = deadline\<rparr>
          in (case s owner GRAIN_CALL_HEADER body w of
                (Inl e, w') \<Rightarrow>
                  (Inl (if e = TransportTimeoutError then raise_named ''TimeoutError'' (Some (error_exn e))
                        else error_exn e), rt1, w')
              | (Inr resp_body, w') \<Rightarrow>
                  (case decode_response resp_body of
                     Inl e \<Rightarrow> (Inl (error_exn e), rt1, w')
                   | Inr (GrainCallSuccess r) \<Rightarrow> (Inr r, rt1, w')
                   | Inr (GrainCallFailure t msg tb) \<Rightarrow> (Inl (remote_exn t msg), rt1, w'))))"

subsection \<open>Invocation\<close>

text \<open>
  Resolve, call where the entry says, and once more after a lost connection, with the cached entry
  dropped by \<open>forget\<close> (which does nothing for a directory that is not a cache).
\<close>

definition invoke_at ::
  "('i, 'st) RuntimeConfig \<Rightarrow> 'w grain_rpc option \<Rightarrow> seconds \<Rightarrow> SiloAddress \<Rightarrow> GrainId \<Rightarrow> pystr \<Rightarrow> json list
   \<Rightarrow> (pystr \<times> json) list \<Rightarrow> ('i, 'st) GrainRuntime \<Rightarrow> 'w
   \<Rightarrow> (exn + json) option \<times> ('i, 'st) GrainRuntime \<times> 'w" where
  "invoke_at cfg send now owner g m args kwargs rt w =
     (if owner = local_silo cfg
      then (case invoke_local cfg now g m args kwargs rt of (r, rt') \<Rightarrow> (r, rt', w))
      else (case invoke_remote cfg send now owner g m args kwargs rt w of (r, rt', w') \<Rightarrow> (Some r, rt', w')))"

definition invoke ::
  "('i, 'st) RuntimeConfig \<Rightarrow> 'd IGrainDirectory \<Rightarrow> (GrainId \<Rightarrow> 'd \<Rightarrow> 'd) \<Rightarrow> picker \<Rightarrow> 'w grain_rpc option
   \<Rightarrow> seconds \<Rightarrow> GrainId \<Rightarrow> pystr \<Rightarrow> json list \<Rightarrow> (pystr \<times> json) list \<Rightarrow> ('i, 'st) GrainRuntime \<Rightarrow> 'd \<Rightarrow> 'w
   \<Rightarrow> (exn + json) option \<times> ('i, 'st) GrainRuntime \<times> 'd \<times> 'w" where
  "invoke cfg ops forget pick send now g m args kwargs rt d w =
     (case in_resolve ops pick g (Some (local_silo cfg)) d of
        (Inl e, d1) \<Rightarrow> (Some (Inl (error_exn e)), rt, d1, w)
      | (Inr entry, d1) \<Rightarrow>
          (case invoke_at cfg send now (entry_silo entry) g m args kwargs rt w of
             (r, rt1, w1) \<Rightarrow>
               if entry_silo entry \<noteq> local_silo cfg
                  \<and> (\<exists>x. r = Some (Inl x) \<and> exn_class x = lit ''TransportConnectionError'')
               then (case in_resolve ops pick g (Some (local_silo cfg)) (forget g d1) of
                       (Inl e, d2) \<Rightarrow> (Some (Inl (error_exn e)), rt1, d2, w1)
                     | (Inr retry_entry, d2) \<Rightarrow>
                         (case invoke_at cfg send now (entry_silo retry_entry) g m args kwargs rt1 w1 of
                            (r2, rt2, w2) \<Rightarrow> (r2, rt2, d2, w2)))
               else (r, rt1, d1, w1)))"

subsection \<open>Inbound grain calls\<close>

definition grain_response :: "TransportMessage \<Rightarrow> bytes \<Rightarrow> TransportMessage" where
  "grain_response msg body =
     \<lparr>message_type = RESPONSE, correlation_id = correlation_id msg, msg_header = GRAIN_CALL_HEADER,
      msg_body = body\<rparr>"

text \<open>The exception that crosses the wire: the cause of a \<^verbatim>\<open>GrainMethodError\<close> if it has one.\<close>

definition surfaced :: "exn \<Rightarrow> exn" where
  "surfaced e = (if exn_class e = lit ''GrainMethodError''
                 then (case exn_cause e of None \<Rightarrow> e | Some c \<Rightarrow> c) else e)"

definition failure_body :: "(exn \<Rightarrow> pystr) \<Rightarrow> exn \<Rightarrow> bytes" where
  "failure_body tb e =
     (case format_exception_for_wire tb e of (t, m, trace) \<Rightarrow> encode_failure t m (Some trace))"

text \<open>
  \<open>None\<close> for a message of another kind; \<open>Inl\<close> for an exception that escapes; a response that
  never comes is \<open>Inr None\<close> with the call still pending. Python's rendering of a traceback
  \<open>tb\<close> and of a decoding error \<open>decode_text\<close> are parameters.
\<close>

definition handle_grain_call ::
  "('i, 'st) RuntimeConfig \<Rightarrow> (exn \<Rightarrow> pystr) \<Rightarrow> (bytes \<Rightarrow> pystr) \<Rightarrow> seconds \<Rightarrow> TransportMessage \<Rightarrow> ('i, 'st) GrainRuntime
   \<Rightarrow> TransportMessage option result \<times> ('i, 'st) GrainRuntime" where
  "handle_grain_call cfg tb decode_text now msg rt =
     (if msg_header msg \<noteq> GRAIN_CALL_HEADER \<or> message_type msg \<noteq> REQUEST then (Inr None, rt)
      else
        (case decode_request (msg_body msg) of
           Inl e \<Rightarrow>
             if is_value_error e
             then (Inr (Some (grain_response msg
                    (encode_failure (lit ''ValueError'') (lit ''malformed body: '' @ decode_text (msg_body msg)) None))), rt)
             else (Inl e, rt)
         | Inr req \<Rightarrow>
             if (case gc_deadline req of None \<Rightarrow> False | Some t \<Rightarrow> now \<ge> t)
             then (Inr (Some (grain_response msg (encode_failure (lit ''TimeoutError'')
                    (lit ''deadline expired before handler ran'') None))), rt)
             else
               (case get_grain_class cfg (grain_type (gc_grain req)) of
                  Inl x \<Rightarrow> (Inr (Some (grain_response msg (failure_body tb x))), rt)
                | Inr _ \<Rightarrow>
                    (case invoke_local cfg now (gc_grain req) (gc_method req) (gc_args req) (gc_kwargs req) rt of
                       (None, rt') \<Rightarrow> (Inr None, rt')
                     | (Some (Inr r), rt') \<Rightarrow> (Inr (Some (grain_response msg (encode_success r))), rt')
                     | (Some (Inl x), rt') \<Rightarrow>
                         (Inr (Some (grain_response msg (failure_body tb (surfaced x)))), rt')))))"

subsection \<open>Deactivation\<close>

text \<open>
  \<^verbatim>\<open>on_deactivate\<close> runs in the task of the deactivation, not through the inbox; the worker
  then drains up to the sentinel, or is cancelled when \<open>in_time\<close> is false.
\<close>

definition run_on_deactivate ::
  "('i, 'st) RuntimeConfig \<Rightarrow> nat \<Rightarrow> ('i, 'st) GrainRuntime \<Rightarrow> ('i, 'st) GrainRuntime" where
  "run_on_deactivate cfg i rt =
     (let act = objects rt ! i; t = grain_type (act_grain act)
      in if (case registry cfg t of None \<Rightarrow> False | Some c \<Rightarrow> has_member c (lit ''on_deactivate''))
         then (case bodies cfg t (lit ''on_deactivate'') [] [] (act, store rt) of
                 (_, act', st') \<Rightarrow> rt\<lparr>objects := (objects rt)[i := act'], store := st'\<rparr>)
         else rt)"

definition stop_worker ::
  "('i, 'st) RuntimeConfig \<Rightarrow> seconds \<Rightarrow> bool \<Rightarrow> nat \<Rightarrow> ('i, 'st) GrainRuntime \<Rightarrow> ('i, 'st) GrainRuntime" where
  "stop_worker cfg now in_time i rt =
     (let rt1 = put_item i Sentinel rt
      in if in_time then worker_run cfg now (length (inbox (objects rt1 ! i))) i rt1
         else rt1\<lparr>objects := (objects rt1)[i := (objects rt1 ! i)\<lparr>worker_running := False\<rparr>]\<rparr>)"

definition deactivate_grain ::
  "('i, 'st) RuntimeConfig \<Rightarrow> 'd IGrainDirectory \<Rightarrow> seconds \<Rightarrow> bool \<Rightarrow> GrainId
   \<Rightarrow> ('i, 'st) GrainRuntime \<Rightarrow> 'd \<Rightarrow> unit result \<times> ('i, 'st) GrainRuntime \<times> 'd" where
  "deactivate_grain cfg ops now in_time g rt d =
     (case dget (activations rt) g of
        None \<Rightarrow> (Inr (), rt, d)
      | Some i \<Rightarrow>
          let rt1 = stop_worker cfg now in_time i (run_on_deactivate cfg i rt);
              rt2 = rt1\<lparr>activations := dpop (activations rt1) g\<rparr>
          in (case in_unregister ops g (local_silo cfg) d of (r, d') \<Rightarrow> (r, rt2, d')))"

fun deactivate_all ::
  "('i, 'st) RuntimeConfig \<Rightarrow> 'd IGrainDirectory \<Rightarrow> seconds \<Rightarrow> bool \<Rightarrow> GrainId list
   \<Rightarrow> ('i, 'st) GrainRuntime \<Rightarrow> 'd \<Rightarrow> unit result \<times> ('i, 'st) GrainRuntime \<times> 'd" where
  "deactivate_all cfg ops now in_time [] rt d = (Inr (), rt, d)"
| "deactivate_all cfg ops now in_time (g # gs) rt d =
     (case deactivate_grain cfg ops now in_time g rt d of
        (Inl e, rt', d') \<Rightarrow> (Inl e, rt', d')
      | (Inr _, rt', d') \<Rightarrow> deactivate_all cfg ops now in_time gs rt' d')"

definition runtime_stop ::
  "('i, 'st) RuntimeConfig \<Rightarrow> 'd IGrainDirectory \<Rightarrow> seconds \<Rightarrow> bool
   \<Rightarrow> ('i, 'st) GrainRuntime \<Rightarrow> 'd \<Rightarrow> unit result \<times> ('i, 'st) GrainRuntime \<times> 'd" where
  "runtime_stop cfg ops now in_time rt d =
     deactivate_all cfg ops now in_time (map fst (activations rt)) rt d"

definition idle_collector_single_pass ::
  "('i, 'st) RuntimeConfig \<Rightarrow> 'd IGrainDirectory \<Rightarrow> seconds \<Rightarrow> bool
   \<Rightarrow> ('i, 'st) GrainRuntime \<Rightarrow> 'd \<Rightarrow> unit result \<times> ('i, 'st) GrainRuntime \<times> 'd" where
  "idle_collector_single_pass cfg ops now in_time rt d =
     deactivate_all cfg ops now in_time
       (map fst (filter (\<lambda>(g, i). now - last_activity (objects rt ! i) > idle_timeout cfg) (activations rt))) rt d"

end
