(* ===== verification/RuntimeTurns.thy ===== *)
theory RuntimeTurns
  imports Runtime
begin

text \<open>
  Turn-based execution: what the worker of an activation does with the calls in its inbox, and what
  a call of a local or remote caller gets.
\<close>

subsection \<open>Method bodies\<close>

text \<open>
  A body works on the state of its grain, its etag and the storage; the inbox and the worker belong
  to the runtime.
\<close>

definition framed :: "('i, 'st) RuntimeConfig \<Rightarrow> bool" where
  "framed cfg \<longleftrightarrow>
     (\<forall>t m args kwargs. \<exists>sem. \<forall>act st. bodies cfg t m args kwargs (act, st) =
        (case sem (act_grain act) (inst_state act) (act_etag act) st of
           (r, s, e, st') \<Rightarrow> (r, act\<lparr>inst_state := s, act_etag := e\<rparr>, st')))"

definition same_core :: "'i GrainActivation \<Rightarrow> 'i GrainActivation \<Rightarrow> bool" where
  "same_core a b \<longleftrightarrow> act_grain a = act_grain b \<and> inst_state a = inst_state b \<and> act_etag a = act_etag b"

lemma same_core_refl [simp]: "same_core a a"
  by (simp add: same_core_def)

lemma framedE:
  assumes "framed cfg" "same_core a b"
  obtains r s e st' where
    "bodies cfg t m args kwargs (a, st) = (r, a\<lparr>inst_state := s, act_etag := e\<rparr>, st')"
    "bodies cfg t m args kwargs (b, st) = (r, b\<lparr>inst_state := s, act_etag := e\<rparr>, st')"
proof -
  from assms(1) obtain sem where sem: "\<And>act st. bodies cfg t m args kwargs (act, st) =
      (case sem (act_grain act) (inst_state act) (act_etag act) st of
         (r, s, e, st') \<Rightarrow> (r, act\<lparr>inst_state := s, act_etag := e\<rparr>, st'))"
    unfolding framed_def by blast
  obtain r s e st' where "sem (act_grain a) (inst_state a) (act_etag a) st = (r, s, e, st')"
    by (metis prod_cases4)
  with assms(2) show ?thesis by (intro that) (simp_all add: sem same_core_def)
qed

text \<open>The calls of an inbox executed one after the other, each to its end.\<close>

fun turns ::
  "('i, 'st) RuntimeConfig \<Rightarrow> inbox_item list \<Rightarrow> 'i GrainActivation \<times> 'st
   \<Rightarrow> call_future list \<times> 'i GrainActivation \<times> 'st" where
  "turns cfg (MethodCall m args kwargs f # cs) (act, st) =
     (case bodies cfg (grain_type (act_grain act)) m args kwargs (act, st) of
        (r, act', st') \<Rightarrow>
          (case turns cfg cs (act', st') of
             (rs, w) \<Rightarrow> (call_outcome (grain_type (act_grain act)) m r # rs, w)))"
| "turns cfg _ w = ([], w)"

abbreviation is_call :: "inbox_item \<Rightarrow> bool" where
  "is_call item \<equiv> item \<noteq> Sentinel"

subsection \<open>The worker\<close>

lemma settle_length [simp]: "length (settle_future f r fs) = length fs"
  by (simp add: settle_future_def)

lemma settle_other: "g \<noteq> f \<Longrightarrow> settle_future f r fs ! g = fs ! g"
  by (simp add: settle_future_def)

lemma settle_this: "f < length fs \<Longrightarrow> fs ! f = Unset \<Longrightarrow> settle_future f r fs ! f = r"
  by (simp add: settle_future_def)

lemma settle_set: "fs ! g \<noteq> Unset \<Longrightarrow> settle_future f r fs ! g = fs ! g"
  by (cases "f = g") (auto simp: settle_future_def)

lemma worker_stopped: "\<not> worker_running (objects rt ! i) \<Longrightarrow> worker_run cfg now n i rt = rt"
  by (induction n) (simp_all add: worker_step_def Let_def)

lemma worker_idle: "inbox (objects rt ! i) = [] \<Longrightarrow> worker_run cfg now n i rt = rt"
  by (induction n) (simp_all add: worker_step_def Let_def)

lemma worker_run_add: "worker_run cfg now (a + b) i rt = worker_run cfg now b i (worker_run cfg now a i rt)"
  by (induction a arbitrary: rt) simp_all

lemma worker_step_call:
  assumes "framed cfg" "i < length (objects rt)" "worker_running (objects rt ! i)"
    "inbox (objects rt ! i) = MethodCall m args kwargs f # rest" "same_core a (objects rt ! i)"
  obtains r a' st' act' where
    "bodies cfg (grain_type (act_grain a)) m args kwargs (a, store rt) = (r, a', st')"
    "same_core a' act'" "inbox act' = rest" "worker_running act'" "act_grain act' = act_grain a"
    "last_activity act' = now" "act_grain a' = act_grain a"
    "worker_step cfg now i rt = rt\<lparr>objects := (objects rt)[i := act'], store := st',
       futs := settle_future f (call_outcome (grain_type (act_grain a)) m r) (futs rt)\<rparr>"
proof -
  let ?o = "(objects rt ! i)\<lparr>inbox := rest, last_activity := now\<rparr>"
  have core: "same_core a ?o" using assms(5) by (simp add: same_core_def)
  from framedE [OF assms(1) core, of "grain_type (act_grain a)" m args kwargs "store rt"] obtain r s e st'
    where b: "bodies cfg (grain_type (act_grain a)) m args kwargs (a, store rt)
        = (r, a\<lparr>inst_state := s, act_etag := e\<rparr>, st')"
      "bodies cfg (grain_type (act_grain a)) m args kwargs (?o, store rt)
        = (r, ?o\<lparr>inst_state := s, act_etag := e\<rparr>, st')" .
  show ?thesis
  proof (rule that [of r "a\<lparr>inst_state := s, act_etag := e\<rparr>" st' "?o\<lparr>inst_state := s, act_etag := e\<rparr>"])
    have g: "act_grain (objects rt ! i) = act_grain a" using assms(5) by (simp add: same_core_def)
    show "worker_step cfg now i rt = rt\<lparr>objects := (objects rt)[i := ?o\<lparr>inst_state := s, act_etag := e\<rparr>],
        store := st', futs := settle_future f (call_outcome (grain_type (act_grain a)) m r) (futs rt)\<rparr>"
      using b(2) assms(2-4) by (simp add: worker_step_def g Let_def)
  qed (use b(1) assms(3,5) in \<open>auto simp: same_core_def\<close>)
qed

lemma worker_run_calls:
  assumes "framed cfg" "i < length (objects rt)" "worker_running (objects rt ! i)"
    "inbox (objects rt ! i) = calls @ rest" "Sentinel \<notin> set calls" "distinct (map call_future calls)"
    "\<forall>c \<in> set calls. call_future c < length (futs rt)"
    "same_core a (objects rt ! i)" "turns cfg calls (a, store rt) = (rs, a', st')"
  shows "let rt' = worker_run cfg now (length calls) i rt in
    (\<forall>k < length calls. futs rt' ! call_future (calls ! k) =
       (if futs rt ! call_future (calls ! k) = Unset then rs ! k else futs rt ! call_future (calls ! k)))
    \<and> (\<forall>f. f \<notin> call_future ` set calls \<longrightarrow> futs rt' ! f = futs rt ! f)
    \<and> length (futs rt') = length (futs rt)
    \<and> same_core a' (objects rt' ! i) \<and> inbox (objects rt' ! i) = rest \<and> worker_running (objects rt' ! i)
    \<and> store rt' = st' \<and> activations rt' = activations rt \<and> next_call_id rt' = next_call_id rt
    \<and> length (objects rt') = length (objects rt) \<and> (\<forall>j. j \<noteq> i \<longrightarrow> objects rt' ! j = objects rt ! j)
    \<and> length rs = length calls \<and> act_grain a' = act_grain a"
  using assms(2-)
proof (induction calls arbitrary: rt a rs)
  case Nil
  then show ?case by (simp add: Let_def)
next
  case (Cons c cs)
  then obtain m args kwargs f where c: "c = MethodCall m args kwargs f" by (cases c) auto
  have ib: "inbox (objects rt ! i) = MethodCall m args kwargs f # (cs @ rest)" using Cons.prems(3) c by simp
  from worker_step_call [OF assms(1) Cons.prems(1,2) ib Cons.prems(7), of now] obtain r a1 st1 act1 where
    s: "bodies cfg (grain_type (act_grain a)) m args kwargs (a, store rt) = (r, a1, st1)"
      "same_core a1 act1" "inbox act1 = cs @ rest" "worker_running act1" "act_grain act1 = act_grain a"
      "act_grain a1 = act_grain a"
      "worker_step cfg now i rt = rt\<lparr>objects := (objects rt)[i := act1], store := st1,
         futs := settle_future f (call_outcome (grain_type (act_grain a)) m r) (futs rt)\<rparr>" by metis
  let ?rt1 = "worker_step cfg now i rt"
  obtain rs1 where t: "turns cfg cs (a1, store ?rt1) = (rs1, a', st')"
    "rs = call_outcome (grain_type (act_grain a)) m r # rs1"
    using Cons.prems(8) s(1,7) c by (simp split: prod.splits)
  have fresh: "f \<notin> call_future ` set cs" using Cons.prems(5) c by simp
  have same: "futs ?rt1 ! call_future d = futs rt ! call_future d" if "d \<in> set cs" for d
    using fresh that by (simp add: s(7)) (metis image_eqI settle_other)
  have f: "futs ?rt1 ! f = (if futs rt ! f = Unset then call_outcome (grain_type (act_grain a)) m r else futs rt ! f)"
    using Cons.prems(6) c by (simp add: s(7) settle_this settle_set)
  have o1: "objects ?rt1 = (objects rt)[i := act1]" by (simp add: s(7))
  note IH = Cons.IH [of ?rt1 a1 rs1]
  have "let rt' = worker_run cfg now (length cs) i ?rt1 in
    (\<forall>k < length cs. futs rt' ! call_future (cs ! k) =
       (if futs ?rt1 ! call_future (cs ! k) = Unset then rs1 ! k else futs ?rt1 ! call_future (cs ! k)))
    \<and> (\<forall>f. f \<notin> call_future ` set cs \<longrightarrow> futs rt' ! f = futs ?rt1 ! f)
    \<and> length (futs rt') = length (futs ?rt1)
    \<and> same_core a' (objects rt' ! i) \<and> inbox (objects rt' ! i) = rest \<and> worker_running (objects rt' ! i)
    \<and> store rt' = st' \<and> activations rt' = activations ?rt1 \<and> next_call_id rt' = next_call_id ?rt1
    \<and> length (objects rt') = length (objects ?rt1) \<and> (\<forall>j. j \<noteq> i \<longrightarrow> objects rt' ! j = objects ?rt1 ! j)
    \<and> length rs1 = length cs \<and> act_grain a' = act_grain a1"
    by (rule IH) (use Cons.prems s t(1) o1 in \<open>simp_all\<close>)
  then show ?case
    using fresh f Cons.prems(1) s(6) o1 same
    by (auto simp: Let_def t(2) c less_Suc_eq_0_disj s(7) settle_other simp del: worker_run.simps(1))
qed

subsection \<open>Well-formed runtimes\<close>

definition queued :: "'i GrainActivation \<Rightarrow> nat list" where
  "queued act = map call_future (filter is_call (inbox act))"

text \<open>Activations are filed under their grain and their workers run; a queued call waits for its own future.\<close>

definition rt_ok :: "('i, 'st) GrainRuntime \<Rightarrow> bool" where
  "rt_ok rt \<longleftrightarrow>
     dict_ok (activations rt)
     \<and> (\<forall>g i. dget (activations rt) g = Some i \<longrightarrow> i < length (objects rt)
          \<and> act_grain (objects rt ! i) = g \<and> worker_running (objects rt ! i)
          \<and> Sentinel \<notin> set (inbox (objects rt ! i)))
     \<and> (\<forall>i < length (objects rt). distinct (queued (objects rt ! i))
          \<and> (\<forall>f \<in> set (queued (objects rt ! i)). f < length (futs rt) \<and> futs rt ! f \<in> {Unset, Abandoned})
          \<and> (\<forall>j < length (objects rt). i \<noteq> j \<longrightarrow> set (queued (objects rt ! i)) \<inter> set (queued (objects rt ! j)) = {}))"

lemma rt_okD:
  assumes "rt_ok rt"
  shows "dict_ok (activations rt)"
    and "dget (activations rt) g = Some i \<Longrightarrow> i < length (objects rt) \<and> act_grain (objects rt ! i) = g
      \<and> worker_running (objects rt ! i) \<and> Sentinel \<notin> set (inbox (objects rt ! i))"
    and "i < length (objects rt) \<Longrightarrow> distinct (queued (objects rt ! i))"
    and "i < length (objects rt) \<Longrightarrow> f \<in> set (queued (objects rt ! i)) \<Longrightarrow>
      f < length (futs rt) \<and> futs rt ! f \<in> {Unset, Abandoned}"
    and "i < length (objects rt) \<Longrightarrow> j < length (objects rt) \<Longrightarrow> i \<noteq> j \<Longrightarrow>
      set (queued (objects rt ! i)) \<inter> set (queued (objects rt ! j)) = {}"
  using assms by (auto simp: rt_ok_def)

lemma queued_simps [simp]:
  "queued (act\<lparr>inbox := Sentinel # rest\<rparr>) = queued (act\<lparr>inbox := rest\<rparr>)"
  "queued (act\<lparr>worker_running := b\<rparr>) = queued act"
  "queued (act\<lparr>inbox := xs @ [Sentinel]\<rparr>) = queued (act\<lparr>inbox := xs\<rparr>)"
  by (simp_all add: queued_def)

text \<open>An object may change its own fields, drop queued calls and settle those futures, and only those.\<close>

lemma rt_ok_object:
  assumes "rt_ok rt" "i < length (objects rt)" "act_grain act' = act_grain (objects rt ! i)"
    "worker_running act' \<or> i \<notin> ran (dget (activations rt))"
    "Sentinel \<notin> set (inbox act') \<or> i \<notin> ran (dget (activations rt))"
    "distinct (queued act')" "set (queued act') \<subseteq> set (queued (objects rt ! i))" "length fs = length (futs rt)"
    "\<forall>f. fs ! f \<noteq> futs rt ! f \<longrightarrow> f \<in> set (queued (objects rt ! i)) \<and> f \<notin> set (queued act')"
  shows "rt_ok (rt\<lparr>objects := (objects rt)[i := act'], store := st', futs := fs\<rparr>)"
proof -
  let ?rt = "rt\<lparr>objects := (objects rt)[i := act'], store := st', futs := fs\<rparr>"
  have q: "set (queued (objects ?rt ! j)) \<subseteq> set (queued (objects rt ! j))" for j
    using assms(2,7) by (cases "i = j") auto
  have fut: "f < length fs \<and> fs ! f \<in> {Unset, Abandoned}"
    if "j < length (objects rt)" "f \<in> set (queued (objects ?rt ! j))" for j f
  proof -
    have old: "f < length (futs rt) \<and> futs rt ! f \<in> {Unset, Abandoned}"
      using rt_okD(4) [OF assms(1) that(1)] that(2) q by blast
    have "fs ! f = futs rt ! f"
    proof (rule ccontr)
      assume "fs ! f \<noteq> futs rt ! f"
      with assms(9) have i: "f \<in> set (queued (objects rt ! i))" "f \<notin> set (queued act')" by auto
      with that assms(2) have "j \<noteq> i" by (cases "j = i") auto
      with rt_okD(5) [OF assms(1,2) that(1)] i(1) that(2) q show False by blast
    qed
    with old assms(8) show ?thesis by simp
  qed
  have disj: "set (queued (objects ?rt ! j)) \<inter> set (queued (objects ?rt ! k)) = {}"
    if "j < length (objects rt)" "k < length (objects rt)" "j \<noteq> k" for j k
    using rt_okD(5) [OF assms(1) that] q [of j] q [of k] by blast
  have dist: "distinct (queued (objects ?rt ! j))" if "j < length (objects rt)" for j
    using rt_okD(3) [OF assms(1) that] assms(2,6) by (cases "i = j") auto
  have tab: "j < length (objects ?rt) \<and> act_grain (objects ?rt ! j) = g \<and> worker_running (objects ?rt ! j)
      \<and> Sentinel \<notin> set (inbox (objects ?rt ! j))" if "dget (activations rt) g = Some j" for g j
    using rt_okD(2) [OF assms(1) that] that assms(2-5) by (cases "i = j") (auto intro: ranI)
  show ?thesis
    unfolding rt_ok_def using rt_okD(1) [OF assms(1)] tab fut disj dist by auto
qed

lemma rt_ok_table:
  assumes "rt_ok rt" "dict_ok tab" "\<forall>g i. dget tab g = Some i \<longrightarrow> dget (activations rt) g = Some i"
  shows "rt_ok (rt\<lparr>activations := tab\<rparr>)"
  using assms unfolding rt_ok_def by auto

lemma rt_ok_more [simp]: "rt_ok (rt\<lparr>next_call_id := n\<rparr>) = rt_ok rt" "rt_ok (rt\<lparr>store := st\<rparr>) = rt_ok rt"
  by (simp_all add: rt_ok_def)

lemma worker_step_ok:
  assumes "framed cfg" "rt_ok rt"
  shows "rt_ok (worker_step cfg now i rt)"
proof (cases "i < length (objects rt) \<and> worker_running (objects rt ! i) \<and> inbox (objects rt ! i) \<noteq> []")
  case False
  then show ?thesis using assms(2) by (auto simp: worker_step_def Let_def)
next
  case True
  then obtain item rest where ib: "inbox (objects rt ! i) = item # rest" by (cases "inbox (objects rt ! i)") auto
  show ?thesis
  proof (cases item)
    case Sentinel
    let ?act = "(objects rt ! i)\<lparr>inbox := rest, worker_running := False\<rparr>"
    have free: "i \<notin> ran (dget (activations rt))"
      using rt_okD(2) [OF assms(2)] ib Sentinel by (fastforce simp: ran_def)
    have q: "queued (objects rt ! i) = queued ?act" using ib Sentinel by (simp add: queued_def)
    have "rt_ok (rt\<lparr>objects := (objects rt)[i := ?act], store := store rt, futs := futs rt\<rparr>)"
      by (rule rt_ok_object) (use True free q rt_okD(3) [OF assms(2), of i] assms(2) in auto)
    then show ?thesis using True ib Sentinel by (simp add: worker_step_def Let_def)
  next
    case (MethodCall m args kwargs f)
    from worker_step_call [OF assms(1) _ _ _ same_core_refl, of i rt m args kwargs f rest now] True ib MethodCall
    obtain r a' st' act' where s: "same_core a' act'" "inbox act' = rest" "worker_running act'"
      "act_grain act' = act_grain (objects rt ! i)"
      "worker_step cfg now i rt = rt\<lparr>objects := (objects rt)[i := act'], store := st',
         futs := settle_future f (call_outcome (grain_type (act_grain (objects rt ! i))) m r) (futs rt)\<rparr>"
      by metis
    have q: "queued (objects rt ! i) = f # queued act'" using ib MethodCall s(2) by (simp add: queued_def)
    show ?thesis
      unfolding s(5)
    proof (rule rt_ok_object)
      show "Sentinel \<notin> set (inbox act') \<or> i \<notin> ran (dget (activations rt))"
        using rt_okD(2) [OF assms(2)] ib s(2) by (fastforce simp: ran_def)
      show "\<forall>g. settle_future f (call_outcome (grain_type (act_grain (objects rt ! i))) m r) (futs rt) ! g \<noteq> futs rt ! g
          \<longrightarrow> g \<in> set (queued (objects rt ! i)) \<and> g \<notin> set (queued act')"
        using q rt_okD(3) [OF assms(2), of i] True settle_other by (metis distinct.simps(2) list.set_intros(1))
    qed (use True q s rt_okD(3) [OF assms(2), of i] assms(2) in auto)
  qed
qed

lemma worker_run_ok: "framed cfg \<Longrightarrow> rt_ok rt \<Longrightarrow> rt_ok (worker_run cfg now n i rt)"
  by (induction n arbitrary: rt) (simp_all add: worker_step_ok)

lemma enqueue_ok:
  assumes "rt_ok rt" "i < length (objects rt)"
  shows "rt_ok (snd (enqueue_call i m args kwargs rt))"
proof -
  let ?f = "length (futs rt)" and ?rt = "snd (enqueue_call i m args kwargs rt)"
  have q: "queued (objects ?rt ! j) = queued (objects rt ! j) @ (if j = i then [?f] else [])" for j
    using assms(2) by (auto simp: enqueue_call_def put_item_def Let_def queued_def)
  have new: "?f \<notin> set (queued (objects rt ! j))" if "j < length (objects rt)" for j
    using rt_okD(4) [OF assms(1) that, of ?f] by blast
  have *: "length (objects ?rt) = length (objects rt)" "activations ?rt = activations rt"
    "futs ?rt = futs rt @ [Unset]"
    by (simp_all add: enqueue_call_def put_item_def Let_def)
  have act: "act_grain (objects ?rt ! j) = act_grain (objects rt ! j)"
    "worker_running (objects ?rt ! j) = worker_running (objects rt ! j)"
    "Sentinel \<in> set (inbox (objects ?rt ! j)) \<longleftrightarrow> Sentinel \<in> set (inbox (objects rt ! j))" for j
    using assms(2) by (cases "i = j"; simp add: enqueue_call_def put_item_def Let_def)+
  have fut: "f < length (futs ?rt) \<and> futs ?rt ! f \<in> {Unset, Abandoned}"
    if "j < length (objects rt)" "f \<in> set (queued (objects ?rt ! j))" for j f
    using rt_okD(4) [OF assms(1) that(1), of f] that(2) by (auto simp: q * nth_append split: if_split_asm)
  have disj: "set (queued (objects ?rt ! j)) \<inter> set (queued (objects ?rt ! k)) = {}"
    if "j < length (objects rt)" "k < length (objects rt)" "j \<noteq> k" for j k
    using rt_okD(5) [OF assms(1) that] new [OF that(1)] new [OF that(2)] that(3) by (auto simp: q)
  show ?thesis
    unfolding rt_ok_def * act using rt_okD [OF assms(1)] new fut disj q by (auto simp: q *)
qed

lemma install_ok:
  assumes "rt_ok rt" "inbox act = []"
  shows "rt_ok (snd (install_activation act rt))"
proof -
  let ?rt = "snd (install_activation act rt)" and ?n = "length (objects rt)"
  have obj: "objects ?rt ! j = (if j = ?n then act\<lparr>worker_running := True\<rparr> else objects rt ! j)"
    if "j < Suc ?n" for j
    using that by (simp add: install_activation_def Let_def nth_append)
  have *: "length (objects ?rt) = Suc ?n" "activations ?rt = dset (activations rt) (act_grain act) ?n"
    "futs ?rt = futs rt"
    by (simp_all add: install_activation_def Let_def)
  have q: "queued act = []" using assms(2) by (simp add: queued_def)
  have tab: "j < Suc ?n \<and> act_grain (objects ?rt ! j) = g \<and> worker_running (objects ?rt ! j)
      \<and> Sentinel \<notin> set (inbox (objects ?rt ! j))"
    if "dget (dset (activations rt) (act_grain act) ?n) g = Some j" for g j
    using that rt_okD(2) [OF assms(1), of g j] assms(2) by (auto simp: obj split: if_split_asm)
  have rest: "distinct (queued (objects ?rt ! j))
      \<and> (\<forall>f \<in> set (queued (objects ?rt ! j)). f < length (futs rt) \<and> futs rt ! f \<in> {Unset, Abandoned})
      \<and> (\<forall>k < Suc ?n. j \<noteq> k \<longrightarrow> set (queued (objects ?rt ! j)) \<inter> set (queued (objects ?rt ! k)) = {})"
    if "j < Suc ?n" for j
    using that rt_okD(3-5) [OF assms(1), of j] q by (auto simp: obj less_Suc_eq)
  show ?thesis
    unfolding rt_ok_def * using rt_okD(1) [OF assms(1)] tab rest by blast
qed

subsection \<open>Calls that are awaited\<close>

definition as_result :: "call_future \<Rightarrow> exn + json" where
  "as_result r = (case r of Raised e \<Rightarrow> Inl e | Returned v \<Rightarrow> Inr v | _ \<Rightarrow> Inr JNull)"

lemma as_result_outcome [simp]:
  "as_result (call_outcome t m (Inr v)) = Inr v" "as_result (call_outcome t m (Inl e)) = Inl (method_error t m e)"
  by (simp_all add: as_result_def call_outcome_def)

lemma turns_append:
  "Sentinel \<notin> set xs \<Longrightarrow> turns cfg (xs @ ys) w =
     (case turns cfg xs w of (rs, w') \<Rightarrow> case turns cfg ys w' of (rs', w'') \<Rightarrow> (rs @ rs', w''))"
proof (induction xs arbitrary: w)
  case (Cons x xs)
  then show ?case by (cases x; cases w) (auto split: prod.splits)
qed (cases w; simp split: prod.splits)

lemma turns_settle: "turns cfg cs w = (rs, w') \<Longrightarrow> r \<in> set rs \<Longrightarrow> r \<in> range Returned \<union> range Raised"
proof (induction cfg cs w arbitrary: rs w' rule: turns.induct)
  case (1 cfg m args kwargs f cs act st)
  then show ?case by (auto simp: call_outcome_def split: prod.splits sum.splits)
qed auto

text \<open>Everything queued before a call runs before it; the caller gets the outcome of its own turn.\<close>

lemma await_enqueued:
  assumes "framed cfg" "rt_ok rt" "dget (activations rt) g = Some i" "enqueue_call i m args kwargs rt = (f, rt1)"
    "turns cfg (inbox (objects rt ! i) @ [MethodCall m args kwargs f]) (objects rt ! i, store rt) = (rs, a', st')"
  obtains rt2 where "await_call cfg now i f rt1 = (Some (as_result (last rs)), rt2)" "rt_ok rt2"
    "store rt2 = st'" "same_core a' (objects rt2 ! i)" "inbox (objects rt2 ! i) = []"
    "activations rt2 = activations rt" "length (objects rt2) = length (objects rt)"
    "\<forall>j. j \<noteq> i \<longrightarrow> objects rt2 ! j = objects rt ! j"
proof -
  let ?calls = "inbox (objects rt ! i) @ [MethodCall m args kwargs f]"
  let ?rt2 = "worker_run cfg now (length ?calls) i rt1"
  note tab = rt_okD(2) [OF assms(2,3)]
  have f: "f = length (futs rt)" and rt1: "rt1 = snd (enqueue_call i m args kwargs rt)"
    using assms(4) by (auto simp: enqueue_call_def Let_def)
  have ok1: "rt_ok rt1" using enqueue_ok [OF assms(2)] tab by (simp add: rt1)
  have o: "length (objects rt1) = length (objects rt)" "objects rt1 ! i = (objects rt ! i)\<lparr>inbox := ?calls\<rparr>"
    "futs rt1 = futs rt @ [Unset]" "activations rt1 = activations rt" "store rt1 = store rt"
    "\<forall>j. j \<noteq> i \<longrightarrow> objects rt1 ! j = objects rt ! j"
    using tab by (auto simp: rt1 enqueue_call_def put_item_def Let_def f)
  have "filter is_call (inbox (objects rt ! i)) = inbox (objects rt ! i)"
    using tab by (auto simp: filter_id_conv)
  then have q: "call_future ` set (inbox (objects rt ! i)) = set (queued (objects rt ! i))"
    "distinct (map call_future (inbox (objects rt ! i)))"
    using tab rt_okD(3) [OF assms(2), of i] by (simp_all add: queued_def)
  have dist: "distinct (map call_future ?calls)"
    using q rt_okD(4) [OF assms(2), of i f] tab f by auto
  have len: "\<forall>c \<in> set ?calls. call_future c < length (futs rt1)"
    using q(1) rt_okD(4) [OF assms(2), of i] tab f o(3) by fastforce
  have run: "let rt' = ?rt2 in
    (\<forall>k < length ?calls. futs rt' ! call_future (?calls ! k) =
       (if futs rt1 ! call_future (?calls ! k) = Unset then rs ! k else futs rt1 ! call_future (?calls ! k)))
    \<and> (\<forall>f. f \<notin> call_future ` set ?calls \<longrightarrow> futs rt' ! f = futs rt1 ! f)
    \<and> length (futs rt') = length (futs rt1)
    \<and> same_core a' (objects rt' ! i) \<and> inbox (objects rt' ! i) = [] \<and> worker_running (objects rt' ! i)
    \<and> store rt' = st' \<and> activations rt' = activations rt1 \<and> next_call_id rt' = next_call_id rt1
    \<and> length (objects rt') = length (objects rt1) \<and> (\<forall>j. j \<noteq> i \<longrightarrow> objects rt' ! j = objects rt1 ! j)
    \<and> length rs = length ?calls \<and> act_grain a' = act_grain (objects rt ! i)"
    by (rule worker_run_calls [where a = "objects rt ! i"])
      (use assms(1,5) tab dist len o in \<open>auto simp: same_core_def\<close>)
  have mine: "futs ?rt2 ! f = last rs"
  proof -
    have "length rs = length ?calls" using run by (simp add: Let_def)
    then have "last rs = rs ! length (inbox (objects rt ! i))" by (cases rs rule: rev_cases) (auto simp: nth_append)
    moreover have "futs rt1 ! f = Unset" by (simp add: o(3) f)
    ultimately show ?thesis
      using run [unfolded Let_def, THEN conjunct1, rule_format, of "length (inbox (objects rt ! i))"] by simp
  qed
  have "last rs \<in> range Returned \<union> range Raised"
    using turns_settle [OF assms(5), of "last rs"] run by (cases rs rule: rev_cases) (auto simp: Let_def)
  then have "await_call cfg now i f rt1 = (Some (as_result (last rs)), ?rt2)"
    using mine o(2) by (auto simp: await_call_def Let_def as_result_def simp del: worker_run.simps)
  moreover have "rt_ok ?rt2" by (rule worker_run_ok [OF assms(1) ok1])
  ultimately show ?thesis using run o by (intro that [of ?rt2]) (simp_all add: Let_def del: worker_run.simps)
qed

lemma load_state_keeps:
  "load_state cfg c st act = Inr act' \<Longrightarrow> inbox act' = inbox act \<and> act_grain act' = act_grain act"
  by (auto simp: load_state_def split: option.splits sum.splits prod.splits)

lemma prepared:
  "prepare_activation cfg now g st = Inr act \<Longrightarrow> inbox act = [] \<and> act_grain act = g"
  by (auto simp: prepare_activation_def dest!: load_state_keeps split: sum.splits)

lemma installed:
  assumes "rt_ok rt" "prepare_activation cfg now g st = Inr act" "install_activation act rt = (i, rt1)"
  shows "rt_ok rt1 \<and> dget (activations rt1) g = Some i \<and> i = length (objects rt)
    \<and> objects rt1 ! i = act\<lparr>worker_running := True\<rparr>"
  using install_ok [OF assms(1), of act] prepared [OF assms(2)] assms(3)
  by (auto simp: install_activation_def Let_def)

lemma call_settles:
  assumes "framed cfg" "rt_ok rt" "dget (activations rt) g = Some i" "enqueue_call i m args kwargs rt = (f, rt1)"
  obtains r rt2 where "await_call cfg now i f rt1 = (Some r, rt2)" "rt_ok rt2" "activations rt2 = activations rt"
proof -
  obtain rs a' st' where "turns cfg (inbox (objects rt ! i) @ [MethodCall m args kwargs f])
      (objects rt ! i, store rt) = (rs, a', st')" by (metis prod_cases3)
  from await_enqueued [OF assms this, of now] that show ?thesis by metis
qed

text \<open>While nothing is being shut down, activations and calls always come back.\<close>

lemma activate_grain_total:
  assumes "framed cfg" "rt_ok rt"
  obtains r rt' where "activate_grain cfg now g rt = (Some r, rt')" "rt_ok rt'"
    "\<And>i. r = Inr i \<Longrightarrow> dget (activations rt') g = Some i"
proof (cases "dget (activations rt) g")
  case (Some i)
  then show ?thesis using assms(2) by (intro that) (auto simp: activate_grain_def)
next
  case None
  show ?thesis
  proof (cases "prepare_activation cfg now g (store rt)")
    case (Inl e)
    then show ?thesis using None assms(2) by (intro that) (auto simp: activate_grain_def)
  next
    case (Inr act)
    obtain i rt1 where inst: "install_activation act rt = (i, rt1)" by fastforce
    note i = installed [OF assms(2) Inr inst]
    show ?thesis
    proof (cases "get_grain_class cfg (grain_type (act_grain (objects rt1 ! i)))")
      case (Inl e)
      with i None Inr inst show ?thesis
        by (intro that) (auto simp: activate_grain_def run_on_activate_def)
    next
      case c: (Inr c)
      obtain f rt2 where en: "enqueue_call i (lit ''on_activate'') [] [] rt1 = (f, rt2)" by fastforce
      from call_settles [OF assms(1) _ _ en, of g now] i obtain r rt3 where
        aw: "await_call cfg now i f rt2 = (Some r, rt3)" "rt_ok rt3" "activations rt3 = activations rt1" by metis
      show ?thesis
      proof (cases "has_member c (lit ''on_activate'')")
        case True
        then show ?thesis using i None Inr inst c en aw
          by (intro that [of "case r of Inl e \<Rightarrow> Inl e | Inr _ \<Rightarrow> Inr i" rt3])
            (auto simp: activate_grain_def run_on_activate_def simp del: list.map split: sum.splits)
      next
        case False
        then show ?thesis using i None Inr inst c
          by (intro that) (auto simp: activate_grain_def run_on_activate_def simp del: list.map)
      qed
    qed
  qed
qed

lemma invoke_local_total:
  assumes "framed cfg" "rt_ok rt"
  obtains r rt' where "invoke_local cfg now g m args kwargs rt = (Some r, rt')" "rt_ok rt'"
proof -
  from activate_grain_total [OF assms] obtain r rt1 where a: "activate_grain cfg now g rt = (Some r, rt1)"
    "rt_ok rt1" "\<And>i. r = Inr i \<Longrightarrow> dget (activations rt1) g = Some i" by metis
  show ?thesis
  proof (cases r)
    case (Inl e)
    then show ?thesis using a by (intro that) (auto simp: invoke_local_def)
  next
    case (Inr i)
    obtain f rt2 where en: "enqueue_call i m args kwargs rt1 = (f, rt2)" by fastforce
    from call_settles [OF assms(1) a(2) a(3) [OF Inr] en, of now] obtain r' rt3 where
      aw: "await_call cfg now i f rt2 = (Some r', rt3)" "rt_ok rt3" by metis
    show ?thesis
    proof (cases "get_grain_class cfg (grain_type g)")
      case (Inl e)
      then show ?thesis using a Inr by (intro that) (auto simp: invoke_local_def)
    next
      case c: (Inr c)
      show ?thesis
        using a Inr c en aw that by (cases "m \<in> set (get_grain_methods c)") (auto simp: invoke_local_def)
    qed
  qed
qed

subsection \<open>Deactivation\<close>

lemma worker_step_table:
  "worker_step cfg now i (rt\<lparr>activations := tab\<rparr>) = (worker_step cfg now i rt)\<lparr>activations := tab\<rparr>"
  by (auto simp: worker_step_def Let_def split: list.splits inbox_item.splits prod.splits)

lemma worker_run_table:
  "worker_run cfg now n i (rt\<lparr>activations := tab\<rparr>) = (worker_run cfg now n i rt)\<lparr>activations := tab\<rparr>"
  by (induction n arbitrary: rt) (simp_all add: worker_step_table)

lemma put_item_table: "put_item i x (rt\<lparr>activations := tab\<rparr>) = (put_item i x rt)\<lparr>activations := tab\<rparr>"
  by (cases rt) (simp add: put_item_def)

lemma stop_worker_table:
  "stop_worker cfg now in_time i (rt\<lparr>activations := tab\<rparr>) = (stop_worker cfg now in_time i rt)\<lparr>activations := tab\<rparr>"
  by (simp add: stop_worker_def put_item_table worker_run_table Let_def)

lemma worker_step_frame [simp]:
  "activations (worker_step cfg now i rt) = activations rt"
  "length (objects (worker_step cfg now i rt)) = length (objects rt)"
  by (auto simp: worker_step_def Let_def split: list.splits inbox_item.splits prod.splits)

lemma worker_run_frame [simp]:
  "activations (worker_run cfg now n i rt) = activations rt"
  "length (objects (worker_run cfg now n i rt)) = length (objects rt)"
  by (induction n arbitrary: rt) simp_all

lemma worker_step_others: "j \<noteq> i \<Longrightarrow> objects (worker_step cfg now i rt) ! j = objects rt ! j"
  by (auto simp: worker_step_def Let_def split: list.splits inbox_item.splits prod.splits)

lemma worker_run_others: "j \<noteq> i \<Longrightarrow> objects (worker_run cfg now n i rt) ! j = objects rt ! j"
  by (induction n arbitrary: rt) (simp_all add: worker_step_others)

lemma stop_worker_frame [simp]:
  "activations (stop_worker cfg now in_time i rt) = activations rt"
  "length (objects (stop_worker cfg now in_time i rt)) = length (objects rt)"
  by (simp_all add: stop_worker_def put_item_def Let_def)

lemma stop_worker_others: "j \<noteq> i \<Longrightarrow> objects (stop_worker cfg now in_time i rt) ! j = objects rt ! j"
  by (simp add: stop_worker_def put_item_def Let_def worker_run_others)

lemma run_on_deactivate_frame [simp]:
  "activations (run_on_deactivate cfg i rt) = activations rt"
  "length (objects (run_on_deactivate cfg i rt)) = length (objects rt)"
  by (auto simp: run_on_deactivate_def Let_def split: prod.splits)

lemma run_on_deactivate_others: "j \<noteq> i \<Longrightarrow> objects (run_on_deactivate cfg i rt) ! j = objects rt ! j"
  by (auto simp: run_on_deactivate_def Let_def split: prod.splits)

lemma run_on_deactivate_ok:
  assumes "framed cfg" "rt_ok rt" "dget (activations rt) g = Some i"
  shows "rt_ok (run_on_deactivate cfg i rt)"
proof -
  let ?act = "objects rt ! i"
  note tab = rt_okD(2) [OF assms(2,3)]
  from framedE [OF assms(1) same_core_refl [of ?act], of "grain_type (act_grain ?act)" "lit ''on_deactivate''"
      "[]" "[]" "store rt"] obtain r s e st' where
    b: "bodies cfg (grain_type (act_grain ?act)) (lit ''on_deactivate'') [] [] (?act, store rt)
      = (r, ?act\<lparr>inst_state := s, act_etag := e\<rparr>, st')" by metis
  have "rt_ok (rt\<lparr>objects := (objects rt)[i := ?act\<lparr>inst_state := s, act_etag := e\<rparr>], store := st', futs := futs rt\<rparr>)"
    by (rule rt_ok_object) (use assms tab rt_okD(3) [OF assms(2), of i] in \<open>auto simp: queued_def\<close>)
  then show ?thesis using assms(2) b by (auto simp: run_on_deactivate_def Let_def simp del: list.map)
qed

lemma put_sentinel_ok:
  assumes "rt_ok rt" "i < length (objects rt)" "i \<notin> ran (dget (activations rt))"
  shows "rt_ok (put_item i Sentinel rt)"
proof -
  let ?act = "(objects rt ! i)\<lparr>inbox := inbox (objects rt ! i) @ [Sentinel]\<rparr>"
  have "rt_ok (rt\<lparr>objects := (objects rt)[i := ?act], store := store rt, futs := futs rt\<rparr>)"
    by (rule rt_ok_object) (use assms rt_okD(3) [OF assms(1), of i] in auto)
  then show ?thesis by (simp add: put_item_def)
qed

lemma cancel_worker_ok:
  assumes "rt_ok rt" "i < length (objects rt)" "i \<notin> ran (dget (activations rt))"
  shows "rt_ok (rt\<lparr>objects := (objects rt)[i := (objects rt ! i)\<lparr>worker_running := False\<rparr>]\<rparr>)"
proof -
  let ?act = "(objects rt ! i)\<lparr>worker_running := False\<rparr>"
  have "rt_ok (rt\<lparr>objects := (objects rt)[i := ?act], store := store rt, futs := futs rt\<rparr>)"
    by (rule rt_ok_object) (use assms rt_okD(3) [OF assms(1), of i] in auto)
  then show ?thesis by simp
qed

lemma stop_worker_ok:
  assumes "framed cfg" "rt_ok rt" "i < length (objects rt)" "i \<notin> ran (dget (activations rt))"
  shows "rt_ok (stop_worker cfg now in_time i rt)"
  using put_sentinel_ok [OF assms(2-)] worker_run_ok [OF assms(1)] cancel_worker_ok [of "put_item i Sentinel rt" i] assms(3,4)
  by (auto simp: stop_worker_def Let_def put_item_def simp del: worker_run.simps)

lemma deactivate_grain_ok:
  assumes "framed cfg" "rt_ok rt" "deactivate_grain cfg ops now in_time g rt d = (r, rt', d')"
  shows "rt_ok rt' \<and> activations rt' = dpop (activations rt) g
    \<and> (\<forall>h j. h \<noteq> g \<longrightarrow> dget (activations rt) h = Some j \<longrightarrow> objects rt' ! j = objects rt ! j)"
proof (cases "dget (activations rt) g")
  case None
  then have "dpop (activations rt) g = activations rt"
    by (force simp: dget_None_iff dpop_def filter_id_conv)
  then show ?thesis using assms None by (simp add: deactivate_grain_def)
next
  case (Some i)
  let ?rt1 = "run_on_deactivate cfg i rt" and ?tab = "dpop (activations rt) g"
  note tab = rt_okD(2) [OF assms(2)]
  have rt': "rt' = stop_worker cfg now in_time i (?rt1\<lparr>activations := ?tab\<rparr>)"
    using assms(3) Some by (simp add: deactivate_grain_def Let_def stop_worker_table split: prod.splits)
  have free: "i \<notin> ran (dget ?tab)"
    using tab [OF Some] tab by (fastforce simp: ran_def split: if_split_asm)
  have "rt_ok (?rt1\<lparr>activations := ?tab\<rparr>)"
    by (rule rt_ok_table [OF run_on_deactivate_ok [OF assms(1,2) Some]])
      (use rt_okD(1) [OF assms(2)] in auto)
  then have "rt_ok rt'" unfolding rt' by (rule stop_worker_ok [OF assms(1)]) (use tab [OF Some] free in auto)
  moreover have "objects rt' ! j = objects rt ! j" if "h \<noteq> g" "dget (activations rt) h = Some j" for h j
  proof -
    have "j \<noteq> i" using ranI [of "dget ?tab" h j] free that by auto
    then show ?thesis by (simp add: rt' stop_worker_others run_on_deactivate_others)
  qed
  ultimately show ?thesis by (auto simp: rt')
qed

lemma deactivate_all_spec:
  assumes "framed cfg" "rt_ok rt" "deactivate_all cfg ops now in_time gs rt d = (r, rt', d')"
  shows "rt_ok rt'
    \<and> (r = Inr () \<longrightarrow> activations rt' = filter (\<lambda>(g, _). g \<notin> set gs) (activations rt))
    \<and> (\<forall>h j. h \<notin> set gs \<longrightarrow> dget (activations rt) h = Some j \<longrightarrow>
         dget (activations rt') h = Some j \<and> objects rt' ! j = objects rt ! j)"
  using assms(2,3)
proof (induction gs arbitrary: rt d)
  case Nil
  then show ?case by simp
next
  case (Cons g gs)
  obtain r1 rt1 d1 where one: "deactivate_grain cfg ops now in_time g rt d = (r1, rt1, d1)" by (metis prod_cases3)
  note g = deactivate_grain_ok [OF assms(1) Cons.prems(1) one]
  have eq: "filter (\<lambda>(h, _). h \<notin> set gs) (dpop (activations rt) g)
      = filter (\<lambda>(h, _). h \<notin> set (g # gs)) (activations rt)"
    by (simp add: dpop_def case_prod_beta' conj_commute)
  show ?case
  proof (cases r1)
    case (Inl e)
    then show ?thesis using Cons.prems(2) one g by auto
  next
    case (Inr u)
    then have "deactivate_all cfg ops now in_time gs rt1 d1 = (r, rt', d')"
      using Cons.prems(2) one by simp
    from Cons.IH [OF _ this] g eq show ?thesis by auto
  qed
qed

lemma handle_grain_call_spec:
  assumes "framed cfg" "rt_ok rt" "handle_grain_call cfg tb txt now msg rt = (r, rt')"
  shows "rt_ok rt'
    \<and> (r = Inr None \<longleftrightarrow> msg_header msg \<noteq> GRAIN_CALL_HEADER \<or> message_type msg \<noteq> REQUEST)
    \<and> (\<forall>resp. r = Inr (Some resp) \<longrightarrow> message_type resp = RESPONSE
         \<and> correlation_id resp = correlation_id msg \<and> msg_header resp = GRAIN_CALL_HEADER)
    \<and> (\<forall>e. r = Inl e \<longrightarrow> rt' = rt \<and> decode_request (msg_body msg) = Inl e \<and> \<not> is_value_error e)"
proof (cases "decode_request (msg_body msg)")
  case (Inl e)
  then show ?thesis using assms(2,3) by (auto simp: handle_grain_call_def grain_response_def split: if_splits)
next
  case (Inr req)
  from invoke_local_total [OF assms(1,2)] obtain x rt1 where
    x: "invoke_local cfg now (gc_grain req) (gc_method req) (gc_args req) (gc_kwargs req) rt = (Some x, rt1)"
      "rt_ok rt1" by metis
  show ?thesis
  proof (cases x)
    case (Inl e)
    then show ?thesis using x Inr assms(2,3)
      by (auto simp: handle_grain_call_def grain_response_def split: if_splits sum.splits)
  next
    case (Inr v)
    then show ?thesis using x \<open>decode_request _ = _\<close> assms(2,3)
      by (auto simp: handle_grain_call_def grain_response_def split: if_splits sum.splits)
  qed
qed

lemma new_runtime_ok [simp]: "rt_ok (new_runtime st)"
  by (simp add: rt_ok_def new_runtime_def)

text \<open>A call on a live activation with nothing queued.\<close>

lemma idle_call:
  assumes "framed cfg" "rt_ok rt" "dget (activations rt) g = Some i" "inbox (objects rt ! i) = []"
    "bodies cfg (grain_type g) m args kwargs (objects rt ! i, store rt) = (r, a', st')"
    "enqueue_call i m args kwargs rt = (f, rt1)"
  obtains rt2 where
    "await_call cfg now i f rt1 = (Some (as_result (call_outcome (grain_type g) m r)), rt2)" "rt_ok rt2"
    "store rt2 = st'" "same_core a' (objects rt2 ! i)" "inbox (objects rt2 ! i) = []"
    "activations rt2 = activations rt" "\<forall>j. j \<noteq> i \<longrightarrow> objects rt2 ! j = objects rt ! j"
proof -
  have "turns cfg (inbox (objects rt ! i) @ [MethodCall m args kwargs f]) (objects rt ! i, store rt)
      = ([call_outcome (grain_type g) m r], a', st')"
    using rt_okD(2) [OF assms(2,3)] assms(4,5) by simp
  from await_enqueued [OF assms(1-3,6) this, of now] that show ?thesis by (metis last.simps)
qed

lemma invoke_active:
  assumes "dget (activations rt) g = Some i" "registry cfg (grain_type g) = Some c"
    "m \<in> set (get_grain_methods c)" "enqueue_call i m args kwargs rt = (f, rt1)"
  shows "invoke_local cfg now g m args kwargs rt = await_call cfg now i f rt1"
  using assms by (simp add: invoke_local_def activate_grain_def get_grain_class_def)

end
