(* ===== verification/Serialization.thy ===== *)
theory Serialization
  imports Json
begin

text \<open>
  \<^verbatim>\<open>pyleans/serialization.py\<close>: Python values with dataclass instances, their
  conversion to and from plain JSON data, and the serializer. The dataclasses are a parameter: a
  table of their fields with type and default. \<^verbatim>\<open>orjson\<close> is a parameter too: a printer
  that may refuse a value, and a parser that may refuse bytes.
\<close>

subsection \<open>Values and classes\<close>

datatype pyval =
    VNull
  | VBool bool
  | VInt int
  | VFloat rat
  | VStr pystr
  | VList "pyval list"
  | VDict "(pystr \<times> pyval) list"
  | VData pystr "(pystr \<times> pyval) list"

text \<open>The type of a field, as far as the code looks at it; a string annotation is an \<open>OtherType\<close>.\<close>

datatype field_type = DataclassType pystr | OtherType

type_synonym field_decl = "pystr \<times> field_type \<times> pyval option"

type_synonym schema = "pystr \<Rightarrow> field_decl list option"

subsection \<open>To plain data and back\<close>

fun dataclass_to_dict :: "pyval \<Rightarrow> json" where
  "dataclass_to_dict VNull = JNull"
| "dataclass_to_dict (VBool b) = JBool b"
| "dataclass_to_dict (VInt i) = JInt i"
| "dataclass_to_dict (VFloat x) = JFloat x"
| "dataclass_to_dict (VStr s) = JStr s"
| "dataclass_to_dict (VList vs) = JArr (map dataclass_to_dict vs)"
| "dataclass_to_dict (VDict ms) = JObj (map (\<lambda>(k, v). (k, dataclass_to_dict v)) ms)"
| "dataclass_to_dict (VData c fs) = JObj (map (\<lambda>(n, v). (n, dataclass_to_dict v)) fs)"

text \<open>Parsed data is a value as it is.\<close>

fun plain :: "json \<Rightarrow> pyval" where
  "plain JNull = VNull"
| "plain (JBool b) = VBool b"
| "plain (JInt i) = VInt i"
| "plain (JFloat x) = VFloat x"
| "plain (JStr s) = VStr s"
| "plain (JArr vs) = VList (map plain vs)"
| "plain (JObj ms) = VDict (map (\<lambda>(k, v). (k, plain v)) ms)"

lemma jget_size: "jget ms k = Some v \<Longrightarrow> size v < Suc (size_list (size_prod (\<lambda>x. 0) size) ms)"
proof (induction ms)
  case (Cons m ms)
  obtain k' v' where m: "m = (k', v')" by (cases m)
  show ?case using Cons by (auto simp: m jget_def dget_def split: if_split_asm)
qed (simp add: jget_def)

text \<open>
  \<open>from_fields\<close> is the loop over the fields of the class with the constructor call after it: a
  field that is absent takes its default, and one without a default is a \<^verbatim>\<open>TypeError\<close>.
\<close>

function
  from_dict :: "schema \<Rightarrow> (pystr \<times> json) list \<Rightarrow> pystr \<Rightarrow> pyval result" and
  from_fields :: "schema \<Rightarrow> (pystr \<times> json) list \<Rightarrow> field_decl list \<Rightarrow> (pystr \<times> pyval) list result"
where
  "from_dict sch data c =
     (case sch c of
        None \<Rightarrow> Inr (plain (JObj data))
      | Some fields \<Rightarrow> res_bind (from_fields sch data fields) (\<lambda>fs. Inr (VData c fs)))"
| "from_fields sch data [] = Inr []"
| "from_fields sch data ((n, t, dflt) # rest) =
     res_bind
       (case jget data n of
          None \<Rightarrow> (case dflt of None \<Rightarrow> Inl TypeError | Some d \<Rightarrow> Inr d)
        | Some v \<Rightarrow>
            (case (t, v) of
               (DataclassType c, JObj ms) \<Rightarrow> from_dict sch ms c
             | _ \<Rightarrow> Inr (plain v)))
       (\<lambda>x. res_bind (from_fields sch data rest) (\<lambda>xs. Inr ((n, x) # xs)))"
  by pat_completeness auto

termination
proof (relation "measures [\<lambda>a. case a of Inl (sch, d, c) \<Rightarrow> size (JObj d) | Inr (sch, d, fs) \<Rightarrow> size (JObj d),
    \<lambda>a. case a of Inl _ \<Rightarrow> 1 | Inr _ \<Rightarrow> 0,
    \<lambda>a. case a of Inl _ \<Rightarrow> 0 | Inr (sch, d, fs) \<Rightarrow> length fs]", goal_cases)
  case (3 sch data n t dflt rest v a b c ms)
  then show ?case using jget_size [of data n v] by auto
qed auto

text \<open>\<open>dumps\<close> and \<open>loads\<close> stand for \<^verbatim>\<open>orjson\<close>; dataclass instances are printed by their fields.\<close>

definition serialize :: "(json \<Rightarrow> bytes option) \<Rightarrow> pyval \<Rightarrow> bytes result" where
  "serialize dumps v =
     (case dumps (dataclass_to_dict v) of None \<Rightarrow> Inl SerializationError | Some b \<Rightarrow> Inr b)"

definition deserialize :: "(bytes \<Rightarrow> json option) \<Rightarrow> schema \<Rightarrow> bytes \<Rightarrow> pystr \<Rightarrow> pyval result" where
  "deserialize loads sch b c =
     (case loads b of
        None \<Rightarrow> Inl SerializationError
      | Some parsed \<Rightarrow>
          (case sch c of
             None \<Rightarrow> Inr (plain parsed)
           | Some _ \<Rightarrow>
               (case parsed of
                  JObj data \<Rightarrow> (case from_dict sch data c of Inl _ \<Rightarrow> Inl SerializationError | Inr v \<Rightarrow> Inr v)
                | _ \<Rightarrow> Inl SerializationError)))"

subsection \<open>Values that survive\<close>

text \<open>No dataclass instance inside.\<close>

fun is_plain :: "pyval \<Rightarrow> bool" where
  "is_plain (VList vs) = (\<forall>v \<in> set vs. is_plain v)"
| "is_plain (VDict ms) = (\<forall>m \<in> set ms. is_plain (snd m))"
| "is_plain (VData _ _) = False"
| "is_plain _ = True"

text \<open>
  An instance of a class of the table: its fields in the order of the class; a field of a
  dataclass type holds an instance of that class or something that is not a dict, any other field
  holds plain data.
\<close>

function
  instance_of :: "schema \<Rightarrow> pystr \<Rightarrow> pyval \<Rightarrow> bool" and
  fields_of :: "schema \<Rightarrow> field_decl list \<Rightarrow> (pystr \<times> pyval) list \<Rightarrow> bool"
where
  "instance_of sch c (VData c' fs) =
     (c' = c \<and> (case sch c of None \<Rightarrow> False | Some fields \<Rightarrow> dict_ok fs \<and> fields_of sch fields fs))"
| "instance_of sch c VNull = False"
| "instance_of sch c (VBool b) = False"
| "instance_of sch c (VInt i) = False"
| "instance_of sch c (VFloat x) = False"
| "instance_of sch c (VStr s) = False"
| "instance_of sch c (VList vs) = False"
| "instance_of sch c (VDict ms) = False"
| "fields_of sch [] [] = True"
| "fields_of sch [] (f # fs) = False"
| "fields_of sch (d # ds) [] = False"
| "fields_of sch ((n, t, dflt) # ds) ((n', v) # fs) =
     (n = n' \<and> fields_of sch ds fs
      \<and> (case (t, v) of
           (DataclassType c, VData _ _) \<Rightarrow> instance_of sch c v
         | (DataclassType c, VDict _) \<Rightarrow> False
         | _ \<Rightarrow> is_plain v))"
  by pat_completeness auto

termination
  by (relation "measure (\<lambda>a. case a of Inl (sch, c, v) \<Rightarrow> size v
      | Inr (sch, ds, fs) \<Rightarrow> size_list (size_prod (\<lambda>x. 0) size) fs)") auto

lemma plain_to_dict: "is_plain v \<Longrightarrow> plain (dataclass_to_dict v) = v"
  by (induction v rule: is_plain.induct) (auto intro!: map_idI)

lemma jget_dict: "jget (map (\<lambda>(n, v). (n, dataclass_to_dict v)) fs) n = map_option dataclass_to_dict (dget fs n)"
  by (induction fs) (auto simp: jget_def dget_def)

lemma to_dict_obj:
  "is_plain v \<Longrightarrow> \<forall>ms. v \<noteq> VDict ms \<Longrightarrow> (case (t, dataclass_to_dict v) of
     (DataclassType c, JObj ms) \<Rightarrow> f c ms | _ \<Rightarrow> g) = g"
  by (cases v) (auto split: field_type.split)

lemma from_dict_to_dict:
  "instance_of sch c v \<Longrightarrow> \<exists>fs. v = VData c fs
     \<and> from_dict sch (map (\<lambda>(n, v). (n, dataclass_to_dict v)) fs) c = Inr v"
  "fields_of sch ds fs \<Longrightarrow> dict_ok all \<Longrightarrow> set fs \<subseteq> set all \<Longrightarrow>
     from_fields sch (map (\<lambda>(n, v). (n, dataclass_to_dict v)) all) ds = Inr fs"
proof (induction sch c v and sch ds fs arbitrary: and all rule: instance_of_fields_of.induct)
  case (12 sch n t dflt ds n' v fs)
  have v: "jget (map (\<lambda>(n, v). (n, dataclass_to_dict v)) all) n = Some (dataclass_to_dict v)"
  proof -
    have "dget all n = Some v" using 12 by (auto simp: dget_Some_iff)
    then show ?thesis by (simp add: jget_dict)
  qed
  have "(case (t, dataclass_to_dict v) of (DataclassType c, JObj ms) \<Rightarrow> from_dict sch ms c
      | _ \<Rightarrow> Inr (plain (dataclass_to_dict v))) = Inr v"
  proof (cases t)
    case (DataclassType c)
    show ?thesis
    proof (cases v)
      case (VData c' ms)
      with 12 DataclassType show ?thesis by (auto simp del: from_dict.simps)
    qed (use 12 DataclassType plain_to_dict [of v] in auto)
  next
    case OtherType
    then show ?thesis using 12 plain_to_dict [of v] by (auto split: pyval.splits)
  qed
  with v 12 show ?case by (simp del: from_dict.simps)
qed (auto split: option.splits)

subsection \<open>Properties\<close>


definition demo_schema :: schema where
  "demo_schema c =
     (if c = lit ''Point'' then Some [(lit ''x'', OtherType, Some (VInt 0))]
      else if c = lit ''Box'' then Some [(lit ''at'', DataclassType (lit ''Point''), None),
             (lit ''all'', OtherType, Some (VList []))]
      else None)"

definition demo_dumps :: "json \<Rightarrow> bytes option" where
  "demo_dumps j = (if json_ok j then Some (json_dumps j) else None)"

definition demo_loads :: "bytes \<Rightarrow> json option" where
  "demo_loads b = (case json_loads_bytes b of Inl _ \<Rightarrow> None | Inr j \<Rightarrow> Some j)"


text \<open>
  Dataclass instances inside a list are written as dicts and stay dicts when they are read:
  \<^verbatim>\<open>_dict_to_dataclass\<close> does not look into lists, although
  \<^verbatim>\<open>_dataclass_to_dict\<close> does.
\<close>

theorem serializer_loses_lists:
  "from_dict demo_schema
     [(lit ''at'', JObj []), (lit ''all'', dataclass_to_dict (VList [VData (lit ''Point'') [(lit ''x'', VInt 7)]]))]
     (lit ''Box'')
   = Inr (VData (lit ''Box'')
       [(lit ''at'', VData (lit ''Point'') [(lit ''x'', VInt 0)]),
        (lit ''all'', VList [VDict [(lit ''x'', VInt 7)]])])"
  by (simp add: demo_schema_def jget_def dget_def)

subsection \<open>Types\<close>

text \<open>
  What a field of a type may hold after reading: an instance of the dataclass where the table knows
  it and the data was a dict, plain data otherwise; an absent field holds its default as it is.
\<close>

inductive well_typed :: "schema \<Rightarrow> field_type \<Rightarrow> pyval \<Rightarrow> bool" for sch where
  typed_plain: "is_plain v \<Longrightarrow> (\<And>c ms. t = DataclassType c \<Longrightarrow> v = VDict ms \<Longrightarrow> sch c = None) \<Longrightarrow> well_typed sch t v"
| typed_data: "sch c = Some fields
    \<Longrightarrow> list_all2 (\<lambda>d f. fst f = fst d \<and> (well_typed sch (fst (snd d)) (snd f) \<or> snd (snd d) = Some (snd f))) fields fs
    \<Longrightarrow> well_typed sch (DataclassType c) (VData c fs)"

inductive_cases well_typed_dict: "well_typed sch (DataclassType c) (VDict ms)"
inductive_cases well_typed_data: "well_typed sch t (VData c fs)"

lemma is_plain_plain: "is_plain (plain v)"
proof (induction v)
  case (JArr vs)
  then show ?case by simp
next
  case (JObj ms)
  then show ?case by fastforce
qed simp_all

lemma from_dict_typed:
  "from_dict sch data c = Inr v \<Longrightarrow> well_typed sch (DataclassType c) v"
  "from_fields sch data fields = Inr fs \<Longrightarrow>
     list_all2 (\<lambda>d f. fst f = fst d \<and> (well_typed sch (fst (snd d)) (snd f) \<or> snd (snd d) = Some (snd f))) fields fs"
proof (induction sch data c and sch data fields arbitrary: v and fs rule: from_dict_from_fields.induct)
  case (1 sch data c)
  show ?case
  proof (cases "sch c")
    case None
    then have "v = plain (JObj data)" using "1.prems" by simp
    then show ?thesis using None is_plain_plain [of "JObj data"] by (auto intro: typed_plain)
  next
    case (Some fields)
    then obtain fs where "from_fields sch data fields = Inr fs" "v = VData c fs"
      using "1.prems" by (auto simp: res_bind_Inr_iff)
    then show ?thesis using "1.IH" Some by (auto intro: typed_data)
  qed
next
  case (2 sch data)
  then show ?case by simp
next
  case (3 sch data n t dflt rest)
  let ?field = "case jget data n of
      None \<Rightarrow> (case dflt of None \<Rightarrow> Inl TypeError | Some d \<Rightarrow> Inr d)
    | Some v \<Rightarrow> (case (t, v) of (DataclassType c, JObj ms) \<Rightarrow> from_dict sch ms c | _ \<Rightarrow> Inr (plain v))"
  obtain x xs where r: "?field = Inr x" "from_fields sch data rest = Inr xs" "fs = (n, x) # xs"
    using "3.prems" by (auto simp: res_bind_Inr_iff simp del: from_dict.simps)
  have "well_typed sch t x \<or> dflt = Some x"
  proof (cases "jget data n")
    case None
    then show ?thesis using r(1) by (auto split: option.splits)
  next
    case (Some j)
    show ?thesis
    proof (cases "\<exists>c ms. t = DataclassType c \<and> j = JObj ms")
      case True
      then obtain c ms where "t = DataclassType c" "j = JObj ms" by blast
      then show ?thesis using "3.IH"(1) [OF Some] r(1) Some by simp
    next
      case False
      then have "x = plain j" using r(1) Some by (auto split: field_type.splits json.splits)
      moreover have "plain j \<noteq> VDict ms" if "\<forall>ms. j \<noteq> JObj ms" for ms using that by (cases j) auto
      ultimately show ?thesis using False is_plain_plain [of j] by (auto intro!: typed_plain)
    qed
  qed
  then show ?case using "3.IH"(2) r by auto
qed

lemma from_dict_progress:
  "from_dict sch data c = Inl e \<Longrightarrow> e = TypeError"
  "from_fields sch data fields = Inl e \<Longrightarrow> e = TypeError"
proof (induction sch data c and sch data fields rule: from_dict_from_fields.induct)
  case (3 sch data n t dflt rest)
  then show ?case
    by (auto simp: res_bind_Inl_iff simp del: from_dict.simps split: option.splits field_type.splits json.splits)
qed (auto simp: res_bind_Inl_iff split: option.splits)



end
