(* ===== verification/StringCache.thy ===== *)
theory StringCache
  imports RuntimeTurns Serialization
begin

text \<open>
  \<^verbatim>\<open>pyleans/server/string_cache_grain.py\<close>, the grain the framework ships, on the
  runtime with file storage: its class, its four methods, and the register it implements for its
  callers, deactivations included.
\<close>

subsection \<open>The class\<close>

definition cache_schema :: schema where
  "cache_schema c =
     (if c = lit ''StringCacheState'' then Some [(lit ''value'', OtherType, Some (VStr []))] else None)"

definition StringCacheState :: "pyval \<Rightarrow> pyval" where
  "StringCacheState v = VData (lit ''StringCacheState'') [(lit ''value'', v)]"

definition state_decode :: "json \<Rightarrow> exn + pyval" where
  "state_decode v =
     (case v of
        JObj data \<Rightarrow>
          (case from_dict cache_schema data (lit ''StringCacheState'') of
             Inl _ \<Rightarrow> Inl (error_exn SerializationError)
           | Inr s \<Rightarrow> Inr s)
      | _ \<Rightarrow> Inl (error_exn SerializationError))"

text \<open>The functions \<^verbatim>\<open>inspect.getmembers\<close> finds, those of the base class included.\<close>

definition StringCacheGrain :: "pyval GrainClass" where
  "StringCacheGrain =
     \<lparr>cls_members = [(lit ''clear_state'', True), (lit ''deactivate'', True), (lit ''deactivate_on_idle'', False),
        (lit ''delete'', True), (lit ''get'', True), (lit ''read_state'', True), (lit ''set'', True),
        (lit ''write_state'', True)],
      cls_default_state = Some (StringCacheState (VStr [])),
      cls_storage_name = lit ''default'',
      cls_decode = state_decode,
      cls_asdict = dataclass_to_dict,
      cls_construct = Inr ()\<rparr>"

subsection \<open>Its methods\<close>

text \<open>The one argument of \<^verbatim>\<open>set\<close>, by position or by name; any JSON value is taken.\<close>

definition bind_value :: "json list \<Rightarrow> (pystr \<times> json) list \<Rightarrow> json option" where
  "bind_value args kwargs =
     (case (args, kwargs) of
        ([v], []) \<Rightarrow> Some v
      | ([], [(k, v)]) \<Rightarrow> if k = lit ''value'' then Some v else None
      | _ \<Rightarrow> None)"

definition state_value :: "pyval \<Rightarrow> json" where
  "state_value s =
     (case s of VData c fs \<Rightarrow> (case dget fs (lit ''value'') of None \<Rightarrow> JNull | Some v \<Rightarrow> dataclass_to_dict v)
              | _ \<Rightarrow> JNull)"

definition returns :: "(exn + unit) \<times> 'i GrainActivation \<times> 'st \<Rightarrow> (exn + json) \<times> 'i GrainActivation \<times> 'st" where
  "returns w = (case w of (r, act, st) \<Rightarrow> (case r of Inl e \<Rightarrow> Inl e | Inr _ \<Rightarrow> Inr JNull, act, st))"

definition cache_set ::
  "(pyval, 'st) RuntimeConfig \<Rightarrow> pystr \<Rightarrow> json \<Rightarrow> pyval GrainActivation \<times> 'st
   \<Rightarrow> (exn + json) \<times> pyval GrainActivation \<times> 'st" where
  "cache_set cfg new_etag v w =
     (case w of (act, st) \<Rightarrow>
        returns (write_state cfg StringCacheGrain new_etag
          (act\<lparr>inst_state := Some (StringCacheState (plain v))\<rparr>, st)))"

definition cache_get :: "pyval GrainActivation \<times> 'st \<Rightarrow> (exn + json) \<times> pyval GrainActivation \<times> 'st" where
  "cache_get w =
     (case w of (act, st) \<Rightarrow>
        (case inst_state act of
           None \<Rightarrow> Inl (raise_named ''AttributeError'' None)
         | Some s \<Rightarrow> Inr (state_value s), act, st))"

definition cache_delete ::
  "(pyval, 'st) RuntimeConfig \<Rightarrow> pyval GrainActivation \<times> 'st
   \<Rightarrow> (exn + json) \<times> pyval GrainActivation \<times> 'st" where
  "cache_delete cfg w = returns (clear_state cfg StringCacheGrain w)"

text \<open>
  A new etag comes from \<open>fresh\<close>. \<^verbatim>\<open>deactivate\<close> only asks the event loop for a
  later \<^verbatim>\<open>deactivate_grain\<close>, which is a step of its own.
\<close>

definition cache_deactivate :: "pyval GrainActivation \<times> 'st \<Rightarrow> (exn + json) \<times> pyval GrainActivation \<times> 'st" where
  "cache_deactivate w = (Inr JNull, w)"

definition cache_body ::
  "(pyval, 'st) RuntimeConfig \<Rightarrow> ('st \<Rightarrow> pystr) \<Rightarrow> (pyval, 'st) body" where
  "cache_body cfg fresh m args kwargs w =
     (if m = lit ''set''
      then (case bind_value args kwargs of
              None \<Rightarrow> (Inl (raise_named ''TypeError'' None), w)
            | Some v \<Rightarrow> cache_set cfg (fresh (snd w)) v w)
      else if m \<notin> {lit ''get'', lit ''delete'', lit ''deactivate''}
      then (Inl (raise_named ''AttributeError'' None), w)
      else if args \<noteq> [] \<or> kwargs \<noteq> [] then (Inl (raise_named ''TypeError'' None), w)
      else if m = lit ''get'' then cache_get w
      else if m = lit ''delete'' then cache_delete cfg w
      else cache_deactivate w)"

text \<open>A silo that serves the grain over one storage provider.\<close>

definition cache_config :: "'st StorageProvider \<Rightarrow> ('st \<Rightarrow> pystr) \<Rightarrow> SiloAddress \<Rightarrow> (pyval, 'st) RuntimeConfig" where
  "cache_config p fresh silo =
     (let cfg = \<lparr>registry = (\<lambda>t. if t = lit ''StringCacheGrain'' then Some StringCacheGrain else None),
            bodies = (\<lambda>t m args kwargs w. (Inl (raise_named ''AttributeError'' None), w)),
            storage_providers = (\<lambda>n. if n = lit ''default'' then Some p else None),
            local_silo = silo, idle_timeout = 900, remote_call_timeout = 30\<rparr>
      in cfg\<lparr>bodies := (\<lambda>t. cache_body cfg fresh)\<rparr>)"

subsection \<open>The methods keep to their own state\<close>

lemma cache_members:
  "set (get_grain_methods StringCacheGrain) = {lit ''deactivate'', lit ''delete'', lit ''get'', lit ''set''}"
  "\<not> has_member StringCacheGrain (lit ''on_activate'')" "\<not> has_member StringCacheGrain (lit ''on_deactivate'')"
  by (auto simp: get_grain_methods_def StringCacheGrain_def LIFECYCLE_METHODS_def BASE_CLASS_METHODS_def
      has_member_def)

lemma framedI:
  assumes "\<And>t m args kwargs act st. let act0 = \<lparr>act_grain = act_grain act, inst_state = inst_state act, inbox = [],
      worker_running = True, last_activity = 0, state_loaded = True, act_etag = act_etag act\<rparr>
    in case bodies cfg t m args kwargs (act0, st) of (r, act1, st') \<Rightarrow>
      bodies cfg t m args kwargs (act, st) = (r, act\<lparr>inst_state := inst_state act1, act_etag := act_etag act1\<rparr>, st')"
  shows "framed cfg"
  unfolding framed_def
proof (intro allI)
  fix t m args kwargs
  let ?act0 = "\<lambda>g s e. \<lparr>act_grain = g, inst_state = s, inbox = [], worker_running = True, last_activity = 0,
    state_loaded = True, act_etag = e\<rparr>"
  show "\<exists>sem. \<forall>act st. bodies cfg t m args kwargs (act, st) =
      (case sem (act_grain act) (inst_state act) (act_etag act) st of
         (r, s, e, st') \<Rightarrow> (r, act\<lparr>inst_state := s, act_etag := e\<rparr>, st'))"
  proof (rule exI [of _ "\<lambda>g s e st. case bodies cfg t m args kwargs (?act0 g s e, st) of
        (r, a, st') \<Rightarrow> (r, inst_state a, act_etag a, st')"], intro allI)
    fix act st
    show "bodies cfg t m args kwargs (act, st) =
        (case case bodies cfg t m args kwargs (?act0 (act_grain act) (inst_state act) (act_etag act), st) of
            (r, a, st') \<Rightarrow> (r, inst_state a, act_etag a, st') of
         (r, s, e, st') \<Rightarrow> (r, act\<lparr>inst_state := s, act_etag := e\<rparr>, st'))"
      using assms [where act = act and st = st and t = t and m = m and args = args and kwargs = kwargs]
      by (simp add: Let_def split: prod.splits)
  qed
qed

lemma cache_framed: "framed (cache_config p fresh silo)"
proof (rule framedI, goal_cases)
  case (1 t m args kwargs act st)
  show ?case
    by (cases act)
      (auto simp: cache_config_def cache_body_def cache_set_def cache_get_def cache_delete_def
        cache_deactivate_def write_state_def clear_state_def returns_def storage_of_def StringCacheGrain_def Let_def
        simp del: list.map split: prod.splits option.splits sum.splits if_splits)
qed

subsection \<open>What callers see\<close>

datatype cache_op = CacheSet json | CacheGet | CacheDelete | CacheDeactivate bool

text \<open>One operation of a caller on this silo, or a deactivation of the grain in between.\<close>

definition cache_step ::
  "(pyval, 'st) RuntimeConfig \<Rightarrow> 'd IGrainDirectory \<Rightarrow> GrainId \<Rightarrow> seconds \<times> cache_op
   \<Rightarrow> (pyval, 'st) GrainRuntime \<times> 'd \<Rightarrow> (exn + json) option \<times> (pyval, 'st) GrainRuntime \<times> 'd" where
  "cache_step cfg ops g c w =
     (case (c, w) of
        ((now, CacheSet v), (rt, d)) \<Rightarrow> (case invoke_local cfg now g (lit ''set'') [v] [] rt of (r, rt') \<Rightarrow> (r, rt', d))
      | ((now, CacheGet), (rt, d)) \<Rightarrow> (case invoke_local cfg now g (lit ''get'') [] [] rt of (r, rt') \<Rightarrow> (r, rt', d))
      | ((now, CacheDelete), (rt, d)) \<Rightarrow> (case invoke_local cfg now g (lit ''delete'') [] [] rt of (r, rt') \<Rightarrow> (r, rt', d))
      | ((now, CacheDeactivate in_time), (rt, d)) \<Rightarrow>
          (case deactivate_grain cfg ops now in_time g rt d of (_, rt', d') \<Rightarrow> (Some (Inr JNull), rt', d')))"

fun cache_run ::
  "(pyval, 'st) RuntimeConfig \<Rightarrow> 'd IGrainDirectory \<Rightarrow> GrainId \<Rightarrow> (seconds \<times> cache_op) list
   \<Rightarrow> (pyval, 'st) GrainRuntime \<times> 'd \<Rightarrow> (exn + json) option list" where
  "cache_run cfg ops g [] w = []"
| "cache_run cfg ops g (c # cs) w =
     (case cache_step cfg ops g c w of (r, w') \<Rightarrow> r # cache_run cfg ops g cs w')"

text \<open>The contract: a register that starts with a value.\<close>

fun register_run :: "(seconds \<times> cache_op) list \<Rightarrow> json \<Rightarrow> (exn + json) option list" where
  "register_run [] v = []"
| "register_run ((_, CacheSet w) # cs) v = Some (Inr JNull) # register_run cs w"
| "register_run ((_, CacheGet) # cs) v = Some (Inr v) # register_run cs v"
| "register_run ((_, CacheDelete) # cs) v = Some (Inr JNull) # register_run cs (JStr [])"
| "register_run ((_, CacheDeactivate _) # cs) v = Some (Inr JNull) # register_run cs v"

text \<open>The disk holds the register, and so does the activation if there is one.\<close>

definition cache_doc :: "json \<Rightarrow> json" where
  "cache_doc v = JObj [(lit ''value'', v)]"

definition cache_inv :: "pystr \<Rightarrow> GrainId \<Rightarrow> json \<Rightarrow> (pyval, disk) GrainRuntime \<Rightarrow> bool" where
  "cache_inv path g v rt \<longleftrightarrow> rt_ok rt \<and> files_ok (store rt) \<and>
     (file_at (store rt) path = None \<and> v = JStr [] \<or> (\<exists>e. file_at (store rt) path = Some (cache_doc v, e))) \<and>
     (\<forall>i. dget (activations rt) g = Some i \<longrightarrow> inbox (objects rt ! i) = []
        \<and> inst_state (objects rt ! i) = Some (StringCacheState (plain v))
        \<and> act_etag (objects rt ! i) = map_option snd (file_at (store rt) path))"

lemma dict_plain [simp]: "dataclass_to_dict (plain v) = v"
  by (induction v rule: plain.induct) (auto intro!: map_idI)

lemma cache_doc_state: "dataclass_to_dict (StringCacheState (plain v)) = cache_doc v"
  by (simp add: StringCacheState_def cache_doc_def)

lemma state_decode_doc: "state_decode (cache_doc v) = Inr (StringCacheState (plain v))"
  by (simp add: state_decode_def cache_doc_def cache_schema_def StringCacheState_def jget_def dget_def del: list.map)

lemma state_value_state [simp]: "state_value (StringCacheState (plain v)) = v"
  by (simp add: state_value_def StringCacheState_def dget_def)

abbreviation file_config :: "pystr \<Rightarrow> (disk \<Rightarrow> pystr) \<Rightarrow> SiloAddress \<Rightarrow> (pyval, disk) RuntimeConfig" where
  "file_config base \<equiv> cache_config (file_storage base)"

definition cache_at :: "pystr \<Rightarrow> GrainId \<Rightarrow> pystr \<Rightarrow> bool" where
  "cache_at base g path \<longleftrightarrow>
     grain_type g = lit ''StringCacheGrain'' \<and> file_slot base (grain_type g) (grain_key g) = Some path"

lemma file_config_class:
  assumes "cache_at base g path"
  shows "get_grain_class (file_config base fresh silo) (grain_type g) = Inr StringCacheGrain"
    and "registry (file_config base fresh silo) (grain_type g) = Some StringCacheGrain"
    and "storage_of (file_config base fresh silo) StringCacheGrain = Some (file_storage base)"
  using assms
  by (simp_all add: get_grain_class_def cache_config_def storage_of_def StringCacheGrain_def cache_at_def Let_def)

lemma cache_body_storage:
  "storage_of cfg StringCacheGrain = storage_of cfg' StringCacheGrain \<Longrightarrow> cache_body cfg fresh = cache_body cfg' fresh"
proof -
  assume st: "storage_of cfg StringCacheGrain = storage_of cfg' StringCacheGrain"
  have "cache_set cfg = cache_set cfg'" "cache_delete cfg = cache_delete cfg'"
    by (auto simp: fun_eq_iff cache_set_def cache_delete_def write_state_def clear_state_def st)
  then show ?thesis unfolding cache_body_def [abs_def] by (simp only:)
qed

lemma file_config_bodies:
  "bodies (cache_config p fresh silo) t = cache_body (cache_config p fresh silo) fresh"
proof -
  have "bodies (cache_config p fresh silo) t = cache_body
      \<lparr>registry = (\<lambda>t. if t = lit ''StringCacheGrain'' then Some StringCacheGrain else None),
       bodies = (\<lambda>t m args kwargs w. (Inl (raise_named ''AttributeError'' None), w)),
       storage_providers = (\<lambda>n. if n = lit ''default'' then Some p else None),
       local_silo = silo, idle_timeout = 900, remote_call_timeout = 30\<rparr> fresh"
    by (simp add: cache_config_def Let_def)
  then show ?thesis
    by (simp only:) (rule cache_body_storage, simp add: storage_of_def cache_config_def Let_def)
qed

lemma cache_prepare:
  assumes "cache_at base g path" "cache_inv path g v rt"
  obtains act where "prepare_activation (file_config base fresh silo) now g (store rt) = Inr act"
    "inst_state act = Some (StringCacheState (plain v))" "act_etag act = map_option snd (file_at (store rt) path)"
proof -
  let ?cfg = "file_config base fresh silo"
  have ok: "files_ok (store rt)" and slot: "file_slot base (grain_type g) (grain_key g) = Some path"
    using assms by (auto simp: cache_inv_def cache_at_def)
  from assms(2) consider "file_at (store rt) path = None" "v = JStr []"
    | e where "file_at (store rt) path = Some (cache_doc v, e)" by (auto simp: cache_inv_def)
  then obtain doc e where "st_read (file_storage base) (grain_type g) (grain_key g) (store rt) = Inr (doc, e)"
    "state_from StringCacheGrain (StringCacheState (VStr [])) doc = Inr (StringCacheState (plain v))"
    "etag_of e = map_option snd (file_at (store rt) path)"
  proof cases
    case 1
    then show ?thesis using file_store.read_absent [OF ok slot] by (auto simp: state_from_def etag_of_def intro!: that)
  next
    case 2
    have "state_from StringCacheGrain (StringCacheState (VStr [])) (cache_doc v) = Inr (StringCacheState (plain v))"
      using state_decode_doc [of v] by (simp add: state_from_def StringCacheGrain_def) (simp add: cache_doc_def)
    then show ?thesis using file_store.read_present [OF ok slot 2] 2 by (auto simp: etag_of_def intro!: that)
  qed
  then have "\<exists>act. prepare_activation ?cfg now g (store rt) = Inr act
      \<and> inst_state act = Some (StringCacheState (plain v)) \<and> act_etag act = map_option snd (file_at (store rt) path)"
    by (simp add: prepare_activation_def file_config_class [OF assms(1)] load_state_def
        StringCacheGrain_def [THEN arg_cong [where f = cls_construct]]
        StringCacheGrain_def [THEN arg_cong [where f = cls_default_state]] del: list.map)
  then show ?thesis using that by blast
qed

lemma cache_activate:
  assumes "cache_at base g path" "cache_inv path g v rt"
  obtains i rt1 where "activate_grain (file_config base fresh silo) now g rt = (Some (Inr i), rt1)"
    "cache_inv path g v rt1" "dget (activations rt1) g = Some i" "store rt1 = store rt"
proof (cases "dget (activations rt) g")
  case (Some i)
  then show ?thesis using assms by (intro that [of i rt]) (auto simp: activate_grain_def)
next
  case None
  from cache_prepare [OF assms] obtain act where act:
    "prepare_activation (file_config base fresh silo) now g (store rt) = Inr act"
    "inst_state act = Some (StringCacheState (plain v))" "act_etag act = map_option snd (file_at (store rt) path)"
    by metis
  obtain i rt1 where inst: "install_activation act rt = (i, rt1)" by fastforce
  have ok: "rt_ok rt" using assms(2) by (simp add: cache_inv_def)
  note i = installed [OF ok act(1) inst] prepared [OF act(1)]
  have "objects rt1 ! i = act\<lparr>worker_running := True\<rparr>" "act_grain act = g" using i by blast+
  then have gr: "act_grain (objects rt1 ! i) = g" by simp
  have st: "store rt1 = store rt" using inst by (auto simp: install_activation_def Let_def)
  have "cache_inv path g v rt1" using assms(2) i act st by (auto simp: cache_inv_def)
  moreover have "activate_grain (file_config base fresh silo) now g rt = (Some (Inr i), rt1)"
    using None act(1) inst gr
    by (simp add: activate_grain_def run_on_activate_def file_config_class [OF assms(1)] cache_members del: list.map)
  ultimately show ?thesis using i st by (intro that [of i rt1]) auto
qed

text \<open>A method that leaves the activation and the disk in step with a value \<open>w\<close>.\<close>

lemma cache_call:
  assumes "cache_at base g path" "cache_inv path g v rt" "m \<in> set (get_grain_methods StringCacheGrain)"
    and body: "\<And>act st. files_ok st \<Longrightarrow> file_at st path = None \<and> v = JStr [] \<or> (\<exists>e. file_at st path = Some (cache_doc v, e)) \<Longrightarrow>
      act_grain act = g \<Longrightarrow> inst_state act = Some (StringCacheState (plain v)) \<Longrightarrow>
      act_etag act = map_option snd (file_at st path) \<Longrightarrow>
      \<exists>act' st'. cache_body (file_config base fresh silo) fresh m args kwargs (act, st) = (Inr r, act', st')
        \<and> files_ok st' \<and> (file_at st' path = None \<and> w = JStr [] \<or> (\<exists>e. file_at st' path = Some (cache_doc w, e)))
        \<and> inst_state act' = Some (StringCacheState (plain w)) \<and> act_etag act' = map_option snd (file_at st' path)"
  obtains rt' where "invoke_local (file_config base fresh silo) now g m args kwargs rt = (Some (Inr r), rt')"
    "cache_inv path g w rt'"
proof -
  let ?cfg = "file_config base fresh silo"
  from cache_activate [OF assms(1,2)] obtain i rt1 where a:
    "activate_grain ?cfg now g rt = (Some (Inr i), rt1)" "cache_inv path g v rt1" "dget (activations rt1) g = Some i"
    by metis
  obtain f rt2 where en: "enqueue_call i m args kwargs rt1 = (f, rt2)" by fastforce
  have inv: "rt_ok rt1" "files_ok (store rt1)" "inbox (objects rt1 ! i) = []"
    "file_at (store rt1) path = None \<and> v = JStr [] \<or> (\<exists>e. file_at (store rt1) path = Some (cache_doc v, e))"
    "inst_state (objects rt1 ! i) = Some (StringCacheState (plain v))"
    "act_etag (objects rt1 ! i) = map_option snd (file_at (store rt1) path)"
    using a(2,3) by (auto simp: cache_inv_def)
  from body [OF inv(2,4) _ inv(5,6)] rt_okD(2) [OF inv(1) a(3)] obtain act' st' where
    b: "bodies ?cfg (grain_type g) m args kwargs (objects rt1 ! i, store rt1) = (Inr r, act', st')"
      "files_ok st'" "file_at st' path = None \<and> w = JStr [] \<or> (\<exists>e. file_at st' path = Some (cache_doc w, e))"
      "inst_state act' = Some (StringCacheState (plain w))" "act_etag act' = map_option snd (file_at st' path)"
    by (metis file_config_bodies)
  from idle_call [OF cache_framed inv(1) a(3) inv(3) b(1) en, of now] obtain rt3 where
    c: "await_call ?cfg now i f rt2 = (Some (Inr r), rt3)" "rt_ok rt3" "store rt3 = st'"
      "same_core act' (objects rt3 ! i)" "inbox (objects rt3 ! i) = []" "activations rt3 = activations rt1"
    by (metis as_result_outcome(1))
  have "invoke_local ?cfg now g m args kwargs rt = (Some (Inr r), rt3)"
    using a(1) c(1) en assms(3) by (simp add: invoke_local_def file_config_class [OF assms(1)])
  moreover have "cache_inv path g w rt3"
    using b c a(3) by (auto simp: cache_inv_def same_core_def)
  ultimately show ?thesis by (rule that)
qed

lemma get_correct:
  assumes "cache_at base g path" "cache_inv path g v rt"
  obtains rt' where "invoke_local (file_config base fresh silo) now g (lit ''get'') [] [] rt = (Some (Inr v), rt')"
    "cache_inv path g v rt'"
proof (rule cache_call [OF assms])
  fix act :: "pyval GrainActivation" and st
  assume "files_ok st" "file_at st path = None \<and> v = JStr [] \<or> (\<exists>e. file_at st path = Some (cache_doc v, e))"
    "inst_state act = Some (StringCacheState (plain v))" "act_etag act = map_option snd (file_at st path)"
  then show "\<exists>act' st'. cache_body (file_config base fresh silo) fresh (lit ''get'') [] [] (act, st) = (Inr v, act', st')
        \<and> files_ok st' \<and> (file_at st' path = None \<and> v = JStr [] \<or> (\<exists>e. file_at st' path = Some (cache_doc v, e)))
        \<and> inst_state act' = Some (StringCacheState (plain v)) \<and> act_etag act' = map_option snd (file_at st' path)"
    by (simp add: cache_body_def cache_get_def del: list.map)
qed (use that in \<open>auto simp: cache_members\<close>)

lemma set_correct:
  assumes "cache_at base g path" "cache_inv path g v rt"
  obtains rt' where "invoke_local (file_config base fresh silo) now g (lit ''set'') [w] [] rt = (Some (Inr JNull), rt')"
    "cache_inv path g w rt'"
proof (rule cache_call [OF assms])
  fix act :: "pyval GrainActivation" and st
  assume st: "files_ok st" "file_at st path = None \<and> v = JStr [] \<or> (\<exists>e. file_at st path = Some (cache_doc v, e))"
    and act: "act_grain act = g" "act_etag act = map_option snd (file_at st path)"
  let ?cfg = "file_config base fresh silo"
  have slot: "file_slot base (grain_type g) (grain_key g) = Some path" using assms(1) unfolding cache_at_def by (rule conjunct2)
  have "act_etag act = None \<or> file_at st path = None \<or> (\<exists>d. file_at st path = Some (d, the (act_etag act)))"
    using act(2) by (cases "file_at st path") auto
  from file_store.write_ok [OF st(1) slot this, of "cache_doc w" "fresh st"] obtain st' where
    w: "st_write (file_storage base) (grain_type g) (grain_key g) (cache_doc w) (act_etag act) (fresh st) st = (Inr (fresh st), st')"
      "files_ok st'" "file_at st' = (file_at st)(path \<mapsto> (cache_doc w, fresh st))" by metis
  let ?act = "act\<lparr>inst_state := Some (StringCacheState (plain w)), act_etag := Some (fresh st)\<rparr>"
  have asdict: "cls_asdict StringCacheGrain = dataclass_to_dict" by (simp add: StringCacheGrain_def)
  have "cache_body ?cfg fresh (lit ''set'') [w] [] (act, st) = (Inr JNull, ?act, st')"
    using w(1) act(1)
    by (simp add: cache_body_def bind_value_def cache_set_def write_state_def file_config_class(3) [OF assms(1)]
        cache_doc_state asdict returns_def del: list.map)
  then show "\<exists>act' st'. cache_body ?cfg fresh (lit ''set'') [w] [] (act, st) = (Inr JNull, act', st')
        \<and> files_ok st' \<and> (file_at st' path = None \<and> w = JStr [] \<or> (\<exists>e. file_at st' path = Some (cache_doc w, e)))
        \<and> inst_state act' = Some (StringCacheState (plain w)) \<and> act_etag act' = map_option snd (file_at st' path)"
    using w(2,3) by auto
qed (use that in \<open>auto simp: cache_members\<close>)

lemma delete_correct:
  assumes "cache_at base g path" "cache_inv path g v rt"
  obtains rt' where "invoke_local (file_config base fresh silo) now g (lit ''delete'') [] [] rt = (Some (Inr JNull), rt')"
    "cache_inv path g (JStr []) rt'"
proof (rule cache_call [OF assms])
  fix act :: "pyval GrainActivation" and st
  assume st: "files_ok st" "file_at st path = None \<and> v = JStr [] \<or> (\<exists>e. file_at st path = Some (cache_doc v, e))"
    and act: "act_grain act = g" "act_etag act = map_option snd (file_at st path)"
  let ?cfg = "file_config base fresh silo"
  have slot: "file_slot base (grain_type g) (grain_key g) = Some path" using assms(1) unfolding cache_at_def by (rule conjunct2)
  have "act_etag act = None \<or> file_at st path = None \<or> (\<exists>d. file_at st path = Some (d, the (act_etag act)))"
    using act(2) by (cases "file_at st path") auto
  from file_store.clear_ok [OF st(1) slot this] obtain st' where
    w: "st_clear (file_storage base) (grain_type g) (grain_key g) (act_etag act) st = (Inr (), st')"
      "files_ok st'" "file_at st' = (file_at st)(path := None)" by metis
  let ?act = "act\<lparr>act_etag := None, inst_state := Some (StringCacheState (plain (JStr [])))\<rparr>"
  have dflt: "cls_default_state StringCacheGrain = Some (StringCacheState (plain (JStr [])))"
    by (simp add: StringCacheGrain_def)
  have "cache_body ?cfg fresh (lit ''delete'') [] [] (act, st) = (Inr JNull, ?act, st')"
    using w(1) act(1)
    by (simp add: cache_body_def cache_delete_def clear_state_def file_config_class(3) [OF assms(1)]
        dflt returns_def del: list.map plain.simps)
  then show "\<exists>act' st'. cache_body ?cfg fresh (lit ''delete'') [] [] (act, st) = (Inr JNull, act', st')
        \<and> files_ok st' \<and> (file_at st' path = None \<and> JStr [] = JStr [] \<or> (\<exists>e. file_at st' path = Some (cache_doc (JStr []), e)))
        \<and> inst_state act' = Some (StringCacheState (plain (JStr []))) \<and> act_etag act' = map_option snd (file_at st' path)"
    using w(2,3) by auto
qed (use that in \<open>auto simp: cache_members\<close>)

lemma deactivate_correct:
  assumes "cache_at base g path" "cache_inv path g v rt"
    "deactivate_grain (file_config base fresh silo) ops now in_time g rt d = (r, rt', d')"
  shows "cache_inv path g v rt'"
proof (cases "dget (activations rt) g")
  case None
  then show ?thesis using assms(2,3) by (simp add: deactivate_grain_def)
next
  case (Some i)
  let ?cfg = "file_config base fresh silo"
  have inv: "rt_ok rt" "inbox (objects rt ! i) = []" "act_grain (objects rt ! i) = g" "i < length (objects rt)"
    using assms(2) Some rt_okD(2) [of rt g i] by (auto simp: cache_inv_def)
  note ok = deactivate_grain_ok [OF cache_framed inv(1) assms(3)]
  have no_hook: "run_on_deactivate ?cfg i rt = rt"
    by (simp add: run_on_deactivate_def inv(3) file_config_class(2) [OF assms(1)] cache_members Let_def del: list.map)
  have "store (stop_worker ?cfg now in_time i rt) = store rt"
    using inv(2,4) by (simp add: stop_worker_def put_item_def worker_step_def Let_def)
  then have "store rt' = store rt"
    using assms(3) Some no_hook by (auto simp: deactivate_grain_def Let_def split: prod.splits)
  then show ?thesis using assms(2) ok by (auto simp: cache_inv_def)
qed

lemma cache_run_register:
  assumes "cache_at base g path" "cache_inv path g v rt"
  shows "cache_run (file_config base fresh silo) ops g cs (rt, d) = register_run cs v"
  using assms(2)
proof (induction cs arbitrary: v rt d)
  case (Cons c cs)
  obtain now op where c: "c = (now, op)" by (cases c)
  note step = cache_step_def
  show ?case
  proof (cases op)
    case (CacheSet w)
    from set_correct [OF assms(1) Cons.prems] obtain rt' where
      "invoke_local (file_config base fresh silo) now g (lit ''set'') [w] [] rt = (Some (Inr JNull), rt')"
      "cache_inv path g w rt'" by metis
    with Cons.IH c CacheSet show ?thesis by (simp add: step del: list.map)
  next
    case CacheGet
    from get_correct [OF assms(1) Cons.prems] obtain rt' where
      "invoke_local (file_config base fresh silo) now g (lit ''get'') [] [] rt = (Some (Inr v), rt')"
      "cache_inv path g v rt'" by metis
    with Cons.IH c CacheGet show ?thesis by (simp add: step del: list.map)
  next
    case CacheDelete
    from delete_correct [OF assms(1) Cons.prems] obtain rt' where
      "invoke_local (file_config base fresh silo) now g (lit ''delete'') [] [] rt = (Some (Inr JNull), rt')"
      "cache_inv path g (JStr []) rt'" by metis
    with Cons.IH c CacheDelete show ?thesis by (simp add: step del: list.map)
  next
    case (CacheDeactivate in_time)
    obtain r rt' d' where de: "deactivate_grain (file_config base fresh silo) ops now in_time g rt d = (r, rt', d')"
      by (metis prod_cases3)
    from deactivate_correct [OF assms(1) Cons.prems de] Cons.IH c CacheDeactivate de show ?thesis
      by (simp add: step)
  qed
qed simp

subsection \<open>Properties\<close>


text \<open>A directory that has nothing to say.\<close>

definition mute_directory :: "unit IGrainDirectory" where
  "mute_directory =
     \<lparr>in_register = (\<lambda>g s d. (Inl KeyError, d)), in_lookup = (\<lambda>g d. (Inr None, d)),
      in_unregister = (\<lambda>g s d. (Inr (), d)), in_resolve = (\<lambda>p g s d. (Inl KeyError, d))\<rparr>"


end
