(* ===== verification/RuntimeCalls.thy ===== *)
theory RuntimeCalls
  imports StringCache
begin

text \<open>
  What the grain runtime guarantees: the order of turns, that calls are answered, what a remote
  caller gets, idle collection, and what happens when activations fail or race.
\<close>

subsection \<open>Turns\<close>

text \<open>
  C9. Turn-based execution: the calls queued before the sentinel run one at a time in the order of the
  inbox, each on the state the one before it left; each settles its own future with its own outcome,
  once, and a future its caller gave up on is left alone although its call runs. The worker then
  stops. What was queued behind the sentinel never runs and its futures are never settled, however
  long one waits.
\<close>

theorem turns_in_order:
  assumes "framed cfg" "i < length (objects rt)" "worker_running (objects rt ! i)"
    "inbox (objects rt ! i) = calls @ Sentinel # late" "Sentinel \<notin> set calls"
    "distinct (map call_future calls)" "\<forall>c \<in> set calls. call_future c < length (futs rt)"
    "turns cfg calls (objects rt ! i, store rt) = (rs, act, st)" "length calls < n"
  shows "let rt' = worker_run cfg now n i rt in
      (\<forall>k < length calls. futs rt' ! call_future (calls ! k) =
         (if futs rt ! call_future (calls ! k) = Unset then rs ! k else futs rt ! call_future (calls ! k)))
    \<and> (\<forall>f. f \<notin> call_future ` set calls \<longrightarrow> futs rt' ! f = futs rt ! f)
    \<and> store rt' = st \<and> same_core act (objects rt' ! i)
    \<and> inbox (objects rt' ! i) = late \<and> \<not> worker_running (objects rt' ! i)
    \<and> (\<forall>j. j \<noteq> i \<longrightarrow> objects rt' ! j = objects rt ! j)"
proof -
  let ?rt1 = "worker_run cfg now (length calls) i rt"
  note run = worker_run_calls [OF assms(1-7) same_core_refl assms(8), of now, unfolded Let_def]
  let ?rt2 = "worker_step cfg now i ?rt1"
  have step: "?rt2 = ?rt1\<lparr>objects := (objects ?rt1)[i := (objects ?rt1 ! i)\<lparr>inbox := late, worker_running := False\<rparr>]\<rparr>"
    using run assms(2) by (simp add: worker_step_def Let_def)
  have stopped: "\<not> worker_running (objects ?rt2 ! i)" using run assms(2) by (simp add: step)
  have "n = length calls + (1 + (n - Suc (length calls)))" using assms(9) by simp
  then have "worker_run cfg now n i rt = worker_run cfg now (1 + (n - Suc (length calls))) i ?rt1"
    by (metis worker_run_add)
  also have "\<dots> = ?rt2" using worker_stopped [OF stopped] by simp
  finally have "worker_run cfg now n i rt = ?rt2" .
  then show ?thesis using run assms(2) by (simp add: Let_def step same_core_def)
qed

definition demo_config :: "(pyval, disk) RuntimeConfig" where
  "demo_config = file_config (lit ''/d'') (\<lambda>_. lit ''e'') (SiloAddress (lit ''h'') 1 2)"

definition demo_grain :: GrainId where
  "demo_grain = GrainId (lit ''StringCacheGrain'') (lit ''k'')"

definition demo_activation :: "inbox_item list \<Rightarrow> pyval GrainActivation" where
  "demo_activation items =
     \<lparr>act_grain = demo_grain, inst_state = Some (StringCacheState (VStr (lit ''v''))), inbox = items,
      worker_running = True, last_activity = 0, state_loaded = True, act_etag = None\<rparr>"

definition demo_runtime :: "inbox_item list \<Rightarrow> call_future list \<Rightarrow> (pyval, disk) GrainRuntime" where
  "demo_runtime items fs =
     \<lparr>objects = [demo_activation items], activations = [(demo_grain, 0)], futs = fs, store = [], next_call_id = 0\<rparr>"

lemma demo_framed: "framed demo_config"
  unfolding demo_config_def by (rule cache_framed)

lemma demo_get:
  "bodies demo_config t (lit ''get'') [] [] (demo_activation items, st)
    = (Inr (JStr (lit ''v'')), demo_activation items, st)"
  by (simp add: demo_config_def file_config_bodies cache_body_def cache_get_def demo_activation_def
      state_value_def StringCacheState_def dget_def del: list.map)

theorem turns_in_order_witness:
  "futs (worker_run demo_config 5 9 0 (demo_runtime
       [MethodCall (lit ''get'') [] [] 0, Sentinel, MethodCall (lit ''get'') [] [] 1] [Unset, Unset])) ! 1 = Unset
   \<and> futs (worker_run demo_config 5 9 0 (demo_runtime
       [MethodCall (lit ''get'') [] [] 0, Sentinel, MethodCall (lit ''get'') [] [] 1] [Unset, Unset])) ! 0
     = Returned (JStr (lit ''v''))"
proof -
  let ?c = "[MethodCall (lit ''get'') [] [] 0]" and ?l = "[MethodCall (lit ''get'') [] [] 1]"
  let ?rt = "demo_runtime (?c @ Sentinel # ?l) [Unset, Unset]"
  have t: "turns demo_config ?c (objects ?rt ! 0, store ?rt)
      = ([Returned (JStr (lit ''v''))], objects ?rt ! 0, store ?rt)"
    using demo_get by (simp add: demo_runtime_def call_outcome_def del: list.map)
  have rt: "0 < length (objects ?rt)" "worker_running (objects ?rt ! 0)"
    "inbox (objects ?rt ! 0) = ?c @ Sentinel # ?l" "Sentinel \<notin> set ?c" "distinct (map call_future ?c)"
    "\<forall>c \<in> set ?c. call_future c < length (futs ?rt)"
    by (simp_all add: demo_runtime_def demo_activation_def)
  have "length ?c < 9" by simp
  from turns_in_order [OF demo_framed rt t this, of 5] show ?thesis
    by (simp add: Let_def demo_runtime_def del: list.map)
qed

subsection \<open>Calls are answered\<close>


lemma demo_runtime_ok: "rt_ok (demo_runtime [] fs)"
  by (simp add: rt_ok_def demo_runtime_def demo_activation_def queued_def dget_def)


subsection \<open>Remote calls\<close>

text \<open>A peer that serves grain calls with this code; a call without a response times out at the caller.\<close>

definition owner_rpc ::
  "('i, 'st) RuntimeConfig \<Rightarrow> (exn \<Rightarrow> pystr) \<Rightarrow> (bytes \<Rightarrow> pystr) \<Rightarrow> seconds \<Rightarrow> ('i, 'st) GrainRuntime grain_rpc" where
  "owner_rpc cfg tb txt now owner header body w =
     (case handle_grain_call cfg tb txt now
             \<lparr>message_type = REQUEST, correlation_id = 1, msg_header = header, msg_body = body\<rparr> w of
        (Inr (Some resp), w') \<Rightarrow> (Inr (msg_body resp), w')
      | (_, w') \<Rightarrow> (Inl TransportTimeoutError, w'))"

definition call_request ::
  "('i, 'st) RuntimeConfig \<Rightarrow> seconds \<Rightarrow> GrainId \<Rightarrow> pystr \<Rightarrow> json list \<Rightarrow> (pystr \<times> json) list \<Rightarrow> int
   \<Rightarrow> GrainCallRequest" where
  "call_request cfg now g m args kwargs n =
     \<lparr>gc_grain = g, gc_method = m, gc_args = args, gc_kwargs = kwargs,
      gc_caller_silo = Some (silo_id (local_silo cfg)), gc_call_id = n,
      gc_deadline = (if remote_call_timeout cfg > 0 then Some (now + remote_call_timeout cfg) else None)\<rparr>"

text \<open>What a remote caller makes of the outcome of the local call at the owner.\<close>

definition remote_view :: "exn + json \<Rightarrow> exn + json" where
  "remote_view r =
     (case r of
        Inr v \<Rightarrow> Inr v
      | Inl x \<Rightarrow> Inl (remote_exn (exn_class (surfaced x)) (take MAX_EXCEPTION_MESSAGE_LEN (exn_text (surfaced x)))))"

definition crosses :: "(exn \<Rightarrow> pystr) \<Rightarrow> exn + json \<Rightarrow> bool" where
  "crosses tb r =
     (case r of
        Inr v \<Rightarrow> json_ok v
      | Inl x \<Rightarrow> valid_str (exn_class (surfaced x)) \<and> valid_str (exn_text (surfaced x)) \<and> valid_str (tb (surfaced x)))"

text \<open>
  C5. Location transparency: a remote call changes the owner's runtime exactly as the same local call
  there would, and returns its result; if the call fails at the owner, the caller gets
  \<^verbatim>\<open>RemoteGrainException\<close> with the class and the text of the exception the grain raised,
  unwrapped from \<^verbatim>\<open>GrainMethodError\<close> and with the text cut to 8192 characters. The caller's
  own runtime only counts the call. A call that arrives at its deadline or later runs nowhere.
\<close>

theorem remote_call_transparent:
  assumes "request_ok (call_request cfg now g m args kwargs (next_call_id rt + 1))"
    and "registry ocfg (grain_type g) = Some c"
    and "invoke_local ocfg onow g m args kwargs w = (Some r, w')" "crosses tb r"
  shows "(remote_call_timeout cfg \<le> 0 \<or> onow < now + remote_call_timeout cfg \<longrightarrow>
       invoke_remote cfg (Some (owner_rpc ocfg tb txt onow)) now owner g m args kwargs rt w
         = (remote_view r, rt\<lparr>next_call_id := next_call_id rt + 1\<rparr>, w'))
    \<and> (0 < remote_call_timeout cfg \<and> now + remote_call_timeout cfg \<le> onow \<longrightarrow>
       invoke_remote cfg (Some (owner_rpc ocfg tb txt onow)) now owner g m args kwargs rt w
         = (Inl (remote_exn (lit ''TimeoutError'') (lit ''deadline expired before handler ran'')),
            rt\<lparr>next_call_id := next_call_id rt + 1\<rparr>, w))"
proof (intro conjI impI)
  let ?req = "call_request cfg now g m args kwargs (next_call_id rt + 1)"
  note dec = decode_encode_request [OF assms(1)]
  have known: "get_grain_class ocfg (grain_type g) = Inr c" using assms(2) by (simp add: get_grain_class_def)
  have inv: "invoke_remote cfg (Some s) now owner g m args kwargs rt w =
      (case s owner GRAIN_CALL_HEADER (encode_request ?req) w of
         (Inl e, w') \<Rightarrow> (Inl (if e = TransportTimeoutError then raise_named ''TimeoutError'' (Some (error_exn e))
             else error_exn e), rt\<lparr>next_call_id := next_call_id rt + 1\<rparr>, w')
       | (Inr b, w') \<Rightarrow> (case decode_response b of
           Inl e \<Rightarrow> (Inl (error_exn e), rt\<lparr>next_call_id := next_call_id rt + 1\<rparr>, w')
         | Inr (GrainCallSuccess x) \<Rightarrow> (Inr x, rt\<lparr>next_call_id := next_call_id rt + 1\<rparr>, w')
         | Inr (GrainCallFailure t msg tb) \<Rightarrow>
             (Inl (remote_exn t msg), rt\<lparr>next_call_id := next_call_id rt + 1\<rparr>, w')))" for s
    by (simp add: invoke_remote_def call_request_def Let_def del: list.map)
  {
    assume "remote_call_timeout cfg \<le> 0 \<or> onow < now + remote_call_timeout cfg"
    then have live: "\<not> (case gc_deadline ?req of None \<Rightarrow> False | Some t \<Rightarrow> onow \<ge> t)"
      by (auto simp: call_request_def)
    let ?body = "case r of Inr v \<Rightarrow> encode_success v | Inl x \<Rightarrow> failure_body tb (surfaced x)"
    have h: "owner_rpc ocfg tb txt onow owner GRAIN_CALL_HEADER (encode_request ?req) w = (Inr ?body, w')"
      using dec live known assms(3)
      by (simp add: owner_rpc_def handle_grain_call_def grain_response_def call_request_def split: sum.split)
    show "invoke_remote cfg (Some (owner_rpc ocfg tb txt onow)) now owner g m args kwargs rt w
        = (remote_view r, rt\<lparr>next_call_id := next_call_id rt + 1\<rparr>, w')"
      using assms(4) decode_encode_success decode_encode_failure
      by (cases r) (simp_all add: inv h remote_view_def crosses_def failure_body_def format_exception_for_wire_def)
  next
    assume late: "0 < remote_call_timeout cfg \<and> now + remote_call_timeout cfg \<le> onow"
    have h: "owner_rpc ocfg tb txt onow owner GRAIN_CALL_HEADER (encode_request ?req) w
        = (Inr (encode_failure (lit ''TimeoutError'') (lit ''deadline expired before handler ran'') None), w)"
      using dec late
      by (simp add: owner_rpc_def handle_grain_call_def grain_response_def call_request_def del: list.map)
    have "valid_str (lit ''TimeoutError'')" "valid_str (lit ''deadline expired before handler ran'')"
      by (simp_all add: valid_str_def valid_cp_def)
    from decode_encode_failure [OF this, of None]
    show "invoke_remote cfg (Some (owner_rpc ocfg tb txt onow)) now owner g m args kwargs rt w
        = (Inl (remote_exn (lit ''TimeoutError'') (lit ''deadline expired before handler ran'')),
           rt\<lparr>next_call_id := next_call_id rt + 1\<rparr>, w)"
      by (simp add: inv h MAX_EXCEPTION_MESSAGE_LEN_def) 
  }
qed

lemma demo_call:
  obtains rt' where "invoke_local demo_config now demo_grain (lit ''get'') [] [] (demo_runtime [] [])
    = (Some (Inr (JStr (lit ''v''))), rt')"
proof -
  let ?rt = "demo_runtime [] []"
  obtain f rt1 where en: "enqueue_call 0 (lit ''get'') [] [] ?rt = (f, rt1)" by fastforce
  have act: "dget (activations ?rt) demo_grain = Some 0" "inbox (objects ?rt ! 0) = []"
    "objects ?rt ! 0 = demo_activation []"
    by (simp_all add: demo_runtime_def demo_activation_def dget_def)
  have "cache_at (lit ''/d'') demo_grain (lit ''/d/StringCacheGrain/k.json'')"
    by (simp add: cache_at_def demo_grain_def file_slot_def grain_path_def sanitize_path_component_def is_safe_char_def)
  then have reg: "registry demo_config (grain_type demo_grain) = Some StringCacheGrain"
    unfolding demo_config_def by (rule file_config_class)
  have m: "lit ''get'' \<in> set (get_grain_methods StringCacheGrain)" by (simp add: cache_members)
  have b: "bodies demo_config (grain_type demo_grain) (lit ''get'') [] [] (objects ?rt ! 0, store ?rt)
      = (Inr (JStr (lit ''v'')), demo_activation [], store ?rt)"
    unfolding act(3) by (rule demo_get)
  from idle_call [OF demo_framed demo_runtime_ok act(1,2) b en, of now] show ?thesis
    unfolding invoke_active [OF act(1) reg m en, symmetric] using that by (metis as_result_outcome(1))
qed

theorem remote_call_transparent_witness:
  "\<exists>w'. invoke_remote (demo_config\<lparr>remote_call_timeout := 0\<rparr>) (Some (owner_rpc demo_config (\<lambda>_. []) (\<lambda>_. []) 7))
     5 (SiloAddress (lit ''h'') 1 2) demo_grain (lit ''get'') [] [] (new_runtime []) (demo_runtime [] [])
   = (Inr (JStr (lit ''v'')), (new_runtime [])\<lparr>next_call_id := 1\<rparr>, w')"
proof -
  let ?cfg = "demo_config\<lparr>remote_call_timeout := 0\<rparr>" and ?rt = "new_runtime [] :: (pyval, disk) GrainRuntime"
  have req: "request_ok (call_request ?cfg 5 demo_grain (lit ''get'') [] [] (next_call_id ?rt + 1))"
    by (simp add: request_ok_def call_request_def demo_config_def cache_config_def demo_grain_def valid_str_def
        valid_cp_def silo_id_def valid_str_int Let_def)
  have reg: "registry demo_config (grain_type demo_grain) = Some StringCacheGrain"
    by (simp add: demo_config_def cache_config_def demo_grain_def Let_def)
  from demo_call [of 7] obtain w' where
    w: "invoke_local demo_config 7 demo_grain (lit ''get'') [] [] (demo_runtime [] []) = (Some (Inr (JStr (lit ''v''))), w')"
    by metis
  have c: "crosses (\<lambda>_. []) (Inr (JStr (lit ''v'')))" by (simp add: crosses_def valid_cp_def)
  have t: "remote_call_timeout ?cfg \<le> 0" by simp
  from remote_call_transparent [OF req reg w c, of "\<lambda>_. []" "SiloAddress (lit ''h'') 1 2"] t show ?thesis
    by (simp add: remote_view_def new_runtime_def)
qed

subsection \<open>Idle collection\<close>

text \<open>
  An idle pass that meets no error deactivates exactly the grains whose last call started longer ago
  than the timeout: those leave the table, all others keep their place, their object and its state.
  If the directory fails to unregister one of them, the pass ends there with that error: the grain is
  gone from the table all the same, and the ones after it are not looked at.
\<close>

theorem idle_pass_exact:
  assumes "framed cfg" "rt_ok rt"
    "idle_collector_single_pass cfg ops now in_time rt d = (r, rt', d')"
  shows "(r = Inr () \<longrightarrow> activations rt' =
        filter (\<lambda>(g, i). \<not> now - last_activity (objects rt ! i) > idle_timeout cfg) (activations rt))
    \<and> (\<forall>g i. dget (activations rt) g = Some i \<longrightarrow> \<not> now - last_activity (objects rt ! i) > idle_timeout cfg \<longrightarrow>
         dget (activations rt') g = Some i \<and> objects rt' ! i = objects rt ! i)
    \<and> (\<forall>g i gs. activations rt = (g, i) # gs \<longrightarrow> now - last_activity (objects rt ! i) > idle_timeout cfg \<longrightarrow>
         (\<exists>e d1. in_unregister ops g (local_silo cfg) d = (Inl e, d1)) \<longrightarrow>
         (\<exists>e. r = Inl e) \<and> activations rt' = gs)"
proof -
  let ?idle = "\<lambda>(g, i). now - last_activity (objects rt ! i) > idle_timeout cfg"
  let ?gs = "map fst (filter ?idle (activations rt))"
  have all: "deactivate_all cfg ops now in_time ?gs rt d = (r, rt', d')"
    using assms(3) by (simp add: idle_collector_single_pass_def)
  note spec = deactivate_all_spec [OF assms(1,2) all]
  have ok: "dict_ok (activations rt)" using rt_okD(1) [OF assms(2)] .
  have mem: "g \<in> set ?gs \<longleftrightarrow> ?idle (g, i)" if "(g, i) \<in> set (activations rt)" for g i
  proof -
    have uniq: "j = i" if "(g, j) \<in> set (activations rt)" for j
      using eq_key_imp_eq_value [OF ok that] \<open>(g, i) \<in> set (activations rt)\<close> by simp
    have "g \<in> set ?gs \<longleftrightarrow> (\<exists>j. (g, j) \<in> set (activations rt) \<and> ?idle (g, j))" by force
    then show ?thesis using uniq that by blast
  qed
  have eq: "filter (\<lambda>(g, _). g \<notin> set ?gs) (activations rt) = filter (\<lambda>x. \<not> ?idle x) (activations rt)"
    by (rule filter_cong [OF refl]) (use mem in \<open>auto simp del: set_map\<close>)
  show ?thesis
  proof (intro conjI allI impI)
    assume "r = Inr ()"
    with spec eq show "activations rt' =
        filter (\<lambda>(g, i). \<not> now - last_activity (objects rt ! i) > idle_timeout cfg) (activations rt)"
      by (simp add: case_prod_beta')
  next
    fix g i assume g: "dget (activations rt) g = Some i" "\<not> now - last_activity (objects rt ! i) > idle_timeout cfg"
    have "g \<notin> set ?gs" using mem [of g i] g ok by (simp add: dget_Some_iff)
    with spec g(1) show "dget (activations rt') g = Some i" "objects rt' ! i = objects rt ! i" by auto
  next
    fix g i gs assume h: "activations rt = (g, i) # gs" "now - last_activity (objects rt ! i) > idle_timeout cfg"
      "\<exists>e d1. in_unregister ops g (local_silo cfg) d = (Inl e, d1)"
    then obtain e d1 where e: "in_unregister ops g (local_silo cfg) d = (Inl e, d1)" by blast
    obtain r1 rt1 d2 where one: "deactivate_grain cfg ops now in_time g rt d = (r1, rt1, d2)" by (metis prod_cases3)
    have r1: "r1 = Inl e" using one e h(1) by (auto simp: deactivate_grain_def Let_def dget_def split: prod.splits)
    have "dpop (activations rt) g = gs"
      using h(1) ok by (force simp: dpop_def filter_id_conv)
    then show "\<exists>e. r = Inl e" "activations rt' = gs"
      using all h(1,2) one r1 deactivate_grain_ok [OF assms(1,2) one] by auto
  qed
qed

theorem idle_pass_exact_witness:
  "idle_collector_single_pass demo_config mute_directory 5 True (demo_runtime [] []) () = (Inr (), demo_runtime [] [], ())
   \<and> dget (activations (demo_runtime [] [])) demo_grain = Some 0"
proof -
  have g: "dget (activations (demo_runtime [] [])) demo_grain = Some 0"
    by (simp add: demo_runtime_def dget_def)
  have young: "\<not> 5 - last_activity (objects (demo_runtime [] []) ! 0) > idle_timeout demo_config"
    by (simp add: demo_runtime_def demo_activation_def demo_config_def cache_config_def Let_def)
  then have pass: "idle_collector_single_pass demo_config mute_directory 5 True (demo_runtime [] []) () = (Inr (), demo_runtime [] [], ())"
    by (simp add: idle_collector_single_pass_def) (simp add: demo_runtime_def)
  from idle_pass_exact [OF demo_framed demo_runtime_ok pass] g young pass show ?thesis by blast
qed

subsection \<open>Activations that fail or race\<close>

text \<open>
  A failing \<^verbatim>\<open>on_activate\<close> does not undo the activation: the caller gets the error, but
  the object stays in the table with its worker running and whatever state the hook left. The next
  call finds it there and runs its method on that state; the hook is not run again.
\<close>

theorem failed_on_activate_stays:
  assumes "framed cfg" "rt_ok rt" "dget (activations rt) g = None" "registry cfg (grain_type g) = Some c"
    "has_member c (lit ''on_activate'')" "prepare_activation cfg now g (store rt) = Inr act"
    "bodies cfg (grain_type g) (lit ''on_activate'') [] [] (act\<lparr>worker_running := True\<rparr>, store rt) = (Inl e, act1, st1)"
  shows "\<exists>i rt1. activate_grain cfg now g rt = (Some (Inl (method_error (grain_type g) (lit ''on_activate'') e)), rt1)
    \<and> dget (activations rt1) g = Some i \<and> worker_running (objects rt1 ! i)
    \<and> same_core act1 (objects rt1 ! i) \<and> store rt1 = st1
    \<and> (\<forall>later. activate_grain cfg later g rt1 = (Some (Inr i), rt1))
    \<and> (\<forall>later m args kwargs r act2 st2. m \<in> set (get_grain_methods c) \<longrightarrow>
         bodies cfg (grain_type g) m args kwargs (objects rt1 ! i, st1) = (r, act2, st2) \<longrightarrow>
         fst (invoke_local cfg later g m args kwargs rt1) = Some (as_result (call_outcome (grain_type g) m r)))"
proof -
  obtain i rt0 where inst: "install_activation act rt = (i, rt0)" by fastforce
  have i: "rt_ok rt0" "dget (activations rt0) g = Some i" "objects rt0 ! i = act\<lparr>worker_running := True\<rparr>"
    "inbox act = []" "act_grain act = g" "store rt0 = store rt"
    using installed [OF assms(2,6) inst] prepared [OF assms(6)] inst by (auto simp: install_activation_def Let_def)
  obtain f rt2 where en: "enqueue_call i (lit ''on_activate'') [] [] rt0 = (f, rt2)" by fastforce
  have b: "bodies cfg (grain_type g) (lit ''on_activate'') [] [] (objects rt0 ! i, store rt0) = (Inl e, act1, st1)"
    using assms(7) i(3,6) by simp
  have empty: "inbox (objects rt0 ! i) = []" using i(3,4) by simp
  from idle_call [OF assms(1) i(1,2) empty b en, of now] obtain rt1 where
    aw: "await_call cfg now i f rt2 = (Some (Inl (method_error (grain_type g) (lit ''on_activate'') e)), rt1)"
      "rt_ok rt1" "store rt1 = st1" "same_core act1 (objects rt1 ! i)" "inbox (objects rt1 ! i) = []"
      "activations rt1 = activations rt0"
    by (metis as_result_outcome(2))
  have known: "get_grain_class cfg (grain_type g) = Inr c" using assms(4) by (simp add: get_grain_class_def)
  have gr: "act_grain (objects rt0 ! i) = g" using i(3,5) by simp
  have "activate_grain cfg now g rt = (Some (Inl (method_error (grain_type g) (lit ''on_activate'') e)), rt1)"
    using assms(3,5,6) inst en aw(1) by (simp add: activate_grain_def run_on_activate_def gr known del: list.map)
  moreover have tab: "dget (activations rt1) g = Some i" using aw(6) i(2) by simp
  moreover have "fst (invoke_local cfg later g m args kwargs rt1) = Some (as_result (call_outcome (grain_type g) m r))"
    if "m \<in> set (get_grain_methods c)" "bodies cfg (grain_type g) m args kwargs (objects rt1 ! i, st1) = (r, act2, st2)"
    for later m args kwargs r act2 st2
  proof -
    obtain f' rt3 where en': "enqueue_call i m args kwargs rt1 = (f', rt3)" by fastforce
    have b: "bodies cfg (grain_type g) m args kwargs (objects rt1 ! i, store rt1) = (r, act2, st2)"
      using that(2) aw(3) by simp
    from idle_call [OF assms(1) aw(2) tab aw(5) b en', of later] show ?thesis
      unfolding invoke_active [OF tab assms(4) that(1) en'] by (metis fst_conv)
  qed
  ultimately show ?thesis
    using aw rt_okD(2) [OF aw(2) tab] by (intro exI [of _ i] exI [of _ rt1]) (simp add: activate_grain_def)
qed

text \<open>The same grain class with a hook that raises.\<close>

definition hooked_config :: "(pyval, disk) RuntimeConfig" where
  "hooked_config = demo_config\<lparr>registry := (\<lambda>t. Some (StringCacheGrain\<lparr>cls_members :=
     (lit ''on_activate'', True) # cls_members StringCacheGrain\<rparr>))\<rparr>"

lemma hooked_framed: "framed hooked_config"
  using demo_framed by (simp add: framed_def hooked_config_def)

theorem failed_on_activate_stays_witness:
  "\<exists>i rt1. activate_grain hooked_config 1 demo_grain (new_runtime []) =
       (Some (Inl (method_error (lit ''StringCacheGrain'') (lit ''on_activate'') (raise_named ''AttributeError'' None))), rt1)
     \<and> activate_grain hooked_config 2 demo_grain rt1 = (Some (Inr i), rt1)"
proof -
  let ?c = "StringCacheGrain\<lparr>cls_members := (lit ''on_activate'', True) # cls_members StringCacheGrain\<rparr>"
  let ?rt = "new_runtime [] :: (pyval, disk) GrainRuntime"
  have none: "dget (activations ?rt) demo_grain = None" "store ?rt = []" by (simp_all add: new_runtime_def)
  have reg: "registry hooked_config (grain_type demo_grain) = Some ?c" by (simp add: hooked_config_def)
  have c: "cls_default_state ?c = Some (StringCacheState (VStr []))" "cls_construct ?c = Inr ()"
    by (simp_all add: StringCacheGrain_def)
  have hook: "has_member ?c (lit ''on_activate'')" by (simp add: has_member_def)
  have on_disk: "file_read (lit ''/d'') (grain_type demo_grain) (grain_key demo_grain) [] = Inr (JObj [], JNull)"
    by (simp add: file_read_def grain_path_def sanitize_path_component_def is_safe_char_def demo_grain_def)
  have st: "storage_of hooked_config ?c = Some (file_storage (lit ''/d''))"
    by (simp add: storage_of_def hooked_config_def demo_config_def cache_config_def StringCacheGrain_def Let_def)
  have "\<exists>act. prepare_activation hooked_config 1 demo_grain (store ?rt) = Inr act"
    by (simp add: prepare_activation_def get_grain_class_def reg load_state_def st none on_disk c file_storage_def
        state_from_def del: list.map)
  then obtain act where act: "prepare_activation hooked_config 1 demo_grain (store ?rt) = Inr act" by blast
  have "bodies hooked_config (grain_type demo_grain) (lit ''on_activate'') [] [] (act\<lparr>worker_running := True\<rparr>, store ?rt)
      = (Inl (raise_named ''AttributeError'' None), act\<lparr>worker_running := True\<rparr>, store ?rt)"
    by (simp add: hooked_config_def demo_config_def file_config_bodies cache_body_def)
  from failed_on_activate_stays [OF hooked_framed new_runtime_ok none(1) reg hook act this] show ?thesis
    by (auto simp: demo_grain_def simp del: list.map)
qed

lemma deactivate_grain_others:
  assumes "deactivate_grain cfg ops now in_time g rt d = (r, rt', d')" "dget (activations rt) g = Some j" "k \<noteq> j"
  shows "objects rt' ! k = objects rt ! k"
  using assms by (auto simp: deactivate_grain_def Let_def stop_worker_others run_on_deactivate_others split: prod.splits)

text \<open>
  Two calls that reach a grain while it is not active: with a storage provider whose
  \<^verbatim>\<open>read\<close> suspends, both may pass the table check and prepare an activation before either
  installs one. Then the grain has two objects with running workers. The table knows the second
  only, and deactivating the grain stops that one: the first keeps running and is out of reach.
\<close>

theorem racing_activations:
  assumes "rt_ok rt" "prepare_activation cfg t1 g st1 = Inr a" "prepare_activation cfg t2 g st2 = Inr b"
    "install_activation a rt = (i, rt1)" "install_activation b rt1 = (j, rt2)" "framed cfg"
    "deactivate_grain cfg ops now in_time g rt2 d = (r, rt3, d')"
  shows "i \<noteq> j \<and> rt_ok rt2 \<and> act_grain (objects rt2 ! i) = g \<and> act_grain (objects rt2 ! j) = g
    \<and> worker_running (objects rt2 ! i) \<and> worker_running (objects rt2 ! j)
    \<and> dget (activations rt2) g = Some j
    \<and> dget (activations rt3) g = None \<and> worker_running (objects rt3 ! i)
    \<and> i \<notin> ran (dget (activations rt3))"
proof -
  note i = installed [OF assms(1,2,4)] prepared [OF assms(2)]
  from i have ok1: "rt_ok rt1" by blast
  note j = installed [OF ok1 assms(3,5)] prepared [OF assms(3)]
  have ij: "i < j" using assms(4) i(1) j(1) by (auto simp: install_activation_def Let_def)
  have old: "objects rt2 ! i = objects rt1 ! i"
    using assms(5) ij j(1) by (auto simp: install_activation_def Let_def nth_append)
  have run: "worker_running (objects rt2 ! i)" "act_grain (objects rt2 ! i) = g"
    "worker_running (objects rt2 ! j)" "act_grain (objects rt2 ! j) = g"
  proof -
    have "objects rt1 ! i = a\<lparr>worker_running := True\<rparr>" "objects rt2 ! j = b\<lparr>worker_running := True\<rparr>"
      "act_grain a = g" "act_grain b = g" using i j by blast+
    then show "worker_running (objects rt2 ! i)" "act_grain (objects rt2 ! i) = g"
      "worker_running (objects rt2 ! j)" "act_grain (objects rt2 ! j) = g" by (simp_all add: old)
  qed
  from j(1) have ok2: "rt_ok rt2" "dget (activations rt2) g = Some j" by blast+
  note de = deactivate_grain_ok [OF assms(6) ok2(1) assms(7)]
  have kept: "objects rt3 ! i = objects rt2 ! i"
    using deactivate_grain_others [OF assms(7) ok2(2)] ij by simp
  have "i \<notin> ran (dget (activations rt3))"
  proof
    assume "i \<in> ran (dget (activations rt3))"
    then obtain h where "dget (activations rt3) h = Some i" by (auto simp: ran_def)
    with de have "h \<noteq> g" "dget (activations rt2) h = Some i" by (auto split: if_split_asm)
    with rt_okD(2) [OF ok2(1)] run(2) show False by blast
  qed
  then show ?thesis using ij run ok2 de kept by simp
qed

lemma demo_prepare: "\<exists>act. prepare_activation demo_config t demo_grain [] = Inr act"
proof -
  let ?rt = "new_runtime [] :: (pyval, disk) GrainRuntime"
  have path: "cache_at (lit ''/d'') demo_grain (lit ''/d/StringCacheGrain/k.json'')"
    by (simp add: cache_at_def demo_grain_def file_slot_def grain_path_def sanitize_path_component_def is_safe_char_def)
  have inv: "cache_inv (lit ''/d/StringCacheGrain/k.json'') demo_grain (JStr []) ?rt"
    by (simp add: cache_inv_def) (simp add: new_runtime_def files_ok_def file_at_def)
  have st: "store ?rt = []" by (simp add: new_runtime_def)
  show ?thesis
    unfolding demo_config_def
    by (rule cache_prepare [OF path inv, unfolded st]) (rule exI)
qed

theorem racing_activations_witness:
  "\<exists>a b. prepare_activation demo_config 1 demo_grain [] = Inr a \<and> prepare_activation demo_config 2 demo_grain [] = Inr b
     \<and> worker_running (objects (snd (install_activation b (snd (install_activation a
          (new_runtime [] :: (pyval, disk) GrainRuntime))))) ! 0)"
proof -
  obtain a b where ab: "prepare_activation demo_config 1 demo_grain [] = Inr a"
    "prepare_activation demo_config 2 demo_grain [] = Inr b"
    using demo_prepare by metis
  obtain i rt1 where i: "install_activation a (new_runtime [] :: (pyval, disk) GrainRuntime) = (i, rt1)" by fastforce
  obtain j rt2 where j: "install_activation b rt1 = (j, rt2)" by fastforce
  obtain r rt3 d where de: "deactivate_grain demo_config mute_directory 3 True demo_grain rt2 () = (r, rt3, d)" by (metis prod_cases3)
  from racing_activations [OF new_runtime_ok ab i j demo_framed de]
  have "worker_running (objects rt2 ! i)" by blast
  moreover have "i = 0" using i by (auto simp: install_activation_def new_runtime_def Let_def)
  ultimately show ?thesis using ab i j by auto
qed

end
