(* ===== verification/DirectoryRebuild.thy ===== *)
theory DirectoryRebuild
  imports DirectoryMessages
begin

text \<open>
  \<^verbatim>\<open>pyleans/cluster/directory_rebuild.py\<close>: which arcs of the ring a silo newly owns, how
  the replies of its peers are merged into its partition, and the coordinator that runs one
  rebuild at a time. The transport is the parameter \<open>send\<close>: the response body or the
  exception of a request to a peer.
\<close>

type_synonym partition = "(GrainId, DirectoryEntry) dict"
type_synonym duplicate = "SiloAddress \<times> GrainId \<times> int"

subsection \<open>Arcs\<close>

definition old_ring_owner_of_arc :: "ConsistentHashRing \<Rightarrow> Arc \<Rightarrow> SiloAddress option" where
  "old_ring_owner_of_arc old a = owner_of old (nat (arc_end a))"

definition node_arc :: "RingPosition list \<Rightarrow> nat \<Rightarrow> Arc" where
  "node_arc ps i =
     Arc (int (position (ps ! ((i + length ps - 1) mod length ps)))) (int (position (ps ! i)))"

definition compute_new_arcs ::
  "ConsistentHashRing option \<Rightarrow> ConsistentHashRing \<Rightarrow> SiloAddress \<Rightarrow> Arc list" where
  "compute_new_arcs old new local_silo =
     (let ps = ring_positions new
      in concat (map (\<lambda>i.
           if rp_silo (ps ! i) \<noteq> local_silo then []
           else let arc = node_arc ps i
                in case old of
                     None \<Rightarrow> [arc]
                   | Some r \<Rightarrow>
                       if old_ring_owner_of_arc r arc \<noteq> Some local_silo then [arc] else [])
         [0..<length ps]))"

subsection \<open>Merging\<close>

fun merge_loop :: "partition \<Rightarrow> duplicate list \<Rightarrow> DirectoryEntry list \<Rightarrow> partition \<times> duplicate list" where
  "merge_loop best losers [] = (best, losers)"
| "merge_loop best losers (entry # es) =
     (case dget best (entry_grain entry) of
        None \<Rightarrow> merge_loop (dset best (entry_grain entry) entry) losers es
      | Some current \<Rightarrow>
          let current_loses =
                merge_loop (dset best (entry_grain entry) entry)
                  (losers @ [(entry_silo current, entry_grain current, activation_epoch current)]) es;
              entry_loses =
                merge_loop best
                  (losers @ [(entry_silo entry, entry_grain entry, activation_epoch entry)]) es
          in if activation_epoch entry < activation_epoch current then current_loses
             else if activation_epoch entry > activation_epoch current then
               (if entry_silo entry \<noteq> entry_silo current then entry_loses
                else merge_loop best losers es)
             else if entry_silo entry \<noteq> entry_silo current then
               (if silo_id (entry_silo entry) < silo_id (entry_silo current) then current_loses
                else entry_loses)
             else merge_loop best losers es)"

definition merge_rebuild_candidates ::
  "DirectoryEntry list \<Rightarrow> partition \<Rightarrow> partition \<times> duplicate list" where
  "merge_rebuild_candidates candidates existing = merge_loop existing [] candidates"

subsection \<open>The coordinator\<close>

record DirectoryRebuildCoordinator =
  rc_local :: SiloAddress
  grace_period :: seconds
  rc_rpc_timeout :: seconds
  active_task :: "(Arc list \<times> SiloAddress list \<times> partition) option"

definition new_rebuild_coordinator ::
  "SiloAddress \<Rightarrow> seconds \<Rightarrow> seconds \<Rightarrow> DirectoryRebuildCoordinator result" where
  "new_rebuild_coordinator s grace timeout =
     (if grace < 0 then Inl ValueError
      else if timeout \<le> 0 then Inl ValueError
      else Inr \<lparr>rc_local = s, grace_period = grace, rc_rpc_timeout = timeout, active_task = None\<rparr>)"

definition is_rebuilding :: "DirectoryRebuildCoordinator \<Rightarrow> bool" where
  "is_rebuilding c = (active_task c \<noteq> None)"

text \<open>A task that still runs is cancelled and replaced.\<close>

definition schedule_rebuild ::
  "Arc list \<Rightarrow> SiloAddress list \<Rightarrow> partition \<Rightarrow> DirectoryRebuildCoordinator \<Rightarrow> DirectoryRebuildCoordinator"
  where
  "schedule_rebuild arcs peers existing c = c\<lparr>active_task := Some (arcs, peers, existing)\<rparr>"

definition cancel_rebuild :: "DirectoryRebuildCoordinator \<Rightarrow> DirectoryRebuildCoordinator" where
  "cancel_rebuild c = c\<lparr>active_task := None\<rparr>"

type_synonym rpc = "SiloAddress \<Rightarrow> bytes \<Rightarrow> bytes \<Rightarrow> bytes result"

definition query_peer :: "rpc \<Rightarrow> SiloAddress \<Rightarrow> Arc list \<Rightarrow> RebuildQueryResponse result" where
  "query_peer send peer arcs =
     res_bind (send peer DIRECTORY_REBUILD_QUERY_HEADER (encode_rebuild_query (RebuildQueryRequest arcs)))
       decode_rebuild_response"

text \<open>
  \<^verbatim>\<open>_run_rebuild\<close> after its grace period: nothing to do, or the partition to install and
  the duplicates to deactivate. A peer whose query fails is skipped.
\<close>

definition run_rebuild ::
  "rpc \<Rightarrow> Arc list \<Rightarrow> SiloAddress list \<Rightarrow> partition \<Rightarrow> (partition \<times> duplicate list) option" where
  "run_rebuild send arcs peers existing =
     (if arcs = [] \<or> peers = [] then None
      else Some (merge_rebuild_candidates
             (concat (map (\<lambda>peer. case query_peer send peer arcs of
                                    Inl _ \<Rightarrow> []
                                  | Inr r \<Rightarrow> response_entries r) peers))
             existing))"

subsection \<open>The merge picks the least entry\<close>

text \<open>Lowest epoch first, then the smaller silo id.\<close>

definition entry_rank :: "DirectoryEntry \<Rightarrow> int \<times> SiloAddress" where
  "entry_rank e = (activation_epoch e, entry_silo e)"

definition filed :: "partition \<Rightarrow> bool" where
  "filed t \<longleftrightarrow> (\<forall>g e. dget t g = Some e \<longrightarrow> entry_grain e = g)"

text \<open>The entries known of a grain.\<close>

definition known_entries :: "partition \<Rightarrow> DirectoryEntry list \<Rightarrow> GrainId \<Rightarrow> DirectoryEntry set" where
  "known_entries t es g = {e. dget t g = Some e} \<union> {e \<in> set es. entry_grain e = g}"

lemma entry_rank_inj: "entry_rank e = entry_rank e' \<Longrightarrow> entry_grain e = entry_grain e' \<Longrightarrow> e = e'"
  by (cases e; cases e') (simp add: entry_rank_def)

lemma entry_rank_less:
  "entry_rank e < entry_rank c \<longleftrightarrow>
     activation_epoch e < activation_epoch c
     \<or> activation_epoch e = activation_epoch c \<and> silo_id (entry_silo e) < silo_id (entry_silo c)"
  by (auto simp: entry_rank_def less_silo_id)

text \<open>One round of the loop, by rank.\<close>

lemma merge_step:
  assumes "filed best" "dget best (entry_grain entry) = Some current"
  shows "entry_rank entry < entry_rank current \<Longrightarrow> merge_loop best losers (entry # es) =
      merge_loop (dset best (entry_grain entry) entry)
        (losers @ [(entry_silo current, entry_grain entry, activation_epoch current)]) es"
    and "\<not> entry_rank entry < entry_rank current \<Longrightarrow> merge_loop best losers (entry # es) =
      merge_loop best
        (losers @ (if entry_silo entry = entry_silo current then []
                   else [(entry_silo entry, entry_grain entry, activation_epoch entry)])) es"
  using assms by (auto simp: Let_def entry_rank_less filed_def)

lemma filed_dset: "filed t \<Longrightarrow> entry_grain e = g \<Longrightarrow> filed (dset t g e)"
  by (auto simp: filed_def)

lemma filed_Nil [simp]: "filed []"
  by (simp add: filed_def)

lemma table_ok_filed: "table_ok t n \<Longrightarrow> filed t"
  by (auto simp: filed_def dest: table_ok_get)

lemma merge_loop_filed: "filed best \<Longrightarrow> filed (fst (merge_loop best losers es))"
proof (induction es arbitrary: best losers)
  case (Cons e es)
  show ?case
  proof (cases "dget best (entry_grain e)")
    case None
    with Cons show ?thesis by (simp add: filed_dset)
  next
    case (Some c)
    from merge_step [OF Cons.prems Some] Cons show ?thesis
      by (cases "entry_rank e < entry_rank c") (simp_all add: filed_dset del: merge_loop.simps)
  qed
qed simp

definition is_winner :: "DirectoryEntry set \<Rightarrow> DirectoryEntry \<Rightarrow> bool" where
  "is_winner S w \<longleftrightarrow> w \<in> S \<and> (\<forall>e \<in> S. entry_rank w \<le> entry_rank e)"

lemma merge_loop_winner:
  "filed best \<Longrightarrow> dget (fst (merge_loop best losers es)) g = Some w \<Longrightarrow>
     is_winner (known_entries best es g) w"
proof (induction es arbitrary: best losers)
  case Nil
  then show ?case by (auto simp: is_winner_def known_entries_def)
next
  case (Cons e es)
  show ?case
  proof (cases "dget best (entry_grain e)")
    case None
    with Cons.prems have "is_winner (known_entries (dset best (entry_grain e) e) es g) w"
      by (intro Cons.IH) (auto simp: filed_dset)
    then show ?thesis using None by (auto simp: is_winner_def known_entries_def split: if_splits)
  next
    case (Some c)
    show ?thesis
    proof (cases "entry_rank e < entry_rank c")
      case True
      have "is_winner (known_entries (dset best (entry_grain e) e) es g) w"
        by (rule Cons.IH)
          (use Cons.prems merge_step(1) [OF Cons.prems(1) Some True] in
            \<open>simp_all add: filed_dset del: merge_loop.simps\<close>)
      then show ?thesis
        using Some True by (fastforce simp: is_winner_def known_entries_def split: if_splits)
    next
      case False
      have "is_winner (known_entries best es g) w"
        by (rule Cons.IH)
          (use Cons.prems merge_step(2) [OF Cons.prems(1) Some False] in
            \<open>simp_all del: merge_loop.simps\<close>)
      then show ?thesis
        using Some False by (fastforce simp: is_winner_def known_entries_def)
    qed
  qed
qed

lemma merge_loop_some:
  "filed best \<Longrightarrow> e \<in> known_entries best es g \<Longrightarrow> \<exists>w. dget (fst (merge_loop best losers es)) g = Some w"
proof (induction es arbitrary: best losers e)
  case Nil
  then show ?case by (auto simp: known_entries_def)
next
  case (Cons x es)
  show ?case
  proof (cases "dget best (entry_grain x)")
    case None
    have "\<exists>e'. e' \<in> known_entries (dset best (entry_grain x) x) es g"
      using Cons.prems(2) by (auto simp: known_entries_def split: if_splits)
    with None Cons.IH [of "dset best (entry_grain x) x"] Cons.prems(1) show ?thesis
      by (auto simp: filed_dset)
  next
    case (Some c)
    have "\<exists>e'. e' \<in> known_entries (dset best (entry_grain x) x) es g"
      "\<exists>e'. e' \<in> known_entries best es g"
      using Cons.prems(2) Some by (auto simp: known_entries_def split: if_splits)
    with merge_step [OF Cons.prems(1) Some] Cons.IH Cons.prems(1) show ?thesis
      by (cases "entry_rank x < entry_rank c")
        (auto simp: filed_dset simp del: merge_loop.simps)
  qed
qed

lemma is_winner_unique: "(\<And>e. e \<in> S \<Longrightarrow> entry_grain e = g) \<Longrightarrow> is_winner S w \<Longrightarrow> is_winner S w' \<Longrightarrow> w = w'"
  by (rule entry_rank_inj) (auto simp: is_winner_def intro: antisym)

lemma known_entries_grain: "filed t \<Longrightarrow> e \<in> known_entries t es g \<Longrightarrow> entry_grain e = g"
  by (auto simp: known_entries_def filed_def)

lemma merge_winner_iff:
  assumes "filed best"
  shows "dget (fst (merge_loop best losers es)) g = Some w \<longleftrightarrow> is_winner (known_entries best es g) w"
proof
  assume w: "is_winner (known_entries best es g) w"
  then obtain w' where w': "dget (fst (merge_loop best losers es)) g = Some w'"
    using merge_loop_some [OF assms, of w es g losers] by (auto simp: is_winner_def)
  have "w' = w"
    by (rule is_winner_unique [OF known_entries_grain [OF assms] merge_loop_winner [OF assms w'] w])
  with w' show "dget (fst (merge_loop best losers es)) g = Some w" by simp
qed (rule merge_loop_winner [OF assms])

text \<open>Whoever is told to stand down holds a known entry that lost.\<close>

lemma merge_losers_keep: "filed best \<Longrightarrow> set losers \<subseteq> set (snd (merge_loop best losers es))"
proof (induction es arbitrary: best losers)
  case (Cons e es)
  show ?case
  proof (cases "dget best (entry_grain e)")
    case None
    with Cons show ?thesis by (simp add: filed_dset)
  next
    case (Some c)
    let ?more = "losers @ (if entry_silo e = entry_silo c then []
      else [(entry_silo e, entry_grain e, activation_epoch e)])"
    have "set losers \<subseteq> set (snd (merge_loop (dset best (entry_grain e) e)
        (losers @ [(entry_silo c, entry_grain e, activation_epoch c)]) es))"
      by (rule order_trans [OF _ Cons.IH]) (auto simp: Cons.prems filed_dset)
    moreover have "set losers \<subseteq> set (snd (merge_loop best ?more es))"
      by (rule order_trans [OF _ Cons.IH]) (auto simp: Cons.prems)
    ultimately show ?thesis
      using merge_step [OF Cons.prems Some]
      by (cases "entry_rank e < entry_rank c") (simp_all del: merge_loop.simps)
  qed
qed simp

lemma merge_losers_lost:
  "filed best \<Longrightarrow> (s, g, n) \<in> set (snd (merge_loop best losers es)) \<Longrightarrow>
   (s, g, n) \<in> set losers \<or>
   (DirectoryEntry g s n \<in> known_entries best es g
    \<and> (\<exists>w \<in> known_entries best es g. entry_rank w < entry_rank (DirectoryEntry g s n)))"
proof (induction es arbitrary: best losers)
  case (Cons e es)
  show ?case
  proof (cases "dget best (entry_grain e)")
    case None
    with Cons.IH [of "dset best (entry_grain e) e" losers] Cons.prems show ?thesis
      by (auto simp: filed_dset known_entries_def split: if_splits)
  next
    case (Some c)
    then have c: "c = DirectoryEntry (entry_grain e) (entry_silo c) (activation_epoch c)"
      using Cons.prems(1) unfolding filed_def by (metis DirectoryEntry.collapse)
    show ?thesis
    proof (cases "entry_rank e < entry_rank c")
      case True
      from Cons.IH [of "dset best (entry_grain e) e"
          "losers @ [(entry_silo c, entry_grain e, activation_epoch c)]"]
        Cons.prems merge_step(1) [OF Cons.prems(1) Some True, of losers es]
      have "(s, g, n) \<in> set losers \<or> (s, g, n) = (entry_silo c, entry_grain e, activation_epoch c)
        \<or> (DirectoryEntry g s n \<in> known_entries (dset best (entry_grain e) e) es g
           \<and> (\<exists>w \<in> known_entries (dset best (entry_grain e) e) es g.
                entry_rank w < entry_rank (DirectoryEntry g s n)))"
        by (auto simp: filed_dset simp del: merge_loop.simps)
      then show ?thesis
        using Some True c by (auto simp: known_entries_def split: if_splits)
    next
      case False
      from Cons.IH [of best "losers @ (if entry_silo e = entry_silo c then []
            else [(entry_silo e, entry_grain e, activation_epoch e)])"]
        Cons.prems merge_step(2) [OF Cons.prems(1) Some False, of losers es]
      have "(s, g, n) \<in> set losers
        \<or> (s, g, n) = (entry_silo e, entry_grain e, activation_epoch e) \<and> entry_silo e \<noteq> entry_silo c
        \<or> (DirectoryEntry g s n \<in> known_entries best es g
           \<and> (\<exists>w \<in> known_entries best es g. entry_rank w < entry_rank (DirectoryEntry g s n)))"
        by (auto simp del: merge_loop.simps split: if_splits)
      moreover have "entry_rank c < entry_rank e" if "entry_silo e \<noteq> entry_silo c"
        using False that by (auto simp: entry_rank_def not_less less_le)
      ultimately show ?thesis using Some c by (auto simp: known_entries_def)
    qed
  qed
qed simp

text \<open>Every silo that holds an entry and is not the winner's is told.\<close>

lemma merge_losers_told:
  "filed best \<Longrightarrow> e \<in> known_entries best es g \<Longrightarrow>
   dget (fst (merge_loop best losers es)) g = Some w \<Longrightarrow> entry_silo e \<noteq> entry_silo w \<Longrightarrow>
   \<exists>n. (entry_silo e, g, n) \<in> set (snd (merge_loop best losers es))"
proof (induction es arbitrary: best losers e)
  case Nil
  then show ?case by (auto simp: known_entries_def)
next
  case (Cons x es)
  show ?case
  proof (cases "dget best (entry_grain x)")
    case None
    then have "e \<in> known_entries (dset best (entry_grain x) x) es g"
      using Cons.prems(2) by (auto simp: known_entries_def)
    with Cons.prems None Cons.IH [of "dset best (entry_grain x) x" e losers] show ?thesis
      by (simp add: filed_dset)
  next
    case (Some c)
    show ?thesis
    proof (cases "entry_rank x < entry_rank c")
      case True
      let ?b = "dset best (entry_grain x) x"
      let ?l = "losers @ [(entry_silo c, entry_grain x, activation_epoch c)]"
      note step = merge_step(1) [OF Cons.prems(1) Some True, of losers es]
      have b: "filed ?b" using Cons.prems(1) by (simp add: filed_dset)
      show ?thesis
      proof (cases "e \<in> known_entries ?b es g")
        case known: True
        show ?thesis
          unfolding step by (rule Cons.IH [OF b known _ Cons.prems(4)]) (use Cons.prems(3) step in simp)
      next
        case False
        then have "g = entry_grain x" "e = c"
          using Cons.prems(2) Some by (auto simp: known_entries_def split: if_splits)
        with merge_losers_keep [OF b, of ?l es] show ?thesis unfolding step by auto
      qed
    next
      case False
      let ?l = "losers @ (if entry_silo x = entry_silo c then []
        else [(entry_silo x, entry_grain x, activation_epoch x)])"
      note step = merge_step(2) [OF Cons.prems(1) Some False, of losers es]
      show ?thesis
      proof (cases "e \<in> known_entries best es g")
        case known: True
        show ?thesis
          unfolding step by (rule Cons.IH [OF Cons.prems(1) known _ Cons.prems(4)]) (use Cons.prems(3) step in simp)
      next
        case new: False
        then have e: "e = x" "g = entry_grain x"
          using Cons.prems(2) by (auto simp: known_entries_def)
        show ?thesis
        proof (cases "entry_silo x = entry_silo c")
          case True
          have "c \<in> known_entries best es g" using Some e by (simp add: known_entries_def)
          from Cons.IH [OF Cons.prems(1) this, of ?l] True Cons.prems(3,4) e step show ?thesis
            by (simp del: merge_loop.simps)
        next
          case False
          with merge_losers_keep [OF Cons.prems(1), of ?l es] e show ?thesis unfolding step by auto
        qed
      qed
    qed
  qed
qed

subsection \<open>Arc coverage\<close>

lemma mem_compute_new_arcs:
  "a \<in> set (compute_new_arcs old new s) \<longleftrightarrow>
     (\<exists>i < length (ring_positions new). a = node_arc (ring_positions new) i
        \<and> rp_silo (ring_positions new ! i) = s
        \<and> (case old of None \<Rightarrow> True | Some r \<Rightarrow> owner_of r (position (ring_positions new ! i)) \<noteq> Some s))"
  by (auto simp: compute_new_arcs_def Let_def old_ring_owner_of_arc_def node_arc_def
      split: option.splits if_splits)

text \<open>The node whose arc covers a hash is the node the lookup finds.\<close>

lemma arc_of_owner:
  fixes h :: nat
  assumes sorted: "sorted (map position P)" and dist: "distinct (map position P)"
    and two: "2 \<le> length P" and i: "i < length P"
  shows "arc_contains (node_arc P i) (int h) \<longleftrightarrow>
    i = (let b = bisect_left (map position P) h in if b = length P then 0 else b)"
proof -
  define b where "b = bisect_left (map position P) h"
  have b: "b \<le> length P" "\<And>j. j < length P \<Longrightarrow> j < b \<longleftrightarrow> position (P ! j) < h"
    using bisect_left_spec(1) [OF sorted, of h] bisect_left_spec(2) [OF sorted, where x = h]
      bisect_left_spec(3) [OF sorted, where x = h]
    by (fastforce simp: b_def not_less [symmetric])+
  have lt: "position (P ! j) < position (P ! k)" if "j < k" "k < length P" for j k
    using that sorted_nth_mono [OF sorted, of j k] nth_eq_iff_index_eq [OF dist, of j k]
    by (fastforce simp: le_less)
  show ?thesis
  proof (cases i)
    case 0
    have prev: "(0 + length P - 1) mod length P = length P - 1" using two by simp
    have "position (P ! 0) < position (P ! (length P - 1))" using lt [of 0 "length P - 1"] two by simp
    then have "arc_contains (node_arc P i) (int h) \<longleftrightarrow>
        position (P ! (length P - 1)) < h \<or> \<not> position (P ! 0) < h"
      using 0 prev by (auto simp: arc_contains_def node_arc_def)
    also have "\<dots> \<longleftrightarrow> b = length P \<or> b = 0"
    proof -
      have "length P - 1 < length P" "0 < length P" using two by linarith+
      from b(2) [OF this(1)] b(2) [OF this(2)] b(1) show ?thesis by linarith
    qed
    finally show ?thesis using 0 two by (auto simp: Let_def simp flip: b_def)
  next
    case (Suc j)
    have prev: "(i + length P - 1) mod length P = j" using Suc i by simp
    have "position (P ! j) < position (P ! i)" using lt [of j i] Suc i by simp
    then have "arc_contains (node_arc P i) (int h) \<longleftrightarrow> position (P ! j) < h \<and> \<not> position (P ! i) < h"
      using prev by (auto simp: arc_contains_def node_arc_def)
    also have "\<dots> \<longleftrightarrow> b = i" using b(2) [of j] b(2) [of i] Suc i by auto
    finally show ?thesis using Suc i by (auto simp: Let_def simp flip: b_def)
  qed
qed

lemma arcs_cover_owned:
  assumes "distinct (map position (ring_positions (ring_for sha silos v)))"
    and "2 \<le> length (ring_positions (ring_for sha silos v))"
  shows "(\<exists>a \<in> set (compute_new_arcs None (ring_for sha silos v) s). arc_contains a (int h))
    \<longleftrightarrow> owner_of (ring_for sha silos v) h = Some s"
proof -
  define P where "P = ring_positions (ring_for sha silos v)"
  define k where "k = (let b = bisect_left (map position P) h in if b = length P then 0 else b)"
  have "bisect_left (map position P) h \<le> length P"
    using bisect_left_spec(1) [OF sorted_ring_hashes, of sha silos v h] by (simp add: P_def)
  then have k: "k < length P" using assms(2) by (auto simp: k_def Let_def P_def)
  have "owner_of (ring_for sha silos v) h = Some (rp_silo (P ! k))"
    using k by (auto simp: owner_of_def k_def Let_def P_def)
  moreover have "arc_contains (node_arc P i) (int h) \<longleftrightarrow> i = k" if "i < length P" for i
    unfolding k_def using assms that by (intro arc_of_owner) (simp_all add: P_def sorted_ring_hashes)
  ultimately show ?thesis
    using k unfolding Bex_def mem_compute_new_arcs P_def [symmetric] by (metis option.inject option.simps(4))
qed

lemma no_arcs_for_survivor:
  assumes "s \<in> set olds" and "distinct (map position (ring_positions (ring_for sha olds v)))"
  shows "compute_new_arcs (Some (ring_for sha olds v)) (ring_for sha news v) s = []"
proof -
  have own: "owner_of (ring_for sha olds v) (position p) = Some s"
    if p: "p \<in> set (ring_positions (ring_for sha news v))" "rp_silo p = s" for p
  proof -
    have old: "p \<in> set (ring_positions (ring_for sha olds v))"
      using p assms(1) by (auto simp: set_ring_positions)
    have inj: "inj_on position (set (ring_positions (ring_for sha olds v)))"
      using assms(2) by (simp add: distinct_map)
    have "pos_key p \<le> pos_key q"
      if "q \<in> set (ring_positions (ring_for sha olds v))" "position p \<le> position q" for q
    proof (cases "position p = position q")
      case True
      with inj_onD [OF inj _ old that(1)] show ?thesis by simp
    next
      case False
      with that(2) show ?thesis by (simp add: pos_key_def less_eq_prod_def)
    qed
    then have "owns_key (set (ring_positions (ring_for sha olds v))) (position p) p"
      unfolding owns_key_def using old by blast
    with p(2) show ?thesis unfolding owner_of_iff by blast
  qed
  have "a \<notin> set (compute_new_arcs (Some (ring_for sha olds v)) (ring_for sha news v) s)" for a
  proof
    assume "a \<in> set (compute_new_arcs (Some (ring_for sha olds v)) (ring_for sha news v) s)"
    then obtain i where i: "i < length (ring_positions (ring_for sha news v))"
      "rp_silo (ring_positions (ring_for sha news v) ! i) = s"
      "owner_of (ring_for sha olds v) (position (ring_positions (ring_for sha news v) ! i)) \<noteq> Some s"
      unfolding mem_compute_new_arcs option.case by blast
    from own [OF nth_mem [OF i(1)] i(2)] i(3) show False by contradiction
  qed
  then have "set (compute_new_arcs (Some (ring_for sha olds v)) (ring_for sha news v) s) = {}"
    by (simp only: set_eq_iff empty_iff not_False_eq_True simp_thms)
  then show ?thesis by (simp only: set_empty)
qed

subsection \<open>Properties\<close>

text \<open>
  C23. Merging rebuild replies: for every grain the installed entry is the least of all known
  ones, the existing entry and the replies together, by activation epoch and then by silo id, so
  the outcome does not depend on the order in which the peers answered; a silo is told to stand
  down only for an entry it holds that a smaller one beats; and every silo that holds an entry
  and is not the winner's is told.
\<close>

theorem rebuild_merge_spec:
  assumes "\<forall>g e. dget existing g = Some e \<longrightarrow> entry_grain e = g"
  shows "(\<forall>g w. dget (fst (merge_rebuild_candidates candidates existing)) g = Some w \<longleftrightarrow>
        is_winner (known_entries existing candidates g) w)
    \<and> (\<forall>candidates'. set candidates' = set candidates \<longrightarrow>
        dget (fst (merge_rebuild_candidates candidates' existing))
          = dget (fst (merge_rebuild_candidates candidates existing)))
    \<and> (\<forall>s g n. (s, g, n) \<in> set (snd (merge_rebuild_candidates candidates existing)) \<longrightarrow>
        DirectoryEntry g s n \<in> known_entries existing candidates g
        \<and> (\<exists>w \<in> known_entries existing candidates g.
              entry_rank w < entry_rank (DirectoryEntry g s n)))
    \<and> (\<forall>g w e. dget (fst (merge_rebuild_candidates candidates existing)) g = Some w \<longrightarrow>
        e \<in> known_entries existing candidates g \<longrightarrow> entry_silo e \<noteq> entry_silo w \<longrightarrow>
        (\<exists>n. (entry_silo e, g, n) \<in> set (snd (merge_rebuild_candidates candidates existing))))"
proof -
  have ok: "filed existing" using assms by (simp add: filed_def)
  note win = merge_winner_iff [OF ok]
  have order: "dget (fst (merge_loop existing [] cs')) = dget (fst (merge_loop existing [] cs))"
    if "set cs' = set cs" for cs cs'
  proof (rule ext)
    fix g
    have "known_entries existing cs' g = known_entries existing cs g"
      using that by (simp add: known_entries_def)
    then have "dget (fst (merge_loop existing [] cs')) g = Some w
        \<longleftrightarrow> dget (fst (merge_loop existing [] cs)) g = Some w" for w
      by (simp only: win)
    then show "dget (fst (merge_loop existing [] cs')) g = dget (fst (merge_loop existing [] cs)) g"
      by (metis option.exhaust)
  qed
  show ?thesis
    unfolding merge_rebuild_candidates_def
  proof (intro conjI allI impI)
    fix s g n
    assume "(s, g, n) \<in> set (snd (merge_loop existing [] candidates))"
    from merge_losers_lost [OF ok this]
    show "DirectoryEntry g s n \<in> known_entries existing candidates g"
      "\<exists>w \<in> known_entries existing candidates g. entry_rank w < entry_rank (DirectoryEntry g s n)"
      by simp_all
  qed (simp add: win, rule order, simp, rule merge_losers_told [OF ok])
qed

theorem rebuild_merge_spec_witness:
  "let g = GrainId [1] [2]; e = DirectoryEntry g silo_b 4; c = DirectoryEntry g silo_a 4
   in is_winner (known_entries [(g, e)] [c] g) c
      \<and> snd (merge_rebuild_candidates [c] [(g, e)]) = [(silo_b, g, 4)]"
proof -
  define g where "g = GrainId [1] [2]"
  define e where "e = DirectoryEntry g silo_b 4"
  define c where "c = DirectoryEntry g silo_a 4"
  have filed: "\<forall>g' e'. dget [(g, e)] g' = Some e' \<longrightarrow> entry_grain e' = g'"
    by (auto simp: dget_def e_def)
  have lt: "silo_id silo_a < silo_id silo_b" "silo_a \<noteq> silo_b"
    by (simp_all add: silo_a_def silo_b_def silo_id_def)
  have run: "merge_rebuild_candidates [c] [(g, e)] = ([(g, c)], [(silo_b, g, 4)])"
    using lt by (simp add: merge_rebuild_candidates_def e_def c_def dget_def dset_def)
  have "is_winner (known_entries [(g, e)] [c] g) c"
    using conjunct1 [OF rebuild_merge_spec [OF filed, of "[c]"], rule_format, of g c]
    by (simp add: run dget_def)
  with run show ?thesis by (simp add: g_def e_def c_def Let_def)
qed

text \<open>The two nodes of the concrete ring, one digest byte each.\<close>

lemma demo_positions:
  "ring_positions (ring_for (take (Suc 0)) [silo_a, silo_b] (Suc 0))
     = [RingPosition 97 silo_a 0, RingPosition 98 silo_b 0]"
  by (simp add: ring_eval)

text \<open>
  A silo without a previous ring queries exactly what it owns: on a ring of at least two
  nodes at pairwise different positions, the arcs it asks its peers about contain a grain's hash
  if and only if the ring makes the silo the owner of that hash, the wrap-around included.
\<close>

theorem first_rebuild_covers_ownership:
  assumes "distinct (map position (ring_positions (ring_for sha silos v)))"
    and "2 \<le> length (ring_positions (ring_for sha silos v))"
  shows "(\<exists>a \<in> set (compute_new_arcs None (ring_for sha silos v) s). arc_contains a (int h))
    \<longleftrightarrow> owner_of (ring_for sha silos v) h = Some s"
  by (rule arcs_cover_owned [OF assms])

theorem first_rebuild_covers_ownership_witness:
  "(\<exists>a \<in> set (compute_new_arcs None (ring_for (take 1) [silo_a, silo_b] 1) silo_a).
      arc_contains a (int 98)) \<longleftrightarrow> owner_of (ring_for (take 1) [silo_a, silo_b] 1) 98 = Some silo_a"
  by (rule first_rebuild_covers_ownership) (simp_all add: demo_positions)

text \<open>
  Surviving silos recover nothing: a silo that was already on the previous ring (at pairwise
  different positions) computes no newly owned arc, whatever silos left or joined. The function
  tests the old owner at the end of an arc, and the end is the silo's own old node. Its
  doc comment promises the arcs whose coverage moved to the silo.
\<close>

theorem survivor_rebuilds_nothing:
  assumes "s \<in> set olds" and "distinct (map position (ring_positions (ring_for sha olds v)))"
  shows "compute_new_arcs (Some (ring_for sha olds v)) (ring_for sha news v) s = []
    \<and> run_rebuild send (compute_new_arcs (Some (ring_for sha olds v)) (ring_for sha news v) s) peers
        existing = None"
  using no_arcs_for_survivor [OF assms] by (simp add: run_rebuild_def)

theorem survivor_rebuilds_nothing_witness:
  "compute_new_arcs (Some (ring_for (take 1) [silo_a, silo_b] 1)) (ring_for (take 1) [silo_a] 1) silo_a = []
   \<and> owner_of (ring_for (take 1) [silo_a, silo_b] 1) 98 = Some silo_b
   \<and> owner_of (ring_for (take 1) [silo_a] 1) 98 = Some silo_a"
proof (intro conjI)
  show "compute_new_arcs (Some (ring_for (take 1) [silo_a, silo_b] 1)) (ring_for (take 1) [silo_a] 1) silo_a = []"
    by (rule conjunct1 [OF survivor_rebuilds_nothing]) (simp_all add: demo_positions)
qed (simp_all add: ring_eval)

end
