(* ===== verification/DistributedDirectory.thy ===== *)
theory DistributedDirectory
  imports DirectoryRebuild Wire
begin

text \<open>
  \<^verbatim>\<open>pyleans/cluster/distributed_directory.py\<close>: the directory of a silo in a cluster.
  Its state is the partition of the grains it owns, its ring and its epoch counter. Operations
  on the partition run under the directory's lock without awaiting, so each is one transition;
  an operation on a grain owned elsewhere is one RPC (\<open>send\<close>). One-way messages a transition
  sends are returned as a list; a \<^verbatim>\<open>TransportError\<close> on sending one is only logged.
\<close>

record DistributedGrainDirectory =
  dd_local :: SiloAddress
  dd_ring :: ConsistentHashRing
  active_silos :: "SiloAddress list"
  owned :: partition
  dd_epoch :: int
  deactivate_notifier :: bool
  rebuild :: DirectoryRebuildCoordinator

type_synonym one_way = "SiloAddress \<times> bytes \<times> bytes"

definition new_distributed_directory ::
  "SiloAddress \<Rightarrow> ConsistentHashRing \<Rightarrow> SiloAddress list \<Rightarrow> seconds \<Rightarrow> seconds
   \<Rightarrow> DistributedGrainDirectory result" where
  "new_distributed_directory s r active timeout grace =
     res_bind (new_rebuild_coordinator s grace timeout) (\<lambda>c.
       Inr \<lparr>dd_local = s, dd_ring = r, active_silos = active, owned = [], dd_epoch = 0,
            deactivate_notifier = False, rebuild = c\<rparr>)"

definition on_deactivate_notified :: "DistributedGrainDirectory \<Rightarrow> DistributedGrainDirectory" where
  "on_deactivate_notified d = d\<lparr>deactivate_notifier := True\<rparr>"

subsection \<open>Ownership\<close>

definition owner_of_with_ring ::
  "(bytes \<Rightarrow> bytes) \<Rightarrow> GrainId \<Rightarrow> ConsistentHashRing \<Rightarrow> SiloAddress result" where
  "owner_of_with_ring sha g r =
     (case owner_of r (hash_grain_id sha g) of
        None \<Rightarrow> Inl ClusterNotReadyError
      | Some owner \<Rightarrow> Inr owner)"

definition dd_owner_of ::
  "(bytes \<Rightarrow> bytes) \<Rightarrow> DistributedGrainDirectory \<Rightarrow> GrainId \<Rightarrow> SiloAddress result" where
  "dd_owner_of sha d g = owner_of_with_ring sha g (dd_ring d)"

subsection \<open>Local-owner paths\<close>

definition register_local ::
  "GrainId \<Rightarrow> SiloAddress \<Rightarrow> DistributedGrainDirectory \<Rightarrow> DirectoryEntry \<times> DistributedGrainDirectory"
  where
  "register_local g s d =
     (case dget (owned d) g of
        Some existing \<Rightarrow> (existing, d)
      | None \<Rightarrow>
          let n = dd_epoch d + 1; entry = DirectoryEntry g s n
          in (entry, d\<lparr>dd_epoch := n, owned := dset (owned d) g entry\<rparr>))"

definition lookup_local :: "DistributedGrainDirectory \<Rightarrow> GrainId \<Rightarrow> DirectoryEntry option" where
  "lookup_local d g = dget (owned d) g"

definition unregister_local ::
  "GrainId \<Rightarrow> SiloAddress \<Rightarrow> DistributedGrainDirectory \<Rightarrow> DistributedGrainDirectory" where
  "unregister_local g s d =
     (case dget (owned d) g of
        None \<Rightarrow> d
      | Some entry \<Rightarrow> if entry_silo entry \<noteq> s then d else d\<lparr>owned := dpop (owned d) g\<rparr>)"

definition placement_candidates :: "DistributedGrainDirectory \<Rightarrow> SiloAddress list" where
  "placement_candidates d = (if active_silos d \<noteq> [] then active_silos d else ring_silos (dd_ring d))"

definition resolve_or_activate_local ::
  "picker \<Rightarrow> GrainId \<Rightarrow> SiloAddress option \<Rightarrow> DistributedGrainDirectory
   \<Rightarrow> DirectoryEntry result \<times> DistributedGrainDirectory" where
  "resolve_or_activate_local pick g caller d =
     (case dget (owned d) g of
        Some existing \<Rightarrow> (Inr existing, d)
      | None \<Rightarrow>
          let active = placement_candidates d
          in if active = [] then (Inl ClusterNotReadyError, d)
             else (case pick g caller active of
               Inl e \<Rightarrow> (Inl e, d)
             | Inr chosen \<Rightarrow>
                 let n = dd_epoch d + 1; entry = DirectoryEntry g chosen n
                 in (Inr entry, d\<lparr>dd_epoch := n, owned := dset (owned d) g entry\<rparr>)))"

subsection \<open>Remote-owner paths\<close>

definition register_remote ::
  "rpc \<Rightarrow> SiloAddress \<Rightarrow> GrainId \<Rightarrow> SiloAddress \<Rightarrow> DirectoryEntry result" where
  "register_remote send owner g s =
     res_bind (send owner DIRECTORY_REGISTER_HEADER (encode_register (RegisterRequest g s))) (\<lambda>body.
     res_bind (decode_entry body) (\<lambda>r.
       case r of None \<Rightarrow> Inl TransportError | Some e \<Rightarrow> Inr e))"

definition lookup_remote :: "rpc \<Rightarrow> SiloAddress \<Rightarrow> GrainId \<Rightarrow> DirectoryEntry option result" where
  "lookup_remote send owner g =
     res_bind (send owner DIRECTORY_LOOKUP_HEADER (encode_lookup (LookupRequest g))) decode_entry"

definition unregister_remote :: "rpc \<Rightarrow> SiloAddress \<Rightarrow> GrainId \<Rightarrow> SiloAddress \<Rightarrow> unit result" where
  "unregister_remote send owner g s =
     res_bind (send owner DIRECTORY_UNREGISTER_HEADER (encode_unregister (UnregisterRequest g s)))
       decode_none"

definition placement_class_name :: "PlacementStrategy \<Rightarrow> pystr" where
  "placement_class_name p =
     (case p of
        RandomPlacement \<Rightarrow> lit ''RandomPlacement''
      | PreferLocalPlacement \<Rightarrow> lit ''PreferLocalPlacement'')"

text \<open>\<^verbatim>\<open>_PLACEMENT_CLASSES\<close>, by name.\<close>

definition placement_of_name :: "pystr \<Rightarrow> PlacementStrategy option" where
  "placement_of_name s =
     (if s = lit ''RandomPlacement'' then Some RandomPlacement
      else if s = lit ''PreferLocalPlacement'' then Some PreferLocalPlacement
      else None)"

definition resolve_or_activate_remote ::
  "rpc \<Rightarrow> SiloAddress \<Rightarrow> GrainId \<Rightarrow> PlacementStrategy \<Rightarrow> SiloAddress option \<Rightarrow> DirectoryEntry result"
  where
  "resolve_or_activate_remote send owner g p caller =
     (if placement_of_name (placement_class_name p) = None then Inl ValueError
      else res_bind (send owner DIRECTORY_RESOLVE_HEADER
               (encode_resolve (ResolveRequest g (placement_class_name p) caller))) (\<lambda>body.
           res_bind (decode_entry body) (\<lambda>r.
             case r of None \<Rightarrow> Inl TransportError | Some e \<Rightarrow> Inr e)))"

subsection \<open>The directory port\<close>

definition dd_register ::
  "(bytes \<Rightarrow> bytes) \<Rightarrow> rpc \<Rightarrow> GrainId \<Rightarrow> SiloAddress \<Rightarrow> DistributedGrainDirectory
   \<Rightarrow> DirectoryEntry result \<times> DistributedGrainDirectory" where
  "dd_register sha send g s d =
     (case dd_owner_of sha d g of
        Inl e \<Rightarrow> (Inl e, d)
      | Inr owner \<Rightarrow>
          if owner = dd_local d then (case register_local g s d of (e, d') \<Rightarrow> (Inr e, d'))
          else (register_remote send owner g s, d))"

definition dd_lookup ::
  "(bytes \<Rightarrow> bytes) \<Rightarrow> rpc \<Rightarrow> GrainId \<Rightarrow> DistributedGrainDirectory \<Rightarrow> DirectoryEntry option result"
  where
  "dd_lookup sha send g d =
     (case dd_owner_of sha d g of
        Inl e \<Rightarrow> Inl e
      | Inr owner \<Rightarrow>
          if owner = dd_local d then Inr (lookup_local d g) else lookup_remote send owner g)"

definition dd_unregister ::
  "(bytes \<Rightarrow> bytes) \<Rightarrow> rpc \<Rightarrow> GrainId \<Rightarrow> SiloAddress \<Rightarrow> DistributedGrainDirectory
   \<Rightarrow> unit result \<times> DistributedGrainDirectory" where
  "dd_unregister sha send g s d =
     (case dd_owner_of sha d g of
        Inl e \<Rightarrow> (Inl e, d)
      | Inr owner \<Rightarrow>
          if owner = dd_local d then (Inr (), unregister_local g s d)
          else (unregister_remote send owner g s, d))"

definition dd_resolve_or_activate ::
  "rand \<Rightarrow> (bytes \<Rightarrow> bytes) \<Rightarrow> rpc \<Rightarrow> GrainId \<Rightarrow> PlacementStrategy \<Rightarrow> SiloAddress option
   \<Rightarrow> DistributedGrainDirectory \<Rightarrow> DirectoryEntry result \<times> DistributedGrainDirectory" where
  "dd_resolve_or_activate rand sha send g p caller d =
     (case dd_owner_of sha d g of
        Inl e \<Rightarrow> (Inl e, d)
      | Inr owner \<Rightarrow>
          if owner = dd_local d
          then resolve_or_activate_local (pick_silo rand sha p) g caller d
          else (resolve_or_activate_remote send owner g p caller, d))"

subsection \<open>Rebuild hooks\<close>

fun apply_rebuild_entries :: "partition \<Rightarrow> DistributedGrainDirectory \<Rightarrow> DistributedGrainDirectory" where
  "apply_rebuild_entries [] d = d"
| "apply_rebuild_entries ((g, entry) # es) d =
     apply_rebuild_entries es
       (d\<lparr>owned := dset (owned d) g entry, dd_epoch := max (dd_epoch d) (activation_epoch entry)\<rparr>)"

text \<open>The installed provider's answer, or \<open>None\<close> when there is no provider.\<close>

definition answer_rebuild_query ::
  "(bytes \<Rightarrow> bytes) \<Rightarrow> DirectoryEntry list option \<Rightarrow> Arc list \<Rightarrow> DirectoryEntry list" where
  "answer_rebuild_query sha provider arcs =
     (case provider of
        None \<Rightarrow> []
      | Some activations \<Rightarrow>
          filter (\<lambda>e. \<exists>a \<in> set arcs. arc_contains a (int (hash_grain_id sha (entry_grain e)))) activations)"

definition deactivate_message :: "SiloAddress \<Rightarrow> GrainId \<Rightarrow> int \<Rightarrow> one_way" where
  "deactivate_message loser g n =
     (loser, DIRECTORY_DEACTIVATE_HEADER, encode_deactivate (DeactivateRequest g n))"

definition handoff_message :: "SiloAddress \<Rightarrow> DirectoryEntry \<Rightarrow> one_way" where
  "handoff_message new_owner e =
     (new_owner, DIRECTORY_HANDOFF_HEADER, encode_handoff (HandoffRequest e))"

text \<open>The scheduled rebuild, at the end of its grace period.\<close>

definition finish_rebuild ::
  "rpc \<Rightarrow> DistributedGrainDirectory \<Rightarrow> DistributedGrainDirectory \<times> one_way list" where
  "finish_rebuild send d =
     (case active_task (rebuild d) of
        None \<Rightarrow> (d, [])
      | Some (arcs, peers, existing) \<Rightarrow>
          let d' = d\<lparr>rebuild := cancel_rebuild (rebuild d)\<rparr>
          in (case run_rebuild send arcs peers existing of
                None \<Rightarrow> (d', [])
              | Some (merged, duplicates) \<Rightarrow>
                  (apply_rebuild_entries merged d',
                   map (\<lambda>(s, g, n). deactivate_message s g n) duplicates)))"

subsection \<open>Membership changes\<close>

definition on_membership_changed ::
  "(bytes \<Rightarrow> bytes) \<Rightarrow> SiloAddress list \<Rightarrow> DistributedGrainDirectory
   \<Rightarrow> unit result \<times> DistributedGrainDirectory \<times> one_way list" where
  "on_membership_changed sha active d =
     (let old_ring = dd_ring d;
          new_ring = (if active \<noteq> [] then default_ring sha active else dd_ring d);
          d1 = d\<lparr>active_silos := active, dd_ring := new_ring\<rparr>
      in case res_map (\<lambda>(g, entry). res_bind (owner_of_with_ring sha g new_ring)
                        (\<lambda>new_owner. Inr (g, new_owner, entry))) (owned d) of
           Inl e \<Rightarrow> (Inl e, d1, [])
         | Inr owners \<Rightarrow>
             let moved = filter (\<lambda>(g, new_owner, entry). new_owner \<noteq> dd_local d) owners;
                 owned' = fold (\<lambda>(g, _) t. dpop t g) moved (owned d);
                 arcs = compute_new_arcs (Some old_ring) new_ring (dd_local d);
                 peers = filter (\<lambda>s. s \<noteq> dd_local d) active;
                 rebuild' = (if arcs \<noteq> [] \<and> peers \<noteq> []
                             then schedule_rebuild arcs peers owned' (rebuild d) else rebuild d)
             in (Inr (), d1\<lparr>owned := owned', rebuild := rebuild'\<rparr>,
                 map (\<lambda>(g, new_owner, entry). handoff_message new_owner entry) moved))"

subsection \<open>Inbound messages\<close>

text \<open>The body of the response, or no response (an unknown header), or what was raised.\<close>

definition handle_body ::
  "rand \<Rightarrow> (bytes \<Rightarrow> bytes) \<Rightarrow> DirectoryEntry list option \<Rightarrow> bytes \<Rightarrow> bytes
   \<Rightarrow> DistributedGrainDirectory \<Rightarrow> bytes option result \<times> DistributedGrainDirectory" where
  "handle_body rand sha provider header body d =
     (if header = DIRECTORY_REGISTER_HEADER then
        (case decode_register body of
           Inl e \<Rightarrow> (Inl e, d)
         | Inr req \<Rightarrow>
             (case register_local (reg_grain req) (reg_silo req) d of
                (entry, d') \<Rightarrow> (Inr (Some (encode_entry (Some entry))), d')))
      else if header = DIRECTORY_LOOKUP_HEADER then
        (case decode_lookup body of
           Inl e \<Rightarrow> (Inl e, d)
         | Inr req \<Rightarrow> (Inr (Some (encode_entry (dget (owned d) (look_grain req)))), d))
      else if header = DIRECTORY_UNREGISTER_HEADER then
        (case decode_unregister body of
           Inl e \<Rightarrow> (Inl e, d)
         | Inr req \<Rightarrow>
             (Inr (Some encode_none), unregister_local (unreg_grain req) (unreg_silo req) d))
      else if header = DIRECTORY_RESOLVE_HEADER then
        (case decode_resolve body of
           Inl e \<Rightarrow> (Inl e, d)
         | Inr req \<Rightarrow>
             (case placement_of_name (placement_class req) of
                None \<Rightarrow> (Inl ValueError, d)
              | Some p \<Rightarrow>
                  (case resolve_or_activate_local (pick_silo rand sha p) (res_grain req)
                          (res_caller req) d of
                     (Inl e, d') \<Rightarrow> (Inl e, d')
                   | (Inr entry, d') \<Rightarrow> (Inr (Some (encode_entry (Some entry))), d'))))
      else if header = DIRECTORY_REBUILD_QUERY_HEADER then
        (case decode_rebuild_query body of
           Inl e \<Rightarrow> (Inl e, d)
         | Inr req \<Rightarrow>
             (Inr (Some (encode_rebuild_response
                (RebuildQueryResponse (answer_rebuild_query sha provider (query_arcs req))))), d))
      else (Inr None, d))"

text \<open>A \<^verbatim>\<open>ValueError\<close> is logged and not answered; anything else reaches the transport.\<close>

definition handle_request ::
  "rand \<Rightarrow> (bytes \<Rightarrow> bytes) \<Rightarrow> DirectoryEntry list option \<Rightarrow> TransportMessage
   \<Rightarrow> DistributedGrainDirectory \<Rightarrow> TransportMessage option result \<times> DistributedGrainDirectory" where
  "handle_request rand sha provider msg d =
     (case handle_body rand sha provider (msg_header msg) (msg_body msg) d of
        (Inl e, d') \<Rightarrow> (if is_value_error e then Inr None else Inl e, d')
      | (Inr None, d') \<Rightarrow> (Inr None, d')
      | (Inr (Some body), d') \<Rightarrow>
          (Inr (Some \<lparr>message_type = RESPONSE, correlation_id = correlation_id msg,
                      msg_header = msg_header msg, msg_body = body\<rparr>), d'))"

definition apply_handoff ::
  "(bytes \<Rightarrow> bytes) \<Rightarrow> HandoffRequest \<Rightarrow> DistributedGrainDirectory
   \<Rightarrow> unit result \<times> DistributedGrainDirectory \<times> one_way list" where
  "apply_handoff sha handoff d =
     (let incoming = handoff_entry handoff; g = entry_grain incoming
      in case dd_owner_of sha d g of
           Inl e \<Rightarrow> (Inl e, d, [])
         | Inr owner \<Rightarrow>
             if owner \<noteq> dd_local d then (Inr (), d, [])
             else
               let take_it = d\<lparr>owned := dset (owned d) g incoming,
                               dd_epoch := max (dd_epoch d) (activation_epoch incoming)\<rparr>
               in (case dget (owned d) g of
                     None \<Rightarrow> (Inr (), take_it, [])
                   | Some existing \<Rightarrow>
                       if activation_epoch existing \<le> activation_epoch incoming
                       then (Inr (), d,
                             [deactivate_message (entry_silo incoming) g (activation_epoch incoming)])
                       else (Inr (), take_it,
                             [deactivate_message (entry_silo existing) g (activation_epoch existing)])))"

text \<open>A one-way message: what it sends on, and the notifications it fires.\<close>

definition handle_one_way ::
  "(bytes \<Rightarrow> bytes) \<Rightarrow> TransportMessage \<Rightarrow> DistributedGrainDirectory
   \<Rightarrow> unit result \<times> DistributedGrainDirectory \<times> one_way list \<times> (GrainId \<times> int) list" where
  "handle_one_way sha msg d =
     (let caught = (\<lambda>e. if is_value_error e then Inr () else Inl e)
      in if msg_header msg = DIRECTORY_HANDOFF_HEADER then
           (case decode_handoff (msg_body msg) of
              Inl e \<Rightarrow> (caught e, d, [], [])
            | Inr handoff \<Rightarrow>
                (case apply_handoff sha handoff d of
                   (Inl e, d', out) \<Rightarrow> (caught e, d', out, [])
                 | (Inr _, d', out) \<Rightarrow> (Inr (), d', out, [])))
         else if msg_header msg = DIRECTORY_DEACTIVATE_HEADER then
           (case decode_deactivate (msg_body msg) of
              Inl e \<Rightarrow> (caught e, d, [], [])
            | Inr req \<Rightarrow>
                (Inr (), d, [],
                 if deactivate_notifier d then [(deact_grain req, deact_epoch req)] else []))
         else (Inr (), d, [], []))"

text \<open>The dispatcher: response, state, one-way messages and notifications.\<close>

definition message_handler ::
  "rand \<Rightarrow> (bytes \<Rightarrow> bytes) \<Rightarrow> DirectoryEntry list option \<Rightarrow> TransportMessage
   \<Rightarrow> DistributedGrainDirectory
   \<Rightarrow> TransportMessage option result \<times> DistributedGrainDirectory \<times> one_way list \<times> (GrainId \<times> int) list"
  where
  "message_handler rand sha provider msg d =
     (if \<not> is_directory_header (msg_header msg) then (Inr None, d, [], [])
      else if message_type msg = REQUEST then
        (case handle_request rand sha provider msg d of (r, d') \<Rightarrow> (r, d', [], []))
      else if message_type msg = ONE_WAY then
        (case handle_one_way sha msg d of
           (Inl e, rest) \<Rightarrow> (Inl e, rest)
         | (Inr _, rest) \<Rightarrow> (Inr None, rest))
      else (Inr None, d, [], []))"

subsection \<open>The partition of an owner is a grain directory\<close>

definition dd_ok :: "DistributedGrainDirectory \<Rightarrow> bool" where
  "dd_ok d \<longleftrightarrow> table_ok (owned d) (dd_epoch d)"

interpretation owner_dir: grain_directory lookup_local register_local unregister_local
  resolve_or_activate_local dd_epoch dd_ok
proof unfold_locales
  fix d g e
  assume ok: "dd_ok d" and get: "lookup_local d g = Some e"
  from ok get show "entry_grain e = g \<and> activation_epoch e \<le> dd_epoch d"
    by (auto simp: dd_ok_def lookup_local_def dest: table_ok_get)
  from get show "register_local g s d = (e, d)" for s
    by (simp add: lookup_local_def register_local_def)
  from get show "resolve_or_activate_local p g c d = (Inr e, d)" for p c
    by (simp add: lookup_local_def resolve_or_activate_local_def)
next
  fix d g s e d'
  assume ok: "dd_ok d" and get: "lookup_local d g = None" and rg: "register_local g s d = (e, d')"
  from get rg have e: "e = DirectoryEntry g s (dd_epoch d + 1)"
    "d' = d\<lparr>dd_epoch := dd_epoch d + 1, owned := dset (owned d) g e\<rparr>"
    by (auto simp: lookup_local_def register_local_def Let_def)
  with ok show "e = DirectoryEntry g s (dd_epoch d + 1) \<and> lookup_local d' = (lookup_local d)(g \<mapsto> e)
      \<and> dd_epoch d' = dd_epoch d + 1 \<and> dd_ok d'"
    by (auto simp: lookup_local_def [abs_def] dd_ok_def dget_dset_fun intro: table_ok_set)
next
  fix d g s
  assume ok: "dd_ok d"
  then show "lookup_local (unregister_local g s d) =
      (if \<exists>e. lookup_local d g = Some e \<and> entry_silo e = s then (lookup_local d)(g := None)
       else lookup_local d)"
    by (auto simp: lookup_local_def [abs_def] unregister_local_def dget_dpop_fun split: option.split)
  from ok show "dd_ok (unregister_local g s d) \<and> dd_epoch (unregister_local g s d) = dd_epoch d"
    by (auto simp: unregister_local_def dd_ok_def table_ok_pop split: option.split)
next
  fix d g p c r d'
  assume ok: "dd_ok d" and get: "lookup_local d g = None"
    and rs: "resolve_or_activate_local p g c d = (r, d')"
  let ?e = "\<lambda>s. DirectoryEntry g s (dd_epoch d + 1)"
  have "table_ok (dset (owned d) g (?e s)) (dd_epoch d + 1)" for s
    using ok by (auto simp: dd_ok_def intro: table_ok_set)
  then show "(\<exists>x. r = Inl x \<and> d' = d) \<or> (\<exists>s. r = Inr (?e s) \<and> lookup_local d' = (lookup_local d)(g \<mapsto> ?e s)
      \<and> dd_epoch d' = dd_epoch d + 1 \<and> dd_ok d')"
    using get rs by (auto simp: lookup_local_def [abs_def] resolve_or_activate_local_def Let_def
        dd_ok_def dget_dset_fun split: sum.splits if_splits)
qed

text \<open>Operations keep the parts they do not own.\<close>

lemma register_local_frame:
  "register_local g s d = (e, d') \<Longrightarrow> dd_local d' = dd_local d \<and> dd_ring d' = dd_ring d
     \<and> active_silos d' = active_silos d"
  by (auto simp: register_local_def Let_def split: option.splits)

lemma unregister_local_frame:
  "dd_local (unregister_local g s d) = dd_local d \<and> dd_ring (unregister_local g s d) = dd_ring d
     \<and> active_silos (unregister_local g s d) = active_silos d"
  by (auto simp: unregister_local_def split: option.split)

lemma resolve_local_frame:
  "resolve_or_activate_local p g c d = (r, d') \<Longrightarrow> dd_local d' = dd_local d \<and> dd_ring d' = dd_ring d
     \<and> active_silos d' = active_silos d"
  by (auto simp: resolve_or_activate_local_def Let_def split: option.splits sum.splits if_splits)

text \<open>A resolve at the owner fails only when the owner knows no silo at all.\<close>

lemma resolve_local_total:
  "placement_candidates d \<noteq> [] \<Longrightarrow>
   \<exists>e d'. resolve_or_activate_local (pick_silo rand sha p) g c d = (Inr e, d')"
  using placement.pick_cases [of "placement_candidates d" rand sha p g c]
  by (auto simp: resolve_or_activate_local_def Let_def split: option.split)

subsection \<open>Membership changes, handoffs and rebuilds\<close>

lemma owner_of_with_ring_total:
  "active \<noteq> [] \<Longrightarrow> \<exists>s \<in> set active. owner_of_with_ring sha g (default_ring sha active) = Inr s"
proof -
  assume "active \<noteq> []"
  then have "owner_of (default_ring sha active) (hash_grain_id sha g) \<noteq> None"
    by (simp add: default_ring_def VIRTUAL_NODES_PER_SILO_def owner_of_None)
  then show ?thesis
    using owner_in_silos [of sha active _ "hash_grain_id sha g"]
    by (auto simp: owner_of_with_ring_def default_ring_def)
qed

lemma res_map_total:
  "(\<And>x. x \<in> set xs \<Longrightarrow> f x = Inr (h x)) \<Longrightarrow> res_map f xs = Inr (map h xs)"
  by (induction xs) auto

lemma fold_dpop_moved:
  "fold (\<lambda>(g, _) t. dpop t g) ms t = filter (\<lambda>(g, _). g \<notin> fst ` set ms) t"
proof (induction ms arbitrary: t)
  case (Cons m ms)
  then show ?case by (auto simp: dpop_def split_beta intro: filter_cong)
qed simp

lemma membership_changed_eq:
  assumes "active \<noteq> []" "dict_ok (owned d)"
  shows "on_membership_changed sha active d = (r, d', out) \<Longrightarrow>
    r = Inr () \<and> dd_local d' = dd_local d \<and> dd_ring d' = default_ring sha active
    \<and> dd_epoch d' = dd_epoch d
    \<and> owned d' = filter (\<lambda>(g, _). dd_owner_of sha d' g = Inr (dd_local d)) (owned d)
    \<and> out = map (\<lambda>(g, e). handoff_message (the (owner_of (default_ring sha active) (hash_grain_id sha g))) e)
        (filter (\<lambda>(g, _). dd_owner_of sha d' g \<noteq> Inr (dd_local d)) (owned d))"
proof -
  let ?new = "default_ring sha active"
  let ?own = "\<lambda>g. the (owner_of ?new (hash_grain_id sha g))"
  have own: "owner_of_with_ring sha g ?new = Inr (?own g)" for g
    using owner_of_with_ring_total [OF assms(1), of sha g]
    by (auto simp: owner_of_with_ring_def split: option.splits)
  have map: "res_map (\<lambda>(g, entry). res_bind (owner_of_with_ring sha g ?new)
      (\<lambda>new_owner. Inr (g, new_owner, entry))) (owned d) = Inr (map (\<lambda>(g, e). (g, ?own g, e)) (owned d))"
    by (rule res_map_total) (auto simp: own)
  let ?moved = "filter (\<lambda>(g, new_owner, entry). new_owner \<noteq> dd_local d)
    (map (\<lambda>(g, e). (g, ?own g, e)) (owned d))"
  have moved: "?moved = map (\<lambda>(g, e). (g, ?own g, e)) (filter (\<lambda>(g, _). ?own g \<noteq> dd_local d) (owned d))"
    by (simp add: filter_map comp_def case_prod_beta')
  have keys: "g \<in> fst ` set ?moved \<longleftrightarrow> ?own g \<noteq> dd_local d" if "(g, e) \<in> set (owned d)" for g e
    using that unfolding moved by force
  have kept: "fold (\<lambda>(g, _) t. dpop t g) ?moved (owned d)
      = filter (\<lambda>(g, _). ?own g = dd_local d) (owned d)"
    unfolding fold_dpop_moved using keys by (intro filter_cong) auto
  assume "on_membership_changed sha active d = (r, d', out)"
  then show ?thesis
    unfolding on_membership_changed_def Let_def
    using assms(1) map kept moved own
    by (auto simp: dd_owner_of_def comp_def split_beta intro!: filter_cong)
qed

lemma membership_changed_ok:
  assumes "active \<noteq> []" "dd_ok d" "on_membership_changed sha active d = (r, d', out)"
  shows "dd_ok d'"
proof -
  have "dict_ok (owned d)" using assms(2) by (simp add: dd_ok_def table_ok_def)
  from membership_changed_eq [OF assms(1) this assms(3)] assms(2) show ?thesis
    by (auto simp: dd_ok_def intro: table_ok_filter)
qed

lemma apply_rebuild_owned:
  "dict_ok es \<Longrightarrow> dget (owned (apply_rebuild_entries es d)) g =
     (case dget es g of None \<Rightarrow> dget (owned d) g | Some e \<Rightarrow> Some e)"
proof (induction es d rule: apply_rebuild_entries.induct)
  case (2 g' e es d)
  then have "dget es g' = None" by (simp add: dget_None_iff)
  with 2 show ?case by (auto simp: dget_Cons split: option.split)
qed simp

lemma apply_rebuild_ok:
  "dd_ok d \<Longrightarrow> (\<And>g e. (g, e) \<in> set es \<Longrightarrow> entry_grain e = g) \<Longrightarrow> dd_ok (apply_rebuild_entries es d)"
proof (induction es d rule: apply_rebuild_entries.induct)
  case (2 g e es d)
  have "dd_ok (d\<lparr>owned := dset (owned d) g e, dd_epoch := max (dd_epoch d) (activation_epoch e)\<rparr>)"
    using 2 by (auto simp: dd_ok_def intro: table_ok_set)
  with 2 show ?case by simp
qed simp

lemma apply_rebuild_frame:
  "dd_local (apply_rebuild_entries es d) = dd_local d \<and> dd_ring (apply_rebuild_entries es d) = dd_ring d
   \<and> dd_epoch d \<le> dd_epoch (apply_rebuild_entries es d)"
  by (induction es d rule: apply_rebuild_entries.induct) auto

lemma apply_rebuild_task: "rebuild (apply_rebuild_entries es d) = rebuild d"
  by (induction es d rule: apply_rebuild_entries.induct) auto

lemma merge_loop_dict_ok: "dict_ok best \<Longrightarrow> dict_ok (fst (merge_loop best losers es))"
proof (induction es arbitrary: best losers)
  case (Cons e es)
  then show ?case
    using Cons.IH [OF dict_ok_dset [OF Cons.prems]]
    by (auto simp: Let_def split: option.split)
qed simp

lemma apply_handoff_frame:
  "apply_handoff sha h d = (r, d', out) \<Longrightarrow>
   dd_local d' = dd_local d \<and> dd_ring d' = dd_ring d \<and> dd_epoch d \<le> dd_epoch d'"
  by (auto simp: apply_handoff_def Let_def split: sum.splits if_splits option.splits)

lemma apply_handoff_ok:
  assumes "dd_ok d" "apply_handoff sha h d = (r, d', out)"
  shows "dd_ok d'"
proof -
  let ?g = "entry_grain (handoff_entry h)"
  have "table_ok (dset (owned d) ?g (handoff_entry h)) (max (dd_epoch d) (activation_epoch (handoff_entry h)))"
    using assms(1) by (auto simp: dd_ok_def intro: table_ok_set)
  with assms show ?thesis
    by (auto simp: apply_handoff_def Let_def dd_ok_def split: sum.splits if_splits option.splits)
qed

lemma resolve_local_error: "resolve_or_activate_local p g c d = (Inl e, d') \<Longrightarrow> d' = d"
  by (auto simp: resolve_or_activate_local_def Let_def split: option.splits sum.splits if_splits)

lemma handle_body_silent:
  "handle_body rand sha provider header body d = (r, d') \<Longrightarrow> (\<nexists>b. r = Inr (Some b)) \<Longrightarrow> d' = d"
  unfolding handle_body_def
  by (auto split: if_split_asm sum.split_asm prod.split_asm option.split_asm dest: resolve_local_error)

lemma handle_body_ok:
  assumes "dd_ok d" "handle_body rand sha provider header body d = (r, d')"
  shows "dd_ok d' \<and> dd_local d' = dd_local d \<and> dd_ring d' = dd_ring d
    \<and> active_silos d' = active_silos d \<and> dd_epoch d \<le> dd_epoch d'"
proof -
  have reg: "dd_ok d1 \<and> dd_local d1 = dd_local d \<and> dd_ring d1 = dd_ring d
      \<and> active_silos d1 = active_silos d \<and> dd_epoch d \<le> dd_epoch d1"
    if "register_local g s d = (e, d1)" for g s e d1
    using owner_dir.register_step [OF assms(1) that] register_local_frame [OF that] by simp
  have un: "dd_ok (unregister_local g s d) \<and> dd_local (unregister_local g s d) = dd_local d
      \<and> dd_ring (unregister_local g s d) = dd_ring d
      \<and> active_silos (unregister_local g s d) = active_silos d
      \<and> dd_epoch d \<le> dd_epoch (unregister_local g s d)" for g s
    using owner_dir.unregister_state [OF assms(1), of g s] unregister_local_frame [of g s d] by simp
  have res: "dd_ok d1 \<and> dd_local d1 = dd_local d \<and> dd_ring d1 = dd_ring d
      \<and> active_silos d1 = active_silos d \<and> dd_epoch d \<le> dd_epoch d1"
    if "resolve_or_activate_local p g c d = (r1, d1)" for p g c r1 d1
    using owner_dir.resolve_step [OF assms(1) that] resolve_local_frame [OF that] by (auto split: sum.splits)
  show ?thesis
    using assms reg un res
    by (auto simp: handle_body_def split: if_splits sum.splits prod.splits option.splits)
qed

subsection \<open>Properties\<close>

text \<open>A concrete owner: silo \<open>a\<close> on the ring of \<open>a\<close> and \<open>b\<close>.\<close>

definition demo_coordinator :: DirectoryRebuildCoordinator where
  "demo_coordinator = \<lparr>rc_local = silo_a, grace_period = 2, rc_rpc_timeout = 5, active_task = None\<rparr>"

definition demo_owner :: DistributedGrainDirectory where
  "demo_owner = \<lparr>dd_local = silo_a, dd_ring = default_ring (take 1) [silo_a],
     active_silos = [silo_a], owned = [], dd_epoch = 0, deactivate_notifier = True,
     rebuild = demo_coordinator\<rparr>"

definition grain_y :: GrainId where
  "grain_y = GrainId (lit ''Counter'') (lit ''y'')"

lemma demo_owner_ok: "dd_ok demo_owner"
  by (simp add: dd_ok_def demo_owner_def)

lemma default_ring_single: "owner_of_with_ring sha g (default_ring sha [s]) = Inr s"
  using owner_of_with_ring_total [of "[s]" sha g] by simp

lemma demo_owner_owns: "dd_owner_of (take 1) demo_owner g = Inr silo_a"
  by (simp add: dd_owner_of_def demo_owner_def default_ring_single)

text \<open>
  C2. A membership change loses no directory entry: with at least one active silo, the change
  succeeds, every entry of the partition is either kept, because the new ring still makes this
  silo its owner, or removed and handed off to the active silo that owns it now, never both;
  no entry appears that was not there, and the epoch counter does not move.
\<close>

theorem membership_change_conserves:
  assumes "active \<noteq> []" "dd_ok d" "on_membership_changed sha active d = (r, d', out)"
  shows "r = Inr () \<and> dd_ok d' \<and> dd_epoch d' = dd_epoch d
    \<and> (\<forall>g e. dget (owned d) g = Some e \<longrightarrow>
         (if dd_owner_of sha d' g = Inr (dd_local d) then dget (owned d') g = Some e
          else dget (owned d') g = None
            \<and> (\<exists>s \<in> set active. dd_owner_of sha d' g = Inr s \<and> handoff_message s e \<in> set out)))
    \<and> (\<forall>g e. dget (owned d') g = Some e \<longrightarrow>
         dget (owned d) g = Some e \<and> dd_owner_of sha d' g = Inr (dd_local d'))
    \<and> length out + length (owned d') = length (owned d)"
proof -
  have ok: "dict_ok (owned d)" using assms(2) by (simp add: dd_ok_def table_ok_def)
  note eq = membership_changed_eq [OF assms(1) ok assms(3)]
  have own: "\<exists>s \<in> set active. dd_owner_of sha d' g = Inr s
      \<and> the (owner_of (default_ring sha active) (hash_grain_id sha g)) = s" for g
    using owner_of_with_ring_total [OF assms(1), of sha g] eq
    by (auto simp: dd_owner_of_def owner_of_with_ring_def split: option.splits)
  have ok': "dict_ok (owned d')" using ok eq by simp
  have keep: "(if dd_owner_of sha d' g = Inr (dd_local d) then dget (owned d') g = Some e
      else dget (owned d') g = None
        \<and> (\<exists>s \<in> set active. dd_owner_of sha d' g = Inr s \<and> handoff_message s e \<in> set out))"
    if "dget (owned d) g = Some e" for g e
  proof -
    have mem: "(g, e) \<in> set (owned d)" using that ok by (simp add: dget_Some_iff)
    show ?thesis
    proof (cases "dd_owner_of sha d' g = Inr (dd_local d)")
      case True
      with mem eq ok' show ?thesis by (simp add: dget_Some_iff)
    next
      case False
      then have "dget (owned d') g = None" using eq by (auto simp: dget_None_iff)
      moreover have "handoff_message (the (owner_of (default_ring sha active) (hash_grain_id sha g))) e
          \<in> set out"
        using False mem eq by force
      ultimately show ?thesis using False own [of g] by auto
    qed
  qed
  have old: "dget (owned d) g = Some e \<and> dd_owner_of sha d' g = Inr (dd_local d')"
    if "dget (owned d') g = Some e" for g e
    using that ok ok' eq by (auto simp: dget_Some_iff)
  have "length out + length (owned d') = length (owned d)"
    using eq sum_length_filter_compl [of "\<lambda>(g, _). dd_owner_of sha d' g = Inr (dd_local d)" "owned d"]
    by (simp add: case_prod_beta')
  with eq keep old membership_changed_ok [OF assms] show ?thesis by blast
qed

theorem membership_change_conserves_witness:
  "let d = snd (register_local (GrainId [] []) silo_a demo_owner) in
   \<exists>d' out. on_membership_changed (take 1) [silo_b] d = (Inr (), d', out)
     \<and> owned d' = [] \<and> out = [handoff_message silo_b (DirectoryEntry (GrainId [] []) silo_a 1)]"
proof -
  define g where "g = GrainId [] []"
  define e where "e = DirectoryEntry g silo_a 1"
  define d where "d = snd (register_local g silo_a demo_owner)"
  have d: "owned d = [(g, e)]" "dd_local d = silo_a"
    by (simp_all add: d_def g_def e_def register_local_def demo_owner_def Let_def dset_def)
  have ok: "dd_ok d"
    unfolding d_def by (rule conjunct1 [OF owner_dir.register_step [OF demo_owner_ok prod.collapse [symmetric]]])
  obtain r d' out where run: "on_membership_changed (take 1) [silo_b] d = (r, d', out)"
    by (cases "on_membership_changed (take 1) [silo_b] d") auto
  have "[silo_b] \<noteq> []" by simp
  note con = membership_change_conserves [OF this ok run]
  have owner: "dd_owner_of (take 1) d' h = Inr silo_b" for h
    using membership_changed_eq [OF _ _ run] ok
    by (simp add: dd_owner_of_def default_ring_single dd_ok_def table_ok_def)
  have "silo_a \<noteq> silo_b" by (simp add: silo_a_def silo_b_def)
  moreover have get: "dget (owned d) g = Some e" by (simp add: d dget_Cons)
  then have "if dd_owner_of (take 1) d' g = Inr (dd_local d) then dget (owned d') g = Some e
      else dget (owned d') g = None
        \<and> (\<exists>s \<in> set [silo_b]. dd_owner_of (take 1) d' g = Inr s \<and> handoff_message s e \<in> set out)"
    using con by blast
  ultimately have msg: "handoff_message silo_b e \<in> set out" and none: "dget (owned d') g = None"
    by (simp_all add: owner owner [unfolded One_nat_def] d)
  from con have sub: "dget (owned d') h = Some x \<Longrightarrow> dget (owned d) h = Some x"
    and total: "length out + length (owned d') = length (owned d)" for h x by blast+
  have "owned d' = []"
  proof (cases "owned d'")
    case (Cons p t)
    then have "\<exists>h x. dget (owned d') h = Some x" by (cases p) (auto simp: dget_Cons)
    then obtain h x where h: "dget (owned d') h = Some x" by blast
    with sub [OF h] none show ?thesis by (simp add: d dget_Cons split: if_splits)
  qed
  moreover from this have "length out = 1" using total d by simp
  with msg have "out = [handoff_message silo_b e]"
    by (cases out) auto
  moreover have "r = Inr ()" using con by blast
  ultimately show ?thesis using run by (simp add: d_def g_def e_def Let_def)
qed

text \<open>
  Split views are resolved by epoch: when the owner of a grain receives a handoff, the entry
  with the lower activation epoch ends up on record, the one already there on a tie, and the silo
  of the other entry is sent exactly one deactivate request, for that entry's epoch. A silo that
  does not own the grain ignores the handoff. The partition stays well formed, so a later
  registration still gets an epoch above every entry it replaces.
\<close>

theorem handoff_spec:
  assumes "dd_ok d" "dd_owner_of sha d (entry_grain e) = Inr owner"
    and "apply_handoff sha (HandoffRequest e) d = (r, d', out)"
  shows "r = Inr () \<and> dd_ok d' \<and> dd_epoch d \<le> dd_epoch d'
    \<and> (owner \<noteq> dd_local d \<longrightarrow> d' = d \<and> out = [])
    \<and> (owner = dd_local d \<longrightarrow>
        (case dget (owned d) (entry_grain e) of
           None \<Rightarrow> dget (owned d') = (dget (owned d))(entry_grain e \<mapsto> e) \<and> out = []
         | Some c \<Rightarrow>
             let w = (if activation_epoch c \<le> activation_epoch e then c else e);
                 l = (if activation_epoch c \<le> activation_epoch e then e else c)
             in dget (owned d') = (dget (owned d))(entry_grain e \<mapsto> w)
                \<and> out = [deactivate_message (entry_silo l) (entry_grain e) (activation_epoch l)]))"
proof -
  have "dd_ok d'" by (rule apply_handoff_ok [OF assms(1,3)])
  with assms show ?thesis
    by (auto simp: apply_handoff_def Let_def dget_dset_fun fun_upd_idem split: option.splits if_splits)
qed

theorem handoff_spec_witness:
  "\<exists>d' out. apply_handoff (take 1) (HandoffRequest (DirectoryEntry grain_y silo_b 4)) demo_owner
       = (Inr (), d', out)
     \<and> dget (owned d') grain_y = Some (DirectoryEntry grain_y silo_b 4) \<and> out = []"
proof -
  let ?e = "DirectoryEntry grain_y silo_b 4"
  obtain r d' out where run: "apply_handoff (take 1) (HandoffRequest ?e) demo_owner = (r, d', out)"
    by (cases "apply_handoff (take 1) (HandoffRequest ?e) demo_owner") auto
  from handoff_spec [OF demo_owner_ok demo_owner_owns run] run show ?thesis
    by (simp add: demo_owner_def)
qed

text \<open>
  A repeated handoff kills the activation it names: when the entry on record is handed off to
  its owner once more (the sender retries, or two silos hold a copy), the record stays as it
  is, and the owner asks the silo of that very entry to deactivate the very epoch on record, so
  the directory keeps pointing at an activation that was told to stand down.
\<close>

theorem repeated_handoff_deactivates_winner:
  assumes "dd_owner_of sha d (entry_grain e) = Inr (dd_local d)"
    and "dget (owned d) (entry_grain e) = Some e"
  shows "apply_handoff sha (HandoffRequest e) d =
    (Inr (), d, [deactivate_message (entry_silo e) (entry_grain e) (activation_epoch e)])"
  using assms by (simp add: apply_handoff_def Let_def)

theorem repeated_handoff_deactivates_winner_witness:
  "let e = DirectoryEntry grain_y silo_b 1; d = demo_owner\<lparr>owned := [(grain_y, e)], dd_epoch := 1\<rparr>
   in apply_handoff (take 1) (HandoffRequest e) d = (Inr (), d, [deactivate_message silo_b grain_y 1])"
proof -
  let ?e = "DirectoryEntry grain_y silo_b 1"
  let ?d = "demo_owner\<lparr>owned := [(grain_y, ?e)], dd_epoch := 1\<rparr>"
  have "dd_owner_of (take 1) ?d (entry_grain ?e) = Inr (dd_local ?d)"
    using demo_owner_owns [of grain_y] by (simp add: dd_owner_of_def demo_owner_def)
  moreover have "dget (owned ?d) (entry_grain ?e) = Some ?e" by (simp add: dget_Cons)
  ultimately show ?thesis
    using repeated_handoff_deactivates_winner [of "take 1" ?d ?e] by (simp add: Let_def)
qed

text \<open>
  Installing a rebuild: for every grain that the existing snapshot or a peer's reply knows,
  the partition afterwards holds the least such entry, whatever was registered since the snapshot
  was taken; other grains keep their entry. The partition stays well formed and the epoch counter
  does not decrease.
\<close>

theorem rebuild_install_spec:
  assumes "dd_ok d" "active_task (rebuild d) = Some (arcs, peers, existing)"
    and "table_ok existing n" and "arcs \<noteq> []" "peers \<noteq> []"
    and "finish_rebuild send d = (d', out)"
  shows "dd_ok d' \<and> dd_epoch d \<le> dd_epoch d' \<and> \<not> is_rebuilding (rebuild d')
    \<and> (let known = known_entries existing
          (concat (map (\<lambda>peer. case query_peer send peer arcs of
              Inl _ \<Rightarrow> [] | Inr r \<Rightarrow> response_entries r) peers))
       in \<forall>g. (known g = {} \<longrightarrow> dget (owned d') g = dget (owned d) g)
            \<and> (\<forall>w. is_winner (known g) w \<longrightarrow> dget (owned d') g = Some w))"
proof -
  let ?es = "concat (map (\<lambda>peer. case query_peer send peer arcs of
    Inl _ \<Rightarrow> [] | Inr r \<Rightarrow> response_entries r) peers)"
  let ?m = "fst (merge_loop existing [] ?es)"
  have filed: "filed existing" using assms(3) by (rule table_ok_filed)
  have dict: "dict_ok existing" using assms(3) by (simp add: table_ok_def)
  let ?d1 = "d\<lparr>rebuild := cancel_rebuild (rebuild d)\<rparr>"
  have d': "d' = apply_rebuild_entries ?m ?d1"
    using assms(2,4-6)
    by (simp add: finish_rebuild_def Let_def run_rebuild_def merge_rebuild_candidates_def split_beta)
  have m: "dict_ok ?m" by (rule merge_loop_dict_ok [OF dict])
  have "entry_grain e = g" if "(g, e) \<in> set ?m" for g e
    using that merge_loop_filed [OF filed, of "[]" ?es] m by (auto simp: filed_def simp flip: dget_Some_iff)
  then have ok: "dd_ok d'"
    unfolding d' using assms(1) by (intro apply_rebuild_ok) (auto simp: dd_ok_def)
  have get: "dget (owned d') g = (case dget ?m g of None \<Rightarrow> dget (owned d) g | Some e \<Rightarrow> Some e)" for g
    using apply_rebuild_owned [OF m, of ?d1 g] unfolding d' by (cases "dget ?m g") simp_all
  have "dget ?m g = None" if "known_entries existing ?es g = {}" for g
    using that merge_loop_winner [OF filed, of "[]" ?es g] by (cases "dget ?m g") (auto simp: is_winner_def)
  moreover have "dget ?m g = Some w" if "is_winner (known_entries existing ?es g) w" for g w
    using that merge_winner_iff [OF filed] by simp
  moreover have "dd_epoch d \<le> dd_epoch d'" unfolding d' using apply_rebuild_frame [of ?m ?d1] by simp
  moreover have "\<not> is_rebuilding (rebuild d')"
    unfolding d' by (simp add: apply_rebuild_task is_rebuilding_def cancel_rebuild_def)
  ultimately show ?thesis using ok get by (simp add: Let_def)
qed

theorem rebuild_install_spec_witness:
  "\<exists>d' out. finish_rebuild (\<lambda>_ _ _. Inl TransportTimeoutError)
      (demo_owner\<lparr>rebuild := schedule_rebuild [Arc 1 2] [silo_b] [] demo_coordinator\<rparr>) = (d', out)
    \<and> owned d' = [] \<and> dd_ok d'"
proof -
  let ?d = "demo_owner\<lparr>rebuild := schedule_rebuild [Arc 1 2] [silo_b] [] demo_coordinator\<rparr>"
  obtain d' out where run: "finish_rebuild (\<lambda>_ _ _. Inl TransportTimeoutError) ?d = (d', out)" by fastforce
  have ok: "dd_ok ?d" by (simp add: dd_ok_def demo_owner_def)
  have task: "active_task (rebuild ?d) = Some ([Arc 1 2], [silo_b], [])" by (simp add: schedule_rebuild_def)
  note spec = rebuild_install_spec [OF ok task table_ok_Nil _ _ run]
  have "dget (owned d') g = None" for g
    using spec by (simp add: Let_def query_peer_def known_entries_def demo_owner_def)
  then have "g \<notin> fst ` set (owned d')" for g by (simp add: dget_None_iff flip: set_map)
  then have "owned d' = []" by (cases "owned d'") auto
  with run spec show ?thesis by simp
qed

lemma message_handler_cases:
  assumes "message_handler rand sha provider msg d = (r, d', out, fired)"
  shows "(r = Inr None \<and> d' = d \<and> out = [])
    \<or> (message_type msg = REQUEST \<and> handle_request rand sha provider msg d = (r, d'))
    \<or> (message_type msg = ONE_WAY \<and> (\<exists>r1. handle_one_way sha msg d = (r1, d', out, fired))
        \<and> (\<forall>m. r \<noteq> Inr (Some m)))"
  using assms by (auto simp: message_handler_def split: if_split_asm prod.split_asm sum.split_asm)

text \<open>
  C38. Inbound messages: the dispatcher keeps the partition well formed and its ring and identity
  fixed whatever bytes arrive, it answers only requests, echoing header and correlation id in a
  \<^verbatim>\<open>RESPONSE\<close>, and a request that gets no answer (an unknown header, a body that
  does not decode, an unknown placement strategy) has changed nothing.
\<close>

theorem message_handler_invariant:
  assumes "dd_ok d" "message_handler rand sha provider msg d = (r, d', out, fired)"
  shows "dd_ok d' \<and> dd_local d' = dd_local d \<and> dd_ring d' = dd_ring d \<and> dd_epoch d \<le> dd_epoch d'
    \<and> (message_type msg \<noteq> REQUEST \<and> message_type msg \<noteq> ONE_WAY \<longrightarrow> r = Inr None \<and> d' = d \<and> out = [])
    \<and> (\<forall>m. r = Inr (Some m) \<longrightarrow> message_type msg = REQUEST \<and> message_type m = RESPONSE
          \<and> correlation_id m = correlation_id msg \<and> msg_header m = msg_header msg)
    \<and> (message_type msg = REQUEST \<and> (\<nexists>m. r = Inr (Some m)) \<longrightarrow> d' = d)"
proof -
  have req: "dd_ok d1 \<and> dd_local d1 = dd_local d \<and> dd_ring d1 = dd_ring d \<and> dd_epoch d \<le> dd_epoch d1"
    if "handle_request rand sha provider msg d = (r1, d1)" for r1 d1
  proof -
    obtain r2 d2 where body: "handle_body rand sha provider (msg_header msg) (msg_body msg) d = (r2, d2)"
      by fastforce
    then have "d2 = d1"
      using that by (auto simp: handle_request_def split: sum.splits option.splits)
    note body [unfolded this]
    from handle_body_ok [OF assms(1) this] show ?thesis by blast
  qed
  have silent: "d1 = d" if "handle_request rand sha provider msg d = (r1, d1)" "\<nexists>m. r1 = Inr (Some m)" for r1 d1
    using that handle_body_silent [of rand sha provider "msg_header msg" "msg_body msg" d]
    by (auto simp: handle_request_def split: prod.splits sum.splits option.splits)
  have resp: "message_type m = RESPONSE \<and> correlation_id m = correlation_id msg \<and> msg_header m = msg_header msg"
    if "handle_request rand sha provider msg d = (Inr (Some m), d1)" for m d1
    using that by (auto simp: handle_request_def split: prod.splits sum.splits option.splits if_splits)
  have one: "dd_ok d1 \<and> dd_local d1 = dd_local d \<and> dd_ring d1 = dd_ring d \<and> dd_epoch d \<le> dd_epoch d1"
    if "handle_one_way sha msg d = (r1, d1, out1, fired1)" for r1 d1 out1 fired1
  proof -
    have "d1 = d \<or> (\<exists>h r2 out2. apply_handoff sha h d = (r2, d1, out2))"
      using that by (auto simp: handle_one_way_def Let_def split: if_splits sum.splits prod.splits)
    then show ?thesis
      using assms(1) apply_handoff_ok [OF assms(1)] apply_handoff_frame by blast
  qed
  from message_handler_cases [OF assms(2)] show ?thesis
  proof (elim disjE conjE exE)
    assume "r = Inr None" "d' = d" "out = []"
    with assms(1) show ?thesis by simp
  next
    assume "message_type msg = REQUEST" "handle_request rand sha provider msg d = (r, d')"
    with req resp silent show ?thesis by simp
  next
    fix r1
    assume "message_type msg = ONE_WAY" "handle_one_way sha msg d = (r1, d', out, fired)"
      "\<forall>m. r \<noteq> Inr (Some m)"
    with one show ?thesis by simp
  qed
qed

theorem message_handler_invariant_witness:
  "\<exists>r d' out fired. message_handler (\<lambda>_ _. 0) (take 1) None
      \<lparr>message_type = PING, correlation_id = 1, msg_header = [], msg_body = []\<rparr> demo_owner
     = (r, d', out, fired) \<and> dd_ok d' \<and> out = []"
proof -
  let ?m = "\<lparr>message_type = PING, correlation_id = 1, msg_header = [], msg_body = []\<rparr>"
  obtain r d' out fired where run: "message_handler (\<lambda>_ _. 0) (take 1) None ?m demo_owner = (r, d', out, fired)"
    by (metis surj_pair)
  from message_handler_invariant [OF demo_owner_ok run] run demo_owner_ok show ?thesis by simp
qed

end
