(* ===== verification/DirectoryCluster.thy ===== *)
theory DirectoryCluster
  imports DistributedDirectory
begin

text \<open>
  The silos of a stable cluster sharing one partitioned directory. A call of a client on a silo
  runs at once when that silo owns the grain; otherwise it is split as the code splits it: the
  encoded request travels to the owner, the owner's \<^verbatim>\<open>message_handler\<close> runs on the bytes,
  the encoded reply travels back and is decoded. Requests and replies of different calls
  interleave freely, and each may be lost. The relation covers every interleaving of calls; the
  single-activation contract is an invariant of it.
\<close>

subsection \<open>Calls\<close>

datatype dir_call =
    CRegister GrainId SiloAddress
  | CLookup GrainId
  | CUnregister GrainId SiloAddress
  | CResolve PlacementStrategy GrainId "SiloAddress option"

fun call_grain :: "dir_call \<Rightarrow> GrainId" where
  "call_grain (CRegister g s) = g"
| "call_grain (CLookup g) = g"
| "call_grain (CUnregister g s) = g"
| "call_grain (CResolve p g c) = g"

fun is_unregister :: "dir_call \<Rightarrow> bool" where
  "is_unregister (CUnregister g s) = True"
| "is_unregister _ = False"

fun call_text_ok :: "dir_call \<Rightarrow> bool" where
  "call_text_ok (CRegister g s) = (grain_text_ok g \<and> silo_text_ok s)"
| "call_text_ok (CLookup g) = grain_text_ok g"
| "call_text_ok (CUnregister g s) = (grain_text_ok g \<and> silo_text_ok s)"
| "call_text_ok (CResolve p g c) = (grain_text_ok g \<and> pred_option silo_text_ok c)"

text \<open>The call on the directory of one silo, with what it answers about its grain.\<close>

fun client_call ::
  "rand \<Rightarrow> (bytes \<Rightarrow> bytes) \<Rightarrow> rpc \<Rightarrow> dir_call \<Rightarrow> DistributedGrainDirectory
   \<Rightarrow> DirectoryEntry option result \<times> DistributedGrainDirectory" where
  "client_call rand sha send (CRegister g s) d =
     (case dd_register sha send g s d of (r, d') \<Rightarrow> (map_sum id Some r, d'))"
| "client_call rand sha send (CLookup g) d = (dd_lookup sha send g d, d)"
| "client_call rand sha send (CUnregister g s) d =
     (case dd_unregister sha send g s d of (r, d') \<Rightarrow> (map_sum id (\<lambda>_. None) r, d'))"
| "client_call rand sha send (CResolve p g c) d =
     (case dd_resolve_or_activate rand sha send g p c d of (r, d') \<Rightarrow> (map_sum id Some r, d'))"

fun request_header :: "dir_call \<Rightarrow> bytes" where
  "request_header (CRegister g s) = DIRECTORY_REGISTER_HEADER"
| "request_header (CLookup g) = DIRECTORY_LOOKUP_HEADER"
| "request_header (CUnregister g s) = DIRECTORY_UNREGISTER_HEADER"
| "request_header (CResolve p g c) = DIRECTORY_RESOLVE_HEADER"

fun request_body :: "dir_call \<Rightarrow> bytes" where
  "request_body (CRegister g s) = encode_register (RegisterRequest g s)"
| "request_body (CLookup g) = encode_lookup (LookupRequest g)"
| "request_body (CUnregister g s) = encode_unregister (UnregisterRequest g s)"
| "request_body (CResolve p g c) = encode_resolve (ResolveRequest g (placement_class_name p) c)"

definition request_message :: "int \<Rightarrow> dir_call \<Rightarrow> TransportMessage" where
  "request_message cid k =
     \<lparr>message_type = REQUEST, correlation_id = cid, msg_header = request_header k, msg_body = request_body k\<rparr>"

fun reply_answer :: "dir_call \<Rightarrow> bytes \<Rightarrow> DirectoryEntry option result" where
  "reply_answer (CLookup g) body = decode_entry body"
| "reply_answer (CUnregister g s) body = res_bind (decode_none body) (\<lambda>_. Inr None)"
| "reply_answer k body =
     res_bind (decode_entry body) (\<lambda>r. case r of None \<Rightarrow> Inl TransportError | Some e \<Rightarrow> Inr (Some e))"

text \<open>What the owner does for a call.\<close>

fun serve ::
  "rand \<Rightarrow> (bytes \<Rightarrow> bytes) \<Rightarrow> dir_call \<Rightarrow> DistributedGrainDirectory
   \<Rightarrow> DirectoryEntry option result \<times> DistributedGrainDirectory" where
  "serve rand sha (CRegister g s) d = (case register_local g s d of (e, d') \<Rightarrow> (Inr (Some e), d'))"
| "serve rand sha (CLookup g) d = (Inr (lookup_local d g), d)"
| "serve rand sha (CUnregister g s) d = (Inr None, unregister_local g s d)"
| "serve rand sha (CResolve p g c) d =
     (case resolve_or_activate_local (pick_silo rand sha p) g c d of (r, d') \<Rightarrow> (map_sum id Some r, d'))"

text \<open>A call is \<open>serve\<close> at the owner and one RPC anywhere else.\<close>

lemma client_call_local:
  "dd_owner_of sha d (call_grain k) = Inr (dd_local d) \<Longrightarrow> client_call rand sha send k d = serve rand sha k d"
  by (cases k)
    (auto simp: dd_register_def dd_lookup_def dd_unregister_def dd_resolve_or_activate_def split: prod.split)

lemma placement_name_roundtrip [simp]: "placement_of_name (placement_class_name p) = Some p"
  by (cases p) (simp_all add: placement_of_name_def placement_class_name_def del: list.map)

lemma client_call_remote:
  assumes "dd_owner_of sha d (call_grain k) = Inr owner" "owner \<noteq> dd_local d"
  shows "client_call rand sha send k d =
    (res_bind (send owner (request_header k) (request_body k)) (reply_answer k), d)"
proof -
  have bind: "map_sum id h (res_bind r f) = res_bind r (\<lambda>x. map_sum id h (f x))"
    for h :: "'b \<Rightarrow> 'c" and r :: "'a result" and f :: "'a \<Rightarrow> 'b result"
    by (cases r) auto
  have none: "map_sum id (\<lambda>_. None) r = res_bind r (\<lambda>_. Inr None)" for r :: "unit result"
    by (cases r) auto
  have cong: "res_bind r f = res_bind r f'" if "\<And>x. f x = f' x" for r :: "'a result" and f f' :: "'a \<Rightarrow> 'b result"
    using that by (cases r) auto
  show ?thesis
  proof (cases k)
    case (CRegister g s)
    with assms show ?thesis
      by (auto simp: dd_register_def register_remote_def bind intro!: cong split: option.split)
  next
    case (CLookup g)
    with assms show ?thesis by (auto simp: dd_lookup_def lookup_remote_def intro!: cong)
  next
    case (CUnregister g s)
    with assms show ?thesis
      by (cases "send owner DIRECTORY_UNREGISTER_HEADER (encode_unregister (UnregisterRequest g s))")
        (auto simp: dd_unregister_def unregister_remote_def none)
  next
    case (CResolve p g c)
    with assms show ?thesis
      by (auto simp: dd_resolve_or_activate_def resolve_or_activate_remote_def bind intro!: cong
          split: option.split)
  qed
qed

subsection \<open>The cluster\<close>

record dir_cluster =
  nodes :: "SiloAddress \<Rightarrow> DistributedGrainDirectory"
  issued :: "dir_call list"
  requests :: "(SiloAddress \<times> dir_call \<times> TransportMessage) list"
  replies :: "(dir_call \<times> bytes) list"
  answers :: "(GrainId \<times> DirectoryEntry) list"

definition add_answer :: "dir_call \<Rightarrow> DirectoryEntry option result \<Rightarrow> (GrainId \<times> DirectoryEntry) list
    \<Rightarrow> (GrainId \<times> DirectoryEntry) list" where
  "add_answer k r as = (case r of Inr (Some e) \<Rightarrow> as @ [(call_grain k, e)] | _ \<Rightarrow> as)"

text \<open>A silo of a cluster that starts: an empty partition and the ring of the cluster.\<close>

definition fresh_node :: "(bytes \<Rightarrow> bytes) \<Rightarrow> SiloAddress list \<Rightarrow> SiloAddress \<Rightarrow> DistributedGrainDirectory" where
  "fresh_node sha silos s =
     \<lparr>dd_local = s, dd_ring = default_ring sha silos, active_silos = silos, owned = [], dd_epoch = 0,
      deactivate_notifier = False,
      rebuild = \<lparr>rc_local = s, grace_period = 2, rc_rpc_timeout = 5, active_task = None\<rparr>\<rparr>"

definition initial_cluster :: "(bytes \<Rightarrow> bytes) \<Rightarrow> SiloAddress list \<Rightarrow> dir_cluster" where
  "initial_cluster sha silos =
     \<lparr>nodes = fresh_node sha silos, issued = [], requests = [], replies = [], answers = []\<rparr>"

inductive cluster_step :: "rand \<Rightarrow> (bytes \<Rightarrow> bytes) \<Rightarrow> dir_cluster \<Rightarrow> dir_cluster \<Rightarrow> bool"
  for rand :: rand and sha :: "bytes \<Rightarrow> bytes" where
  call_local:
    "call_text_ok k \<Longrightarrow> dd_owner_of sha (nodes c s) (call_grain k) = Inr (dd_local (nodes c s)) \<Longrightarrow>
     client_call rand sha send k (nodes c s) = (r, d') \<Longrightarrow>
     cluster_step rand sha c
       (c\<lparr>nodes := (nodes c)(s := d'), issued := k # issued c, answers := add_answer k r (answers c)\<rparr>)"
| call_remote:
    "call_text_ok k \<Longrightarrow> dd_owner_of sha (nodes c s) (call_grain k) = Inr owner \<Longrightarrow>
     owner \<noteq> dd_local (nodes c s) \<Longrightarrow>
     cluster_step rand sha c
       (c\<lparr>issued := k # issued c, requests := (owner, k, request_message cid k) # requests c\<rparr>)"
| deliver_request:
    "(owner, k, msg) \<in> set (requests c) \<Longrightarrow>
     message_handler rand sha provider msg (nodes c owner) = (Inr (Some m), d', out, fired) \<Longrightarrow>
     cluster_step rand sha c
       (c\<lparr>nodes := (nodes c)(owner := d'), requests := remove1 (owner, k, msg) (requests c),
          replies := (k, msg_body m) # replies c\<rparr>)"
| deliver_unanswered:
    "(owner, k, msg) \<in> set (requests c) \<Longrightarrow>
     message_handler rand sha provider msg (nodes c owner) = (r, d', out, fired) \<Longrightarrow>
     \<forall>m. r \<noteq> Inr (Some m) \<Longrightarrow>
     cluster_step rand sha c
       (c\<lparr>nodes := (nodes c)(owner := d'), requests := remove1 (owner, k, msg) (requests c)\<rparr>)"
| deliver_reply:
    "(k, body) \<in> set (replies c) \<Longrightarrow>
     cluster_step rand sha c
       (c\<lparr>replies := remove1 (k, body) (replies c), answers := add_answer k (reply_answer k body) (answers c)\<rparr>)"
| lose_request:
    "cluster_step rand sha c (c\<lparr>requests := remove1 q (requests c)\<rparr>)"
| lose_reply:
    "cluster_step rand sha c (c\<lparr>replies := remove1 q (replies c)\<rparr>)"

inductive cluster_reachable :: "rand \<Rightarrow> (bytes \<Rightarrow> bytes) \<Rightarrow> SiloAddress list \<Rightarrow> dir_cluster \<Rightarrow> bool"
  for rand :: rand and sha :: "bytes \<Rightarrow> bytes" and silos :: "SiloAddress list" where
  start: "cluster_reachable rand sha silos (initial_cluster sha silos)"
| step: "cluster_reachable rand sha silos c \<Longrightarrow> cluster_step rand sha c c' \<Longrightarrow> cluster_reachable rand sha silos c'"

inductive_cases cluster_stepE: "cluster_step rand sha c c'"

subsection \<open>The owner serves the bytes as it serves the call\<close>

lemma header_prefix [simp]: "is_directory_header (request_header k)"
  by (cases k) (simp_all add: is_directory_header_def starts_with_def DIRECTORY_REGISTER_HEADER_def
      DIRECTORY_LOOKUP_HEADER_def DIRECTORY_UNREGISTER_HEADER_def DIRECTORY_RESOLVE_HEADER_def)

lemma header_neq:
  "DIRECTORY_LOOKUP_HEADER \<noteq> DIRECTORY_REGISTER_HEADER"
  "DIRECTORY_UNREGISTER_HEADER \<noteq> DIRECTORY_REGISTER_HEADER"
  "DIRECTORY_UNREGISTER_HEADER \<noteq> DIRECTORY_LOOKUP_HEADER"
  "DIRECTORY_RESOLVE_HEADER \<noteq> DIRECTORY_REGISTER_HEADER"
  "DIRECTORY_RESOLVE_HEADER \<noteq> DIRECTORY_LOOKUP_HEADER"
  "DIRECTORY_RESOLVE_HEADER \<noteq> DIRECTORY_UNREGISTER_HEADER"
  by (simp_all add: DIRECTORY_REGISTER_HEADER_def DIRECTORY_LOOKUP_HEADER_def
      DIRECTORY_UNREGISTER_HEADER_def DIRECTORY_RESOLVE_HEADER_def utf8_bytes_def utf8_enc1_def)

lemma valid_class_name: "valid_str (placement_class_name p)"
  by (cases p) (simp_all add: placement_class_name_def valid_str_def del: list.map)

text \<open>Everything a silo stores can be written on the wire.\<close>

definition node_text_ok :: "DistributedGrainDirectory \<Rightarrow> bool" where
  "node_text_ok d \<longleftrightarrow> (\<forall>g e. lookup_local d g = Some e \<longrightarrow> entry_text_ok e)
     \<and> (\<forall>s \<in> set (placement_candidates d). silo_text_ok s)"

lemma serve_text:
  assumes "node_text_ok d" "call_text_ok k" "serve rand sha k d = (r, d')"
  shows "node_text_ok d' \<and> (\<forall>e. r = Inr (Some e) \<longrightarrow> entry_text_ok e)"
proof (cases k)
  case (CRegister g s)
  with assms show ?thesis
    by (auto simp: node_text_ok_def register_local_def lookup_local_def placement_candidates_def Let_def
        entry_text_ok_def split: option.splits if_splits)
next
  case (CLookup g)
  with assms show ?thesis by (auto simp: node_text_ok_def)
next
  case (CUnregister g s)
  with assms show ?thesis
    by (auto simp: node_text_ok_def unregister_local_def lookup_local_def placement_candidates_def
        split: option.splits if_splits)
next
  case (CResolve p g c)
  show ?thesis
  proof (cases "dget (owned d) g")
    case (Some e)
    with CResolve assms show ?thesis
      by (auto simp: resolve_or_activate_local_def node_text_ok_def lookup_local_def)
  next
    case None
    have "silo_text_ok s" if "pick_silo rand sha p g c (placement_candidates d) = Inr s" for s
      using placement.pick_active [OF that] assms(1) by (auto simp: node_text_ok_def)
    with CResolve assms None show ?thesis
      by (auto simp: resolve_or_activate_local_def node_text_ok_def lookup_local_def Let_def
          entry_text_ok_def placement_candidates_def split: sum.splits if_splits)
  qed
qed

lemma handler_serves:
  assumes tx: "node_text_ok d" "call_text_ok k"
    and run: "message_handler rand sha provider (request_message cid k) d = (r, d', out, fired)"
  shows "\<exists>a. serve rand sha k d = (a, d')
    \<and> (\<forall>m. r = Inr (Some m) \<longrightarrow> reply_answer k (msg_body m) = a)
    \<and> ((\<nexists>m. r = Inr (Some m)) \<longrightarrow> (\<exists>e. a = Inl e))"
proof (cases k)
  case (CRegister g s)
  obtain e d1 where reg: "register_local g s d = (e, d1)" by fastforce
  have "entry_text_ok e"
    using serve_text [OF tx, of rand sha "Inr (Some e)" d1] CRegister reg by simp
  then have "decode_entry (encode_entry (Some e)) = Inr (Some e)"
    by (intro decode_entry_encode) simp
  with CRegister run reg tx(2) show ?thesis
    by (auto simp: message_handler_def request_message_def handle_request_def handle_body_def
        decode_register_encode header_prefix [of "CRegister g s", simplified])
next
  case (CLookup g)
  have "pred_option entry_text_ok (lookup_local d g)"
    using tx(1) by (cases "lookup_local d g") (auto simp: node_text_ok_def)
  with CLookup run tx(2) show ?thesis
    by (auto simp: message_handler_def request_message_def handle_request_def handle_body_def header_neq
        decode_lookup_encode header_prefix [of "CLookup g", simplified] decode_entry_encode lookup_local_def)
next
  case (CUnregister g s)
  with run tx(2) show ?thesis
    by (auto simp: message_handler_def request_message_def handle_request_def handle_body_def header_neq
        decode_unregister_encode header_prefix [of "CUnregister g s", simplified] decode_none_encode)
next
  case (CResolve p g c)
  obtain a d1 where res: "resolve_or_activate_local (pick_silo rand sha p) g c d = (a, d1)" by fastforce
  have dec: "decode_resolve (encode_resolve (ResolveRequest g (placement_class_name p) c))
      = Inr (ResolveRequest g (placement_class_name p) c)"
    using tx(2) CResolve by (intro decode_resolve_encode valid_class_name) simp_all
  show ?thesis
  proof (cases a)
    case (Inl x)
    with CResolve run res dec show ?thesis
      by (auto simp: message_handler_def request_message_def handle_request_def handle_body_def header_neq
          header_prefix [of "CResolve p g c", simplified] split: if_splits)
  next
    case (Inr e)
    have "entry_text_ok e"
      using serve_text [OF tx, of rand sha "Inr (Some e)" d1] CResolve res Inr by simp
    then have "decode_entry (encode_entry (Some e)) = Inr (Some e)"
      by (intro decode_entry_encode) simp
    with CResolve run res dec Inr show ?thesis
      by (auto simp: message_handler_def request_message_def handle_request_def handle_body_def header_neq
          header_prefix [of "CResolve p g c", simplified])
  qed
qed

subsection \<open>The invariant of the cluster\<close>

lemma serve_step:
  assumes "dd_ok d" "serve rand sha k d = (r, d')"
  shows "dd_ok d' \<and> dd_local d' = dd_local d \<and> dd_ring d' = dd_ring d \<and> dd_epoch d \<le> dd_epoch d'
    \<and> (\<forall>e. r = Inr (Some e) \<longrightarrow> lookup_local d' (call_grain k) = Some e)
    \<and> (\<forall>g e. lookup_local d' g = Some e \<longrightarrow> lookup_local d g = Some e \<or> dd_epoch d < activation_epoch e)
    \<and> (\<forall>g e. lookup_local d g = Some e \<longrightarrow> \<not> (is_unregister k \<and> call_grain k = g) \<longrightarrow>
          lookup_local d' g = Some e)"
proof (cases k)
  case (CRegister g s)
  obtain e d1 where reg: "register_local g s d = (e, d1)" by fastforce
  with owner_dir.register_step [OF assms(1) reg] register_local_frame [OF reg] CRegister assms(2)
  show ?thesis by auto
next
  case (CLookup g)
  with assms show ?thesis by auto
next
  case (CUnregister g s)
  with assms owner_dir.unregister_state [OF assms(1), of g s]
    owner_dir.unregister_lookup [OF assms(1), of g s] unregister_local_frame [of g s d]
  show ?thesis by (auto split: if_splits)
next
  case (CResolve p g c)
  obtain a d1 where res: "resolve_or_activate_local (pick_silo rand sha p) g c d = (a, d1)" by fastforce
  with owner_dir.resolve_step [OF assms(1) res] resolve_local_frame [OF res] CResolve assms(2)
  show ?thesis by (cases a) auto
qed

text \<open>
  What has been answered of each grain (\<open>S\<close>), against the owners' tables (\<open>N\<close>, \<open>own\<close>);
  \<open>U\<close> collects the grains some client asked to unregister.
\<close>

definition answers_inv ::
  "(GrainId \<Rightarrow> SiloAddress) \<Rightarrow> (SiloAddress \<Rightarrow> DistributedGrainDirectory) \<Rightarrow>
   (GrainId \<Rightarrow> DirectoryEntry set) \<Rightarrow> GrainId set \<Rightarrow> bool" where
  "answers_inv own N S U \<longleftrightarrow>
     (\<forall>g e. e \<in> S g \<longrightarrow> activation_epoch e \<le> dd_epoch (N (own g)))
     \<and> (\<forall>g e e'. {e, e'} \<subseteq> S g \<union> {x. lookup_local (N (own g)) g = Some x} \<longrightarrow>
           activation_epoch e = activation_epoch e' \<longrightarrow> e = e')
     \<and> (\<forall>g e. g \<notin> U \<longrightarrow> e \<in> S g \<longrightarrow> lookup_local (N (own g)) g = Some e)"

lemma answers_inv_mono:
  "answers_inv own N S U \<Longrightarrow> (\<And>g. S' g \<subseteq> S g) \<Longrightarrow> U \<subseteq> U' \<Longrightarrow> answers_inv own N S' U'"
  unfolding answers_inv_def by blast

lemma answers_inv_serve:
  assumes inv: "answers_inv own N S U" and d: "N o' = d" and ok_d: "dd_ok d"
    and o': "o' = own (call_grain k)" and run_d: "serve rand sha k d = (r, d')"
    and new: "\<And>g. S' g \<subseteq> S g \<union> {e. g = call_grain k \<and> r = Inr (Some e)}"
    and un: "is_unregister k \<Longrightarrow> call_grain k \<in> U"
  shows "answers_inv own (N(o' := d')) S' U"
proof -
  have ok: "dd_ok (N o')" and run: "serve rand sha k (N o') = (r, d')"
    using d ok_d run_d by simp_all
  note step = serve_step [OF ok run]
  have ok': "dd_ok d'" using step by blast
  have bound: "activation_epoch e \<le> dd_epoch (N o')" if "lookup_local (N o') g = Some e" for g e
    using owner_dir.entry_ok [OF ok that] by simp
  have bound': "activation_epoch e \<le> dd_epoch d'" if "lookup_local d' g = Some e" for g e
    using owner_dir.entry_ok [OF ok' that] by simp
  have fresh: "e \<in> S g \<or> lookup_local d' g = Some e" if "e \<in> S' g" for g e
    using new [of g] that step by blast
  show ?thesis
    unfolding answers_inv_def
  proof (intro conjI allI impI)
    fix g e assume e: "e \<in> S' g"
    show "activation_epoch e \<le> dd_epoch ((N(o' := d')) (own g))"
    proof (cases "own g = o'")
      case True
      with fresh [OF e] inv step bound' [of g e] show ?thesis
        by (auto simp: answers_inv_def intro: order_trans)
    next
      case False
      with e new [of g] o' inv show ?thesis by (auto simp: answers_inv_def)
    qed
  next
    fix g e e'
    assume mem: "{e, e'} \<subseteq> S' g \<union> {x. lookup_local ((N(o' := d')) (own g)) g = Some x}"
      and eq: "activation_epoch e = activation_epoch e'"
    show "e = e'"
    proof (cases "own g = o'")
      case True
      have origin: "x \<in> S g \<union> {x. lookup_local (N o') g = Some x}
          \<or> lookup_local d' g = Some x \<and> dd_epoch (N o') < activation_epoch x"
        if "x \<in> S' g \<union> {x. lookup_local d' g = Some x}" for x
        using that fresh step by blast
      have old: "activation_epoch x \<le> dd_epoch (N o')"
        if "x \<in> S g \<union> {x. lookup_local (N o') g = Some x}" for x
        using that inv bound True by (auto simp: answers_inv_def)
      from mem True have "e \<in> S' g \<union> {x. lookup_local d' g = Some x}"
        "e' \<in> S' g \<union> {x. lookup_local d' g = Some x}" by auto
      from this [THEN origin] show ?thesis
      proof (elim disjE conjE)
        assume "e \<in> S g \<union> {x. lookup_local (N o') g = Some x}"
          "e' \<in> S g \<union> {x. lookup_local (N o') g = Some x}"
        then show ?thesis using inv eq True unfolding answers_inv_def by blast
      next
        assume "e \<in> S g \<union> {x. lookup_local (N o') g = Some x}" "dd_epoch (N o') < activation_epoch e'"
        with old [of e] eq show ?thesis by linarith
      next
        assume "e' \<in> S g \<union> {x. lookup_local (N o') g = Some x}" "dd_epoch (N o') < activation_epoch e"
        with old [of e'] eq show ?thesis by linarith
      next
        assume "lookup_local d' g = Some e" "lookup_local d' g = Some e'"
        then show ?thesis by simp
      qed
    next
      case False
      then have "S' g \<subseteq> S g" using new [of g] o' by auto
      then have "{e, e'} \<subseteq> S g \<union> {x. lookup_local (N (own g)) g = Some x}" using mem False by auto
      then show ?thesis using eq inv unfolding answers_inv_def by blast
    qed
  next
    fix g e assume g: "g \<notin> U" and e: "e \<in> S' g"
    show "lookup_local ((N(o' := d')) (own g)) g = Some e"
    proof (cases "own g = o'")
      case True
      have keep: "lookup_local d' g = Some e" if "lookup_local (N o') g = Some e"
        using step that un g by blast
      from fresh [OF e] show ?thesis
        using inv g True keep by (auto simp: answers_inv_def)
    next
      case False
      with e new [of g] o' inv g show ?thesis by (auto simp: answers_inv_def)
    qed
  qed
qed

definition seen :: "dir_cluster \<Rightarrow> GrainId \<Rightarrow> DirectoryEntry set" where
  "seen c g = {e. (g, e) \<in> set (answers c)}
     \<union> {e. \<exists>k body. (k, body) \<in> set (replies c) \<and> call_grain k = g \<and> reply_answer k body = Inr (Some e)}"

definition unregistered :: "dir_cluster \<Rightarrow> GrainId set" where
  "unregistered c = {call_grain k | k. k \<in> set (issued c) \<and> is_unregister k}"

definition ring_owner :: "(bytes \<Rightarrow> bytes) \<Rightarrow> SiloAddress list \<Rightarrow> GrainId \<Rightarrow> SiloAddress" where
  "ring_owner sha silos g = the (owner_of (default_ring sha silos) (hash_grain_id sha g))"

definition node_ok :: "(bytes \<Rightarrow> bytes) \<Rightarrow> SiloAddress list \<Rightarrow> SiloAddress \<Rightarrow> DistributedGrainDirectory \<Rightarrow> bool" where
  "node_ok sha silos s d \<longleftrightarrow> dd_local d = s \<and> dd_ring d = default_ring sha silos \<and> dd_ok d \<and> node_text_ok d"

definition request_ok ::
  "(bytes \<Rightarrow> bytes) \<Rightarrow> SiloAddress list \<Rightarrow> dir_call list \<Rightarrow> SiloAddress \<times> dir_call \<times> TransportMessage \<Rightarrow> bool"
  where
  "request_ok sha silos ks q \<longleftrightarrow> (case q of (owner, k, msg) \<Rightarrow>
     call_text_ok k \<and> k \<in> set ks \<and> owner = ring_owner sha silos (call_grain k)
     \<and> (\<exists>cid. msg = request_message cid k))"

definition cluster_inv :: "(bytes \<Rightarrow> bytes) \<Rightarrow> SiloAddress list \<Rightarrow> dir_cluster \<Rightarrow> bool" where
  "cluster_inv sha silos c \<longleftrightarrow>
     (\<forall>s. node_ok sha silos s (nodes c s))
     \<and> (\<forall>q \<in> set (requests c). request_ok sha silos (issued c) q)
     \<and> answers_inv (ring_owner sha silos) (nodes c) (seen c) (unregistered c)"

lemma owner_is_ring_owner:
  "dd_owner_of sha d g = Inr s \<Longrightarrow> dd_ring d = default_ring sha silos \<Longrightarrow> s = ring_owner sha silos g"
  by (auto simp: dd_owner_of_def owner_of_with_ring_def ring_owner_def split: option.splits)

lemma cluster_inv_initial:
  assumes "\<forall>s \<in> set silos. silo_text_ok s"
  shows "cluster_inv sha silos (initial_cluster sha silos)"
proof -
  have "silo_text_ok s" if "s \<in> set (ring_silos (default_ring sha silos))" for s
    using that assms by (simp add: default_ring_def)
  then show ?thesis
    using assms by (simp add: cluster_inv_def initial_cluster_def node_ok_def fresh_node_def dd_ok_def
        node_text_ok_def lookup_local_def placement_candidates_def answers_inv_def seen_def)
qed

text \<open>A silo that serves a call stays sound, and so do the answers.\<close>

lemma node_ok_serve:
  "node_ok sha silos s d \<Longrightarrow> call_text_ok k \<Longrightarrow> serve rand sha k d = (r, d') \<Longrightarrow> node_ok sha silos s d'"
  using serve_step [of d rand sha k r d'] serve_text [of d k rand sha r d'] by (auto simp: node_ok_def)

lemma seen_add_answer:
  "seen (c\<lparr>nodes := N, issued := ks, answers := add_answer k r (answers c)\<rparr>) g
     \<subseteq> seen c g \<union> {e. g = call_grain k \<and> r = Inr (Some e)}"
  by (auto simp: seen_def add_answer_def split: sum.splits option.splits)

lemma cluster_inv_step:
  assumes "cluster_step rand sha c c'" and inv: "cluster_inv sha silos c"
  shows "cluster_inv sha silos c'"
  using assms(1)
proof cases
  case (call_local k s send r d')
  have node: "node_ok sha silos s (nodes c s)" using inv by (simp add: cluster_inv_def)
  have run: "serve rand sha k (nodes c s) = (r, d')"
    using call_local client_call_local [of sha "nodes c s" k] by simp
  have own: "s = ring_owner sha silos (call_grain k)"
    using owner_is_ring_owner [OF call_local(3), of silos] node by (simp add: node_ok_def)
  have "answers_inv (ring_owner sha silos) ((nodes c)(s := d')) (seen c') (unregistered c')"
  proof (rule answers_inv_serve [where k = k and rand = rand and sha = sha and d = "nodes c s" and r = r])
    show "answers_inv (ring_owner sha silos) (nodes c) (seen c) (unregistered c')"
      using inv by (auto simp: cluster_inv_def call_local unregistered_def intro: answers_inv_mono)
    show "dd_ok (nodes c s)" using node by (simp add: node_ok_def)
    show "seen c' g \<subseteq> seen c g \<union> {e. g = call_grain k \<and> r = Inr (Some e)}" for g
      unfolding call_local(1) by (rule seen_add_answer)
  qed (use own run in \<open>auto simp: call_local unregistered_def\<close>)
  moreover have "request_ok sha silos (k # issued c) q" if "request_ok sha silos (issued c) q" for q
    using that by (auto simp: request_ok_def split: prod.splits)
  ultimately show ?thesis
    using inv node_ok_serve [OF node call_local(2) run] by (auto simp: cluster_inv_def call_local)
next
  case (call_remote k s owner cid)
  have own: "owner = ring_owner sha silos (call_grain k)"
    using owner_is_ring_owner [OF call_remote(3), of silos] inv by (simp add: cluster_inv_def node_ok_def)
  have "request_ok sha silos (k # issued c) q" if "request_ok sha silos (issued c) q" for q
    using that by (auto simp: request_ok_def split: prod.splits)
  moreover have "answers_inv (ring_owner sha silos) (nodes c) (seen c') (unregistered c')"
    using inv by (auto simp: cluster_inv_def call_remote unregistered_def seen_def
        elim!: answers_inv_mono)
  ultimately show ?thesis
    using inv own call_remote(2) by (auto simp: cluster_inv_def call_remote request_ok_def)
next
  case (deliver_request owner k msg provider m d' out fired)
  have q: "request_ok sha silos (issued c) (owner, k, msg)"
    using inv deliver_request(2) by (auto simp: cluster_inv_def)
  have node: "node_ok sha silos owner (nodes c owner)" using inv by (simp add: cluster_inv_def)
  obtain a where run: "serve rand sha k (nodes c owner) = (a, d')" and rep: "reply_answer k (msg_body m) = a"
    using handler_serves [of "nodes c owner" k rand sha provider _ "Inr (Some m)" d' out fired]
      deliver_request(3) q node by (auto simp: request_ok_def node_ok_def)
  have own: "owner = ring_owner sha silos (call_grain k)" using q by (simp add: request_ok_def)
  have "answers_inv (ring_owner sha silos) ((nodes c)(owner := d')) (seen c') (unregistered c')"
  proof (rule answers_inv_serve [where k = k and rand = rand and sha = sha and d = "nodes c owner" and r = a])
    show "answers_inv (ring_owner sha silos) (nodes c) (seen c) (unregistered c')"
      using inv by (auto simp: cluster_inv_def deliver_request unregistered_def)
    show "dd_ok (nodes c owner)" using node by (simp add: node_ok_def)
    show "seen c' g \<subseteq> seen c g \<union> {e. g = call_grain k \<and> a = Inr (Some e)}" for g
      using rep by (auto simp: deliver_request seen_def)
    show "is_unregister k \<Longrightarrow> call_grain k \<in> unregistered c'"
      using q by (auto simp: deliver_request unregistered_def request_ok_def)
  qed (use own run in simp_all)
  moreover have "node_ok sha silos owner d'"
    using q by (intro node_ok_serve [OF node _ run]) (simp add: request_ok_def)
  ultimately show ?thesis
    using inv by (auto simp: cluster_inv_def deliver_request dest: in_set_remove1 [THEN iffD1, rotated]
        set_remove1_subset [THEN subsetD])
next
  case (deliver_unanswered owner k msg provider r d' out fired)
  have q: "request_ok sha silos (issued c) (owner, k, msg)"
    using inv deliver_unanswered(2) by (auto simp: cluster_inv_def)
  have node: "node_ok sha silos owner (nodes c owner)" using inv by (simp add: cluster_inv_def)
  obtain cid where msg: "msg = request_message cid k" using q by (auto simp: request_ok_def)
  have tx: "node_text_ok (nodes c owner)" "call_text_ok k"
    using node q by (auto simp: node_ok_def request_ok_def)
  obtain a where run: "serve rand sha k (nodes c owner) = (a, d')"
    using handler_serves [OF tx deliver_unanswered(3) [unfolded msg]] by blast
  have own: "owner = ring_owner sha silos (call_grain k)" using q by (simp add: request_ok_def)
  have "answers_inv (ring_owner sha silos) ((nodes c)(owner := d')) (seen c') (unregistered c')"
  proof (rule answers_inv_serve [where k = k and rand = rand and sha = sha and d = "nodes c owner" and r = a])
    show "answers_inv (ring_owner sha silos) (nodes c) (seen c) (unregistered c')"
      using inv by (auto simp: cluster_inv_def deliver_unanswered unregistered_def)
    show "dd_ok (nodes c owner)" using node by (simp add: node_ok_def)
    show "seen c' g \<subseteq> seen c g \<union> {e. g = call_grain k \<and> a = Inr (Some e)}" for g
      by (auto simp: deliver_unanswered seen_def)
    show "is_unregister k \<Longrightarrow> call_grain k \<in> unregistered c'"
      using q by (auto simp: deliver_unanswered unregistered_def request_ok_def)
  qed (use own run in simp_all)
  moreover have "node_ok sha silos owner d'"
    using q by (intro node_ok_serve [OF node _ run]) (simp add: request_ok_def)
  ultimately show ?thesis
    using inv by (auto simp: cluster_inv_def deliver_unanswered dest: set_remove1_subset [THEN subsetD])
next
  case (deliver_reply k body)
  have "seen c' g \<subseteq> seen c g" for g
    using deliver_reply(2)
    by (auto simp: deliver_reply(1) seen_def add_answer_def split: sum.splits option.splits
        dest: set_remove1_subset [THEN subsetD])
  moreover have "unregistered c' = unregistered c" by (simp add: deliver_reply(1) unregistered_def)
  ultimately show ?thesis
    using inv by (auto simp: cluster_inv_def deliver_reply(1) intro: answers_inv_mono)
next
  case (lose_request q)
  have "seen c' = seen c" "unregistered c' = unregistered c"
    by (auto simp: lose_request seen_def unregistered_def fun_eq_iff)
  then show ?thesis
    using inv by (auto simp: cluster_inv_def lose_request dest: set_remove1_subset [THEN subsetD])
next
  case (lose_reply q)
  have "seen c' g \<subseteq> seen c g" for g
    by (auto simp: lose_reply seen_def dest: set_remove1_subset [THEN subsetD])
  moreover have "unregistered c' = unregistered c" by (simp add: lose_reply unregistered_def)
  ultimately show ?thesis
    using inv by (auto simp: cluster_inv_def lose_reply intro: answers_inv_mono)
qed

lemma cluster_inv_reachable:
  "cluster_reachable rand sha silos c \<Longrightarrow> \<forall>s \<in> set silos. silo_text_ok s \<Longrightarrow> cluster_inv sha silos c"
  by (induction rule: cluster_reachable.induct) (auto intro: cluster_inv_initial cluster_inv_step)

subsection \<open>Properties\<close>

text \<open>
  C1. Single activation in a stable cluster: silos that share one ring serve the clients' calls in
  any interleaving, with requests and replies in flight as encoded bytes and any of them lost. Two
  answers about one grain that carry the same activation epoch are the same entry, whichever
  silo asked and however the messages were reordered, so an epoch fences an activation; and while
  no client unregisters the grain, all answers about it, on all silos, name one activation, the
  one on record at its owner.
\<close>

theorem cluster_single_activation:
  assumes "cluster_reachable rand sha silos c" "\<forall>s \<in> set silos. silo_text_ok s"
    and "(g, e) \<in> set (answers c)" "(g, e') \<in> set (answers c)"
  shows "(activation_epoch e = activation_epoch e' \<longrightarrow> e = e')
    \<and> ((\<forall>k \<in> set (issued c). is_unregister k \<longrightarrow> call_grain k \<noteq> g) \<longrightarrow>
        e = e' \<and> lookup_local (nodes c (ring_owner sha silos g)) g = Some e)"
proof -
  have inv: "answers_inv (ring_owner sha silos) (nodes c) (seen c) (unregistered c)"
    using cluster_inv_reachable [OF assms(1,2)] by (simp add: cluster_inv_def)
  have mem: "e \<in> seen c g" "e' \<in> seen c g" using assms(3,4) by (auto simp: seen_def)
  have "activation_epoch e = activation_epoch e' \<longrightarrow> e = e'"
    using inv mem unfolding answers_inv_def by blast
  moreover have "e = e' \<and> lookup_local (nodes c (ring_owner sha silos g)) g = Some e"
    if "\<forall>k \<in> set (issued c). is_unregister k \<longrightarrow> call_grain k \<noteq> g"
  proof -
    have "g \<notin> unregistered c" using that by (auto simp: unregistered_def)
    then have "lookup_local (nodes c (ring_owner sha silos g)) g = Some e"
      "lookup_local (nodes c (ring_owner sha silos g)) g = Some e'"
      using inv mem unfolding answers_inv_def by blast+
    then show ?thesis by simp
  qed
  ultimately show ?thesis by blast
qed

text \<open>A cluster of one silo that registered a grain.\<close>

definition demo_cluster :: dir_cluster where
  "demo_cluster = (initial_cluster (take 1) [silo_a])
     \<lparr>nodes := (fresh_node (take 1) [silo_a])
        (silo_a := snd (register_local grain_y silo_b (fresh_node (take 1) [silo_a] silo_a))),
      issued := [CRegister grain_y silo_b],
      answers := [(grain_y, DirectoryEntry grain_y silo_b 1)]\<rparr>"

lemma demo_cluster_reachable: "cluster_reachable rand (take 1) [silo_a] demo_cluster"
proof -
  let ?d = "fresh_node (take 1) [silo_a] silo_a"
  let ?c = "initial_cluster (take 1) [silo_a]"
  have node: "nodes ?c silo_a = ?d" by (simp add: initial_cluster_def)
  have okc: "call_text_ok (CRegister grain_y silo_b)"
    by (simp add: grain_y_def silo_b_def grain_text_ok_def silo_text_ok_def valid_str_def valid_cp_def)
  have own: "dd_owner_of (take 1) (nodes ?c silo_a) (call_grain (CRegister grain_y silo_b))
      = Inr (dd_local (nodes ?c silo_a))"
    unfolding node dd_owner_of_def by (simp add: fresh_node_def default_ring_single)
  obtain d' where reg: "register_local grain_y silo_b ?d = (DirectoryEntry grain_y silo_b 1, d')"
    by (simp add: register_local_def fresh_node_def Let_def)
  then have d': "snd (register_local grain_y silo_b ?d) = d'" by simp
  have run: "client_call rand (take 1) send' (CRegister grain_y silo_b) (nodes ?c silo_a)
      = (Inr (Some (DirectoryEntry grain_y silo_b 1)), d')" for send'
    using client_call_local [OF own, of rand send'] reg unfolding node by (simp del: client_call.simps)
  from cluster_step.call_local [OF okc own run]
  have "cluster_step rand (take 1) ?c demo_cluster"
    by (simp add: demo_cluster_def initial_cluster_def add_answer_def d' [unfolded One_nat_def])
  then show ?thesis by (rule cluster_reachable.step [OF cluster_reachable.start])
qed

theorem cluster_single_activation_witness:
  "lookup_local (nodes demo_cluster (ring_owner (take 1) [silo_a] grain_y)) grain_y
     = Some (DirectoryEntry grain_y silo_b 1)"
proof -
  have "\<forall>s \<in> set [silo_a]. silo_text_ok s"
    by (simp add: silo_a_def silo_text_ok_def valid_str_def valid_cp_def)
  moreover have "(grain_y, DirectoryEntry grain_y silo_b 1) \<in> set (answers demo_cluster)"
    by (simp add: demo_cluster_def)
  ultimately show ?thesis
    using cluster_single_activation [OF demo_cluster_reachable [of "\<lambda>_ _. 0"]]
    by (simp add: demo_cluster_def)
qed

end
