(* ===== verification/Membership.thy ===== *)
theory Membership
  imports Identity Json
begin

text \<open>
  The membership port, \<^verbatim>\<open>pyleans/providers/membership.py\<close>: snapshots, the helper
  that copies rows, and the compare-and-swap contract of a membership table as the locale
  \<open>membership_table\<close>. The locale proves once what the callers (agent, failure detector)
  rely on: failures change nothing, the version only grows, and no update is lost.
\<close>

record MembershipSnapshot =
  version :: int
  silos :: "SiloInfo list"

text \<open>\<^verbatim>\<open>read_silo\<close> on the snapshot its \<^verbatim>\<open>read_all\<close> returned.\<close>

fun find_silo :: "SiloInfo list \<Rightarrow> pystr \<Rightarrow> SiloInfo option" where
  "find_silo [] sid = None"
| "find_silo (s # ss) sid = (if silo_id (address s) = sid then Some s else find_silo ss sid)"

definition read_silo :: "MembershipSnapshot result \<Rightarrow> pystr \<Rightarrow> SiloInfo option result" where
  "read_silo read_all sid = res_bind read_all (\<lambda>snapshot. Inr (find_silo (silos snapshot) sid))"

text \<open>
  \<^verbatim>\<open>with_replacements(silo, **replacements)\<close>: rows are values here, so the copy of the
  suspicions list is the list, and a set of replacements is a record update.
\<close>

definition with_replacements :: "SiloInfo \<Rightarrow> (SiloInfo \<Rightarrow> SiloInfo) \<Rightarrow> SiloInfo" where
  "with_replacements silo replacements = replacements silo"

lemma find_silo_id: "find_silo ss sid = Some s \<Longrightarrow> silo_id (address s) = sid"
  by (induction ss) (auto split: if_splits)

lemma find_silo_in: "find_silo ss sid = Some s \<Longrightarrow> s \<in> set ss"
  by (induction ss) (auto split: if_splits)

lemma find_silo_None: "find_silo ss sid = None \<longleftrightarrow> sid \<notin> (silo_id \<circ> address) ` set ss"
  by (induction ss) auto

subsection \<open>Calls on a table\<close>

datatype mem_op =
    TryUpdate SiloInfo
  | TryDelete SiloInfo
  | TryAddSuspicion pystr SuspicionVote pystr

fun mem_step ::
  "(SiloInfo \<Rightarrow> 't \<Rightarrow> SiloInfo result \<times> 't) \<Rightarrow> (SiloInfo \<Rightarrow> 't \<Rightarrow> unit result \<times> 't)
   \<Rightarrow> (pystr \<Rightarrow> SuspicionVote \<Rightarrow> pystr \<Rightarrow> 't \<Rightarrow> SiloInfo result \<times> 't)
   \<Rightarrow> mem_op \<Rightarrow> 't \<Rightarrow> SiloInfo option result \<times> 't" where
  "mem_step upd del add (TryUpdate s) t = (case upd s t of (r, t') \<Rightarrow> (map_sum id Some r, t'))"
| "mem_step upd del add (TryDelete s) t = (case del s t of (r, t') \<Rightarrow> (map_sum id (\<lambda>_. None) r, t'))"
| "mem_step upd del add (TryAddSuspicion sid v e) t =
     (case add sid v e t of (r, t') \<Rightarrow> (map_sum id Some r, t'))"

text \<open>A run of calls: the final table and the rows the successful calls returned.\<close>

fun mem_run ::
  "(SiloInfo \<Rightarrow> 't \<Rightarrow> SiloInfo result \<times> 't) \<Rightarrow> (SiloInfo \<Rightarrow> 't \<Rightarrow> unit result \<times> 't)
   \<Rightarrow> (pystr \<Rightarrow> SuspicionVote \<Rightarrow> pystr \<Rightarrow> 't \<Rightarrow> SiloInfo result \<times> 't)
   \<Rightarrow> mem_op list \<Rightarrow> 't \<Rightarrow> 't \<times> SiloInfo list" where
  "mem_run upd del add [] t = (t, [])"
| "mem_run upd del add (op # ops) t =
     (case mem_step upd del add op t of
        (Inr (Some s), t') \<Rightarrow> (case mem_run upd del add ops t' of (u, ss) \<Rightarrow> (u, s # ss))
      | (_, t') \<Rightarrow> mem_run upd del add ops t')"

subsection \<open>The contract\<close>

locale membership_table =
  fixes rd :: "'t \<Rightarrow> pystr \<Rightarrow> SiloInfo option"
    and ver :: "'t \<Rightarrow> int"
    and upd :: "SiloInfo \<Rightarrow> 't \<Rightarrow> SiloInfo result \<times> 't"
    and del :: "SiloInfo \<Rightarrow> 't \<Rightarrow> unit result \<times> 't"
    and add :: "pystr \<Rightarrow> SuspicionVote \<Rightarrow> pystr \<Rightarrow> 't \<Rightarrow> SiloInfo result \<times> 't"
    and stored :: "SiloInfo \<Rightarrow> SiloInfo"
    and invar :: "'t \<Rightarrow> bool"
  assumes upd_missing: "invar t \<Longrightarrow> rd t (silo_id (address s)) = None \<Longrightarrow> etag s \<noteq> None \<Longrightarrow>
      upd s t = (Inl SiloNotFoundError, t)"
    and upd_stale: "invar t \<Longrightarrow> rd t (silo_id (address s)) = Some r \<Longrightarrow> etag r \<noteq> etag s \<Longrightarrow>
      upd s t = (Inl TableStaleError, t)"
    and upd_ok: "invar t \<Longrightarrow> rd t (silo_id (address s)) = r0 \<Longrightarrow>
      r0 = None \<and> etag s = None \<or> (\<exists>r. r0 = Some r \<and> etag r = etag s) \<Longrightarrow>
      \<exists>e t'. upd s t = (Inr ((stored s)\<lparr>etag := Some e\<rparr>), t')
        \<and> rd t' = (rd t)(silo_id (address s) \<mapsto> (stored s)\<lparr>etag := Some e\<rparr>)
        \<and> ver t' = ver t + 1 \<and> invar t'"
    and del_missing: "invar t \<Longrightarrow> rd t (silo_id (address s)) = None \<Longrightarrow> del s t = (Inr (), t)"
    and del_stale: "invar t \<Longrightarrow> rd t (silo_id (address s)) = Some r \<Longrightarrow> etag r \<noteq> etag s \<Longrightarrow>
      del s t = (Inl TableStaleError, t)"
    and del_ok: "invar t \<Longrightarrow> rd t (silo_id (address s)) = Some r \<Longrightarrow> etag r = etag s \<Longrightarrow>
      \<exists>t'. del s t = (Inr (), t') \<and> rd t' = (rd t)(silo_id (address s) := None)
        \<and> ver t' = ver t + 1 \<and> invar t'"
    and add_missing: "invar t \<Longrightarrow> rd t sid = None \<Longrightarrow> add sid v e t = (Inl SiloNotFoundError, t)"
    and add_stale: "invar t \<Longrightarrow> rd t sid = Some r \<Longrightarrow> etag r \<noteq> Some e \<Longrightarrow>
      add sid v e t = (Inl TableStaleError, t)"
    and add_ok: "invar t \<Longrightarrow> rd t sid = Some r \<Longrightarrow> etag r = Some e \<Longrightarrow>
      \<exists>e' t'. add sid v e t = (Inr (r\<lparr>suspicions := suspicions r @ [v], etag := Some e'\<rparr>), t')
        \<and> rd t' = (rd t)(sid \<mapsto> r\<lparr>suspicions := suspicions r @ [v], etag := Some e'\<rparr>)
        \<and> ver t' = ver t + 1 \<and> invar t'"
begin

abbreviation run :: "mem_op list \<Rightarrow> 't \<Rightarrow> 't \<times> SiloInfo list" where
  "run \<equiv> mem_run upd del add"

text \<open>One call: a failure changes nothing, a write replaces one row by a row it returns or none.\<close>

lemma step_cases:
  assumes "invar t" "mem_step upd del add op t = (r, t')"
  shows "invar t' \<and>
    (t' = t \<and> (\<exists>x. r = Inl x \<or> r = Inr None)
     \<or> ver t' = ver t + 1
       \<and> (\<exists>sid. (r = Inr None \<and> rd t' = (rd t)(sid := None))
             \<or> (\<exists>s. r = Inr (Some s) \<and> etag s \<noteq> None \<and> rd t' = (rd t)(sid \<mapsto> s))))"
proof (cases op)
  case (TryUpdate s)
  let ?sid = "silo_id (address s)"
  consider "rd t ?sid = None" "etag s \<noteq> None" | row where "rd t ?sid = Some row" "etag row \<noteq> etag s"
    | "rd t ?sid = None \<and> etag s = None \<or> (\<exists>r. rd t ?sid = Some r \<and> etag r = etag s)"
    by (cases "rd t ?sid") auto
  then show ?thesis
  proof cases
    case 1
    with upd_missing [OF assms(1)] assms TryUpdate show ?thesis by auto
  next
    case (2 row)
    with upd_stale [OF assms(1) 2] assms TryUpdate show ?thesis by auto
  next
    case 3
    from upd_ok [OF assms(1) refl 3] obtain e u where
      "upd s t = (Inr ((stored s)\<lparr>etag := Some e\<rparr>), u)"
      "rd u = (rd t)(?sid \<mapsto> (stored s)\<lparr>etag := Some e\<rparr>)" "ver u = ver t + 1" "invar u" by blast
    with assms TryUpdate show ?thesis by auto
  qed
next
  case (TryDelete s)
  let ?sid = "silo_id (address s)"
  consider "rd t ?sid = None" | row where "rd t ?sid = Some row" "etag row \<noteq> etag s"
    | row where "rd t ?sid = Some row" "etag row = etag s"
    by (cases "rd t ?sid") auto
  then show ?thesis
  proof cases
    case 1
    with del_missing [OF assms(1)] assms TryDelete show ?thesis by auto
  next
    case (2 row)
    with del_stale [OF assms(1) 2] assms TryDelete show ?thesis by auto
  next
    case (3 row)
    from del_ok [OF assms(1) 3] obtain u where
      "del s t = (Inr (), u)" "rd u = (rd t)(?sid := None)" "ver u = ver t + 1" "invar u" by blast
    with assms TryDelete show ?thesis by auto
  qed
next
  case (TryAddSuspicion sid v e)
  consider "rd t sid = None" | row where "rd t sid = Some row" "etag row \<noteq> Some e"
    | row where "rd t sid = Some row" "etag row = Some e"
    by (cases "rd t sid") auto
  then show ?thesis
  proof cases
    case 1
    with add_missing [OF assms(1)] assms TryAddSuspicion show ?thesis by auto
  next
    case (2 row)
    with add_stale [OF assms(1) 2] assms TryAddSuspicion show ?thesis by auto
  next
    case (3 row)
    let ?row = "\<lambda>e'. row\<lparr>suspicions := suspicions row @ [v], etag := Some e'\<rparr>"
    from add_ok [OF assms(1) 3] obtain e' u where
      "add sid v e t = (Inr (?row e'), u)" "rd u = (rd t)(sid \<mapsto> ?row e')"
      "ver u = ver t + 1" "invar u" by blast
    with assms TryAddSuspicion show ?thesis by auto
  qed
qed

text \<open>Over a run, a row is untouched, gone, or one of the rows that were written.\<close>

lemma run_rows:
  "invar t \<Longrightarrow> run ops t = (t', written) \<Longrightarrow>
   invar t' \<and> ver t \<le> ver t' \<and> (rd t' sid = rd t sid \<or> rd t' sid = None
     \<or> (\<exists>s \<in> set written. rd t' sid = Some s \<and> etag s \<noteq> None))"
proof (induction ops arbitrary: t written)
  case (Cons op ops)
  obtain r u where step: "mem_step upd del add op t = (r, u)" by fastforce
  note s = step_cases [OF Cons.prems(1) step]
  show ?case
  proof (cases "\<exists>x. r = Inr (Some x)")
    case True
    then obtain x where x: "r = Inr (Some x)" by blast
    with Cons.prems(2) step obtain written' where w: "run ops u = (t', written')" "written = x # written'"
      by (auto split: prod.splits)
    from Cons.IH [OF _ w(1)] s x w show ?thesis by (auto split: if_splits)
  next
    case False
    with Cons.prems(2) step have "run ops u = (t', written)" by (auto split: sum.splits option.splits)
    from Cons.IH [OF _ this] s False show ?thesis by (auto split: if_splits)
  qed
qed simp

end

text \<open>
  What is left when a table may refuse calls (\<open>ok\<close> are those it takes) and may store a row otherwise
  than it returns it: a row that was written has the etag that was returned.
\<close>

locale cas_table =
  fixes rd :: "'t \<Rightarrow> pystr \<Rightarrow> SiloInfo option"
    and ver :: "'t \<Rightarrow> int"
    and upd :: "SiloInfo \<Rightarrow> 't \<Rightarrow> SiloInfo result \<times> 't"
    and del :: "SiloInfo \<Rightarrow> 't \<Rightarrow> unit result \<times> 't"
    and add :: "pystr \<Rightarrow> SuspicionVote \<Rightarrow> pystr \<Rightarrow> 't \<Rightarrow> SiloInfo result \<times> 't"
    and ok :: "mem_op \<Rightarrow> bool"
    and invar :: "'t \<Rightarrow> bool"
  assumes cas_step: "invar t \<Longrightarrow> ok op \<Longrightarrow> mem_step upd del add op t = (q, t') \<Longrightarrow> invar t' \<and>
      (t' = t \<and> (\<exists>x. q = Inl x \<or> q = Inr None)
       \<or> ver t' = ver t + 1
         \<and> (\<exists>sid. (q = Inr None \<and> rd t' = (rd t)(sid := None))
               \<or> (\<exists>k k'. q = Inr (Some k') \<and> etag k = etag k' \<and> etag k' \<noteq> None \<and> rd t' = (rd t)(sid \<mapsto> k))))"
    and cas_missing: "invar t \<Longrightarrow> rd t (silo_id (address s)) = None \<Longrightarrow> etag s \<noteq> None \<Longrightarrow>
      upd s t = (Inl SiloNotFoundError, t)"
    and cas_stale: "invar t \<Longrightarrow> rd t (silo_id (address s)) = Some r \<Longrightarrow> etag r \<noteq> etag s \<Longrightarrow>
      upd s t = (Inl TableStaleError, t)"
begin

text \<open>Over a run, a row is untouched, gone, or has the etag of a row that was returned.\<close>

lemma cas_rows:
  "invar t \<Longrightarrow> list_all ok ops \<Longrightarrow> mem_run upd del add ops t = (t', written) \<Longrightarrow>
   invar t' \<and> ver t \<le> ver t' \<and> (rd t' sid = rd t sid \<or> rd t' sid = None
     \<or> (\<exists>s \<in> set written. \<exists>k. rd t' sid = Some k \<and> etag k = etag s))"
proof (induction ops arbitrary: t written)
  case (Cons op ops)
  obtain r u where step: "mem_step upd del add op t = (r, u)" by fastforce
  have ok: "ok op" "list_all ok ops" using Cons.prems(2) by simp_all
  note s = cas_step [OF Cons.prems(1) ok(1) step]
  show ?case
  proof (cases "\<exists>x. r = Inr (Some x)")
    case True
    then obtain x where x: "r = Inr (Some x)" by blast
    with Cons.prems(3) step obtain written' where w: "mem_run upd del add ops u = (t', written')" "written = x # written'"
      by (auto split: prod.splits)
    have IH: "invar t' \<and> ver u \<le> ver t' \<and> (rd t' sid = rd u sid \<or> rd t' sid = None
        \<or> (\<exists>s \<in> set written'. \<exists>k. rd t' sid = Some k \<and> etag k = etag s))"
      using Cons.IH [OF _ ok(2) w(1)] s by blast
    obtain sid' k where k: "ver u = ver t + 1" "etag k = etag x" "rd u = (rd t)(sid' \<mapsto> k)" using s x by auto
    have "rd u sid = rd t sid \<or> rd u sid = Some k" by (simp add: k(3))
    then show ?thesis using IH k(1,2) w(2) by (metis add_increasing2 le_less_trans less_imp_le list.set_intros(1,2) order_trans zle_add1_eq_le zless_add1_eq)
  next
    case False
    with Cons.prems(3) step have run: "mem_run upd del add ops u = (t', written)" by (auto split: sum.splits option.splits)
    have "rd u sid = rd t sid \<or> rd u sid = None" "ver t \<le> ver u" using s False by (auto split: if_splits)
    then show ?thesis using Cons.IH [OF _ ok(2) run] s by (metis order_trans)
  qed
qed simp

text \<open>A successful update replaces exactly the row its etag was read from.\<close>

lemma no_lost_update:
  assumes "invar t" "rd t (silo_id (address s)) = Some r" "etag s = etag r" "etag r \<noteq> None"
    and "list_all ok ops" "mem_run upd del add ops t = (t', written)" "etag r \<notin> etag ` set written"
    and "upd s t' = (Inr s', t'')"
  shows "rd t' (silo_id (address s)) = Some r \<and> invar t' \<and> ver t \<le> ver t'"
proof -
  note rows = cas_rows [OF assms(1,5,6), of "silo_id (address s)"]
  then have inv: "invar t'" by blast
  have "rd t' (silo_id (address s)) = Some r"
  proof (cases "rd t' (silo_id (address s))")
    case None
    with cas_missing [OF inv None] assms show ?thesis by simp
  next
    case (Some x)
    have "etag x = etag r"
      using cas_stale [OF inv Some] assms(3,8) by (cases "etag x = etag s") auto
    with assms(7) rows Some assms(2) show ?thesis by (metis image_eqI option.inject option.distinct(1))
  qed
  then show ?thesis using rows by blast
qed

end

sublocale membership_table \<subseteq> cas: cas_table rd ver upd del add "\<lambda>_. True" invar
  using step_cases upd_missing upd_stale by unfold_locales (simp_all, blast)

subsection \<open>The port\<close>

text \<open>
  \<^verbatim>\<open>MembershipProvider\<close> as a record of its primitives over the provider's table state.
\<close>

record 't MembershipProvider =
  mp_read_all :: "'t \<Rightarrow> MembershipSnapshot result"
  mp_try_update :: "SiloInfo \<Rightarrow> 't \<Rightarrow> SiloInfo result \<times> 't"
  mp_try_delete :: "SiloInfo \<Rightarrow> 't \<Rightarrow> unit result \<times> 't"
  mp_try_add_suspicion :: "pystr \<Rightarrow> SuspicionVote \<Rightarrow> pystr \<Rightarrow> 't \<Rightarrow> SiloInfo result \<times> 't"

definition mp_read_silo :: "'t MembershipProvider \<Rightarrow> pystr \<Rightarrow> 't \<Rightarrow> SiloInfo option result" where
  "mp_read_silo p sid t = read_silo (mp_read_all p t) sid"

text \<open>The calls that other silos make on the table, as one change of its state.\<close>

definition mp_others :: "'t MembershipProvider \<Rightarrow> mem_op list \<Rightarrow> 't \<Rightarrow> 't" where
  "mp_others p ops t =
     fst (mem_run (mp_try_update p) (mp_try_delete p) (mp_try_add_suspicion p) ops t)"

text \<open>The rows those calls returned.\<close>

definition mp_written :: "'t MembershipProvider \<Rightarrow> mem_op list \<Rightarrow> 't \<Rightarrow> SiloInfo list" where
  "mp_written p ops t =
     snd (mem_run (mp_try_update p) (mp_try_delete p) (mp_try_add_suspicion p) ops t)"

lemma mem_run_append:
  "mem_run upd del add (xs @ ys) t =
     (case mem_run upd del add xs t of (t1, w1) \<Rightarrow>
        case mem_run upd del add ys t1 of (t2, w2) \<Rightarrow> (t2, w1 @ w2))"
  by (induction xs arbitrary: t) (auto split: prod.splits sum.splits option.splits)

lemma mp_others_append: "mp_others p (xs @ ys) t = mp_others p ys (mp_others p xs t)"
  by (simp add: mp_others_def mem_run_append split: prod.splits)

lemma mp_others_Nil [simp]: "mp_others p [] t = t"
  by (simp add: mp_others_def)

lemma mp_written_Nil [simp]: "mp_written p [] t = []"
  by (simp add: mp_written_def)

locale membership_provider =
  membership_table rd ver "mp_try_update p" "mp_try_delete p" "mp_try_add_suspicion p" stored invar
  for rd :: "'t \<Rightarrow> pystr \<Rightarrow> SiloInfo option" and ver and p :: "'t MembershipProvider" and stored invar +
  assumes read_rows: "invar t \<Longrightarrow> \<exists>snap. mp_read_all p t = Inr snap \<and> version snap = ver t
      \<and> find_silo (silos snap) = rd t"
    and stored_id: "row_version s = 0 \<Longrightarrow> stored s = s"
    and rows_stored: "invar t \<Longrightarrow> rd t sid = Some s \<Longrightarrow> row_version s = 0"
begin

lemma read_silo_rd: "invar t \<Longrightarrow> mp_read_silo p sid t = Inr (rd t sid)"
  using read_rows [of t] by (auto simp: mp_read_silo_def read_silo_def)

lemma rd_address: "invar t \<Longrightarrow> rd t sid = Some s \<Longrightarrow> silo_id (address s) = sid"
  using read_rows [of t] by (metis find_silo_id)

lemma others_invar:
  "invar t \<Longrightarrow> invar (mp_others p ops t) \<and> ver t \<le> ver (mp_others p ops t)"
  using run_rows [of t ops] unfolding mp_others_def by (metis prod.collapse)

text \<open>A row that has the etag of the row read earlier is that row.\<close>

lemma same_etag_same_row:
  assumes "invar t" "rd t sid = Some row" "etag row \<notin> etag ` set (mp_written p ops t)"
    and "rd (mp_others p ops t) sid = Some cur" "etag cur = etag row"
  shows "cur = row"
proof -
  have "run ops t = (mp_others p ops t, mp_written p ops t)" by (simp add: mp_others_def mp_written_def)
  from run_rows [OF assms(1) this, of sid] assms(2-5) show ?thesis by (auto simp: image_iff)
qed

end

end
