(* ===== verification/YamlMembership.thy ===== *)
theory YamlMembership
  imports Membership
begin

text \<open>
  \<^verbatim>\<open>pyleans/server/providers/yaml_membership.py\<close>. The file is the document PyYAML
  (a third-party package) reads from it, a JSON-shaped value; \<open>yaml_dump\<close>, the text PyYAML
  writes for a row, is a parameter that only feeds the etag, and the digest is the parameter
  \<open>sha\<close>. Calls are serialised by the provider's lock and the file lock, so a call is one
  transition of the file; \<open>disk_ok\<close> says whether the atomic replacement of the file succeeds.
\<close>

datatype yaml_file = Absent | Unreadable | Doc json

subsection \<open>Rows\<close>

definition opt_str :: "pystr option \<Rightarrow> json" where
  "opt_str v = (case v of None \<Rightarrow> JNull | Some s \<Rightarrow> JStr s)"

definition opt_int :: "int option \<Rightarrow> json" where
  "opt_int v = (case v of None \<Rightarrow> JNull | Some i \<Rightarrow> JInt i)"

definition vote_to_dict :: "SuspicionVote \<Rightarrow> json" where
  "vote_to_dict v =
     JObj [(lit ''suspecting_silo'', JStr (suspecting_silo v)), (lit ''timestamp'', JFloat (timestamp v))]"

definition silo_fields :: "SiloInfo \<Rightarrow> (pystr \<times> json) list" where
  "silo_fields s =
     [(lit ''id'', JStr (encoded (address s))),
      (lit ''host'', JStr (host (address s))),
      (lit ''port'', JInt (port (address s))),
      (lit ''epoch'', JInt (epoch (address s))),
      (lit ''status'', JStr (status_value (status s))),
      (lit ''cluster_id'', opt_str (cluster_id s)),
      (lit ''gateway_port'', opt_int (gateway_port s)),
      (lit ''last_heartbeat'', JFloat (last_heartbeat s)),
      (lit ''i_am_alive'', JFloat (i_am_alive s)),
      (lit ''start_time'', JFloat (start_time s)),
      (lit ''suspicions'', JArr (map vote_to_dict (suspicions s))),
      (lit ''etag'', opt_str (etag s))]"

definition silo_to_dict :: "SiloInfo \<Rightarrow> json" where
  "silo_to_dict s = JObj (silo_fields s)"

text \<open>\<^verbatim>\<open>float(x)\<close>; text is read as a JSON number, the form YAML leaves as a string.\<close>

fun py_float :: "json \<Rightarrow> rat result" where
  "py_float (JBool b) = Inr (if b then 1 else 0)"
| "py_float (JInt i) = Inr (of_int i)"
| "py_float (JFloat x) = Inr x"
| "py_float (JStr s) =
     (case scan_number (strip_ws s) of
        Some (JInt i, []) \<Rightarrow> Inr (of_int i)
      | Some (JFloat x, []) \<Rightarrow> Inr x
      | _ \<Rightarrow> Inl ValueError)"
| "py_float _ = Inl TypeError"

definition optional_str :: "json \<Rightarrow> pystr option" where
  "optional_str v = (case v of JNull \<Rightarrow> None | _ \<Rightarrow> Some (py_str v))"

fun optional_int :: "json \<Rightarrow> int option result" where
  "optional_int JNull = Inr None"
| "optional_int (JArr xs) = Inl MembershipError"
| "optional_int (JObj ms) = Inl MembershipError"
| "optional_int v = res_bind (py_int v) (\<lambda>i. Inr (Some i))"

definition jget_or :: "(pystr \<times> json) list \<Rightarrow> pystr \<Rightarrow> json \<Rightarrow> json" where
  "jget_or f k dflt = (case jget f k of None \<Rightarrow> dflt | Some v \<Rightarrow> v)"

definition vote_from_dict :: "json \<Rightarrow> SuspicionVote result" where
  "vote_from_dict v =
     (case v of
        JObj f \<Rightarrow>
          res_bind (jfield f (lit ''suspecting_silo'')) (\<lambda>s.
          res_bind (jfield f (lit ''timestamp'')) (\<lambda>t.
          res_bind (py_float t) (\<lambda>ts. Inr (SuspicionVote (py_str s) ts))))
      | _ \<Rightarrow> Inl TypeError)"

fun votes_from :: "json \<Rightarrow> SuspicionVote list result" where
  "votes_from (JArr vs) = res_map vote_from_dict vs"
| "votes_from (JStr s) = (if s = [] then Inr [] else Inl TypeError)"
| "votes_from (JObj ms) = (if ms = [] then Inr [] else Inl TypeError)"
| "votes_from _ = Inl TypeError"

fun status_from :: "json \<Rightarrow> SiloStatus result" where
  "status_from (JStr s) = status_of_value s"
| "status_from _ = Inl ValueError"

text \<open>Whatever is wrong with a row, the error is a \<^verbatim>\<open>MembershipError\<close>.\<close>

definition dict_to_silo :: "(pystr \<times> json) list \<Rightarrow> SiloInfo result" where
  "dict_to_silo f =
     (case res_bind (jfield f (lit ''host'')) (\<lambda>h.
           res_bind (jfield f (lit ''port'')) (\<lambda>p.
           res_bind (py_int p) (\<lambda>p'.
           res_bind (jfield f (lit ''epoch'')) (\<lambda>e.
           res_bind (py_int e) (\<lambda>e'.
           res_bind (jfield f (lit ''status'')) (\<lambda>st.
           res_bind (status_from st) (\<lambda>st'.
           res_bind (votes_from (jget_or f (lit ''suspicions'') (JArr []))) (\<lambda>votes.
           res_bind (jfield f (lit ''last_heartbeat'')) (\<lambda>lh.
           res_bind (py_float lh) (\<lambda>lh'.
           res_bind (jfield f (lit ''start_time'')) (\<lambda>sti.
           res_bind (py_float sti) (\<lambda>sti'.
           res_bind (optional_int (jget_or f (lit ''gateway_port'') JNull)) (\<lambda>gw.
           res_bind (py_float (jget_or f (lit ''i_am_alive'') (JFloat 0))) (\<lambda>alive.
             Inr \<lparr>address = SiloAddress (py_str h) p' e', status = st', last_heartbeat = lh',
                  start_time = sti',
                  cluster_id = optional_str (jget_or f (lit ''cluster_id'') JNull),
                  gateway_port = gw, row_version = 0, i_am_alive = alive, suspicions = votes,
                  etag = optional_str (jget_or f (lit ''etag'') JNull)\<rparr>)))))))))))))) of
        Inl e \<Rightarrow> Inl MembershipError
      | Inr s \<Rightarrow> Inr s)"

definition row_to_silo :: "json \<Rightarrow> SiloInfo result" where
  "row_to_silo row = (case row of JObj f \<Rightarrow> dict_to_silo f | _ \<Rightarrow> Inl MembershipError)"

definition format_get :: "(pystr \<times> json) list \<Rightarrow> pystr \<Rightarrow> pystr" where
  "format_get f k = py_str (jget_or f k JNull)"

definition entry_silo_id :: "json \<Rightarrow> pystr result" where
  "entry_silo_id row =
     (case row of
        JObj f \<Rightarrow> Inr (format_get f (lit ''host'') @ lit '':'' @ format_get f (lit ''port'')
                      @ lit '':'' @ format_get f (lit ''epoch''))
      | _ \<Rightarrow> Inl OtherException)"

fun find_silo_index :: "json list \<Rightarrow> pystr \<Rightarrow> nat option result" where
  "find_silo_index [] sid = Inr None"
| "find_silo_index (row # rows) sid =
     res_bind (entry_silo_id row) (\<lambda>i.
       if i = sid then Inr (Some 0)
       else res_bind (find_silo_index rows sid) (\<lambda>r. Inr (map_option Suc r)))"

subsection \<open>The table\<close>

definition empty_table :: "(pystr \<times> json) list" where
  "empty_table = [(lit ''version'', JInt 0), (lit ''silos'', JArr [])]"

definition setdefault :: "(pystr \<times> json) list \<Rightarrow> pystr \<Rightarrow> json \<Rightarrow> (pystr \<times> json) list" where
  "setdefault f k v = (case dget f k of None \<Rightarrow> dset f k v | Some _ \<Rightarrow> f)"

definition load_table :: "yaml_file \<Rightarrow> (pystr \<times> json) list result" where
  "load_table file =
     (case file of
        Absent \<Rightarrow> Inr empty_table
      | Unreadable \<Rightarrow> Inl MembershipError
      | Doc (JObj f) \<Rightarrow> Inr (setdefault (setdefault f (lit ''version'') (JInt 0)) (lit ''silos'') (JArr []))
      | Doc _ \<Rightarrow> Inr empty_table)"

text \<open>The rows as \<^verbatim>\<open>enumerate\<close> sees them.\<close>

fun rows_of :: "json \<Rightarrow> json list result" where
  "rows_of (JArr rows) = Inr rows"
| "rows_of (JStr s) = (if s = [] then Inr [] else Inl OtherException)"
| "rows_of (JObj ms) = (if ms = [] then Inr [] else Inl OtherException)"
| "rows_of _ = Inl TypeError"

definition table_rows :: "(pystr \<times> json) list \<Rightarrow> json list result" where
  "table_rows data = rows_of (jget_or data (lit ''silos'') (JArr []))"

definition compute_etag :: "(bytes \<Rightarrow> bytes) \<Rightarrow> (json \<Rightarrow> pystr) \<Rightarrow> (pystr \<times> json) list \<Rightarrow> int \<Rightarrow> pystr" where
  "compute_etag sha yaml_dump row v =
     (let stripped = filter (\<lambda>(k, _). k \<noteq> lit ''etag'') row;
          serialised = yaml_dump (JObj stripped);
          digest = concat (map (\<lambda>b. [hexdig (unat b div 16), hexdig (unat b mod 16)])
                     (sha (utf8_bytes (str_int v @ lit ''::'' @ serialised))))
      in lit ''h-'' @ take 12 digest)"

definition write_table :: "bool \<Rightarrow> (pystr \<times> json) list \<Rightarrow> yaml_file \<Rightarrow> unit result \<times> yaml_file" where
  "write_table disk_ok data file =
     (if disk_ok then (Inr (), Doc (JObj data)) else (Inl MembershipError, file))"

text \<open>\<open>rows i\<close> is the table with the target row, whose etag is still to be set, in place.\<close>

definition finalise_write ::
  "(bytes \<Rightarrow> bytes) \<Rightarrow> (json \<Rightarrow> pystr) \<Rightarrow> bool \<Rightarrow> (pystr \<times> json) list \<Rightarrow> (json \<Rightarrow> json list)
   \<Rightarrow> (pystr \<times> json) list \<Rightarrow> yaml_file \<Rightarrow> SiloInfo result \<times> yaml_file" where
  "finalise_write sha yaml_dump disk_ok data rows target file =
     (case py_int (jget_or data (lit ''version'') (JInt 0)) of
        Inl e \<Rightarrow> (Inl e, file)
      | Inr v \<Rightarrow>
          let row = dset target (lit ''etag'') (JStr (compute_etag sha yaml_dump target (v + 1)));
              data' = dset (dset data (lit ''version'') (JInt (v + 1)))
                        (lit ''silos'') (JArr (rows (JObj row)))
          in (case write_table disk_ok data' file of
                (Inl e, file') \<Rightarrow> (Inl e, file')
              | (Inr _, file') \<Rightarrow> (dict_to_silo row, file')))"

definition etag_matches :: "json \<Rightarrow> pystr option \<Rightarrow> bool" where
  "etag_matches current expected = (current = opt_str expected)"

definition yaml_read_all :: "yaml_file \<Rightarrow> MembershipSnapshot result" where
  "yaml_read_all file =
     res_bind (load_table file) (\<lambda>data.
     res_bind (py_int (jget_or data (lit ''version'') (JInt 0))) (\<lambda>v.
     res_bind (table_rows data) (\<lambda>rows.
     res_bind (res_map row_to_silo rows) (\<lambda>ss. Inr \<lparr>version = v, silos = ss\<rparr>))))"

definition yaml_try_update ::
  "(bytes \<Rightarrow> bytes) \<Rightarrow> (json \<Rightarrow> pystr) \<Rightarrow> bool \<Rightarrow> SiloInfo \<Rightarrow> yaml_file \<Rightarrow> SiloInfo result \<times> yaml_file"
  where
  "yaml_try_update sha yaml_dump disk_ok silo file =
     (case res_bind (load_table file) (\<lambda>data.
           res_bind (table_rows data) (\<lambda>rows.
           res_bind (find_silo_index rows (silo_id (address silo))) (\<lambda>index. Inr (data, rows, index)))) of
        Inl e \<Rightarrow> (Inl e, file)
      | Inr (data, rows, None) \<Rightarrow>
          if etag silo \<noteq> None then (Inl SiloNotFoundError, file)
          else if jget data (lit ''silos'') \<noteq> Some (JArr rows) then (Inl OtherException, file)
          else finalise_write sha yaml_dump disk_ok data (\<lambda>row. rows @ [row]) (silo_fields silo) file
      | Inr (data, rows, Some i) \<Rightarrow>
          (case rows ! i of
             JObj current \<Rightarrow>
               if \<not> etag_matches (jget_or current (lit ''etag'') JNull) (etag silo)
               then (Inl TableStaleError, file)
               else finalise_write sha yaml_dump disk_ok data (\<lambda>row. rows[i := row]) (silo_fields silo) file
           | _ \<Rightarrow> (Inl OtherException, file)))"

definition yaml_try_delete :: "bool \<Rightarrow> SiloInfo \<Rightarrow> yaml_file \<Rightarrow> unit result \<times> yaml_file" where
  "yaml_try_delete disk_ok silo file =
     (case res_bind (load_table file) (\<lambda>data.
           res_bind (table_rows data) (\<lambda>rows.
           res_bind (find_silo_index rows (silo_id (address silo))) (\<lambda>index. Inr (data, rows, index)))) of
        Inl e \<Rightarrow> (Inl e, file)
      | Inr (data, rows, None) \<Rightarrow> (Inr (), file)
      | Inr (data, rows, Some i) \<Rightarrow>
          (case rows ! i of
             JObj current \<Rightarrow>
               if \<not> etag_matches (jget_or current (lit ''etag'') JNull) (etag silo)
               then (Inl TableStaleError, file)
               else (case py_int (jget_or data (lit ''version'') (JInt 0)) of
                       Inl e \<Rightarrow> (Inl e, file)
                     | Inr v \<Rightarrow>
                         write_table disk_ok
                           (dset (dset data (lit ''silos'') (JArr (take i rows @ drop (Suc i) rows)))
                              (lit ''version'') (JInt (v + 1))) file)
           | _ \<Rightarrow> (Inl OtherException, file)))"

text \<open>\<^verbatim>\<open>current.setdefault("suspicions", [])\<close> and its \<^verbatim>\<open>append\<close>, which only a list has.\<close>

definition yaml_try_add_suspicion ::
  "(bytes \<Rightarrow> bytes) \<Rightarrow> (json \<Rightarrow> pystr) \<Rightarrow> bool \<Rightarrow> pystr \<Rightarrow> SuspicionVote \<Rightarrow> pystr \<Rightarrow> yaml_file
   \<Rightarrow> SiloInfo result \<times> yaml_file" where
  "yaml_try_add_suspicion sha yaml_dump disk_ok sid vote expected_etag file =
     (case res_bind (load_table file) (\<lambda>data.
           res_bind (table_rows data) (\<lambda>rows.
           res_bind (find_silo_index rows sid) (\<lambda>index. Inr (data, rows, index)))) of
        Inl e \<Rightarrow> (Inl e, file)
      | Inr (data, rows, None) \<Rightarrow> (Inl SiloNotFoundError, file)
      | Inr (data, rows, Some i) \<Rightarrow>
          (case rows ! i of
             JObj current \<Rightarrow>
               if \<not> etag_matches (jget_or current (lit ''etag'') JNull) (Some expected_etag)
               then (Inl TableStaleError, file)
               else (case jget_or current (lit ''suspicions'') (JArr []) of
                       JArr votes \<Rightarrow>
                         finalise_write sha yaml_dump disk_ok data (\<lambda>row. rows[i := row])
                           (dset current (lit ''suspicions'') (JArr (votes @ [vote_to_dict vote]))) file
                     | _ \<Rightarrow> (Inl OtherException, file))
           | _ \<Rightarrow> (Inl OtherException, file)))"

subsection \<open>Well-formed files\<close>

definition table_fields :: "int \<Rightarrow> SiloInfo list \<Rightarrow> (pystr \<times> json) list" where
  "table_fields v ss = [(lit ''version'', JInt v), (lit ''silos'', JArr (map silo_to_dict ss))]"

definition is_table :: "yaml_file \<Rightarrow> int \<Rightarrow> SiloInfo list \<Rightarrow> bool" where
  "is_table file v ss \<longleftrightarrow> file = Absent \<and> v = 0 \<and> ss = [] \<or> file = Doc (JObj (table_fields v ss))"

text \<open>The row-level \<^verbatim>\<open>version\<close> of a \<^verbatim>\<open>SiloInfo\<close> is not stored.\<close>

definition stored :: "SiloInfo \<Rightarrow> SiloInfo" where
  "stored s = s\<lparr>row_version := 0\<rparr>"

abbreviation row_ids :: "SiloInfo list \<Rightarrow> pystr list" where
  "row_ids ss \<equiv> map (\<lambda>s. silo_id (address s)) ss"

definition rows_ok :: "SiloInfo list \<Rightarrow> bool" where
  "rows_ok ss \<longleftrightarrow> distinct (row_ids ss) \<and> (\<forall>s \<in> set ss. row_version s = 0)"

definition yaml_ok :: "yaml_file \<Rightarrow> bool" where
  "yaml_ok file \<longleftrightarrow> (\<exists>v ss. is_table file v ss \<and> rows_ok ss)"

definition yaml_row :: "yaml_file \<Rightarrow> pystr \<Rightarrow> SiloInfo option" where
  "yaml_row file sid =
     (case read_silo (yaml_read_all file) sid of Inl _ \<Rightarrow> None | Inr r \<Rightarrow> r)"

definition yaml_version :: "yaml_file \<Rightarrow> int" where
  "yaml_version file = (case yaml_read_all file of Inl _ \<Rightarrow> 0 | Inr snap \<Rightarrow> version snap)"

lemma votes_roundtrip: "res_map vote_from_dict (map vote_to_dict vs) = Inr vs"
  by (rule res_map_Inr) (simp add: vote_from_dict_def vote_to_dict_def field_simps_json del: list.map)

lemma opt_roundtrip [simp]: "optional_str (opt_str v) = v" "optional_int (opt_int i) = Inr i"
  by (cases v; simp add: optional_str_def opt_str_def) (cases i; simp add: opt_int_def)

lemma dict_to_silo_fields: "dict_to_silo (silo_fields s) = Inr (stored s)"
  by (simp add: dict_to_silo_def silo_fields_def jget_or_def field_simps_json votes_roundtrip stored_def
      del: list.map)

lemma row_to_silo_roundtrip [codec_simps]: "row_to_silo (silo_to_dict s) = Inr (stored s)"
  by (simp add: row_to_silo_def silo_to_dict_def dict_to_silo_fields)

lemma entry_silo_id_row: "entry_silo_id (silo_to_dict s) = Inr (silo_id (address s))"
  by (simp add: entry_silo_id_def silo_to_dict_def silo_fields_def format_get_def jget_or_def
      field_simps_json silo_id_def py_str_def del: list.map)

lemma set_etag_fields: "dset (silo_fields s) (lit ''etag'') (JStr e) = silo_fields (s\<lparr>etag := Some e\<rparr>)"
  by (simp add: dset_def silo_fields_def opt_str_def del: list.map)

lemma set_suspicions_fields:
  "dset (silo_fields s) (lit ''suspicions'') (JArr (map vote_to_dict (suspicions s) @ [vote_to_dict v]))
     = silo_fields (s\<lparr>suspicions := suspicions s @ [v]\<rparr>)"
proof -
  have "map vote_to_dict (suspicions s) @ [vote_to_dict v] = map vote_to_dict (suspicions s @ [v])" by simp
  then show ?thesis
    by (simp only:) (simp add: dset_def silo_fields_def del: list.map map_append)
qed

lemma field_etag: "jget_or (silo_fields s) (lit ''etag'') JNull = opt_str (etag s)"
  "jget_or (silo_fields s) (lit ''suspicions'') (JArr []) = JArr (map vote_to_dict (suspicions s))"
  by (simp_all add: jget_or_def silo_fields_def field_simps_json del: list.map)

lemma opt_str_inj: "opt_str a = opt_str b \<longleftrightarrow> a = b"
  by (auto simp: opt_str_def split: option.splits)

lemma load_is_table: "is_table file v ss \<Longrightarrow> load_table file = Inr (table_fields v ss)"
  by (auto simp: is_table_def load_table_def table_fields_def empty_table_def setdefault_def
      field_simps_json simp del: list.map(2))

lemma table_fields_get:
  "table_rows (table_fields v ss) = Inr (map silo_to_dict ss)"
  "jget (table_fields v ss) (lit ''silos'') = Some (JArr (map silo_to_dict ss))"
  "jget_or (table_fields v ss) (lit ''version'') (JInt 0) = JInt v"
  by (simp_all add: table_rows_def table_fields_def jget_or_def field_simps_json del: list.map)

lemma table_fields_set:
  "dset (dset (table_fields v ss) (lit ''version'') (JInt v')) (lit ''silos'') (JArr (map silo_to_dict ss'))
     = table_fields v' ss'"
  "dset (dset (table_fields v ss) (lit ''silos'') (JArr (map silo_to_dict ss'))) (lit ''version'') (JInt v')
     = table_fields v' ss'"
  by (simp_all add: table_fields_def dset_def del: list.map)

lemma read_is_table:
  assumes "is_table file v ss" "\<forall>s \<in> set ss. row_version s = 0"
  shows "yaml_read_all file = Inr \<lparr>version = v, silos = ss\<rparr>"
proof -
  have "res_map row_to_silo (map silo_to_dict ss) = Inr ss"
    using assms(2) by (intro res_map_Inr) (simp add: row_to_silo_roundtrip stored_def)
  then show ?thesis
    by (simp add: yaml_read_all_def load_is_table [OF assms(1)] table_fields_get del: list.map)
qed

lemma yaml_row_is_table:
  "is_table file v ss \<Longrightarrow> rows_ok ss \<Longrightarrow> yaml_row file = find_silo ss \<and> yaml_version file = v"
  by (auto simp: yaml_row_def yaml_version_def read_silo_def read_is_table rows_ok_def fun_eq_iff)

text \<open>The index search finds the row, and list surgery at the index is a map update.\<close>

lemma find_index_spec:
  "\<exists>r. find_silo_index (map silo_to_dict ss) sid = Inr r \<and>
     (case r of
        None \<Rightarrow> find_silo ss sid = None
      | Some i \<Rightarrow> i < length ss \<and> find_silo ss sid = Some (ss ! i) \<and> silo_id (address (ss ! i)) = sid
          \<and> (\<forall>s. silo_id (address s) = sid \<longrightarrow> find_silo (ss[i := s]) = (find_silo ss)(sid \<mapsto> s)
                \<and> row_ids (ss[i := s]) = row_ids ss)
          \<and> (distinct (row_ids ss) \<longrightarrow>
               find_silo (take i ss @ drop (Suc i) ss) = (find_silo ss)(sid := None)))"
proof (induction ss)
  case (Cons s ss)
  show ?case
  proof (cases "silo_id (address s) = sid")
    case True
    have "find_silo ss sid = None" if "distinct (row_ids (s # ss))"
      using that True by (auto simp: find_silo_None)
    with True show ?thesis
      by (intro exI [of _ "Some 0"]) (auto simp: entry_silo_id_row fun_eq_iff)
  next
    case False
    from Cons.IH obtain r where r: "find_silo_index (map silo_to_dict ss) sid = Inr r"
      "case r of
        None \<Rightarrow> find_silo ss sid = None
      | Some i \<Rightarrow> i < length ss \<and> find_silo ss sid = Some (ss ! i) \<and> silo_id (address (ss ! i)) = sid
          \<and> (\<forall>s. silo_id (address s) = sid \<longrightarrow> find_silo (ss[i := s]) = (find_silo ss)(sid \<mapsto> s)
                \<and> row_ids (ss[i := s]) = row_ids ss)
          \<and> (distinct (row_ids ss) \<longrightarrow>
               find_silo (take i ss @ drop (Suc i) ss) = (find_silo ss)(sid := None))" by blast
    show ?thesis
    proof (cases r)
      case None
      with r False show ?thesis
        by (intro exI [of _ None]) (simp add: entry_silo_id_row)
    next
      case (Some i)
      with r False show ?thesis
        by (intro exI [of _ "Some (Suc i)"]) (auto simp: entry_silo_id_row fun_eq_iff)
    qed
  qed
qed simp

lemma find_silo_append_new:
  "find_silo ss (silo_id (address s)) = None \<Longrightarrow>
   find_silo (ss @ [s]) = (find_silo ss)(silo_id (address s) \<mapsto> s)"
proof (induction ss)
  case (Cons x ss)
  then show ?case by (auto simp: fun_eq_iff split: if_splits)
qed (auto simp: fun_eq_iff)

text \<open>One write: version plus one, a new etag, the row in its place.\<close>

lemma finalise_write_table:
  fixes rows :: "json \<Rightarrow> json list" and ss' :: "SiloInfo \<Rightarrow> SiloInfo list" and s :: SiloInfo
  assumes "\<And>row. rows (silo_to_dict row) = map silo_to_dict (ss' row)"
  shows "\<exists>e. finalise_write sha yaml_dump True (table_fields v ss) rows (silo_fields s) file
    = (Inr ((stored s)\<lparr>etag := Some e\<rparr>),
       Doc (JObj (table_fields (v + 1) (ss' (s\<lparr>etag := Some e\<rparr>)))))"
proof -
  let ?e = "compute_etag sha yaml_dump (silo_fields s) (v + 1)"
  have "rows (JObj (silo_fields (s\<lparr>etag := Some ?e\<rparr>))) = map silo_to_dict (ss' (s\<lparr>etag := Some ?e\<rparr>))"
    using assms [of "s\<lparr>etag := Some ?e\<rparr>"] by (simp add: silo_to_dict_def)
  then show ?thesis
    by (intro exI [of _ ?e])
      (simp add: finalise_write_def table_fields_get Let_def set_etag_fields write_table_def
        table_fields_set dict_to_silo_fields stored_def del: list.map)
qed

subsection \<open>The contract holds of the file\<close>

lemma yaml_update_cases:
  assumes "is_table file v ss" "rows_ok ss"
  shows "find_silo ss (silo_id (address s)) = None \<Longrightarrow> etag s \<noteq> None \<Longrightarrow>
      yaml_try_update sha yaml_dump disk_ok s file = (Inl SiloNotFoundError, file)"
    and "find_silo ss (silo_id (address s)) = Some r \<Longrightarrow> etag r \<noteq> etag s \<Longrightarrow>
      yaml_try_update sha yaml_dump disk_ok s file = (Inl TableStaleError, file)"
    and "find_silo ss (silo_id (address s)) = r0 \<Longrightarrow>
      r0 = None \<and> etag s = None \<or> (\<exists>r. r0 = Some r \<and> etag r = etag s) \<Longrightarrow>
      \<exists>e ss'. yaml_try_update sha yaml_dump True s file
          = (Inr ((stored s)\<lparr>etag := Some e\<rparr>), Doc (JObj (table_fields (v + 1) ss')))
        \<and> row_ids ss' = (if r0 = None then row_ids ss @ [silo_id (address s)] else row_ids ss)
        \<and> (\<forall>x. find_silo (map stored ss') x
              = ((find_silo (map stored ss))(silo_id (address s) \<mapsto> (stored s)\<lparr>etag := Some e\<rparr>)) x)"
proof -
  let ?sid = "silo_id (address s)"
  obtain r where idx: "find_silo_index (map silo_to_dict ss) ?sid = Inr r"
    "case r of
      None \<Rightarrow> find_silo ss ?sid = None
    | Some i \<Rightarrow> i < length ss \<and> find_silo ss ?sid = Some (ss ! i) \<and> silo_id (address (ss ! i)) = ?sid
        \<and> (\<forall>s'. silo_id (address s') = ?sid \<longrightarrow> find_silo (ss[i := s']) = (find_silo ss)(?sid \<mapsto> s')
              \<and> row_ids (ss[i := s']) = row_ids ss)
        \<and> (distinct (row_ids ss) \<longrightarrow>
             find_silo (take i ss @ drop (Suc i) ss) = (find_silo ss)(?sid := None))"
    using find_index_spec by blast
  note open_table = yaml_try_update_def load_is_table [OF assms(1)] table_fields_get idx(1)
  show "find_silo ss ?sid = None \<Longrightarrow> etag s \<noteq> None \<Longrightarrow>
      yaml_try_update sha yaml_dump disk_ok s file = (Inl SiloNotFoundError, file)"
    using idx(2) by (cases r) (auto simp: open_table)
  show "find_silo ss ?sid = Some q \<Longrightarrow> etag q \<noteq> etag s \<Longrightarrow>
      yaml_try_update sha yaml_dump disk_ok s file = (Inl TableStaleError, file)" for q
    using idx(2) by (cases r)
      (auto simp: open_table silo_to_dict_def field_etag etag_matches_def opt_str_inj simp del: list.map)
  assume r0: "find_silo ss ?sid = r0"
    and guard: "r0 = None \<and> etag s = None \<or> (\<exists>r. r0 = Some r \<and> etag r = etag s)"
  have map_stored: "find_silo (map stored xs) x = map_option stored (find_silo xs x)" for xs x
    by (induction xs) (auto simp: stored_def)
  show "\<exists>e ss'. yaml_try_update sha yaml_dump True s file
        = (Inr ((stored s)\<lparr>etag := Some e\<rparr>), Doc (JObj (table_fields (v + 1) ss')))
      \<and> row_ids ss' = (if r0 = None then row_ids ss @ [?sid] else row_ids ss)
      \<and> (\<forall>x. find_silo (map stored ss') x
            = ((find_silo (map stored ss))(?sid \<mapsto> (stored s)\<lparr>etag := Some e\<rparr>)) x)"
  proof (cases r)
    case None
    with idx(2) r0 have none: "find_silo ss ?sid = None" "r0 = None" by auto
    from finalise_write_table [of "\<lambda>row. map silo_to_dict ss @ [row]" "\<lambda>row. ss @ [row]"
        sha yaml_dump v ss s]
    obtain e where e: "finalise_write sha yaml_dump True (table_fields v ss) (\<lambda>row. map silo_to_dict ss @ [row])
        (silo_fields s) file
      = (Inr ((stored s)\<lparr>etag := Some e\<rparr>), Doc (JObj (table_fields (v + 1) (ss @ [s\<lparr>etag := Some e\<rparr>]))))"
      by auto
    have "find_silo (ss @ [s\<lparr>etag := Some e\<rparr>]) = (find_silo ss)(?sid \<mapsto> s\<lparr>etag := Some e\<rparr>)"
      using find_silo_append_new [of ss "s\<lparr>etag := Some e\<rparr>"] none(1) by simp
    moreover have "row_ids (ss @ [s\<lparr>etag := Some e\<rparr>]) = row_ids ss @ [?sid]" by simp
    ultimately show ?thesis
      using guard None none e
      by (intro exI [of _ e] exI [of _ "ss @ [s\<lparr>etag := Some e\<rparr>]"])
        (auto simp: open_table map_stored stored_def simp del: list.map map_append)
  next
    case (Some i)
    with idx(2) r0 have row: "i < length ss" "r0 = Some (ss ! i)"
      and upd: "\<And>s'. silo_id (address s') = ?sid \<Longrightarrow> find_silo (ss[i := s']) = (find_silo ss)(?sid \<mapsto> s')
        \<and> row_ids (ss[i := s']) = row_ids ss" by auto
    from finalise_write_table [of "\<lambda>row. (map silo_to_dict ss)[i := row]" "\<lambda>row. ss[i := row]"
        sha yaml_dump v ss s]
    obtain e where e: "finalise_write sha yaml_dump True (table_fields v ss) (\<lambda>row. (map silo_to_dict ss)[i := row])
        (silo_fields s) file
      = (Inr ((stored s)\<lparr>etag := Some e\<rparr>), Doc (JObj (table_fields (v + 1) (ss[i := s\<lparr>etag := Some e\<rparr>]))))"
      by (auto simp: map_update)
    have "etag (ss ! i) = etag s" using guard row by auto
    with row e Some have run: "yaml_try_update sha yaml_dump True s file
        = (Inr ((stored s)\<lparr>etag := Some e\<rparr>), Doc (JObj (table_fields (v + 1) (ss[i := s\<lparr>etag := Some e\<rparr>]))))"
      by (simp add: open_table silo_to_dict_def field_etag etag_matches_def del: list.map)
    from upd [of "s\<lparr>etag := Some e\<rparr>"] have
      "find_silo (ss[i := s\<lparr>etag := Some e\<rparr>]) = (find_silo ss)(?sid \<mapsto> s\<lparr>etag := Some e\<rparr>)"
      "row_ids (ss[i := s\<lparr>etag := Some e\<rparr>]) = row_ids ss" by auto
    with run row(2) show ?thesis
      by (intro exI [of _ e] exI [of _ "ss[i := s\<lparr>etag := Some e\<rparr>]"])
        (auto simp: map_stored stored_def simp del: map_update)
  qed
qed

lemma table_fields_stored: "table_fields v (map stored ss) = table_fields v ss"
  by (simp add: table_fields_def silo_to_dict_def silo_fields_def stored_def comp_def del: list.map)

lemma stored_rows: "rows_ok ss \<Longrightarrow> map stored ss = ss"
  by (intro map_idI) (auto simp: rows_ok_def stored_def)

lemma stored_ok: "distinct (row_ids ss) \<Longrightarrow> rows_ok (map stored ss)"
  by (simp add: rows_ok_def stored_def comp_def)

text \<open>A table that was just written.\<close>

lemma written_table:
  assumes "distinct (row_ids ss)"
  shows "yaml_row (Doc (JObj (table_fields v ss))) = find_silo (map stored ss)
    \<and> yaml_version (Doc (JObj (table_fields v ss))) = v \<and> yaml_ok (Doc (JObj (table_fields v ss)))"
proof -
  have "is_table (Doc (JObj (table_fields v ss))) v (map stored ss)"
    by (simp add: is_table_def table_fields_stored)
  with yaml_row_is_table [OF this stored_ok [OF assms]] stored_ok [OF assms] show ?thesis
    by (auto simp: yaml_ok_def)
qed

lemma distinct_cut: "distinct xs \<Longrightarrow> distinct (take i xs @ drop (Suc i) xs)"
proof (induction xs arbitrary: i)
  case (Cons x xs)
  then show ?case
    by (cases i) (auto dest: in_set_takeD in_set_dropD)
qed simp

interpretation yaml_table: membership_table yaml_row yaml_version
  "yaml_try_update sha yaml_dump True" "yaml_try_delete True" "yaml_try_add_suspicion sha yaml_dump True"
  stored yaml_ok for sha yaml_dump
proof unfold_locales
  fix t and s :: SiloInfo
  assume ok: "yaml_ok t"
  then obtain v ss where table: "is_table t v ss" "rows_ok ss" by (auto simp: yaml_ok_def)
  let ?sid = "silo_id (address s)"
  have row: "yaml_row t = find_silo ss" and ver: "yaml_version t = v"
    using yaml_row_is_table [OF table] by simp_all
  note cases = yaml_update_cases [OF table]
  show "yaml_row t ?sid = None \<Longrightarrow> etag s \<noteq> None \<Longrightarrow>
      yaml_try_update sha yaml_dump True s t = (Inl SiloNotFoundError, t)"
    using cases(1) by (simp add: row)
  show "yaml_row t ?sid = Some r \<Longrightarrow> etag r \<noteq> etag s \<Longrightarrow>
      yaml_try_update sha yaml_dump True s t = (Inl TableStaleError, t)" for r
    using cases(2) by (simp add: row)
  show "\<exists>e t'. yaml_try_update sha yaml_dump True s t = (Inr ((stored s)\<lparr>etag := Some e\<rparr>), t')
      \<and> yaml_row t' = (yaml_row t)(?sid \<mapsto> (stored s)\<lparr>etag := Some e\<rparr>)
      \<and> yaml_version t' = yaml_version t + 1 \<and> yaml_ok t'"
    if r0: "yaml_row t ?sid = r0" and guard: "r0 = None \<and> etag s = None \<or> (\<exists>r. r0 = Some r \<and> etag r = etag s)"
    for r0
  proof -
    from r0 have "find_silo ss ?sid = r0" by (simp add: row)
    from yaml_update_cases(3) [OF table this guard] obtain e ss' where
      w: "yaml_try_update sha yaml_dump True s t
            = (Inr ((stored s)\<lparr>etag := Some e\<rparr>), Doc (JObj (table_fields (v + 1) ss')))"
        "row_ids ss' = (if r0 = None then row_ids ss @ [?sid] else row_ids ss)"
        "\<forall>x. find_silo (map stored ss') x
            = ((find_silo (map stored ss))(?sid \<mapsto> (stored s)\<lparr>etag := Some e\<rparr>)) x" by blast
    have "distinct (row_ids ss')"
      using w(2) table(2) \<open>find_silo ss ?sid = r0\<close>
      by (auto simp: rows_ok_def find_silo_None split: if_splits)
    from written_table [OF this, of "v + 1"] w(1,3) show ?thesis
      by (intro exI [of _ e] exI [of _ "Doc (JObj (table_fields (v + 1) ss'))"])
        (auto simp: row ver stored_rows [OF table(2)] fun_eq_iff)
  qed
  obtain r where idx: "find_silo_index (map silo_to_dict ss) ?sid = Inr r"
    "case r of
      None \<Rightarrow> find_silo ss ?sid = None
    | Some i \<Rightarrow> i < length ss \<and> find_silo ss ?sid = Some (ss ! i) \<and> silo_id (address (ss ! i)) = ?sid
        \<and> (\<forall>s'. silo_id (address s') = ?sid \<longrightarrow> find_silo (ss[i := s']) = (find_silo ss)(?sid \<mapsto> s')
              \<and> row_ids (ss[i := s']) = row_ids ss)
        \<and> (distinct (row_ids ss) \<longrightarrow>
             find_silo (take i ss @ drop (Suc i) ss) = (find_silo ss)(?sid := None))"
    using find_index_spec by blast
  note open_table = yaml_try_delete_def load_is_table [OF table(1)] table_fields_get idx(1)
  show "yaml_row t ?sid = None \<Longrightarrow> yaml_try_delete True s t = (Inr (), t)"
    using idx(2) by (cases r) (auto simp: open_table row)
  show "yaml_row t ?sid = Some q \<Longrightarrow> etag q \<noteq> etag s \<Longrightarrow> yaml_try_delete True s t = (Inl TableStaleError, t)" for q
    using idx(2) by (cases r)
      (auto simp: open_table row silo_to_dict_def field_etag etag_matches_def opt_str_inj simp del: list.map)
  show "\<exists>t'. yaml_try_delete True s t = (Inr (), t') \<and> yaml_row t' = (yaml_row t)(?sid := None)
      \<and> yaml_version t' = yaml_version t + 1 \<and> yaml_ok t'"
    if q: "yaml_row t ?sid = Some q" "etag q = etag s" for q
  proof -
    obtain i where i: "r = Some i" "i < length ss" "ss ! i = q"
      "find_silo (take i ss @ drop (Suc i) ss) = (find_silo ss)(?sid := None)"
      using idx(2) q table(2) by (cases r) (auto simp: row rows_ok_def)
    let ?ss = "take i ss @ drop (Suc i) ss"
    have row_i: "map silo_to_dict ss ! i = JObj (silo_fields q)" using i by (simp add: silo_to_dict_def)
    have cut: "take i (map silo_to_dict ss) @ drop (Suc i) (map silo_to_dict ss) = map silo_to_dict ?ss"
      by (simp add: take_map drop_map)
    have "yaml_try_delete True s t = (Inr (), Doc (JObj (table_fields (v + 1) ?ss)))"
      using i(1) q by (simp add: open_table row_i field_etag etag_matches_def write_table_def cut
          table_fields_set del: list.map map_append)
    moreover have rows: "rows_ok ?ss"
      using table(2) distinct_cut [of "row_ids ss" i]
      by (auto simp: rows_ok_def take_map drop_map dest: in_set_takeD in_set_dropD)
    ultimately show ?thesis
      using yaml_row_is_table [OF _ rows, of "Doc (JObj (table_fields (v + 1) ?ss))" "v + 1"] i(4)
      by (auto simp: is_table_def row ver yaml_ok_def)
  qed
next
  fix t sid v e
  assume ok: "yaml_ok t"
  then obtain n ss where table: "is_table t n ss" "rows_ok ss" by (auto simp: yaml_ok_def)
  have row: "yaml_row t = find_silo ss" and ver: "yaml_version t = n"
    using yaml_row_is_table [OF table] by simp_all
  obtain r where idx: "find_silo_index (map silo_to_dict ss) sid = Inr r"
    "case r of
      None \<Rightarrow> find_silo ss sid = None
    | Some i \<Rightarrow> i < length ss \<and> find_silo ss sid = Some (ss ! i) \<and> silo_id (address (ss ! i)) = sid
        \<and> (\<forall>s'. silo_id (address s') = sid \<longrightarrow> find_silo (ss[i := s']) = (find_silo ss)(sid \<mapsto> s')
              \<and> row_ids (ss[i := s']) = row_ids ss)
        \<and> (distinct (row_ids ss) \<longrightarrow>
             find_silo (take i ss @ drop (Suc i) ss) = (find_silo ss)(sid := None))"
    using find_index_spec by blast
  note open_table = yaml_try_add_suspicion_def load_is_table [OF table(1)] table_fields_get idx(1)
  show "yaml_row t sid = None \<Longrightarrow> yaml_try_add_suspicion sha yaml_dump True sid v e t = (Inl SiloNotFoundError, t)"
    using idx(2) by (cases r) (auto simp: open_table row)
  show "yaml_row t sid = Some q \<Longrightarrow> etag q \<noteq> Some e \<Longrightarrow>
      yaml_try_add_suspicion sha yaml_dump True sid v e t = (Inl TableStaleError, t)" for q
    using idx(2) by (cases r)
      (auto simp: open_table row silo_to_dict_def field_etag etag_matches_def opt_str_inj simp del: list.map)
  show "\<exists>e' t'. yaml_try_add_suspicion sha yaml_dump True sid v e t
        = (Inr (q\<lparr>suspicions := suspicions q @ [v], etag := Some e'\<rparr>), t')
      \<and> yaml_row t' = (yaml_row t)(sid \<mapsto> q\<lparr>suspicions := suspicions q @ [v], etag := Some e'\<rparr>)
      \<and> yaml_version t' = yaml_version t + 1 \<and> yaml_ok t'"
    if q: "yaml_row t sid = Some q" "etag q = Some e" for q
  proof -
    obtain i where i: "r = Some i" "i < length ss" "ss ! i = q" "silo_id (address q) = sid"
      and upd: "\<And>s'. silo_id (address s') = sid \<Longrightarrow> find_silo (ss[i := s']) = (find_silo ss)(sid \<mapsto> s')
        \<and> row_ids (ss[i := s']) = row_ids ss"
      using idx(2) q by (cases r) (auto simp: row)
    let ?q = "q\<lparr>suspicions := suspicions q @ [v]\<rparr>"
    from finalise_write_table [of "\<lambda>row. (map silo_to_dict ss)[i := row]" "\<lambda>row. ss[i := row]"
        sha yaml_dump n ss ?q]
    obtain e' where w: "finalise_write sha yaml_dump True (table_fields n ss) (\<lambda>row. (map silo_to_dict ss)[i := row])
        (silo_fields ?q) t
      = (Inr ((stored ?q)\<lparr>etag := Some e'\<rparr>), Doc (JObj (table_fields (n + 1) (ss[i := ?q\<lparr>etag := Some e'\<rparr>]))))"
      by (auto simp: map_update)
    have "q \<in> set ss" using i by auto
    then have st: "row_version q = 0" using table(2) by (simp add: rows_ok_def)
    let ?ss = "ss[i := ?q\<lparr>etag := Some e'\<rparr>]"
    have row_i: "map silo_to_dict ss ! i = JObj (silo_fields q)" using i by (simp add: silo_to_dict_def)
    have "yaml_try_add_suspicion sha yaml_dump True sid v e t
        = (Inr (?q\<lparr>etag := Some e'\<rparr>), Doc (JObj (table_fields (n + 1) ?ss)))"
      using i(1) q w st by (simp add: open_table row_i field_etag etag_matches_def
          set_suspicions_fields stored_def del: list.map)
    moreover have "rows_ok ?ss"
    proof -
      have "s' = ?q\<lparr>etag := Some e'\<rparr> \<or> s' \<in> set ss" if "s' \<in> set ?ss" for s'
        using that set_update_subset_insert [of ss i] by blast
      then have "row_version s' = 0" if "s' \<in> set ?ss" for s'
        using that st table(2) unfolding rows_ok_def by fastforce
      moreover have "distinct (row_ids ?ss)"
        using upd [of "?q\<lparr>etag := Some e'\<rparr>"] i(4) table(2) by (simp add: rows_ok_def)
      ultimately show ?thesis by (simp add: rows_ok_def)
    qed
    ultimately show ?thesis
      using yaml_row_is_table [of "Doc (JObj (table_fields (n + 1) ?ss))" "n + 1" ?ss]
        upd [of "?q\<lparr>etag := Some e'\<rparr>"] i(4)
      by (auto simp: is_table_def row ver yaml_ok_def)
  qed
qed

text \<open>The provider as its clients hold it.\<close>

definition yaml_provider :: "(bytes \<Rightarrow> bytes) \<Rightarrow> (json \<Rightarrow> pystr) \<Rightarrow> yaml_file MembershipProvider" where
  "yaml_provider sha yaml_dump =
     \<lparr>mp_read_all = yaml_read_all, mp_try_update = yaml_try_update sha yaml_dump True,
      mp_try_delete = yaml_try_delete True,
      mp_try_add_suspicion = yaml_try_add_suspicion sha yaml_dump True\<rparr>"

lemma yaml_provider_simps [simp]:
  "mp_read_all (yaml_provider sha yaml_dump) = yaml_read_all"
  "mp_try_update (yaml_provider sha yaml_dump) = yaml_try_update sha yaml_dump True"
  "mp_try_delete (yaml_provider sha yaml_dump) = yaml_try_delete True"
  "mp_try_add_suspicion (yaml_provider sha yaml_dump) = yaml_try_add_suspicion sha yaml_dump True"
  by (simp_all add: yaml_provider_def)

interpretation yaml_port: membership_provider yaml_row yaml_version "yaml_provider sha yaml_dump"
  stored yaml_ok for sha yaml_dump
proof (unfold_locales; (simp only: yaml_provider_simps)?)
  fix t sid and s :: SiloInfo
  show "row_version s = 0 \<Longrightarrow> stored s = s" by (simp add: stored_def)
  assume "yaml_ok t"
  then obtain v ss where table: "is_table t v ss" "rows_ok ss" by (auto simp: yaml_ok_def)
  note row = yaml_row_is_table [OF table]
  show "\<exists>snap. yaml_read_all t = Inr snap \<and> version snap = yaml_version t
      \<and> find_silo (silos snap) = yaml_row t"
    using read_is_table [OF table(1)] table(2) row by (auto simp: rows_ok_def)
  show "yaml_row t sid = Some s \<Longrightarrow> row_version s = 0"
    using row table(2) by (auto simp: rows_ok_def dest: find_silo_in)
qed (fact yaml_table.upd_missing yaml_table.upd_stale yaml_table.upd_ok yaml_table.del_missing
    yaml_table.del_stale yaml_table.del_ok yaml_table.add_missing yaml_table.add_stale yaml_table.add_ok)+

subsection \<open>Properties\<close>

text \<open>
  Compare-and-swap on the YAML table, branch by branch, for any well-formed file: a create or
  an update whose etag matches the stored row writes exactly that row (with a new etag, which the
  caller gets back), leaves every other row alone and raises the table version by one; a stale
  etag, an update of a missing row and a failing disk raise their own error and leave the file as
  it was.
\<close>

theorem yaml_update_spec:
  fixes s :: SiloInfo
  assumes "yaml_ok t"
  defines "sid \<equiv> silo_id (address s)"
  shows "(yaml_row t sid = None \<and> etag s \<noteq> None \<longrightarrow>
        yaml_try_update sha yaml_dump disk_ok s t = (Inl SiloNotFoundError, t))
    \<and> (\<forall>r. yaml_row t sid = Some r \<and> etag r \<noteq> etag s \<longrightarrow>
        yaml_try_update sha yaml_dump disk_ok s t = (Inl TableStaleError, t))
    \<and> (yaml_row t sid = None \<and> etag s = None \<or> (\<exists>r. yaml_row t sid = Some r \<and> etag r = etag s) \<longrightarrow>
        (\<exists>e t'. yaml_try_update sha yaml_dump True s t = (Inr (s\<lparr>row_version := 0, etag := Some e\<rparr>), t')
           \<and> yaml_row t' = (yaml_row t)(sid \<mapsto> s\<lparr>row_version := 0, etag := Some e\<rparr>)
           \<and> yaml_version t' = yaml_version t + 1 \<and> yaml_ok t'))
    \<and> (\<forall>e t'. yaml_try_update sha yaml_dump False s t = (e, t') \<longrightarrow> t' = t \<and> (\<exists>x. e = Inl x))"
proof -
  obtain v ss where table: "is_table t v ss" "rows_ok ss" using assms(1) by (auto simp: yaml_ok_def)
  have row: "yaml_row t = find_silo ss" using yaml_row_is_table [OF table] by simp
  have final: "\<exists>x. finalise_write sha yaml_dump False data rows tgt f = (Inl x, f)" for data rows tgt f
    by (auto simp: finalise_write_def write_table_def Let_def split: sum.split)
  have "(\<exists>x. yaml_try_update sha yaml_dump False s t = (Inl x, t))
      \<or> (\<exists>data rows tgt. yaml_try_update sha yaml_dump False s t
            = finalise_write sha yaml_dump False data rows tgt t)"
    unfolding yaml_try_update_def by (auto split: sum.split option.split prod.split if_split json.split)
  with final have disk: "t' = t \<and> (\<exists>x. e = Inl x)"
    if "yaml_try_update sha yaml_dump False s t = (e, t')" for e t'
    using that by (metis prod.inject)
  show ?thesis
    unfolding sid_def
    using yaml_update_cases(1,2) [OF table, of s] disk
      yaml_table.upd_ok [OF assms(1) refl, of s sha yaml_dump, unfolded stored_def]
    by (auto simp: row)
qed

definition silo_addr :: SiloAddress where
  "silo_addr = SiloAddress (lit ''h'') 7 1"

definition demo_row :: SiloInfo where
  "demo_row = \<lparr>address = silo_addr, status = ACTIVE, last_heartbeat = 0, start_time = 0,
     cluster_id = None, gateway_port = None, row_version = 0, i_am_alive = 3, suspicions = [], etag = None\<rparr>"

lemma absent_ok: "yaml_ok Absent" "yaml_row Absent = Map.empty"
proof -
  have table: "is_table Absent 0 []" "rows_ok []" by (simp_all add: is_table_def rows_ok_def)
  then show "yaml_ok Absent" by (auto simp: yaml_ok_def)
  show "yaml_row Absent = Map.empty" using yaml_row_is_table [OF table] by (simp add: fun_eq_iff)
qed

lemma demo_table: "\<exists>e t. yaml_ok t \<and> yaml_row t = [silo_id silo_addr \<mapsto> demo_row\<lparr>etag := Some e\<rparr>]"
proof -
  have "yaml_row Absent (silo_id (address demo_row)) = None \<and> etag demo_row = None \<or>
      (\<exists>r. yaml_row Absent (silo_id (address demo_row)) = Some r \<and> etag r = etag demo_row)"
    by (simp add: absent_ok demo_row_def)
  from yaml_table.upd_ok [OF absent_ok(1) refl this, of "take 1" "\<lambda>_. []"] obtain e t where
    "yaml_row t = (yaml_row Absent)(silo_id (address demo_row) \<mapsto> (stored demo_row)\<lparr>etag := Some e\<rparr>)"
    "yaml_ok t" by blast
  then have "yaml_ok t \<and> yaml_row t = [silo_id silo_addr \<mapsto> demo_row\<lparr>etag := Some e\<rparr>]"
    by (simp add: stored_def demo_row_def absent_ok)
  then show ?thesis by blast
qed

theorem yaml_update_spec_witness:
  "\<exists>e t'. yaml_try_update (take 1) (\<lambda>_. []) True demo_row Absent = (Inr (demo_row\<lparr>etag := Some e\<rparr>), t')
     \<and> yaml_row t' (silo_id silo_addr) = Some (demo_row\<lparr>etag := Some e\<rparr>)"
  using yaml_update_spec [OF absent_ok(1), of demo_row "take 1" "\<lambda>_. []" True]
  by (auto simp: absent_ok(2) demo_row_def)

text \<open>
  C26. No lost update: if a silo read a row, other silos then ran any calls on the table, and the
  silo's update with the etag it read succeeds, then the row is still the one it read, so nothing
  anybody wrote in between is overwritten. The hypothesis on etags is that the digest gave none of
  the rows written in between the etag that was read; the version number that goes into the
  digest changes with every write, so equal etags mean colliding digests.
\<close>

theorem yaml_no_lost_update:
  assumes "yaml_ok t" "yaml_row t (silo_id (address s)) = Some r" "etag s = etag r" "etag r \<noteq> None"
    and "mem_run (yaml_try_update sha yaml_dump True) (yaml_try_delete True)
           (yaml_try_add_suspicion sha yaml_dump True) ops t = (t', written)"
    and "etag r \<notin> etag ` set written"
    and "yaml_try_update sha yaml_dump True s t' = (Inr s', t'')"
  shows "yaml_row t' (silo_id (address s)) = Some r \<and> yaml_version t \<le> yaml_version t'
    \<and> yaml_row t'' = (yaml_row t')(silo_id (address s) \<mapsto> s')"
proof -
  have "list_all (\<lambda>_. True) ops" by (simp add: list_all_iff)
  from yaml_table.cas.no_lost_update [OF assms(1-4) this assms(5-7)]
  have keep: "yaml_row t' (silo_id (address s)) = Some r"
    and inv: "yaml_ok t'" "yaml_version t \<le> yaml_version t'" by blast+
  from yaml_table.upd_ok [OF inv(1) refl, of s sha yaml_dump] keep assms(3,7) inv(2) show ?thesis
    by auto
qed

theorem yaml_no_lost_update_witness:
  "\<exists>r t s' t''. yaml_row t (silo_id silo_addr) = Some r
     \<and> yaml_try_update (take 1) (\<lambda>_. []) True (r\<lparr>status := DEAD\<rparr>) t = (Inr s', t'')
     \<and> yaml_row t'' (silo_id silo_addr) = Some s'"
proof -
  obtain e t where "yaml_ok t" "yaml_row t = [silo_id silo_addr \<mapsto> demo_row\<lparr>etag := Some e\<rparr>]"
    using demo_table by blast
  then have t: "yaml_row t (silo_id silo_addr) = Some (demo_row\<lparr>etag := Some e\<rparr>)" "yaml_ok t" by simp_all
  let ?r = "demo_row\<lparr>etag := Some e\<rparr>" and ?s = "demo_row\<lparr>etag := Some e, status := DEAD\<rparr>"
  have addr: "address ?s = silo_addr" by (simp add: demo_row_def)
  have "yaml_row t (silo_id (address ?s)) = Some ?r" using t(1) addr by simp
  then have guard: "yaml_row t (silo_id (address ?s)) = None \<and> etag ?s = None \<or>
      (\<exists>r. yaml_row t (silo_id (address ?s)) = Some r \<and> etag r = etag ?s)" by simp
  from yaml_table.upd_ok [OF t(2) refl guard, of "take 1" "\<lambda>_. []"] obtain s' t'' where
    u: "yaml_try_update (take 1) (\<lambda>_. []) True ?s t = (Inr s', t'')" by auto
  have "yaml_row t (silo_id (address ?s)) = Some ?r" using t(1) addr by simp
  then have "yaml_row t (silo_id (address ?s)) = Some ?r \<and> yaml_version t \<le> yaml_version t
      \<and> yaml_row t'' = (yaml_row t)(silo_id (address ?s) \<mapsto> s')"
    by (rule yaml_no_lost_update [OF t(2) _ _ _ _ _ u, where ops = "[]" and written = "[]"]) simp_all
  then have "yaml_row t'' (silo_id silo_addr) = Some s'" by (simp add: addr)
  with t(1) u show ?thesis by (intro exI [of _ ?r] exI [of _ t] exI [of _ s'] exI [of _ t'']) simp
qed

end
