(* ===== verification/FailureDetector.thy ===== *)
theory FailureDetector
  imports HashRing YamlMembership
begin

text \<open>
  \<^verbatim>\<open>pyleans/cluster/failure_detector.py\<close>: the options, the self-monitor, the choice of
  probe targets, direct and indirect probes, and the voting that ends in a DEAD row. The transport
  is a parameter (the answer to a ping, the answer to a request), as are the clock and the
  sampler of intermediaries. The membership table is a provider record over a table state, and
  \<open>others n\<close> is whatever other silos did to the table before the \<open>n\<close>-th access of an
  attempt, so every interleaving of the detector's awaits with other writers is covered. Times
  are rational numbers of seconds.
\<close>

subsection \<open>Options\<close>

definition INDIRECT_PROBE_HEADER :: bytes where
  "INDIRECT_PROBE_HEADER = utf8_bytes (lit ''pyleans/indirect-probe/v1'')"

definition INDIRECT_PROBE_RESP_OK :: bytes where
  "INDIRECT_PROBE_RESP_OK = utf8_bytes (lit ''OK'')"

definition INDIRECT_PROBE_RESP_FAIL :: bytes where
  "INDIRECT_PROBE_RESP_FAIL = utf8_bytes (lit ''FAIL'')"

definition MAX_STALE_RETRY :: nat where
  "MAX_STALE_RETRY = 3"

record FailureDetectorOptions =
  num_probed_silos :: int
  probe_timeout :: seconds
  probe_timeout_per_attempt :: seconds
  num_missed_probes_limit :: int
  num_votes_for_death_declaration :: int
  death_vote_expiration :: seconds
  indirect_probe_intermediaries :: int
  i_am_alive_interval :: seconds
  table_poll_interval :: seconds
  num_missed_table_i_am_alive_limit :: int

definition default_options :: FailureDetectorOptions where
  "default_options =
     \<lparr>num_probed_silos = 3, probe_timeout = 10, probe_timeout_per_attempt = 5,
      num_missed_probes_limit = 3, num_votes_for_death_declaration = 2, death_vote_expiration = 180,
      indirect_probe_intermediaries = 2, i_am_alive_interval = 30, table_poll_interval = 10,
      num_missed_table_i_am_alive_limit = 3\<rparr>"

text \<open>The constructor with its \<^verbatim>\<open>__post_init__\<close> checks.\<close>

definition mk_options :: "FailureDetectorOptions \<Rightarrow> FailureDetectorOptions result" where
  "mk_options opts =
     (if \<exists>i \<in> set [num_probed_silos opts, num_missed_probes_limit opts,
             num_votes_for_death_declaration opts, indirect_probe_intermediaries opts,
             num_missed_table_i_am_alive_limit opts]. i < 0 then Inl ValueError
      else if \<exists>x \<in> set [probe_timeout opts, probe_timeout_per_attempt opts, death_vote_expiration opts,
             i_am_alive_interval opts, table_poll_interval opts]. x \<le> 0 then Inl ValueError
      else if num_votes_for_death_declaration opts < 1 then Inl ValueError
      else Inr opts)"

subsection \<open>Probe results and peer health\<close>

text \<open>The reason of a failed probe is the exception it reports, without its text.\<close>

datatype ProbeResult = ProbeResult (probe_ok: bool) (rtt: seconds) (reason: "error option")

record PeerHealth =
  miss_count :: int
  consecutive_ok :: int
  last_probe_ok_time :: seconds
  last_rtt :: seconds

definition new_peer_health :: PeerHealth where
  "new_peer_health = \<lparr>miss_count = 0, consecutive_ok = 0, last_probe_ok_time = 0, last_rtt = 0\<rparr>"

subsection \<open>SelfMonitor\<close>

record SelfMonitor =
  sm_options :: FailureDetectorOptions
  drift_points :: int
  probe_send_failures :: int

definition MAX_SCORE :: int where
  "MAX_SCORE = 8"

definition new_self_monitor :: "FailureDetectorOptions \<Rightarrow> SelfMonitor" where
  "new_self_monitor opts = \<lparr>sm_options = opts, drift_points = 0, probe_send_failures = 0\<rparr>"

definition record_loop_drift :: "seconds \<Rightarrow> SelfMonitor \<Rightarrow> SelfMonitor" where
  "record_loop_drift drift m =
     (if drift \<ge> 1 then m\<lparr>drift_points := min (drift_points m + 3) MAX_SCORE\<rparr>
      else if drift \<ge> 1 / 2 then m\<lparr>drift_points := min (drift_points m + 2) MAX_SCORE\<rparr>
      else if drift \<ge> 1 / 10 then m\<lparr>drift_points := min (drift_points m + 1) MAX_SCORE\<rparr>
      else m\<lparr>drift_points := max 0 (drift_points m - 1)\<rparr>)"

definition record_probe_send_failure :: "SelfMonitor \<Rightarrow> SelfMonitor" where
  "record_probe_send_failure m =
     m\<lparr>probe_send_failures := min (probe_send_failures m + 1) MAX_SCORE\<rparr>"

definition reset_probe_send_failure :: "SelfMonitor \<Rightarrow> SelfMonitor" where
  "reset_probe_send_failure m =
     (if probe_send_failures m > 0 then m\<lparr>probe_send_failures := probe_send_failures m - 1\<rparr> else m)"

definition score :: "SelfMonitor \<Rightarrow> int" where
  "score m = min (drift_points m + probe_send_failures m) MAX_SCORE"

definition adjusted_probe_timeout :: "SelfMonitor \<Rightarrow> seconds" where
  "adjusted_probe_timeout m =
     probe_timeout_per_attempt (sm_options m) * (1 + of_int (score m) / 4)"

subsection \<open>The detector\<close>

record FailureDetector =
  fd_local :: SiloAddress
  fd_options :: FailureDetectorOptions
  peer_healths :: "(pystr, PeerHealth) dict"
  self_monitor :: SelfMonitor

definition new_failure_detector :: "SiloAddress \<Rightarrow> FailureDetectorOptions \<Rightarrow> FailureDetector" where
  "new_failure_detector s opts =
     \<lparr>fd_local = s, fd_options = opts, peer_healths = [], self_monitor = new_self_monitor opts\<rparr>"

text \<open>\<^verbatim>\<open>peer_health\<close> creates the record on demand; callers then mutate it in place.\<close>

definition peer_health :: "pystr \<Rightarrow> FailureDetector \<Rightarrow> PeerHealth" where
  "peer_health sid fd = (case dget (peer_healths fd) sid of None \<Rightarrow> new_peer_health | Some h \<Rightarrow> h)"

definition set_peer_health :: "pystr \<Rightarrow> PeerHealth \<Rightarrow> FailureDetector \<Rightarrow> FailureDetector" where
  "set_peer_health sid h fd = fd\<lparr>peer_healths := dset (peer_healths fd) sid h\<rparr>"

definition reset_miss_count :: "pystr \<Rightarrow> FailureDetector \<Rightarrow> FailureDetector" where
  "reset_miss_count sid fd = set_peer_health sid ((peer_health sid fd)\<lparr>miss_count := 0\<rparr>) fd"

definition bump_miss_count :: "pystr \<Rightarrow> FailureDetector \<Rightarrow> FailureDetector" where
  "bump_miss_count sid fd =
     (let h = peer_health sid fd
      in set_peer_health sid
           (h\<lparr>miss_count := min (miss_count h + 1) (num_missed_probes_limit (fd_options fd))\<rparr>) fd)"

definition active_peers :: "SiloAddress \<Rightarrow> MembershipSnapshot \<Rightarrow> SiloAddress list" where
  "active_peers me snapshot =
     map address (filter (\<lambda>s. status s = ACTIVE \<and> address s \<noteq> me) (silos snapshot))"

definition probe_targets ::
  "(bytes \<Rightarrow> bytes) \<Rightarrow> FailureDetector \<Rightarrow> MembershipSnapshot \<Rightarrow> SiloAddress list" where
  "probe_targets sha fd snapshot =
     (let peers = active_peers (fd_local fd) snapshot; n = num_probed_silos (fd_options fd)
      in if peers = [] then []
         else if int (length peers) \<le> n then sort_key silo_id peers
         else successors (default_ring sha (peers @ [fd_local fd])) (fd_local fd) n)"

subsection \<open>Probes\<close>

type_synonym ping = "SiloAddress \<Rightarrow> seconds \<Rightarrow> seconds result"
type_synonym request = "SiloAddress \<Rightarrow> bytes \<Rightarrow> bytes \<Rightarrow> seconds \<Rightarrow> bytes result"

definition ping_outcome ::
  "seconds result \<Rightarrow> FailureDetector \<Rightarrow> ProbeResult result \<times> FailureDetector" where
  "ping_outcome answer fd =
     (case answer of
        Inr t \<Rightarrow> (Inr (ProbeResult True t None),
                  fd\<lparr>self_monitor := reset_probe_send_failure (self_monitor fd)\<rparr>)
      | Inl e \<Rightarrow>
          if e = TransportTimeoutError then (Inr (ProbeResult False 0 (Some e)), fd)
          else if e = TransportConnectionError then (Inr (ProbeResult False 0 (Some e)), fd)
          else if is_transport_error e then
            (Inr (ProbeResult False 0 (Some e)),
             fd\<lparr>self_monitor := record_probe_send_failure (self_monitor fd)\<rparr>)
          else (Inl e, fd))"

definition probe_once ::
  "ping \<Rightarrow> SiloAddress \<Rightarrow> FailureDetector \<Rightarrow> ProbeResult result \<times> FailureDetector" where
  "probe_once ping peer fd = ping_outcome (ping peer (adjusted_probe_timeout (self_monitor fd))) fd"

text \<open>The intermediaries are asked concurrently; whatever one raises counts as no.\<close>

definition indirect_probe ::
  "request \<Rightarrow> SiloAddress \<Rightarrow> SiloAddress list \<Rightarrow> FailureDetector \<Rightarrow> bool result" where
  "indirect_probe send peer intermediaries fd =
     (if intermediaries = [] then Inr False
      else res_bind (utf8_encode (silo_id peer)) (\<lambda>body.
        Inr (\<exists>m \<in> set intermediaries.
          send m INDIRECT_PROBE_HEADER body (adjusted_probe_timeout (self_monitor fd) + 1)
            = Inr INDIRECT_PROBE_RESP_OK)))"

definition pick_intermediaries ::
  "(SiloAddress list \<Rightarrow> nat \<Rightarrow> SiloAddress list) \<Rightarrow> FailureDetector \<Rightarrow> MembershipSnapshot
   \<Rightarrow> SiloAddress \<Rightarrow> SiloAddress list" where
  "pick_intermediaries sample fd snapshot peer =
     (let candidates = filter (\<lambda>a. a \<noteq> peer) (active_peers (fd_local fd) snapshot);
          k = min (indirect_probe_intermediaries (fd_options fd)) (int (length candidates))
      in if k = 0 then [] else sample candidates (nat k))"

definition handle_indirect_probe_request ::
  "ping \<Rightarrow> bytes \<Rightarrow> FailureDetector \<Rightarrow> bytes result \<times> FailureDetector" where
  "handle_indirect_probe_request ping body fd =
     (case utf8_decode body of
        None \<Rightarrow> (Inr INDIRECT_PROBE_RESP_FAIL, fd)
      | Some suspect_id \<Rightarrow>
          (case from_silo_id suspect_id of
             Inl e \<Rightarrow> if is_value_error e then (Inr INDIRECT_PROBE_RESP_FAIL, fd) else (Inl e, fd)
           | Inr suspect \<Rightarrow>
               (case probe_once ping suspect fd of
                  (Inl e, fd') \<Rightarrow> (Inl e, fd')
                | (Inr r, fd') \<Rightarrow>
                    (Inr (if probe_ok r then INDIRECT_PROBE_RESP_OK else INDIRECT_PROBE_RESP_FAIL), fd'))))"

subsection \<open>The self-monitor stays in range\<close>

datatype monitor_event = Drift seconds | SendFailure | SendSuccess

fun monitor_step :: "monitor_event \<Rightarrow> SelfMonitor \<Rightarrow> SelfMonitor" where
  "monitor_step (Drift d) m = record_loop_drift d m"
| "monitor_step SendFailure m = record_probe_send_failure m"
| "monitor_step SendSuccess m = reset_probe_send_failure m"

definition monitor_ok :: "FailureDetectorOptions \<Rightarrow> SelfMonitor \<Rightarrow> bool" where
  "monitor_ok opts m \<longleftrightarrow> sm_options m = opts \<and> 0 \<le> drift_points m \<and> drift_points m \<le> MAX_SCORE
     \<and> 0 \<le> probe_send_failures m \<and> probe_send_failures m \<le> MAX_SCORE"

lemma monitor_ok_step: "monitor_ok opts m \<Longrightarrow> monitor_ok opts (monitor_step ev m)"
  by (cases ev) (simp_all add: monitor_ok_def record_loop_drift_def record_probe_send_failure_def
      reset_probe_send_failure_def MAX_SCORE_def)

lemma monitor_ok_run: "monitor_ok opts m \<Longrightarrow> monitor_ok opts (fold monitor_step evs m)"
  by (induction evs arbitrary: m) (simp_all add: monitor_ok_step)

lemma score_range: "monitor_ok opts m \<Longrightarrow> 0 \<le> score m \<and> score m \<le> 8"
  by (auto simp: monitor_ok_def score_def MAX_SCORE_def)

lemma timeout_range:
  assumes "0 < base" "0 \<le> s" "s \<le> 8"
  shows "base \<le> base * (1 + of_int s / 4) \<and> base * (1 + of_int s / 4) \<le> (3 * base :: rat)"
proof -
  have "(of_int s :: rat) \<le> of_int 8" using assms(3) by (rule of_int_le_iff [THEN iffD2])
  then have s: "0 \<le> (of_int s :: rat)" "(of_int s :: rat) \<le> 8" using assms(2) by simp_all
  have "base * (of_int s / 4) \<le> base * 2" using s(2) assms(1) by (intro mult_left_mono) auto
  moreover have "0 \<le> base * (of_int s / 4)" using s(1) assms(1) by simp
  ultimately show ?thesis by (simp add: algebra_simps)
qed

subsection \<open>Probe targets\<close>

lemma set_active_peers:
  "a \<in> set (active_peers me snapshot) \<longleftrightarrow>
     a \<noteq> me \<and> (\<exists>s \<in> set (silos snapshot). status s = ACTIVE \<and> address s = a)"
  by (auto simp: active_peers_def)

lemma distinct_active_peers:
  "distinct (map address (silos snapshot)) \<Longrightarrow> distinct (active_peers me snapshot)"
  by (auto simp: active_peers_def distinct_map inj_on_def)

lemma default_ring_successors:
  "s \<in> set ss \<Longrightarrow> distinct (successors (default_ring sha ss) s n)
    \<and> set (successors (default_ring sha ss) s n) \<subseteq> set ss - {s}
    \<and> length (successors (default_ring sha ss) s n) = min (nat n) (card (set ss - {s}))"
  by (rule successors_of_ring [OF new_ring_default])

subsection \<open>Properties\<close>

text \<open>
  The self-monitor is bounded: over any sequence of drift samples, failed sends and successful
  probes the score stays between 0 and 8, so a probe waits at least its configured timeout and at
  most three times as long; and options that the constructor accepts have positive timeouts and
  ask for at least one vote.
\<close>

theorem self_monitor_bounds:
  fixes evs :: "monitor_event list"
  assumes "mk_options opts = Inr opts'"
  defines "m \<equiv> fold monitor_step evs (new_self_monitor opts')"
  shows "0 \<le> score m \<and> score m \<le> 8
    \<and> probe_timeout_per_attempt opts \<le> adjusted_probe_timeout m
    \<and> adjusted_probe_timeout m \<le> 3 * probe_timeout_per_attempt opts
    \<and> 0 < probe_timeout_per_attempt opts \<and> 1 \<le> num_votes_for_death_declaration opts"
proof -
  have opts: "opts' = opts" "0 < probe_timeout_per_attempt opts" "1 \<le> num_votes_for_death_declaration opts"
    using assms(1) by (auto simp: mk_options_def split: if_split_asm)
  have "monitor_ok opts m"
    unfolding m_def opts(1) by (rule monitor_ok_run) (simp add: monitor_ok_def new_self_monitor_def MAX_SCORE_def)
  with opts timeout_range [OF opts(2), of "score m"] score_range [of opts m] show ?thesis
    by (simp add: adjusted_probe_timeout_def monitor_ok_def)
qed

theorem self_monitor_bounds_witness:
  "adjusted_probe_timeout (fold monitor_step (replicate 9 (Drift 2)) (new_self_monitor default_options)) \<le> 15"
proof -
  have "mk_options default_options = Inr default_options"
    by (simp add: mk_options_def default_options_def)
  from self_monitor_bounds [OF this, of "replicate 9 (Drift 2)"] show ?thesis
    by (simp add: default_options_def)
qed

text \<open>
  Whom a silo probes: distinct active silos other than itself, as many as configured or as
  there are; everybody when the configured number suffices, which in a cluster of at most that
  many other active silos means that every active silo is watched by every other one.
\<close>

theorem probe_targets_spec:
  fixes fd :: FailureDetector and sha :: "bytes \<Rightarrow> bytes"
  assumes "distinct (map address (silos snapshot))"
  defines "targets \<equiv> probe_targets sha fd snapshot"
    and "peers \<equiv> {address s | s. s \<in> set (silos snapshot) \<and> status s = ACTIVE} - {fd_local fd}"
  shows "distinct targets \<and> set targets \<subseteq> peers
    \<and> length targets = min (nat (num_probed_silos (fd_options fd))) (card peers)
    \<and> (int (card peers) \<le> num_probed_silos (fd_options fd) \<longrightarrow> set targets = peers)"
proof -
  let ?ps = "active_peers (fd_local fd) snapshot" and ?n = "num_probed_silos (fd_options fd)"
  have d: "distinct ?ps" using assms(1) by (rule distinct_active_peers)
  have set_ps: "set ?ps = peers" by (auto simp: set_active_peers peers_def)
  then have card: "card peers = length ?ps" using d distinct_card by metis
  have me: "fd_local fd \<notin> peers" by (simp add: peers_def)
  show ?thesis
  proof (cases "int (length ?ps) \<le> ?n")
    case True
    then have "targets = sort_key silo_id ?ps" by (simp add: targets_def probe_targets_def Let_def)
    with True d set_ps card show ?thesis by simp
  next
    case False
    then have t: "targets = (if ?ps = [] then [] else
        successors (default_ring sha (?ps @ [fd_local fd])) (fd_local fd) ?n)"
      by (simp add: targets_def probe_targets_def Let_def)
    have "set (?ps @ [fd_local fd]) - {fd_local fd} = peers" using set_ps me by auto
    with t False card set_ps
      default_ring_successors [of "fd_local fd" "?ps @ [fd_local fd]" sha ?n]
    show ?thesis by auto
  qed
qed

theorem probe_targets_spec_witness:
  "set (probe_targets (take 1) (new_failure_detector silo_a default_options)
      \<lparr>version = 1, silos = [demo_row]\<rparr>) = {silo_addr}"
proof -
  have a: "silo_addr \<noteq> silo_a" by (simp add: silo_addr_def silo_a_def)
  have "{address s | s. s \<in> set [demo_row] \<and> status s = ACTIVE} - {silo_a} = {silo_addr}"
    using a by (auto simp: demo_row_def)
  with probe_targets_spec [of "\<lparr>version = 1, silos = [demo_row]\<rparr>" "take 1"
      "new_failure_detector silo_a default_options"] show ?thesis
    by (simp add: new_failure_detector_def default_options_def)
qed

text \<open>
  Indirect probes do what they promise: when every intermediary runs this code and is reached,
  the prober concludes that the suspect is alive if and only if at least one of them got an answer
  to its own ping of exactly that suspect; a request that is not a silo id is answered FAIL.
\<close>

theorem indirect_probe_spec:
  fixes fd :: FailureDetector and mediators :: "SiloAddress \<Rightarrow> FailureDetector"
  assumes "utf8_encode (silo_id peer) = Inr body"
    and "\<And>m timeout. m \<in> set ms \<Longrightarrow>
      send m INDIRECT_PROBE_HEADER body timeout = fst (handle_indirect_probe_request (pings m) body (mediators m))"
  shows "indirect_probe send peer ms fd =
      Inr (\<exists>m \<in> set ms. \<exists>t. pings m peer (adjusted_probe_timeout (self_monitor (mediators m))) = Inr t)
    \<and> (utf8_decode junk = None \<or> (\<exists>s. utf8_decode junk = Some s \<and> from_silo_id s = Inl ValueError) \<longrightarrow>
        handle_indirect_probe_request ping junk fd = (Inr INDIRECT_PROBE_RESP_FAIL, fd))"
proof -
  have "utf8_decode body = Some (silo_id peer)"
    using assms(1) utf8_roundtrip by blast
  then have h: "fst (handle_indirect_probe_request (pings m) body (mediators m)) = Inr INDIRECT_PROBE_RESP_OK
      \<longleftrightarrow> (\<exists>t. pings m peer (adjusted_probe_timeout (self_monitor (mediators m))) = Inr t)" for m
    by (auto simp: handle_indirect_probe_request_def probe_once_def ping_outcome_def INDIRECT_PROBE_RESP_OK_def
        INDIRECT_PROBE_RESP_FAIL_def utf8_bytes_def utf8_enc1_def split: sum.split)
  have "(\<exists>m \<in> set ms. send m INDIRECT_PROBE_HEADER body timeout = Inr INDIRECT_PROBE_RESP_OK)
      \<longleftrightarrow> (\<exists>m \<in> set ms. \<exists>t. pings m peer (adjusted_probe_timeout (self_monitor (mediators m))) = Inr t)" for timeout
    by (rule bex_cong [OF refl]) (simp add: assms(2) h)
  then have "indirect_probe send peer ms fd =
      Inr (\<exists>m \<in> set ms. \<exists>t. pings m peer (adjusted_probe_timeout (self_monitor (mediators m))) = Inr t)"
    by (simp add: indirect_probe_def assms(1))
  moreover have "handle_indirect_probe_request ping junk fd = (Inr INDIRECT_PROBE_RESP_FAIL, fd)"
    if "utf8_decode junk = None \<or> (\<exists>s. utf8_decode junk = Some s \<and> from_silo_id s = Inl ValueError)"
    using that by (elim disjE exE conjE) (simp_all add: handle_indirect_probe_request_def)
  ultimately show ?thesis by blast
qed

theorem indirect_probe_spec_witness:
  "indirect_probe (\<lambda>m header body timeout. fst (handle_indirect_probe_request (\<lambda>s timeout. Inr 1) body
       (new_failure_detector m default_options))) silo_a [silo_b] (new_failure_detector silo_b default_options)
   = Inr True"
proof -
  have "utf8_encode (silo_id silo_a) = Inr (utf8_bytes (silo_id silo_a))"
    by (simp add: utf8_encode_def silo_a_def silo_id_def str_int_def dec.simps valid_cp_def)
  then have "indirect_probe (\<lambda>m header body timeout. fst (handle_indirect_probe_request (\<lambda>s timeout. Inr 1)
      body (new_failure_detector m default_options))) silo_a [silo_b] (new_failure_detector silo_b default_options)
    = Inr (\<exists>m \<in> set [silo_b]. \<exists>t. (Inr 1 :: seconds result) = Inr t)"
    by (rule conjunct1 [OF indirect_probe_spec [where pings = "\<lambda>m s timeout. Inr 1"
        and mediators = "\<lambda>m. new_failure_detector m default_options"]]) (rule refl)
  then show ?thesis by simp
qed

end
