(* ===== verification/Voting.thy ===== *)
theory Voting
  imports FailureDetector
begin

text \<open>
  The voting part of \<^verbatim>\<open>pyleans/cluster/failure_detector.py\<close>: from a probe result to
  a suspicion vote, an indirect probe and the write of a DEAD row, over any membership provider.
  The lemmas are proved once for every provider that honours the locale
  \<open>membership_provider\<close>; the properties use the YAML table.
\<close>

subsection \<open>The environment of one attempt\<close>

text \<open>
  \<open>others n\<close> are the calls other silos make on the table between the detector's
  \<open>(n-1)\<close>-st and \<open>n\<close>-th access of an attempt.
\<close>

record 't vote_env =
  provider :: "'t MembershipProvider"
  others :: "nat \<Rightarrow> mem_op list"
  wall_clock :: seconds
  send_request :: request
  sample :: "SiloAddress list \<Rightarrow> nat \<Rightarrow> SiloAddress list"

abbreviation interfere :: "'t vote_env \<Rightarrow> nat \<Rightarrow> 't \<Rightarrow> 't" where
  "interfere env n \<equiv> mp_others (provider env) (others env n)"

definition fresh_distinct_voters :: "FailureDetectorOptions \<Rightarrow> SiloInfo \<Rightarrow> seconds \<Rightarrow> pystr set" where
  "fresh_distinct_voters opts row now =
     suspecting_silo ` set (filter (\<lambda>v. timestamp v \<ge> now - death_vote_expiration opts) (suspicions row))"

text \<open>What a write of the table raised, or the given outcome.\<close>

definition after_write :: "bool \<Rightarrow> 'a result \<times> 't \<Rightarrow> bool result \<times> 't" where
  "after_write outcome w = (res_bind (fst w) (\<lambda>_. Inr outcome), snd w)"

definition attempt_vote ::
  "'t vote_env \<Rightarrow> SiloAddress \<Rightarrow> FailureDetector \<Rightarrow> 't \<Rightarrow> bool result \<times> FailureDetector \<times> 't" where
  "attempt_vote env peer fd t =
     (let opts = fd_options fd; me = silo_id (fd_local fd); sid = silo_id peer;
          t0 = interfere env 0 t
      in case mp_read_silo (provider env) sid t0 of
           Inl e \<Rightarrow> (Inl e, fd, t0)
         | Inr None \<Rightarrow> (Inr False, reset_miss_count sid fd, t0)
         | Inr (Some peer_row) \<Rightarrow>
             if status peer_row = DEAD then (Inr True, fd, t0)
             else
               let now = wall_clock env;
                   fresh_voters = fresh_distinct_voters opts peer_row now
               in if me \<in> fresh_voters then (Inr False, fd, t0)
                  else
                    let new_vote = SuspicionVote me now;
                        is_deciding = int (card (insert me fresh_voters)) \<ge> num_votes_for_death_declaration opts;
                        expected_etag = (case etag peer_row of None \<Rightarrow> [] | Some e \<Rightarrow> e);
                        suspect = (\<lambda>u. after_write False
                          (mp_try_add_suspicion (provider env) sid new_vote expected_etag u));
                        t1 = interfere env 1 t0
                    in if \<not> is_deciding then (case suspect t1 of (r, t') \<Rightarrow> (r, fd, t'))
                       else case mp_read_all (provider env) t1 of
                              Inl e \<Rightarrow> (Inl e, fd, t1)
                            | Inr snapshot \<Rightarrow>
                                let intermediaries = pick_intermediaries (sample env) fd snapshot peer;
                                    t2 = interfere env 2 t1
                                in (case indirect_probe (send_request env) peer intermediaries fd of
                                      Inl e \<Rightarrow> (Inl e, fd, t2)
                                    | Inr True \<Rightarrow> (case suspect t2 of (r, t') \<Rightarrow> (r, fd, t'))
                                    | Inr False \<Rightarrow>
                                        let updated = with_replacements peer_row
                                              (\<lambda>r. r\<lparr>status := DEAD, suspicions := suspicions peer_row @ [new_vote]\<rparr>)
                                        in (case after_write True (mp_try_update (provider env) updated t2) of
                                              (r, t') \<Rightarrow> (r, fd, t'))))"

text \<open>\<open>envs\<close> are the environments of the attempts that are left.\<close>

fun vote_attempts ::
  "'t vote_env list \<Rightarrow> SiloAddress \<Rightarrow> FailureDetector \<Rightarrow> 't \<Rightarrow> bool result \<times> FailureDetector \<times> 't" where
  "vote_attempts [] peer fd t = (Inr False, fd, t)"
| "vote_attempts (env # envs) peer fd t =
     (case attempt_vote env peer fd t of
        (Inr declared, fd', t') \<Rightarrow> (Inr declared, fd', t')
      | (Inl e, fd', t') \<Rightarrow>
          if e = TableStaleError then vote_attempts envs peer fd' t'
          else if e = MembershipUnavailableError then (Inr False, fd', t')
          else if e = SiloNotFoundError then (Inr False, reset_miss_count (silo_id peer) fd', t')
          else (Inl e, fd', t'))"

definition vote_or_declare ::
  "(nat \<Rightarrow> 't vote_env) \<Rightarrow> SiloAddress \<Rightarrow> FailureDetector \<Rightarrow> 't \<Rightarrow> bool result \<times> FailureDetector \<times> 't" where
  "vote_or_declare envs = vote_attempts (map envs [0..<MAX_STALE_RETRY])"

definition on_probe_result ::
  "(nat \<Rightarrow> 't vote_env) \<Rightarrow> seconds \<Rightarrow> SiloAddress \<Rightarrow> ProbeResult \<Rightarrow> FailureDetector \<Rightarrow> 't
   \<Rightarrow> bool result \<times> FailureDetector \<times> 't" where
  "on_probe_result envs now peer r fd t =
     (let sid = silo_id peer; h = peer_health sid fd
      in if probe_ok r then
           (Inr False,
            set_peer_health sid \<lparr>miss_count = 0, consecutive_ok = consecutive_ok h + 1,
              last_probe_ok_time = now, last_rtt = rtt r\<rparr> fd, t)
         else
           let h' = h\<lparr>consecutive_ok := 0, miss_count := miss_count h + 1\<rparr>;
               fd' = set_peer_health sid h' fd
           in if miss_count h' < num_missed_probes_limit (fd_options fd) then (Inr False, fd', t)
              else vote_or_declare envs peer fd' t)"

subsection \<open>One attempt over a provider that honours the contract\<close>

definition vote_of :: "'t vote_env \<Rightarrow> FailureDetector \<Rightarrow> SuspicionVote" where
  "vote_of env fd = SuspicionVote (silo_id (fd_local fd)) (wall_clock env)"

definition voters_with :: "'t vote_env \<Rightarrow> FailureDetector \<Rightarrow> SiloInfo \<Rightarrow> pystr set" where
  "voters_with env fd row =
     insert (silo_id (fd_local fd)) (fresh_distinct_voters (fd_options fd) row (wall_clock env))"

definition quorum :: "'t vote_env \<Rightarrow> FailureDetector \<Rightarrow> SiloInfo \<Rightarrow> bool" where
  "quorum env fd row \<longleftrightarrow> num_votes_for_death_declaration (fd_options fd) \<le> int (card (voters_with env fd row))"

definition vouched :: "'t vote_env \<Rightarrow> FailureDetector \<Rightarrow> SiloAddress \<Rightarrow> MembershipSnapshot \<Rightarrow> bool" where
  "vouched env fd peer snapshot \<longleftrightarrow>
     indirect_probe (send_request env) peer (pick_intermediaries (sample env) fd snapshot peer) fd = Inr True"

definition suspected :: "SuspicionVote \<Rightarrow> SiloInfo \<Rightarrow> pystr \<Rightarrow> SiloInfo" where
  "suspected v row e = row\<lparr>suspicions := suspicions row @ [v], etag := Some e\<rparr>"

definition declared_dead :: "SuspicionVote \<Rightarrow> SiloInfo \<Rightarrow> pystr \<Rightarrow> SiloInfo" where
  "declared_dead v row e = row\<lparr>status := DEAD, suspicions := suspicions row @ [v], etag := Some e\<rparr>"

context membership_provider
begin

text \<open>A suspicion is appended to the row whose etag was read, or the write raises.\<close>

lemma suspect_cases:
  assumes "invar t" "after_write False (mp_try_add_suspicion p sid v e t) = (r, t')"
  shows "(r \<in> {Inl SiloNotFoundError, Inl TableStaleError} \<and> t' = t)
    \<or> (r = Inr False \<and> invar t' \<and> ver t' = ver t + 1
       \<and> (\<exists>row e'. rd t sid = Some row \<and> etag row = Some e \<and> rd t' = (rd t)(sid \<mapsto> suspected v row e')))"
proof -
  consider "rd t sid = None" | row where "rd t sid = Some row" "etag row \<noteq> Some e"
    | row where "rd t sid = Some row" "etag row = Some e"
    by (cases "rd t sid") auto
  then show ?thesis
  proof cases
    case 1
    with add_missing [OF assms(1)] assms(2) show ?thesis by (auto simp: after_write_def)
  next
    case (2 row)
    with add_stale [OF assms(1) 2] assms(2) show ?thesis by (auto simp: after_write_def)
  next
    case (3 row)
    from add_ok [OF assms(1) 3, of v] obtain e' u where
      "mp_try_add_suspicion p sid v e t = (Inr (suspected v row e'), u)"
      "rd u = (rd t)(sid \<mapsto> suspected v row e')" "ver u = ver t + 1" "invar u"
      unfolding suspected_def by blast
    with 3 assms(2) show ?thesis by (auto simp: after_write_def)
  qed
qed

lemma declare_cases:
  assumes "invar t" "sid = silo_id (address row)" "row_version row = 0"
    and "after_write True (mp_try_update p
          (row\<lparr>status := DEAD, suspicions := suspicions row @ [v]\<rparr>) t) = (r, t')"
    and "etag row \<noteq> None"
  shows "(r \<in> {Inl SiloNotFoundError, Inl TableStaleError} \<and> t' = t)
    \<or> (r = Inr True \<and> invar t' \<and> ver t' = ver t + 1
       \<and> (\<exists>cur e'. rd t sid = Some cur \<and> etag cur = etag row
            \<and> rd t' = (rd t)(sid \<mapsto> declared_dead v row e')))"
proof -
  let ?s = "row\<lparr>status := DEAD, suspicions := suspicions row @ [v]\<rparr>"
  have sid: "silo_id (address ?s) = sid" and st: "stored ?s = ?s" and et: "etag ?s = etag row"
    using assms(2,3) by (simp_all add: stored_id)
  consider "rd t sid = None" | cur where "rd t sid = Some cur" "etag cur \<noteq> etag row"
    | cur where "rd t sid = Some cur" "etag cur = etag row"
    by (cases "rd t sid") auto
  then show ?thesis
  proof cases
    case 1
    with upd_missing [OF assms(1), of ?s] assms(4,5) sid show ?thesis by (auto simp: after_write_def)
  next
    case (2 cur)
    with upd_stale [OF assms(1), of ?s cur] assms(4) sid show ?thesis by (auto simp: after_write_def)
  next
    case (3 cur)
    then have "rd t (silo_id (address ?s)) = Some cur" "Some cur = None \<and> etag ?s = None \<or>
        (\<exists>r. Some cur = Some r \<and> etag r = etag ?s)" using assms(2) by simp_all
    from upd_ok [OF assms(1) this] obtain e' u where
      "mp_try_update p ?s t = (Inr (declared_dead v row e'), u)"
      "rd u = (rd t)(sid \<mapsto> declared_dead v row e')" "ver u = ver t + 1" "invar u"
      unfolding st sid by (auto simp: declared_dead_def)
    with 3 assms(4) show ?thesis by (auto simp: after_write_def)
  qed
qed

text \<open>
  Every outcome of one attempt. \<open>t0\<close>, \<open>t1\<close> and \<open>t2\<close> are the tables that the
  attempt reads, reads again and writes.
\<close>

lemma attempt_cases:
  assumes "invar t" "provider env = p" "attempt_vote env peer fd t = (r, fd', t')"
    and "t0 = mp_others p (others env 0) t" "t1 = mp_others p (others env 1) t0"
    and "t2 = mp_others p (others env 2) t1"
    and "sid = silo_id peer" "\<And>row. rd t0 sid = Some row \<Longrightarrow> etag row \<noteq> None"
  obtains (gone) "rd t0 sid = None" "r = Inr False" "t' = t0"
  | (already) row where "rd t0 sid = Some row" "status row = DEAD" "r = Inr True" "t' = t0"
  | (voted) row where "rd t0 sid = Some row" "status row \<noteq> DEAD" "r = Inr False" "t' = t0"
      "silo_id (fd_local fd) \<in> fresh_distinct_voters (fd_options fd) row (wall_clock env)"
  | (refused) e u where "r = Inl e" "t' = u" "u \<in> {t1, t2}"
  | (suspect) row u e where "rd t0 sid = Some row" "status row \<noteq> DEAD" "r = Inr False" "u \<in> {t1, t2}"
      "\<exists>cur. rd u sid = Some cur \<and> etag cur = etag row \<and> rd t' = (rd u)(sid \<mapsto> suspected (vote_of env fd) cur e)"
      "ver t' = ver u + 1" "invar t'"
  | (declared) row cur snapshot e where "rd t0 sid = Some row" "status row \<noteq> DEAD" "r = Inr True"
      "silo_id (fd_local fd) \<notin> fresh_distinct_voters (fd_options fd) row (wall_clock env)"
      "quorum env fd row" "mp_read_all p t1 = Inr snapshot" "\<not> vouched env fd peer snapshot"
      "rd t2 sid = Some cur" "etag cur = etag row"
      "rd t' = (rd t2)(sid \<mapsto> declared_dead (vote_of env fd) row e)" "ver t' = ver t2 + 1" "invar t'"
proof -
  have inv: "invar t0" "invar t1" "invar t2"
    using others_invar assms(1,4,5,6) by auto
  have tabs: "mp_others p (others env 0) t = t0" "mp_others p (others env 1) t0 = t1"
      "mp_others p (others env 2) t1 = t2" "mp_others p (others env (Suc 0)) t0 = t1"
    using assms(4-6) by simp_all
  note reads = read_silo_rd [OF inv(1), of sid]
  note run = assms(3) [unfolded attempt_vote_def Let_def assms(2) assms(7) [symmetric] tabs reads]
  obtain snap where snap: "mp_read_all p t1 = Inr snap" using read_rows [OF inv(2)] by blast
  show thesis
  proof (cases "rd t0 sid")
    case None
    from run gone [OF None] show thesis unfolding None by simp
  next
    case (Some row)
    then obtain et where et: "etag row = Some et" using assms(8) by blast
    have addr: "sid = silo_id (address row)" and rv: "row_version row = 0"
      using rd_address [OF inv(1) Some] rows_stored [OF inv(1) Some] by simp_all
    show thesis
    proof (cases "status row = DEAD \<or>
        silo_id (fd_local fd) \<in> fresh_distinct_voters (fd_options fd) row (wall_clock env)")
      case True
      with run already [OF Some] voted [OF Some] show thesis
        unfolding Some by (simp split: if_split_asm)
    next
      case False
      let ?add = "\<lambda>u. after_write False (mp_try_add_suspicion p sid (vote_of env fd) et u)"
      have sus: thesis if "?add u = (r, t')" "u \<in> {t1, t2}" for u
      proof -
        have iu: "invar u" using that(2) inv by auto
        from suspect_cases [OF iu that(1)] show thesis
          using refused [of _ u] suspect [OF Some _ _ that(2)] that(2) False et by auto
      qed
      let ?ip = "indirect_probe (send_request env) peer (pick_intermediaries (sample env) fd snap peer) fd"
      consider (few) "\<not> quorum env fd row" | (err) x where "quorum env fd row" "?ip = Inl x"
        | (yes) "quorum env fd row" "?ip = Inr True" | (no) "quorum env fd row" "?ip = Inr False"
        by (cases "quorum env fd row"; cases ?ip; fastforce)
      then show thesis
      proof cases
        case few
        with run False et snap have "?add t1 = (r, t')"
          unfolding Some by (simp add: quorum_def voters_with_def vote_of_def split: prod.splits)
        then show thesis by (rule sus) simp
      next
        case (err x)
        with run False et snap have "r = Inl x \<and> t' = t2"
          unfolding Some by (simp add: quorum_def voters_with_def split: prod.splits)
        then show thesis using refused by blast
      next
        case yes
        with run False et snap have "?add t2 = (r, t')"
          unfolding Some by (simp add: quorum_def voters_with_def vote_of_def split: prod.splits)
        then show thesis by (rule sus) simp
      next
        case no
        with run False et snap have
          w: "after_write True (mp_try_update p
            (row\<lparr>status := DEAD, suspicions := suspicions row @ [vote_of env fd]\<rparr>) t2) = (r, t')"
          unfolding Some
          by (simp add: quorum_def voters_with_def vote_of_def with_replacements_def split: prod.splits)
        from declare_cases [OF inv(3) addr rv w] et show thesis
          using refused [of _ t2] declared [OF Some _ _ _ no(1) snap] no(2) False
          by (auto simp: vouched_def)
      qed
    qed
  qed
qed

end

subsection \<open>Voting without interference\<close>

text \<open>Silos that vote one after the other.\<close>

fun silos_vote ::
  "((nat \<Rightarrow> 't vote_env) \<times> FailureDetector) list \<Rightarrow> SiloAddress \<Rightarrow> 't \<Rightarrow> bool result list \<times> 't" where
  "silos_vote [] peer t = ([], t)"
| "silos_vote ((envs, fd) # vs) peer t =
     (case vote_or_declare envs peer fd t of
        (r, _, t1) \<Rightarrow> (case silos_vote vs peer t1 of (rs, t2) \<Rightarrow> (r # rs, t2)))"

definition voter_id :: "(nat \<Rightarrow> 't vote_env) \<times> FailureDetector \<Rightarrow> pystr" where
  "voter_id v = silo_id (fd_local (snd v))"

definition vote_cast :: "(nat \<Rightarrow> 't vote_env) \<times> FailureDetector \<Rightarrow> SuspicionVote" where
  "vote_cast v = vote_of (fst v 0) (snd v)"

text \<open>
  A voter of a round that started at \<open>start\<close>: it runs before the votes of the round expire,
  no other call comes in between, it wants \<open>n\<close> votes, and nobody it may ask answers for the peer.
\<close>

definition ready_voter ::
  "'t MembershipProvider \<Rightarrow> seconds \<Rightarrow> int \<Rightarrow> (nat \<Rightarrow> 't vote_env) \<times> FailureDetector \<Rightarrow> bool" where
  "ready_voter p start n v \<longleftrightarrow>
     (case v of (envs, fd) \<Rightarrow>
        provider (envs 0) = p \<and> others (envs 0) = (\<lambda>_. [])
        \<and> num_votes_for_death_declaration (fd_options fd) = n
        \<and> start \<le> wall_clock (envs 0)
        \<and> wall_clock (envs 0) \<le> start + death_vote_expiration (fd_options fd)
        \<and> (\<forall>m header body timeout. send_request (envs 0) m header body timeout \<noteq> Inr INDIRECT_PROBE_RESP_OK))"

lemma vote_first: "attempt_vote (envs 0) peer fd t = (Inr b, fd', t') \<Longrightarrow>
    vote_or_declare envs peer fd t = (Inr b, fd', t')"
  by (simp add: vote_or_declare_def MAX_STALE_RETRY_def upt_rec [of 0])

context membership_provider
begin

lemma attempt_quiet:
  assumes "invar t" "provider env = p" "others env = (\<lambda>_. [])" "sid = silo_id peer"
    and "rd t sid = Some row" "status row \<noteq> DEAD" "etag row \<noteq> None"
    and "silo_id (fd_local fd) \<notin> fresh_distinct_voters (fd_options fd) row (wall_clock env)"
    and "utf8_encode sid = Inr body"
    and "\<forall>m header body timeout. send_request env m header body timeout \<noteq> Inr INDIRECT_PROBE_RESP_OK"
  shows "\<exists>e t'. attempt_vote env peer fd t = (Inr (quorum env fd row), fd, t') \<and> invar t'
    \<and> rd t' = (rd t)(sid \<mapsto> (if quorum env fd row then declared_dead else suspected) (vote_of env fd) row e)"
proof -
  obtain et where et: "etag row = Some et" using assms(7) by blast
  obtain snap where snap: "mp_read_all p t = Inr snap" using read_rows [OF assms(1)] by blast
  have ip: "indirect_probe (send_request env) peer ms fd = Inr False" for ms
    using assms(9,10) by (auto simp: indirect_probe_def assms(4))
  have addr: "sid = silo_id (address row)" and rv: "row_version row = 0"
    using rd_address [OF assms(1,5)] rows_stored [OF assms(1,5)] by simp_all
  note run = attempt_vote_def Let_def assms(2,3) assms(4) [symmetric] mp_others_Nil
    read_silo_rd [OF assms(1)] assms(5)
  show ?thesis
  proof (cases "quorum env fd row")
    case True
    let ?s = "row\<lparr>status := DEAD, suspicions := suspicions row @ [vote_of env fd]\<rparr>"
    have "rd t (silo_id (address ?s)) = Some row" "Some row = None \<and> etag ?s = None \<or>
        (\<exists>r. Some row = Some r \<and> etag r = etag ?s)" using assms(5) addr by simp_all
    from upd_ok [OF assms(1) this] obtain e u where
      u: "mp_try_update p ?s t = (Inr (declared_dead (vote_of env fd) row e), u)"
        "rd u = (rd t)(sid \<mapsto> declared_dead (vote_of env fd) row e)" "invar u"
      using addr rv by (auto simp: declared_dead_def stored_id)
    have "attempt_vote env peer fd t = (Inr True, fd, u)"
      using True assms(6,8) ip snap u(1)
      by (simp add: run after_write_def with_replacements_def quorum_def voters_with_def vote_of_def)
    with u True show ?thesis by auto
  next
    case False
    from add_ok [OF assms(1,5) et, of "vote_of env fd"] obtain e u where
      u: "mp_try_add_suspicion p sid (vote_of env fd) et t = (Inr (suspected (vote_of env fd) row e), u)"
        "rd u = (rd t)(sid \<mapsto> suspected (vote_of env fd) row e)" "invar u"
      unfolding suspected_def by blast
    have "attempt_vote env peer fd t = (Inr False, fd, u)"
      using False assms(6,8) u(1) et
      by (simp add: run after_write_def quorum_def voters_with_def vote_of_def)
    with u False show ?thesis by auto
  qed
qed

text \<open>The last voter of a round of \<open>n\<close> distinct silos declares the peer dead.\<close>

lemma silos_vote_round:
  assumes "invar t" "rd t sid = Some row" "status row \<noteq> DEAD" "etag row \<noteq> None" "sid = silo_id peer"
    and "utf8_encode sid = Inr body" "voters \<noteq> []" "list_all (ready_voter p start n) voters"
    and "\<forall>v \<in> set (suspicions row). start \<le> timestamp v"
    and "distinct (map suspecting_silo (suspicions row) @ map voter_id voters)"
    and "n = int (length (suspicions row) + length voters)"
  shows "\<exists>t' row'. silos_vote voters peer t = (replicate (length voters - 1) (Inr False) @ [Inr True], t')
    \<and> invar t' \<and> rd t' = (rd t)(sid \<mapsto> row') \<and> status row' = DEAD
    \<and> suspicions row' = suspicions row @ map vote_cast voters"
  using assms
proof (induction voters arbitrary: t row)
  case (Cons v vs)
  obtain envs fd where v: "v = (envs, fd)" by fastforce
  let ?env = "envs 0"
  have ready: "provider ?env = p" "others ?env = (\<lambda>_. [])"
      "num_votes_for_death_declaration (fd_options fd) = n" "start \<le> wall_clock ?env"
      "wall_clock ?env - death_vote_expiration (fd_options fd) \<le> start"
      "\<forall>m header body timeout. send_request ?env m header body timeout \<noteq> Inr INDIRECT_PROBE_RESP_OK"
    using Cons.prems(8) by (auto simp: ready_voter_def v)
  have fresh: "fresh_distinct_voters (fd_options fd) row (wall_clock ?env) = suspecting_silo ` set (suspicions row)"
    using Cons.prems(9) ready(5) by (force simp: fresh_distinct_voters_def)
  then have me: "silo_id (fd_local fd) \<notin> fresh_distinct_voters (fd_options fd) row (wall_clock ?env)"
    using Cons.prems(10) by (auto simp: v voter_id_def)
  have "card (voters_with ?env fd row) = Suc (length (suspicions row))"
    using fresh me Cons.prems(10) distinct_card [of "map suspecting_silo (suspicions row)"]
    by (simp add: voters_with_def)
  then have q: "quorum ?env fd row \<longleftrightarrow> vs = []"
    using ready(3) Cons.prems(11) by (cases vs) (simp_all add: quorum_def)
  from attempt_quiet [OF Cons.prems(1) ready(1,2) Cons.prems(5,2,3,4) me Cons.prems(6) ready(6)]
  obtain e u where u: "attempt_vote ?env peer fd t = (Inr (vs = []), fd, u)" "invar u"
      "rd u = (rd t)(sid \<mapsto> (if vs = [] then declared_dead else suspected) (vote_of ?env fd) row e)"
    unfolding q by blast
  have first: "vote_or_declare envs peer fd t = (Inr (vs = []), fd, u)" by (rule vote_first) (rule u(1))
  show ?case
  proof (cases "vs = []")
    case True
    with u first show ?thesis
      by (intro exI [of _ u] exI [of _ "declared_dead (vote_of ?env fd) row e"])
        (simp add: v declared_dead_def vote_cast_def)
  next
    case False
    let ?row = "suspected (vote_of ?env fd) row e"
    have "\<exists>t' row'. silos_vote vs peer u = (replicate (length vs - 1) (Inr False) @ [Inr True], t')
        \<and> invar t' \<and> rd t' = (rd u)(sid \<mapsto> row') \<and> status row' = DEAD
        \<and> suspicions row' = suspicions ?row @ map vote_cast vs"
      using u False Cons.prems ready(4)
      by (intro Cons.IH) (auto simp: suspected_def vote_of_def v voter_id_def)
    then obtain t' row' where w: "silos_vote vs peer u = (replicate (length vs - 1) (Inr False) @ [Inr True], t')"
      "invar t'" "rd t' = (rd u)(sid \<mapsto> row')" "status row' = DEAD"
      "suspicions row' = suspicions ?row @ map vote_cast vs" by blast
    then show ?thesis using u(3) first False
      by (intro exI [of _ t'] exI [of _ row'])
        (cases vs; simp add: v suspected_def vote_cast_def)
  qed
qed simp

end

subsection \<open>Properties\<close>

text \<open>
  C3. A death is only ever declared by a quorum: when one vote attempt against the YAML table
  reports a peer dead, whatever other silos wrote in between, then the row it read was dead
  already, or the attempt turned that row DEAD and this silo together with the other silos whose
  fresh votes are on that row reaches the configured number of distinct voters, none of the
  sampled intermediaries vouched for the peer, and the row that was overwritten is exactly the row
  whose votes were counted (unless another writer's etag collided with it). Any other outcome
  declares nothing: it leaves the table as the others left it, or appends this silo's one vote.
\<close>

theorem death_requires_quorum:
  fixes peer :: SiloAddress
  assumes "yaml_ok t" "provider env = yaml_provider sha yaml_dump"
    and "attempt_vote env peer fd t = (r, fd', t')"
  defines "sid \<equiv> silo_id peer" and "t0 \<equiv> interfere env 0 t"
    and "t2 \<equiv> interfere env 2 (interfere env 1 (interfere env 0 t))"
  assumes "\<And>row. yaml_row t0 sid = Some row \<Longrightarrow> etag row \<noteq> None
      \<and> etag row \<notin> etag ` set (mp_written (provider env) (others env 1 @ others env 2) t0)"
  shows "if r = Inr True then
      (\<exists>row. yaml_row t0 sid = Some row
        \<and> (status row = DEAD \<and> t' = t0
           \<or> quorum env fd row \<and> yaml_row t2 sid = Some row
             \<and> (\<exists>snapshot. yaml_read_all (interfere env 1 t0) = Inr snapshot \<and> \<not> vouched env fd peer snapshot)
             \<and> (\<exists>e. yaml_row t' = (yaml_row t2)(sid \<mapsto> declared_dead (vote_of env fd) row e))))
    else \<exists>u \<in> {t0, interfere env 1 t0, t2}. t' = u
      \<or> (\<exists>row e. yaml_row u sid = Some row \<and> yaml_row t' = (yaml_row u)(sid \<mapsto> suspected (vote_of env fd) row e))"
proof -
  have inv: "yaml_ok t0" unfolding t0_def assms(2) using yaml_port.others_invar [OF assms(1)] by blast
  have et: "\<And>row. yaml_row t0 sid = Some row \<Longrightarrow> etag row \<noteq> None" using assms(7) by blast
  show ?thesis
  proof (rule yaml_port.attempt_cases [OF assms(1-3) refl refl refl refl et [unfolded t0_def sid_def assms(2)]],
      goal_cases)
    case (7 row cur snapshot e)
    have row: "yaml_row t0 sid = Some row" using 7(1) by (simp add: t0_def sid_def assms(2))
    have "cur = row"
    proof (rule yaml_port.same_etag_same_row [OF inv row])
      show "etag row \<notin> etag ` set (mp_written (yaml_provider sha yaml_dump) (others env 1 @ others env 2) t0)"
        using assms(7) [OF row] by (simp add: assms(2))
      show "yaml_row (mp_others (yaml_provider sha yaml_dump) (others env 1 @ others env 2) t0) sid = Some cur"
        using 7(8) by (simp add: mp_others_append t0_def sid_def assms(2))
    qed (rule 7(9))
    with 7 show ?case by (auto simp: t2_def t0_def sid_def assms(2))
  qed (auto simp: t2_def t0_def sid_def assms(2))
qed

definition demo_env :: "yaml_file vote_env" where
  "demo_env = \<lparr>provider = yaml_provider (take 1) (\<lambda>_. []), others = (\<lambda>_. []), wall_clock = 5,
     send_request = (\<lambda>_ _ _ _. Inl TransportTimeoutError), sample = (\<lambda>xs k. take k xs)\<rparr>"

definition demo_detector :: "int \<Rightarrow> FailureDetector" where
  "demo_detector n = new_failure_detector silo_b (default_options\<lparr>num_votes_for_death_declaration := n\<rparr>)"

theorem death_requires_quorum_witness:
  "\<exists>t t' row e. yaml_row t (silo_id silo_addr) = Some row \<and> status row = ACTIVE
     \<and> attempt_vote demo_env silo_addr (demo_detector 1) t = (Inr True, demo_detector 1, t')
     \<and> yaml_row t' (silo_id silo_addr) = Some (declared_dead (vote_of demo_env (demo_detector 1)) row e)"
proof -
  obtain e t where t: "yaml_ok t" "yaml_row t = [silo_id silo_addr \<mapsto> demo_row\<lparr>etag := Some e\<rparr>]"
    using demo_table by blast
  let ?row = "demo_row\<lparr>etag := Some e\<rparr>"
  have row: "yaml_row t (silo_id silo_addr) = Some ?row" "status ?row = ACTIVE" "etag ?row \<noteq> None"
    using t(2) by (simp_all add: demo_row_def)
  have prov: "provider demo_env = yaml_provider (take 1) (\<lambda>_. [])" by (simp add: demo_env_def)
  have q: "quorum demo_env (demo_detector 1) ?row"
    by (simp add: quorum_def voters_with_def fresh_distinct_voters_def demo_row_def demo_detector_def
        new_failure_detector_def)
  have enc: "utf8_encode (silo_id silo_addr) = Inr (utf8_bytes (silo_id silo_addr))"
    by (simp add: utf8_encode_def silo_addr_def silo_id_def str_int_def dec.simps valid_cp_def)
  have nv: "silo_id (fd_local (demo_detector 1)) \<notin>
      fresh_distinct_voters (fd_options (demo_detector 1)) ?row (wall_clock demo_env)"
    by (simp add: fresh_distinct_voters_def demo_row_def)
  from yaml_port.attempt_quiet [OF t(1) prov _ refl row(1) _ row(3) nv enc] row(2) q obtain u where
    u: "attempt_vote demo_env silo_addr (demo_detector 1) t = (Inr True, demo_detector 1, u)"
    by (auto simp: demo_env_def)
  have same: "interfere demo_env n v = v" for n v by (simp add: demo_env_def)
  have "\<exists>row. yaml_row t (silo_id silo_addr) = Some row \<and> (status row = DEAD \<and> u = t \<or>
      (\<exists>e. yaml_row u = (yaml_row t)(silo_id silo_addr \<mapsto> declared_dead (vote_of demo_env (demo_detector 1)) row e)))"
    using death_requires_quorum [OF t(1) prov u] row same
    by (auto simp: demo_env_def split: if_split_asm)
  then obtain e' where "yaml_row u (silo_id silo_addr) =
      Some (declared_dead (vote_of demo_env (demo_detector 1)) ?row e')"
    using row(1,2) by auto
  with u row show ?thesis
    by (intro exI [of _ t] exI [of _ u] exI [of _ ?row] exI [of _ e'] conjI)
qed

text \<open>
  C4. A quorum is enough, and nothing less: when as many distinct silos as votes are required each
  take one turn at voting on a suspect within the lifetime of the first vote, and no intermediary
  vouches for it, then every voter but the last reports not dead, the last one reports dead, and
  the suspect's row is DEAD with exactly those votes appended, in order.
\<close>

theorem quorum_reached:
  assumes "yaml_ok t" "yaml_row t (silo_id peer) = Some row" "status row \<noteq> DEAD" "etag row \<noteq> None"
    and "suspicions row = []" "utf8_encode (silo_id peer) = Inr body" "voters \<noteq> []"
    and "list_all (ready_voter (yaml_provider sha yaml_dump) start (int (length voters))) voters"
    and "distinct (map voter_id voters)"
  shows "\<exists>t' row'. silos_vote voters peer t = (replicate (length voters - 1) (Inr False) @ [Inr True], t')
    \<and> yaml_ok t' \<and> yaml_row t' = (yaml_row t)(silo_id peer \<mapsto> row') \<and> status row' = DEAD
    \<and> suspicions row' = map vote_cast voters"
  using yaml_port.silos_vote_round [OF assms(1-4) refl assms(6-8)] assms(5,9) by simp

theorem quorum_reached_witness:
  "\<exists>t t'. yaml_ok t \<and> silos_vote
      [(\<lambda>_. demo_env, demo_detector 2), (\<lambda>_. demo_env, (demo_detector 2)\<lparr>fd_local := silo_a\<rparr>)] silo_addr t
    = ([Inr False, Inr True], t')"
proof -
  obtain e t where t: "yaml_ok t" "yaml_row t = [silo_id silo_addr \<mapsto> demo_row\<lparr>etag := Some e\<rparr>]"
    using demo_table by blast
  let ?vs = "[(\<lambda>_. demo_env, demo_detector 2), (\<lambda>_. demo_env, (demo_detector 2)\<lparr>fd_local := silo_a\<rparr>)]"
  have row: "yaml_row t (silo_id silo_addr) = Some (demo_row\<lparr>etag := Some e\<rparr>)" by (simp add: t(2))
  have enc: "utf8_encode (silo_id silo_addr) = Inr (utf8_bytes (silo_id silo_addr))"
    by (simp add: utf8_encode_def silo_addr_def silo_id_def str_int_def dec.simps valid_cp_def)
  have ready: "list_all (ready_voter (yaml_provider (take 1) (\<lambda>_. [])) 5 (int (length ?vs))) ?vs"
    by (simp add: ready_voter_def demo_env_def demo_detector_def new_failure_detector_def default_options_def)
  have dist: "distinct (map voter_id ?vs)"
    by (simp add: voter_id_def demo_detector_def new_failure_detector_def silo_a_def silo_b_def)
  have "status (demo_row\<lparr>etag := Some e\<rparr>) \<noteq> DEAD" "etag (demo_row\<lparr>etag := Some e\<rparr>) \<noteq> None"
    "suspicions (demo_row\<lparr>etag := Some e\<rparr>) = []" "?vs \<noteq> []" by (simp_all add: demo_row_def)
  from quorum_reached [OF t(1) row this(1-3) enc this(4) ready dist] t(1) show ?thesis by auto
qed

text \<open>What happens to one peer: its probe results, with their voting environments, and disconnects.\<close>

datatype 't health_event = Probed "nat \<Rightarrow> 't vote_env" seconds ProbeResult | Disconnected

fun health_step ::
  "SiloAddress \<Rightarrow> 't health_event \<Rightarrow> FailureDetector \<times> 't \<Rightarrow> FailureDetector \<times> 't" where
  "health_step peer (Probed envs now r) (fd, t) = snd (on_probe_result envs now peer r fd t)"
| "health_step peer Disconnected (fd, t) = (bump_miss_count (silo_id peer) fd, t)"

fun is_miss :: "'t health_event \<Rightarrow> bool" where
  "is_miss (Probed envs now r) = (\<not> probe_ok r)"
| "is_miss Disconnected = True"

text \<open>The number of misses since the last answer.\<close>

definition misses :: "'t health_event list \<Rightarrow> nat" where
  "misses evs = length (takeWhile is_miss (rev evs))"

lemma misses_snoc: "misses (evs @ [ev]) = (if is_miss ev then Suc (misses evs) else 0)"
  by (simp add: misses_def)

lemma peer_health_set [simp]:
  "peer_health sid (set_peer_health sid h fd) = h"
  "fd_options (set_peer_health sid h fd) = fd_options fd"
  by (simp_all add: peer_health_def set_peer_health_def)

lemma health_step_quiet:
  assumes "miss_count (peer_health (silo_id peer) fd) \<le> int n"
    and "is_miss ev \<Longrightarrow> int (Suc n) < num_missed_probes_limit (fd_options fd)"
  shows "\<exists>fd'. health_step peer ev (fd, t) = (fd', t) \<and> fd_options fd' = fd_options fd
    \<and> miss_count (peer_health (silo_id peer) fd') \<le> int (if is_miss ev then Suc n else 0)"
proof (cases ev)
  case (Probed envs now r)
  with assms show ?thesis by (cases "probe_ok r") (auto simp: on_probe_result_def Let_def)
next
  case Disconnected
  with assms show ?thesis by (auto simp: bump_miss_count_def Let_def)
qed

text \<open>
  No vote without consecutive misses: however many probes of a peer fail and however often its
  connection drops, as long as the peer answers before the misses since its last answer reach the
  configured limit, the detector neither reads nor writes the membership table, and the peer's
  miss count never exceeds those misses.
\<close>

theorem no_vote_below_limit:
  assumes "\<And>k. k \<le> length evs \<Longrightarrow> int (misses (take k evs)) < num_missed_probes_limit opts"
  shows "\<exists>fd. fold (health_step peer) evs (new_failure_detector s opts, t) = (fd, t)
    \<and> miss_count (peer_health (silo_id peer) fd) \<le> int (misses evs)"
proof -
  have "\<exists>fd. fold (health_step peer) evs (new_failure_detector s opts, t) = (fd, t)
      \<and> fd_options fd = opts \<and> miss_count (peer_health (silo_id peer) fd) \<le> int (misses evs)"
    using assms
  proof (induction evs rule: rev_induct)
    case Nil
    show ?case by (simp add: new_failure_detector_def peer_health_def new_peer_health_def misses_def)
  next
    case (snoc ev evs)
    have "int (misses (take k evs)) < num_missed_probes_limit opts" if "k \<le> length evs" for k
      using snoc.prems [of k] that by simp
    from snoc.IH [OF this] obtain fd where
      fd: "fold (health_step peer) evs (new_failure_detector s opts, t) = (fd, t)"
      "fd_options fd = opts" "miss_count (peer_health (silo_id peer) fd) \<le> int (misses evs)" by blast
    have "is_miss ev \<Longrightarrow> int (Suc (misses evs)) < num_missed_probes_limit (fd_options fd)"
      using snoc.prems [of "Suc (length evs)"] fd(2) by (simp add: misses_snoc)
    from health_step_quiet [OF fd(3) this, where t = t] fd(1,2) show ?case by (auto simp: misses_snoc)
  qed
  then show ?thesis by blast
qed

theorem no_vote_below_limit_witness:
  "\<exists>fd. fold (health_step silo_addr) [Disconnected, Disconnected] (new_failure_detector silo_b default_options, Absent)
    = (fd, Absent)"
proof -
  have "int (misses (take k [Disconnected, Disconnected :: yaml_file health_event])) < 3" for k
    by (cases k rule: nat.exhaust; simp) (auto simp: misses_def take_Cons' split: if_splits)
  then have "\<And>k. k \<le> length [Disconnected, Disconnected :: yaml_file health_event] \<Longrightarrow>
      int (misses (take k [Disconnected, Disconnected :: yaml_file health_event]))
        < num_missed_probes_limit default_options" by (simp add: default_options_def)
  from no_vote_below_limit [OF this] show ?thesis by blast
qed

text \<open>
  How a vote on a peer ends: over any table and any interference the three table errors of the
  protocol never reach the caller; a stale write is retried on a fresh read, three times at most
  and then given up; an unreachable table suspends the vote at once; and a row that disappeared
  resets the peer's miss count.
\<close>

theorem vote_error_handling:
  fixes envs :: "nat \<Rightarrow> 't vote_env" and peer :: SiloAddress
  defines "attempt \<equiv> (\<lambda>i fd t. attempt_vote (envs i) peer fd t)"
  shows "fst (vote_or_declare envs peer fd t) \<notin> Inl ` {TableStaleError, MembershipUnavailableError, SiloNotFoundError}
    \<and> (attempt 0 fd t = (Inl MembershipUnavailableError, fd1, t1) \<longrightarrow>
        vote_or_declare envs peer fd t = (Inr False, fd1, t1))
    \<and> (attempt 0 fd t = (Inl SiloNotFoundError, fd1, t1) \<longrightarrow>
        vote_or_declare envs peer fd t = (Inr False, reset_miss_count (silo_id peer) fd1, t1))
    \<and> (attempt 0 fd t = (Inl TableStaleError, fd1, t1) \<and> attempt 1 fd1 t1 = (Inr b, fd2, t2) \<longrightarrow>
        vote_or_declare envs peer fd t = (Inr b, fd2, t2))
    \<and> (attempt 0 fd t = (Inl TableStaleError, fd1, t1) \<and> attempt 1 fd1 t1 = (Inl TableStaleError, fd2, t2)
        \<and> attempt 2 fd2 t2 = (Inl TableStaleError, fd3, t3) \<longrightarrow>
        vote_or_declare envs peer fd t = (Inr False, fd3, t3))"
proof -
  have run: "fst (vote_attempts es peer fd t) \<notin> Inl ` {TableStaleError, MembershipUnavailableError, SiloNotFoundError}"
    for es :: "'t vote_env list" and fd t
    by (induction es arbitrary: fd t) (auto split: prod.splits sum.splits)
  have three: "vote_or_declare envs = vote_attempts [envs 0, envs 1, envs 2]"
    by (simp add: vote_or_declare_def MAX_STALE_RETRY_def upt_rec numeral_2_eq_2)
  show ?thesis
    unfolding three attempt_def by (intro conjI impI run) (simp_all add: numeral_2_eq_2)
qed

theorem vote_error_handling_witness:
  "vote_or_declare (\<lambda>_. demo_env\<lparr>provider := (yaml_provider (take 1) (\<lambda>_. []))
       \<lparr>mp_read_all := (\<lambda>_. Inl MembershipUnavailableError)\<rparr>\<rparr>) silo_addr (demo_detector 2) Absent
   = (Inr False, demo_detector 2, Absent)"
proof -
  let ?env = "demo_env\<lparr>provider := (yaml_provider (take 1) (\<lambda>_. []))
       \<lparr>mp_read_all := (\<lambda>_. Inl MembershipUnavailableError)\<rparr>\<rparr>"
  have "attempt_vote ?env silo_addr (demo_detector 2) Absent =
      (Inl MembershipUnavailableError, demo_detector 2, Absent)"
    by (simp add: attempt_vote_def mp_read_silo_def read_silo_def demo_env_def)
  with vote_error_handling [of "\<lambda>_. ?env" silo_addr "demo_detector 2" Absent] show ?thesis by simp
qed

end
