(* ===== verification/MembershipAgent.thy ===== *)
theory MembershipAgent
  imports Voting DirectoryMessages Wire
begin

text \<open>
  \<^verbatim>\<open>pyleans/cluster/membership_agent.py\<close>: the snapshot codec, the dispatcher of the two
  membership messages, and one iteration of each of the three loops. The three tasks are states,
  an iteration is one transition of the agent and the table, and what the agent fires (hooks,
  one-way messages) is a list of events. The failure detector is the model of
  \<open>FailureDetector\<close> and \<open>Voting\<close>; \<open>linked\<close> are the peers the transport is connected to.
\<close>

subsection \<open>Snapshot wire codec\<close>

definition MEMBERSHIP_SNAPSHOT_HEADER :: bytes where
  "MEMBERSHIP_SNAPSHOT_HEADER = utf8_bytes (lit ''pyleans/membership-snapshot/v1'')"

definition silo_to_json :: "SiloInfo \<Rightarrow> json" where
  "silo_to_json s =
     JObj [(lit ''host'', JStr (host (address s))),
           (lit ''port'', JInt (port (address s))),
           (lit ''epoch'', JInt (epoch (address s))),
           (lit ''status'', JStr (status_value (status s))),
           (lit ''last_heartbeat'', JFloat (last_heartbeat s)),
           (lit ''start_time'', JFloat (start_time s)),
           (lit ''cluster_id'', opt_str (cluster_id s)),
           (lit ''gateway_port'', opt_int (gateway_port s)),
           (lit ''version'', JInt (row_version s)),
           (lit ''i_am_alive'', JFloat (i_am_alive s)),
           (lit ''suspicions'', JArr (map vote_to_dict (suspicions s))),
           (lit ''etag'', opt_str (etag s))]"

text \<open>\<^verbatim>\<open>int(raw) if raw is not None else None\<close>\<close>

definition int_or_none :: "json \<Rightarrow> int option result" where
  "int_or_none v = (case v of JNull \<Rightarrow> Inr None | _ \<Rightarrow> res_bind (py_int v) (\<lambda>i. Inr (Some i)))"

definition silo_from_json :: "json \<Rightarrow> SiloInfo result" where
  "silo_from_json obj =
     (case obj of
        JObj f \<Rightarrow>
          res_bind (jfield f (lit ''host'')) (\<lambda>h.
          res_bind (jfield f (lit ''port'')) (\<lambda>p.
          res_bind (py_int p) (\<lambda>p'.
          res_bind (jfield f (lit ''epoch'')) (\<lambda>e.
          res_bind (py_int e) (\<lambda>e'.
          res_bind (jfield f (lit ''status'')) (\<lambda>st.
          res_bind (status_from st) (\<lambda>st'.
          res_bind (votes_from (jget_or f (lit ''suspicions'') (JArr []))) (\<lambda>votes.
          res_bind (jfield f (lit ''last_heartbeat'')) (\<lambda>lh.
          res_bind (py_float lh) (\<lambda>lh'.
          res_bind (jfield f (lit ''start_time'')) (\<lambda>sti.
          res_bind (py_float sti) (\<lambda>sti'.
          res_bind (int_or_none (jget_or f (lit ''gateway_port'') JNull)) (\<lambda>gw.
          res_bind (py_int (jget_or f (lit ''version'') (JInt 0))) (\<lambda>v.
          res_bind (py_float (jget_or f (lit ''i_am_alive'') (JFloat 0))) (\<lambda>alive.
            Inr \<lparr>address = SiloAddress (py_str h) p' e', status = st', last_heartbeat = lh',
                 start_time = sti',
                 cluster_id = optional_str (jget_or f (lit ''cluster_id'') JNull),
                 gateway_port = gw, row_version = v, i_am_alive = alive, suspicions = votes,
                 etag = optional_str (jget_or f (lit ''etag'') JNull)\<rparr>)))))))))))))))
      | _ \<Rightarrow> Inl ValueError)"

definition encode_snapshot :: "MembershipSnapshot \<Rightarrow> bytes" where
  "encode_snapshot snap =
     json_dumps (JObj [(lit ''version'', JInt (version snap)),
                       (lit ''silos'', JArr (map silo_to_json (silos snap)))])"

text \<open>The two \<^verbatim>\<open>except\<close> clauses turn every error into a \<^verbatim>\<open>ValueError\<close>.\<close>

definition decode_snapshot :: "bytes \<Rightarrow> MembershipSnapshot result" where
  "decode_snapshot data =
     (case load_obj data of
        Inl e \<Rightarrow> Inl ValueError
      | Inr f \<Rightarrow>
          (case res_bind (jfield f (lit ''version'')) (\<lambda>v.
                res_bind (py_int v) (\<lambda>v'.
                res_bind (jfield f (lit ''silos'')) (\<lambda>raw.
                res_bind (case raw of JArr xs \<Rightarrow> Inr xs | _ \<Rightarrow> Inl ValueError) (\<lambda>xs.
                res_bind (res_map silo_from_json xs) (\<lambda>ss.
                  Inr \<lparr>version = v', silos = ss\<rparr>))))) of
             Inl e \<Rightarrow> Inl ValueError
           | Inr snap \<Rightarrow> Inr snap))"

definition snapshot_text_ok :: "MembershipSnapshot \<Rightarrow> bool" where
  "snapshot_text_ok snap \<longleftrightarrow> list_all (\<lambda>s. json_ok (silo_to_json s)) (silos snap)"

lemma silo_json_roundtrip: "silo_from_json (silo_to_json s) = Inr s"
proof -
  have opt: "int_or_none (opt_int i) = Inr i" for i
    by (cases i) (simp_all add: int_or_none_def opt_int_def)
  show ?thesis
    by (simp add: silo_from_json_def silo_to_json_def jget_or_def field_simps_json votes_roundtrip opt
        del: list.map)
qed

lemma decode_encode_snapshot:
  assumes "snapshot_text_ok snap"
  shows "decode_snapshot (encode_snapshot snap) = Inr snap"
proof -
  let ?f = "[(lit ''version'', JInt (version snap)), (lit ''silos'', JArr (map silo_to_json (silos snap)))]"
  have "json_ok (JObj ?f)"
    using assms by (simp add: snapshot_text_ok_def list_all_iff field_simps_json valid_cp_def del: list.map)
  then have "load_obj (encode_snapshot snap) = Inr ?f"
    by (simp add: load_obj_def encode_snapshot_def json_loads_dumps)
  moreover have "res_map silo_from_json (map silo_to_json (silos snap)) = Inr (silos snap)"
    by (rule res_map_Inr) (rule silo_json_roundtrip)
  ultimately show ?thesis by (simp add: decode_snapshot_def field_simps_json del: list.map)
qed

subsection \<open>The agent\<close>

datatype task = NotStarted | Running | Finished | Crashed error

datatype agent_event =
    SelfTerminateHook
  | SnapshotHook MembershipSnapshot
  | SnapshotSent SiloAddress bytes bytes

record MembershipAgent =
  detector :: FailureDetector
  running :: bool
  probe_task :: task
  poll_task :: task
  alive_task :: task
  self_terminate_hook :: bool
  snapshot_hook :: bool
  last_snapshot :: "MembershipSnapshot option"

definition new_agent :: "FailureDetector \<Rightarrow> MembershipAgent" where
  "new_agent fd =
     \<lparr>detector = fd, running = False, probe_task = NotStarted, poll_task = NotStarted,
      alive_task = NotStarted, self_terminate_hook = False, snapshot_hook = False, last_snapshot = None\<rparr>"

definition on_self_terminate :: "MembershipAgent \<Rightarrow> MembershipAgent" where
  "on_self_terminate a = a\<lparr>self_terminate_hook := True\<rparr>"

definition on_snapshot_received :: "MembershipAgent \<Rightarrow> MembershipAgent" where
  "on_snapshot_received a = a\<lparr>snapshot_hook := True\<rparr>"

definition agent_start :: "MembershipAgent \<Rightarrow> unit result \<times> MembershipAgent" where
  "agent_start a =
     (if running a then (Inl RuntimeError, a)
      else (Inr (), a\<lparr>running := True, probe_task := Running, poll_task := Running, alive_task := Running\<rparr>))"

definition agent_stop :: "MembershipAgent \<Rightarrow> MembershipAgent" where
  "agent_stop a =
     a\<lparr>running := False, probe_task := NotStarted, poll_task := NotStarted, alive_task := NotStarted\<rparr>"

definition own_row_is_dead :: "SiloAddress \<Rightarrow> MembershipSnapshot \<Rightarrow> bool" where
  "own_row_is_dead me snap \<longleftrightarrow> (\<exists>s \<in> set (silos snap). address s = me \<and> status s = DEAD)"

abbreviation agent_silo :: "MembershipAgent \<Rightarrow> SiloAddress" where
  "agent_silo a \<equiv> fd_local (detector a)"

definition self_terminate :: "MembershipAgent \<Rightarrow> MembershipAgent \<times> agent_event list" where
  "self_terminate a = (a\<lparr>running := False\<rparr>, if self_terminate_hook a then [SelfTerminateHook] else [])"

definition apply_snapshot :: "MembershipSnapshot \<Rightarrow> MembershipAgent \<Rightarrow> MembershipAgent \<times> agent_event list" where
  "apply_snapshot snap a =
     (if (case last_snapshot a of None \<Rightarrow> False | Some old \<Rightarrow> version snap < version old) then (a, [])
      else let a' = a\<lparr>last_snapshot := Some snap\<rparr>;
               fired = (if snapshot_hook a then [SnapshotHook snap] else [])
           in if own_row_is_dead (agent_silo a) snap
              then (case self_terminate a' of (a'', more_events) \<Rightarrow> (a'', fired @ more_events))
              else (a', fired))"

definition agent_message_handler ::
  "ping \<Rightarrow> TransportMessage \<Rightarrow> MembershipAgent
   \<Rightarrow> TransportMessage option result \<times> MembershipAgent \<times> agent_event list" where
  "agent_message_handler ping msg a =
     (if msg_header msg = INDIRECT_PROBE_HEADER \<and> message_type msg = REQUEST then
        (case handle_indirect_probe_request ping (msg_body msg) (detector a) of
           (Inl e, fd) \<Rightarrow> (Inl e, a\<lparr>detector := fd\<rparr>, [])
         | (Inr body, fd) \<Rightarrow>
             (Inr (Some \<lparr>message_type = RESPONSE, correlation_id = correlation_id msg,
                         msg_header = INDIRECT_PROBE_HEADER, msg_body = body\<rparr>), a\<lparr>detector := fd\<rparr>, []))
      else if msg_header msg = MEMBERSHIP_SNAPSHOT_HEADER \<and> message_type msg = ONE_WAY then
        (case decode_snapshot (msg_body msg) of
           Inl e \<Rightarrow> if is_value_error e then (Inr None, a, []) else (Inl e, a, [])
         | Inr snap \<Rightarrow> (case apply_snapshot snap a of (a', fired) \<Rightarrow> (Inr None, a', fired)))
      else (Inr None, a, []))"

definition on_peer_disconnect :: "SiloAddress \<Rightarrow> MembershipAgent \<Rightarrow> MembershipAgent" where
  "on_peer_disconnect peer a = a\<lparr>detector := bump_miss_count (silo_id peer) (detector a)\<rparr>"

subsection \<open>Reads and broadcasts\<close>

definition safe_read_all :: "'t MembershipProvider \<Rightarrow> 't \<Rightarrow> MembershipSnapshot option result" where
  "safe_read_all p t =
     (case mp_read_all p t of
        Inr snap \<Rightarrow> Inr (Some snap)
      | Inl e \<Rightarrow> if e = MembershipUnavailableError then Inr None else Inl e)"

text \<open>A send that fails is logged; the other peers are served all the same.\<close>

definition broadcast_snapshot ::
  "'t MembershipProvider \<Rightarrow> SiloAddress list \<Rightarrow> 't \<Rightarrow> MembershipAgent
   \<Rightarrow> unit result \<times> MembershipAgent \<times> agent_event list" where
  "broadcast_snapshot p linked t a =
     (case safe_read_all p t of
        Inl e \<Rightarrow> (Inl e, a, [])
      | Inr None \<Rightarrow> (Inr (), a, [])
      | Inr (Some snap) \<Rightarrow>
          (Inr (), a\<lparr>last_snapshot := Some snap\<rparr>,
           map (\<lambda>peer. SnapshotSent peer MEMBERSHIP_SNAPSHOT_HEADER (encode_snapshot snap))
             (filter (\<lambda>peer. peer \<noteq> agent_silo a) linked)))"

subsection \<open>The probe loop\<close>

text \<open>
  What surrounds one cycle: the pings, the order in which they complete, the environments of the
  votes, the clock, the calls other silos make before the broadcast reads, and the connected peers.
\<close>

record 't cycle_env =
  ce_ping :: ping
  ce_completed :: "SiloAddress list"
  ce_votes :: "SiloAddress \<Rightarrow> nat \<Rightarrow> 't vote_env"
  ce_clock :: "SiloAddress \<Rightarrow> seconds"
  ce_meanwhile :: "mem_op list"
  ce_connected :: "SiloAddress list"

text \<open>All probes are sent before the first one completes.\<close>

definition probe_all :: "'t cycle_env \<Rightarrow> SiloAddress list \<Rightarrow> FailureDetector
    \<Rightarrow> (SiloAddress \<times> ProbeResult result) list \<times> FailureDetector" where
  "probe_all env targets fd =
     (let answer = (\<lambda>peer. ce_ping env peer (adjusted_probe_timeout (self_monitor fd)))
      in (map (\<lambda>peer. (peer, fst (ping_outcome (answer peer) fd))) targets,
          fold (\<lambda>peer d. snd (ping_outcome (answer peer) d)) (ce_completed env) fd))"

fun feed_results ::
  "'t cycle_env \<Rightarrow> (SiloAddress \<times> ProbeResult result) list \<Rightarrow> bool \<Rightarrow> FailureDetector \<Rightarrow> 't
   \<Rightarrow> bool result \<times> FailureDetector \<times> 't" where
  "feed_results env [] any_declared fd t = (Inr any_declared, fd, t)"
| "feed_results env ((peer, raw) # rs) any_declared fd t =
     (case on_probe_result (ce_votes env peer) (ce_clock env peer) peer
             (case raw of Inl e \<Rightarrow> ProbeResult False 0 (Some e) | Inr r \<Rightarrow> r) fd t of
        (Inl e, fd', t') \<Rightarrow> (Inl e, fd', t')
      | (Inr declared, fd', t') \<Rightarrow> feed_results env rs (any_declared \<or> declared) fd' t')"

definition do_probe_cycle ::
  "(bytes \<Rightarrow> bytes) \<Rightarrow> 't MembershipProvider \<Rightarrow> 't cycle_env \<Rightarrow> MembershipAgent \<Rightarrow> 't
   \<Rightarrow> unit result \<times> MembershipAgent \<times> 't \<times> agent_event list" where
  "do_probe_cycle sha p env a t =
     (case safe_read_all p t of
        Inl e \<Rightarrow> (Inl e, a, t, [])
      | Inr None \<Rightarrow> (Inr (), a, t, [])
      | Inr (Some snap) \<Rightarrow>
          let a1 = a\<lparr>last_snapshot := Some snap\<rparr>
          in if own_row_is_dead (agent_silo a) snap
             then (case self_terminate a1 of (a2, fired) \<Rightarrow> (Inr (), a2, t, fired))
             else
               let targets = probe_targets sha (detector a) snap
               in if targets = [] then (Inr (), a1, t, [])
                  else
                    (case probe_all env targets (detector a) of
                       (results, fd1) \<Rightarrow>
                         (case feed_results env results False fd1 t of
                            (Inl e, fd2, t2) \<Rightarrow> (Inl e, a1\<lparr>detector := fd2\<rparr>, t2, [])
                          | (Inr declared, fd2, t2) \<Rightarrow>
                              let a2 = a1\<lparr>detector := fd2\<rparr>
                              in if \<not> declared then (Inr (), a2, t2, [])
                                 else let t3 = mp_others p (ce_meanwhile env) t2
                                      in (case broadcast_snapshot p (ce_connected env) t3 a2 of
                                            (r, a3, sent) \<Rightarrow> (r, a3, t3, sent)))))"

text \<open>\<^verbatim>\<open>_sleep_with_drift\<close>: the loop clock when the sleep starts and when it returns.\<close>

definition sleep_with_drift :: "seconds \<Rightarrow> seconds \<Rightarrow> seconds \<Rightarrow> MembershipAgent \<Rightarrow> MembershipAgent" where
  "sleep_with_drift interval began ended a =
     a\<lparr>detector := (detector a)\<lparr>self_monitor :=
         record_loop_drift (max 0 (ended - (began + interval))) (self_monitor (detector a))\<rparr>\<rparr>"

text \<open>One turn of the loop, from the test of its condition to the next; whatever a cycle raises is logged.\<close>

definition probe_iteration ::
  "(bytes \<Rightarrow> bytes) \<Rightarrow> 't MembershipProvider \<Rightarrow> 't cycle_env \<Rightarrow> seconds \<Rightarrow> seconds \<Rightarrow> MembershipAgent \<Rightarrow> 't
   \<Rightarrow> MembershipAgent \<times> 't \<times> agent_event list" where
  "probe_iteration sha p env began ended a t =
     (if \<not> running a then (a\<lparr>probe_task := Finished\<rparr>, t, [])
      else (case do_probe_cycle sha p env a t of
              (_, a1, t1, fired) \<Rightarrow>
                if \<not> running a1 then (a1\<lparr>probe_task := Finished\<rparr>, t1, fired)
                else (sleep_with_drift (probe_timeout (fd_options (detector a1))) began ended a1, t1, fired)))"

subsection \<open>The table poll loop\<close>

text \<open>Nothing catches what a read raises besides \<^verbatim>\<open>MembershipUnavailableError\<close>.\<close>

definition poll_iteration ::
  "'t MembershipProvider \<Rightarrow> 't \<Rightarrow> MembershipAgent \<Rightarrow> MembershipAgent \<times> agent_event list" where
  "poll_iteration p t a =
     (if \<not> running a then (a\<lparr>poll_task := Finished\<rparr>, [])
      else (case safe_read_all p t of
              Inl e \<Rightarrow> (a\<lparr>poll_task := Crashed e\<rparr>, [])
            | Inr None \<Rightarrow> (a, [])
            | Inr (Some snap) \<Rightarrow>
                let a1 = a\<lparr>last_snapshot := Some snap\<rparr>
                in if own_row_is_dead (agent_silo a) snap
                   then (case self_terminate a1 of (a2, fired) \<Rightarrow> (a2\<lparr>poll_task := Finished\<rparr>, fired))
                   else (a1, [])))"

subsection \<open>The heartbeat loop\<close>

text \<open>\<open>between\<close> and \<open>meanwhile\<close>: other silos' calls before the write and before the broadcast reads.\<close>

definition write_i_am_alive ::
  "'t MembershipProvider \<Rightarrow> seconds \<Rightarrow> mem_op list \<Rightarrow> mem_op list \<Rightarrow> SiloAddress list \<Rightarrow> MembershipAgent \<Rightarrow> 't
   \<Rightarrow> unit result \<times> MembershipAgent \<times> 't \<times> agent_event list" where
  "write_i_am_alive p now between meanwhile linked a t =
     (case mp_read_silo p (silo_id (agent_silo a)) t of
        Inl e \<Rightarrow> (if e = MembershipUnavailableError then Inr () else Inl e, a, t, [])
      | Inr None \<Rightarrow> (Inr (), a, t, [])
      | Inr (Some own_row) \<Rightarrow>
          let updated = with_replacements own_row (\<lambda>r. r\<lparr>i_am_alive := now, last_heartbeat := now\<rparr>);
              t1 = mp_others p between t
          in (case mp_try_update p updated t1 of
                (Inl e, t2) \<Rightarrow>
                  (if e = TableStaleError \<or> e = MembershipUnavailableError then Inr () else Inl e, a, t2, [])
              | (Inr _, t2) \<Rightarrow>
                  let t3 = mp_others p meanwhile t2
                  in (case broadcast_snapshot p linked t3 a of (r, a1, sent) \<Rightarrow> (r, a1, t3, sent))))"

definition alive_iteration ::
  "'t MembershipProvider \<Rightarrow> seconds \<Rightarrow> mem_op list \<Rightarrow> mem_op list \<Rightarrow> SiloAddress list \<Rightarrow> MembershipAgent \<Rightarrow> 't
   \<Rightarrow> MembershipAgent \<times> 't \<times> agent_event list" where
  "alive_iteration p now between meanwhile linked a t =
     (if \<not> running a then (a\<lparr>alive_task := Finished\<rparr>, t, [])
      else (case write_i_am_alive p now between meanwhile linked a t of
              (_, a1, t1, sent) \<Rightarrow>
                if \<not> running a1 then (a1\<lparr>alive_task := Finished\<rparr>, t1, sent) else (a1, t1, sent)))"

subsection \<open>Agents over a provider that honours the contract\<close>

context membership_provider
begin

text \<open>An agent sees its own row.\<close>

lemma sees_own_row:
  assumes "invar t" "mp_read_all p t = Inr snap" "rd t (silo_id me) = Some row"
  shows "status row = DEAD \<Longrightarrow> own_row_is_dead me snap"
proof -
  from read_rows [OF assms(1)] assms(2,3) have f: "find_silo (silos snap) (silo_id me) = Some row" by simp
  have "row \<in> set (silos snap)" "address row = me"
    using find_silo_in [OF f] find_silo_id [OF f] by simp_all
  then show "status row = DEAD \<Longrightarrow> own_row_is_dead me snap" by (auto simp: own_row_is_dead_def)
qed

text \<open>A heartbeat that gets through rewrites the row it read, times and etag only.\<close>

lemma heartbeat_cases:
  assumes "invar t" "write_i_am_alive p now between meanwhile linked a t = (r, a', t', sent)"
    and "\<And>row. rd t (silo_id (agent_silo a)) = Some row \<Longrightarrow> etag row \<noteq> None
      \<and> etag row \<notin> etag ` set (mp_written p between t)"
  obtains (skipped) "rd t (silo_id (agent_silo a)) = None" "t' = t" "a' = a" "sent = []"
  | (refused) s e where "mp_try_update p s (mp_others p between t) = (Inl e, mp_others p between t)"
      "t' = mp_others p between t" "a' = a" "sent = []"
  | (written) row e u where "rd t (silo_id (agent_silo a)) = Some row"
      "rd (mp_others p between t) (silo_id (agent_silo a)) = Some row"
      "rd u = (rd (mp_others p between t))(silo_id (agent_silo a) \<mapsto>
         row\<lparr>i_am_alive := now, last_heartbeat := now, etag := Some e\<rparr>)"
      "t' = mp_others p meanwhile u" "invar u"
proof -
  let ?sid = "silo_id (agent_silo a)"
  let ?t1 = "mp_others p between t"
  have inv: "invar ?t1" using others_invar [OF assms(1)] by blast
  note run = assms(2) [unfolded write_i_am_alive_def read_silo_rd [OF assms(1)]]
  show thesis
  proof (cases "rd t ?sid")
    case None
    from run skipped [OF None] show thesis unfolding None by simp
  next
    case (Some row)
    let ?s = "row\<lparr>i_am_alive := now, last_heartbeat := now\<rparr>"
    have sid: "silo_id (address ?s) = ?sid" and st: "stored ?s = ?s"
      using rd_address [OF assms(1) Some] rows_stored [OF assms(1) Some] by (simp_all add: stored_id)
    obtain ret u where w: "mp_try_update p ?s ?t1 = (ret, u)" by fastforce
    show thesis
    proof (cases ret)
      case (Inl e)
      have "mem_step (mp_try_update p) (mp_try_delete p) (mp_try_add_suspicion p) (TryUpdate ?s) ?t1 = (Inl e, u)"
        using w Inl by simp
      from step_cases [OF inv this] have "u = ?t1" by simp
      with run w Inl have "t' = ?t1" "a' = a" "sent = []"
        unfolding Some by (simp_all add: with_replacements_def Let_def)
      moreover have "mp_try_update p ?s ?t1 = (Inl e, ?t1)" using w Inl \<open>u = ?t1\<close> by simp
      ultimately show thesis by (rule refused [rotated])
    next
      case (Inr s')
      obtain cur where cur: "rd ?t1 ?sid = Some cur" "etag cur = etag row"
      proof (cases "rd ?t1 ?sid")
        case None
        with upd_missing [OF inv, of ?s] sid assms(3) [OF Some] w Inr show thesis by simp
      next
        case (Some c)
        with upd_stale [OF inv, of ?s c] sid w Inr that show thesis by fastforce
      qed
      have same: "cur = row"
        using same_etag_same_row [OF assms(1) Some _ cur] assms(3) [OF Some] by blast
      have "Some cur = None \<and> etag ?s = None \<or> (\<exists>r. Some cur = Some r \<and> etag r = etag ?s)"
        using cur by simp
      from upd_ok [OF inv _ this] sid cur(1) w st obtain e where
        "rd u = (rd ?t1)(?sid \<mapsto> ?s\<lparr>etag := Some e\<rparr>)" "invar u" by auto
      then show thesis
        using run w Inr written [OF Some _ _ _ \<open>invar u\<close>] cur(1) same unfolding Some
        by (simp add: with_replacements_def Let_def split: prod.splits)
    qed
  qed
qed

end

subsection \<open>Properties\<close>

text \<open>
  The snapshot broadcast is lossless and its receiver is robust: a snapshot of Unicode text and
  finite times decodes from its bytes to itself, every field of every row included; bytes that do
  not decode are a \<^verbatim>\<open>ValueError\<close> and leave the receiving agent as it was; and an agent
  accepts an older version never, so whatever is broadcast in whatever order, the version of the
  snapshot an agent holds does not decrease.
\<close>

theorem snapshot_broadcast:
  assumes "message_type msg = ONE_WAY" "msg_header msg = MEMBERSHIP_SNAPSHOT_HEADER"
    and "agent_message_handler ping msg a = (r, a', fired)"
  shows "(snapshot_text_ok snap \<longrightarrow> decode_snapshot (encode_snapshot snap) = Inr snap)
    \<and> decode_snapshot (msg_body msg) \<in> insert (Inl ValueError) (range Inr)
    \<and> (decode_snapshot (msg_body msg) = Inl ValueError \<longrightarrow> a' = a \<and> fired = [] \<and> r = Inr None)
    \<and> (\<forall>old. last_snapshot a = Some old \<longrightarrow>
        (\<exists>new. last_snapshot a' = Some new \<and> version old \<le> version new))"
proof -
  have h: "MEMBERSHIP_SNAPSHOT_HEADER \<noteq> INDIRECT_PROBE_HEADER"
    by (simp add: MEMBERSHIP_SNAPSHOT_HEADER_def INDIRECT_PROBE_HEADER_def utf8_bytes_def utf8_enc1_def)
  have d: "decode_snapshot b \<in> insert (Inl ValueError) (range Inr)" for b
    by (auto simp: decode_snapshot_def split: sum.split)
  have run: "(r, a', fired) = (case decode_snapshot (msg_body msg) of
      Inl e \<Rightarrow> if is_value_error e then (Inr None, a, []) else (Inl e, a, [])
    | Inr snap \<Rightarrow> (case apply_snapshot snap a of (a', fired) \<Rightarrow> (Inr None, a', fired)))"
    using assms h by (simp add: agent_message_handler_def)
  have bad: "a' = a \<and> fired = [] \<and> r = Inr None" if "decode_snapshot (msg_body msg) = Inl ValueError"
    using run that by simp
  have "\<exists>new. last_snapshot a' = Some new \<and> version old \<le> version new" if "last_snapshot a = Some old" for old
  proof (cases "decode_snapshot (msg_body msg)")
    case (Inl e)
    with d [of "msg_body msg"] bad that show ?thesis by auto
  next
    case (Inr snap)
    with run that show ?thesis
      by (cases "version snap < version old")
        (auto simp: apply_snapshot_def self_terminate_def Let_def split: prod.splits if_split_asm)
  qed
  with d bad decode_encode_snapshot show ?thesis by blast
qed

theorem snapshot_broadcast_witness:
  "decode_snapshot (encode_snapshot \<lparr>version = 4, silos = [demo_row]\<rparr>) = Inr \<lparr>version = 4, silos = [demo_row]\<rparr>"
proof -
  let ?snap = "\<lparr>version = 4, silos = [demo_row]\<rparr>"
  let ?msg = "\<lparr>message_type = ONE_WAY, correlation_id = 0, msg_header = MEMBERSHIP_SNAPSHOT_HEADER,
    msg_body = []\<rparr>"
  let ?a = "new_agent (demo_detector 2)"
  obtain r a' fired where "agent_message_handler (\<lambda>_ _. Inr 1) ?msg ?a = (r, a', fired)"
    by (cases "agent_message_handler (\<lambda>_ _. Inr 1) ?msg ?a") auto
  moreover have "has_decimals 1074 3" "has_decimals 1074 0"
    by (rule has_decimals_mono [of 0], simp_all add: has_decimals_def [of 0])+
  then have "snapshot_text_ok ?snap"
    by (simp add: snapshot_text_ok_def silo_to_json_def demo_row_def silo_addr_def opt_str_def opt_int_def
        valid_cp_def field_simps_json del: list.map)
  ultimately show ?thesis using snapshot_broadcast [of ?msg "\<lambda>_ _. Inr 1" ?a r a' fired ?snap] by simp
qed



text \<open>
  A heartbeat never revives a silo: whatever other silos wrote while the heartbeat was under
  way, the write goes through only onto exactly the row that was read, and then changes that row's
  two times and its etag; the status and the suspicions that others recorded stay, so a row that
  became DEAD in between makes the heartbeat fail as stale, and the error is not raised.
\<close>

theorem heartbeat_keeps_status:
  fixes a :: MembershipAgent and between :: "mem_op list" and sha :: "bytes \<Rightarrow> bytes"
    and yaml_dump :: "json \<Rightarrow> pystr"
  assumes "yaml_ok t"
    and "write_i_am_alive (yaml_provider sha yaml_dump) now between [] linked a t = (r, a', t', sent)"
    and "\<forall>row. yaml_row t (silo_id (agent_silo a)) = Some row \<longrightarrow> etag row \<noteq> None
      \<and> etag row \<notin> etag ` set (mp_written (yaml_provider sha yaml_dump) between t)"
  defines "t1 \<equiv> mp_others (yaml_provider sha yaml_dump) between t"
  shows "(t' = t \<or> t' = t1
      \<or> (\<exists>row e. yaml_row t1 (silo_id (agent_silo a)) = Some row
           \<and> yaml_row t (silo_id (agent_silo a)) = Some row
           \<and> yaml_row t' = (yaml_row t1)(silo_id (agent_silo a) \<mapsto>
               row\<lparr>i_am_alive := now, last_heartbeat := now, etag := Some e\<rparr>)))
    \<and> (\<forall>row1. yaml_row t1 (silo_id (agent_silo a)) = Some row1 \<and> status row1 = DEAD
        \<and> t' \<noteq> t \<longrightarrow> (\<exists>row'. yaml_row t' (silo_id (agent_silo a)) = Some row' \<and> status row' = DEAD))"
proof (rule yaml_port.heartbeat_cases [OF assms(1,2)], goal_cases)
  case (1 row)
  then show ?case using assms(3) by blast
next
  case 2
  then show ?case by simp
next
  case (3 s e)
  then show ?case by (auto simp: t1_def)
next
  case (4 row e u)
  then show ?case by (auto simp: t1_def)
qed

theorem heartbeat_keeps_status_witness:
  "\<exists>t a r a' t' sent. yaml_row t (silo_id (agent_silo a)) \<noteq> None
     \<and> write_i_am_alive (yaml_provider (take 1) (\<lambda>_. [])) 9 [] [] [] a t = (r, a', t', sent)
     \<and> (t' = t \<or> (\<exists>row e. yaml_row t' (silo_id (agent_silo a)) = Some (row\<lparr>i_am_alive := 9, last_heartbeat := 9, etag := Some e\<rparr>)))"
proof -
  obtain e t where t: "yaml_ok t" "yaml_row t = [silo_id silo_addr \<mapsto> demo_row\<lparr>etag := Some e\<rparr>]"
    using demo_table by blast
  let ?p = "yaml_provider (take 1) (\<lambda>_. [])"
  let ?a = "new_agent (new_failure_detector silo_addr default_options)"
  obtain r a' t' sent where w: "write_i_am_alive ?p 9 [] [] [] ?a t = (r, a', t', sent)"
    by (cases "write_i_am_alive ?p 9 [] [] [] ?a t") auto
  have row: "yaml_row t (silo_id (agent_silo ?a)) = Some (demo_row\<lparr>etag := Some e\<rparr>)"
    by (simp add: t(2) new_agent_def new_failure_detector_def)
  then have "\<forall>x. yaml_row t (silo_id (agent_silo ?a)) = Some x \<longrightarrow> etag x \<noteq> None
      \<and> etag x \<notin> etag ` set (mp_written ?p [] t)" by simp
  from conjunct1 [OF heartbeat_keeps_status [OF t(1) w this]]
  have "t' = t \<or> (\<exists>row e. yaml_row t' (silo_id (agent_silo ?a)) = Some (row\<lparr>i_am_alive := 9, last_heartbeat := 9, etag := Some e\<rparr>))"
  proof (elim disjE exE conjE)
    fix q e' assume "yaml_row t' = (yaml_row (mp_others ?p [] t))(silo_id (agent_silo ?a) \<mapsto>
        q\<lparr>i_am_alive := 9, last_heartbeat := 9, etag := Some e'\<rparr>)"
    then have "yaml_row t' (silo_id (agent_silo ?a)) =
        Some (q\<lparr>i_am_alive := 9, last_heartbeat := 9, etag := Some e'\<rparr>)" by (simp only: fun_upd_same)
    then show ?thesis by blast
  qed (simp_all only: mp_others_Nil simp_thms)
  with w row show ?thesis by blast
qed

end
