(* ===== verification/Pending.thy ===== *)
theory Pending
  imports Wire
begin

text \<open>
  \<^verbatim>\<open>pyleans/transport/tcp/pending.py\<close>: the table that pairs responses with requests.
  A future is its index in the list of all futures the table ever created, with its state; the
  caller may cancel a future at any time. A timer is the delay it was armed with; \<open>Expire\<close> is
  the event loop firing it.
\<close>

datatype fstate = Waiting | Result "bytes \<times> bytes" | Exn error | Cancelled

record PendingRequests =
  default_timeout :: seconds
  next_id :: int
  pend :: "(int, nat) dict"
  timers :: "(int, seconds) dict"
  futures :: "fstate list"

definition new_pending :: "seconds \<Rightarrow> PendingRequests" where
  "new_pending t = \<lparr>default_timeout = t, next_id = 1, pend = [], timers = [], futures = []\<rparr>"

definition pending_len :: "PendingRequests \<Rightarrow> nat" where
  "pending_len p = length (pend p)"

definition advance_next_id :: "int \<Rightarrow> int" where
  "advance_next_id n = (if n + 1 > UINT64_MAX then 1 else n + 1)"

definition allocate :: "seconds option \<Rightarrow> PendingRequests \<Rightarrow> (int \<times> nat) \<times> PendingRequests" where
  "allocate timeout p =
     (let cid = next_id p; fut = length (futures p);
          resolved = (case timeout of None \<Rightarrow> default_timeout p | Some t \<Rightarrow> t)
      in ((cid, fut),
          p\<lparr>next_id := advance_next_id (next_id p), futures := futures p @ [Waiting],
            pend := dset (pend p) cid fut,
            timers := (if resolved > 0 then dset (timers p) cid resolved else timers p)\<rparr>))"

definition cancel_timeout :: "int \<Rightarrow> PendingRequests \<Rightarrow> PendingRequests" where
  "cancel_timeout cid p = p\<lparr>timers := dpop (timers p) cid\<rparr>"

text \<open>\<^verbatim>\<open>if not future.done(): future.set_...\<close>\<close>

definition settle :: "nat \<Rightarrow> fstate \<Rightarrow> fstate list \<Rightarrow> fstate list" where
  "settle f v fs = (if f < length fs \<and> fs ! f = Waiting then fs[f := v] else fs)"

definition pop_and_settle :: "int \<Rightarrow> fstate \<Rightarrow> PendingRequests \<Rightarrow> PendingRequests" where
  "pop_and_settle cid v p =
     (case dget (pend p) cid of
        None \<Rightarrow> p
      | Some f \<Rightarrow> p\<lparr>pend := dpop (pend p) cid, futures := settle f v (futures p)\<rparr>)"

definition complete :: "int \<Rightarrow> bytes \<times> bytes \<Rightarrow> PendingRequests \<Rightarrow> PendingRequests" where
  "complete cid r p = pop_and_settle cid (Result r) (cancel_timeout cid p)"

definition fail :: "int \<Rightarrow> error \<Rightarrow> PendingRequests \<Rightarrow> PendingRequests" where
  "fail cid e p = pop_and_settle cid (Exn e) (cancel_timeout cid p)"

definition fail_all :: "error \<Rightarrow> PendingRequests \<Rightarrow> PendingRequests" where
  "fail_all e p =
     p\<lparr>pend := [], timers := [], futures := fold (\<lambda>(_, f) fs. settle f (Exn e) fs) (pend p) (futures p)\<rparr>"

definition discard :: "int \<Rightarrow> PendingRequests \<Rightarrow> PendingRequests" where
  "discard cid p = (let p = cancel_timeout cid p in p\<lparr>pend := dpop (pend p) cid\<rparr>)"

definition expire :: "int \<Rightarrow> PendingRequests \<Rightarrow> PendingRequests" where
  "expire cid p = pop_and_settle cid (Exn TransportTimeoutError) (cancel_timeout cid p)"

text \<open>What can happen to a table.\<close>

datatype pending_op =
    Allocate "seconds option"
  | Complete int "bytes \<times> bytes"
  | Fail int error
  | FailAll error
  | Discard int
  | Expire int
  | CancelFuture nat

fun pending_step :: "pending_op \<Rightarrow> PendingRequests \<Rightarrow> PendingRequests" where
  "pending_step (Allocate t) p = snd (allocate t p)"
| "pending_step (Complete cid r) p = complete cid r p"
| "pending_step (Fail cid e) p = fail cid e p"
| "pending_step (FailAll e) p = fail_all e p"
| "pending_step (Discard cid) p = discard cid p"
| "pending_step (Expire cid) p = expire cid p"
| "pending_step (CancelFuture f) p = p\<lparr>futures := settle f Cancelled (futures p)\<rparr>"

definition pending_run :: "pending_op list \<Rightarrow> PendingRequests \<Rightarrow> PendingRequests" where
  "pending_run ops p = fold pending_step ops p"

definition allocations :: "pending_op list \<Rightarrow> nat" where
  "allocations ops = length (filter (\<lambda>op. case op of Allocate _ \<Rightarrow> True | _ \<Rightarrow> False) ops)"

definition discards :: "pending_op list \<Rightarrow> int set" where
  "discards ops = {cid. Discard cid \<in> set ops}"

subsection \<open>A future is settled at most once\<close>

lemma settle_done: "f < length fs \<Longrightarrow> fs ! f \<noteq> Waiting \<Longrightarrow> settle g v fs ! f = fs ! f"
  by (auto simp: settle_def nth_list_update)

lemma length_settle [simp]: "length (settle f v fs) = length fs"
  by (simp add: settle_def)

lemma length_fold_settle [simp]: "length (fold (\<lambda>(_, f) fs. settle f v fs) xs fs) = length fs"
  by (induction xs arbitrary: fs) (auto simp: split_beta)

lemma fold_settle_done:
  "f < length fs \<Longrightarrow> fs ! f \<noteq> Waiting \<Longrightarrow> fold (\<lambda>(_, f) fs. settle f v fs) xs fs ! f = fs ! f"
  by (induction xs arbitrary: fs) (auto simp: split_beta settle_done)

lemmas key_images = keys_dset [unfolded set_map] keys_dpop [unfolded set_map]

lemma fold_settle_all:
  "f < length fs \<Longrightarrow> f \<in> snd ` set xs \<Longrightarrow> v \<noteq> Waiting \<Longrightarrow>
   fold (\<lambda>(_, f) fs. settle f v fs) xs fs ! f \<noteq> Waiting"
proof (induction xs arbitrary: fs)
  case (Cons x xs)
  show ?case
  proof (cases "settle (snd x) v fs ! f = Waiting")
    case True
    then have "f \<noteq> snd x" using Cons.prems by (auto simp: settle_def split: if_splits)
    with Cons show ?thesis by (auto simp: split_beta)
  next
    case False
    with Cons.prems fold_settle_done [of f "settle (snd x) v fs" v xs] show ?thesis
      by (cases x) simp
  qed
qed simp

lemma pending_step_done:
  "f < length (futures p) \<Longrightarrow> futures p ! f \<noteq> Waiting \<Longrightarrow>
   f < length (futures (pending_step op p)) \<and> futures (pending_step op p) ! f = futures p ! f"
  by (cases op)
    (auto simp: allocate_def Let_def nth_append complete_def fail_def expire_def discard_def fail_all_def
      cancel_timeout_def pop_and_settle_def settle_done fold_settle_done split: option.split)

lemma pending_run_done:
  "f < length (futures p) \<Longrightarrow> futures p ! f \<noteq> Waiting \<Longrightarrow> futures (pending_run ops p) ! f = futures p ! f"
proof (induction ops arbitrary: p)
  case (Cons op ops)
  with pending_step_done [OF Cons.prems, of op] show ?case by (simp add: pending_run_def)
qed (simp add: pending_run_def)

subsection \<open>The table knows every waiting future\<close>

definition pending_inv :: "PendingRequests \<Rightarrow> int set \<Rightarrow> bool" where
  "pending_inv p D \<longleftrightarrow>
     next_id p = int (length (futures p)) + 1 \<and> dict_ok (pend p) \<and> dict_ok (timers p)
     \<and> set (dkeys (timers p)) \<subseteq> set (dkeys (pend p))
     \<and> (\<forall>cid f. dget (pend p) cid = Some f \<longrightarrow> cid = int f + 1 \<and> f < length (futures p))
     \<and> (\<forall>f < length (futures p). futures p ! f = Waiting \<longrightarrow>
          int f + 1 \<in> D \<or> dget (pend p) (int f + 1) = Some f)"

lemma pending_inv_new: "pending_inv (new_pending t) D"
  by (simp add: pending_inv_def new_pending_def)

lemma pending_inv_pop_settle:
  assumes inv: "pending_inv p D" and v: "v \<noteq> Waiting"
  shows "pending_inv (pop_and_settle cid v (cancel_timeout cid p)) D"
proof (cases "dget (pend p) cid")
  case None
  with inv show ?thesis
    by (auto simp: pending_inv_def pop_and_settle_def cancel_timeout_def key_images)
next
  case (Some f)
  from inv Some have f: "cid = int f + 1" "f < length (futures p)"
    unfolding pending_inv_def by blast+
  let ?p = "p\<lparr>timers := dpop (timers p) cid, pend := dpop (pend p) cid, futures := settle f v (futures p)\<rparr>"
  have eq: "pop_and_settle cid v (cancel_timeout cid p) = ?p"
    using Some by (simp add: pop_and_settle_def cancel_timeout_def)
  have settled: "g \<noteq> f \<and> futures p ! g = Waiting" if "settle f v (futures p) ! g = Waiting" "g < length (futures p)" for g
    using that f v by (cases "g = f") (auto simp: settle_def nth_list_update split: if_splits)
  have "int g + 1 \<in> D \<or> dget (pend ?p) (int g + 1) = Some g"
    if "g < length (futures ?p)" "futures ?p ! g = Waiting" for g
    using settled [of g] that inv f unfolding pending_inv_def by simp
  moreover have "set (dkeys (timers ?p)) \<subseteq> set (dkeys (pend ?p))"
    using inv unfolding pending_inv_def by (auto simp: key_images)
  moreover have "\<forall>c h. dget (pend ?p) c = Some h \<longrightarrow> c = int h + 1 \<and> h < length (futures ?p)"
    using inv unfolding pending_inv_def by simp
  ultimately show ?thesis
    using inv unfolding eq pending_inv_def by simp
qed

lemma settle_waiting: "settle f v fs ! g = Waiting \<Longrightarrow> g < length fs \<Longrightarrow> v \<noteq> Waiting \<Longrightarrow> fs ! g = Waiting"
  by (auto simp: settle_def nth_list_update split: if_splits)

lemma pending_inv_step:
  assumes inv: "pending_inv p D" and room: "int (length (futures p)) + 1 < UINT64_MAX"
    and D: "\<And>cid. op = Discard cid \<Longrightarrow> cid \<in> D"
  shows "pending_inv (pending_step op p) D"
proof (cases op)
  case (Allocate t)
  have n: "next_id p = int (length (futures p)) + 1" using inv by (simp add: pending_inv_def)
  have fresh: "cid \<noteq> next_id p" if "dget (pend p) cid = Some f" for cid f
    using inv that n unfolding pending_inv_def by fastforce
  show ?thesis
    using inv room n fresh Allocate
    by (auto simp: pending_inv_def allocate_def Let_def advance_next_id_def nth_append key_images
        less_Suc_eq split: if_splits)
next
  case (FailAll e)
  have "fold (\<lambda>(_, f) fs. settle f (Exn e) fs) (pend p) (futures p) ! f \<noteq> Waiting \<or> int f + 1 \<in> D"
    if "f < length (futures p)" for f
  proof (cases "futures p ! f = Waiting \<and> int f + 1 \<notin> D")
    case True
    then have "dget (pend p) (int f + 1) = Some f" using inv that unfolding pending_inv_def by blast
    then have "f \<in> snd ` set (pend p)" by (force simp: dget_def dest: map_of_SomeD)
    then have "fold (\<lambda>(_, f) fs. settle f (Exn e) fs) (pend p) (futures p) ! f \<noteq> Waiting"
      by (intro fold_settle_all [OF that]) simp_all
    then show ?thesis ..
  next
    case False
    then show ?thesis using fold_settle_done [OF that, of "Exn e" "pend p"] by auto
  qed
  then show ?thesis
    using inv FailAll by (auto simp: pending_inv_def fail_all_def)
next
  case (Discard cid)
  have "set (dkeys (timers p)) - {cid} \<subseteq> set (dkeys (pend p)) - {cid}"
    using inv by (auto simp: pending_inv_def)
  with inv Discard D [OF Discard] show ?thesis
    by (auto simp: pending_inv_def discard_def cancel_timeout_def key_images Let_def)
next
  case (CancelFuture f)
  have "pending_inv (p\<lparr>futures := settle f Cancelled (futures p)\<rparr>) D"
    using inv settle_waiting [of f Cancelled "futures p"] unfolding pending_inv_def by auto
  with CancelFuture show ?thesis by simp
qed (simp_all add: complete_def fail_def expire_def pending_inv_pop_settle [OF inv])

lemma length_futures_step:
  "length (futures (pending_step op p)) = length (futures p) + allocations [op]"
  by (cases op)
    (auto simp: allocations_def allocate_def Let_def complete_def fail_def expire_def discard_def
      fail_all_def cancel_timeout_def pop_and_settle_def split: option.split)

lemma pending_inv_run:
  "pending_inv p D \<Longrightarrow> discards ops \<subseteq> D \<Longrightarrow>
   int (length (futures p) + allocations ops) + 1 < UINT64_MAX \<Longrightarrow> pending_inv (pending_run ops p) D"
proof (induction ops arbitrary: p)
  case (Cons op ops)
  have alloc: "allocations (op # ops) = allocations [op] + allocations ops"
    by (simp add: allocations_def)
  have "pending_inv (pending_step op p) D"
    using Cons.prems by (intro pending_inv_step) (auto simp: discards_def)
  with Cons.IH [of "pending_step op p"] Cons.prems alloc show ?case
    by (auto simp: pending_run_def length_futures_step discards_def)
qed (simp add: pending_run_def)

lemma length_futures_run:
  "length (futures (pending_run ops p)) = length (futures p) + allocations ops"
proof (induction ops arbitrary: p)
  case (Cons op ops)
  have "allocations (op # ops) = allocations [op] + allocations ops" by (simp add: allocations_def)
  with Cons show ?case by (simp add: pending_run_def length_futures_step)
qed (simp add: pending_run_def allocations_def)

lemma discards_append: "discards (ops @ ops') = discards ops \<union> discards ops'"
  by (auto simp: discards_def)

lemma pending_run_append: "pending_run (ops @ ops') p = pending_run ops' (pending_run ops p)"
  by (simp add: pending_run_def)

subsection \<open>Properties\<close>

text \<open>
  C32. Requests and responses are paired exactly: after any sequence of allocations, responses,
  faults, timeouts, disconnects, abandonments and caller cancellations (fewer than
  \<open>2\<^sup>6\<^sup>4 - 2\<close> allocations), the correlation id of the n-th future is n, so a response
  settles the one future that was created for its request and no other; a future, once settled,
  never changes, so late and duplicate responses are dropped; and a future that still waits is
  in the table, unless its caller abandoned it, so a disconnect (\<^verbatim>\<open>fail_all\<close>) leaves no
  caller waiting and empties the table.
\<close>

theorem pending_exactly_once:
  assumes "int (allocations ops) + 1 < UINT64_MAX"
  shows "(let p = pending_run ops (new_pending t) in
      next_id p = int (length (futures p)) + 1
      \<and> (\<forall>f v. f < length (futures p) \<longrightarrow>
           futures (complete (int f + 1) v p)
             = (if dget (pend p) (int f + 1) = None then futures p else settle f (Result v) (futures p)))
      \<and> (\<forall>f < length (futures p). futures p ! f \<noteq> Waiting \<longrightarrow>
           (\<forall>ops'. futures (pending_run ops' p) ! f = futures p ! f))
      \<and> (\<forall>f < length (futures p). futures p ! f = Waiting \<longrightarrow>
           int f + 1 \<in> discards ops \<or> dget (pend p) (int f + 1) = Some f)
      \<and> (\<forall>e. pend (fail_all e p) = [] \<and> timers (fail_all e p) = []
           \<and> (\<forall>f < length (futures p). futures (fail_all e p) ! f = Waiting \<longrightarrow> int f + 1 \<in> discards ops)))"
proof -
  define p where "p = pending_run ops (new_pending t)"
  have new: "pending_inv (new_pending t) (discards ops)" by (rule pending_inv_new)
  have inv: "pending_inv p (discards ops)"
    unfolding p_def by (rule pending_inv_run [OF new]) (use assms in \<open>simp_all add: new_pending_def\<close>)
  have id: "next_id p = int (length (futures p)) + 1" using inv by (simp add: pending_inv_def)
  have done1: "futures (complete (int f + 1) v p)
      = (if dget (pend p) (int f + 1) = None then futures p else settle f (Result v) (futures p))" for f v
  proof (cases "dget (pend p) (int f + 1)")
    case (Some g)
    then have "int f + 1 = int g + 1" using inv unfolding pending_inv_def by blast
    with Some show ?thesis by (simp add: complete_def pop_and_settle_def cancel_timeout_def)
  qed (simp add: complete_def pop_and_settle_def cancel_timeout_def)
  have wait: "int f + 1 \<in> discards ops \<or> dget (pend p) (int f + 1) = Some f"
    if "f < length (futures p)" "futures p ! f = Waiting" for f
    using inv that unfolding pending_inv_def by blast
  have drained: "int f + 1 \<in> discards ops"
    if "f < length (futures p)" "futures (fail_all e p) ! f = Waiting" for e f
  proof -
    have "int (length (futures p)) + 1 < UINT64_MAX"
      using assms by (simp add: p_def length_futures_run new_pending_def)
    then have "pending_inv (fail_all e p) (discards ops)"
      using pending_inv_step [OF inv, of "FailAll e"] by simp
    moreover have "pend (fail_all e p) = []" "length (futures (fail_all e p)) = length (futures p)"
      by (simp_all add: fail_all_def)
    ultimately show ?thesis using that unfolding pending_inv_def by auto
  qed
  show ?thesis
    unfolding p_def [symmetric] Let_def
    using id done1 wait drained pending_run_done by (auto simp: fail_all_def)
qed

theorem pending_exactly_once_witness:
  "futures (pending_run [Allocate None, Complete 1 ([], [2]), Expire 1, Complete 1 ([], [3])] (new_pending 30))
     = [Result ([], [2])]"
proof -
  let ?ops = "[Allocate None, Complete 1 ([], [2])]"
  have bound: "int (allocations ?ops) + 1 < UINT64_MAX" by (simp add: allocations_def UINT64_MAX_def)
  have run: "futures (pending_run ?ops (new_pending 30)) = [Result ([], [2])]"
    by (simp add: pending_run_def new_pending_def allocate_def complete_def pop_and_settle_def
        cancel_timeout_def settle_def Let_def)
  let ?p = "pending_run ?ops (new_pending 30)" and ?more = "[Expire 1, Complete 1 ([], [3])]"
  have "\<forall>f < length (futures ?p). futures ?p ! f \<noteq> Waiting \<longrightarrow>
      (\<forall>ops'. futures (pending_run ops' ?p) ! f = futures ?p ! f)"
    using pending_exactly_once [OF bound, of 30] unfolding Let_def by blast
  then have "futures (pending_run ?more ?p) ! 0 = Result ([], [2])" by (simp add: run)
  moreover have "length (futures (pending_run ?more ?p)) = 1"
    by (simp add: length_futures_run run allocations_def)
  ultimately have "futures (pending_run ?more ?p) = [Result ([], [2])]"
    by (cases "futures (pending_run ?more ?p)") auto
  then show ?thesis by (simp flip: pending_run_append)
qed

end
