(* ===== verification/Handshake.thy ===== *)
theory Handshake
  imports Identity Wire
begin

text \<open>
  \<^verbatim>\<open>pyleans/transport/handshake.py\<close> and \<^verbatim>\<open>transport/error_payload.py\<close>: the
  first exchange on a connection, with the check that gates cluster membership, and the body of
  an error response.
\<close>

unbundle bit_operations_syntax

subsection \<open>handshake.py\<close>

definition HS_MAGIC :: nat where
  "HS_MAGIC = 0x504C4E53"

definition PROTOCOL_VERSION :: int where
  "PROTOCOL_VERSION = 1"

definition MAX_HANDSHAKE_STRING :: nat where
  "MAX_HANDSHAKE_STRING = 256"

definition RESERVED_ROLE_FLAGS_MASK :: int where
  "RESERVED_ROLE_FLAGS_MASK = 0xFFFFFFFE"

record Handshake =
  protocol_version :: int
  hs_cluster_id :: pystr
  hs_silo_id :: pystr
  role_flags :: int

definition validate_string_length :: "pystr \<Rightarrow> unit result" where
  "validate_string_length v =
     res_bind (utf8_encode v) (\<lambda>bs. if length bs > MAX_HANDSHAKE_STRING then Inl ValueError else Inr ())"

definition encode_handshake :: "Handshake \<Rightarrow> bytes result" where
  "encode_handshake h =
     res_bind (validate_string_length (hs_cluster_id h)) (\<lambda>_.
     res_bind (validate_string_length (hs_silo_id h)) (\<lambda>_.
     if \<not> (0 \<le> role_flags h \<and> role_flags h \<le> UINT32_MAX) then Inl ValueError
     else res_bind (utf8_encode (hs_cluster_id h)) (\<lambda>cluster_bytes.
          res_bind (utf8_encode (hs_silo_id h)) (\<lambda>silo_bytes.
          res_bind (pack_uint 2 (protocol_version h)) (\<lambda>version.
            Inr (be_bytes 4 HS_MAGIC @ version @ be_bytes 4 (length cluster_bytes) @ cluster_bytes
                 @ be_bytes 4 (length silo_bytes) @ silo_bytes @ be_bytes 4 (nat (role_flags h))))))))"

definition read_bounded_string :: "bytes \<Rightarrow> (pystr \<times> bytes) result" where
  "read_bounded_string reader =
     res_bind (readexactly HandshakeError reader 4) (\<lambda>(length_bytes, r1).
       let n = be_nat length_bytes
       in if n > MAX_HANDSHAKE_STRING then Inl HandshakeError
          else res_bind (readexactly HandshakeError r1 n) (\<lambda>(payload, r2).
            case utf8_decode payload of None \<Rightarrow> Inl HandshakeError | Some s \<Rightarrow> Inr (s, r2)))"

definition read_handshake_body :: "bytes \<Rightarrow> (Handshake \<times> bytes) result" where
  "read_handshake_body reader =
     res_bind (readexactly HandshakeError reader 4) (\<lambda>(magic_bytes, r1).
     if be_nat magic_bytes \<noteq> HS_MAGIC then Inl HandshakeError
     else res_bind (readexactly HandshakeError r1 2) (\<lambda>(version_bytes, r2).
          res_bind (read_bounded_string r2) (\<lambda>(cluster, r3).
          res_bind (read_bounded_string r3) (\<lambda>(silo, r4).
          res_bind (readexactly HandshakeError r4 4) (\<lambda>(flags_bytes, r5).
            Inr (\<lparr>protocol_version = int (be_nat version_bytes), hs_cluster_id = cluster,
                  hs_silo_id = silo, role_flags = int (be_nat flags_bytes)\<rparr>, r5))))))"

text \<open>\<^verbatim>\<open>read_handshake\<close>: a read that outlasts the timeout is a handshake error.\<close>

definition read_handshake :: "bool \<Rightarrow> bytes \<Rightarrow> (Handshake \<times> bytes) result" where
  "read_handshake timed_out reader =
     (if timed_out then Inl HandshakeError else read_handshake_body reader)"

definition validate_peer_handshake ::
  "Handshake \<Rightarrow> ClusterId \<Rightarrow> SiloAddress option \<Rightarrow> unit result" where
  "validate_peer_handshake peer expected_cluster expected_silo =
     (if protocol_version peer \<noteq> PROTOCOL_VERSION then Inl HandshakeError
      else if hs_cluster_id peer \<noteq> cluster_value expected_cluster then Inl HandshakeError
      else if (case expected_silo of None \<Rightarrow> False | Some s \<Rightarrow> hs_silo_id peer \<noteq> silo_id s)
      then Inl HandshakeError
      else if role_flags peer AND RESERVED_ROLE_FLAGS_MASK \<noteq> 0 then Inl HandshakeError
      else Inr ())"

lemma readexactly_be:
  "readexactly err (be_bytes k n @ r) k = Inr (be_bytes k n, r)"
  by (simp add: readexactly_Inr)

lemma utf8_encode_Inr: "utf8_encode s = Inr bs \<longleftrightarrow> list_all valid_cp s \<and> bs = utf8_bytes s"
  by (auto simp: utf8_encode_def)

lemma read_bounded_string_encoded:
  assumes "list_all valid_cp s" "length (utf8_bytes s) \<le> MAX_HANDSHAKE_STRING"
  shows "read_bounded_string (be_bytes 4 (length (utf8_bytes s)) @ utf8_bytes s @ r) = Inr (s, r)"
proof -
  have "be_nat (be_bytes 4 (length (utf8_bytes s))) = length (utf8_bytes s)"
    using assms(2) by (intro be_nat_be_bytes) (simp add: MAX_HANDSHAKE_STRING_def)
  then show ?thesis
    using assms by (simp add: read_bounded_string_def readexactly_be readexactly_append
        utf8_decode_bytes Let_def del: be_bytes.simps)
qed

lemma encode_handshake_Inr:
  "encode_handshake h = Inr bs \<longleftrightarrow>
     list_all valid_cp (hs_cluster_id h) \<and> list_all valid_cp (hs_silo_id h)
     \<and> length (utf8_bytes (hs_cluster_id h)) \<le> MAX_HANDSHAKE_STRING
     \<and> length (utf8_bytes (hs_silo_id h)) \<le> MAX_HANDSHAKE_STRING
     \<and> 0 \<le> role_flags h \<and> role_flags h \<le> UINT32_MAX
     \<and> 0 \<le> protocol_version h \<and> protocol_version h < 256 ^ 2
     \<and> bs = be_bytes 4 HS_MAGIC @ be_bytes 2 (nat (protocol_version h))
          @ be_bytes 4 (length (utf8_bytes (hs_cluster_id h))) @ utf8_bytes (hs_cluster_id h)
          @ be_bytes 4 (length (utf8_bytes (hs_silo_id h))) @ utf8_bytes (hs_silo_id h)
          @ be_bytes 4 (nat (role_flags h))"
  by (auto simp: encode_handshake_def validate_string_length_def res_bind_Inr_iff utf8_encode_Inr
      pack_uint_Inr simp del: be_bytes.simps split: if_splits)

lemma read_encoded_handshake:
  assumes "encode_handshake h = Inr bs"
  shows "read_handshake_body (bs @ rest) = Inr (h, rest)"
proof -
  note enc = assms [unfolded encode_handshake_Inr]
  have magic: "be_nat (be_bytes 4 HS_MAGIC) = HS_MAGIC"
    by (rule be_nat_be_bytes) (simp add: HS_MAGIC_def)
  have version: "int (be_nat (be_bytes 2 (nat (protocol_version h)))) = protocol_version h"
    by (rule be_nat_nat) (use enc in auto)
  have flags: "int (be_nat (be_bytes 4 (nat (role_flags h)))) = role_flags h"
    by (rule be_nat_nat) (use enc in \<open>auto simp: UINT32_MAX_def\<close>)
  have bs: "bs @ rest = be_bytes 4 HS_MAGIC @ be_bytes 2 (nat (protocol_version h))
      @ be_bytes 4 (length (utf8_bytes (hs_cluster_id h))) @ utf8_bytes (hs_cluster_id h)
      @ (be_bytes 4 (length (utf8_bytes (hs_silo_id h))) @ utf8_bytes (hs_silo_id h)
      @ be_bytes 4 (nat (role_flags h)) @ rest)"
    using enc by (simp del: be_bytes.simps)
  show ?thesis
    unfolding bs read_handshake_body_def using enc
    by (simp add: readexactly_be magic version flags read_bounded_string_encoded del: be_bytes.simps)
qed

text \<open>What was read is what the writer would write, so a handshake is bounded in size.\<close>

lemma utf8_decode_HandshakeError: "read_bounded_string r = Inl e \<Longrightarrow> e = HandshakeError"
  by (auto simp: read_bounded_string_def res_bind_Inl_iff readexactly_Inl Let_def
      split: if_splits option.splits)

lemma read_handshake_errors: "read_handshake_body r = Inl e \<Longrightarrow> e = HandshakeError"
  by (auto simp: read_handshake_body_def res_bind_Inl_iff readexactly_Inl
      dest: utf8_decode_HandshakeError split: if_splits)

lemma read_bounded_string_consumes:
  "read_bounded_string r = Inr (s, r') \<Longrightarrow> length r \<le> length r' + 4 + MAX_HANDSHAKE_STRING"
  by (auto simp: read_bounded_string_def res_bind_Inr_iff readexactly_Inr Let_def
      split: if_splits option.splits)

lemma read_handshake_consumes:
  "read_handshake_body r = Inr (h, r') \<Longrightarrow> length r \<le> length r' + 18 + 2 * MAX_HANDSHAKE_STRING"
  by (auto simp: read_handshake_body_def res_bind_Inr_iff readexactly_Inr
      dest!: read_bounded_string_consumes split: if_splits)

lemma read_handshake_flags: "read_handshake_body r = Inr (h, r') \<Longrightarrow> 0 \<le> role_flags h \<and> role_flags h < 2 ^ 32"
proof -
  have "be_nat b < 2 ^ 32" if "length b = 4" for b
    using be_nat_bound [of b] that by simp
  then show "read_handshake_body r = Inr (h, r') \<Longrightarrow> ?thesis"
    by (fastforce simp: read_handshake_body_def res_bind_Inr_iff readexactly_Inr split: if_splits)
qed

lemma reserved_flags:
  assumes "0 \<le> f" "f < 2 ^ 32"
  shows "f AND RESERVED_ROLE_FLAGS_MASK = 0 \<longleftrightarrow> f = 0 \<or> f = (1::int)"
proof -
  have "f AND RESERVED_ROLE_FLAGS_MASK = 2 * ((f div 2) AND (mask 31))"
    by (subst and_int_rec) (simp add: RESERVED_ROLE_FLAGS_MASK_def mask_eq_exp_minus_1)
  also have "(f div 2) AND mask 31 = f div 2"
    using assms by (simp add: take_bit_int_eq_self flip: take_bit_eq_mask)
  finally show ?thesis using assms by auto
qed

subsection \<open>error\_payload.py\<close>

definition MAX_REASON_BYTES :: nat where
  "MAX_REASON_BYTES = 1024"

definition APPLICATION_ERROR_BASE :: int where
  "APPLICATION_ERROR_BASE = 100"

datatype ErrorPayload = ErrorPayload (err_code: int) (err_reason: pystr)

definition is_application_error :: "ErrorPayload \<Rightarrow> bool" where
  "is_application_error p = (err_code p \<ge> APPLICATION_ERROR_BASE)"

definition encode_error_payload :: "ErrorPayload \<Rightarrow> bytes result" where
  "encode_error_payload p =
     (if \<not> (0 \<le> err_code p \<and> err_code p \<le> UINT32_MAX) then Inl ValueError
      else res_bind (utf8_encode (err_reason p)) (\<lambda>encoded.
        let reason_bytes = take MAX_REASON_BYTES encoded
        in Inr (be_bytes 4 (nat (err_code p)) @ be_bytes 4 (length reason_bytes) @ reason_bytes)))"

definition decode_error_payload :: "bytes \<Rightarrow> ErrorPayload result" where
  "decode_error_payload body =
     (if length body < 8 then Inl ValueError
      else let code = be_nat (take 4 body); reason_length = be_nat (take 4 (drop 4 body));
               remaining = length body - 8
           in if reason_length > remaining then Inl ValueError
              else if reason_length > MAX_REASON_BYTES then Inl ValueError
              else (case utf8_decode (take reason_length (drop 8 body)) of
                      None \<Rightarrow> Inl ValueError
                    | Some reason \<Rightarrow> Inr (ErrorPayload (int code) reason)))"

text \<open>The first matching class of the \<^verbatim>\<open>isinstance\<close> chain.\<close>

definition exception_to_code :: "error \<Rightarrow> int" where
  "exception_to_code e =
     (if e = HandshakeError then 2
      else if e = MessageTooLargeError then 3
      else if e = TransportTimeoutError then 4
      else if e = TransportConnectionError then 5
      else if is_transport_error e then 1
      else APPLICATION_ERROR_BASE)"

definition code_to_exception_class :: "int \<Rightarrow> error" where
  "code_to_exception_class c =
     (if c \<ge> APPLICATION_ERROR_BASE then TransportError
      else if c = 2 then HandshakeError
      else if c = 3 then MessageTooLargeError
      else if c = 4 then TransportTimeoutError
      else if c = 5 then TransportConnectionError
      else TransportError)"

lemma decode_encoded_error:
  assumes "encode_error_payload p = Inr body"
  shows "decode_error_payload body =
    (case utf8_decode (take MAX_REASON_BYTES (utf8_bytes (err_reason p))) of
       None \<Rightarrow> Inl ValueError
     | Some reason \<Rightarrow> Inr (ErrorPayload (err_code p) reason))"
proof -
  define r where "r = take MAX_REASON_BYTES (utf8_bytes (err_reason p))"
  have code: "0 \<le> err_code p" "err_code p \<le> UINT32_MAX"
    and body: "body = be_bytes 4 (nat (err_code p)) @ be_bytes 4 (length r) @ r"
    using assms by (auto simp: r_def encode_error_payload_def res_bind_Inr_iff utf8_encode_Inr Let_def
        simp del: be_bytes.simps split: if_splits)
  have c: "int (be_nat (be_bytes 4 (nat (err_code p)))) = err_code p"
    by (rule be_nat_nat) (use code in \<open>auto simp: UINT32_MAX_def\<close>)
  have l: "be_nat (be_bytes 4 (length r)) = length r"
    by (rule be_nat_be_bytes) (simp add: r_def MAX_REASON_BYTES_def)
  have max: "length r \<le> MAX_REASON_BYTES" by (simp add: r_def)
  have len: "length body = 8 + length r" by (simp add: body del: be_bytes.simps)
  have parts: "take 4 body = be_bytes 4 (nat (err_code p))"
    "take 4 (drop 4 body) = be_bytes 4 (length r)" "drop 8 body = r"
    by (simp_all add: body del: be_bytes.simps)
  show ?thesis
    unfolding decode_error_payload_def parts len Let_def r_def [symmetric] using c l max
    by (simp split: option.split del: be_bytes.simps)
qed

text \<open>Plain ASCII reasons are cut between characters.\<close>

lemma ascii_bytes: "\<forall>c \<in> set s. c < 128 \<Longrightarrow> utf8_bytes s = map of_nat s"
  by (induction s) (simp_all add: utf8_bytes_def utf8_enc1_def)

lemma ascii_valid: "\<forall>c \<in> set s. c < 128 \<Longrightarrow> list_all valid_cp s"
  by (auto simp: list_all_iff valid_cp_def)

lemma ascii_take:
  assumes "\<forall>c \<in> set s. c < 128"
  shows "utf8_decode (take n (utf8_bytes s)) = Some (take n s)"
proof -
  have "\<forall>c \<in> set (take n s). c < 128" using assms by (meson in_set_takeD)
  with assms show ?thesis
    using utf8_decode_bytes [OF ascii_valid, of "take n s"] by (simp add: ascii_bytes take_map)
qed

lemma utf8_decode_ascii_prefix:
  "\<forall>c \<in> set s. c < 128 \<Longrightarrow> utf8_decode (utf8_bytes s @ bs) = map_option (\<lambda>t. s @ t) (utf8_decode bs)"
proof (induction s)
  case (Cons c s)
  have "valid_cp c" using Cons.prems by (simp add: valid_cp_def)
  with Cons show ?case
    by (simp add: utf8_bytes_def utf8_decode_enc1 option.map_comp comp_def)
qed (cases "utf8_decode bs"; simp add: utf8_bytes_def)

subsection \<open>Properties\<close>

text \<open>
  The handshake codec round trips and stays small: an encoded handshake is read back as the
  same handshake whatever follows it on the stream, and it never exceeds 530 bytes, which bounds
  what an unauthenticated peer can make a silo buffer; a read that runs out of time, of bytes or
  of limits is a \<^verbatim>\<open>HandshakeError\<close>, never anything else.
\<close>

theorem handshake_roundtrip:
  "(encode_handshake h = Inr bs \<longrightarrow> read_handshake False (bs @ rest) = Inr (h, rest))
   \<and> read_handshake t reader \<in> insert (Inl HandshakeError) (range Inr)
   \<and> (\<forall>h' rest'. read_handshake t reader = Inr (h', rest') \<longrightarrow> length reader \<le> length rest' + 530)"
proof (intro conjI impI allI)
  assume "encode_handshake h = Inr bs"
  then show "read_handshake False (bs @ rest) = Inr (h, rest)"
    by (simp add: read_handshake_def read_encoded_handshake)
next
  show "read_handshake t reader \<in> insert (Inl HandshakeError) (range Inr)"
    using read_handshake_errors [of reader]
    by (cases "read_handshake_body reader") (auto simp: read_handshake_def)
next
  fix h' rest' assume "read_handshake t reader = Inr (h', rest')"
  then show "length reader \<le> length rest' + 530"
    using read_handshake_consumes [of reader h' rest']
    by (auto simp: read_handshake_def MAX_HANDSHAKE_STRING_def split: if_splits)
qed

definition demo_handshake :: Handshake where
  "demo_handshake = \<lparr>protocol_version = 1, hs_cluster_id = lit ''c'', hs_silo_id = lit ''a:1:1'', role_flags = 1\<rparr>"

lemma demo_handshake_encodes: "\<exists>bs. encode_handshake demo_handshake = Inr bs"
  by (simp add: encode_handshake_Inr demo_handshake_def valid_cp_def utf8_bytes_def utf8_enc1_def
      MAX_HANDSHAKE_STRING_def UINT32_MAX_def del: be_bytes.simps)

theorem handshake_roundtrip_witness:
  "\<exists>bs. encode_handshake demo_handshake = Inr bs \<and> read_handshake False bs = Inr (demo_handshake, [])"
proof -
  obtain bs where bs: "encode_handshake demo_handshake = Inr bs" using demo_handshake_encodes by blast
  from conjunct1 [OF handshake_roundtrip [of demo_handshake bs "[]"]] bs show ?thesis by simp
qed

text \<open>
  The membership gate: a peer whose handshake was read off the wire is accepted exactly when
  it speaks this protocol version, names this cluster, is the silo that was dialled (when one
  was), and sets no flag other than gateway-capable. An outbound connection is therefore only
  ever established with a peer whose silo id parses to the dialled address.
\<close>

theorem handshake_gate:
  assumes "read_handshake False reader = Inr (peer, rest)"
  shows "(validate_peer_handshake peer (ClusterId c) expected = Inr () \<longleftrightarrow>
      protocol_version peer = 1 \<and> hs_cluster_id peer = c
      \<and> (\<forall>s. expected = Some s \<longrightarrow> hs_silo_id peer = silo_id s)
      \<and> (role_flags peer = 0 \<or> role_flags peer = 1))
    \<and> validate_peer_handshake peer (ClusterId c) expected \<in> {Inr (), Inl HandshakeError}
    \<and> (validate_peer_handshake peer (ClusterId c) (Some s) = Inr () \<longrightarrow>
        from_silo_id (hs_silo_id peer) = Inr s)"
proof -
  have "0 \<le> role_flags peer \<and> role_flags peer < 2 ^ 32"
    using assms read_handshake_flags [of reader peer rest] by (simp add: read_handshake_def)
  then have flags: "role_flags peer AND RESERVED_ROLE_FLAGS_MASK = 0 \<longleftrightarrow> role_flags peer = 0 \<or> role_flags peer = 1"
    using reserved_flags by blast
  show ?thesis
    unfolding validate_peer_handshake_def flags
    by (cases expected) (auto simp: PROTOCOL_VERSION_def)
qed

theorem handshake_gate_witness:
  "validate_peer_handshake demo_handshake (ClusterId (lit ''c'')) (Some (SiloAddress (lit ''a'') 1 1)) = Inr ()"
proof -
  obtain bs where "encode_handshake demo_handshake = Inr bs" using demo_handshake_encodes by blast
  from read_encoded_handshake [OF this, of "[]"]
  have read: "read_handshake False bs = Inr (demo_handshake, [])" by (simp add: read_handshake_def)
  show ?thesis
    using conjunct1 [OF handshake_gate [OF read, of "lit ''c''" "Some (SiloAddress (lit ''a'') 1 1)"]]
    by (simp add: demo_handshake_def silo_id_def str_int_def dec.simps)
qed

text \<open>
  Error payloads: an encoded error decodes to the same code, with the reason cut to 1024 bytes
  when the cut does not split a character (any reason of at most 1024 bytes is carried whole, an
  ASCII reason is cut to its first 1024 characters); when it does split one, the receiver cannot
  decode the payload at all, as for 1023 letters followed by one accented letter. Every transport
  error class that has a code comes back as itself, and any other error as a
  \<^verbatim>\<open>TransportError\<close>.
\<close>

theorem error_payload_roundtrip:
  "(length (utf8_bytes (err_reason p)) \<le> 1024 \<longrightarrow> encode_error_payload p = Inr body \<longrightarrow>
      decode_error_payload body = Inr p)
   \<and> ((\<forall>x \<in> set (err_reason p). x < 128) \<longrightarrow> encode_error_payload p = Inr body \<longrightarrow>
      decode_error_payload body = Inr (ErrorPayload (err_code p) (take 1024 (err_reason p))))
   \<and> (err_reason p = replicate 1023 97 @ [233] \<longrightarrow> encode_error_payload p = Inr body \<longrightarrow>
      decode_error_payload body = Inl ValueError)
   \<and> code_to_exception_class (exception_to_code e) =
      (if e \<in> {HandshakeError, MessageTooLargeError, TransportTimeoutError, TransportConnectionError}
       then e else TransportError)"
proof (intro conjI impI)
  assume enc: "encode_error_payload p = Inr body"
  then have valid: "list_all valid_cp (err_reason p)"
    by (auto simp: encode_error_payload_def res_bind_Inr_iff utf8_encode_Inr split: if_splits)
  {
    assume "length (utf8_bytes (err_reason p)) \<le> 1024"
    with valid show "decode_error_payload body = Inr p"
      by (simp add: decode_encoded_error [OF enc] MAX_REASON_BYTES_def utf8_decode_bytes)
  next
    assume "\<forall>x \<in> set (err_reason p). x < 128"
    then show "decode_error_payload body = Inr (ErrorPayload (err_code p) (take 1024 (err_reason p)))"
      by (simp add: decode_encoded_error [OF enc] MAX_REASON_BYTES_def ascii_take)
  next
    assume r: "err_reason p = replicate 1023 97 @ [233]"
    have "take 1024 (utf8_bytes (err_reason p)) = utf8_bytes (replicate 1023 97) @ [195]"
      by (simp add: r utf8_bytes_append ascii_bytes utf8_bytes_def [of "[233]"] utf8_enc1_def)
    moreover have "utf8_decode [195] = None" by simp
    ultimately show "decode_error_payload body = Inl ValueError"
      using utf8_decode_ascii_prefix [of "replicate 1023 97" "[195]"]
      by (simp add: decode_encoded_error [OF enc] MAX_REASON_BYTES_def)
  }
next
  show "code_to_exception_class (exception_to_code e) =
      (if e \<in> {HandshakeError, MessageTooLargeError, TransportTimeoutError, TransportConnectionError}
       then e else TransportError)"
    by (simp add: code_to_exception_class_def exception_to_code_def APPLICATION_ERROR_BASE_def)
qed

theorem error_payload_roundtrip_witness:
  "\<exists>body. encode_error_payload (ErrorPayload 5 (replicate 1023 97 @ [233])) = Inr body
     \<and> decode_error_payload body = Inl ValueError"
proof -
  obtain body where "encode_error_payload (ErrorPayload 5 (replicate 1023 97 @ [233])) = Inr body"
    by (simp add: encode_error_payload_def UINT32_MAX_def utf8_encode_def valid_cp_def list_all_iff Let_def
        del: be_bytes.simps)
  with error_payload_roundtrip [of "ErrorPayload 5 (replicate 1023 97 @ [233])" body] show ?thesis
    by (auto simp del:)
qed

end
