(* ===== verification/Connection.thy ===== *)
theory Connection
  imports Pending Handshake
begin

text \<open>
  \<^verbatim>\<open>pyleans/transport/tcp/connection.py\<close> with the connection options of
  \<^verbatim>\<open>options.py\<close>: one multiplexed connection between two silos. A step runs from one
  await to the next: a request is entered, sent when it holds a permit, and finished when its
  future is settled; the read loop takes one frame per step; a handler task ends with an outcome
  of the message handler. The socket is the bytes written so far; what the write buffer holds and
  whether a write succeeds are given with each step.
\<close>

subsection \<open>Options and state\<close>

record TransportOptions =
  max_message_size :: int
  default_request_timeout :: seconds
  max_in_flight_requests :: nat
  keepalive_interval :: seconds
  keepalive_timeout :: seconds
  reconnect_base_delay :: seconds
  reconnect_max_delay :: seconds
  reconnect_jitter_fraction :: seconds
  max_inbound_concurrency :: nat
  write_buffer_high_water :: nat
  backpressure_raises :: bool

definition default_transport_options :: TransportOptions where
  "default_transport_options =
     \<lparr>max_message_size = 16 * 1024 * 1024, default_request_timeout = 30, max_in_flight_requests = 1000,
      keepalive_interval = 30, keepalive_timeout = 10, reconnect_base_delay = 1 / 10, reconnect_max_delay = 30,
      reconnect_jitter_fraction = 3 / 10, max_inbound_concurrency = 256,
      write_buffer_high_water = 1024 * 1024, backpressure_raises = False\<rparr>"

datatype conn_state = ConnNew | ConnRunning | ConnClosing | ConnClosed

datatype close_reason = CloseNormal | CloseLost

record SiloConnection =
  conn_remote :: SiloAddress
  conn_options :: TransportOptions
  conn_pending :: PendingRequests
  conn_in_flight :: nat
  conn_inbound :: nat
  conn_state :: conn_state
  conn_last_activity :: seconds
  conn_reading :: bool
  conn_keepalive :: bool
  conn_handlers :: "TransportMessage list"
  conn_callers :: "(int \<times> nat) list"
  conn_written :: bytes
  conn_close_scheduled :: bool
  conn_close_reason :: "close_reason option"

definition new_connection :: "SiloAddress \<Rightarrow> TransportOptions \<Rightarrow> seconds \<Rightarrow> SiloConnection" where
  "new_connection remote opts now =
     \<lparr>conn_remote = remote, conn_options = opts, conn_pending = new_pending (default_request_timeout opts),
      conn_in_flight = max_in_flight_requests opts, conn_inbound = max_inbound_concurrency opts,
      conn_state = ConnNew, conn_last_activity = now, conn_reading = False, conn_keepalive = False,
      conn_handlers = [], conn_callers = [], conn_written = [], conn_close_scheduled = False,
      conn_close_reason = None\<rparr>"

definition is_closed :: "SiloConnection \<Rightarrow> bool" where
  "is_closed c \<longleftrightarrow> conn_state c = ConnClosed"

definition conn_start :: "SiloConnection \<Rightarrow> SiloConnection" where
  "conn_start c =
     (if conn_state c \<noteq> ConnNew then c
      else c\<lparr>conn_state := ConnRunning, conn_reading := True, conn_keepalive := True\<rparr>)"

subsection \<open>Writing\<close>

text \<open>The size of the write buffer and whether the stream takes the bytes; a closed stream never does.\<close>

type_synonym write_env = "nat \<times> bool"

definition ensure_running :: "SiloConnection \<Rightarrow> unit result" where
  "ensure_running c = (if conn_state c \<noteq> ConnRunning then Inl TransportClosedError else Inr ())"

definition schedule_close_lost :: "SiloConnection \<Rightarrow> SiloConnection" where
  "schedule_close_lost c =
     (if conn_state c = ConnClosing \<or> conn_state c = ConnClosed then c else c\<lparr>conn_close_scheduled := True\<rparr>)"

definition enforce_backpressure :: "nat \<Rightarrow> SiloConnection \<Rightarrow> unit result" where
  "enforce_backpressure buffered c =
     (if \<not> backpressure_raises (conn_options c) then Inr ()
      else if buffered > write_buffer_high_water (conn_options c) then Inl BackpressureError else Inr ())"

definition write_frame ::
  "write_env \<Rightarrow> seconds \<Rightarrow> TransportMessage \<Rightarrow> SiloConnection \<Rightarrow> unit result \<times> SiloConnection" where
  "write_frame env now msg c =
     (case encode_frame msg (max_message_size (conn_options c)) of
        Inl e \<Rightarrow> (Inl e, c)
      | Inr frame \<Rightarrow>
          (case enforce_backpressure (fst env) c of
             Inl e \<Rightarrow> (Inl e, c)
           | Inr _ \<Rightarrow>
               if \<not> snd env \<or> is_closed c then (Inl TransportConnectionError, schedule_close_lost c)
               else (Inr (), c\<lparr>conn_written := conn_written c @ frame, conn_last_activity := now\<rparr>)))"

subsection \<open>Requests\<close>

text \<open>
  What became of an attempt to send a request: it raised, it waits for a permit, or it is on the
  wire and its caller awaits a future. A caller that waited for a permit goes on without a second
  look at the state of the connection.
\<close>

datatype send_outcome = SendRaised error | AwaitsPermit | AwaitsFuture int nat

definition send_with_permit ::
  "write_env \<Rightarrow> seconds \<Rightarrow> bytes \<Rightarrow> bytes \<Rightarrow> seconds option \<Rightarrow> SiloConnection \<Rightarrow> send_outcome \<times> SiloConnection" where
  "send_with_permit env now header body timeout c =
     (if conn_in_flight c = 0 then (AwaitsPermit, c)
      else
        (case allocate timeout (conn_pending c) of
           ((cid, f), p) \<Rightarrow>
             (case write_frame env now
                     \<lparr>message_type = REQUEST, correlation_id = cid, msg_header = header, msg_body = body\<rparr>
                     (c\<lparr>conn_pending := p\<rparr>) of
                (Inl e, c') \<Rightarrow> (SendRaised e, c'\<lparr>conn_pending := discard cid (conn_pending c')\<rparr>)
              | (Inr _, c') \<Rightarrow>
                  (AwaitsFuture cid f,
                   c'\<lparr>conn_in_flight := conn_in_flight c' - 1, conn_callers := conn_callers c' @ [(cid, f)]\<rparr>))))"

definition send_request ::
  "write_env \<Rightarrow> seconds \<Rightarrow> bytes \<Rightarrow> bytes \<Rightarrow> seconds option \<Rightarrow> SiloConnection \<Rightarrow> send_outcome \<times> SiloConnection" where
  "send_request env now header body timeout c =
     (case ensure_running c of
        Inl e \<Rightarrow> (SendRaised e, c)
      | Inr _ \<Rightarrow> send_with_permit env now header body timeout c)"

text \<open>The caller wakes up: it takes the outcome, or discards its id, and gives the permit back.\<close>

definition finish_request :: "int \<times> nat \<Rightarrow> SiloConnection \<Rightarrow> fstate \<times> SiloConnection" where
  "finish_request caller c =
     (case caller of (cid, f) \<Rightarrow>
        (let outcome = futures (conn_pending c) ! f;
             c1 = c\<lparr>conn_callers := remove1 caller (conn_callers c), conn_in_flight := conn_in_flight c + 1\<rparr>
         in if caller \<notin> set (conn_callers c) \<or> outcome = Waiting then (Waiting, c)
            else (case outcome of
                    Result r \<Rightarrow> (Result r, c1)
                  | failed \<Rightarrow> (failed, c1\<lparr>conn_pending := discard cid (conn_pending c)\<rparr>))))"

definition send_one_way ::
  "write_env \<Rightarrow> seconds \<Rightarrow> bytes \<Rightarrow> bytes \<Rightarrow> SiloConnection \<Rightarrow> unit result \<times> SiloConnection" where
  "send_one_way env now header body c =
     (case ensure_running c of
        Inl e \<Rightarrow> (Inl e, c)
      | Inr _ \<Rightarrow>
          write_frame env now
            \<lparr>message_type = ONE_WAY, correlation_id = 0, msg_header = header, msg_body = body\<rparr> c)"

text \<open>A ping needs no permit; its caller is remembered by nobody but the pending table.\<close>

definition send_ping ::
  "write_env \<Rightarrow> seconds \<Rightarrow> seconds \<Rightarrow> SiloConnection \<Rightarrow> send_outcome \<times> SiloConnection" where
  "send_ping env now timeout c =
     (case ensure_running c of
        Inl e \<Rightarrow> (SendRaised e, c)
      | Inr _ \<Rightarrow>
          (case allocate (Some timeout) (conn_pending c) of
             ((cid, f), p) \<Rightarrow>
               (case write_frame env now
                       \<lparr>message_type = PING, correlation_id = cid, msg_header = [], msg_body = []\<rparr>
                       (c\<lparr>conn_pending := p\<rparr>) of
                  (Inl e, c') \<Rightarrow> (SendRaised e, c'\<lparr>conn_pending := discard cid (conn_pending c')\<rparr>)
                | (Inr _, c') \<Rightarrow> (AwaitsFuture cid f, c'))))"

definition finish_ping :: "int \<times> nat \<Rightarrow> SiloConnection \<Rightarrow> fstate \<times> SiloConnection" where
  "finish_ping caller c =
     (case futures (conn_pending c) ! snd caller of
        Waiting \<Rightarrow> (Waiting, c)
      | Result r \<Rightarrow> (Result r, c)
      | failed \<Rightarrow> (failed, c\<lparr>conn_pending := discard (fst caller) (conn_pending c)\<rparr>))"

subsection \<open>Reading\<close>

definition decode_error :: "bytes \<Rightarrow> error" where
  "decode_error body =
     (case decode_error_payload body of
        Inl _ \<Rightarrow> TransportError
      | Inr payload \<Rightarrow> code_to_exception_class (err_code payload))"

text \<open>No result means that the read loop waits for a handler to end.\<close>

definition spawn_bounded_handler :: "TransportMessage \<Rightarrow> SiloConnection \<Rightarrow> SiloConnection option" where
  "spawn_bounded_handler msg c =
     (if conn_inbound c = 0 then None
      else Some (c\<lparr>conn_inbound := conn_inbound c - 1, conn_handlers := conn_handlers c @ [msg]\<rparr>))"

definition dispatch ::
  "write_env \<Rightarrow> seconds \<Rightarrow> TransportMessage \<Rightarrow> SiloConnection \<Rightarrow> (unit result \<times> SiloConnection) option" where
  "dispatch env now msg c =
     (case message_type msg of
        RESPONSE \<Rightarrow>
          Some (Inr (), c\<lparr>conn_pending := complete (correlation_id msg) (msg_header msg, msg_body msg) (conn_pending c)\<rparr>)
      | ERROR \<Rightarrow>
          Some (Inr (), c\<lparr>conn_pending := fail (correlation_id msg) (decode_error (msg_body msg)) (conn_pending c)\<rparr>)
      | PONG \<Rightarrow> Some (Inr (), c\<lparr>conn_pending := complete (correlation_id msg) ([], []) (conn_pending c)\<rparr>)
      | PING \<Rightarrow>
          Some (write_frame env now
            \<lparr>message_type = PONG, correlation_id = correlation_id msg, msg_header = [], msg_body = []\<rparr> c)
      | _ \<Rightarrow> map_option (\<lambda>c'. (Inr (), c')) (spawn_bounded_handler msg c))"

definition end_read_loop :: "SiloConnection \<Rightarrow> SiloConnection" where
  "end_read_loop c =
     (if conn_state c = ConnRunning then schedule_close_lost (c\<lparr>conn_reading := False\<rparr>)
      else c\<lparr>conn_reading := False\<rparr>)"

text \<open>
  One round of the loop on the bytes that are there; the end of the bytes is the end of the stream.
  Every exception ends the loop and has the connection closed as lost.
\<close>

definition read_loop_step ::
  "write_env \<Rightarrow> seconds \<Rightarrow> bytes \<Rightarrow> SiloConnection \<Rightarrow> bytes \<times> SiloConnection" where
  "read_loop_step env now reader c =
     (if \<not> conn_reading c then (reader, c)
      else
        (case read_frame reader (max_message_size (conn_options c)) of
           Inl _ \<Rightarrow> (reader, end_read_loop c)
         | Inr (msg, rest) \<Rightarrow>
             (case dispatch env now msg (c\<lparr>conn_last_activity := now\<rparr>) of
                None \<Rightarrow> (reader, c)
              | Some (Inl _, c') \<Rightarrow> (rest, end_read_loop c')
              | Some (Inr _, c') \<Rightarrow> (rest, c'))))"

subsection \<open>Handlers\<close>

text \<open>What the message handler comes to; an exception has its class and its text.\<close>

datatype handler_outcome = Responds TransportMessage | RespondsNone | HandlerRaises error pystr

definition encode_error_response :: "int \<Rightarrow> error \<Rightarrow> pystr \<Rightarrow> TransportMessage result" where
  "encode_error_response cid e reason =
     res_bind (encode_error_payload (ErrorPayload (exception_to_code e) reason)) (\<lambda>body.
       Inr \<lparr>message_type = ERROR, correlation_id = cid, msg_header = [], msg_body = body\<rparr>)"

definition invoke_handler_safely :: "TransportMessage \<Rightarrow> handler_outcome \<Rightarrow> TransportMessage result" where
  "invoke_handler_safely msg outcome =
     (case outcome of
        HandlerRaises e reason \<Rightarrow> encode_error_response (correlation_id msg) e reason
      | RespondsNone \<Rightarrow>
          encode_error_response (correlation_id msg) TransportError (lit ''handler returned None for REQUEST'')
      | Responds response \<Rightarrow> Inr response)"

text \<open>The task of a request: no exception leaves it, so a response that cannot be written is lost.\<close>

definition conn_handle_request ::
  "write_env \<Rightarrow> seconds \<Rightarrow> TransportMessage \<Rightarrow> handler_outcome \<Rightarrow> SiloConnection \<Rightarrow> SiloConnection" where
  "conn_handle_request env now msg outcome c =
     (case invoke_handler_safely msg outcome of
        Inl _ \<Rightarrow> c
      | Inr response \<Rightarrow> snd (write_frame env now response c))"

definition handler_done ::
  "write_env \<Rightarrow> seconds \<Rightarrow> TransportMessage \<Rightarrow> handler_outcome \<Rightarrow> SiloConnection \<Rightarrow> SiloConnection" where
  "handler_done env now msg outcome c =
     (if msg \<notin> set (conn_handlers c) then c
      else
        let c1 = (if message_type msg = REQUEST then conn_handle_request env now msg outcome c else c)
        in c1\<lparr>conn_handlers := remove1 msg (conn_handlers c1), conn_inbound := conn_inbound c1 + 1\<rparr>)"

subsection \<open>Keepalive and close\<close>

text \<open>One turn of the keepalive loop after its sleep, up to the ping; then the end of the ping.\<close>

definition keepalive_turn :: "write_env \<Rightarrow> seconds \<Rightarrow> SiloConnection \<Rightarrow> send_outcome option \<times> SiloConnection" where
  "keepalive_turn env now c =
     (if \<not> conn_keepalive c \<or> keepalive_interval (conn_options c) \<le> 0 \<or> conn_state c \<noteq> ConnRunning
      then (None, c\<lparr>conn_keepalive := False\<rparr>)
      else if now - conn_last_activity c < keepalive_interval (conn_options c) then (None, c)
      else
        (case send_ping env now (keepalive_timeout (conn_options c)) c of
           (SendRaised e, c') \<Rightarrow>
             (Some (SendRaised e),
              (if e \<in> {TransportTimeoutError, TransportConnectionError, TransportClosedError}
               then schedule_close_lost c' else c')\<lparr>conn_keepalive := False\<rparr>)
         | (r, c') \<Rightarrow> (Some r, c')))"

definition keepalive_answer :: "int \<times> nat \<Rightarrow> SiloConnection \<Rightarrow> SiloConnection" where
  "keepalive_answer caller c =
     (case finish_ping caller c of
        (Exn e, c') \<Rightarrow>
          (if e \<in> {TransportTimeoutError, TransportConnectionError, TransportClosedError}
           then schedule_close_lost c' else c')\<lparr>conn_keepalive := False\<rparr>
      | (_, c') \<Rightarrow> c')"

definition close_begin :: "SiloConnection \<Rightarrow> SiloConnection" where
  "close_begin c =
     (if conn_state c = ConnClosed \<or> conn_state c = ConnClosing then c
      else c\<lparr>conn_state := ConnClosing, conn_keepalive := False\<rparr>)"

text \<open>
  After a normal close has drained the table or run out of time, and at once for a lost
  connection. Handler tasks are cancelled and give their permits back.
\<close>

definition close_end :: "close_reason \<Rightarrow> SiloConnection \<Rightarrow> SiloConnection" where
  "close_end reason c =
     (if conn_state c \<noteq> ConnClosing then c
      else c\<lparr>conn_pending := fail_all TransportConnectionError (conn_pending c), conn_reading := False,
             conn_inbound := conn_inbound c + length (conn_handlers c), conn_handlers := [],
             conn_close_reason := Some reason, conn_state := ConnClosed\<rparr>)"

definition drained :: "SiloConnection \<Rightarrow> bool" where
  "drained c \<longleftrightarrow> pending_len (conn_pending c) = 0"

subsection \<open>Operations of a connection in any order\<close>

datatype conn_op =
    ConnStart
  | SendRequest write_env seconds bytes bytes "seconds option"
  | ResumeSend write_env seconds bytes bytes "seconds option"
  | FinishRequest "int \<times> nat"
  | CallerCancelled nat
  | RequestTimeout int
  | SendOneWay write_env seconds bytes bytes
  | KeepaliveTurn write_env seconds
  | KeepaliveAnswer "int \<times> nat"
  | ReadStep write_env seconds bytes
  | HandlerDone write_env seconds TransportMessage handler_outcome
  | CloseBegin
  | CloseEnd close_reason

fun conn_step :: "conn_op \<Rightarrow> SiloConnection \<Rightarrow> SiloConnection" where
  "conn_step ConnStart c = conn_start c"
| "conn_step (SendRequest env now h b t) c = snd (send_request env now h b t c)"
| "conn_step (ResumeSend env now h b t) c = snd (send_with_permit env now h b t c)"
| "conn_step (FinishRequest caller) c = snd (finish_request caller c)"
| "conn_step (CallerCancelled f) c = c\<lparr>conn_pending := pending_step (CancelFuture f) (conn_pending c)\<rparr>"
| "conn_step (RequestTimeout cid) c = c\<lparr>conn_pending := expire cid (conn_pending c)\<rparr>"
| "conn_step (SendOneWay env now h b) c = snd (send_one_way env now h b c)"
| "conn_step (KeepaliveTurn env now) c = snd (keepalive_turn env now c)"
| "conn_step (KeepaliveAnswer caller) c =
     (if caller \<in> set (conn_callers c) \<or> fst caller \<noteq> int (snd caller) + 1
         \<or> snd caller \<ge> length (futures (conn_pending c)) then c
      else keepalive_answer caller c)"
| "conn_step (ReadStep env now reader) c = snd (read_loop_step env now reader c)"
| "conn_step (HandlerDone env now msg outcome) c = handler_done env now msg outcome c"
| "conn_step CloseBegin c = close_begin c"
| "conn_step (CloseEnd reason) c = close_end reason c"

definition conn_run :: "conn_op list \<Rightarrow> SiloConnection \<Rightarrow> SiloConnection" where
  "conn_run ops c = fold conn_step ops c"

text \<open>
  Permits that are out belong to callers and handlers, the future of every caller is its own and is
  in the table until it is settled, and a closed connection has nothing in its table.
  \<open>D\<close> are the ids whose callers have gone.
\<close>

definition conn_inv :: "SiloConnection \<Rightarrow> int set \<Rightarrow> bool" where
  "conn_inv c D \<longleftrightarrow>
     pending_inv (conn_pending c) D
     \<and> (\<forall>cid \<in> D. cid \<le> int (length (futures (conn_pending c))))
     \<and> (\<forall>(cid, f) \<in> set (conn_callers c). cid = int f + 1 \<and> f < length (futures (conn_pending c)) \<and> cid \<notin> D)
     \<and> distinct (conn_callers c)
     \<and> conn_in_flight c + length (conn_callers c) = max_in_flight_requests (conn_options c)
     \<and> conn_inbound c + length (conn_handlers c) = max_inbound_concurrency (conn_options c)
     \<and> (conn_state c = ConnClosed \<longrightarrow> pend (conn_pending c) = [])"

lemma conn_inv_new: "conn_inv (new_connection remote opts now) {}"
  by (simp add: conn_inv_def new_connection_def pending_inv_new)

text \<open>Everything but the pending table, the callers, the permits and the handlers is irrelevant.\<close>

lemma conn_inv_cong:
  assumes "conn_pending c' = conn_pending c" "conn_callers c' = conn_callers c" "conn_in_flight c' = conn_in_flight c"
    "conn_inbound c' = conn_inbound c" "conn_handlers c' = conn_handlers c" "conn_options c' = conn_options c"
    "conn_state c' = ConnClosed \<longrightarrow> conn_state c = ConnClosed"
  shows "conn_inv c D \<Longrightarrow> conn_inv c' D"
  using assms by (auto simp: conn_inv_def)

definition same_but_io :: "SiloConnection \<Rightarrow> SiloConnection \<Rightarrow> bool" where
  "same_but_io c c' \<longleftrightarrow> conn_pending c' = conn_pending c \<and> conn_callers c' = conn_callers c
     \<and> conn_in_flight c' = conn_in_flight c \<and> conn_inbound c' = conn_inbound c
     \<and> conn_handlers c' = conn_handlers c \<and> conn_options c' = conn_options c \<and> conn_state c' = conn_state c"

lemma same_but_io_inv: "same_but_io c c' \<Longrightarrow> conn_inv c D \<Longrightarrow> conn_inv c' D"
  by (rule conn_inv_cong [of c' c]) (auto simp: same_but_io_def)

lemma schedule_close_io [simp]: "same_but_io c (schedule_close_lost c)"
  by (simp add: same_but_io_def schedule_close_lost_def)

lemma write_frame_io [simp]: "same_but_io c (snd (write_frame env now msg c))"
  by (auto simp: write_frame_def same_but_io_def schedule_close_lost_def split: sum.splits)

lemma write_frame_options: "write_frame env now msg c = (r, c') \<Longrightarrow> conn_options c' = conn_options c"
  using write_frame_io [of c env now msg] by (simp add: same_but_io_def)

lemma write_frame_state: "write_frame env now msg c = (r, c') \<Longrightarrow> conn_state c' = conn_state c"
  using write_frame_io [of c env now msg] by (simp add: same_but_io_def)

lemma end_read_loop_io [simp]: "same_but_io c (end_read_loop c)"
  by (auto simp: end_read_loop_def same_but_io_def schedule_close_lost_def)

lemma same_but_io_trans: "same_but_io a b \<Longrightarrow> same_but_io b c \<Longrightarrow> same_but_io a c"
  by (simp add: same_but_io_def)

lemma write_closed: "is_closed c \<Longrightarrow> fst (write_frame env now msg c) \<noteq> Inr ()"
  by (auto simp: write_frame_def split: sum.splits)

text \<open>A step of the pending table that neither allocates nor discards.\<close>

lemma conn_inv_pending:
  assumes "conn_inv c D" "pending_inv p D" "length (futures p) = length (futures (conn_pending c))"
    "pend (conn_pending c) = [] \<Longrightarrow> pend p = []"
  shows "conn_inv (c\<lparr>conn_pending := p\<rparr>) D"
  using assms unfolding conn_inv_def by auto

lemma settle_keeps:
  assumes "conn_inv c D" "int (length (futures (conn_pending c))) + 1 < UINT64_MAX"
    "op \<in> {Complete cid r, Fail cid e, Expire cid, CancelFuture f}"
  shows "conn_inv (c\<lparr>conn_pending := pending_step op (conn_pending c)\<rparr>) D"
proof (rule conn_inv_pending [OF assms(1)])
  show "pending_inv (pending_step op (conn_pending c)) D"
    by (rule pending_inv_step) (use assms in \<open>auto simp: conn_inv_def\<close>)
  show "length (futures (pending_step op (conn_pending c))) = length (futures (conn_pending c))"
    using assms(3) by (auto simp: length_futures_step allocations_def)
  show "pend (pending_step op (conn_pending c)) = []" if "pend (conn_pending c) = []"
    using assms(3) that
    by (auto simp: complete_def fail_def expire_def pop_and_settle_def cancel_timeout_def)
qed

lemma discard_keeps:
  assumes "conn_inv c D" "int (length (futures (conn_pending c))) + 1 < UINT64_MAX"
    "\<forall>f. (cid, f) \<notin> set (conn_callers c)" "cid \<le> int (length (futures (conn_pending c)))"
  shows "conn_inv (c\<lparr>conn_pending := discard cid (conn_pending c)\<rparr>) (insert cid D)"
proof -
  have inv: "pending_inv (conn_pending c) (insert cid D)"
    using assms(1) by (auto simp: conn_inv_def pending_inv_def)
  have "pending_inv (pending_step (Discard cid) (conn_pending c)) (insert cid D)"
    by (rule pending_inv_step [OF inv assms(2)]) simp
  then show ?thesis
    using assms(1,3,4) unfolding conn_inv_def
    by (auto simp: discard_def cancel_timeout_def Let_def dpop_def)
qed

text \<open>A frame with a fresh id: written and remembered, or discarded.\<close>

lemma allocate_facts:
  assumes "allocate t p = ((cid, f), p')" "pending_inv p D"
  shows "p' = pending_step (Allocate t) p" "cid = int (length (futures p)) + 1" "f = length (futures p)"
    "length (futures p') = Suc (length (futures p))" "pend p' = dset (pend p) cid f"
  using assms by (auto simp: allocate_def Let_def pending_inv_def)

lemma allocate_discard:
  assumes "conn_inv c D" "int (length (futures (conn_pending c))) + 2 < UINT64_MAX"
    "allocate t (conn_pending c) = ((cid, f), p)" "same_but_io (c\<lparr>conn_pending := p\<rparr>) c'"
  shows "conn_inv (c'\<lparr>conn_pending := discard cid (conn_pending c')\<rparr>) (insert cid D)"
proof -
  have inv: "pending_inv (conn_pending c) D" using assms(1) by (simp add: conn_inv_def)
  note p = allocate_facts [OF assms(3) inv]
  have "pending_inv (conn_pending c) (insert cid D)" using inv by (auto simp: pending_inv_def)
  then have "pending_inv (pending_run [Allocate t, Discard cid] (conn_pending c)) (insert cid D)"
    by (rule pending_inv_run) (use assms(2) in \<open>auto simp: discards_def allocations_def\<close>)
  then have "pending_inv (discard cid p) (insert cid D)" by (simp add: pending_run_def p(1))
  moreover have "length (futures (discard cid p)) = length (futures p)"
    by (simp add: discard_def cancel_timeout_def Let_def)
  moreover have "pend (discard cid p) = dpop (dset (pend (conn_pending c)) cid f) cid"
    by (simp add: discard_def cancel_timeout_def Let_def p(5))
  moreover have "dpop (dset [] cid f) cid = []" by (simp add: dpop_def dset_def)
  moreover have "conn_pending c' = p" "conn_callers c' = conn_callers c" "conn_in_flight c' = conn_in_flight c"
    "conn_inbound c' = conn_inbound c" "conn_handlers c' = conn_handlers c" "conn_options c' = conn_options c"
    "conn_state c' = conn_state c"
    using assms(4) by (simp_all add: same_but_io_def)
  ultimately show ?thesis using assms(1) p(2,4) unfolding conn_inv_def by fastforce
qed

lemma allocate_keeps:
  assumes "conn_inv c D" "int (length (futures (conn_pending c))) + 2 < UINT64_MAX"
    "allocate t (conn_pending c) = ((cid, f), p)" "\<not> is_closed c"
  shows "conn_inv (c\<lparr>conn_pending := p\<rparr>) D" "cid = int f + 1" "f < length (futures p)" "cid \<notin> D"
    "(cid, f) \<notin> set (conn_callers c)"
proof -
  have inv: "pending_inv (conn_pending c) D" using assms(1) by (simp add: conn_inv_def)
  note p = allocate_facts [OF assms(3) inv]
  have "pending_inv p D" unfolding p(1) by (rule pending_inv_step [OF inv]) (use assms(2) in auto)
  then show "conn_inv (c\<lparr>conn_pending := p\<rparr>) D"
    using assms(1,4) p(4) unfolding conn_inv_def is_closed_def by fastforce
  show "cid = int f + 1" "f < length (futures p)" using p by simp_all
  show "cid \<notin> D" "(cid, f) \<notin> set (conn_callers c)"
    using assms(1) p(2,3) unfolding conn_inv_def by fastforce+
qed

lemma send_with_permit_inv:
  assumes "conn_inv c D" "int (length (futures (conn_pending c))) + 2 < UINT64_MAX"
  shows "\<exists>D'. conn_inv (snd (send_with_permit env now h b t c)) D'
    \<and> length (futures (conn_pending (snd (send_with_permit env now h b t c)))) \<le> Suc (length (futures (conn_pending c)))"
proof (cases "conn_in_flight c = 0")
  case True
  then show ?thesis using assms(1) by (auto simp: send_with_permit_def)
next
  case False
  have inv: "pending_inv (conn_pending c) D" using assms(1) by (simp add: conn_inv_def)
  obtain cid f p where al: "allocate t (conn_pending c) = ((cid, f), p)" by (metis prod.exhaust)
  let ?msg = "\<lparr>message_type = REQUEST, correlation_id = cid, msg_header = h, msg_body = b\<rparr>"
  obtain r c' where w: "write_frame env now ?msg (c\<lparr>conn_pending := p\<rparr>) = (r, c')" by fastforce
  have io: "same_but_io (c\<lparr>conn_pending := p\<rparr>) c'" using write_frame_io [of "c\<lparr>conn_pending := p\<rparr>"] w by (metis snd_conv)
  have len: "length (futures p) = Suc (length (futures (conn_pending c)))" by (rule allocate_facts [OF al inv])
  show ?thesis
  proof (cases r)
    case (Inl e)
    have "conn_inv (c'\<lparr>conn_pending := discard cid (conn_pending c')\<rparr>) (insert cid D)"
      by (rule allocate_discard [OF assms al io])
    then show ?thesis using False al w Inl len io
      by (intro exI [of _ "insert cid D"]) (simp add: send_with_permit_def discard_def cancel_timeout_def Let_def same_but_io_def)
  next
    case (Inr u)
    have "\<not> is_closed (c\<lparr>conn_pending := p\<rparr>)" using write_closed [of "c\<lparr>conn_pending := p\<rparr>"] w Inr by (metis fst_conv old.unit.exhaust)
    then have "\<not> is_closed c" by (simp add: is_closed_def)
    note k = allocate_keeps [OF assms al this]
    have "conn_inv c' D" by (rule same_but_io_inv [OF io k(1)])
    then have "conn_inv (c'\<lparr>conn_in_flight := conn_in_flight c' - 1, conn_callers := conn_callers c' @ [(cid, f)]\<rparr>) D"
      using k(2-) io False by (auto simp: conn_inv_def same_but_io_def)
    then show ?thesis using False al w Inr len io
      by (intro exI [of _ D]) (simp add: send_with_permit_def same_but_io_def)
  qed
qed

text \<open>The shape of every preservation lemma: some set of given-up ids, at most one more future.\<close>

definition keeps :: "SiloConnection \<Rightarrow> SiloConnection \<Rightarrow> bool" where
  "keeps c c' \<longleftrightarrow> (\<exists>D. conn_inv c' D)
     \<and> length (futures (conn_pending c')) \<le> Suc (length (futures (conn_pending c)))
     \<and> conn_options c' = conn_options c"

lemma keepsI:
  "conn_inv c' D \<Longrightarrow> length (futures (conn_pending c')) \<le> Suc (length (futures (conn_pending c))) \<Longrightarrow>
   conn_options c' = conn_options c \<Longrightarrow> keeps c c'"
  by (auto simp: keeps_def)

lemma keeps_io: "conn_inv c D \<Longrightarrow> same_but_io c c' \<Longrightarrow> keeps c c'"
  by (rule keepsI [of c' D], erule (1) same_but_io_inv [rotated]) (simp_all add: same_but_io_def)

lemma keeps_io_trans: "keeps c c' \<Longrightarrow> same_but_io c' c'' \<Longrightarrow> keeps c c''"
  using same_but_io_inv [of c' c''] unfolding keeps_def by (metis same_but_io_def)

lemma send_with_permit_options [simp]: "conn_options (snd (send_with_permit env now h b t c)) = conn_options c"
  by (auto simp: send_with_permit_def split: prod.splits sum.splits dest: write_frame_options)

lemma send_ping_keeps:
  assumes "conn_inv c D" "int (length (futures (conn_pending c))) + 2 < UINT64_MAX"
  shows "keeps c (snd (send_ping env now t c))"
proof (cases "ensure_running c")
  case (Inl e)
  then show ?thesis using assms(1) by (auto simp: send_ping_def intro: keepsI)
next
  case (Inr v)
  have inv: "pending_inv (conn_pending c) D" using assms(1) by (simp add: conn_inv_def)
  obtain cid f p where al: "allocate (Some t) (conn_pending c) = ((cid, f), p)" by (metis prod.exhaust)
  let ?msg = "\<lparr>message_type = PING, correlation_id = cid, msg_header = [], msg_body = []\<rparr>"
  obtain r c' where w: "write_frame env now ?msg (c\<lparr>conn_pending := p\<rparr>) = (r, c')" by fastforce
  have io: "same_but_io (c\<lparr>conn_pending := p\<rparr>) c'" using write_frame_io [of "c\<lparr>conn_pending := p\<rparr>"] w by (metis snd_conv)
  have len: "length (futures p) = Suc (length (futures (conn_pending c)))" by (rule allocate_facts [OF al inv])
  have open_conn: "\<not> is_closed c" using Inr by (auto simp: ensure_running_def is_closed_def split: if_splits)
  show ?thesis
  proof (cases r)
    case (Inl e)
    have "conn_inv (c'\<lparr>conn_pending := discard cid (conn_pending c')\<rparr>) (insert cid D)"
      by (rule allocate_discard [OF assms al io])
    then show ?thesis using \<open>ensure_running c = Inr v\<close> al w Inl len io
      by (intro keepsI [of _ "insert cid D"])
        (simp_all add: send_ping_def discard_def cancel_timeout_def Let_def same_but_io_def)
  next
    case (Inr u)
    note k = allocate_keeps [OF assms al open_conn]
    show ?thesis using \<open>ensure_running c = Inr v\<close> al w Inr len io same_but_io_inv [OF io k(1)]
      by (intro keepsI [of _ D]) (simp_all add: send_ping_def same_but_io_def)
  qed
qed

lemma finish_request_keeps:
  assumes "conn_inv c D" "int (length (futures (conn_pending c))) + 2 < UINT64_MAX"
  shows "keeps c (snd (finish_request caller c))"
proof -
  obtain cid f where caller: "caller = (cid, f)" by (cases caller)
  let ?c1 = "c\<lparr>conn_callers := remove1 caller (conn_callers c), conn_in_flight := conn_in_flight c + 1\<rparr>"
  show ?thesis
  proof (cases "caller \<in> set (conn_callers c)")
    case False
    then show ?thesis using assms(1) by (auto simp: finish_request_def caller Let_def intro: keepsI)
  next
    case True
    have *: "cid = int f + 1" "f < length (futures (conn_pending c))" "cid \<notin> D" "distinct (conn_callers c)"
      using assms(1) True by (auto simp: conn_inv_def caller)
    have len: "Suc (length (remove1 caller (conn_callers c))) = length (conn_callers c)"
      using True length_pos_if_in_set [OF True] by (simp add: length_remove1)
    have c1: "conn_inv ?c1 D"
      using assms(1) len set_remove1_subset [of caller "conn_callers c"] unfolding conn_inv_def
      by (auto dest!: subsetD [OF set_remove1_subset])
    have "\<forall>g. (cid, g) \<notin> set (conn_callers ?c1)"
    proof (intro allI notI)
      fix g assume g: "(cid, g) \<in> set (conn_callers ?c1)"
      then have "(cid, g) \<in> set (conn_callers c)" using set_remove1_subset by fastforce
      then have "g = f" using assms(1) *(1) unfolding conn_inv_def by fastforce
      with g *(4) show False by (simp add: caller set_remove1_eq)
    qed
    then have "conn_inv (?c1\<lparr>conn_pending := discard cid (conn_pending ?c1)\<rparr>) (insert cid D)"
      by (intro discard_keeps [OF c1]) (use assms(2) * in auto)
    then show ?thesis
      using c1 True by (cases "futures (conn_pending c) ! f")
        (auto simp: finish_request_def caller Let_def discard_def cancel_timeout_def intro: keepsI assms(1))
  qed
qed

lemma keepalive_answer_keeps:
  assumes "conn_inv c D" "int (length (futures (conn_pending c))) + 2 < UINT64_MAX"
    "caller \<notin> set (conn_callers c)" "fst caller = int (snd caller) + 1" "snd caller < length (futures (conn_pending c))"
  shows "keeps c (keepalive_answer caller c)"
proof -
  obtain cid f where caller: "caller = (cid, f)" by (cases caller)
  have none: "\<forall>g. (cid, g) \<notin> set (conn_callers c)"
    using assms(1,3,4) unfolding conn_inv_def caller by fastforce
  have d: "conn_inv (c\<lparr>conn_pending := discard cid (conn_pending c)\<rparr>) (insert cid D)"
    by (rule discard_keeps [OF assms(1) _ none]) (use assms(2,4,5) in \<open>auto simp: caller\<close>)
  have len: "length (futures (discard cid p)) = length (futures p)" for p
    by (simp add: discard_def cancel_timeout_def Let_def)
  show ?thesis
  proof (cases "futures (conn_pending c) ! f")
    case (Exn e)
    have "keeps c (c\<lparr>conn_pending := discard cid (conn_pending c)\<rparr>)"
      using d by (rule keepsI) (simp_all add: len)
    moreover have "same_but_io (c\<lparr>conn_pending := discard cid (conn_pending c)\<rparr>) (keepalive_answer caller c)"
      using Exn by (auto simp: keepalive_answer_def finish_ping_def caller same_but_io_def schedule_close_lost_def)
    ultimately show ?thesis by (rule keeps_io_trans)
  qed (use d assms(1) in \<open>auto simp: keepalive_answer_def finish_ping_def caller len intro: keepsI\<close>)
qed

lemma dispatch_keeps:
  assumes "conn_inv c D" "int (length (futures (conn_pending c))) + 2 < UINT64_MAX"
    "dispatch env now msg c = Some (r, c')"
  shows "keeps c c'"
proof -
  let ?p = "\<lambda>op. c\<lparr>conn_pending := pending_step op (conn_pending c)\<rparr>"
  have settle: "keeps c (?p op)" if "op \<in> {Complete cid v, Fail cid e, Expire cid, CancelFuture f}" for op cid v e f
    by (rule keepsI [OF settle_keeps [OF assms(1) _ that]])
      (use assms(2) that in \<open>auto simp: length_futures_step allocations_def\<close>)
  show ?thesis
  proof (cases "message_type msg")
    case REQUEST
    then show ?thesis using assms(1,3)
      by (auto simp: dispatch_def spawn_bounded_handler_def conn_inv_def split: if_splits intro!: keepsI [of _ D])
  next
    case ONE_WAY
    then show ?thesis using assms(1,3)
      by (auto simp: dispatch_def spawn_bounded_handler_def conn_inv_def split: if_splits intro!: keepsI [of _ D])
  next
    case RESPONSE
    then show ?thesis using settle [of "Complete (correlation_id msg) (msg_header msg, msg_body msg)"] assms(3)
      by (auto simp: dispatch_def)
  next
    case PONG
    then show ?thesis using settle [of "Complete (correlation_id msg) ([], [])"] assms(3)
      by (auto simp: dispatch_def)
  next
    case ERROR
    then show ?thesis using settle [of "Fail (correlation_id msg) (decode_error (msg_body msg))"] assms(3)
      by (auto simp: dispatch_def)
  next
    case PING
    then have "c' = snd (write_frame env now
        \<lparr>message_type = PONG, correlation_id = correlation_id msg, msg_header = [], msg_body = []\<rparr> c)"
      using assms(3) by (metis dispatch_def MessageType.simps(34) option.inject snd_conv)
    then show ?thesis using keeps_io [OF assms(1) write_frame_io] by simp
  qed
qed

lemma read_loop_step_keeps:
  assumes "conn_inv c D" "int (length (futures (conn_pending c))) + 2 < UINT64_MAX"
  shows "keeps c (snd (read_loop_step env now reader c))"
proof (cases "read_frame reader (max_message_size (conn_options c))")
  case (Inl e)
  then show ?thesis using keeps_io [OF assms(1) end_read_loop_io] keepsI [OF assms(1)]
    by (auto simp: read_loop_step_def)
next
  case (Inr x)
  obtain msg rest where x: "x = (msg, rest)" by (cases x)
  let ?c = "c\<lparr>conn_last_activity := now\<rparr>"
  have c: "conn_inv ?c D" by (rule conn_inv_cong [OF _ _ _ _ _ _ _ assms(1)]) simp_all
  show ?thesis
  proof (cases "dispatch env now msg ?c")
    case None
    then show ?thesis using Inr x keepsI [OF assms(1)] by (auto simp: read_loop_step_def)
  next
    case (Some y)
    obtain r c' where y: "y = (r, c')" by (cases y)
    have "keeps ?c c'" by (rule dispatch_keeps [OF c _ Some [unfolded y]]) (use assms(2) in simp)
    then have k: "keeps c c'" by (simp add: keeps_def)
    then show ?thesis using Inr x Some y keepsI [OF assms(1)] keeps_io_trans [OF k end_read_loop_io]
      by (cases r) (auto simp: read_loop_step_def)
  qed
qed

lemma handler_done_keeps:
  assumes "conn_inv c D"
  shows "keeps c (handler_done env now msg outcome c)"
proof (cases "msg \<in> set (conn_handlers c)")
  case False
  then show ?thesis using keepsI [OF assms] by (auto simp: handler_done_def)
next
  case True
  let ?c1 = "if message_type msg = REQUEST then conn_handle_request env now msg outcome c else c"
  have io: "same_but_io c ?c1"
    using write_frame_io by (auto simp: conn_handle_request_def split: sum.split) (auto simp: same_but_io_def)
  have inv: "conn_inv ?c1 D" by (rule same_but_io_inv [OF io assms])
  have len: "Suc (length (remove1 msg (conn_handlers ?c1))) = length (conn_handlers ?c1)"
    using True length_pos_if_in_set [OF True] io by (simp add: length_remove1 same_but_io_def)
  have "conn_inv (?c1\<lparr>conn_handlers := remove1 msg (conn_handlers ?c1), conn_inbound := conn_inbound ?c1 + 1\<rparr>) D"
    using inv len unfolding conn_inv_def by simp
  then show ?thesis using True io unfolding handler_done_def
    by (auto simp: Let_def same_but_io_def intro!: keepsI [of _ D])
qed

lemma close_end_keeps:
  assumes "conn_inv c D" "int (length (futures (conn_pending c))) + 2 < UINT64_MAX"
  shows "keeps c (close_end reason c)"
proof (cases "conn_state c = ConnClosing")
  case False
  then show ?thesis using keepsI [OF assms(1)] by (simp add: close_end_def)
next
  case True
  let ?p = "pending_step (FailAll TransportConnectionError) (conn_pending c)"
  have p: "pending_inv ?p D" by (rule pending_inv_step) (use assms in \<open>auto simp: conn_inv_def\<close>)
  have "length (futures ?p) = length (futures (conn_pending c))"
    by (simp add: length_futures_step allocations_def del: pending_step.simps)
  then show ?thesis using True assms(1) p unfolding conn_inv_def
    by (intro keepsI [of _ D]) (auto simp: close_end_def conn_inv_def fail_all_def)
qed

lemma conn_step_keeps:
  assumes "conn_inv c D" "int (length (futures (conn_pending c))) + 2 < UINT64_MAX"
  shows "keeps c (conn_step op c)"
proof -
  have stay: "keeps c c" using keepsI [OF assms(1)] by simp
  have settle: "keeps c (c\<lparr>conn_pending := pending_step op (conn_pending c)\<rparr>)"
    if "op \<in> {Complete cid v, Fail cid e, Expire cid, CancelFuture f}" for op cid v e f
    by (rule keepsI [OF settle_keeps [OF assms(1) _ that]])
      (use assms(2) that in \<open>auto simp: length_futures_step allocations_def\<close>)
  have send: "keeps c (snd (send_with_permit env now h b t c))" for env now h b t
    using send_with_permit_inv [OF assms, of env now h b t] by (auto simp: keeps_def)
  have io: "keeps c c'" if "same_but_io c c'" for c' by (rule keeps_io [OF assms(1) that])
  show ?thesis
  proof (cases op)
    case ConnStart
    have "conn_inv (conn_start c) D" by (rule conn_inv_cong [OF _ _ _ _ _ _ _ assms(1)]) (auto simp: conn_start_def)
    then show ?thesis using ConnStart by (intro keepsI [of _ D]) (auto simp: conn_start_def)
  next
    case (SendRequest env now h b t)
    then show ?thesis using send stay by (auto simp: send_request_def split: sum.split)
  next
    case (CallerCancelled f)
    then show ?thesis using settle [of "CancelFuture f"] by simp
  next
    case (RequestTimeout cid)
    then show ?thesis using settle [of "Expire cid"] by simp
  next
    case (SendOneWay env now h b)
    then show ?thesis using io [OF write_frame_io] stay by (auto simp: send_one_way_def split: sum.split)
  next
    case (KeepaliveTurn env now)
    obtain r c' where p: "send_ping env now (keepalive_timeout (conn_options c)) c = (r, c')" by fastforce
    have k: "keeps c c'" using send_ping_keeps [OF assms] p by (metis snd_conv)
    have "same_but_io c' ((if e \<in> {TransportTimeoutError, TransportConnectionError, TransportClosedError}
               then schedule_close_lost c' else c')\<lparr>conn_keepalive := False\<rparr>)" for e
      by (auto simp: same_but_io_def schedule_close_lost_def)
    note lost = keeps_io_trans [OF k this]
    have off: "keeps c (c\<lparr>conn_keepalive := False\<rparr>)" by (rule io) (simp add: same_but_io_def)
    show ?thesis unfolding KeepaliveTurn conn_step.simps keepalive_turn_def p
      using k lost off stay by (simp split: send_outcome.split)
  next
    case CloseBegin
    have "conn_inv (close_begin c) D"
      by (rule conn_inv_cong [OF _ _ _ _ _ _ _ assms(1)]) (auto simp: close_begin_def)
    then show ?thesis using CloseBegin by (intro keepsI [of _ D]) (auto simp: close_begin_def)
  qed (use send stay finish_request_keeps [OF assms] keepalive_answer_keeps [OF assms]
      read_loop_step_keeps [OF assms] handler_done_keeps [OF assms(1)] close_end_keeps [OF assms]
      in \<open>auto simp del: keeps_def\<close>)
qed

lemma conn_run_inv:
  assumes "conn_inv c D" "int (length (futures (conn_pending c)) + length ops) + 2 < UINT64_MAX"
  shows "(\<exists>D. conn_inv (conn_run ops c) D) \<and> conn_options (conn_run ops c) = conn_options c
    \<and> length (futures (conn_pending (conn_run ops c))) \<le> length (futures (conn_pending c)) + length ops"
  using assms
proof (induction ops arbitrary: c D)
  case (Cons op ops)
  have "keeps c (conn_step op c)" by (rule conn_step_keeps [OF Cons.prems(1)]) (use Cons.prems(2) in simp)
  then obtain D' where k: "conn_inv (conn_step op c) D'"
    "length (futures (conn_pending (conn_step op c))) \<le> Suc (length (futures (conn_pending c)))"
    "conn_options (conn_step op c) = conn_options c" by (auto simp: keeps_def)
  from Cons.IH [OF k(1)] k(2,3) Cons.prems(2) show ?case by (auto simp: conn_run_def)
qed (auto simp: conn_run_def)

subsection \<open>Properties\<close>

lemma finish_outcome:
  "caller \<in> set (conn_callers c) \<Longrightarrow> fst (finish_request caller c) = futures (conn_pending c) ! snd caller"
  by (cases caller; cases "futures (conn_pending c) ! snd caller") (simp_all add: finish_request_def Let_def)

lemma send_request_state [simp]: "conn_state (snd (send_request env now h b t c)) = conn_state c"
  by (auto simp: send_request_def send_with_permit_def split: prod.splits sum.splits dest: write_frame_state)


definition peer_silo :: SiloAddress where
  "peer_silo = SiloAddress (lit ''h'') 1 2"


text \<open>What a caller gets for an outcome of the handler at its peer.\<close>

definition reply_of :: "handler_outcome \<Rightarrow> fstate" where
  "reply_of outcome =
     (case outcome of
        Responds r \<Rightarrow> Result (msg_header r, msg_body r)
      | RespondsNone \<Rightarrow> Exn TransportError
      | HandlerRaises e reason \<Rightarrow> Exn (code_to_exception_class (exception_to_code e)))"

text \<open>A handler answers its own request; the text of an exception fits into an error payload.\<close>

definition proper_outcome :: "int \<Rightarrow> handler_outcome \<Rightarrow> bool" where
  "proper_outcome cid outcome =
     (case outcome of
        Responds r \<Rightarrow> message_type r = RESPONSE \<and> correlation_id r = cid
      | RespondsNone \<Rightarrow> True
      | HandlerRaises e reason \<Rightarrow> length (utf8_bytes reason) \<le> MAX_REASON_BYTES)"

lemma decode_error_encoded:
  assumes "encode_error_response cid e reason = Inr msg" "length (utf8_bytes reason) \<le> MAX_REASON_BYTES"
  shows "message_type msg = ERROR \<and> correlation_id msg = cid
    \<and> decode_error (msg_body msg) = code_to_exception_class (exception_to_code e)"
proof -
  let ?p = "ErrorPayload (exception_to_code e) reason"
  from assms(1) obtain body where body: "encode_error_payload ?p = Inr body"
    and msg: "msg = \<lparr>message_type = ERROR, correlation_id = cid, msg_header = [], msg_body = body\<rparr>"
    by (auto simp: encode_error_response_def res_bind_Inr_iff)
  have "list_all valid_cp reason"
    using body by (auto simp: encode_error_payload_def res_bind_Inr_iff utf8_encode_Inr split: if_splits)
  then have "decode_error_payload body = Inr ?p"
    using assms(2) by (simp add: decode_encoded_error [OF body] utf8_decode_bytes)
  then show ?thesis by (simp add: msg decode_error_def)
qed

lemma proper_reply:
  assumes "proper_outcome cid outcome" "invoke_handler_safely req outcome = Inr resp" "correlation_id req = cid"
  shows "correlation_id resp = cid" "reply_of outcome = (if message_type resp = ERROR
       then Exn (decode_error (msg_body resp)) else Result (msg_header resp, msg_body resp))"
    "message_type resp = RESPONSE \<or> message_type resp = ERROR"
proof -
  have "length (utf8_bytes (lit ''handler returned None for REQUEST'')) \<le> MAX_REASON_BYTES"
    by (simp add: MAX_REASON_BYTES_def utf8_bytes_def utf8_enc1_def)
  note none = decode_error_encoded [OF _ this]
  have te: "code_to_exception_class (exception_to_code TransportError) = TransportError"
    by (simp add: code_to_exception_class_def exception_to_code_def APPLICATION_ERROR_BASE_def)
  have "correlation_id resp = cid \<and> reply_of outcome = (if message_type resp = ERROR
       then Exn (decode_error (msg_body resp)) else Result (msg_header resp, msg_body resp))
    \<and> (message_type resp = RESPONSE \<or> message_type resp = ERROR)"
    using assms none [of cid TransportError resp] decode_error_encoded [of cid _ _ resp] te
    by (cases outcome) (auto simp: proper_outcome_def reply_of_def invoke_handler_safely_def)
  then show "correlation_id resp = cid" "reply_of outcome = (if message_type resp = ERROR
       then Exn (decode_error (msg_body resp)) else Result (msg_header resp, msg_body resp))"
    "message_type resp = RESPONSE \<or> message_type resp = ERROR" by simp_all
qed

lemma write_ok:
  assumes "encode_frame msg (max_message_size (conn_options c)) = Inr frame" "snd env" "\<not> is_closed c"
    "\<not> backpressure_raises (conn_options c)"
  shows "write_frame env now msg c = (Inr (), c\<lparr>conn_written := conn_written c @ frame, conn_last_activity := now\<rparr>)"
  using assms by (simp add: write_frame_def enforce_backpressure_def)

lemma read_reply:
  assumes inv: "conn_inv a D" "(cid, f) \<in> set (conn_callers a)" "futures (conn_pending a) ! f = Waiting"
    and a: "conn_reading a" "encode_frame resp (max_message_size (conn_options a)) = Inr frame"
    and resp: "correlation_id resp = cid" "message_type resp = RESPONSE \<or> message_type resp = ERROR"
  shows "\<exists>a'. read_loop_step env now (frame @ rest) a = (rest, a') \<and> conn_callers a' = conn_callers a
    \<and> futures (conn_pending a') = (futures (conn_pending a))
        [f := if message_type resp = ERROR then Exn (decode_error (msg_body resp))
              else Result (msg_header resp, msg_body resp)]"
proof -
  have f: "cid = int f + 1" "f < length (futures (conn_pending a))" "cid \<notin> D"
    using inv(1,2) unfolding conn_inv_def by auto
  then have tab: "dget (pend (conn_pending a)) cid = Some f"
    using inv(1,3) unfolding conn_inv_def pending_inv_def by blast
  have read: "read_frame (frame @ rest) (max_message_size (conn_options a)) = Inr (resp, rest)"
    by (rule read_encoded_frame [OF a(2) order_refl])
  show ?thesis
    using resp a(1) read tab f inv(3)
    by (auto simp: read_loop_step_def dispatch_def complete_def fail_def pop_and_settle_def cancel_timeout_def
        settle_def)
qed

text \<open>
  C30. A request and its answer over two connections, whatever else is on them: the peer hands exactly
  the request that was sent to its handler, and when the answer comes back the caller whose id it
  carries gets it, with the header and the body of the handler's response, or with the class of the
  exception the handler raised (\<^verbatim>\<open>TransportError\<close> for one that has no code, and for a
  handler that returned nothing). Every other caller waits on as before, and the peer's permit is
  free again.
\<close>

theorem request_response:
  assumes "conn_inv a D" "(cid, f) \<in> set (conn_callers a)" "futures (conn_pending a) ! f = Waiting"
    and "conn_reading a" "conn_reading b" "conn_inbound b > 0" "\<not> is_closed b"
    and "max_message_size (conn_options b) = max_message_size (conn_options a)"
    and "\<not> backpressure_raises (conn_options b)" "snd env2"
    and "message_type req = REQUEST" "correlation_id req = cid" "proper_outcome cid outcome"
    and "encode_frame req (max_message_size (conn_options a)) = Inr frame"
    and "invoke_handler_safely req outcome = Inr resp"
    and "encode_frame resp (max_message_size (conn_options a)) = Inr reply"
  shows "\<exists>b1 a1. read_loop_step env1 t1 (frame @ rest) b = (rest, b1)
    \<and> conn_handlers b1 = conn_handlers b @ [req]
    \<and> conn_written (handler_done env2 t2 req outcome b1) = conn_written b @ reply
    \<and> conn_inbound (handler_done env2 t2 req outcome b1) = conn_inbound b
    \<and> read_loop_step env3 t3 (reply @ rest') a = (rest', a1)
    \<and> fst (finish_request (cid, f) a1) = reply_of outcome
    \<and> (\<forall>(cid', f') \<in> set (conn_callers a). f' \<noteq> f \<longrightarrow>
         fst (finish_request (cid', f') a1) = fst (finish_request (cid', f') a))"
proof -
  note pr = proper_reply [OF assms(13,15,12)]
  from read_reply [OF assms(1-4,16) pr(1,3), of env3 t3 rest'] obtain a1 where
    a1: "read_loop_step env3 t3 (reply @ rest') a = (rest', a1)" "conn_callers a1 = conn_callers a"
      "futures (conn_pending a1) = (futures (conn_pending a))[f := reply_of outcome]"
    unfolding pr(2) by blast
  have f: "f < length (futures (conn_pending a))" using assms(1,2) unfolding conn_inv_def by auto
  let ?b1 = "b\<lparr>conn_last_activity := t1, conn_inbound := conn_inbound b - 1, conn_handlers := conn_handlers b @ [req]\<rparr>"
  have "read_frame (frame @ rest) (max_message_size (conn_options b)) = Inr (req, rest)"
    unfolding assms(8) by (rule read_encoded_frame [OF assms(14) order_refl])
  then have b1: "read_loop_step env1 t1 (frame @ rest) b = (rest, ?b1)"
    using assms(5,6,11) by (simp add: read_loop_step_def dispatch_def spawn_bounded_handler_def)
  have w: "write_frame env2 t2 resp ?b1 =
      (Inr (), ?b1\<lparr>conn_written := conn_written ?b1 @ reply, conn_last_activity := t2\<rparr>)"
    by (rule write_ok) (use assms(7-10,16) in \<open>auto simp: is_closed_def\<close>)
  have done1: "conn_written (handler_done env2 t2 req outcome ?b1) = conn_written b @ reply"
    "conn_inbound (handler_done env2 t2 req outcome ?b1) = conn_inbound b"
    using assms(6,11,15) w by (simp_all add: handler_done_def conn_handle_request_def Let_def)
  have mine: "fst (finish_request (cid, f) a1) = reply_of outcome"
    using finish_outcome [of "(cid, f)" a1] a1(2,3) assms(2) f by simp
  have others: "fst (finish_request (cid', f') a1) = fst (finish_request (cid', f') a)"
    if "(cid', f') \<in> set (conn_callers a)" "f' \<noteq> f" for cid' f'
    using finish_outcome [of "(cid', f')"] a1(2,3) that by simp
  show ?thesis
    using a1(1) b1 done1 mine others by (intro exI [of _ ?b1] exI [of _ a1]) auto
qed

lemma frame_exists:
  assumes "0 \<le> correlation_id m" "correlation_id m \<le> UINT64_MAX" "int (frame_total m) \<le> UINT32_MAX"
    "int (FRAME_PREFIX_SIZE + frame_total m) \<le> limit"
  shows "\<exists>frame. encode_frame m limit = Inr frame"
  using assms unfolding encode_frame_Inr by blast

definition demo_options :: TransportOptions where
  "demo_options = default_transport_options"

definition demo_caller :: SiloConnection where
  "demo_caller = (conn_start (new_connection peer_silo demo_options 0))
     \<lparr>conn_pending := snd (allocate None (new_pending 30)), conn_in_flight := 999, conn_callers := [(1, 0)]\<rparr>"

lemma demo_caller_inv: "conn_inv demo_caller {}"
proof -
  have "pending_inv (pending_step (Allocate None) (new_pending 30)) {}"
    by (rule pending_inv_step [OF pending_inv_new]) (simp_all add: new_pending_def UINT64_MAX_def)
  then have "pending_inv (snd (allocate None (new_pending 30))) {}" by simp
  then show ?thesis
    by (simp add: conn_inv_def demo_caller_def demo_options_def default_transport_options_def new_connection_def
        conn_start_def) (simp add: allocate_def new_pending_def Let_def)
qed

theorem request_response_witness:
  "\<exists>frame reply b1 a1. read_loop_step (0, True) 1 frame (conn_start (new_connection peer_silo demo_options 0)) = ([], b1)
    \<and> read_loop_step (0, True) 3 reply demo_caller = ([], a1)
    \<and> fst (finish_request (1, 0) a1) = Result ([], [7])"
proof -
  let ?req = "\<lparr>message_type = REQUEST, correlation_id = 1, msg_header = [], msg_body = [5]\<rparr>"
  let ?resp = "\<lparr>message_type = RESPONSE, correlation_id = 1, msg_header = [], msg_body = [7]\<rparr>"
  let ?b = "conn_start (new_connection peer_silo demo_options 0)" and ?size = "max_message_size (conn_options demo_caller)"
  have size: "?size = 16777216"
    by (simp add: demo_caller_def conn_start_def new_connection_def demo_options_def default_transport_options_def)
  have "\<exists>frame. encode_frame ?req ?size = Inr frame" "\<exists>frame. encode_frame ?resp ?size = Inr frame"
    by (rule frame_exists; simp add: size frame_total_def FRAME_OVERHEAD_AFTER_PREFIX_def FRAME_PREFIX_SIZE_def
        UINT64_MAX_def UINT32_MAX_def)+
  then obtain frame reply where fr: "encode_frame ?req ?size = Inr frame" "encode_frame ?resp ?size = Inr reply" by blast
  have a: "(1, 0) \<in> set (conn_callers demo_caller)" "futures (conn_pending demo_caller) ! 0 = Waiting" "conn_reading demo_caller"
    by (simp_all add: demo_caller_def conn_start_def new_connection_def allocate_def new_pending_def Let_def)
  have b: "conn_reading ?b" "conn_inbound ?b > 0" "\<not> is_closed ?b" "max_message_size (conn_options ?b) = ?size"
    "\<not> backpressure_raises (conn_options ?b)"
    by (simp_all add: demo_caller_def conn_start_def new_connection_def demo_options_def default_transport_options_def
        is_closed_def)
  have o: "snd (0 :: nat, True)" "message_type ?req = REQUEST" "correlation_id ?req = 1"
    "proper_outcome 1 (Responds ?resp)" "invoke_handler_safely ?req (Responds ?resp) = Inr ?resp"
    by (simp_all add: proper_outcome_def invoke_handler_safely_def)
  from request_response [OF demo_caller_inv a b o(1-4) fr(1) o(5) fr(2), where ?env1.0 = "(0, True)" and ?t1.0 = 1
      and rest = "[]" and ?t2.0 = 2 and ?env3.0 = "(0, True)" and ?t3.0 = 3 and rest' = "[]"]
  obtain b1 a1 where "read_loop_step (0, True) 1 (frame @ []) ?b = ([], b1)"
    "read_loop_step (0, True) 3 (reply @ []) demo_caller = ([], a1)"
    "fst (finish_request (1, 0) a1) = reply_of (Responds ?resp)" by blast
  then show ?thesis
    by (intro exI [of _ frame] exI [of _ reply] exI [of _ b1] exI [of _ a1]) (simp add: reply_of_def)
qed

end
