(* ===== verification/ConnectionManager.thy ===== *)
theory ConnectionManager
  imports Connection
begin

text \<open>
  \<^verbatim>\<open>pyleans/transport/tcp/manager.py\<close>: the connections of a silo to all others.
  Connections are objects, so the tables hold indices into the list of all connections ever made.
  What the network does during a dial or an accept is given with the operation; an operation runs
  without another one in between, except where its two halves are definitions of their own (a dial,
  the reconnect loop, the monitor of a connection).
\<close>

subsection \<open>State\<close>

datatype link_event = LinkEstablished SiloAddress | LinkLost SiloAddress "error option"

record SiloConnectionManager =
  mgr_local :: SiloAddress
  mgr_cluster :: ClusterId
  mgr_options :: TransportOptions
  mgr_role_flags :: int
  mgr_conns :: "SiloConnection list"
  mgr_connections :: "(SiloAddress, nat) dict"
  mgr_initiators :: "(SiloAddress, SiloAddress) dict"
  mgr_dials :: "SiloAddress list"
  mgr_reconnects :: "(SiloAddress, nat) dict"
  mgr_monitors :: "(SiloAddress, nat) dict"
  mgr_active :: "SiloAddress set"
  mgr_stopped :: bool
  mgr_log :: "link_event list"

definition new_manager :: "SiloAddress \<Rightarrow> ClusterId \<Rightarrow> TransportOptions \<Rightarrow> int \<Rightarrow> SiloConnectionManager" where
  "new_manager local cluster opts flags =
     \<lparr>mgr_local = local, mgr_cluster = cluster, mgr_options = opts, mgr_role_flags = flags, mgr_conns = [],
      mgr_connections = [], mgr_initiators = [], mgr_dials = [], mgr_reconnects = [], mgr_monitors = [],
      mgr_active = {}, mgr_stopped = False, mgr_log = []\<rparr>"

definition get_connection :: "SiloAddress \<Rightarrow> SiloConnectionManager \<Rightarrow> nat option" where
  "get_connection s m =
     (case dget (mgr_connections m) s of
        None \<Rightarrow> None
      | Some i \<Rightarrow> if is_closed (mgr_conns m ! i) then None else Some i)"

definition get_connected_silos :: "SiloConnectionManager \<Rightarrow> SiloAddress list" where
  "get_connected_silos m =
     map fst (filter (\<lambda>(s, i). \<not> is_closed (mgr_conns m ! i)) (mgr_connections m))"

definition build_handshake :: "SiloConnectionManager \<Rightarrow> Handshake" where
  "build_handshake m =
     \<lparr>protocol_version = PROTOCOL_VERSION, hs_cluster_id = cluster_value (mgr_cluster m),
      hs_silo_id = silo_id (mgr_local m), role_flags = mgr_role_flags m\<rparr>"

subsection \<open>Installing a connection\<close>

definition dedup_keeps_existing :: "SiloAddress \<Rightarrow> SiloAddress \<Rightarrow> bool" where
  "dedup_keeps_existing existing_initiator new_initiator =
     (if existing_initiator = new_initiator then True else silo_id existing_initiator < silo_id new_initiator)"

text \<open>
  \<^verbatim>\<open>conn.close(reason)\<close> run to its end. A connection that is already closing is left to whoever closes it.
\<close>

definition close_fully :: "close_reason \<Rightarrow> SiloConnection \<Rightarrow> SiloConnection" where
  "close_fully reason c =
     (if conn_state c = ConnClosed \<or> conn_state c = ConnClosing then c else close_end reason (close_begin c))"

definition close_connection :: "close_reason \<Rightarrow> nat \<Rightarrow> SiloConnectionManager \<Rightarrow> SiloConnectionManager" where
  "close_connection reason i m = m\<lparr>mgr_conns := (mgr_conns m)[i := close_fully reason (mgr_conns m ! i)]\<rparr>"

definition register_connection ::
  "SiloAddress \<Rightarrow> SiloAddress \<Rightarrow> seconds \<Rightarrow> SiloConnectionManager \<Rightarrow> nat \<times> SiloConnectionManager" where
  "register_connection remote initiator now m =
     (let i = length (mgr_conns m)
      in (i, m\<lparr>mgr_conns := mgr_conns m @ [conn_start (new_connection remote (mgr_options m) now)],
               mgr_connections := dset (mgr_connections m) remote i,
               mgr_initiators := dset (mgr_initiators m) remote initiator,
               mgr_monitors := dset (mgr_monitors m) remote i,
               mgr_log := mgr_log m @ [LinkEstablished remote]\<rparr>))"

definition install_connection ::
  "SiloAddress \<Rightarrow> SiloAddress \<Rightarrow> seconds \<Rightarrow> SiloConnectionManager \<Rightarrow> nat \<times> SiloConnectionManager" where
  "install_connection remote initiator now m =
     (case get_connection remote m of
        None \<Rightarrow> register_connection remote initiator now m
      | Some existing \<Rightarrow>
          if dedup_keeps_existing
               (case dget (mgr_initiators m) remote of None \<Rightarrow> remote | Some s \<Rightarrow> s) initiator
          then (existing, m)
          else register_connection remote initiator now
            (close_connection CloseNormal existing
              (m\<lparr>mgr_connections := dpop (mgr_connections m) remote,
                 mgr_initiators := dpop (mgr_initiators m) remote,
                 mgr_monitors := dpop (mgr_monitors m) remote\<rparr>)))"

subsection \<open>Dialling and accepting\<close>

text \<open>The connection cannot be opened, breaks during the handshake, or the peer sends its handshake.\<close>

datatype peer_io = OpenFails | HandshakeBreaks | PeerSends bool bytes

definition do_outbound_connect ::
  "SiloAddress \<Rightarrow> peer_io \<Rightarrow> seconds \<Rightarrow> SiloConnectionManager \<Rightarrow> nat result \<times> SiloConnectionManager" where
  "do_outbound_connect s io now m =
     (case io of
        OpenFails \<Rightarrow> (Inl TransportConnectionError, m)
      | _ \<Rightarrow>
          (case encode_handshake (build_handshake m) of
             Inl e \<Rightarrow> (Inl e, m)
           | Inr _ \<Rightarrow>
               (case io of
                  PeerSends timed_out bs \<Rightarrow>
                    (case res_bind (read_handshake timed_out bs) (\<lambda>(peer, _).
                            validate_peer_handshake peer (mgr_cluster m) (Some s)) of
                       Inl e \<Rightarrow> (Inl e, m)
                     | Inr _ \<Rightarrow> (case install_connection s (mgr_local m) now m of (i, m') \<Rightarrow> (Inr i, m')))
                | _ \<Rightarrow> (Inl TransportConnectionError, m))))"

text \<open>A call of \<^verbatim>\<open>connect\<close>: refused, served, waiting for a dial under way, or dialling.\<close>

datatype connect_outcome = ConnectRaises error | Connected nat | JoinsDial | StartsDial

definition connect_begin :: "SiloAddress \<Rightarrow> SiloConnectionManager \<Rightarrow> connect_outcome \<times> SiloConnectionManager" where
  "connect_begin s m =
     (if mgr_stopped m then (ConnectRaises TransportError, m)
      else
        (case get_connection s m of
           Some i \<Rightarrow> (Connected i, m)
         | None \<Rightarrow>
             if s \<in> set (mgr_dials m) then (JoinsDial, m)
             else (StartsDial, m\<lparr>mgr_dials := mgr_dials m @ [s]\<rparr>)))"

text \<open>The dial ends; a dial that was cancelled is not in the table any more.\<close>

definition dial_done ::
  "SiloAddress \<Rightarrow> peer_io \<Rightarrow> seconds \<Rightarrow> SiloConnectionManager \<Rightarrow> nat result \<times> SiloConnectionManager" where
  "dial_done s io now m =
     (if s \<notin> set (mgr_dials m) then (Inl OtherException, m)
      else (case do_outbound_connect s io now m of
              (r, m') \<Rightarrow> (r, m'\<lparr>mgr_dials := removeAll s (mgr_dials m')\<rparr>)))"

definition mgr_connect ::
  "SiloAddress \<Rightarrow> peer_io \<Rightarrow> seconds \<Rightarrow> SiloConnectionManager \<Rightarrow> nat result \<times> SiloConnectionManager" where
  "mgr_connect s io now m =
     (case connect_begin s m of
        (ConnectRaises e, m1) \<Rightarrow> (Inl e, m1)
      | (Connected i, m1) \<Rightarrow> (Inr i, m1)
      | (_, m1) \<Rightarrow> dial_done s io now m1)"

text \<open>
  The listener hands over a stream: refused when the manager is stopped, otherwise the handshake is
  awaited. \<open>write_ok\<close>: whether the own handshake reaches the peer.
\<close>

definition accept_done ::
  "bool \<Rightarrow> bytes \<Rightarrow> bool \<Rightarrow> seconds \<Rightarrow> SiloConnectionManager \<Rightarrow> SiloConnectionManager" where
  "accept_done timed_out bs write_ok now m =
     (case res_bind (read_handshake timed_out bs) (\<lambda>(peer, _).
           res_bind (validate_peer_handshake peer (mgr_cluster m) None) (\<lambda>_.
           res_bind (encode_handshake (build_handshake m)) (\<lambda>_.
           if \<not> write_ok then Inl TransportConnectionError else from_silo_id (hs_silo_id peer)))) of
        Inl _ \<Rightarrow> m
      | Inr remote \<Rightarrow> snd (install_connection remote remote now m))"

definition accept_inbound ::
  "bool \<Rightarrow> bytes \<Rightarrow> bool \<Rightarrow> seconds \<Rightarrow> SiloConnectionManager \<Rightarrow> SiloConnectionManager" where
  "accept_inbound timed_out bs write_ok now m =
     (if mgr_stopped m then m else accept_done timed_out bs write_ok now m)"

subsection \<open>Reconnecting\<close>

definition schedule_reconnect :: "SiloAddress \<Rightarrow> SiloConnectionManager \<Rightarrow> SiloConnectionManager" where
  "schedule_reconnect s m =
     (case dget (mgr_reconnects m) s of
        Some _ \<Rightarrow> m
      | None \<Rightarrow> m\<lparr>mgr_reconnects := dset (mgr_reconnects m) s 0\<rparr>)"

text \<open>
  The delay before an attempt; \<open>u\<close> is where in its range the jitter falls, from -1 to 1.
  \<^verbatim>\<open>base * (2**attempt)\<close> converts the integer power to a float, which fails from
  \<open>2\<^sup>1\<^sup>0\<^sup>2\<^sup>4\<close> on.
\<close>

definition reconnect_delay :: "TransportOptions \<Rightarrow> nat \<Rightarrow> seconds \<Rightarrow> seconds result" where
  "reconnect_delay opts attempt u =
     (if attempt \<ge> 1024 then Inl OverflowError
      else
        let delay = min (reconnect_base_delay opts * 2 ^ attempt) (reconnect_max_delay opts);
            jitter = u * (delay * reconnect_jitter_fraction opts)
        in Inr (max 0 (delay + jitter)))"

definition end_reconnect :: "SiloAddress \<Rightarrow> SiloConnectionManager \<Rightarrow> SiloConnectionManager" where
  "end_reconnect s m = m\<lparr>mgr_reconnects := dpop (mgr_reconnects m) s\<rparr>"

text \<open>The head of the loop up to its sleep: how long it sleeps, or nothing when the loop ends.\<close>

definition reconnect_sleep ::
  "SiloAddress \<Rightarrow> seconds \<Rightarrow> SiloConnectionManager \<Rightarrow> seconds option \<times> SiloConnectionManager" where
  "reconnect_sleep s u m =
     (case dget (mgr_reconnects m) s of
        None \<Rightarrow> (None, m)
      | Some attempt \<Rightarrow>
          if s \<notin> mgr_active m \<or> mgr_stopped m then (None, end_reconnect s m)
          else (case reconnect_delay (mgr_options m) attempt u of
                  Inl _ \<Rightarrow> (None, end_reconnect s m)
                | Inr d \<Rightarrow> (Some d, m)))"

text \<open>The attempt after the sleep.\<close>

definition reconnect_attempt ::
  "SiloAddress \<Rightarrow> peer_io \<Rightarrow> seconds \<Rightarrow> SiloConnectionManager \<Rightarrow> SiloConnectionManager" where
  "reconnect_attempt s io now m =
     (case dget (mgr_reconnects m) s of
        None \<Rightarrow> m
      | Some attempt \<Rightarrow>
          if s \<notin> mgr_active m \<or> mgr_stopped m then end_reconnect s m
          else (case mgr_connect s io now m of
                  (Inr _, m') \<Rightarrow> end_reconnect s m'
                | (Inl e, m') \<Rightarrow>
                    if e = HandshakeError \<or> \<not> is_transport_error e then end_reconnect s m'
                    else m'\<lparr>mgr_reconnects := dset (mgr_reconnects m') s (attempt + 1)\<rparr>))"

definition reconnect_turn ::
  "SiloAddress \<Rightarrow> seconds \<times> peer_io \<times> seconds \<Rightarrow> SiloConnectionManager \<Rightarrow> SiloConnectionManager" where
  "reconnect_turn s t m =
     (case t of (u, io, now) \<Rightarrow>
        (case reconnect_sleep s u m of
           (None, m') \<Rightarrow> m'
         | (Some _, m') \<Rightarrow> reconnect_attempt s io now m'))"

text \<open>The end of an eager connect.\<close>

definition eager_connect ::
  "SiloAddress \<Rightarrow> peer_io \<Rightarrow> seconds \<Rightarrow> SiloConnectionManager \<Rightarrow> SiloConnectionManager" where
  "eager_connect s io now m =
     (case mgr_connect s io now m of
        (Inr _, m') \<Rightarrow> m'
      | (Inl e, m') \<Rightarrow>
          if is_transport_error e \<and> s \<in> mgr_active m' \<and> \<not> mgr_stopped m' then schedule_reconnect s m' else m')"

text \<open>The task that watches connection \<open>i\<close>, when it finds it closed.\<close>

definition monitor_connection :: "SiloAddress \<Rightarrow> nat \<Rightarrow> SiloConnectionManager \<Rightarrow> SiloConnectionManager" where
  "monitor_connection s i m =
     (if \<not> is_closed (mgr_conns m ! i) \<or> dget (mgr_connections m) s \<noteq> Some i then m
      else
        let lost = conn_close_reason (mgr_conns m ! i) = Some CloseLost;
            m1 = m\<lparr>mgr_connections := dpop (mgr_connections m) s, mgr_initiators := dpop (mgr_initiators m) s,
                   mgr_monitors := dpop (mgr_monitors m) s,
                   mgr_log := mgr_log m @ [LinkLost s (if lost then Some TransportConnectionError else None)]\<rparr>
        in if lost \<and> s \<in> mgr_active m1 \<and> \<not> mgr_stopped m1 then schedule_reconnect s m1 else m1)"

subsection \<open>Membership and shutdown\<close>

definition mgr_disconnect :: "SiloAddress \<Rightarrow> SiloConnectionManager \<Rightarrow> SiloConnectionManager" where
  "mgr_disconnect s m =
     (let m1 = m\<lparr>mgr_reconnects := dpop (mgr_reconnects m) s, mgr_active := mgr_active m - {s}\<rparr>;
          m2 = (case dget (mgr_connections m1) s of
                  None \<Rightarrow> m1
                | Some i \<Rightarrow> close_connection CloseNormal i
                    (m1\<lparr>mgr_connections := dpop (mgr_connections m1) s,
                        mgr_initiators := dpop (mgr_initiators m1) s\<rparr>))
      in m2\<lparr>mgr_monitors := dpop (mgr_monitors m2) s\<rparr>)"

text \<open>The silos an eager connect is started for, and the manager after the disconnects.\<close>

definition update_active_silos ::
  "SiloAddress set \<Rightarrow> SiloConnectionManager \<Rightarrow> SiloAddress set \<times> SiloConnectionManager" where
  "update_active_silos active m =
     (let active = active - {mgr_local m}; newly_gone = mgr_active m - active; newly_added = active - mgr_active m
      in (newly_added, fold mgr_disconnect (sorted_list_of_set newly_gone) (m\<lparr>mgr_active := active\<rparr>)))"

text \<open>
  \<open>in_time\<close>: the connections whose normal close ends within the shutdown timeout. The others have been
  interrupted after they turned to closing, and are closed again as lost.
\<close>

definition stop_connection :: "(nat \<Rightarrow> bool) \<Rightarrow> nat \<Rightarrow> SiloConnection \<Rightarrow> SiloConnection" where
  "stop_connection in_time i c =
     (if in_time i then close_fully CloseNormal c else close_fully CloseLost (close_begin c))"

definition mgr_stop :: "(nat \<Rightarrow> bool) \<Rightarrow> SiloConnectionManager \<Rightarrow> SiloConnectionManager" where
  "mgr_stop in_time m =
     (if mgr_stopped m then m
      else
        fold (\<lambda>i m. m\<lparr>mgr_conns := (mgr_conns m)[i := stop_connection in_time i (mgr_conns m ! i)]\<rparr>)
          (map snd (mgr_connections m)) m
        \<lparr>mgr_stopped := True, mgr_active := {}, mgr_reconnects := [], mgr_monitors := [], mgr_dials := [],
         mgr_connections := [], mgr_initiators := []\<rparr>)"

subsection \<open>One live connection for each peer\<close>

lemma dedup_le: "dedup_keeps_existing a b \<longleftrightarrow> a \<le> b"
  by (auto simp: dedup_keeps_existing_def less_silo_id [symmetric])

lemma close_end_remote [simp]: "conn_remote (close_end r c) = conn_remote c"
  by (simp add: close_end_def)

lemma close_begin_remote [simp]: "conn_remote (close_begin c) = conn_remote c"
  by (simp add: close_begin_def)

lemma close_fully_remote [simp]: "conn_remote (close_fully r c) = conn_remote c"
  by (simp add: close_fully_def)

lemma close_fully_state: "conn_state (close_fully r c) = (if conn_state c = ConnClosing then ConnClosing else ConnClosed)"
  by (simp add: close_fully_def close_end_def close_begin_def)

definition conn_live :: "SiloConnection \<Rightarrow> bool" where
  "conn_live c \<longleftrightarrow> conn_state c = ConnNew \<or> conn_state c = ConnRunning"

lemma close_fully_live [simp]: "\<not> conn_live (close_fully r c)"
  by (simp add: conn_live_def close_fully_state)

lemma stop_connection_live [simp]: "\<not> conn_live (stop_connection f i c)" "conn_remote (stop_connection f i c) = conn_remote c"
  by (simp_all add: stop_connection_def)

text \<open>Steps of a connection keep its peer and never bring it back.\<close>

definition settles :: "SiloConnection \<Rightarrow> SiloConnection \<Rightarrow> bool" where
  "settles c c' \<longleftrightarrow> conn_remote c' = conn_remote c \<and> (conn_live c' \<longrightarrow> conn_live c)"

lemma settlesI: "conn_remote c' = conn_remote c \<Longrightarrow> conn_state c' = conn_state c \<Longrightarrow> settles c c'"
  by (simp add: settles_def conn_live_def)

lemma settles_trans: "settles a b \<Longrightarrow> settles b c \<Longrightarrow> settles a c"
  by (auto simp: settles_def)

lemma settles_refl [simp]: "settles c c"
  by (simp add: settles_def)

lemma settles_schedule [simp]: "settles c (schedule_close_lost c)"
  by (simp add: schedule_close_lost_def settlesI)

lemma settles_write [simp]: "settles c (snd (write_frame env now msg c))"
  by (auto simp: write_frame_def intro: settlesI split: sum.splits)

lemma settles_write_eq: "write_frame env now msg c = (r, c') \<Longrightarrow> settles c c'"
  using settles_write [of c env now msg] by simp

lemma settles_send [simp]: "settles c (snd (send_with_permit env now h b t c))"
  unfolding send_with_permit_def
  by (auto split: prod.splits sum.splits dest!: settles_write_eq simp: settles_def conn_live_def)

lemma settles_ping [simp]: "settles c (snd (send_ping env now t c))"
  unfolding send_ping_def
  by (auto split: prod.splits sum.splits dest!: settles_write_eq simp: settles_def conn_live_def)

lemma settles_dispatch: "dispatch env now msg c = Some (r, c') \<Longrightarrow> settles c c'"
  using settles_write [of c env now]
  by (auto simp: dispatch_def spawn_bounded_handler_def intro: settlesI
      split: MessageType.splits if_splits dest: settles_write_eq)

lemma settles_end_read [simp]: "settles c (end_read_loop c)"
  by (auto simp: end_read_loop_def schedule_close_lost_def intro: settlesI)

lemma settles_read [simp]: "settles c (snd (read_loop_step env now reader c))"
proof -
  have *: "settles c (c\<lparr>conn_last_activity := now\<rparr>)" by (rule settlesI) simp_all
  then show ?thesis
    using settles_trans [OF settles_trans [OF * settles_dispatch] settles_end_read]
      settles_trans [OF * settles_dispatch]
    by (auto simp: read_loop_step_def split: sum.splits option.splits prod.splits)
qed

lemma settles_handler [simp]: "settles c (handler_done env now msg outcome c)"
proof -
  have "settles c (conn_handle_request env now msg outcome c)"
    by (simp add: conn_handle_request_def split: sum.split)
  then show ?thesis by (auto simp: handler_done_def Let_def settles_def conn_live_def)
qed

lemma settles_keepalive [simp]: "settles c (snd (keepalive_turn env now c))"
  using settles_ping [of c env now "keepalive_timeout (conn_options c)"]
  by (auto simp: keepalive_turn_def settles_def conn_live_def schedule_close_lost_def
      split: prod.splits send_outcome.splits)

lemma settles_answer [simp]: "settles c (keepalive_answer caller c)"
  by (auto simp: keepalive_answer_def finish_ping_def settles_def conn_live_def schedule_close_lost_def
      split: fstate.splits)

lemma settles_finish [simp]: "settles c (snd (finish_request caller c))"
  by (auto simp: finish_request_def settles_def conn_live_def Let_def split: fstate.splits prod.splits)

lemma conn_step_settles: "settles c (conn_step op c)"
proof (cases op)
  case ConnStart
  then show ?thesis by (auto simp: conn_start_def settles_def conn_live_def)
next
  case (SendRequest env now h b t)
  then show ?thesis by (auto simp: send_request_def split: sum.split)
next
  case (SendOneWay env now h b)
  then show ?thesis by (auto simp: send_one_way_def split: sum.split)
next
  case CloseBegin
  then show ?thesis by (auto simp: close_begin_def settles_def conn_live_def)
next
  case (CloseEnd r)
  then show ?thesis by (auto simp: close_end_def settles_def conn_live_def)
qed (auto intro: settlesI)

text \<open>
  Every entry of the table is a connection to that silo, begun by one of its two ends, and every
  connection that is not closing or closed is in the table.
\<close>

definition mgr_ok :: "SiloConnectionManager \<Rightarrow> bool" where
  "mgr_ok m \<longleftrightarrow>
     dict_ok (mgr_connections m) \<and> dict_ok (mgr_reconnects m)
     \<and> (\<forall>s i. dget (mgr_connections m) s = Some i \<longrightarrow>
          i < length (mgr_conns m) \<and> conn_remote (mgr_conns m ! i) = s
          \<and> (dget (mgr_initiators m) s = Some s \<or> dget (mgr_initiators m) s = Some (mgr_local m)))
     \<and> (\<forall>i < length (mgr_conns m). conn_live (mgr_conns m ! i) \<longrightarrow>
          dget (mgr_connections m) (conn_remote (mgr_conns m ! i)) = Some i)"

lemma mgr_ok_new: "mgr_ok (new_manager local cluster opts flags)"
  by (simp add: mgr_ok_def new_manager_def)

lemma mgr_ok_initiator:
  "mgr_ok m \<Longrightarrow> dget (mgr_connections m) s = Some i \<Longrightarrow>
   dget (mgr_initiators m) s = Some s \<or> dget (mgr_initiators m) s = Some (mgr_local m)"
  by (simp add: mgr_ok_def)

text \<open>The fields the invariant does not read.\<close>

lemma mgr_ok_fields [simp]:
  "mgr_ok (m\<lparr>mgr_dials := d\<rparr>) = mgr_ok m"
  "mgr_ok (m\<lparr>mgr_active := a\<rparr>) = mgr_ok m"
  "mgr_ok (m\<lparr>mgr_monitors := ms\<rparr>) = mgr_ok m"
  "mgr_ok (m\<lparr>mgr_stopped := b\<rparr>) = mgr_ok m"
  "mgr_ok (m\<lparr>mgr_log := l\<rparr>) = mgr_ok m"
  by (simp_all add: mgr_ok_def)

lemma mgr_ok_reconnects_upd [simp]: "mgr_ok m \<Longrightarrow> dict_ok r \<Longrightarrow> mgr_ok (m\<lparr>mgr_reconnects := r\<rparr>)"
  by (simp add: mgr_ok_def)

lemma mgr_ok_reconnects: "mgr_ok m \<Longrightarrow> dict_ok (mgr_reconnects m)"
  by (simp add: mgr_ok_def)

text \<open>A connection that only moves towards closed.\<close>

lemma mgr_ok_conn:
  assumes "mgr_ok m" "settles (mgr_conns m ! i) c"
  shows "mgr_ok (m\<lparr>mgr_conns := (mgr_conns m)[i := c]\<rparr>)"
proof -
  have "settles (mgr_conns m ! j) ((mgr_conns m)[i := c] ! j)" for j
    using assms(2) by (cases "i < length (mgr_conns m)") (auto simp: nth_list_update list_update_beyond)
  then have r: "conn_remote ((mgr_conns m)[i := c] ! j) = conn_remote (mgr_conns m ! j)"
    and l: "conn_live ((mgr_conns m)[i := c] ! j) \<Longrightarrow> conn_live (mgr_conns m ! j)" for j
    by (simp_all add: settles_def)
  show ?thesis using assms(1) l unfolding mgr_ok_def by (simp add: r)
qed

lemma mgr_ok_close: "mgr_ok m \<Longrightarrow> mgr_ok (close_connection r i m)"
  unfolding close_connection_def by (rule mgr_ok_conn) (simp_all add: settles_def)

text \<open>An entry is taken out once its connection is closing.\<close>

lemma mgr_ok_drop:
  assumes "mgr_ok m" "\<And>i. dget (mgr_connections m) s = Some i \<Longrightarrow> \<not> conn_live (mgr_conns m ! i)"
  shows "mgr_ok (m\<lparr>mgr_connections := dpop (mgr_connections m) s, mgr_initiators := dpop (mgr_initiators m) s\<rparr>)"
  using assms unfolding mgr_ok_def by auto

lemma mgr_ok_register:
  assumes "mgr_ok m" "initiator = remote \<or> initiator = mgr_local m"
    "\<And>i. dget (mgr_connections m) remote = Some i \<Longrightarrow> \<not> conn_live (mgr_conns m ! i)"
  shows "mgr_ok (snd (register_connection remote initiator now m))"
  using assms unfolding mgr_ok_def register_connection_def
  by (auto simp: Let_def nth_append conn_start_def new_connection_def less_Suc_eq)

lemma get_connection_live: "mgr_ok m \<Longrightarrow> get_connection s m = None \<Longrightarrow>
   dget (mgr_connections m) s = Some i \<Longrightarrow> \<not> conn_live (mgr_conns m ! i)"
  by (auto simp: get_connection_def is_closed_def conn_live_def split: if_splits)

lemma close_connection_get [simp]:
  "mgr_connections (close_connection r i m) = mgr_connections m"
  "mgr_initiators (close_connection r i m) = mgr_initiators m"
  "mgr_reconnects (close_connection r i m) = mgr_reconnects m"
  "mgr_monitors (close_connection r i m) = mgr_monitors m"
  "mgr_local (close_connection r i m) = mgr_local m"
  "mgr_active (close_connection r i m) = mgr_active m"
  "mgr_stopped (close_connection r i m) = mgr_stopped m"
  "mgr_dials (close_connection r i m) = mgr_dials m"
  "mgr_options (close_connection r i m) = mgr_options m"
  "length (mgr_conns (close_connection r i m)) = length (mgr_conns m)"
  by (simp_all add: close_connection_def)

lemma close_connection_nth: "i < length (mgr_conns m) \<Longrightarrow>
   mgr_conns (close_connection r i m) ! j = (if j = i then close_fully r (mgr_conns m ! i) else mgr_conns m ! j)"
  by (simp add: close_connection_def)

text \<open>Taking out an entry and closing its connection, in either order of the two updates.\<close>

lemma mgr_ok_close_drop:
  assumes "mgr_ok m" "dget (mgr_connections m) s = Some i"
  shows "mgr_ok (close_connection r i
    (m\<lparr>mgr_connections := dpop (mgr_connections m) s, mgr_initiators := dpop (mgr_initiators m) s\<rparr>))"
proof -
  let ?m = "close_connection r i m"
  have "i < length (mgr_conns m)" using assms by (simp add: mgr_ok_def)
  then have "mgr_ok (?m\<lparr>mgr_connections := dpop (mgr_connections ?m) s, mgr_initiators := dpop (mgr_initiators ?m) s\<rparr>)"
    by (intro mgr_ok_drop [OF mgr_ok_close [OF assms(1)]]) (use assms(2) in \<open>simp add: close_connection_nth\<close>)
  then show ?thesis by (simp add: close_connection_def mgr_ok_def)
qed

lemma mgr_ok_install:
  assumes "mgr_ok m" "initiator = remote \<or> initiator = mgr_local m"
  shows "mgr_ok (snd (install_connection remote initiator now m))"
proof (cases "get_connection remote m")
  case None
  then show ?thesis using mgr_ok_register [OF assms get_connection_live [OF assms(1) None]]
    by (simp add: install_connection_def)
next
  case (Some i)
  then have i: "dget (mgr_connections m) remote = Some i"
    by (auto simp: get_connection_def split: option.splits if_splits)
  let ?m = "close_connection CloseNormal i (m\<lparr>mgr_connections := dpop (mgr_connections m) remote,
      mgr_initiators := dpop (mgr_initiators m) remote\<rparr>)"
  let ?m' = "close_connection CloseNormal i (m\<lparr>mgr_connections := dpop (mgr_connections m) remote,
      mgr_initiators := dpop (mgr_initiators m) remote, mgr_monitors := dpop (mgr_monitors m) remote\<rparr>)"
  have "mgr_ok (?m\<lparr>mgr_monitors := dpop (mgr_monitors m) remote\<rparr>)"
    using mgr_ok_close_drop [OF assms(1) i, of CloseNormal] by simp
  then have "mgr_ok ?m'" by (simp add: close_connection_def mgr_ok_def)
  then have "mgr_ok (snd (register_connection remote initiator now ?m'))"
    by (rule mgr_ok_register) (use assms(2) in simp_all)
  then show ?thesis using Some assms(1) by (simp add: install_connection_def)
qed

text \<open>What installing leaves alone.\<close>

lemma install_frame:
  "mgr_local (snd (install_connection r a now m)) = mgr_local m"
  "mgr_options (snd (install_connection r a now m)) = mgr_options m"
  "mgr_cluster (snd (install_connection r a now m)) = mgr_cluster m"
  "mgr_role_flags (snd (install_connection r a now m)) = mgr_role_flags m"
  "mgr_active (snd (install_connection r a now m)) = mgr_active m"
  "mgr_stopped (snd (install_connection r a now m)) = mgr_stopped m"
  "mgr_dials (snd (install_connection r a now m)) = mgr_dials m"
  "mgr_reconnects (snd (install_connection r a now m)) = mgr_reconnects m"
  by (auto simp: install_connection_def register_connection_def close_connection_def Let_def split: option.splits)

lemma dial_cases:
  "(\<exists>e. do_outbound_connect s io now m = (Inl e, m))
   \<or> (\<exists>i m'. do_outbound_connect s io now m = (Inr i, m') \<and> install_connection s (mgr_local m) now m = (i, m'))"
proof (cases io)
  case (PeerSends t bs)
  obtain i m' where i: "install_connection s (mgr_local m) now m = (i, m')" by fastforce
  show ?thesis unfolding do_outbound_connect_def PeerSends i
    by (cases "encode_handshake (build_handshake m)") (simp_all split: sum.split)
qed (simp_all add: do_outbound_connect_def split: sum.split)

lemma dial_manager:
  "snd (do_outbound_connect s io now m) = m
   \<or> snd (do_outbound_connect s io now m) = snd (install_connection s (mgr_local m) now m)"
  using dial_cases [of s io now m] by fastforce

lemma mgr_ok_dial: "mgr_ok m \<Longrightarrow> mgr_ok (snd (do_outbound_connect s io now m))"
  using dial_manager [of s io now m] mgr_ok_install [of m "mgr_local m" s now] by (elim disjE) simp_all

lemma dial_frame:
  "mgr_local (snd (do_outbound_connect s io now m)) = mgr_local m"
  "mgr_active (snd (do_outbound_connect s io now m)) = mgr_active m"
  "mgr_stopped (snd (do_outbound_connect s io now m)) = mgr_stopped m"
  "mgr_dials (snd (do_outbound_connect s io now m)) = mgr_dials m"
  "mgr_options (snd (do_outbound_connect s io now m)) = mgr_options m"
  "mgr_reconnects (snd (do_outbound_connect s io now m)) = mgr_reconnects m"
  using dial_manager [of s io now m] by (elim disjE; simp add: install_frame)+

lemma mgr_ok_dial_done: "mgr_ok m \<Longrightarrow> mgr_ok (snd (dial_done s io now m))"
  by (simp add: dial_done_def case_prod_beta mgr_ok_dial)

lemma dial_done_frame:
  "mgr_local (snd (dial_done s io now m)) = mgr_local m"
  "mgr_active (snd (dial_done s io now m)) = mgr_active m"
  "mgr_stopped (snd (dial_done s io now m)) = mgr_stopped m"
  "mgr_options (snd (dial_done s io now m)) = mgr_options m"
  "mgr_reconnects (snd (dial_done s io now m)) = mgr_reconnects m"
  by (simp_all add: dial_done_def case_prod_beta dial_frame)

lemma mgr_connect_cases:
  "(\<exists>r. mgr_connect s io now m = (r, m))
   \<or> mgr_connect s io now m = dial_done s io now m
   \<or> mgr_connect s io now m = dial_done s io now (m\<lparr>mgr_dials := mgr_dials m @ [s]\<rparr>)"
  by (simp add: mgr_connect_def connect_begin_def split: option.split)

lemma mgr_connect_frame:
  "mgr_local (snd (mgr_connect s io now m)) = mgr_local m"
  "mgr_active (snd (mgr_connect s io now m)) = mgr_active m"
  "mgr_stopped (snd (mgr_connect s io now m)) = mgr_stopped m"
  "mgr_options (snd (mgr_connect s io now m)) = mgr_options m"
  "mgr_reconnects (snd (mgr_connect s io now m)) = mgr_reconnects m"
  using mgr_connect_cases [of s io now m] by (elim disjE; force simp add: dial_done_frame)+

lemma mgr_ok_connect: "mgr_ok m \<Longrightarrow> mgr_ok (snd (mgr_connect s io now m))"
  using mgr_connect_cases [of s io now m] by (elim disjE) (force simp: mgr_ok_dial_done)+

lemma mgr_ok_schedule: "mgr_ok m \<Longrightarrow> mgr_ok (schedule_reconnect s m)"
  by (simp add: schedule_reconnect_def mgr_ok_reconnects split: option.split)

lemma mgr_ok_end_reconnect: "mgr_ok m \<Longrightarrow> mgr_ok (end_reconnect s m)"
  by (simp add: end_reconnect_def mgr_ok_reconnects)

lemma mgr_ok_reconnect_attempt:
  assumes "mgr_ok m" shows "mgr_ok (reconnect_attempt s io now m)"
proof -
  obtain r m' where c: "mgr_connect s io now m = (r, m')" by fastforce
  have "mgr_ok m'" using mgr_ok_connect [OF assms, of s io now] c by simp
  then show ?thesis using assms unfolding reconnect_attempt_def c
    by (simp add: mgr_ok_end_reconnect mgr_ok_reconnects split: option.split sum.split)
qed

lemma mgr_ok_reconnect_turn: "mgr_ok m \<Longrightarrow> mgr_ok (reconnect_turn s t m)"
  by (auto simp: reconnect_turn_def reconnect_sleep_def mgr_ok_end_reconnect mgr_ok_reconnect_attempt
      split: prod.split option.splits sum.splits)

lemma mgr_ok_eager:
  assumes "mgr_ok m" shows "mgr_ok (eager_connect s io now m)"
proof -
  obtain r m' where c: "mgr_connect s io now m = (r, m')" by fastforce
  have "mgr_ok m'" using mgr_ok_connect [OF assms, of s io now] c by simp
  then show ?thesis unfolding eager_connect_def c by (simp add: mgr_ok_schedule split: sum.split)
qed

lemma mgr_ok_accept: "mgr_ok m \<Longrightarrow> mgr_ok (accept_done timed_out bs write_ok now m)"
  unfolding accept_done_def by (simp add: mgr_ok_install split: sum.split)

lemma mgr_ok_monitor:
  assumes "mgr_ok m" shows "mgr_ok (monitor_connection s i m)"
proof (cases "\<not> is_closed (mgr_conns m ! i) \<or> dget (mgr_connections m) s \<noteq> Some i")
  case False
  then have "mgr_ok (m\<lparr>mgr_connections := dpop (mgr_connections m) s, mgr_initiators := dpop (mgr_initiators m) s\<rparr>)"
    by (intro mgr_ok_drop [OF assms]) (simp add: is_closed_def conn_live_def)
  then have "mgr_ok (m\<lparr>mgr_connections := dpop (mgr_connections m) s, mgr_initiators := dpop (mgr_initiators m) s,
      mgr_monitors := ms, mgr_log := l\<rparr>)" for ms l
    by (simp add: mgr_ok_def)
  then show ?thesis using False by (simp add: monitor_connection_def Let_def mgr_ok_schedule)
qed (simp add: monitor_connection_def assms)

lemma mgr_ok_disconnect:
  assumes "mgr_ok m" shows "mgr_ok (mgr_disconnect s m)"
proof -
  let ?m = "m\<lparr>mgr_reconnects := dpop (mgr_reconnects m) s, mgr_active := mgr_active m - {s}\<rparr>"
  have "mgr_ok ?m" using assms by (simp add: mgr_ok_def)
  note drop = mgr_ok_close_drop [OF this, of s]
  then show ?thesis using \<open>mgr_ok ?m\<close> unfolding mgr_disconnect_def Let_def
    by (simp split: option.split)
qed

lemma mgr_ok_disconnects: "mgr_ok m \<Longrightarrow> mgr_ok (fold mgr_disconnect ss m)"
  by (induction ss arbitrary: m) (simp_all add: mgr_ok_disconnect)

lemma mgr_ok_update: "mgr_ok m \<Longrightarrow> mgr_ok (snd (update_active_silos active m))"
  by (simp add: update_active_silos_def Let_def mgr_ok_disconnects)

abbreviation stop_at :: "(nat \<Rightarrow> bool) \<Rightarrow> nat \<Rightarrow> SiloConnectionManager \<Rightarrow> SiloConnectionManager" where
  "stop_at in_time i m \<equiv> m\<lparr>mgr_conns := (mgr_conns m)[i := stop_connection in_time i (mgr_conns m ! i)]\<rparr>"

lemma stop_at_length [simp]: "length (mgr_conns (fold (stop_at f) is m)) = length (mgr_conns m)"
  by (induction "is" arbitrary: m) simp_all

lemma stop_at_nth:
  "distinct is \<Longrightarrow> j < length (mgr_conns m) \<Longrightarrow> mgr_conns (fold (stop_at f) is m) ! j
     = (if j \<in> set is then stop_connection f j (mgr_conns m ! j) else mgr_conns m ! j)"
proof (induction "is" arbitrary: m)
  case (Cons i "is")
  then show ?case by (cases "j = i") (simp_all add: Cons.IH)
qed simp

lemma mgr_ok_distinct:
  assumes "mgr_ok m" shows "distinct (map snd (mgr_connections m))"
proof -
  have e: "conn_remote (mgr_conns m ! i) = s" if "(s, i) \<in> set (mgr_connections m)" for s i
    using assms that by (simp add: mgr_ok_def dget_Some_iff)
  have "inj_on snd (set (mgr_connections m))"
    by (rule inj_onI) (metis e prod.collapse)
  then show ?thesis using assms by (simp add: mgr_ok_def distinct_map)
qed

lemma live_in_table:
  "mgr_ok m \<Longrightarrow> i < length (mgr_conns m) \<Longrightarrow> conn_live (mgr_conns m ! i) \<Longrightarrow> i \<in> set (map snd (mgr_connections m))"
  by (force simp: mgr_ok_def dget_Some_iff)

lemma stop_all_dead:
  assumes "mgr_ok m" "j < length (mgr_conns m)"
  shows "\<not> conn_live (mgr_conns (fold (stop_at f) (map snd (mgr_connections m)) m) ! j)"
  using stop_at_nth [OF mgr_ok_distinct [OF assms(1)] assms(2), of f] live_in_table [OF assms] by auto

lemma mgr_ok_stop: "mgr_ok m \<Longrightarrow> mgr_ok (mgr_stop f m)"
  using stop_all_dead [of m] by (auto simp: mgr_stop_def mgr_ok_def)

subsection \<open>Operations in any order\<close>

datatype mgr_op =
    ConnectCall SiloAddress
  | DialDone SiloAddress peer_io seconds
  | AcceptDone bool bytes bool seconds
  | ReconnectTurn SiloAddress "seconds \<times> peer_io \<times> seconds"
  | EagerConnect SiloAddress peer_io seconds
  | MonitorWakes SiloAddress nat
  | ConnectionStep nat conn_op
  | Disconnect SiloAddress
  | UpdateActive "SiloAddress set"
  | MgrStop "nat \<Rightarrow> bool"

fun mgr_step :: "mgr_op \<Rightarrow> SiloConnectionManager \<Rightarrow> SiloConnectionManager" where
  "mgr_step (ConnectCall s) m = snd (connect_begin s m)"
| "mgr_step (DialDone s io now) m = snd (dial_done s io now m)"
| "mgr_step (AcceptDone timed_out bs write_ok now) m = accept_done timed_out bs write_ok now m"
| "mgr_step (ReconnectTurn s t) m = reconnect_turn s t m"
| "mgr_step (EagerConnect s io now) m = eager_connect s io now m"
| "mgr_step (MonitorWakes s i) m = monitor_connection s i m"
| "mgr_step (ConnectionStep i op) m = m\<lparr>mgr_conns := (mgr_conns m)[i := conn_step op (mgr_conns m ! i)]\<rparr>"
| "mgr_step (Disconnect s) m = mgr_disconnect s m"
| "mgr_step (UpdateActive active) m = snd (update_active_silos active m)"
| "mgr_step (MgrStop in_time) m = mgr_stop in_time m"

definition mgr_run :: "mgr_op list \<Rightarrow> SiloConnectionManager \<Rightarrow> SiloConnectionManager" where
  "mgr_run ops m = fold mgr_step ops m"

lemma mgr_ok_step: "mgr_ok m \<Longrightarrow> mgr_ok (mgr_step op m)"
proof (cases op)
  case (ConnectCall s)
  then show "mgr_ok m \<Longrightarrow> ?thesis" by (simp add: connect_begin_def split: option.split)
next
  case (ConnectionStep i op)
  then show "mgr_ok m \<Longrightarrow> ?thesis" by (simp add: mgr_ok_conn conn_step_settles)
qed (simp_all add: mgr_ok_dial_done mgr_ok_accept mgr_ok_reconnect_turn mgr_ok_eager mgr_ok_monitor
    mgr_ok_disconnect mgr_ok_update mgr_ok_stop)

lemma mgr_ok_run: "mgr_ok m \<Longrightarrow> mgr_ok (mgr_run ops m)"
  unfolding mgr_run_def by (induction ops arbitrary: m) (simp_all add: mgr_ok_step)

subsection \<open>Both ends keep the same connection\<close>

lemma get_connection_dials [simp]: "get_connection s (m\<lparr>mgr_dials := d\<rparr>) = get_connection s m"
  by (simp add: get_connection_def split: option.split)

lemma get_connection_entry: "get_connection s m = Some i \<Longrightarrow> dget (mgr_connections m) s = Some i"
  by (auto simp: get_connection_def split: option.splits if_splits)

lemma register_facts:
  assumes "register_connection remote a now m = (i, m')"
  shows "get_connection remote m' = Some i" "dget (mgr_initiators m') remote = Some a" "conn_live (mgr_conns m' ! i)"
  using assms by (auto simp: register_connection_def get_connection_def Let_def is_closed_def conn_live_def
      conn_start_def new_connection_def)

lemma install_fresh:
  assumes "get_connection remote m = None" "install_connection remote a now m = (i, m')"
  shows "get_connection remote m' = Some i" "dget (mgr_initiators m') remote = Some a" "conn_live (mgr_conns m' ! i)"
  using register_facts [of remote a now m i m'] assms by (simp_all add: install_connection_def)

lemma install_contended:
  assumes "get_connection remote m = Some i" "dget (mgr_initiators m) remote = Some a"
    "conn_live (mgr_conns m ! i)" "install_connection remote b now m = (j, m')"
  shows "get_connection remote m' = Some j" "dget (mgr_initiators m') remote = Some (min a b)"
    "conn_live (mgr_conns m' ! j)"
proof -
  have "get_connection remote m' = Some j \<and> dget (mgr_initiators m') remote = Some (min a b) \<and> conn_live (mgr_conns m' ! j)"
  proof (cases "a \<le> b")
    case True
    then show ?thesis using assms by (simp add: install_connection_def dedup_le min_def)
  next
    case False
    then have "min a b = b" by simp
    moreover obtain m1 where "register_connection remote b now m1 = (j, m')"
      using assms(1,2,4) False by (simp add: install_connection_def dedup_le)
    ultimately show ?thesis using register_facts by metis
  qed
  then show "get_connection remote m' = Some j" "dget (mgr_initiators m') remote = Some (min a b)"
    "conn_live (mgr_conns m' ! j)" by simp_all
qed

definition install_all :: "SiloAddress \<Rightarrow> (SiloAddress \<times> seconds) list \<Rightarrow> SiloConnectionManager \<Rightarrow> SiloConnectionManager" where
  "install_all remote xs m = fold (\<lambda>(a, now) m. snd (install_connection remote a now m)) xs m"

lemma installs_contended:
  assumes "get_connection remote m = Some i" "dget (mgr_initiators m) remote = Some a" "conn_live (mgr_conns m ! i)"
  shows "\<exists>j. get_connection remote (install_all remote xs m) = Some j
    \<and> dget (mgr_initiators (install_all remote xs m)) remote = Some (Min (insert a (fst ` set xs)))
    \<and> conn_live (mgr_conns (install_all remote xs m) ! j)"
  using assms
proof (induction xs arbitrary: m i a)
  case (Cons x xs)
  obtain j m' where i: "install_connection remote (fst x) (snd x) m = (j, m')" by fastforce
  note f = install_contended [OF Cons.prems i]
  have "Min (insert (min a (fst x)) (fst ` set xs)) = Min (insert a (fst ` set (x # xs)))"
    by (cases "set xs = {}") (simp_all add: insert_commute min.assoc [symmetric] min.commute)
  then show ?case using Cons.IH [OF f] i by (simp add: install_all_def case_prod_beta)
qed (simp add: install_all_def)

lemma installs_min:
  assumes "get_connection remote m = None" "xs \<noteq> []"
  shows "\<exists>j. get_connection remote (install_all remote xs m) = Some j
    \<and> dget (mgr_initiators (install_all remote xs m)) remote = Some (Min (fst ` set xs))
    \<and> conn_live (mgr_conns (install_all remote xs m) ! j)"
proof -
  obtain x ys where xs: "xs = x # ys" using assms(2) by (cases xs) auto
  obtain i m' where i: "install_connection remote (fst x) (snd x) m = (i, m')" by fastforce
  show ?thesis using installs_contended [OF install_fresh [OF assms(1) i], of ys] i
    by (simp add: install_all_def xs case_prod_beta)
qed

subsection \<open>The reconnect loop\<close>

lemma reconnect_turn_none: "dget (mgr_reconnects m) s = None \<Longrightarrow> reconnect_turn s t m = m"
  by (simp add: reconnect_turn_def reconnect_sleep_def case_prod_beta)

lemma reconnect_sleep_some:
  assumes "reconnect_sleep s u m = (Some d, m')" "dget (mgr_reconnects m) s = Some k"
  shows "m' = m" "k < 1024" "s \<in> mgr_active m" "\<not> mgr_stopped m" "reconnect_delay (mgr_options m) k u = Inr d"
  using assms by (auto simp: reconnect_sleep_def reconnect_delay_def Let_def split: if_splits)

lemma reconnect_sleep_none:
  "reconnect_sleep s u m = (None, m') \<Longrightarrow> dget (mgr_reconnects m') s = None"
  by (auto simp: reconnect_sleep_def end_reconnect_def split: option.splits if_splits sum.splits)

lemma reconnect_attempt_entry:
  assumes "dget (mgr_reconnects m) s = Some k"
  shows "dget (mgr_reconnects (reconnect_attempt s io now m)) s \<in> {None, Some (Suc k)}"
  using assms by (auto simp: reconnect_attempt_def end_reconnect_def split: prod.split sum.split)

lemma reconnect_turn_entry:
  assumes "dget (mgr_reconnects m) s = Some k"
  shows "dget (mgr_reconnects (reconnect_turn s t m)) s = None
    \<or> k < 1024 \<and> dget (mgr_reconnects (reconnect_turn s t m)) s = Some (Suc k)"
proof -
  obtain u io now where t: "t = (u, io, now)" by (cases t)
  obtain r m' where r: "reconnect_sleep s u m = (r, m')" by fastforce
  show ?thesis
  proof (cases r)
    case None
    then show ?thesis using reconnect_sleep_none [of s u m m'] r by (simp add: reconnect_turn_def t)
  next
    case (Some d)
    note f = reconnect_sleep_some [OF r [unfolded Some] assms]
    show ?thesis using reconnect_attempt_entry [OF assms, of io now] f(2) r Some f(1)
      by (auto simp: reconnect_turn_def t)
  qed
qed

lemma reconnect_run_ends:
  assumes "case dget (mgr_reconnects m) s of None \<Rightarrow> True | Some k \<Rightarrow> k \<le> 1024 \<and> 1024 < k + length ts"
  shows "dget (mgr_reconnects (fold (reconnect_turn s) ts m)) s = None"
  using assms
proof (induction ts arbitrary: m)
  case (Cons t ts)
  show ?case
  proof (cases "dget (mgr_reconnects m) s")
    case None
    then show ?thesis using Cons.IH [of m] by (simp add: reconnect_turn_none)
  next
    case (Some k)
    then show ?thesis using reconnect_turn_entry [OF Some, of t] Cons.prems
      by (auto intro!: Cons.IH)
  qed
qed (auto split: option.splits)

lemma reconnect_delay_range:
  assumes "reconnect_delay opts k u = Inr d" "-1 \<le> u" "u \<le> 1" "0 \<le> reconnect_base_delay opts"
    "0 \<le> reconnect_max_delay opts" "0 \<le> reconnect_jitter_fraction opts"
  shows "0 \<le> d" "d \<le> reconnect_max_delay opts * (1 + reconnect_jitter_fraction opts)"
proof -
  define x where "x = min (reconnect_base_delay opts * 2 ^ k) (reconnect_max_delay opts)"
  define y where "y = x * reconnect_jitter_fraction opts"
  have d: "d = max 0 (x + u * y)" using assms(1)
    by (simp add: reconnect_delay_def x_def y_def Let_def split: if_splits)
  have x: "0 \<le> x" "x \<le> reconnect_max_delay opts" using assms(4,5) by (simp_all add: x_def)
  have y: "0 \<le> y" "y \<le> reconnect_max_delay opts * reconnect_jitter_fraction opts"
    using x assms(6) by (simp_all add: y_def mult_right_mono)
  have "u * y \<le> y" using assms(3) y(1) mult_right_mono [of u 1 y] by simp
  then have "x + u * y \<le> reconnect_max_delay opts * (1 + reconnect_jitter_fraction opts)"
    using x y by (simp add: distrib_left)
  moreover have "0 \<le> reconnect_max_delay opts * (1 + reconnect_jitter_fraction opts)" using assms(5,6) by simp
  ultimately show "0 \<le> d" "d \<le> reconnect_max_delay opts * (1 + reconnect_jitter_fraction opts)"
    by (simp_all add: d)
qed

text \<open>A peer that cannot be reached.\<close>

definition waits_for :: "SiloAddress \<Rightarrow> SiloConnectionManager \<Rightarrow> bool" where
  "waits_for s m \<longleftrightarrow> s \<in> mgr_active m \<and> \<not> mgr_stopped m \<and> get_connection s m = None \<and> s \<notin> set (mgr_dials m)"

lemma failing_turn:
  assumes "waits_for s m" "dget (mgr_reconnects m) s = Some k" "fst (snd t) = OpenFails"
  shows "reconnect_turn s t m =
    (if k < 1024 then m\<lparr>mgr_reconnects := dset (mgr_reconnects m) s (Suc k)\<rparr> else end_reconnect s m)"
proof -
  obtain u now where t: "t = (u, OpenFails, now)" using assms(3) by (metis prod.collapse)
  have "mgr_connect s OpenFails now m = (Inl TransportConnectionError, m)"
    using assms(1) by (simp add: waits_for_def mgr_connect_def connect_begin_def dial_done_def do_outbound_connect_def)
  then show ?thesis using assms(1,2)
    by (simp add: reconnect_turn_def t reconnect_sleep_def reconnect_delay_def reconnect_attempt_def waits_for_def Let_def)
qed

lemma waits_for_reconnects [simp]: "waits_for s (m\<lparr>mgr_reconnects := r\<rparr>) = waits_for s m"
  by (simp add: waits_for_def get_connection_def split: option.split)

lemma failing_turns:
  assumes "waits_for s m" "dget (mgr_reconnects m) s = Some k" "\<forall>t \<in> set ts. fst (snd t) = OpenFails"
    "k + length ts = 1025" "k \<le> 1024"
  shows "waits_for s (fold (reconnect_turn s) ts m) \<and> dget (mgr_reconnects (fold (reconnect_turn s) ts m)) s = None"
  using assms
proof (induction ts arbitrary: m k)
  case (Cons t ts)
  show ?case
  proof (cases ts)
    case Nil
    then show ?thesis using Cons.prems failing_turn [OF Cons.prems(1,2), of t] by (simp add: end_reconnect_def)
  next
    case (Cons t' ts')
    let ?m = "m\<lparr>mgr_reconnects := dset (mgr_reconnects m) s (Suc k)\<rparr>"
    have "reconnect_turn s t m = ?m" using failing_turn [OF Cons.prems(1,2), of t] Cons.prems(3,4) Cons by simp
    then show ?thesis using Cons.IH [of ?m "Suc k"] Cons.prems Cons by simp
  qed
qed simp

lemma idle_turns: "dget (mgr_reconnects m) s = None \<Longrightarrow> fold (reconnect_turn s) ts m = m"
  by (induction ts) (simp_all add: reconnect_turn_none)

subsection \<open>Membership updates and shutdown\<close>

lemma disconnect_facts:
  assumes "mgr_ok m"
  shows "dget (mgr_connections (mgr_disconnect s m)) t = (if t = s then None else dget (mgr_connections m) t)"
    "dget (mgr_reconnects (mgr_disconnect s m)) t = (if t = s then None else dget (mgr_reconnects m) t)"
    "mgr_active (mgr_disconnect s m) = mgr_active m - {s}"
    "mgr_stopped (mgr_disconnect s m) = mgr_stopped m"
    "mgr_dials (mgr_disconnect s m) = mgr_dials m"
    "length (mgr_conns (mgr_disconnect s m)) = length (mgr_conns m)"
    "mgr_conns (mgr_disconnect s m) ! i = (if dget (mgr_connections m) s = Some i
       then close_fully CloseNormal (mgr_conns m ! i) else mgr_conns m ! i)"
proof -
  have "i < length (mgr_conns m)" if "dget (mgr_connections m) s = Some i" for i
    using assms that by (simp add: mgr_ok_def)
  then show "mgr_conns (mgr_disconnect s m) ! i = (if dget (mgr_connections m) s = Some i
       then close_fully CloseNormal (mgr_conns m ! i) else mgr_conns m ! i)"
    by (auto simp: mgr_disconnect_def Let_def close_connection_def split: option.split)
qed (simp_all add: mgr_disconnect_def Let_def split: option.split)

lemma disconnects_facts:
  assumes "mgr_ok m"
  shows "dget (mgr_connections (fold mgr_disconnect ss m)) t = (if t \<in> set ss then None else dget (mgr_connections m) t)
    \<and> dget (mgr_reconnects (fold mgr_disconnect ss m)) t = (if t \<in> set ss then None else dget (mgr_reconnects m) t)
    \<and> mgr_active (fold mgr_disconnect ss m) = mgr_active m - set ss
    \<and> mgr_dials (fold mgr_disconnect ss m) = mgr_dials m
    \<and> mgr_conns (fold mgr_disconnect ss m) ! i = (if \<exists>s \<in> set ss. dget (mgr_connections m) s = Some i
       then close_fully CloseNormal (mgr_conns m ! i) else mgr_conns m ! i)"
  using assms
proof (induction ss arbitrary: m)
  case (Cons s ss)
  have one: "s = t" if "dget (mgr_connections m) s = Some i" "dget (mgr_connections m) t = Some i" for s t
    using Cons.prems that unfolding mgr_ok_def by metis
  have ok: "mgr_ok (mgr_disconnect s m)" by (rule mgr_ok_disconnect [OF Cons.prems])
  note f = disconnect_facts [OF Cons.prems]
  show ?case using Cons.IH [OF ok] one by (auto simp: f)
qed simp

lemma stop_fields:
  assumes "\<not> mgr_stopped m"
  shows "mgr_conns (mgr_stop f m) = mgr_conns (fold (stop_at f) (map snd (mgr_connections m)) m)"
    "mgr_stopped (mgr_stop f m)" "mgr_connections (mgr_stop f m) = []" "mgr_reconnects (mgr_stop f m) = []"
    "mgr_dials (mgr_stop f m) = []"
  using assms by (simp_all add: mgr_stop_def)

subsection \<open>Properties\<close>

text \<open>A dial that a peer of the same cluster answers, and the same for a stream that comes in.\<close>

lemma good_dial:
  assumes "encode_handshake hs = Inr bs" "validate_peer_handshake hs (mgr_cluster m) (Some s) = Inr ()"
    "encode_handshake (build_handshake m) = Inr own" "install_connection s (mgr_local m) now m = (i, m')"
  shows "do_outbound_connect s (PeerSends False bs) now m = (Inr i, m')"
  using read_encoded_handshake [OF assms(1), of "[]"] assms(2-)
  by (simp add: do_outbound_connect_def read_handshake_def)

lemma good_accept:
  assumes "encode_handshake hs = Inr bs" "validate_peer_handshake hs (mgr_cluster m) None = Inr ()"
    "encode_handshake (build_handshake m) = Inr own" "from_silo_id (hs_silo_id hs) = Inr remote"
  shows "accept_done False bs True now m = snd (install_connection remote remote now m)"
  using read_encoded_handshake [OF assms(1), of "[]"] assms(2-)
  by (simp add: accept_done_def read_handshake_def)

text \<open>
  A dial under way when the peer is removed from the membership still installs its connection, and
  so does a stream whose handshake was under way when the manager stopped.
\<close>

lemma dial_outlives_removal:
  assumes "s \<in> set (mgr_dials m)" "mgr_ok m" "encode_handshake hs = Inr bs"
    "validate_peer_handshake hs (mgr_cluster (mgr_disconnect s m)) (Some s) = Inr ()"
    "encode_handshake (build_handshake (mgr_disconnect s m)) = Inr own"
  shows "\<exists>i m'. dial_done s (PeerSends False bs) now (mgr_disconnect s m) = (Inr i, m')
    \<and> get_connection s m' = Some i \<and> s \<notin> mgr_active m'"
proof -
  let ?m = "mgr_disconnect s m"
  have none: "get_connection s ?m = None" using disconnect_facts(1) [OF assms(2), of s s] by (simp add: get_connection_def)
  obtain i m' where i: "install_connection s (mgr_local ?m) now ?m = (i, m')" by fastforce
  note d = good_dial [OF assms(3-5) i]
  note f = install_fresh [OF none i] install_frame [of s "mgr_local ?m" now ?m]
  have "s \<notin> mgr_active m'" using f(8) i by (simp add: disconnect_facts [OF assms(2)])
  moreover have "get_connection s (m'\<lparr>mgr_dials := x\<rparr>) = Some i" for x
    using f(1) by simp
  ultimately show ?thesis using d assms(1) by (simp add: dial_done_def disconnect_facts [OF assms(2)])
qed

lemma accept_outlives_stop:
  assumes "mgr_ok m" "\<not> mgr_stopped m" "encode_handshake hs = Inr bs"
    "validate_peer_handshake hs (mgr_cluster (mgr_stop f m)) None = Inr ()"
    "encode_handshake (build_handshake (mgr_stop f m)) = Inr own" "from_silo_id (hs_silo_id hs) = Inr remote"
  shows "\<exists>i. get_connection remote (accept_done False bs True now (mgr_stop f m)) = Some i
    \<and> mgr_stopped (accept_done False bs True now (mgr_stop f m))"
proof -
  let ?m = "mgr_stop f m"
  have none: "get_connection remote ?m = None" using stop_fields [OF assms(2), of f] by (simp add: get_connection_def)
  obtain i m' where i: "install_connection remote remote now ?m = (i, m')" by fastforce
  have "mgr_stopped m'" using install_frame(6) [of remote remote now ?m] i stop_fields(2) [OF assms(2), of f] by simp
  then show ?thesis using good_accept [OF assms(3-6), of now] install_fresh(1) [OF none i] i by simp
qed

definition demo_near :: SiloAddress where
  "demo_near = SiloAddress (lit ''b'') 1 1"

definition demo_far :: SiloAddress where
  "demo_far = SiloAddress (lit ''a'') 1 1"

definition demo_manager :: SiloConnectionManager where
  "demo_manager = new_manager demo_near (ClusterId (lit ''c'')) default_transport_options 0"

lemma demo_connect:
  obtains bs m' where "mgr_connect demo_far (PeerSends False bs) 1 demo_manager = (Inr 0, m')"
    "dial_done demo_far (PeerSends False bs) 1 (snd (connect_begin demo_far demo_manager)) = (Inr 0, m')"
    "mgr_conns m' = [conn_start (new_connection demo_far default_transport_options 1)]"
proof -
  let ?m = "snd (connect_begin demo_far demo_manager)"
  obtain bs where bs: "encode_handshake demo_handshake = Inr bs" using demo_handshake_encodes by blast
  have c: "connect_begin demo_far demo_manager = (StartsDial, demo_manager\<lparr>mgr_dials := [demo_far]\<rparr>)"
    by (simp add: connect_begin_def demo_manager_def new_manager_def get_connection_def)
  then have m: "?m = demo_manager\<lparr>mgr_dials := [demo_far]\<rparr>" by simp
  have v: "validate_peer_handshake demo_handshake (mgr_cluster ?m) (Some demo_far) = Inr ()"
    unfolding m by (simp add: demo_manager_def new_manager_def demo_handshake_def demo_far_def
        validate_peer_handshake_def PROTOCOL_VERSION_def reserved_flags silo_id_def str_int_def dec.simps)
  have "\<exists>own. encode_handshake (build_handshake ?m) = Inr own"
    unfolding m by (simp add: encode_handshake_Inr build_handshake_def demo_manager_def new_manager_def demo_near_def
        PROTOCOL_VERSION_def valid_cp_def utf8_bytes_def utf8_enc1_def silo_id_def str_int_def dec.simps
        MAX_HANDSHAKE_STRING_def UINT32_MAX_def del: be_bytes.simps)
  then obtain own where own: "encode_handshake (build_handshake ?m) = Inr own" by blast
  obtain i m' where i: "install_connection demo_far (mgr_local ?m) 1 ?m = (i, m')" by fastforce
  have m': "i = 0" "mgr_conns m' = [conn_start (new_connection demo_far default_transport_options 1)]"
    using i unfolding m by (auto simp: install_connection_def get_connection_def demo_manager_def new_manager_def
        register_connection_def Let_def)
  have d: "dial_done demo_far (PeerSends False bs) 1 ?m = (Inr 0, m'\<lparr>mgr_dials := removeAll demo_far (mgr_dials m')\<rparr>)"
    using good_dial [OF bs v own i] m'(1) by (simp add: dial_done_def m)
  then have "mgr_connect demo_far (PeerSends False bs) 1 demo_manager = (Inr 0, m'\<lparr>mgr_dials := removeAll demo_far (mgr_dials m')\<rparr>)"
    using c by (simp add: mgr_connect_def)
  from this d show ?thesis by (rule that) (simp add: m'(2))
qed

lemma demo_dial:
  obtains bs where "mgr_conns (mgr_run [ConnectCall demo_far, DialDone demo_far (PeerSends False bs) 1] demo_manager)
    = [conn_start (new_connection demo_far default_transport_options 1)]"
proof -
  obtain bs m' where d: "dial_done demo_far (PeerSends False bs) 1 (snd (connect_begin demo_far demo_manager)) = (Inr 0, m')"
    "mgr_conns m' = [conn_start (new_connection demo_far default_transport_options 1)]" by (rule demo_connect)
  then show ?thesis by (intro that [of bs]) (simp add: mgr_run_def)
qed



text \<open>
  C13. Two silos that dial each other at once agree: whatever order the links come up in at each end,
  and however many there are, both keep one whose initiator is the lesser silo id.
\<close>

theorem dedup_agreement:
  assumes "get_connection b A = None" "get_connection a B = None" "xs \<noteq> []"
    "fst ` set xs = fst ` set ys"
  shows "\<exists>i j. get_connection b (install_all b xs A) = Some i \<and> get_connection a (install_all a ys B) = Some j
    \<and> conn_live (mgr_conns (install_all b xs A) ! i) \<and> conn_live (mgr_conns (install_all a ys B) ! j)
    \<and> dget (mgr_initiators (install_all b xs A)) b = Some (Min (fst ` set xs))
    \<and> dget (mgr_initiators (install_all a ys B)) a = Some (Min (fst ` set xs))"
proof -
  have "ys \<noteq> []" using assms(3,4) by auto
  then show ?thesis using installs_min [OF assms(1,3)] installs_min [OF assms(2), of ys] assms(4) by auto
qed

theorem dedup_agreement_witness:
  "dget (mgr_initiators (install_all demo_far [(demo_near, 1), (demo_far, 2)] demo_manager)) demo_far = Some demo_far
   \<and> dget (mgr_initiators (install_all demo_near [(demo_far, 1), (demo_near, 2)]
        (new_manager demo_far (ClusterId (lit ''c'')) default_transport_options 0))) demo_near = Some demo_far"
proof -
  have none: "get_connection demo_far demo_manager = None"
    "get_connection demo_near (new_manager demo_far (ClusterId (lit ''c'')) default_transport_options 0) = None"
    by (simp_all add: get_connection_def demo_manager_def new_manager_def)
  have "Min {demo_near, demo_far} = demo_far"
    by (simp add: demo_near_def demo_far_def min_def less_eq_silo_id silo_id_def)
  then show ?thesis
    using dedup_agreement [OF none, of "[(demo_near, 1), (demo_far, 2)]" "[(demo_far, 1), (demo_near, 2)]"]
    by (auto simp: insert_commute)
qed



text \<open>
  A peer that stays away for 1025 attempts is given up for good, although it is still an active
  member: the integer power of the backoff no longer fits a float, the \<^verbatim>\<open>OverflowError\<close> leaves the
  loop, and nothing starts it again.
\<close>

theorem reconnect_gives_up:
  assumes "waits_for s m" "dget (mgr_reconnects m) s = None" "length ts = 1025" "\<forall>t \<in> set ts. fst (snd t) = OpenFails"
  shows "waits_for s (fold (reconnect_turn s) (ts @ us) (schedule_reconnect s m))
    \<and> dget (mgr_reconnects (fold (reconnect_turn s) (ts @ us) (schedule_reconnect s m))) s = None"
proof -
  let ?m = "schedule_reconnect s m"
  have m: "?m = m\<lparr>mgr_reconnects := dset (mgr_reconnects m) s 0\<rparr>"
    using assms(2) by (simp add: schedule_reconnect_def)
  have "waits_for s ?m" "dget (mgr_reconnects ?m) s = Some 0" using assms(1) by (simp_all add: m)
  from failing_turns [OF this assms(4)] assms(3) show ?thesis by (simp add: idle_turns)
qed

theorem reconnect_gives_up_witness:
  "let m = fold (reconnect_turn demo_far) (replicate 1025 (0, OpenFails, 0) @ [(0, PeerSends False [], 0)])
        (schedule_reconnect demo_far (demo_manager\<lparr>mgr_active := {demo_far}\<rparr>))
   in demo_far \<in> mgr_active m \<and> dget (mgr_reconnects m) demo_far = None"
proof -
  have "waits_for demo_far (demo_manager\<lparr>mgr_active := {demo_far}\<rparr>)"
    by (simp add: waits_for_def demo_manager_def new_manager_def get_connection_def)
  from reconnect_gives_up [OF this, of "replicate 1025 (0, OpenFails, 0)" "[(0, PeerSends False [], 0)]"] show ?thesis
    by (simp add: demo_manager_def new_manager_def waits_for_def Let_def del: fold_append fold.simps)
qed

text \<open>
  A membership update disconnects exactly the silos that are gone, starts eager connects for
  exactly the new ones, and leaves every other connection and reconnect loop alone.
\<close>

theorem membership_update_spec:
  assumes "mgr_ok m" "finite (mgr_active m)" "update_active_silos active m = (added, m')"
    "gone = mgr_active m - (active - {mgr_local m})"
  shows "mgr_active m' = active - {mgr_local m} \<and> added = mgr_active m' - mgr_active m
    \<and> (\<forall>s. dget (mgr_connections m') s = (if s \<in> gone then None else dget (mgr_connections m) s))
    \<and> (\<forall>s. dget (mgr_reconnects m') s = (if s \<in> gone then None else dget (mgr_reconnects m) s))
    \<and> (\<forall>i. mgr_conns m' ! i = (if \<exists>s \<in> gone. dget (mgr_connections m) s = Some i
         then close_fully CloseNormal (mgr_conns m ! i) else mgr_conns m ! i))"
proof -
  let ?ss = "sorted_list_of_set gone" and ?m = "m\<lparr>mgr_active := active - {mgr_local m}\<rparr>"
  have ss: "set ?ss = gone" using assms(2,4) by simp
  have m': "m' = fold mgr_disconnect ?ss ?m" "added = active - {mgr_local m} - mgr_active m"
    using assms(3,4) by (simp_all add: update_active_silos_def Let_def)
  have "mgr_ok ?m" using assms(1) by simp
  note f = disconnects_facts [OF this, of ?ss, unfolded ss, folded m'(1)]
  have "mgr_active m' = active - {mgr_local m}" using f assms(4) by auto
  then show ?thesis using f m'(2) by simp
qed

theorem membership_update_spec_witness:
  "fst (update_active_silos {demo_near, demo_far} demo_manager) = {demo_far}"
proof -
  have ok: "mgr_ok demo_manager" "finite (mgr_active demo_manager)"
    unfolding demo_manager_def by (rule mgr_ok_new) (simp add: new_manager_def)
  obtain added m' where u: "update_active_silos {demo_near, demo_far} demo_manager = (added, m')" by fastforce
  have "demo_near \<noteq> demo_far" by (simp add: demo_near_def demo_far_def)
  then show ?thesis using membership_update_spec [OF ok u refl] u by (simp add: demo_manager_def new_manager_def insert_Diff_if)
qed

text \<open>
  After a stop nothing is connected, dialled or scheduled, no connection is live, later calls of
  \<^verbatim>\<open>connect\<close> raise and later streams are refused. A connection is closed when its normal close ended in
  time; when it did not, the forced close does nothing, and its callers are left waiting.
\<close>

theorem mgr_stop_spec:
  assumes "mgr_ok m" "\<not> mgr_stopped m"
  shows "get_connected_silos (mgr_stop f m) = [] \<and> mgr_dials (mgr_stop f m) = [] \<and> mgr_reconnects (mgr_stop f m) = []
    \<and> (\<forall>i < length (mgr_conns m). \<not> conn_live (mgr_conns (mgr_stop f m) ! i))
    \<and> (\<forall>s. connect_begin s (mgr_stop f m) = (ConnectRaises TransportError, mgr_stop f m))
    \<and> (\<forall>t bs w now. accept_inbound t bs w now (mgr_stop f m) = mgr_stop f m)
    \<and> (\<forall>i < length (mgr_conns m). conn_live (mgr_conns m ! i) \<longrightarrow>
         (if f i then conn_state (mgr_conns (mgr_stop f m) ! i) = ConnClosed
          else conn_state (mgr_conns (mgr_stop f m) ! i) = ConnClosing
            \<and> conn_pending (mgr_conns (mgr_stop f m) ! i) = conn_pending (mgr_conns m ! i)))"
proof -
  note s = stop_fields [OF assms(2), of f]
  have "\<not> conn_live (mgr_conns (mgr_stop f m) ! i)" if "i < length (mgr_conns m)" for i
    unfolding s(1) by (rule stop_all_dead [OF assms(1) that])
  moreover have "if f i then conn_state (mgr_conns (mgr_stop f m) ! i) = ConnClosed
      else conn_state (mgr_conns (mgr_stop f m) ! i) = ConnClosing
        \<and> conn_pending (mgr_conns (mgr_stop f m) ! i) = conn_pending (mgr_conns m ! i)"
    if "i < length (mgr_conns m)" "conn_live (mgr_conns m ! i)" for i
    using that(2) unfolding s(1) stop_at_nth [OF mgr_ok_distinct [OF assms(1)] that(1)]
    using live_in_table [OF assms(1) that]
    by (auto simp: stop_connection_def close_fully_def close_begin_def close_end_def conn_live_def)
  ultimately show ?thesis using s(2-)
    by (simp add: get_connected_silos_def connect_begin_def accept_inbound_def)
qed

theorem mgr_stop_spec_witness:
  "\<exists>bs. conn_state (mgr_conns (mgr_stop (\<lambda>_. False)
     (mgr_run [ConnectCall demo_far, DialDone demo_far (PeerSends False bs) 1] demo_manager)) ! 0) = ConnClosing"
proof -
  obtain bs where bs: "mgr_conns (mgr_run [ConnectCall demo_far, DialDone demo_far (PeerSends False bs) 1] demo_manager)
    = [conn_start (new_connection demo_far default_transport_options 1)]" by (rule demo_dial)
  let ?m = "mgr_run [ConnectCall demo_far, DialDone demo_far (PeerSends False bs) 1] demo_manager"
  have "mgr_ok ?m" unfolding demo_manager_def by (intro mgr_ok_run mgr_ok_new)
  moreover have "\<not> mgr_stopped ?m"
    using dial_done_frame(3) [of demo_far _ 1]
    by (simp add: mgr_run_def connect_begin_def demo_manager_def new_manager_def get_connection_def)
  ultimately have "\<forall>i < length (mgr_conns ?m). conn_live (mgr_conns ?m ! i) \<longrightarrow>
      conn_state (mgr_conns (mgr_stop (\<lambda>_. False) ?m) ! i) = ConnClosing"
    using mgr_stop_spec [of ?m "\<lambda>_. False"] by metis
  moreover have "0 < length (mgr_conns ?m)" "conn_live (mgr_conns ?m ! 0)"
    by (simp_all add: bs conn_live_def conn_start_def new_connection_def)
  ultimately show ?thesis by blast
qed

end
