(* ===== verification/ClusterTransport.thy ===== *)
theory ClusterTransport
  imports ConnectionManager
begin

text \<open>
  \<^verbatim>\<open>pyleans/transport/tcp/transport.py\<close>: the cluster transport a silo works with, a thin layer over
  the connection manager. The listener socket is a flag; the port it was bound to is given with the
  start. A call that sends is one step: the dial it may need, then the frame on the connection.
\<close>

subsection \<open>State\<close>

datatype transport_state = TransportNew | TransportRunning | TransportStopped

record TcpClusterTransport =
  tr_options :: TransportOptions
  tr_state :: transport_state
  tr_local :: "SiloAddress option"
  tr_cluster :: "ClusterId option"
  tr_manager :: "SiloConnectionManager option"
  tr_listening :: bool

definition new_transport :: "TransportOptions \<Rightarrow> TcpClusterTransport" where
  "new_transport opts =
     \<lparr>tr_options = opts, tr_state = TransportNew, tr_local = None, tr_cluster = None, tr_manager = None,
      tr_listening = False\<rparr>"

text \<open>\<open>bound\<close>: the port the listener got, or nothing when it could not be started.\<close>

definition transport_start ::
  "SiloAddress \<Rightarrow> ClusterId \<Rightarrow> int option \<Rightarrow> TcpClusterTransport \<Rightarrow> unit result \<times> TcpClusterTransport" where
  "transport_start local cluster bound t =
     (if tr_state t = TransportRunning \<or> tr_state t = TransportStopped then (Inl RuntimeError, t)
      else
        let t1 = t\<lparr>tr_local := Some local, tr_cluster := Some cluster,
                   tr_manager := Some (new_manager local cluster (tr_options t) 0)\<rparr>
        in case bound of
             None \<Rightarrow> (Inl OtherException, t1)
           | Some p \<Rightarrow>
               let self = (if p \<noteq> port local then SiloAddress (host local) p (epoch local) else local)
               in (Inr (), t1\<lparr>tr_local := Some self,
                     tr_manager := map_option (\<lambda>m. m\<lparr>mgr_local := self\<rparr>) (tr_manager t1),
                     tr_listening := True, tr_state := TransportRunning\<rparr>))"

definition transport_stop :: "(nat \<Rightarrow> bool) \<Rightarrow> TcpClusterTransport \<Rightarrow> TcpClusterTransport" where
  "transport_stop in_time t =
     (if tr_state t \<noteq> TransportRunning then t
      else t\<lparr>tr_state := TransportStopped, tr_listening := False,
             tr_manager := map_option (mgr_stop in_time) (tr_manager t)\<rparr>)"

definition transport_local_silo :: "TcpClusterTransport \<Rightarrow> SiloAddress result" where
  "transport_local_silo t = (case tr_local t of None \<Rightarrow> Inl TransportClosedError | Some s \<Rightarrow> Inr s)"

subsection \<open>Operations\<close>

definition require_manager :: "TcpClusterTransport \<Rightarrow> SiloConnectionManager result" where
  "require_manager t =
     (case tr_manager t of
        Some m \<Rightarrow> if tr_state t \<noteq> TransportRunning then Inl TransportClosedError else Inr m
      | None \<Rightarrow> Inl TransportClosedError)"

definition reject_self_send :: "SiloAddress \<Rightarrow> TcpClusterTransport \<Rightarrow> unit result" where
  "reject_self_send target t = (if tr_local t = Some target then Inl ValueError else Inr ())"

definition connect_to_silo ::
  "SiloAddress \<Rightarrow> peer_io \<Rightarrow> seconds \<Rightarrow> TcpClusterTransport \<Rightarrow> unit result \<times> TcpClusterTransport" where
  "connect_to_silo silo io now t =
     (case require_manager t of
        Inl e \<Rightarrow> (Inl e, t)
      | Inr m \<Rightarrow> (case mgr_connect silo io now m of
                   (r, m') \<Rightarrow> (map_sum id (\<lambda>_. ()) r, t\<lparr>tr_manager := Some m'\<rparr>)))"

definition disconnect_from_silo :: "SiloAddress \<Rightarrow> TcpClusterTransport \<Rightarrow> unit result \<times> TcpClusterTransport" where
  "disconnect_from_silo silo t =
     (case require_manager t of
        Inl e \<Rightarrow> (Inl e, t)
      | Inr m \<Rightarrow> (Inr (), t\<lparr>tr_manager := Some (mgr_disconnect silo m)\<rparr>))"

text \<open>The connection to a silo, dialled if need be.\<close>

definition connection_for ::
  "SiloAddress \<Rightarrow> peer_io \<Rightarrow> seconds \<Rightarrow> TcpClusterTransport \<Rightarrow> (nat \<times> SiloConnectionManager) result \<times> TcpClusterTransport" where
  "connection_for target io now t =
     (case reject_self_send target t of
        Inl e \<Rightarrow> (Inl e, t)
      | Inr _ \<Rightarrow>
          (case require_manager t of
             Inl e \<Rightarrow> (Inl e, t)
           | Inr m \<Rightarrow> (case mgr_connect target io now m of
                        (Inl e, m') \<Rightarrow> (Inl e, t\<lparr>tr_manager := Some m'\<rparr>)
                      | (Inr i, m') \<Rightarrow> (Inr (i, m'), t\<lparr>tr_manager := Some m'\<rparr>))))"

definition put_connection :: "nat \<Rightarrow> SiloConnection \<Rightarrow> SiloConnectionManager \<Rightarrow> TcpClusterTransport \<Rightarrow> TcpClusterTransport" where
  "put_connection i c m t = t\<lparr>tr_manager := Some (m\<lparr>mgr_conns := (mgr_conns m)[i := c]\<rparr>)\<rparr>"

definition transport_send_request ::
  "SiloAddress \<Rightarrow> bytes \<Rightarrow> bytes \<Rightarrow> seconds option \<Rightarrow> peer_io \<Rightarrow> write_env \<Rightarrow> seconds \<Rightarrow> TcpClusterTransport \<Rightarrow>
   send_outcome \<times> TcpClusterTransport" where
  "transport_send_request target header body timeout io env now t =
     (case connection_for target io now t of
        (Inl e, t') \<Rightarrow> (SendRaised e, t')
      | (Inr (i, m), t') \<Rightarrow> (case send_request env now header body timeout (mgr_conns m ! i) of
                              (r, c) \<Rightarrow> (r, put_connection i c m t')))"

definition transport_send_one_way ::
  "SiloAddress \<Rightarrow> bytes \<Rightarrow> bytes \<Rightarrow> peer_io \<Rightarrow> write_env \<Rightarrow> seconds \<Rightarrow> TcpClusterTransport \<Rightarrow>
   unit result \<times> TcpClusterTransport" where
  "transport_send_one_way target header body io env now t =
     (case connection_for target io now t of
        (Inl e, t') \<Rightarrow> (Inl e, t')
      | (Inr (i, m), t') \<Rightarrow> (case send_one_way env now header body (mgr_conns m ! i) of
                              (r, c) \<Rightarrow> (r, put_connection i c m t')))"

definition transport_send_ping ::
  "SiloAddress \<Rightarrow> seconds \<Rightarrow> peer_io \<Rightarrow> write_env \<Rightarrow> seconds \<Rightarrow> TcpClusterTransport \<Rightarrow>
   send_outcome \<times> TcpClusterTransport" where
  "transport_send_ping target timeout io env now t =
     (case connection_for target io now t of
        (Inl e, t') \<Rightarrow> (SendRaised e, t')
      | (Inr (i, m), t') \<Rightarrow> (case send_ping env now timeout (mgr_conns m ! i) of
                              (r, c) \<Rightarrow> (r, put_connection i c m t')))"

definition is_connected_to :: "SiloAddress \<Rightarrow> TcpClusterTransport \<Rightarrow> bool" where
  "is_connected_to silo t = (case tr_manager t of None \<Rightarrow> False | Some m \<Rightarrow> get_connection silo m \<noteq> None)"

definition transport_connected_silos :: "TcpClusterTransport \<Rightarrow> SiloAddress list" where
  "transport_connected_silos t = (case tr_manager t of None \<Rightarrow> [] | Some m \<Rightarrow> get_connected_silos m)"

subsection \<open>Well-formed transports\<close>

definition transport_ok :: "TcpClusterTransport \<Rightarrow> bool" where
  "transport_ok t \<longleftrightarrow>
     (case tr_manager t of
        None \<Rightarrow> tr_state t = TransportNew
      | Some m \<Rightarrow> mgr_ok m \<and> tr_local t = Some (mgr_local m) \<and> (mgr_stopped m \<longleftrightarrow> tr_state t = TransportStopped))"

lemma transport_ok_new: "transport_ok (new_transport opts)"
  by (simp add: transport_ok_def new_transport_def)

lemma mgr_stopped_stop: "mgr_stopped (mgr_stop f m)"
  by (simp add: mgr_stop_def)

lemma fold_stop_local: "mgr_local (fold (stop_at f) is m) = mgr_local m"
  by (induction "is" arbitrary: m) simp_all

lemma mgr_stop_local: "mgr_local (mgr_stop f m) = mgr_local m"
  by (simp add: mgr_stop_def fold_stop_local)

lemma transport_ok_start: "transport_ok t \<Longrightarrow> transport_ok (snd (transport_start local cluster bound t))"
  by (cases "tr_state t") (auto simp: transport_start_def transport_ok_def Let_def mgr_ok_def new_manager_def split: option.split)

lemma transport_ok_stop: "transport_ok t \<Longrightarrow> transport_ok (transport_stop f t)"
  by (auto simp: transport_stop_def transport_ok_def mgr_ok_stop mgr_stopped_stop mgr_stop_local split: option.splits)

text \<open>What \<^verbatim>\<open>connect\<close> returns is the live connection on record.\<close>

lemma install_result:
  assumes "install_connection s a now m = (i, m')" shows "get_connection s m' = Some i"
proof (cases "get_connection s m")
  case None
  then show ?thesis using install_fresh(1) assms by blast
next
  case (Some j)
  let ?keeps = "dedup_keeps_existing (case dget (mgr_initiators m) s of None \<Rightarrow> s | Some s \<Rightarrow> s) a"
  show ?thesis
  proof (cases ?keeps)
    case True
    then show ?thesis using assms Some by (simp add: install_connection_def)
  next
    case False
    then obtain m1 where "register_connection s a now m1 = (i, m')"
      using assms Some by (simp add: install_connection_def)
    then show ?thesis by (rule register_facts)
  qed
qed

lemma dial_result: "dial_done s io now m = (Inr i, m') \<Longrightarrow> get_connection s m' = Some i"
  using dial_cases [of s io now m] install_result [of s "mgr_local m" now m]
  by (auto simp: dial_done_def split: if_splits prod.splits)

lemma connect_result: "mgr_connect s io now m = (Inr i, m') \<Longrightarrow> get_connection s m' = Some i"
  by (auto simp: mgr_connect_def connect_begin_def split: if_splits option.splits intro: dial_result)

lemma connection_for_facts:
  assumes "connection_for target io now t = (Inr (i, m), t')"
  shows "tr_manager t' = Some m" "get_connection target m = Some i" "tr_state t = TransportRunning"
    "tr_local t \<noteq> Some target"
    "\<exists>m0. tr_manager t = Some m0 \<and> m = snd (mgr_connect target io now m0)"
    "t' = t\<lparr>tr_manager := Some m\<rparr>"
  using assms unfolding connection_for_def reject_self_send_def require_manager_def
  by (auto split: if_splits option.splits prod.splits sum.splits intro: connect_result)

lemma connection_for_ok:
  assumes "transport_ok t" "connection_for target io now t = (r, t')" shows "transport_ok t'"
  using assms mgr_ok_connect mgr_connect_frame
  unfolding connection_for_def reject_self_send_def require_manager_def transport_ok_def
  by (auto split: if_splits option.splits prod.splits sum.splits) (metis snd_conv)+

lemma send_request_waits:
  assumes "send_request env now header body timeout c = (AwaitsFuture cid f, c')"
  shows "(cid, f) \<in> set (conn_callers c') \<and> conn_state c' = conn_state c \<and> conn_state c = ConnRunning
    \<and> conn_remote c' = conn_remote c"
proof -
  have run: "conn_state c = ConnRunning" and permit: "send_with_permit env now header body timeout c = (AwaitsFuture cid f, c')"
    using assms by (auto simp: send_request_def ensure_running_def split: if_splits)
  obtain a where a: "allocate timeout (conn_pending c) = a" by simp
  obtain cid' f' p where al: "allocate timeout (conn_pending c) = ((cid', f'), p)" using a by (metis prod.collapse)
  let ?msg = "\<lparr>message_type = REQUEST, correlation_id = cid', msg_header = header, msg_body = body\<rparr>"
  obtain r c1 where w: "write_frame env now ?msg (c\<lparr>conn_pending := p\<rparr>) = (r, c1)" by fastforce
  have c': "c' = c1\<lparr>conn_in_flight := conn_in_flight c1 - 1, conn_callers := conn_callers c1 @ [(cid, f)]\<rparr>"
    using permit w by (auto simp: send_with_permit_def al split: if_splits sum.splits)
  show ?thesis using run write_frame_state [OF w] settles_write_eq [OF w] by (simp add: c' settles_def)
qed

subsection \<open>Properties\<close>

text \<open>
  A request that is on its way is on its way to the silo it names: the silo is another one, the
  transport runs, and the caller waits on the one live connection to that silo.
\<close>

theorem transport_routes:
  assumes "transport_ok t"
    "transport_send_request target header body timeout io env now t = (AwaitsFuture cid f, t')"
  shows "\<exists>m i. tr_manager t' = Some m \<and> get_connection target m = Some i
    \<and> conn_remote (mgr_conns m ! i) = target \<and> conn_state (mgr_conns m ! i) = ConnRunning
    \<and> (cid, f) \<in> set (conn_callers (mgr_conns m ! i))
    \<and> tr_state t' = TransportRunning \<and> tr_local t' \<noteq> Some target \<and> transport_ok t'"
proof -
  obtain i m t1 c where f: "connection_for target io now t = (Inr (i, m), t1)"
    "send_request env now header body timeout (mgr_conns m ! i) = (AwaitsFuture cid f, c)"
    "t' = put_connection i c m t1"
    using assms(2) by (auto simp: transport_send_request_def split: prod.splits sum.splits)
  note c = connection_for_facts [OF f(1)] and s = send_request_waits [OF f(2)]
  have t1: "transport_ok t1" by (rule connection_for_ok [OF assms(1) f(1)])
  then have m: "mgr_ok m" "tr_local t1 = Some (mgr_local m)" "mgr_stopped m \<longleftrightarrow> tr_state t1 = TransportStopped"
    by (simp_all add: transport_ok_def c(1))
  have e: "dget (mgr_connections m) target = Some i" by (rule get_connection_entry [OF c(2)])
  then have i: "i < length (mgr_conns m)" "conn_remote (mgr_conns m ! i) = target" using m(1) by (simp_all add: mgr_ok_def)
  let ?m = "m\<lparr>mgr_conns := (mgr_conns m)[i := c]\<rparr>"
  have "mgr_ok ?m" by (rule mgr_ok_conn [OF m(1)]) (use s in \<open>simp add: settles_def conn_live_def\<close>)
  then have "transport_ok t'" using m(2,3) c(3,6) by (simp add: f(3) put_connection_def transport_ok_def)
  moreover have "get_connection target ?m = Some i" using e i(1) s by (simp add: get_connection_def is_closed_def)
  ultimately show ?thesis using c s i by (intro exI [of _ ?m] exI [of _ i]) (simp add: f(3) put_connection_def)
qed

definition demo_transport :: TcpClusterTransport where
  "demo_transport = snd (transport_start demo_near (ClusterId (lit ''c'')) (Some 1) (new_transport default_transport_options))"

lemma demo_transport_fields:
  "tr_manager demo_transport = Some demo_manager" "tr_state demo_transport = TransportRunning"
  "tr_local demo_transport = Some demo_near"
  by (simp_all add: demo_transport_def transport_start_def new_transport_def demo_manager_def new_manager_def demo_near_def Let_def)

theorem transport_routes_witness:
  "\<exists>bs t' m. transport_send_request demo_far [] [] None (PeerSends False bs) (0, True) 1
      demo_transport
     = (AwaitsFuture 1 0, t')
   \<and> tr_manager t' = Some m \<and> get_connection demo_far m \<noteq> None"
proof -
  let ?t = demo_transport
  obtain bs m' where d: "mgr_connect demo_far (PeerSends False bs) 1 demo_manager = (Inr 0, m')"
    "mgr_conns m' = [conn_start (new_connection demo_far default_transport_options 1)]" by (rule demo_connect)
  note t = demo_transport_fields
  have "demo_near \<noteq> demo_far" by (simp add: demo_near_def demo_far_def)
  then have f: "connection_for demo_far (PeerSends False bs) 1 ?t = (Inr (0, m'), ?t\<lparr>tr_manager := Some m'\<rparr>)"
    by (simp add: connection_for_def reject_self_send_def require_manager_def t d(1))
  let ?c = "conn_start (new_connection demo_far default_transport_options 1)"
  let ?req = "\<lparr>message_type = REQUEST, correlation_id = 1, msg_header = [], msg_body = []\<rparr>"
  have "\<exists>frame. encode_frame ?req (max_message_size default_transport_options) = Inr frame"
    by (rule frame_exists; simp add: default_transport_options_def frame_total_def FRAME_OVERHEAD_AFTER_PREFIX_def
        FRAME_PREFIX_SIZE_def UINT64_MAX_def UINT32_MAX_def)
  then obtain frame where fr: "encode_frame ?req (max_message_size default_transport_options) = Inr frame" by blast
  obtain c where "send_request (0, True) 1 [] [] None ?c = (AwaitsFuture 1 0, c)"
    using fr by (simp add: send_request_def ensure_running_def send_with_permit_def conn_start_def new_connection_def
        allocate_def new_pending_def Let_def write_frame_def enforce_backpressure_def is_closed_def
        default_transport_options_def)
  then obtain t' where r: "transport_send_request demo_far [] [] None (PeerSends False bs) (0, True) 1 ?t = (AwaitsFuture 1 0, t')"
    by (simp add: transport_send_request_def f d(2))
  have "transport_ok ?t" unfolding demo_transport_def by (intro transport_ok_start transport_ok_new)
  from transport_routes [OF this r] r show ?thesis by fastforce
qed

text \<open>
  Whatever is asked of it: a silo's own address is refused, a transport that is not running refuses
  every call with \<^verbatim>\<open>TransportClosedError\<close>, both without an effect; it starts once, and stopped it is
  connected to nobody.
\<close>

theorem transport_guards:
  "(tr_local t = Some target \<longrightarrow>
      transport_send_request target header body timeout io env now t = (SendRaised ValueError, t)
      \<and> transport_send_one_way target header body io env now t = (Inl ValueError, t)
      \<and> transport_send_ping target wait io env now t = (SendRaised ValueError, t))
   \<and> (tr_state t \<noteq> TransportRunning \<longrightarrow>
      connect_to_silo target io now t = (Inl TransportClosedError, t)
      \<and> disconnect_from_silo target t = (Inl TransportClosedError, t)
      \<and> (tr_local t \<noteq> Some target \<longrightarrow>
          transport_send_request target header body timeout io env now t = (SendRaised TransportClosedError, t)
          \<and> transport_send_one_way target header body io env now t = (Inl TransportClosedError, t)
          \<and> transport_send_ping target wait io env now t = (SendRaised TransportClosedError, t)))
   \<and> (\<forall>t'. transport_start local cluster bound t = (Inr (), t') \<longrightarrow>
        tr_state t' = TransportRunning \<and> (\<exists>p. bound = Some p \<and> tr_local t' = Some (SiloAddress (host local) p (epoch local)))
        \<and> (\<forall>l c b. transport_start l c b t' = (Inl RuntimeError, t')
            \<and> transport_start l c b (transport_stop in_time t') = (Inl RuntimeError, transport_stop in_time t'))
        \<and> transport_connected_silos (transport_stop in_time t') = []
        \<and> \<not> is_connected_to target (transport_stop in_time t'))"
proof (intro conjI impI allI)
  fix t' assume "transport_start local cluster bound t = (Inr (), t')"
  then obtain p m where s: "bound = Some p" "tr_state t' = TransportRunning" "tr_manager t' = Some m" "\<not> mgr_stopped m"
    "tr_local t' = Some (SiloAddress (host local) p (epoch local))"
    by (cases local) (auto simp: transport_start_def Let_def new_manager_def split: if_splits option.splits)
  then show "tr_state t' = TransportRunning"
    "\<exists>p. bound = Some p \<and> tr_local t' = Some (SiloAddress (host local) p (epoch local))" by simp_all
  show "transport_start l c b t' = (Inl RuntimeError, t')"
    "transport_start l c b (transport_stop in_time t') = (Inl RuntimeError, transport_stop in_time t')" for l c b
    using s by (simp_all add: transport_start_def transport_stop_def)
  show "transport_connected_silos (transport_stop in_time t') = []" "\<not> is_connected_to target (transport_stop in_time t')"
    using s stop_fields [OF s(4), of in_time]
    by (simp_all add: transport_connected_silos_def is_connected_to_def transport_stop_def get_connected_silos_def get_connection_def)
qed (simp_all add: transport_send_request_def transport_send_one_way_def transport_send_ping_def connection_for_def
    reject_self_send_def require_manager_def connect_to_silo_def disconnect_from_silo_def split: option.split)

theorem transport_guards_witness:
  "transport_send_request demo_near [] [] None OpenFails (0, True) 1 demo_transport = (SendRaised ValueError, demo_transport)"
  using transport_guards [of demo_transport demo_near "[]" "[]" None OpenFails "(0, True)" 1] demo_transport_fields(3)
  by blast

end
