(* ===== verification/Lifecycle.thy ===== *)
theory Lifecycle
  imports Prelude PyText
begin

text \<open>
  \<^verbatim>\<open>pyleans/server/lifecycle.py\<close>: subscription of participants to numeric stages, start
  in ascending order with rollback, stop in descending order. A hook is what it comes to when it is
  called: it finishes, raises, or does not return in time. The calls of hooks are the trace of an
  operation; those of one stage are made in the order of subscription and run concurrently.
\<close>

subsection \<open>State\<close>

datatype hook_outcome = Finishes | Raises error | Hangs

record participant =
  part_start :: "int \<Rightarrow> hook_outcome"
  part_stop :: "int \<Rightarrow> hook_outcome"
  part_label :: pystr

record SiloLifecycle =
  stage_start_timeout :: rat
  stage_stop_timeout :: rat
  participants :: "(int, participant list) dict"
  completed_stages :: "int list"
  lc_started :: bool
  lc_stopped :: bool

datatype hook_call = OnStart int participant | OnStop int participant

definition new_lifecycle :: "rat \<Rightarrow> rat \<Rightarrow> SiloLifecycle result" where
  "new_lifecycle start_timeout stop_timeout =
     (if start_timeout \<le> 0 then Inl ValueError
      else if stop_timeout \<le> 0 then Inl ValueError
      else Inr \<lparr>stage_start_timeout = start_timeout, stage_stop_timeout = stop_timeout, participants = [],
                completed_stages = [], lc_started = False, lc_stopped = False\<rparr>)"

text \<open>\<^verbatim>\<open>LifecycleStage\<close>, the canonical stages.\<close>

definition lifecycle_stages :: "int list" where
  "lifecycle_stages =
     [- 1000000, 2000, 4000, 6000, 7000, 8000, 10000, 19999, 20000, 1000000]"

definition stage_participants :: "SiloLifecycle \<Rightarrow> int \<Rightarrow> participant list" where
  "stage_participants lc stage = (case dget (participants lc) stage of None \<Rightarrow> [] | Some ps \<Rightarrow> ps)"

subsection \<open>Operations\<close>

definition lifecycle_subscribe :: "int \<Rightarrow> participant \<Rightarrow> SiloLifecycle \<Rightarrow> unit result \<times> SiloLifecycle" where
  "lifecycle_subscribe stage p lc =
     (if lc_started lc then (Inl RuntimeError, lc)
      else (Inr (), lc\<lparr>participants := dset (participants lc) stage (stage_participants lc stage @ [p])\<rparr>))"

text \<open>
  \<^verbatim>\<open>asyncio.gather\<close> calls every hook of the stage; the first exception is the stage's, and
  the other hooks run on. A hook that hangs ends in the timeout of the stage.
\<close>

fun first_error :: "hook_outcome list \<Rightarrow> error option" where
  "first_error [] = None"
| "first_error (Raises e # os) = Some e"
| "first_error (_ # os) = first_error os"

definition run_stage_start :: "SiloLifecycle \<Rightarrow> int \<Rightarrow> unit result \<times> hook_call list" where
  "run_stage_start lc stage =
     (let ps = stage_participants lc stage; outcomes = map (\<lambda>p. part_start p stage) ps
      in (case first_error outcomes of
            Some e \<Rightarrow> Inl e
          | None \<Rightarrow> if Hangs \<in> set outcomes then Inl TimeoutErr else Inr (), map (OnStart stage) ps))"

text \<open>Stopping collects the exceptions of the hooks; only the timeout can end it early.\<close>

definition run_stage_stop :: "SiloLifecycle \<Rightarrow> int \<Rightarrow> unit result \<times> hook_call list" where
  "run_stage_stop lc stage =
     (let ps = stage_participants lc stage
      in (if Hangs \<in> set (map (\<lambda>p. part_stop p stage) ps) then Inl TimeoutErr else Inr (),
          map (OnStop stage) ps))"

text \<open>The loop of \<^verbatim>\<open>stop\<close> and of the rollback: whatever a stage comes to, the next one follows.\<close>

fun stop_stages :: "SiloLifecycle \<Rightarrow> int list \<Rightarrow> hook_call list" where
  "stop_stages lc [] = []"
| "stop_stages lc (stage # stages) = (case run_stage_stop lc stage of (_, calls) \<Rightarrow> calls @ stop_stages lc stages)"

definition rollback_from_failure :: "SiloLifecycle \<Rightarrow> SiloLifecycle \<times> hook_call list" where
  "rollback_from_failure lc =
     (lc\<lparr>completed_stages := [], lc_stopped := True\<rparr>, stop_stages lc (rev (completed_stages lc)))"

fun start_stages :: "int list \<Rightarrow> SiloLifecycle \<Rightarrow> unit result \<times> SiloLifecycle \<times> hook_call list" where
  "start_stages [] lc = (Inr (), lc, [])"
| "start_stages (stage # stages) lc =
     (case run_stage_start lc stage of
        (Inl _, calls) \<Rightarrow>
          (case rollback_from_failure lc of (lc', undone) \<Rightarrow> (Inl StartupAbortedError, lc', calls @ undone))
      | (Inr _, calls) \<Rightarrow>
          (case start_stages stages (lc\<lparr>completed_stages := completed_stages lc @ [stage]\<rparr>) of
             (r, lc', more_calls) \<Rightarrow> (r, lc', calls @ more_calls)))"

definition lifecycle_start :: "SiloLifecycle \<Rightarrow> unit result \<times> SiloLifecycle \<times> hook_call list" where
  "lifecycle_start lc =
     (if lc_started lc then (Inl RuntimeError, lc, [])
      else start_stages (sort (dkeys (participants lc))) (lc\<lparr>lc_started := True\<rparr>))"

definition lifecycle_stop :: "SiloLifecycle \<Rightarrow> SiloLifecycle \<times> hook_call list" where
  "lifecycle_stop lc =
     (if lc_stopped lc then (lc, [])
      else (lc\<lparr>lc_stopped := True, completed_stages := []\<rparr>, stop_stages lc (rev (completed_stages lc))))"

subsection \<open>Stages as traces\<close>

definition starts :: "SiloLifecycle \<Rightarrow> int list \<Rightarrow> hook_call list" where
  "starts lc stages = concat (map (\<lambda>s. map (OnStart s) (stage_participants lc s)) stages)"

definition stops :: "SiloLifecycle \<Rightarrow> int list \<Rightarrow> hook_call list" where
  "stops lc stages = concat (map (\<lambda>s. map (OnStop s) (stage_participants lc s)) stages)"

definition stage_fine :: "SiloLifecycle \<Rightarrow> int \<Rightarrow> bool" where
  "stage_fine lc s \<longleftrightarrow> (\<forall>p \<in> set (stage_participants lc s). part_start p s = Finishes)"

lemma stop_stages_stops: "stop_stages lc stages = stops lc stages"
  by (induction stages) (simp_all add: stops_def run_stage_stop_def Let_def)

lemma first_error_None: "first_error os = None \<longleftrightarrow> (\<forall>e. Raises e \<notin> set os)"
  by (induction os rule: first_error.induct) auto

lemma finishes_iff: "x = Finishes \<longleftrightarrow> (\<forall>e. x \<noteq> Raises e) \<and> x \<noteq> Hangs"
  by (cases x) auto

lemma all_finish: "(\<forall>x \<in> S. x = Finishes) \<longleftrightarrow> (\<forall>e. Raises e \<notin> S) \<and> Hangs \<notin> S"
  by (auto simp: finishes_iff)

lemma run_stage_start_fine:
  "run_stage_start lc s = (r, calls) \<Longrightarrow> calls = map (OnStart s) (stage_participants lc s)
     \<and> (r = Inr () \<longleftrightarrow> stage_fine lc s)"
proof -
  assume run: "run_stage_start lc s = (r, calls)"
  let ?os = "map (\<lambda>p. part_start p s) (stage_participants lc s)"
  have "stage_fine lc s \<longleftrightarrow> first_error ?os = None \<and> Hangs \<notin> set ?os"
    using all_finish [of "set ?os"] by (simp add: stage_fine_def first_error_None)
  then show ?thesis using run by (auto simp: run_stage_start_def Let_def split: option.splits if_splits)
qed

lemma stage_participants_upd [simp]:
  "stage_participants (lc\<lparr>completed_stages := c\<rparr>) = stage_participants lc"
  "stage_participants (lc\<lparr>lc_started := b\<rparr>) = stage_participants lc"
  "stage_participants (lc\<lparr>lc_stopped := b\<rparr>) = stage_participants lc"
  by (simp_all add: fun_eq_iff stage_participants_def)

lemma trace_upd [simp]:
  "starts (lc\<lparr>completed_stages := c\<rparr>) = starts lc" "stops (lc\<lparr>completed_stages := c\<rparr>) = stops lc"
  "stage_fine (lc\<lparr>completed_stages := c\<rparr>) = stage_fine lc"
  "starts (lc\<lparr>lc_started := b\<rparr>) = starts lc" "stops (lc\<lparr>lc_started := b\<rparr>) = stops lc"
  "stage_fine (lc\<lparr>lc_started := b\<rparr>) = stage_fine lc"
  "stops (lc\<lparr>lc_stopped := b\<rparr>) = stops lc"
  by (simp_all add: fun_eq_iff starts_def stops_def stage_fine_def)

lemma start_stages_spec:
  "start_stages stages lc = (r, lc', tr) \<Longrightarrow>
     (\<forall>s \<in> set stages. stage_fine lc s) \<and> r = Inr () \<and> tr = starts lc stages
       \<and> lc' = lc\<lparr>completed_stages := completed_stages lc @ stages\<rparr>
   \<or> (\<exists>pre k post. stages = pre @ k # post \<and> (\<forall>s \<in> set pre. stage_fine lc s) \<and> \<not> stage_fine lc k
       \<and> r = Inl StartupAbortedError
       \<and> tr = starts lc (pre @ [k]) @ stops lc (rev (completed_stages lc @ pre))
       \<and> lc' = lc\<lparr>completed_stages := [], lc_stopped := True\<rparr>)"
proof (induction stages arbitrary: lc r lc' tr)
  case Nil
  then show ?case by (simp add: starts_def)
next
  case (Cons s stages)
  obtain x calls where run: "run_stage_start lc s = (x, calls)" by fastforce
  note fine = run_stage_start_fine [OF run]
  show ?case
  proof (cases x)
    case (Inl e)
    then have "\<not> stage_fine lc s" using fine by auto
    moreover have "r = Inl StartupAbortedError" "tr = calls @ stops lc (rev (completed_stages lc))"
      "lc' = lc\<lparr>completed_stages := [], lc_stopped := True\<rparr>"
      using Cons.prems run Inl by (auto simp: rollback_from_failure_def stop_stages_stops)
    ultimately show ?thesis
      using fine by (intro disjI2 exI [of _ "[]"] exI [of _ s] exI [of _ stages]) (simp add: starts_def)
  next
    case (Inr u)
    let ?lc = "lc\<lparr>completed_stages := completed_stages lc @ [s]\<rparr>"
    from Inr fine have s: "stage_fine lc s" by simp
    obtain tr1 where nxt: "start_stages stages ?lc = (r, lc', tr1)" "tr = calls @ tr1"
      using Cons.prems run Inr by (auto split: prod.splits)
    from Cons.IH [OF nxt(1)] show ?thesis
    proof (elim disjE exE conjE)
      assume "\<forall>s \<in> set stages. stage_fine ?lc s" "r = Inr ()" "tr1 = starts ?lc stages"
        "lc' = ?lc\<lparr>completed_stages := completed_stages ?lc @ stages\<rparr>"
      with s fine nxt(2) show ?thesis by (intro disjI1) (simp add: starts_def)
    next
      fix pre k post
      assume "stages = pre @ k # post" "\<forall>s \<in> set pre. stage_fine ?lc s" "\<not> stage_fine ?lc k"
        "r = Inl StartupAbortedError" "tr1 = starts ?lc (pre @ [k]) @ stops ?lc (rev (completed_stages ?lc @ pre))"
        "lc' = ?lc\<lparr>completed_stages := [], lc_stopped := True\<rparr>"
      with s fine nxt(2) show ?thesis
        by (intro disjI2 exI [of _ "s # pre"] exI [of _ k] exI [of _ post]) (simp add: starts_def)
    qed
  qed
qed

subsection \<open>Properties\<close>

text \<open>
  C10. Startup and shutdown of a silo, on every branch. A start calls the hooks of all stages in strictly
  ascending order, a stage only after all before it have finished. If a stage raises or times out,
  \<^verbatim>\<open>StartupAbortedError\<close> is raised after the stages that had finished are stopped in
  descending order; no later stage is started, the failed stage itself is not stopped although its
  hooks were called, and a later stop does nothing. After a complete start, a stop calls
  \<^verbatim>\<open>on_stop\<close> of exactly the started stages in descending order, whatever the hooks come
  to, and never raises; a second stop does nothing. A second start and a subscription after the
  start are refused.
\<close>

theorem lifecycle_contract:
  assumes "dict_ok (participants lc)" "\<not> lc_started lc" "\<not> lc_stopped lc" "completed_stages lc = []"
    and "lifecycle_start lc = (r, lc', tr)"
  shows "\<exists>stages. sorted_wrt (<) stages \<and> set stages = set (dkeys (participants lc)) \<and>
    ((\<forall>s \<in> set stages. stage_fine lc s) \<and> r = Inr () \<and> tr = starts lc stages
       \<and> snd (lifecycle_stop lc') = stops lc (rev stages)
       \<and> lifecycle_stop (fst (lifecycle_stop lc')) = (fst (lifecycle_stop lc'), [])
     \<or> (\<exists>pre k post. stages = pre @ k # post \<and> (\<forall>s \<in> set pre. stage_fine lc s) \<and> \<not> stage_fine lc k
         \<and> r = Inl StartupAbortedError \<and> tr = starts lc (pre @ [k]) @ stops lc (rev pre)
         \<and> completed_stages lc' = [] \<and> lifecycle_stop lc' = (lc', [])))
    \<and> lifecycle_start lc' = (Inl RuntimeError, lc', []) \<and> lifecycle_subscribe stage p lc' = (Inl RuntimeError, lc')"
proof -
  let ?stages = "sort (dkeys (participants lc))" and ?lc = "lc\<lparr>lc_started := True\<rparr>"
  have run: "start_stages ?stages ?lc = (r, lc', tr)" using assms(2,5) by (simp add: lifecycle_start_def)
  have "sorted_wrt (<) ?stages" using assms(1) by (simp add: strict_sorted_iff)
  moreover have "set ?stages = set (dkeys (participants lc))" by simp
  moreover have "(\<forall>s \<in> set ?stages. stage_fine lc s) \<and> r = Inr () \<and> tr = starts lc ?stages
       \<and> snd (lifecycle_stop lc') = stops lc (rev ?stages)
       \<and> lifecycle_stop (fst (lifecycle_stop lc')) = (fst (lifecycle_stop lc'), [])
     \<or> (\<exists>pre k post. ?stages = pre @ k # post \<and> (\<forall>s \<in> set pre. stage_fine lc s) \<and> \<not> stage_fine lc k
         \<and> r = Inl StartupAbortedError \<and> tr = starts lc (pre @ [k]) @ stops lc (rev pre)
         \<and> completed_stages lc' = [] \<and> lifecycle_stop lc' = (lc', []))"
    using start_stages_spec [OF run] assms(3,4)
    by (elim disjE exE conjE) (auto simp: lifecycle_stop_def stop_stages_stops)
  moreover have "lc_started lc'"
    using start_stages_spec [OF run] by (elim disjE exE conjE) auto
  ultimately show ?thesis
    by (intro exI [of _ ?stages]) (simp add: lifecycle_start_def lifecycle_subscribe_def)
qed

definition demo_lifecycle :: SiloLifecycle where
  "demo_lifecycle =
     (let ok = \<lparr>part_start = (\<lambda>_. Finishes), part_stop = (\<lambda>_. Raises KeyError), part_label = lit ''a''\<rparr>;
          bad = \<lparr>part_start = (\<lambda>_. Raises KeyError), part_stop = (\<lambda>_. Finishes), part_label = lit ''b''\<rparr>
      in \<lparr>stage_start_timeout = 30, stage_stop_timeout = 5, participants = [(20000, [bad, ok]), (7000, [ok])],
          completed_stages = [], lc_started = False, lc_stopped = False\<rparr>)"

theorem lifecycle_contract_witness:
  "fst (lifecycle_start demo_lifecycle) = Inl StartupAbortedError
   \<and> sorted_wrt (<) [7000, 20000 :: int] \<and> \<not> stage_fine demo_lifecycle 20000"
proof -
  let ?lc = "demo_lifecycle"
  have lc: "dict_ok (participants ?lc)" "\<not> lc_started ?lc" "\<not> lc_stopped ?lc" "completed_stages ?lc = []"
    "\<not> stage_fine ?lc 20000" "20000 \<in> set (dkeys (participants ?lc))"
    by (simp_all add: demo_lifecycle_def stage_fine_def stage_participants_def dget_def Let_def)
  obtain r lc' tr where run: "lifecycle_start ?lc = (r, lc', tr)" by (metis prod_cases3)
  from lifecycle_contract [OF lc(1-4) run] lc(5,6) have "r = Inl StartupAbortedError" by blast
  with run lc(5) show ?thesis by simp
qed

end
