(* ===== verification/SiloMembership.thy ===== *)
theory SiloMembership
  imports YamlMembership
begin

text \<open>
  The membership plumbing of \<^verbatim>\<open>pyleans/server/silo.py\<close>: a silo writes, changes and removes its own
  row with the provider's compare-and-swap and tries again when it was stale. What other silos do to
  the table between the read and the write of an attempt is a list of calls, one list per attempt.
\<close>

subsection \<open>The retry loops\<close>

definition OCC_MAX_RETRIES :: nat where
  "OCC_MAX_RETRIES = 5"

fun occ_attempts ::
  "'t MembershipProvider \<Rightarrow> SiloInfo \<Rightarrow> mem_op list list \<Rightarrow> 't \<Rightarrow> unit result \<times> 't" where
  "occ_attempts p info [] t = (Inl TableStaleError, t)"
| "occ_attempts p info (meanwhile # rest) t =
     (case mp_read_silo p (silo_id (address info)) t of
        Inl e \<Rightarrow> (Inl e, t)
      | Inr existing \<Rightarrow>
          let candidate = with_replacements info (\<lambda>r. r\<lparr>etag := (case existing of None \<Rightarrow> None | Some row \<Rightarrow> etag row)\<rparr>)
          in (case mp_try_update p candidate (mp_others p meanwhile t) of
                (Inr _, t') \<Rightarrow> (Inr (), t')
              | (Inl e, t') \<Rightarrow> if e = TableStaleError then occ_attempts p info rest t' else (Inl e, t')))"

definition occ_write ::
  "'t MembershipProvider \<Rightarrow> SiloInfo \<Rightarrow> (nat \<Rightarrow> mem_op list) \<Rightarrow> 't \<Rightarrow> unit result \<times> 't" where
  "occ_write p info between t = occ_attempts p info (map between [0..<OCC_MAX_RETRIES]) t"

fun transition_attempts ::
  "'t MembershipProvider \<Rightarrow> pystr \<Rightarrow> SiloStatus \<Rightarrow> mem_op list list \<Rightarrow> 't \<Rightarrow> unit result \<times> 't" where
  "transition_attempts p sid st [] t = (Inl TableStaleError, t)"
| "transition_attempts p sid st (meanwhile # rest) t =
     (case mp_read_silo p sid t of
        Inl e \<Rightarrow> (Inl e, t)
      | Inr None \<Rightarrow> (Inl SiloNotFoundError, t)
      | Inr (Some current) \<Rightarrow>
          (case mp_try_update p (with_replacements current (\<lambda>r. r\<lparr>status := st\<rparr>)) (mp_others p meanwhile t) of
             (Inr _, t') \<Rightarrow> (Inr (), t')
           | (Inl e, t') \<Rightarrow> if e = TableStaleError then transition_attempts p sid st rest t' else (Inl e, t')))"

definition transition_status ::
  "'t MembershipProvider \<Rightarrow> pystr \<Rightarrow> SiloStatus \<Rightarrow> (nat \<Rightarrow> mem_op list) \<Rightarrow> 't \<Rightarrow> unit result \<times> 't" where
  "transition_status p sid st between t = transition_attempts p sid st (map between [0..<OCC_MAX_RETRIES]) t"

fun unregister_attempts ::
  "'t MembershipProvider \<Rightarrow> pystr \<Rightarrow> mem_op list list \<Rightarrow> 't \<Rightarrow> unit result \<times> 't" where
  "unregister_attempts p sid [] t = (Inl TableStaleError, t)"
| "unregister_attempts p sid (meanwhile # rest) t =
     (case mp_read_silo p sid t of
        Inl e \<Rightarrow> (Inl e, t)
      | Inr None \<Rightarrow> (Inr (), t)
      | Inr (Some current) \<Rightarrow>
          (case mp_try_delete p current (mp_others p meanwhile t) of
             (Inr _, t') \<Rightarrow> (Inr (), t')
           | (Inl e, t') \<Rightarrow> if e = TableStaleError then unregister_attempts p sid rest t' else (Inl e, t')))"

definition unregister_from_membership ::
  "'t MembershipProvider \<Rightarrow> pystr \<Rightarrow> (nat \<Rightarrow> mem_op list) \<Rightarrow> 't \<Rightarrow> unit result \<times> 't" where
  "unregister_from_membership p sid between t =
     unregister_attempts p sid (map between [0..<OCC_MAX_RETRIES]) t"

text \<open>The row a silo starts with.\<close>

definition own_row :: "SiloAddress \<Rightarrow> ClusterId \<Rightarrow> int \<Rightarrow> seconds \<Rightarrow> SiloInfo" where
  "own_row self cluster gateway now =
     \<lparr>address = self, status = ACTIVE, last_heartbeat = now, start_time = now,
      cluster_id = Some (cluster_value cluster), gateway_port = Some gateway, row_version = 0, i_am_alive = now,
      suspicions = [], etag = None\<rparr>"

definition register_in_membership ::
  "'t MembershipProvider \<Rightarrow> SiloAddress \<Rightarrow> ClusterId \<Rightarrow> int \<Rightarrow> seconds \<Rightarrow> (nat \<Rightarrow> mem_op list) \<Rightarrow> 't
   \<Rightarrow> unit result \<times> 't" where
  "register_in_membership p self cluster gateway now between t =
     occ_write p (own_row self cluster gateway now) between t"

text \<open>Whatever a transition or an unregistration raises during a stop is logged.\<close>

definition safe_transition_status ::
  "'t MembershipProvider \<Rightarrow> pystr \<Rightarrow> SiloStatus \<Rightarrow> (nat \<Rightarrow> mem_op list) \<Rightarrow> 't \<Rightarrow> 't" where
  "safe_transition_status p sid st between t = snd (transition_status p sid st between t)"

definition safe_unregister_from_membership ::
  "'t MembershipProvider \<Rightarrow> pystr \<Rightarrow> (nat \<Rightarrow> mem_op list) \<Rightarrow> 't \<Rightarrow> 't" where
  "safe_unregister_from_membership p sid between t = snd (unregister_from_membership p sid between t)"

text \<open>The addresses of the rows that count as active, and the silo itself.\<close>

definition membership_active_silos :: "SiloAddress \<Rightarrow> MembershipSnapshot \<Rightarrow> SiloAddress list" where
  "membership_active_silos self snap =
     (let active = map address (filter (\<lambda>s. status s = JOINING \<or> status s = ACTIVE) (silos snap))
      in if self \<notin> set active then active @ [self] else active)"

subsection \<open>Over a provider that honours the contract\<close>

text \<open>
  No etag comes back: the row that an attempt reads has an etag that the calls before its write do
  not give to another row.
\<close>

fun etags_fresh :: "'t MembershipProvider \<Rightarrow> pystr \<Rightarrow> mem_op list list \<Rightarrow> 't \<Rightarrow> bool" where
  "etags_fresh p sid [] t = True"
| "etags_fresh p sid (meanwhile # rest) t =
     ((case mp_read_silo p sid t of
         Inr (Some row) \<Rightarrow> etag row \<noteq> None \<and> etag row \<notin> etag ` set (mp_written p meanwhile t)
       | _ \<Rightarrow> True)
      \<and> etags_fresh p sid rest (mp_others p meanwhile t))"

context membership_provider
begin

text \<open>One write of an attempt, against the row it has read.\<close>

lemma attempt_cases:
  assumes "invar t" "rd t sid = existing" "silo_id (address s) = sid" "row_version s = 0"
    "etag s = (case existing of None \<Rightarrow> None | Some row \<Rightarrow> etag row)"
    "\<And>row. existing = Some row \<Longrightarrow> etag row \<noteq> None \<and> etag row \<notin> etag ` set (mp_written p ops t)"
    "mp_try_update p s (mp_others p ops t) = (r, t')"
  shows "(\<exists>x e. r = Inr x \<and> rd (mp_others p ops t) sid = existing \<and> invar t'
            \<and> rd t' = (rd (mp_others p ops t))(sid \<mapsto> s\<lparr>etag := Some e\<rparr>))
       \<or> r = Inl TableStaleError \<and> t' = mp_others p ops t \<and> ops \<noteq> []
       \<or> r = Inl SiloNotFoundError \<and> t' = mp_others p ops t \<and> existing \<noteq> None \<and> rd t' sid = None"
proof -
  let ?t = "mp_others p ops t"
  have inv: "invar ?t" using others_invar [OF assms(1)] by blast
  have run: "run ops t = (?t, mp_written p ops t)" by (simp add: mp_others_def mp_written_def)
  have ran: "rd ?t sid = existing \<or> rd ?t sid = None \<or> (\<exists>x \<in> set (mp_written p ops t). rd ?t sid = Some x \<and> etag x \<noteq> None)"
    using run_rows [OF assms(1) run, of sid] assms(2) by simp
  have ok: "\<exists>x e. r = Inr x \<and> invar t' \<and> rd t' = (rd ?t)(sid \<mapsto> s\<lparr>etag := Some e\<rparr>)"
    if "rd ?t sid = None \<and> etag s = None \<or> (\<exists>c. rd ?t sid = Some c \<and> etag c = etag s)"
    using upd_ok [OF inv refl, of s] that assms(3,4,7) by (auto simp: stored_id)
  show ?thesis
  proof (cases "rd ?t sid")
    case None
    then show ?thesis
    proof (cases existing)
      case None
      then show ?thesis using ok assms(5) \<open>rd ?t sid = None\<close> by auto
    next
      case (Some row)
      then show ?thesis using upd_missing [OF inv, of s] assms(3,5,7) assms(6) [OF Some] \<open>rd ?t sid = None\<close> by simp
    qed
  next
    case (Some c)
    show ?thesis
    proof (cases "etag c = etag s")
      case True
      have "Some c = existing"
      proof (cases existing)
        case None
        then show ?thesis using True assms(5) ran Some by auto
      next
        case (Some row)
        then show ?thesis
          using same_etag_same_row [OF assms(1) _ _ \<open>rd ?t sid = Some c\<close>, of row] True assms(2,5) assms(6) [OF Some] by simp
      qed
      then show ?thesis using ok True Some by auto
    next
      case False
      then have "r = Inl TableStaleError \<and> t' = ?t" using upd_stale [OF inv, of s c] Some assms(3,7) by simp
      moreover have "ops \<noteq> []"
      proof
        assume "ops = []"
        then have "existing = Some c" using Some assms(2) by simp
        with False assms(5) show False by simp
      qed
      ultimately show ?thesis by simp
    qed
  qed
qed

text \<open>What a whole loop comes to: the table as the others left it, with one write or none.\<close>

lemma occ_attempts_cases:
  assumes "invar t" "etags_fresh p (silo_id (address info)) opss t" "row_version info = 0"
    "occ_attempts p info opss t = (r, t')"
  shows "\<exists>k \<le> length opss. (r = Inr () \<and> invar t' \<and> (\<exists>e. rd t' =
            (rd (mp_others p (concat (take k opss)) t))(silo_id (address info) \<mapsto> info\<lparr>etag := Some e\<rparr>)))
     \<or> r = Inl SiloNotFoundError \<and> t' = mp_others p (concat (take k opss)) t \<and> rd t' (silo_id (address info)) = None
     \<or> r = Inl TableStaleError \<and> t' = mp_others p (concat (take k opss)) t \<and> [] \<notin> set opss"
  using assms
proof (induction opss arbitrary: t)
  case Nil
  then show ?case by simp
next
  case (Cons ops opss)
  let ?sid = "silo_id (address info)" and ?t = "mp_others p ops t"
  let ?s = "info\<lparr>etag := (case rd t ?sid of None \<Rightarrow> None | Some row \<Rightarrow> etag row)\<rparr>"
  obtain x u where w: "mp_try_update p ?s ?t = (x, u)" by fastforce
  have fresh: "etag row \<noteq> None \<and> etag row \<notin> etag ` set (mp_written p ops t)" if "rd t ?sid = Some row" for row
    using Cons.prems(1,2) that by (simp add: read_silo_rd)
  have inv: "invar ?t" using others_invar [OF Cons.prems(1)] by blast
  note c = attempt_cases [OF Cons.prems(1) refl _ _ _ fresh w]
  have step: "occ_attempts p info (ops # opss) t = (case (x, u) of (Inr _, t') \<Rightarrow> (Inr (), t')
      | (Inl e, t') \<Rightarrow> if e = TableStaleError then occ_attempts p info opss t' else (Inl e, t'))"
    using w Cons.prems(1) by (simp add: read_silo_rd with_replacements_def)
  consider (written) y e where "x = Inr y" "invar u" "rd u = (rd ?t)(?sid \<mapsto> ?s\<lparr>etag := Some e\<rparr>)"
    | (stale) "x = Inl TableStaleError" "u = ?t" "ops \<noteq> []"
    | (gone) "x = Inl SiloNotFoundError" "u = ?t" "rd u ?sid = None"
    using c Cons.prems(3) by auto
  then show ?case
  proof cases
    case written
    then show ?thesis using step Cons.prems(4) by (intro exI [of _ 1]) auto
  next
    case stale
    then have "occ_attempts p info opss ?t = (r, t')" using step Cons.prems(4) by simp
    moreover have "etags_fresh p (silo_id (address info)) opss ?t" using Cons.prems(2) by simp
    ultimately obtain k where "k \<le> length opss" and
      "(r = Inr () \<and> invar t' \<and> (\<exists>e. rd t' = (rd (mp_others p (concat (take k opss)) ?t))(?sid \<mapsto> info\<lparr>etag := Some e\<rparr>)))
     \<or> r = Inl SiloNotFoundError \<and> t' = mp_others p (concat (take k opss)) ?t \<and> rd t' ?sid = None
     \<or> r = Inl TableStaleError \<and> t' = mp_others p (concat (take k opss)) ?t \<and> [] \<notin> set opss"
      using Cons.IH [OF inv _ Cons.prems(3)] by blast
    then show ?thesis using stale(3) by (intro exI [of _ "Suc k"]) (simp add: mp_others_append del: fun_upd_apply)
  next
    case gone
    then show ?thesis using step Cons.prems(4) by (intro exI [of _ 1]) auto
  qed
qed

lemma transition_attempts_cases:
  assumes "invar t" "etags_fresh p sid opss t" "transition_attempts p sid st opss t = (r, t')"
  shows "\<exists>k \<le> length opss. (r = Inr () \<and> invar t' \<and> (\<exists>row e. rd (mp_others p (concat (take k opss)) t) sid = Some row
          \<and> rd t' = (rd (mp_others p (concat (take k opss)) t))(sid \<mapsto> row\<lparr>status := st, etag := Some e\<rparr>)))
     \<or> r = Inl SiloNotFoundError \<and> t' = mp_others p (concat (take k opss)) t \<and> rd t' sid = None
     \<or> r = Inl TableStaleError \<and> t' = mp_others p (concat (take k opss)) t \<and> [] \<notin> set opss"
  using assms
proof (induction opss arbitrary: t)
  case Nil
  then show ?case by simp
next
  case (Cons ops opss)
  let ?t = "mp_others p ops t"
  have inv: "invar ?t" using others_invar [OF Cons.prems(1)] by blast
  show ?case
  proof (cases "rd t sid")
    case None
    then show ?thesis using Cons.prems(1,3) by (intro exI [of _ 0]) (auto simp: read_silo_rd)
  next
    case (Some row)
    let ?s = "row\<lparr>status := st\<rparr>"
    obtain x u where w: "mp_try_update p ?s ?t = (x, u)" by fastforce
    have fresh: "etag row' \<noteq> None \<and> etag row' \<notin> etag ` set (mp_written p ops t)" if "rd t sid = Some row'" for row'
      using Cons.prems(1,2) that by (simp add: read_silo_rd)
    have s: "silo_id (address ?s) = sid" "row_version ?s = 0" "etag ?s = (case rd t sid of None \<Rightarrow> None | Some row \<Rightarrow> etag row)"
      using Some rd_address [OF Cons.prems(1) Some] rows_stored [OF Cons.prems(1) Some] by simp_all
    note c = attempt_cases [OF Cons.prems(1) refl s fresh w]
    have step: "transition_attempts p sid st (ops # opss) t = (case (x, u) of (Inr _, t') \<Rightarrow> (Inr (), t')
        | (Inl e, t') \<Rightarrow> if e = TableStaleError then transition_attempts p sid st opss t' else (Inl e, t'))"
      using w Some Cons.prems(1) by (simp add: read_silo_rd with_replacements_def)
    consider (written) y e where "x = Inr y" "invar u" "rd ?t sid = Some row" "rd u = (rd ?t)(sid \<mapsto> ?s\<lparr>etag := Some e\<rparr>)"
      | (stale) "x = Inl TableStaleError" "u = ?t" "ops \<noteq> []"
      | (gone) "x = Inl SiloNotFoundError" "u = ?t" "rd u sid = None"
      using c Some by auto
    then show ?thesis
    proof cases
      case written
      then show ?thesis using step Cons.prems(3) by (intro exI [of _ 1]) auto
    next
      case stale
      then have "transition_attempts p sid st opss ?t = (r, t')" using step Cons.prems(3) by simp
      moreover have "etags_fresh p sid opss ?t" using Cons.prems(2) by simp
      ultimately obtain k where "k \<le> length opss" and
        "(r = Inr () \<and> invar t' \<and> (\<exists>row e. rd (mp_others p (concat (take k opss)) ?t) sid = Some row
            \<and> rd t' = (rd (mp_others p (concat (take k opss)) ?t))(sid \<mapsto> row\<lparr>status := st, etag := Some e\<rparr>)))
       \<or> r = Inl SiloNotFoundError \<and> t' = mp_others p (concat (take k opss)) ?t \<and> rd t' sid = None
       \<or> r = Inl TableStaleError \<and> t' = mp_others p (concat (take k opss)) ?t \<and> [] \<notin> set opss"
        using Cons.IH [OF inv] by blast
      then show ?thesis using stale(3) by (intro exI [of _ "Suc k"]) (simp add: mp_others_append del: fun_upd_apply)
    next
      case gone
      then show ?thesis using step Cons.prems(3) by (intro exI [of _ 1]) auto
    qed
  qed
qed

lemma unregister_attempts_cases:
  assumes "invar t" "etags_fresh p sid opss t" "unregister_attempts p sid opss t = (r, t')"
  shows "\<exists>k \<le> length opss.
     (r = Inr () \<and> invar t' \<and> rd t' = (rd (mp_others p (concat (take k opss)) t))(sid := None))
     \<or> r = Inl TableStaleError \<and> t' = mp_others p (concat (take k opss)) t \<and> [] \<notin> set opss"
  using assms
proof (induction opss arbitrary: t)
  case Nil
  then show ?case by simp
next
  case (Cons ops opss)
  let ?t = "mp_others p ops t"
  have inv: "invar ?t" using others_invar [OF Cons.prems(1)] by blast
  show ?case
  proof (cases "rd t sid")
    case None
    then show ?thesis using Cons.prems(1,3) by (intro exI [of _ 0]) (auto simp: read_silo_rd fun_upd_idem)
  next
    case (Some row)
    have sid: "silo_id (address row) = sid" by (rule rd_address [OF Cons.prems(1) Some])
    obtain x u where w: "mp_try_delete p row ?t = (x, u)" by fastforce
    have step: "unregister_attempts p sid (ops # opss) t = (case (x, u) of (Inr _, t') \<Rightarrow> (Inr (), t')
        | (Inl e, t') \<Rightarrow> if e = TableStaleError then unregister_attempts p sid opss t' else (Inl e, t'))"
      using w Some Cons.prems(1) by (simp add: read_silo_rd)
    consider (gone) "rd ?t sid = None" | (same) c where "rd ?t sid = Some c" "etag c = etag row"
      | (stale) c where "rd ?t sid = Some c" "etag c \<noteq> etag row" by (cases "rd ?t sid") auto
    then show ?thesis
    proof cases
      case gone
      then have "x = Inr ()" "u = ?t" using del_missing [OF inv, of row] w sid by simp_all
      then show ?thesis using step Cons.prems(3) gone inv by (intro exI [of _ 1]) (auto simp: fun_upd_idem)
    next
      case same
      then have "x = Inr () \<and> rd u = (rd ?t)(sid := None) \<and> invar u" using del_ok [OF inv, of row c] w sid by auto
      then show ?thesis using step Cons.prems(3) by (intro exI [of _ 1]) auto
    next
      case stale
      then have "x = Inl TableStaleError" "u = ?t" using del_stale [OF inv, of row c] w sid by simp_all
      then have "unregister_attempts p sid opss ?t = (r, t')" using step Cons.prems(3) by simp
      moreover have "etags_fresh p sid opss ?t" using Cons.prems(2) by simp
      ultimately obtain k where "k \<le> length opss" and
        "(r = Inr () \<and> invar t' \<and> rd t' = (rd (mp_others p (concat (take k opss)) ?t))(sid := None))
         \<or> r = Inl TableStaleError \<and> t' = mp_others p (concat (take k opss)) ?t \<and> [] \<notin> set opss"
        using Cons.IH [OF inv] by blast
      moreover have "ops \<noteq> []" using stale Some by auto
      ultimately show ?thesis by (intro exI [of _ "Suc k"]) (simp add: mp_others_append del: fun_upd_apply)
    qed
  qed
qed

end

subsection \<open>Properties\<close>

lemma etags_fresh_quiet:
  assumes "\<And>row. mp_read_silo p sid t = Inr (Some row) \<Longrightarrow> etag row \<noteq> None"
  shows "etags_fresh p sid (map (\<lambda>_. []) xs) t"
  using assms by (induction xs) (simp_all split: sum.split option.split)

text \<open>
  A silo registers with one row, its own and as active, on top of whatever row was there when it
  read; everything else in the table is as the other silos left it. It fails without a trace: when its
  row was deleted under its hands, or when all five attempts were disturbed.
\<close>

theorem register_spec:
  fixes sha :: "bytes \<Rightarrow> bytes" and yaml_dump :: "json \<Rightarrow> pystr" and between :: "nat \<Rightarrow> mem_op list"
  assumes "yaml_ok t" "etags_fresh (yaml_provider sha yaml_dump) (silo_id self) (map between [0..<OCC_MAX_RETRIES]) t"
    "register_in_membership (yaml_provider sha yaml_dump) self cluster gateway now between t = (r, t')"
  shows "\<exists>k \<le> OCC_MAX_RETRIES. \<exists>u. u = mp_others (yaml_provider sha yaml_dump) (concat (map between [0..<k])) t
    \<and> ((r = Inr () \<and> yaml_ok t' \<and> (\<exists>e. yaml_row t' =
            (yaml_row u)(silo_id self \<mapsto> (own_row self cluster gateway now)\<lparr>etag := Some e\<rparr>)))
       \<or> r = Inl SiloNotFoundError \<and> t' = u \<and> yaml_row t' (silo_id self) = None
       \<or> r = Inl TableStaleError \<and> t' = u \<and> (\<forall>i < OCC_MAX_RETRIES. between i \<noteq> []))"
proof -
  let ?opss = "map between [0..<OCC_MAX_RETRIES]"
  have run: "occ_attempts (yaml_provider sha yaml_dump) (own_row self cluster gateway now) ?opss t = (r, t')"
    using assms(3) by (simp add: register_in_membership_def occ_write_def)
  have quiet: "\<forall>i < OCC_MAX_RETRIES. between i \<noteq> []" if "[] \<notin> set ?opss" using that by force
  have tk: "take k ?opss = map between [0..<k]" if "k \<le> OCC_MAX_RETRIES" for k
    using that by (simp add: take_map)
  from yaml_port.occ_attempts_cases [OF assms(1) _ _ run] assms(2)
  obtain k where k: "k \<le> length ?opss" and
    "(r = Inr () \<and> yaml_ok t' \<and> (\<exists>e. yaml_row t' = (yaml_row (mp_others (yaml_provider sha yaml_dump) (concat (take k ?opss)) t))
        (silo_id self \<mapsto> (own_row self cluster gateway now)\<lparr>etag := Some e\<rparr>)))
     \<or> r = Inl SiloNotFoundError \<and> t' = mp_others (yaml_provider sha yaml_dump) (concat (take k ?opss)) t
        \<and> yaml_row t' (silo_id self) = None
     \<or> r = Inl TableStaleError \<and> t' = mp_others (yaml_provider sha yaml_dump) (concat (take k ?opss)) t \<and> [] \<notin> set ?opss"
    by (auto simp: own_row_def simp del: fun_upd_apply)
  then show ?thesis using quiet tk [of k] by (intro exI [of _ k]) (auto simp del: fun_upd_apply)
qed

theorem register_spec_witness:
  "fst (register_in_membership (yaml_provider (take 1) (\<lambda>_. [])) silo_addr (ClusterId (lit ''c'')) 3 1 (\<lambda>_. []) Absent) = Inr ()"
proof -
  let ?p = "yaml_provider (take 1) (\<lambda>_. [])"
  obtain r t' where r: "register_in_membership ?p silo_addr (ClusterId (lit ''c'')) 3 1 (\<lambda>_. []) Absent = (r, t')" by fastforce
  have none: "mp_read_silo ?p (silo_id silo_addr) Absent = Inr None"
    using yaml_port.read_silo_rd [OF absent_ok(1)] absent_ok(2) by simp
  then have "etags_fresh ?p (silo_id silo_addr) (map (\<lambda>_. []) [0..<OCC_MAX_RETRIES]) Absent"
    by (intro etags_fresh_quiet) simp
  from register_spec [OF absent_ok(1) this r] have "r = Inr () \<or> r = Inl SiloNotFoundError"
    by (auto simp: OCC_MAX_RETRIES_def dest: spec [of _ "0 :: nat"])
  moreover have "r \<noteq> Inl SiloNotFoundError"
  proof
    assume e: "r = Inl SiloNotFoundError"
    obtain x u where w: "yaml_try_update (take 1) (\<lambda>_. []) True (own_row silo_addr (ClusterId (lit ''c'')) 3 1) Absent = (Inr x, u)"
      using yaml_table.upd_ok [OF absent_ok(1) refl, of "own_row silo_addr (ClusterId (lit ''c'')) 3 1" "take 1" "\<lambda>_. []"]
        absent_ok(2) by (fastforce simp: own_row_def)
    have same: "with_replacements (own_row silo_addr (ClusterId (lit ''c'')) 3 1) (\<lambda>r. r\<lparr>etag := None\<rparr>) = own_row silo_addr (ClusterId (lit ''c'')) 3 1"
      by (simp add: with_replacements_def own_row_def)
    have "silo_id (address (own_row silo_addr (ClusterId (lit ''c'')) 3 1)) = silo_id silo_addr" by (simp add: own_row_def)
    then show False using r e none w same
      by (simp add: register_in_membership_def occ_write_def OCC_MAX_RETRIES_def upt_rec Let_def)
  qed
  ultimately show ?thesis using r by simp
qed

text \<open>
  Leaving: a change of status goes through onto exactly the row on record, status and etag only, and
  an unregistration leaves no row of the silo; other rows are as the others left them, and an attempt
  that nobody disturbs is enough.
\<close>

theorem leave_spec:
  fixes sha :: "bytes \<Rightarrow> bytes" and yaml_dump :: "json \<Rightarrow> pystr" and between :: "nat \<Rightarrow> mem_op list"
  assumes "yaml_ok t" "etags_fresh (yaml_provider sha yaml_dump) sid (map between [0..<OCC_MAX_RETRIES]) t"
  shows "(\<forall>r t'. transition_status (yaml_provider sha yaml_dump) sid st between t = (r, t') \<longrightarrow>
      (\<exists>k \<le> OCC_MAX_RETRIES. \<exists>u. u = mp_others (yaml_provider sha yaml_dump) (concat (map between [0..<k])) t
        \<and> ((r = Inr () \<and> (\<exists>row e. yaml_row u sid = Some row
              \<and> yaml_row t' = (yaml_row u)(sid \<mapsto> row\<lparr>status := st, etag := Some e\<rparr>)))
           \<or> r = Inl SiloNotFoundError \<and> t' = u \<and> yaml_row t' sid = None
           \<or> r = Inl TableStaleError \<and> t' = u \<and> (\<forall>i < OCC_MAX_RETRIES. between i \<noteq> []))))
    \<and> (\<forall>r t'. unregister_from_membership (yaml_provider sha yaml_dump) sid between t = (r, t') \<longrightarrow>
      (\<exists>k \<le> OCC_MAX_RETRIES. \<exists>u. u = mp_others (yaml_provider sha yaml_dump) (concat (map between [0..<k])) t
        \<and> ((r = Inr () \<and> yaml_row t' = (yaml_row u)(sid := None))
           \<or> r = Inl TableStaleError \<and> t' = u \<and> (\<forall>i < OCC_MAX_RETRIES. between i \<noteq> []))))"
proof -
  let ?opss = "map between [0..<OCC_MAX_RETRIES]" and ?p = "yaml_provider sha yaml_dump"
  have quiet: "\<forall>i < OCC_MAX_RETRIES. between i \<noteq> []" if "[] \<notin> set ?opss" using that by force
  have tk: "take k ?opss = map between [0..<k]" if "k \<le> OCC_MAX_RETRIES" for k
    using that by (simp add: take_map)
  have trans: "\<exists>k \<le> OCC_MAX_RETRIES. \<exists>u. u = mp_others ?p (concat (map between [0..<k])) t
        \<and> ((r = Inr () \<and> (\<exists>row e. yaml_row u sid = Some row
              \<and> yaml_row t' = (yaml_row u)(sid \<mapsto> row\<lparr>status := st, etag := Some e\<rparr>)))
           \<or> r = Inl SiloNotFoundError \<and> t' = u \<and> yaml_row t' sid = None
           \<or> r = Inl TableStaleError \<and> t' = u \<and> (\<forall>i < OCC_MAX_RETRIES. between i \<noteq> []))"
    if "transition_status ?p sid st between t = (r, t')" for r t'
  proof -
    have "transition_attempts ?p sid st ?opss t = (r, t')" using that by (simp add: transition_status_def)
    from yaml_port.transition_attempts_cases [OF assms this] obtain k where "k \<le> length ?opss" and
      "(r = Inr () \<and> yaml_ok t' \<and> (\<exists>row e. yaml_row (mp_others ?p (concat (take k ?opss)) t) sid = Some row
          \<and> yaml_row t' = (yaml_row (mp_others ?p (concat (take k ?opss)) t))(sid \<mapsto> row\<lparr>status := st, etag := Some e\<rparr>)))
       \<or> r = Inl SiloNotFoundError \<and> t' = mp_others ?p (concat (take k ?opss)) t \<and> yaml_row t' sid = None
       \<or> r = Inl TableStaleError \<and> t' = mp_others ?p (concat (take k ?opss)) t \<and> [] \<notin> set ?opss" by blast
    then show ?thesis using quiet tk [of k] by (intro exI [of _ k]) (auto simp del: fun_upd_apply)
  qed
  have unreg: "\<exists>k \<le> OCC_MAX_RETRIES. \<exists>u. u = mp_others ?p (concat (map between [0..<k])) t
        \<and> ((r = Inr () \<and> yaml_row t' = (yaml_row u)(sid := None))
           \<or> r = Inl TableStaleError \<and> t' = u \<and> (\<forall>i < OCC_MAX_RETRIES. between i \<noteq> []))"
    if "unregister_from_membership ?p sid between t = (r, t')" for r t'
  proof -
    have "unregister_attempts ?p sid ?opss t = (r, t')" using that by (simp add: unregister_from_membership_def)
    from yaml_port.unregister_attempts_cases [OF assms this] obtain k where "k \<le> length ?opss" and
      "(r = Inr () \<and> yaml_ok t' \<and> yaml_row t' = (yaml_row (mp_others ?p (concat (take k ?opss)) t))(sid := None))
       \<or> r = Inl TableStaleError \<and> t' = mp_others ?p (concat (take k ?opss)) t \<and> [] \<notin> set ?opss" by blast
    then show ?thesis using quiet tk [of k] by (intro exI [of _ k]) (auto simp del: fun_upd_apply)
  qed
  show ?thesis using trans unreg by blast
qed

theorem leave_spec_witness:
  "\<exists>t. yaml_row t (silo_id silo_addr) \<noteq> None
     \<and> yaml_row (safe_unregister_from_membership (yaml_provider (take 1) (\<lambda>_. [])) (silo_id silo_addr) (\<lambda>_. []) t) (silo_id silo_addr) = None"
proof -
  let ?p = "yaml_provider (take 1) (\<lambda>_. [])"
  obtain e t where t: "yaml_ok t" "yaml_row t = [silo_id silo_addr \<mapsto> demo_row\<lparr>etag := Some e\<rparr>]"
    using demo_table by blast
  have "etags_fresh ?p (silo_id silo_addr) (map (\<lambda>_. []) [0..<OCC_MAX_RETRIES]) t"
    by (rule etags_fresh_quiet) (use t in \<open>auto simp: yaml_port.read_silo_rd\<close>)
  from conjunct2 [OF leave_spec [OF t(1) this]]
  have "yaml_row (snd (unregister_from_membership ?p (silo_id silo_addr) (\<lambda>_. []) t)) (silo_id silo_addr) = None"
    by (cases "unregister_from_membership ?p (silo_id silo_addr) (\<lambda>_. []) t") (fastforce simp: OCC_MAX_RETRIES_def)
  then show ?thesis using t(2) by (intro exI [of _ t]) (simp add: safe_unregister_from_membership_def)
qed

text \<open>The first step of a stop revives a row that the others have declared dead.\<close>

lemma stop_overwrites_dead:
  fixes sha :: "bytes \<Rightarrow> bytes" and yaml_dump :: "json \<Rightarrow> pystr"
  assumes "yaml_ok t" "yaml_row t sid = Some row" "status row = DEAD" "etag row \<noteq> None"
  shows "\<exists>row'. yaml_row (safe_transition_status (yaml_provider sha yaml_dump) sid SHUTTING_DOWN (\<lambda>_. []) t) sid = Some row'
    \<and> status row' = SHUTTING_DOWN"
proof -
  let ?p = "yaml_provider sha yaml_dump"
  have f: "etags_fresh ?p sid (map (\<lambda>_. []) [0..<OCC_MAX_RETRIES]) t"
    by (rule etags_fresh_quiet) (use assms in \<open>auto simp: yaml_port.read_silo_rd\<close>)
  obtain r t' where r: "transition_status ?p sid SHUTTING_DOWN (\<lambda>_. []) t = (r, t')" by fastforce
  then have run: "transition_attempts ?p sid SHUTTING_DOWN (map (\<lambda>_. []) [0..<OCC_MAX_RETRIES]) t = (r, t')"
    by (simp add: transition_status_def)
  have none: "mp_others ?p (concat (take k (map (\<lambda>_. []) [0..<OCC_MAX_RETRIES]))) t = t" for k
  proof -
    have "concat (take k (map (\<lambda>_. []) [0..<OCC_MAX_RETRIES])) = ([] :: mem_op list)" by (auto dest: in_set_takeD)
    then show ?thesis by (simp only: mp_others_Nil)
  qed
  have quiet: "([] :: mem_op list) \<in> set (map (\<lambda>_. []) [0..<OCC_MAX_RETRIES])"
    by (simp add: OCC_MAX_RETRIES_def image_constant_conv)
  from yaml_port.transition_attempts_cases [OF assms(1) f run, unfolded none] quiet assms(2)
  obtain row' e where "yaml_row t' = (yaml_row t)(sid \<mapsto> row'\<lparr>status := SHUTTING_DOWN, etag := Some e\<rparr>)" by auto
  then have "yaml_row t' sid = Some (row'\<lparr>status := SHUTTING_DOWN, etag := Some e\<rparr>)" by simp
  then show ?thesis using r by (simp add: safe_transition_status_def)
qed

end
