(* ===== verification/Silo.thy ===== *)
theory Silo
  imports RuntimeCalls DirectoryCluster MembershipAgent ClusterTransport Lifecycle
    SiloMembership
begin

text \<open>
  \<^verbatim>\<open>pyleans/server/silo.py\<close>: a silo wires the runtime, the directory behind its cache, the
  membership agent, the transport and the gateway together. Inbound messages go to one of the
  components, membership snapshots move the ring and clear the cache, and the lifecycle starts and
  stops the components stage by stage. The components are the models of their own theories; what the
  outside world does during an operation comes with it.
\<close>

subsection \<open>State\<close>

record ('i, 'st) Silo =
  silo_self :: SiloAddress
  silo_cluster :: ClusterId
  silo_gateway_port :: int
  silo_transport :: TcpClusterTransport
  silo_cache :: "DistributedGrainDirectory DirectoryCache"
  silo_runtime :: "('i, 'st) GrainRuntime"
  silo_agent :: MembershipAgent
  silo_gateway :: bool
  silo_started :: bool
  silo_stopping :: bool
  silo_shutdown_tasks :: nat

text \<open>
  What the components take from outside: random draws, SHA-256, the grain classes, renderings of
  exceptions, answers to remote calls and pings, the clock, and whether a worker drains in time.
\<close>

record ('i, 'st) silo_env =
  se_rand :: rand
  se_sha :: "bytes \<Rightarrow> bytes"
  se_cfg :: "('i, 'st) RuntimeConfig"
  se_traceback :: "exn \<Rightarrow> pystr"
  se_decode_text :: "bytes \<Rightarrow> pystr"
  se_placement :: PlacementStrategy
  se_send :: rpc
  se_ping :: ping
  se_now :: seconds
  se_in_time :: bool

text \<open>The directory the runtime works with: the cache in front of the distributed directory.\<close>

definition directory_ops :: "('i, 'st) silo_env \<Rightarrow> DistributedGrainDirectory IGrainDirectory" where
  "directory_ops env =
     \<lparr>in_register = dd_register (se_sha env) (se_send env),
      in_lookup = (\<lambda>g d. (dd_lookup (se_sha env) (se_send env) g d, d)),
      in_unregister = dd_unregister (se_sha env) (se_send env),
      in_resolve = (\<lambda>_ g caller d.
        dd_resolve_or_activate (se_rand env) (se_sha env) (se_send env) g (se_placement env) caller d)\<rparr>"

definition cached_ops :: "('i, 'st) silo_env \<Rightarrow> DistributedGrainDirectory DirectoryCache IGrainDirectory" where
  "cached_ops env =
     \<lparr>in_register = (\<lambda>g s c. cache_register (directory_ops env) g s (se_now env) c),
      in_lookup = (\<lambda>g c. cache_lookup (directory_ops env) g (se_now env) (se_now env) c),
      in_unregister = cache_unregister (directory_ops env),
      in_resolve = (\<lambda>pick g caller c.
        cache_resolve (directory_ops env) pick g caller (se_now env) (se_now env) c)\<rparr>"

subsection \<open>Callbacks of the components\<close>

definition local_activations :: "('i, 'st) Silo \<Rightarrow> DirectoryEntry list" where
  "local_activations s = map (\<lambda>g. DirectoryEntry g (silo_self s) 0) (dkeys (activations (silo_runtime s)))"

text \<open>The directory's notifier; it logs what the deactivation raises.\<close>

definition on_directory_deactivate ::
  "('i, 'st) silo_env \<Rightarrow> GrainId \<times> int \<Rightarrow> ('i, 'st) Silo \<Rightarrow> ('i, 'st) Silo" where
  "on_directory_deactivate env note s =
     (case note of (g, _) \<Rightarrow>
        if dget (activations (silo_runtime s)) g = None then s
        else (case deactivate_grain (se_cfg env) (cached_ops env) (se_now env) (se_in_time env) g
                     (silo_runtime s) (silo_cache s) of
                (_, rt, c) \<Rightarrow> s\<lparr>silo_runtime := rt, silo_cache := c\<rparr>))"

text \<open>The hook for accepted snapshots; the agent logs what it raises.\<close>

definition silo_snapshot_received ::
  "('i, 'st) silo_env \<Rightarrow> MembershipSnapshot \<Rightarrow> ('i, 'st) Silo \<Rightarrow> ('i, 'st) Silo \<times> one_way list" where
  "silo_snapshot_received env snap s =
     (let active = membership_active_silos (silo_self s) snap;
          c = invalidate_all (silo_cache s)
      in (case on_membership_changed (se_sha env) active (dc_inner c) of
            (_, d, out) \<Rightarrow> (s\<lparr>silo_cache := c\<lparr>dc_inner := d\<rparr>\<rparr>, out)))"

definition silo_self_terminate :: "('i, 'st) Silo \<Rightarrow> ('i, 'st) Silo" where
  "silo_self_terminate s = s\<lparr>silo_shutdown_tasks := silo_shutdown_tasks s + 1\<rparr>"

fun silo_agent_event ::
  "('i, 'st) silo_env \<Rightarrow> agent_event \<Rightarrow> ('i, 'st) Silo \<times> one_way list \<Rightarrow> ('i, 'st) Silo \<times> one_way list" where
  "silo_agent_event env SelfTerminateHook (s, out) = (silo_self_terminate s, out)"
| "silo_agent_event env (SnapshotHook snap) (s, out) =
     (case silo_snapshot_received env snap s of (s', sent) \<Rightarrow> (s', out @ sent))"
| "silo_agent_event env (SnapshotSent peer header body) (s, out) = (s, out @ [(peer, header, body)])"

definition silo_agent_events ::
  "('i, 'st) silo_env \<Rightarrow> agent_event list \<Rightarrow> ('i, 'st) Silo \<Rightarrow> ('i, 'st) Silo \<times> one_way list" where
  "silo_agent_events env evs s = fold (silo_agent_event env) evs (s, [])"

subsection \<open>Inbound messages\<close>

definition dispatch_transport_message ::
  "('i, 'st) silo_env \<Rightarrow> TransportMessage \<Rightarrow> ('i, 'st) Silo
   \<Rightarrow> TransportMessage option result \<times> ('i, 'st) Silo \<times> one_way list" where
  "dispatch_transport_message env msg s =
     (if msg_header msg = GRAIN_CALL_HEADER then
        (case handle_grain_call (se_cfg env) (se_traceback env) (se_decode_text env) (se_now env) msg (silo_runtime s) of
           (r, rt) \<Rightarrow> (r, s\<lparr>silo_runtime := rt\<rparr>, []))
      else
        (case message_handler (se_rand env) (se_sha env) (Some (local_activations s)) msg (dc_inner (silo_cache s)) of
           (r, d, out, fired) \<Rightarrow>
             let s1 = fold (on_directory_deactivate env) fired (s\<lparr>silo_cache := (silo_cache s)\<lparr>dc_inner := d\<rparr>\<rparr>)
             in (case r of
                   Inl e \<Rightarrow> (Inl e, s1, out)
                 | Inr (Some response) \<Rightarrow> (Inr (Some response), s1, out)
                 | Inr None \<Rightarrow>
                     (case agent_message_handler (se_ping env) msg (silo_agent s1) of
                        (r2, a, evs) \<Rightarrow>
                          (case silo_agent_events env evs (s1\<lparr>silo_agent := a\<rparr>) of
                             (s2, sent) \<Rightarrow> (r2, s2, out @ sent))))))"

text \<open>A turn of one of the agent's own loops, with what it fires.\<close>

definition silo_agent_turn ::
  "('i, 'st) silo_env \<Rightarrow> (MembershipAgent \<Rightarrow> 't \<Rightarrow> MembershipAgent \<times> 't \<times> agent_event list) \<Rightarrow>
   ('i, 'st) Silo \<Rightarrow> 't \<Rightarrow> ('i, 'st) Silo \<times> 't \<times> one_way list" where
  "silo_agent_turn env turn s t =
     (case turn (silo_agent s) t of
        (a, t', evs) \<Rightarrow> (case silo_agent_events env evs (s\<lparr>silo_agent := a\<rparr>) of (s', out) \<Rightarrow> (s', t', out)))"

subsection \<open>Lifecycle stages\<close>

text \<open>
  What a start or a stop meets: the calls of other silos between the attempts on the table, the
  listener's port, the dials to the peers (nothing for a dial cut off by its timeout), and whether
  the gateway's listener starts.
\<close>

record 't boot_env =
  be_provider :: "'t MembershipProvider"
  be_between :: "nat \<Rightarrow> mem_op list"
  be_between_leave :: "nat \<Rightarrow> mem_op list"
  be_bound :: "int option"
  be_dials :: "SiloAddress \<Rightarrow> peer_io option"
  be_gateway_ok :: bool
  be_in_time :: "nat \<Rightarrow> bool"

definition connect_peer :: "seconds \<Rightarrow> (SiloAddress \<Rightarrow> peer_io option) \<Rightarrow> SiloAddress \<Rightarrow> TcpClusterTransport \<Rightarrow> TcpClusterTransport" where
  "connect_peer now dials peer tr =
     (case dials peer of None \<Rightarrow> tr | Some io \<Rightarrow> snd (connect_to_silo peer io now tr))"

definition connect_to_peers ::
  "seconds \<Rightarrow> (SiloAddress \<Rightarrow> peer_io option) \<Rightarrow> SiloAddress list \<Rightarrow> ('i, 'st) Silo \<Rightarrow> ('i, 'st) Silo" where
  "connect_to_peers now dials active s =
     s\<lparr>silo_transport :=
         fold (connect_peer now dials) (filter (\<lambda>p. p \<noteq> silo_self s) active) (silo_transport s)\<rparr>"

type_synonym ('i, 'st, 't) stage_effect = "('i, 'st) Silo \<times> 't \<times> one_way list \<Rightarrow> unit result \<times> ('i, 'st) Silo \<times> 't \<times> one_way list"

definition on_start_register :: "('i, 'st) silo_env \<Rightarrow> 't boot_env \<Rightarrow> ('i, 'st, 't) stage_effect" where
  "on_start_register env be w =
     (case w of (s, t, out) \<Rightarrow>
        (case register_in_membership (be_provider be) (silo_self s) (silo_cluster s) (silo_gateway_port s)
                (se_now env) (be_between be) t of
           (r, t') \<Rightarrow> (r, s, t', out)))"

definition on_start_cluster :: "('i, 'st) silo_env \<Rightarrow> 't boot_env \<Rightarrow> ('i, 'st, 't) stage_effect" where
  "on_start_cluster env be w =
     (case w of (s, t, out) \<Rightarrow>
        (case transport_start (silo_self s) (silo_cluster s) (be_bound be) (silo_transport s) of
           (Inl e, tr) \<Rightarrow> (Inl e, s\<lparr>silo_transport := tr\<rparr>, t, out)
         | (Inr _, tr) \<Rightarrow>
             (case mp_read_all (be_provider be) t of
                Inl e \<Rightarrow> (Inl e, s\<lparr>silo_transport := tr\<rparr>, t, out)
              | Inr snap \<Rightarrow>
                  let active = membership_active_silos (silo_self s) snap;
                      s1 = connect_to_peers (se_now env) (be_dials be) active (s\<lparr>silo_transport := tr\<rparr>)
                  in (case on_membership_changed (se_sha env) active (dc_inner (silo_cache s1)) of
                        (r, d, sent) \<Rightarrow> (r, s1\<lparr>silo_cache := (silo_cache s1)\<lparr>dc_inner := d\<rparr>\<rparr>, t, out @ sent)))))"

definition on_start_membership_agent :: "('i, 'st, 't) stage_effect" where
  "on_start_membership_agent w =
     (case w of (s, rest) \<Rightarrow> (case agent_start (silo_agent s) of (r, a) \<Rightarrow> (r, s\<lparr>silo_agent := a\<rparr>, rest)))"

definition on_start_gateway :: "'t boot_env \<Rightarrow> ('i, 'st, 't) stage_effect" where
  "on_start_gateway be w =
     (case w of (s, rest) \<Rightarrow>
        if be_gateway_ok be then (Inr (), s\<lparr>silo_gateway := True\<rparr>, rest) else (Inl OtherException, s, rest))"

text \<open>The hooks of the five stages; starting the runtime only starts its idle collector.\<close>

definition start_effect :: "('i, 'st) silo_env \<Rightarrow> 't boot_env \<Rightarrow> int \<Rightarrow> ('i, 'st, 't) stage_effect" where
  "start_effect env be stage w =
     (if stage = 2000 then on_start_register env be w
      else if stage = 7000 then on_start_cluster env be w
      else if stage = 19999 then on_start_membership_agent w
      else if stage = 20000 then on_start_gateway be w
      else (Inr (), w))"

definition on_stop_cluster :: "'t boot_env \<Rightarrow> ('i, 'st) Silo \<Rightarrow> ('i, 'st) Silo" where
  [simp]: "on_stop_cluster be s = s\<lparr>silo_transport := transport_stop (be_in_time be) (silo_transport s)\<rparr>"

definition on_stop_runtime :: "('i, 'st) silo_env \<Rightarrow> ('i, 'st) Silo \<Rightarrow> ('i, 'st) Silo" where
  [simp]: "on_stop_runtime env s =
     (case runtime_stop (se_cfg env) (cached_ops env) (se_now env) (se_in_time env) (silo_runtime s) (silo_cache s) of
        (_, rt, c) \<Rightarrow> s\<lparr>silo_runtime := rt, silo_cache := c\<rparr>)"

definition on_stop_membership_agent :: "('i, 'st) Silo \<Rightarrow> ('i, 'st) Silo" where
  [simp]: "on_stop_membership_agent s = s\<lparr>silo_agent := agent_stop (silo_agent s)\<rparr>"

definition on_stop_gateway :: "('i, 'st) Silo \<Rightarrow> ('i, 'st) Silo" where
  [simp]: "on_stop_gateway s = s\<lparr>silo_gateway := False\<rparr>"

text \<open>The registration is undone by nothing: its stage stops with \<^verbatim>\<open>_no_op_stop\<close>.\<close>

definition stop_effect :: "('i, 'st) silo_env \<Rightarrow> 't boot_env \<Rightarrow> int \<Rightarrow> ('i, 'st) Silo \<Rightarrow> ('i, 'st) Silo" where
  "stop_effect env be stage s =
     (if stage = 7000 then on_stop_cluster be s
      else if stage = 8000 then on_stop_runtime env s
      else if stage = 19999 then on_stop_membership_agent s
      else if stage = 20000 then on_stop_gateway s
      else s)"

fun call_effect ::
  "('i, 'st) silo_env \<Rightarrow> 't boot_env \<Rightarrow> hook_call \<Rightarrow> ('i, 'st) Silo \<times> 't \<times> one_way list \<Rightarrow> ('i, 'st) Silo \<times> 't \<times> one_way list" where
  "call_effect env be (OnStart stage p) w = snd (start_effect env be stage w)"
| "call_effect env be (OnStop stage p) (s, rest) = (stop_effect env be stage s, rest)"

definition silo_stages :: "int list" where
  "silo_stages = [2000, 7000, 8000, 19999, 20000]"

text \<open>What the hook of a stage comes to when all stages before it have been started.\<close>

definition stage_outcome ::
  "('i, 'st) silo_env \<Rightarrow> 't boot_env \<Rightarrow> ('i, 'st) Silo \<times> 't \<times> one_way list \<Rightarrow> int \<Rightarrow> hook_outcome" where
  "stage_outcome env be w stage =
     (case fst (start_effect env be stage
             (fold (\<lambda>k. snd \<circ> start_effect env be k) (filter (\<lambda>k. k < stage) silo_stages) w)) of
        Inl e \<Rightarrow> Raises e
      | Inr _ \<Rightarrow> Finishes)"

definition silo_participant :: "(int \<Rightarrow> hook_outcome) \<Rightarrow> pystr \<Rightarrow> participant" where
  "silo_participant outcome label = \<lparr>part_start = outcome, part_stop = (\<lambda>_. Finishes), part_label = label\<rparr>"

text \<open>\<^verbatim>\<open>_register_lifecycle_participants\<close> on a new lifecycle.\<close>

definition register_lifecycle_participants :: "(int \<Rightarrow> hook_outcome) \<Rightarrow> SiloLifecycle \<Rightarrow> SiloLifecycle" where
  "register_lifecycle_participants outcome lc =
     fold (\<lambda>(stage, label) l. snd (lifecycle_subscribe stage (silo_participant outcome label) l))
       [(2000, lit ''silo-register-in-membership''), (7000, lit ''cluster-transport-and-directory''),
        (8000, lit ''grain-runtime''), (19999, lit ''membership-agent''), (20000, lit ''gateway-listener'')] lc"

definition silo_lifecycle :: "(int \<Rightarrow> hook_outcome) \<Rightarrow> SiloLifecycle" where
  "silo_lifecycle outcome =
     register_lifecycle_participants outcome
       \<lparr>stage_start_timeout = 30, stage_stop_timeout = 5, participants = [], completed_stages = [],
        lc_started = False, lc_stopped = False\<rparr>"

text \<open>\<^verbatim>\<open>start_background\<close> of a silo that has not been started.\<close>

definition silo_start ::
  "('i, 'st) silo_env \<Rightarrow> 't boot_env \<Rightarrow> ('i, 'st) Silo \<Rightarrow> 't
   \<Rightarrow> unit result \<times> SiloLifecycle \<times> ('i, 'st) Silo \<times> 't \<times> one_way list" where
  "silo_start env be s t =
     (case lifecycle_start (silo_lifecycle (stage_outcome env be (s, t, []))) of
        (r, lc, calls) \<Rightarrow>
          (case fold (call_effect env be) calls (s, t, []) of
             (s', rest) \<Rightarrow> (r, lc, (if r = Inr () then s'\<lparr>silo_started := True\<rparr> else s'), rest)))"

definition silo_stop ::
  "('i, 'st) silo_env \<Rightarrow> 't boot_env \<Rightarrow> SiloLifecycle \<Rightarrow> ('i, 'st) Silo \<Rightarrow> 't
   \<Rightarrow> SiloLifecycle \<times> ('i, 'st) Silo \<times> 't" where
  "silo_stop env be lc s t =
     (if \<not> silo_started s \<or> silo_stopping s then (lc, s, t)
      else
        let t1 = safe_transition_status (be_provider be) (silo_id (silo_self s)) SHUTTING_DOWN (be_between be) t
        in (case lifecycle_stop lc of
              (lc', calls) \<Rightarrow>
                (case fold (call_effect env be) calls (s, t1, []) of
                   (s', t2, _) \<Rightarrow>
                     (lc', s'\<lparr>silo_started := False, silo_stopping := False\<rparr>,
                      safe_unregister_from_membership (be_provider be) (silo_id (silo_self s)) (be_between_leave be) t2))))"

subsection \<open>The lifecycle of a silo\<close>

lemma silo_lifecycle_simps [simp]:
  "lc_started (silo_lifecycle o') = False" "lc_stopped (silo_lifecycle o') = False"
  "completed_stages (silo_lifecycle o') = []" "sort (dkeys (participants (silo_lifecycle o'))) = silo_stages"
  by (simp_all add: silo_lifecycle_def register_lifecycle_participants_def lifecycle_subscribe_def dset_def
      silo_stages_def stage_participants_def)

lemma silo_stage_participants:
  "k \<in> set silo_stages \<Longrightarrow> \<exists>label. stage_participants (silo_lifecycle o') k = [silo_participant o' label]"
  by (auto simp: silo_stages_def silo_lifecycle_def register_lifecycle_participants_def lifecycle_subscribe_def
      dset_def stage_participants_def dget_def)

lemma silo_stage_fine: "k \<in> set silo_stages \<Longrightarrow> stage_fine (silo_lifecycle o') k \<longleftrightarrow> o' k = Finishes"
  using silo_stage_participants [of k o'] by (auto simp: stage_fine_def silo_participant_def)

lemma starts_effect:
  "set ks \<subseteq> set silo_stages \<Longrightarrow>
   fold (call_effect env be) (starts (silo_lifecycle o') ks) w = fold (\<lambda>k. snd \<circ> start_effect env be k) ks w"
proof (induction ks arbitrary: w)
  case (Cons k ks)
  obtain label where "stage_participants (silo_lifecycle o') k = [silo_participant o' label]"
    using silo_stage_participants [of k o'] Cons.prems by auto
  then show ?case using Cons by (simp add: starts_def)
qed (simp add: starts_def)

lemma stops_effect:
  "set ks \<subseteq> set silo_stages \<Longrightarrow>
   fold (call_effect env be) (stops (silo_lifecycle o') ks) (s, rest) = (fold (stop_effect env be) ks s, rest)"
proof (induction ks arbitrary: s)
  case (Cons k ks)
  obtain label where "stage_participants (silo_lifecycle o') k = [silo_participant o' label]"
    using silo_stage_participants [of k o'] Cons.prems by auto
  then show ?case using Cons by (simp add: stops_def)
qed (simp add: stops_def)

text \<open>A start runs the stages in order, or up to one that fails, and then undoes those before it.\<close>

lemma silo_start_cases:
  assumes "silo_start env be s t = (r, lc, s', t', out)"
  obtains (up) s1 where "r = Inr ()" "\<forall>k \<in> set silo_stages. stage_outcome env be (s, t, []) k = Finishes"
      "fold (\<lambda>k. snd \<circ> start_effect env be k) silo_stages (s, t, []) = (s1, t', out)" "s' = s1\<lparr>silo_started := True\<rparr>"
      "lc = (silo_lifecycle (stage_outcome env be (s, t, [])))\<lparr>lc_started := True, completed_stages := silo_stages\<rparr>"
  | (aborted) pre k post s1 where "silo_stages = pre @ k # post" "\<forall>j \<in> set pre. stage_outcome env be (s, t, []) j = Finishes"
      "stage_outcome env be (s, t, []) k \<noteq> Finishes" "r = Inl StartupAbortedError"
      "fold (\<lambda>k. snd \<circ> start_effect env be k) (pre @ [k]) (s, t, []) = (s1, t', out)"
      "s' = fold (stop_effect env be) (rev pre) s1"
proof -
  let ?o = "stage_outcome env be (s, t, [])"
  let ?lc = "silo_lifecycle ?o"
  obtain r1 lc1 calls where l: "lifecycle_start ?lc = (r1, lc1, calls)" by (metis prod_cases3)
  then have run: "start_stages silo_stages (?lc\<lparr>lc_started := True\<rparr>) = (r1, lc1, calls)"
    by (simp add: lifecycle_start_def)
  obtain s2 t2 out2 where f: "fold (call_effect env be) calls (s, t, []) = (s2, t2, out2)" by (metis prod_cases3)
  have res: "r = r1" "lc = lc1" "s' = (if r1 = Inr () then s2\<lparr>silo_started := True\<rparr> else s2)" "t' = t2" "out = out2"
    using assms l f by (auto simp: silo_start_def split: if_splits)
  from start_stages_spec [OF run] show thesis
  proof (elim disjE exE conjE)
    assume a: "\<forall>k \<in> set silo_stages. stage_fine (?lc\<lparr>lc_started := True\<rparr>) k" "r1 = Inr ()"
      "calls = starts (?lc\<lparr>lc_started := True\<rparr>) silo_stages"
      "lc1 = (?lc\<lparr>lc_started := True\<rparr>)\<lparr>completed_stages := completed_stages (?lc\<lparr>lc_started := True\<rparr>) @ silo_stages\<rparr>"
    have o: "\<forall>k \<in> set silo_stages. ?o k = Finishes" using a(1) by (simp add: silo_stage_fine)
    have "fold (\<lambda>k. snd \<circ> start_effect env be k) silo_stages (s, t, []) = (s2, t2, out2)"
      using f a(3) by (simp add: starts_effect)
    then show thesis using res a(2,4) o by (intro up [of s2]) simp_all
  next
    fix pre k post
    assume a: "silo_stages = pre @ k # post" "\<forall>j \<in> set pre. stage_fine (?lc\<lparr>lc_started := True\<rparr>) j"
      "\<not> stage_fine (?lc\<lparr>lc_started := True\<rparr>) k" "r1 = Inl StartupAbortedError"
      "calls = starts (?lc\<lparr>lc_started := True\<rparr>) (pre @ [k]) @ stops (?lc\<lparr>lc_started := True\<rparr>)
         (rev (completed_stages (?lc\<lparr>lc_started := True\<rparr>) @ pre))"
    have sub: "set (pre @ [k]) \<subseteq> set silo_stages" "set (rev pre) \<subseteq> set silo_stages" "k \<in> set silo_stages" unfolding a(1) by auto
    obtain s1 t1 o1 where g: "fold (\<lambda>k. snd \<circ> start_effect env be k) (pre @ [k]) (s, t, []) = (s1, t1, o1)" by (metis prod_cases3)
    have calls: "calls = starts ?lc (pre @ [k]) @ stops ?lc (rev pre)" using a(5) by simp
    have "fold (call_effect env be) calls (s, t, []) = (fold (stop_effect env be) (rev pre) s1, t1, o1)"
    proof -
      have "fold (call_effect env be) (starts ?lc (pre @ [k])) (s, t, []) = (s1, t1, o1)"
        using starts_effect [OF sub(1), of env be ?o "(s, t, [])"] g by simp
      then show ?thesis using stops_effect [OF sub(2), of env be ?o s1 "(t1, o1)"] by (simp add: calls)
    qed
    with f have e: "s2 = fold (stop_effect env be) (rev pre) s1" "t2 = t1" "out2 = o1" by simp_all
    have "j \<in> set silo_stages" if "j \<in> set pre" for j using sub(2) that by auto
    then have "\<forall>j \<in> set pre. ?o j = Finishes" "?o k \<noteq> Finishes"
      using a(2,3) sub(3) by (simp_all add: silo_stage_fine)
    then show thesis using res a(1,4) g e by (intro aborted [of pre k post s1]) simp_all
  qed
qed

subsection \<open>What each stage does\<close>

lemma start_effect_stages:
  "start_effect env be 2000 w = on_start_register env be w" "start_effect env be 7000 w = on_start_cluster env be w"
  "start_effect env be 8000 w = (Inr (), w)" "start_effect env be 19999 w = on_start_membership_agent w"
  "start_effect env be 20000 w = on_start_gateway be w"
  by (simp_all add: start_effect_def)

text \<open>What a stage leaves alone.\<close>

lemma register_frame: "on_start_register env be (s, t, out) = (r, s', t', out') \<Longrightarrow> s' = s \<and> out' = out
   \<and> register_in_membership (be_provider be) (silo_self s) (silo_cluster s) (silo_gateway_port s) (se_now env) (be_between be) t = (r, t')"
  by (simp add: on_start_register_def split: prod.splits)

lemma cluster_frame:
  assumes "on_start_cluster env be (s, t, out) = (r, s', t', out')"
  shows "t' = t \<and> silo_agent s' = silo_agent s \<and> silo_gateway s' = silo_gateway s \<and> silo_started s' = silo_started s
    \<and> silo_stopping s' = silo_stopping s \<and> silo_runtime s' = silo_runtime s \<and> silo_self s' = silo_self s"
  using assms by (auto simp: on_start_cluster_def connect_to_peers_def Let_def split: prod.splits sum.splits)

lemma connect_peer_running: "tr_state (connect_peer now dials p tr) = tr_state tr"
  by (simp add: connect_peer_def connect_to_silo_def split: option.split sum.split prod.split)

lemma connect_peers_running: "tr_state (fold (connect_peer now dials) ps tr) = tr_state tr"
  by (induction ps arbitrary: tr) (simp_all add: connect_peer_running)

lemma cluster_running:
  assumes "on_start_cluster env be (s, t, out) = (Inr u, s', t', out')"
  shows "tr_state (silo_transport s') = TransportRunning"
proof -
  obtain tr where tr: "transport_start (silo_self s) (silo_cluster s) (be_bound be) (silo_transport s) = (Inr (), tr)"
    using assms by (auto simp: on_start_cluster_def split: prod.splits sum.splits)
  then have "tr_state tr = TransportRunning"
    by (auto simp: transport_start_def Let_def split: if_splits option.splits)
  then show ?thesis using assms tr
    by (auto simp: on_start_cluster_def connect_to_peers_def Let_def connect_peers_running split: prod.splits sum.splits)
qed

text \<open>The state after the first stages, with their outcomes.\<close>

definition boot :: "('i, 'st) silo_env \<Rightarrow> 't boot_env \<Rightarrow> int list \<Rightarrow> ('i, 'st) Silo \<times> 't \<times> one_way list \<Rightarrow> ('i, 'st) Silo \<times> 't \<times> one_way list" where
  "boot env be ks w = fold (\<lambda>k. snd \<circ> start_effect env be k) ks w"

lemma outcome_fine:
  "stage_outcome env be w k = Finishes \<longleftrightarrow>
     fst (start_effect env be k (boot env be (filter (\<lambda>j. j < k) silo_stages) w)) = Inr ()"
  by (auto simp: stage_outcome_def boot_def split: sum.splits)

subsection \<open>Properties\<close>

lemma header_facts:
  "\<not> is_directory_header GRAIN_CALL_HEADER" "\<not> is_directory_header INDIRECT_PROBE_HEADER"
  "\<not> is_directory_header MEMBERSHIP_SNAPSHOT_HEADER"
  by (simp_all add: is_directory_header_def starts_with_def DIRECTORY_HEADER_PREFIX_def GRAIN_CALL_HEADER_def
      INDIRECT_PROBE_HEADER_def MEMBERSHIP_SNAPSHOT_HEADER_def utf8_bytes_def utf8_enc1_def)

lemma agent_ignores_directory:
  "is_directory_header (msg_header msg) \<Longrightarrow> agent_message_handler ping msg a = (Inr None, a, [])"
  using header_facts by (auto simp: agent_message_handler_def)

lemma deactivate_keeps_agent:
  "silo_agent (fold (on_directory_deactivate env) fired s) = silo_agent s"
  "silo_transport (fold (on_directory_deactivate env) fired s) = silo_transport s"
  by (induction fired arbitrary: s) (simp_all add: on_directory_deactivate_def split: prod.split)

lemma snapshot_keeps:
  "silo_runtime (fst (silo_snapshot_received env snap s)) = silo_runtime s"
  "silo_transport (fst (silo_snapshot_received env snap s)) = silo_transport s"
  by (simp_all add: silo_snapshot_received_def Let_def split: prod.split)

lemma agent_events_keep:
  "silo_runtime (fst (fold (silo_agent_event env) evs w)) = silo_runtime (fst w)
   \<and> silo_transport (fst (fold (silo_agent_event env) evs w)) = silo_transport (fst w)"
proof (induction evs arbitrary: w)
  case (Cons ev evs)
  have "silo_runtime (fst (silo_agent_event env ev w)) = silo_runtime (fst w)
     \<and> silo_transport (fst (silo_agent_event env ev w)) = silo_transport (fst w)"
    using snapshot_keeps [of env] by (cases w; cases ev) (auto simp: silo_self_terminate_def case_prod_beta)
  with Cons show ?case by simp
qed simp

text \<open>A silo, its surroundings and a table that accepts everything, to apply the properties to.\<close>

definition demo_silo_env :: "(pyval, disk) silo_env" where
  "demo_silo_env =
     \<lparr>se_rand = (\<lambda>_ _. 0), se_sha = take 1, se_cfg = demo_config, se_traceback = (\<lambda>_. []), se_decode_text = (\<lambda>_. []),
      se_placement = PreferLocalPlacement, se_send = (\<lambda>_ _ _. Inl TransportConnectionError),
      se_ping = (\<lambda>_ _. Inl TransportTimeoutError), se_now = 1, se_in_time = True\<rparr>"

definition demo_silo :: "(pyval, disk) Silo" where
  "demo_silo =
     \<lparr>silo_self = demo_near, silo_cluster = ClusterId (lit ''c''), silo_gateway_port = 3,
      silo_transport = new_transport default_transport_options,
      silo_cache = \<lparr>dc_inner = fresh_node (take 1) [demo_near] demo_near, dc_max_size = 10, dc_ttl = 30, dc_cache = []\<rparr>,
      silo_runtime = new_runtime [],
      silo_agent = on_snapshot_received (on_self_terminate (new_agent (demo_detector 2))),
      silo_gateway = False, silo_started = False, silo_stopping = False, silo_shutdown_tasks = 0\<rparr>"

definition demo_boot :: "unit boot_env" where
  "demo_boot =
     \<lparr>be_provider = \<lparr>mp_read_all = (\<lambda>_. Inr \<lparr>version = 0, silos = []\<rparr>), mp_try_update = (\<lambda>s t. (Inr s, t)),
        mp_try_delete = (\<lambda>s t. (Inr (), t)), mp_try_add_suspicion = (\<lambda>_ _ _ t. (Inl SiloNotFoundError, t))\<rparr>,
      be_between = (\<lambda>_. []), be_between_leave = (\<lambda>_. []), be_bound = Some 1, be_dials = (\<lambda>_. None),
      be_gateway_ok = True, be_in_time = (\<lambda>_. True)\<rparr>"

text \<open>
  Every inbound message is one component's alone: a grain call changes only the runtime, a directory
  message only the directory and what it deactivates, and every other one is the agent's, which changes
  the directory through accepted snapshots only. The response is that component's.
\<close>

theorem dispatch_routes:
  assumes "dispatch_transport_message env msg s = (r, s', out)"
  shows "silo_transport s' = silo_transport s
    \<and> (msg_header msg = GRAIN_CALL_HEADER \<longrightarrow>
         (\<exists>rt. handle_grain_call (se_cfg env) (se_traceback env) (se_decode_text env) (se_now env) msg (silo_runtime s)
             = (r, rt) \<and> s' = s\<lparr>silo_runtime := rt\<rparr>) \<and> out = [])
    \<and> (is_directory_header (msg_header msg) \<longrightarrow>
         silo_agent s' = silo_agent s
         \<and> (\<exists>d fired. message_handler (se_rand env) (se_sha env) (Some (local_activations s)) msg (dc_inner (silo_cache s))
                = (r, d, out, fired)
              \<and> s' = fold (on_directory_deactivate env) fired (s\<lparr>silo_cache := (silo_cache s)\<lparr>dc_inner := d\<rparr>\<rparr>)))
    \<and> (msg_header msg \<noteq> GRAIN_CALL_HEADER \<and> \<not> is_directory_header (msg_header msg) \<longrightarrow>
         silo_runtime s' = silo_runtime s
         \<and> (\<exists>a evs. agent_message_handler (se_ping env) msg (silo_agent s) = (r, a, evs)
              \<and> (s', out) = silo_agent_events env evs (s\<lparr>silo_agent := a\<rparr>)))"
proof (cases "msg_header msg = GRAIN_CALL_HEADER")
  case True
  then show ?thesis using assms header_facts(1)
    by (auto simp: dispatch_transport_message_def split: prod.splits)
next
  case False
  obtain r1 d o1 fired where m: "message_handler (se_rand env) (se_sha env) (Some (local_activations s)) msg
      (dc_inner (silo_cache s)) = (r1, d, o1, fired)" by (metis prod_cases4)
  let ?s1 = "fold (on_directory_deactivate env) fired (s\<lparr>silo_cache := (silo_cache s)\<lparr>dc_inner := d\<rparr>\<rparr>)"
  show ?thesis
  proof (cases "is_directory_header (msg_header msg)")
    case True
    then have "(r, s', out) = (r1, ?s1, o1)"
      using assms False m agent_ignores_directory [OF True, of "se_ping env" "silo_agent ?s1"]
      by (auto simp: dispatch_transport_message_def Let_def silo_agent_events_def deactivate_keeps_agent
          split: sum.splits option.splits)
    then show ?thesis using True False m by (auto simp: deactivate_keeps_agent)
  next
    case nd: False
    then have m': "r1 = Inr None" "d = dc_inner (silo_cache s)" "o1 = []" "fired = []"
      using m by (simp_all add: message_handler_def)
    obtain r2 a evs where g: "agent_message_handler (se_ping env) msg (silo_agent s) = (r2, a, evs)" by (metis prod_cases3)
    obtain s2 sent where e: "silo_agent_events env evs (s\<lparr>silo_agent := a\<rparr>) = (s2, sent)" by fastforce
    have "r = r2" "s' = s2" "out = sent"
      using assms False m g e by (simp_all add: dispatch_transport_message_def m')
    moreover have "silo_runtime s2 = silo_runtime s" "silo_transport s2 = silo_transport s"
      using agent_events_keep [of env evs "(s\<lparr>silo_agent := a\<rparr>, [])"] e by (simp_all add: silo_agent_events_def)
    ultimately show ?thesis using False nd g e by simp
  qed
qed

theorem dispatch_routes_witness:
  "\<exists>r s' out. dispatch_transport_message demo_silo_env
      \<lparr>message_type = ONE_WAY, correlation_id = 0, msg_header = GRAIN_CALL_HEADER, msg_body = []\<rparr> demo_silo = (r, s', out)
     \<and> silo_agent s' = silo_agent demo_silo \<and> out = []"
proof -
  let ?m = "\<lparr>message_type = ONE_WAY, correlation_id = 0, msg_header = GRAIN_CALL_HEADER, msg_body = []\<rparr>"
  obtain r s' out where d: "dispatch_transport_message demo_silo_env ?m demo_silo = (r, s', out)" by (metis prod_cases3)
  from dispatch_routes [OF d] obtain rt where "s' = demo_silo\<lparr>silo_runtime := rt\<rparr>" "out = []" by auto
  then have "silo_agent s' = silo_agent demo_silo \<and> out = []" by simp
  then show ?thesis using d by blast
qed

lemma membership_changed_ring:
  "on_membership_changed sha active d = (r, d', out) \<Longrightarrow> active \<noteq> [] \<Longrightarrow>
   dd_ring d' = default_ring sha active \<and> active_silos d' = active"
  by (auto simp: on_membership_changed_def Let_def split: sum.splits)

lemma membership_active_silos_set:
  "x \<in> set (membership_active_silos self snap) \<longleftrightarrow>
     x = self \<or> (\<exists>row \<in> set (silos snap). address row = x \<and> (status row = JOINING \<or> status row = ACTIVE))"
proof -
  define A where "A = map address (filter (\<lambda>s. status s = JOINING \<or> status s = ACTIVE) (silos snap))"
  have "x \<in> set A \<longleftrightarrow> (\<exists>row \<in> set (silos snap). address row = x \<and> (status row = JOINING \<or> status row = ACTIVE))"
    by (auto simp: A_def)
  moreover have "membership_active_silos self snap = (if self \<notin> set A then A @ [self] else A)"
    by (simp add: membership_active_silos_def A_def Let_def)
  ultimately show ?thesis by auto
qed

lemma membership_active_silos_ne: "membership_active_silos self snap \<noteq> []"
  using membership_active_silos_set [of self self snap] by auto

text \<open>
  C21. A snapshot that is not older than the last one takes effect at once: no answer is cached any more,
  the ring is that of the silos the snapshot has as joining or active and this silo, so nobody else owns
  a grain, and a silo that finds itself dead schedules its shutdown.
\<close>

theorem snapshot_moves_ring:
  assumes "message_type msg = ONE_WAY" "msg_header msg = MEMBERSHIP_SNAPSHOT_HEADER"
    "decode_snapshot (msg_body msg) = Inr snap"
    "\<forall>old. last_snapshot (silo_agent s) = Some old \<longrightarrow> version old \<le> version snap"
    "snapshot_hook (silo_agent s)" "self_terminate_hook (silo_agent s)"
    "dispatch_transport_message env msg s = (r, s', out)"
  shows "r = Inr None \<and> dc_cache (silo_cache s') = []
    \<and> dd_ring (dc_inner (silo_cache s')) = default_ring (se_sha env) (membership_active_silos (silo_self s) snap)
    \<and> (\<forall>g x. dd_owner_of (se_sha env) (dc_inner (silo_cache s')) g = Inr x \<longrightarrow>
         x = silo_self s \<or> (\<exists>row \<in> set (silos snap). address row = x \<and> (status row = JOINING \<or> status row = ACTIVE)))
    \<and> silo_shutdown_tasks s' = silo_shutdown_tasks s + (if own_row_is_dead (agent_silo (silo_agent s)) snap then 1 else 0)"
proof -
  let ?active = "membership_active_silos (silo_self s) snap"
  have h: "msg_header msg \<noteq> GRAIN_CALL_HEADER" "\<not> is_directory_header (msg_header msg)"
    "msg_header msg \<noteq> INDIRECT_PROBE_HEADER"
    unfolding assms(2) using header_facts(3)
    by (simp_all add: MEMBERSHIP_SNAPSHOT_HEADER_def GRAIN_CALL_HEADER_def INDIRECT_PROBE_HEADER_def utf8_bytes_def utf8_enc1_def)
  obtain a evs where g: "apply_snapshot snap (silo_agent s) = (a, evs)" by fastforce
  have evs: "evs = SnapshotHook snap # (if own_row_is_dead (agent_silo (silo_agent s)) snap then [SelfTerminateHook] else [])"
    using g assms(4-6) by (auto simp: apply_snapshot_def self_terminate_def Let_def split: option.splits if_splits)
  have m: "message_handler (se_rand env) (se_sha env) (Some (local_activations s)) msg (dc_inner (silo_cache s))
      = (Inr None, dc_inner (silo_cache s), [], [])"
    using h(2) by (simp add: message_handler_def)
  have am: "agent_message_handler (se_ping env) msg (silo_agent s) = (Inr None, a, evs)"
    using assms(1-3) h(3) g by (simp add: agent_message_handler_def)
  obtain r1 d sent where c: "on_membership_changed (se_sha env) ?active (dc_inner (silo_cache s)) = (r1, d, sent)"
    by (metis prod_cases3)
  have d: "dd_ring d = default_ring (se_sha env) ?active"
    using membership_changed_ring [OF c membership_active_silos_ne] by simp
  have res: "r = Inr None" "silo_cache s' = (invalidate_all (silo_cache s))\<lparr>dc_inner := d\<rparr>"
    "silo_shutdown_tasks s' = silo_shutdown_tasks s + (if own_row_is_dead (agent_silo (silo_agent s)) snap then 1 else 0)"
    using assms(7) h(1) c
    by (auto simp: dispatch_transport_message_def m am silo_agent_events_def evs silo_snapshot_received_def
        invalidate_all_def silo_self_terminate_def split: if_splits)
  have "x \<in> set ?active" if "dd_owner_of (se_sha env) d g = Inr x" for g x
    using that owner_in_silos [of "se_sha env" ?active]
    by (auto simp: dd_owner_of_def owner_of_with_ring_def d default_ring_def split: option.splits)
  then show ?thesis using res d by (simp add: membership_active_silos_set invalidate_all_def)
qed

theorem snapshot_moves_ring_witness:
  "\<exists>r s' out. dispatch_transport_message demo_silo_env
      \<lparr>message_type = ONE_WAY, correlation_id = 0, msg_header = MEMBERSHIP_SNAPSHOT_HEADER,
       msg_body = encode_snapshot \<lparr>version = 4, silos = []\<rparr>\<rparr> demo_silo = (r, s', out)
     \<and> r = Inr None \<and> dd_ring (dc_inner (silo_cache s')) = default_ring (take 1) [demo_near]"
proof -
  let ?m = "\<lparr>message_type = ONE_WAY, correlation_id = 0, msg_header = MEMBERSHIP_SNAPSHOT_HEADER,
       msg_body = encode_snapshot \<lparr>version = 4, silos = []\<rparr>\<rparr>"
  obtain r s' out where d: "dispatch_transport_message demo_silo_env ?m demo_silo = (r, s', out)" by (metis prod_cases3)
  have "decode_snapshot (msg_body ?m) = Inr \<lparr>version = 4, silos = []\<rparr>"
    using decode_encode_snapshot [of "\<lparr>version = 4, silos = []\<rparr>"] by (simp add: snapshot_text_ok_def)
  from snapshot_moves_ring [OF _ _ this _ _ _ d]
  have "r = Inr None \<and> dd_ring (dc_inner (silo_cache s')) =
      default_ring (se_sha demo_silo_env) (membership_active_silos (silo_self demo_silo) \<lparr>version = 4, silos = []\<rparr>)"
    by (simp add: demo_silo_def on_snapshot_received_def on_self_terminate_def new_agent_def)
  then show ?thesis using d by (simp add: membership_active_silos_def demo_silo_def demo_silo_env_def)
qed


text \<open>A deactivate notice stands down whatever activation there is, whatever epoch it names.\<close>

lemma stale_deactivate: "dget (activations (silo_runtime (on_directory_deactivate env (g, n) s))) g = None"
  by (auto simp: on_directory_deactivate_def deactivate_grain_def Let_def split: prod.splits option.splits)

text \<open>When the hooks of the stages come through.\<close>

lemma boot_outcomes:
  fixes s :: "('i, 'st) Silo" and t :: 't
  assumes "on_start_register env be (s, t, []) = (r1, s, t1, [])" "on_start_cluster env be (s, t1, []) = (r2, s2, t1, out2)"
    "\<not> running (silo_agent s2)"
  shows "stage_outcome env be (s, t, []) 2000 = Finishes \<longleftrightarrow> r1 = Inr ()"
    "stage_outcome env be (s, t, []) 7000 = Finishes \<longleftrightarrow> r2 = Inr ()"
    "stage_outcome env be (s, t, []) 8000 = Finishes" "stage_outcome env be (s, t, []) 19999 = Finishes"
    "stage_outcome env be (s, t, []) 20000 = Finishes \<longleftrightarrow> be_gateway_ok be"
  using assms(3)
  by (simp_all add: outcome_fine silo_stages_def boot_def start_effect_stages assms(1,2) on_start_membership_agent_def
      agent_start_def on_start_gateway_def)

text \<open>A silo before its start.\<close>

definition silo_fresh :: "('i, 'st) Silo \<Rightarrow> bool" where
  "silo_fresh s \<longleftrightarrow> tr_state (silo_transport s) = TransportNew \<and> \<not> running (silo_agent s) \<and> \<not> silo_gateway s
     \<and> \<not> silo_started s \<and> \<not> silo_stopping s"





end
