(* ===== verification/Gateway.thy ===== *)
theory Gateway
  imports RuntimeCalls
begin

text \<open>
  \<^verbatim>\<open>pyleans/gateway/protocol.py\<close> and \<^verbatim>\<open>gateway/listener.py\<close>: the frames between a
  client and a silo, and the silo's side of a client connection, which runs one grain call after
  the other and answers each with one frame. The payload is written and read by \<^verbatim>\<open>orjson\<close>,
  a package that is a parameter here, like the text \<^verbatim>\<open>str(e)\<close> of an exception.
\<close>

subsection \<open>Frames\<close>

datatype GatewayMessageType = GwRequest | GwResponse

fun gw_type_code :: "GatewayMessageType \<Rightarrow> nat" where
  "gw_type_code GwRequest = 1"
| "gw_type_code GwResponse = 2"

definition MIN_FRAME_SIZE :: nat where
  "MIN_FRAME_SIZE = 1 + 8"

definition HEADER_SIZE :: nat where
  "HEADER_SIZE = 13"

definition MAX_FRAME_SIZE :: nat where
  "MAX_FRAME_SIZE = 16 * 1024 * 1024"

text \<open>\<^verbatim>\<open>orjson.dumps\<close> with the exception it raises, \<^verbatim>\<open>orjson.loads\<close> with its error's text.\<close>

record orjson =
  oj_dumps :: "json \<Rightarrow> exn + bytes"
  oj_loads :: "bytes \<Rightarrow> pystr + json"

text \<open>What \<^verbatim>\<open>orjson\<close> documents: it reads back what it wrote.\<close>

definition codec_ok :: "orjson \<Rightarrow> bool" where
  "codec_ok oj \<longleftrightarrow> (\<forall>v bs. json_ok v \<longrightarrow> oj_dumps oj v = Inr bs \<longrightarrow> oj_loads oj bs = Inr v)"

definition transport_exn :: "pystr \<Rightarrow> exn" where
  "transport_exn text = Exn (lit ''TransportError'') text None"

definition gw_encode_frame :: "orjson \<Rightarrow> GatewayMessageType \<Rightarrow> nat \<Rightarrow> json \<Rightarrow> exn + bytes" where
  "gw_encode_frame oj t cid payload =
     (case oj_dumps oj payload of
        Inl e \<Rightarrow> Inl e
      | Inr body \<Rightarrow>
          let frame_len = MIN_FRAME_SIZE + length body
          in if frame_len > MAX_FRAME_SIZE
             then Inl (transport_exn (lit ''Frame size '' @ dec frame_len @ lit '' exceeds maximum '' @ dec MAX_FRAME_SIZE))
             else if int cid > UINT64_MAX then Inl (error_exn StructError)
             else Inr (be_bytes 4 frame_len @ be_bytes 1 (gw_type_code t) @ be_bytes 8 cid @ body))"

text \<open>\<^verbatim>\<open>f"{n:#x}"\<close> of a signed byte.\<close>

fun hex_digits :: "nat \<Rightarrow> pystr" where
  "hex_digits n = (if n < 16 then [hexdig n] else hex_digits (n div 16) @ [hexdig (n mod 16)])"

declare hex_digits.simps [simp del]

definition hex_alt :: "int \<Rightarrow> pystr" where
  "hex_alt i = (if i < 0 then [45] else []) @ lit ''0x'' @ hex_digits (nat \<bar>i\<bar>)"

definition gw_type_of_code :: "int \<Rightarrow> GatewayMessageType option" where
  "gw_type_of_code n = (if n = 1 then Some GwRequest else if n = 2 then Some GwResponse else None)"

text \<open>On the left the text of the \<^verbatim>\<open>TransportError\<close>. The length in the prefix is not looked at.\<close>

definition gw_decode_frame :: "orjson \<Rightarrow> bytes \<Rightarrow> pystr + GatewayMessageType \<times> nat \<times> json" where
  "gw_decode_frame oj data =
     (if length data < HEADER_SIZE then Inl (lit ''Frame too short: '' @ dec (length data) @ lit '' bytes'')
      else
        let raw = sint (data ! 4); cid = be_nat (take 8 (drop 5 data))
        in (case gw_type_of_code raw of
              None \<Rightarrow> Inl (lit ''Unknown message type: '' @ hex_alt raw)
            | Some t \<Rightarrow>
                (case oj_loads oj (drop HEADER_SIZE data) of
                   Inl text \<Rightarrow> Inl (lit ''Invalid JSON payload: '' @ text)
                 | Inr payload \<Rightarrow> Inr (t, cid, payload))))"

text \<open>Reading a frame off a stream that will end: the stream is its remaining bytes.\<close>

datatype gw_read_error = IncompleteRead | ProtocolError pystr

definition gw_read_frame :: "bytes \<Rightarrow> gw_read_error + bytes \<times> bytes" where
  "gw_read_frame reader =
     (if length reader < FRAME_PREFIX_SIZE then Inl IncompleteRead
      else
        let frame_len = be_nat (take FRAME_PREFIX_SIZE reader); r = drop FRAME_PREFIX_SIZE reader
        in if frame_len < MIN_FRAME_SIZE then Inl (ProtocolError (lit ''Frame length too small: '' @ dec frame_len))
           else if frame_len > MAX_FRAME_SIZE
           then Inl (ProtocolError (lit ''Frame length '' @ dec frame_len @ lit '' exceeds maximum '' @ dec MAX_FRAME_SIZE))
           else if length r < frame_len then Inl IncompleteRead
           else Inr (take (FRAME_PREFIX_SIZE + frame_len) reader, drop frame_len r))"

subsection \<open>Dispatch\<close>

text \<open>
  \<^verbatim>\<open>runtime.invoke\<close> on the values of a payload, which nothing checks: type, key, method,
  arguments and keyword arguments. No outcome is a call that never returns.
\<close>

type_synonym 'w gw_runtime = "json \<Rightarrow> json \<Rightarrow> json \<Rightarrow> json \<Rightarrow> json \<Rightarrow> 'w \<Rightarrow> (exn + json) option \<times> 'w"

text \<open>
  The runtime of the model behind a gateway. Text, a list of arguments and a dict of keyword
  arguments (or anything false in place of either) are a call of \<^const>\<open>invoke\<close>; what Python makes of
  other values is a parameter.
\<close>

definition runtime_gateway ::
  "'w gw_runtime \<Rightarrow> (GrainId \<Rightarrow> pystr \<Rightarrow> json list \<Rightarrow> (pystr \<times> json) list \<Rightarrow> 'w \<Rightarrow> (exn + json) option \<times> 'w) \<Rightarrow> 'w gw_runtime" where
  "runtime_gateway loose call t k m args kwargs w =
     (case (t, k, m, (if truthy args then args else JArr []), (if truthy kwargs then kwargs else JObj [])) of
        (JStr gt, JStr gk, JStr name, JArr xs, JObj kw) \<Rightarrow> call (GrainId gt gk) name xs kw w
      | _ \<Rightarrow> loose t k m args kwargs w)"

definition gateway_invoke ::
  "('i, 'st) RuntimeConfig \<Rightarrow> 'd IGrainDirectory \<Rightarrow> (GrainId \<Rightarrow> 'd \<Rightarrow> 'd) \<Rightarrow> picker \<Rightarrow> 'w grain_rpc option \<Rightarrow> seconds
   \<Rightarrow> GrainId \<Rightarrow> pystr \<Rightarrow> json list \<Rightarrow> (pystr \<times> json) list \<Rightarrow> ('i, 'st) GrainRuntime \<times> 'd \<times> 'w
   \<Rightarrow> (exn + json) option \<times> ('i, 'st) GrainRuntime \<times> 'd \<times> 'w" where
  "gateway_invoke cfg ops forget pick send now g m args kwargs w =
     (case w of (rt, d, rest) \<Rightarrow> invoke cfg ops forget pick send now g m args kwargs rt d rest)"

text \<open>
  The subclasses of \<^verbatim>\<open>PyleansError\<close> that \<^verbatim>\<open>invoke\<close> raises. The errors of the cluster transport
  are not among them: they have a base class of their own of the same name as one of these.
\<close>

definition is_pyleans_error :: "exn \<Rightarrow> bool" where
  "is_pyleans_error e \<longleftrightarrow> exn_class e \<in> set (map lit
     [''GrainError'', ''GrainNotFoundError'', ''GrainActivationError'', ''GrainDeactivationError'',
      ''GrainMethodError'', ''GrainCallError'', ''RemoteGrainException'', ''StorageError'',
      ''StorageInconsistencyError'', ''StorageUnavailableError'', ''StorageSerializationError'',
      ''MembershipError'', ''TableStaleError'', ''SiloNotFoundError'', ''MembershipUnavailableError'',
      ''SerializationError'', ''ClusterNotReadyError''])"

definition error_payload :: "pystr \<Rightarrow> json" where
  "error_payload text = JObj [(lit ''ok'', JBool False), (lit ''error'', JStr text)]"

definition result_payload :: "json \<Rightarrow> json" where
  "result_payload r = JObj [(lit ''ok'', JBool True), (lit ''result'', r)]"

text \<open>\<^verbatim>\<open>_serialize_result\<close> of a value that JSON can say.\<close>

definition serialize_result :: "orjson \<Rightarrow> json \<Rightarrow> exn + json" where
  "serialize_result oj r =
     (case r of
        JArr _ \<Rightarrow> (case oj_dumps oj r of Inl e \<Rightarrow> Inl e | Inr _ \<Rightarrow> Inr r)
      | JObj _ \<Rightarrow> (case oj_dumps oj r of Inl e \<Rightarrow> Inl e | Inr _ \<Rightarrow> Inr r)
      | _ \<Rightarrow> Inr r)"

definition internal_error :: "(exn \<Rightarrow> pystr) \<Rightarrow> exn \<Rightarrow> pystr" where
  "internal_error etext e = lit ''Internal error: '' @ exn_class e @ lit '': '' @ etext e"

text \<open>The answer to a call that returned, or that failed to; the size check of the answer itself raises
  the \<^verbatim>\<open>TransportError\<close> that is a \<^verbatim>\<open>PyleansError\<close>.\<close>

definition answer_frame :: "orjson \<Rightarrow> (exn \<Rightarrow> pystr) \<Rightarrow> nat \<Rightarrow> exn + json \<Rightarrow> exn + bytes" where
  "answer_frame oj etext cid r =
     (let failure = (\<lambda>text. gw_encode_frame oj GwResponse cid (error_payload text))
      in (case r of
            Inl e \<Rightarrow> failure (if is_pyleans_error e then etext e else internal_error etext e)
          | Inr v \<Rightarrow>
              (case serialize_result oj v of
                 Inl e \<Rightarrow> failure (internal_error etext e)
               | Inr v' \<Rightarrow>
                   (case gw_encode_frame oj GwResponse cid (result_payload v') of
                      Inr frame \<Rightarrow> Inr frame
                    | Inl e \<Rightarrow>
                        failure (if exn_class e = lit ''TransportError'' then exn_text e else internal_error etext e)))))"

text \<open>
  \<^verbatim>\<open>_dispatch\<close>: an answer, an exception that escapes on the left, or no outcome. A payload that
  is not a dict raises \<^verbatim>\<open>TypeError\<close>.
\<close>

definition missing_field :: "(pystr \<times> json) list \<Rightarrow> pystr option" where
  "missing_field f =
     (if jget f (lit ''grain_type'') = None then Some (lit ''grain_type'')
      else if jget f (lit ''key'') = None then Some (lit ''key'')
      else if jget f (lit ''method'') = None then Some (lit ''method'')
      else None)"

definition gw_dispatch ::
  "orjson \<Rightarrow> (exn \<Rightarrow> pystr) \<Rightarrow> 'w gw_runtime \<Rightarrow> bytes \<Rightarrow> 'w \<Rightarrow> (exn + bytes) option \<times> 'w" where
  "gw_dispatch oj etext run data w =
     (case gw_decode_frame oj data of
        Inl text \<Rightarrow> (Some (gw_encode_frame oj GwResponse 0 (error_payload text)), w)
      | Inr (t, cid, payload) \<Rightarrow>
          if t \<noteq> GwRequest
          then (Some (gw_encode_frame oj GwResponse cid (error_payload (lit ''Expected REQUEST, got RESPONSE''))), w)
          else
            (case payload of
               JObj f \<Rightarrow>
                 (case missing_field f of
                    Some name \<Rightarrow>
                      (Some (gw_encode_frame oj GwResponse cid
                         (error_payload (lit ''Missing required field: '' @ repr_str name))), w)
                  | None \<Rightarrow>
                      (case run (get_or f (lit ''grain_type'') JNull) (get_or f (lit ''key'') JNull)
                              (get_or f (lit ''method'') JNull) (get_or f (lit ''args'') (JArr []))
                              (get_or f (lit ''kwargs'') (JObj [])) w of
                         (None, w') \<Rightarrow> (None, w')
                       | (Some r, w') \<Rightarrow> (Some (answer_frame oj etext cid r), w')))
             | _ \<Rightarrow> (Some (Inl (error_exn TypeError)), w)))"

subsection \<open>A client connection\<close>

datatype client_end = ClientClosed | HandlerRaises exn | HandlerWaits

lemma gw_read_shorter: "gw_read_frame reader = Inr (frame, rest) \<Longrightarrow> length rest < length reader"
  by (auto simp: gw_read_frame_def FRAME_PREFIX_SIZE_def Let_def split: if_splits)

text \<open>
  \<^verbatim>\<open>_handle_client\<close> on the bytes a client sends before it closes its side; \<open>room\<close> is the
  number of answers the client takes before writing to it fails. The answers that were written, how
  the handler ends, and the rest of the silo.
\<close>

function handle_client ::
  "orjson \<Rightarrow> (exn \<Rightarrow> pystr) \<Rightarrow> 'w gw_runtime \<Rightarrow> nat \<Rightarrow> bytes \<Rightarrow> 'w \<Rightarrow> bytes list \<times> client_end \<times> 'w" where
  "handle_client oj etext run room reader w =
     (case gw_read_frame reader of
        Inl _ \<Rightarrow> ([], ClientClosed, w)
      | Inr (frame, rest) \<Rightarrow>
          (case gw_dispatch oj etext run frame w of
             (None, w') \<Rightarrow> ([], HandlerWaits, w')
           | (Some (Inl e), w') \<Rightarrow> ([], HandlerRaises e, w')
           | (Some (Inr response), w') \<Rightarrow>
               (case room of
                  0 \<Rightarrow> ([], ClientClosed, w')
                | Suc n \<Rightarrow>
                    (case handle_client oj etext run n rest w' of
                       (written, fin, w'') \<Rightarrow> (response # written, fin, w'')))))"
  by pat_completeness auto
termination by (relation "measure (\<lambda>(oj, etext, run, room, reader, w). room)") auto

declare handle_client.simps [simp del]

text \<open>
  The listener itself: the port it was asked for, the one its server got, whether it accepts clients
  and how many of them it serves. \<^verbatim>\<open>wait_closed\<close> returns once their handlers have ended, which
  closing the server does not make them do.
\<close>

record GatewayListener =
  gl_asked :: int
  gl_server :: "int option"
  gl_accepting :: bool
  gl_clients :: nat

definition new_listener :: "int \<Rightarrow> GatewayListener" where
  "new_listener asked = \<lparr>gl_asked = asked, gl_server = None, gl_accepting = False, gl_clients = 0\<rparr>"

definition listener_port :: "GatewayListener \<Rightarrow> int" where
  "listener_port l = (case gl_server l of Some p \<Rightarrow> p | None \<Rightarrow> gl_asked l)"

definition listener_start :: "exn + int \<Rightarrow> GatewayListener \<Rightarrow> (exn + unit) \<times> GatewayListener" where
  "listener_start bound l =
     (case bound of
        Inl e \<Rightarrow> (Inl e, l)
      | Inr p \<Rightarrow> (Inr (), l\<lparr>gl_server := Some p, gl_accepting := True\<rparr>))"

text \<open>Whether \<^verbatim>\<open>stop\<close> returns; when it does not, it has closed the server and waits.\<close>

definition listener_stop :: "GatewayListener \<Rightarrow> bool \<times> GatewayListener" where
  "listener_stop l =
     (if gl_server l = None then (True, l)
      else if gl_clients l = 0 then (True, l\<lparr>gl_server := None, gl_accepting := False\<rparr>)
      else (False, l\<lparr>gl_accepting := False\<rparr>))"

subsection \<open>Frames round-trip\<close>

lemma gw_encode_Inr:
  "gw_encode_frame oj t cid v = Inr bs \<longleftrightarrow>
     (\<exists>body. oj_dumps oj v = Inr body \<and> MIN_FRAME_SIZE + length body \<le> MAX_FRAME_SIZE \<and> int cid \<le> UINT64_MAX
        \<and> bs = be_bytes 4 (MIN_FRAME_SIZE + length body) @ be_bytes 1 (gw_type_code t) @ be_bytes 8 cid @ body)"
  by (auto simp: gw_encode_frame_def Let_def simp del: be_bytes.simps split: sum.splits)

lemma gw_read_encoded:
  assumes "gw_encode_frame oj t cid v = Inr bs"
  shows "gw_read_frame (bs @ rest) = Inr (bs, rest)"
proof -
  obtain body where body: "MIN_FRAME_SIZE + length body \<le> MAX_FRAME_SIZE"
    and bs: "bs = be_bytes 4 (MIN_FRAME_SIZE + length body) @ be_bytes 1 (gw_type_code t) @ be_bytes 8 cid @ body"
    using assms unfolding gw_encode_Inr by blast
  have len: "be_nat (be_bytes 4 (MIN_FRAME_SIZE + length body)) = MIN_FRAME_SIZE + length body"
    using body by (intro be_nat_be_bytes) (simp add: MAX_FRAME_SIZE_def)
  have l: "length bs = FRAME_PREFIX_SIZE + (MIN_FRAME_SIZE + length body)"
    by (simp add: bs FRAME_PREFIX_SIZE_def MIN_FRAME_SIZE_def del: be_bytes.simps)
  have pre: "take FRAME_PREFIX_SIZE (bs @ rest) = be_bytes 4 (MIN_FRAME_SIZE + length body)"
    by (simp add: bs FRAME_PREFIX_SIZE_def del: be_bytes.simps)
  have "take (FRAME_PREFIX_SIZE + (MIN_FRAME_SIZE + length body)) (bs @ rest) = bs"
    "drop (MIN_FRAME_SIZE + length body) (drop FRAME_PREFIX_SIZE (bs @ rest)) = rest" using l by (simp_all add: add.commute)
  then show ?thesis using l body unfolding gw_read_frame_def pre len Let_def by simp
qed

lemma gw_decode_encoded:
  assumes "gw_encode_frame oj t cid v = Inr bs" "codec_ok oj" "json_ok v"
  shows "gw_decode_frame oj bs = Inr (t, cid, v)"
proof -
  obtain body where body: "oj_dumps oj v = Inr body" "int cid \<le> UINT64_MAX"
    and bs: "bs = be_bytes 4 (MIN_FRAME_SIZE + length body) @ be_bytes 1 (gw_type_code t) @ be_bytes 8 cid @ body"
    using assms(1) unfolding gw_encode_Inr by blast
  let ?p = "be_bytes 4 (MIN_FRAME_SIZE + length body)"
  have cid: "be_nat (be_bytes 8 cid) = cid"
    by (rule be_nat_be_bytes) (use body(2) in \<open>simp add: UINT64_MAX_def\<close>)
  have code: "be_bytes 1 (gw_type_code t) = [of_nat (gw_type_code t)]" by (cases t) simp_all
  have "take 8 (drop 5 bs) = be_bytes 8 cid" "drop HEADER_SIZE bs = body" "bs ! 4 = of_nat (gw_type_code t)"
    unfolding bs code by (simp_all add: HEADER_SIZE_def nth_append del: be_bytes.simps)
  moreover have "sint (of_nat (gw_type_code t) :: byte) = int (gw_type_code t)" by (cases t) simp_all
  moreover have "gw_type_of_code (int (gw_type_code t)) = Some t" by (cases t) (simp_all add: gw_type_of_code_def)
  moreover have "\<not> length bs < HEADER_SIZE" by (simp add: bs HEADER_SIZE_def del: be_bytes.simps)
  moreover have "oj_loads oj body = Inr v" using assms(2,3) body(1) by (simp add: codec_ok_def)
  ultimately show ?thesis by (simp add: gw_decode_frame_def cid Let_def)
qed

definition demo_codec :: orjson where
  "demo_codec = \<lparr>oj_dumps = (\<lambda>v. Inr (json_dumps v)),
     oj_loads = (\<lambda>bs. case json_loads_bytes bs of Inl _ \<Rightarrow> Inl (lit ''bad'') | Inr v \<Rightarrow> Inr v)\<rparr>"

lemma demo_codec_ok: "codec_ok demo_codec"
  by (simp add: codec_ok_def demo_codec_def json_loads_dumps)

text \<open>
  A gateway frame is read off a stream as it was written, whatever follows it, and decodes to the
  type, the correlation id and the payload it was made of; a frame is at most 16 MiB and four bytes
  long, and one with more to say is never written.
\<close>

theorem gateway_frame_roundtrip:
  assumes "codec_ok oj" "json_ok v" "gw_encode_frame oj t cid v = Inr bs"
  shows "gw_read_frame (bs @ rest) = Inr (bs, rest) \<and> gw_decode_frame oj bs = Inr (t, cid, v)
    \<and> length bs \<le> FRAME_PREFIX_SIZE + MAX_FRAME_SIZE"
proof -
  have "length bs \<le> FRAME_PREFIX_SIZE + MAX_FRAME_SIZE"
    using assms(3) unfolding gw_encode_Inr by (auto simp: FRAME_PREFIX_SIZE_def MIN_FRAME_SIZE_def simp del: be_bytes.simps)
  then show ?thesis using gw_read_encoded [OF assms(3)] gw_decode_encoded [OF assms(3,1,2)] by simp
qed

theorem gateway_frame_roundtrip_witness:
  "\<exists>bs. gw_encode_frame demo_codec GwRequest 7 (JArr []) = Inr bs
     \<and> gw_read_frame (bs @ [1, 2]) = Inr (bs, [1, 2]) \<and> gw_decode_frame demo_codec bs = Inr (GwRequest, 7, JArr [])"
proof -
  have "\<exists>bs. gw_encode_frame demo_codec GwRequest 7 (JArr []) = Inr bs"
    by (simp add: gw_encode_Inr demo_codec_def json_dumps_def utf8_bytes_def utf8_enc1_def MIN_FRAME_SIZE_def
        MAX_FRAME_SIZE_def UINT64_MAX_def del: be_bytes.simps)
  then obtain bs where bs: "gw_encode_frame demo_codec GwRequest 7 (JArr []) = Inr bs" by blast
  from gateway_frame_roundtrip [OF demo_codec_ok _ this, of "[1, 2]"] bs show ?thesis by auto
qed

subsection \<open>What a client connection does\<close>

text \<open>The answer to a call, as the payload of its frame, and a call as a payload.\<close>

definition answer_payload :: "(exn \<Rightarrow> pystr) \<Rightarrow> exn + json \<Rightarrow> json" where
  "answer_payload etext r =
     (case r of
        Inr v \<Rightarrow> result_payload v
      | Inl e \<Rightarrow> error_payload (if is_pyleans_error e then etext e else internal_error etext e))"

definition call_members :: "GrainId \<Rightarrow> pystr \<Rightarrow> json list \<Rightarrow> (pystr \<times> json) list \<Rightarrow> (pystr \<times> json) list" where
  "call_members g m args kwargs =
     [(lit ''grain_type'', JStr (grain_type g)), (lit ''key'', JStr (grain_key g)), (lit ''method'', JStr m),
      (lit ''args'', JArr args), (lit ''kwargs'', JObj kwargs)]"

abbreviation call_payload :: "GrainId \<Rightarrow> pystr \<Rightarrow> json list \<Rightarrow> (pystr \<times> json) list \<Rightarrow> json" where
  "call_payload g m args kwargs \<equiv> JObj (call_members g m args kwargs)"

text \<open>A value that a frame can carry.\<close>

definition sendable :: "orjson \<Rightarrow> GatewayMessageType \<Rightarrow> nat \<Rightarrow> json \<Rightarrow> bool" where
  "sendable oj t cid v \<longleftrightarrow> json_ok v \<and> (\<exists>bs. gw_encode_frame oj t cid v = Inr bs)"

lemma call_members_get [simp]:
  "missing_field (call_members g m args kwargs) = None"
  "get_or (call_members g m args kwargs) (lit ''grain_type'') x = JStr (grain_type g)"
  "get_or (call_members g m args kwargs) (lit ''key'') x = JStr (grain_key g)"
  "get_or (call_members g m args kwargs) (lit ''method'') x = JStr m"
  "get_or (call_members g m args kwargs) (lit ''args'') x = JArr args"
  "get_or (call_members g m args kwargs) (lit ''kwargs'') x = JObj kwargs"
  by (simp_all add: call_members_def missing_field_def get_or_def jget_def dget_def)

lemma runtime_gateway_call:
  "runtime_gateway loose call (JStr (grain_type g)) (JStr (grain_key g)) (JStr m) (JArr args) (JObj kwargs) w = call g m args kwargs w"
  by (cases g; cases args; cases kwargs) (simp_all add: runtime_gateway_def)

lemma answer_frame_sendable:
  assumes "sendable oj GwResponse cid (answer_payload etext r)" "\<forall>v. r = Inr v \<longrightarrow> (\<exists>bs. oj_dumps oj v = Inr bs)"
  shows "\<exists>bs. answer_frame oj etext cid r = Inr bs \<and> gw_encode_frame oj GwResponse cid (answer_payload etext r) = Inr bs"
proof (cases r)
  case (Inl e)
  then show ?thesis using assms(1) by (auto simp: answer_frame_def answer_payload_def sendable_def Let_def)
next
  case (Inr v)
  then obtain bs where "oj_dumps oj v = Inr bs" using assms(2) by blast
  then have "serialize_result oj v = Inr v" by (cases v) (simp_all add: serialize_result_def)
  then show ?thesis using assms(1) Inr by (auto simp: answer_frame_def answer_payload_def sendable_def Let_def)
qed

text \<open>A frame with a call runs that call, and its answer carries the call's correlation id.\<close>

lemma gw_dispatch_call:
  assumes "codec_ok oj" "json_ok (call_payload g m args kwargs)"
    and "gw_encode_frame oj GwRequest cid (call_payload g m args kwargs) = Inr frame"
    and "call g m args kwargs w = (Some r, w')"
    and "sendable oj GwResponse cid (answer_payload etext r)" "\<forall>v. r = Inr v \<longrightarrow> (\<exists>bs. oj_dumps oj v = Inr bs)"
  obtains bs where "gw_dispatch oj etext (runtime_gateway loose call) frame w = (Some (Inr bs), w')"
    and "gw_encode_frame oj GwResponse cid (answer_payload etext r) = Inr bs"
proof -
  obtain bs where bs: "answer_frame oj etext cid r = Inr bs" "gw_encode_frame oj GwResponse cid (answer_payload etext r) = Inr bs"
    using answer_frame_sendable [OF assms(5,6)] by blast
  have "gw_decode_frame oj frame = Inr (GwRequest, cid, call_payload g m args kwargs)"
    by (rule gw_decode_encoded [OF assms(3,1,2)])
  then have "gw_dispatch oj etext (runtime_gateway loose call) frame w = (Some (Inr bs), w')"
    by (simp add: gw_dispatch_def runtime_gateway_call assms(4) bs del: list.map)
  then show ?thesis using that bs(2) by blast
qed

text \<open>
  The calls of a client, served one after the other: the calls as they arrive, the silo before, the
  answers and the silo after.
\<close>

inductive served ::
  "orjson \<Rightarrow> (exn \<Rightarrow> pystr) \<Rightarrow> (GrainId \<Rightarrow> pystr \<Rightarrow> json list \<Rightarrow> (pystr \<times> json) list \<Rightarrow> 'w \<Rightarrow> (exn + json) option \<times> 'w)
   \<Rightarrow> (nat \<times> GrainId \<times> pystr \<times> json list \<times> (pystr \<times> json) list) list \<Rightarrow> 'w \<Rightarrow> (nat \<times> json) list \<Rightarrow> 'w \<Rightarrow> bool"
  for oj etext call where
  served_none: "served oj etext call [] w [] w"
| served_call: "call g m args kwargs w = (Some r, w1) \<Longrightarrow> sendable oj GwRequest cid (call_payload g m args kwargs)
    \<Longrightarrow> sendable oj GwResponse cid (answer_payload etext r) \<Longrightarrow> (\<forall>v. r = Inr v \<longrightarrow> (\<exists>bs. oj_dumps oj v = Inr bs))
    \<Longrightarrow> served oj etext call calls w1 answers w2
    \<Longrightarrow> served oj etext call ((cid, g, m, args, kwargs) # calls) w ((cid, answer_payload etext r) # answers) w2"

definition call_frames :: "orjson \<Rightarrow> (nat \<times> GrainId \<times> pystr \<times> json list \<times> (pystr \<times> json) list) list \<Rightarrow> bytes" where
  "call_frames oj calls =
     concat (map (\<lambda>(cid, g, m, args, kwargs).
       case gw_encode_frame oj GwRequest cid (call_payload g m args kwargs) of Inr bs \<Rightarrow> bs | Inl _ \<Rightarrow> []) calls)"

lemma gw_read_nothing: "gw_read_frame [] = Inl IncompleteRead"
  by (simp add: gw_read_frame_def FRAME_PREFIX_SIZE_def)



text \<open>A call whose answer cannot be written has run all the same.\<close>

lemma unwritten_answer_runs:
  "gw_read_frame reader = Inr (frame, rest) \<Longrightarrow> gw_dispatch oj etext run frame w = (Some (Inr response), w') \<Longrightarrow>
   handle_client oj etext run 0 reader w = ([], ClientClosed, w')"
  by (simp add: handle_client.simps [of _ _ _ 0])

text \<open>
  Nothing else a client sends reaches a grain: a frame that is not a request with a type, a key and a
  method changes nothing in the silo, and is answered with an error unless its payload is no dict, which
  ends the connection.
\<close>

theorem gateway_gate:
  "(snd (gw_dispatch oj etext run frame w) = w
     \<or> (\<exists>cid f. gw_decode_frame oj frame = Inr (GwRequest, cid, JObj f) \<and> missing_field f = None
          \<and> snd (gw_dispatch oj etext run frame w) = snd (run (get_or f (lit ''grain_type'') JNull)
              (get_or f (lit ''key'') JNull) (get_or f (lit ''method'') JNull) (get_or f (lit ''args'') (JArr []))
              (get_or f (lit ''kwargs'') (JObj [])) w)))
   \<and> (fst (gw_dispatch oj etext run frame w) = Some (Inl (error_exn TypeError)) \<or>
      fst (gw_dispatch oj etext run frame w) = None \<or>
      (\<exists>cid payload. fst (gw_dispatch oj etext run frame w) = Some (gw_encode_frame oj GwResponse cid payload)
         \<and> (cid = 0 \<or> (\<exists>t v. gw_decode_frame oj frame = Inr (t, cid, v)))))
"
proof -
  have ans: "\<exists>payload. answer_frame oj etext cid r = gw_encode_frame oj GwResponse cid payload" for cid r
    by (auto simp: answer_frame_def Let_def split: sum.splits) metis+
  have "snd (gw_dispatch oj etext run frame w) = w
     \<or> (\<exists>cid f. gw_decode_frame oj frame = Inr (GwRequest, cid, JObj f) \<and> missing_field f = None
          \<and> snd (gw_dispatch oj etext run frame w) = snd (run (get_or f (lit ''grain_type'') JNull)
              (get_or f (lit ''key'') JNull) (get_or f (lit ''method'') JNull) (get_or f (lit ''args'') (JArr []))
              (get_or f (lit ''kwargs'') (JObj [])) w))"
    by (auto simp: gw_dispatch_def split: sum.split prod.split json.split option.split)
  moreover have "fst (gw_dispatch oj etext run frame w) = Some (Inl (error_exn TypeError)) \<or>
      fst (gw_dispatch oj etext run frame w) = None \<or>
      (\<exists>cid payload. fst (gw_dispatch oj etext run frame w) = Some (gw_encode_frame oj GwResponse cid payload)
         \<and> (cid = 0 \<or> (\<exists>t v. gw_decode_frame oj frame = Inr (t, cid, v))))"
    using ans by (auto simp: gw_dispatch_def split: sum.split prod.split json.split option.split)
  ultimately show ?thesis by blast
qed

end
