(* ===== verification/ClusterClient.thy ===== *)
theory ClusterClient
  imports Gateway
begin

text \<open>
  \<^verbatim>\<open>pyleans/client/cluster_client.py\<close>: a client outside the cluster. It holds one connection to a
  gateway, pairs responses with calls by correlation id, and with a refresher reconnects and repeats a
  call whose connection was lost. What the network, the refresher and the clock do is given with each
  step. \<^verbatim>\<open>connect\<close> is used as the client uses it itself, on one that has no read loop running.
\<close>

subsection \<open>State\<close>

datatype call_state = CallWaiting | CallResult json | CallError exn | CallCancelled

datatype client_link = NoLink | LinkOpen | LinkClosing

datatype read_task = NoTask | Reading | ReadDone "exn option"

record ClusterClient =
  cc_gateways :: "pystr list"
  cc_refresher :: bool
  cc_max_reconnect_attempts :: nat
  cc_link :: client_link
  cc_read_task :: read_task
  cc_connected_gateway :: "pystr option"
  cc_counter :: nat
  cc_pending :: "(nat, nat) dict"
  cc_calls :: "call_state list"

definition connection_exn :: "string \<Rightarrow> exn" where
  "connection_exn text = Exn (lit ''ConnectionError'') (lit text) None"

text \<open>\<^verbatim>\<open>except ConnectionError\<close>.\<close>

definition is_connection_error :: "exn \<Rightarrow> bool" where
  "is_connection_error e \<longleftrightarrow> exn_class e \<in> set (map lit
     [''ConnectionError'', ''BrokenPipeError'', ''ConnectionAbortedError'', ''ConnectionRefusedError'', ''ConnectionResetError''])"

definition new_client :: "pystr list \<Rightarrow> bool \<Rightarrow> int \<Rightarrow> exn + ClusterClient" where
  "new_client gateways refresher attempts =
     (if gateways = [] \<and> \<not> refresher then Inl (error_exn ValueError)
      else if attempts < 0 then Inl (error_exn ValueError)
      else Inr \<lparr>cc_gateways = gateways, cc_refresher = refresher, cc_max_reconnect_attempts = nat attempts,
                cc_link = NoLink, cc_read_task = NoTask, cc_connected_gateway = None, cc_counter = 0,
                cc_pending = [], cc_calls = []\<rparr>)"

definition cc_connected :: "ClusterClient \<Rightarrow> bool" where
  "cc_connected c \<longleftrightarrow> cc_link c = LinkOpen"

subsection \<open>Connecting\<close>

definition parse_address :: "pystr \<Rightarrow> exn + pystr \<times> int" where
  "parse_address addr =
     (case rsplit 58 1 addr of
        [hst, digits] \<Rightarrow>
          (case int_of_str digits of Inl _ \<Rightarrow> Inl (error_exn ValueError) | Inr p \<Rightarrow> Inr (hst, p))
      | _ \<Rightarrow> Inl (error_exn ValueError))"

text \<open>A dial connects, fails with an \<^verbatim>\<open>OSError\<close>, or raises something else.\<close>

datatype dial = Dialled | DialFails exn | DialRaises exn

type_synonym dialler = "pystr \<Rightarrow> int \<Rightarrow> dial"

text \<open>The error of the last gateway that failed, \<open>None\<close> when one took the connection.\<close>

fun attempt_gateways ::
  "dialler \<Rightarrow> pystr list \<Rightarrow> exn option \<Rightarrow> ClusterClient \<Rightarrow> (exn + exn option) \<times> ClusterClient" where
  "attempt_gateways dials [] prev c =
     (Inr (Some (case prev of Some e \<Rightarrow> e | None \<Rightarrow> connection_exn ''no gateways configured'')), c)"
| "attempt_gateways dials (addr # addrs) prev c =
     (case parse_address addr of
        Inl e \<Rightarrow> (Inl e, c)
      | Inr (hst, p) \<Rightarrow>
          (case dials hst p of
             Dialled \<Rightarrow> (Inr None, c\<lparr>cc_link := LinkOpen, cc_read_task := Reading,
                                    cc_connected_gateway := Some (hst @ 58 # str_int p)\<rparr>)
           | DialFails e \<Rightarrow> attempt_gateways dials addrs (Some e) c
           | DialRaises e \<Rightarrow> (Inl e, c)))"

definition attempt_connect :: "dialler \<Rightarrow> ClusterClient \<Rightarrow> (exn + exn option) \<times> ClusterClient" where
  "attempt_connect dials c = attempt_gateways dials (cc_gateways c) None c"

text \<open>What the refresher answers; nothing if it raises.\<close>

definition refresh_gateways :: "pystr list option \<Rightarrow> ClusterClient \<Rightarrow> ClusterClient" where
  "refresh_gateways answer c =
     (if \<not> cc_refresher c then c
      else (case answer of
              None \<Rightarrow> c
            | Some fresh \<Rightarrow> if fresh = [] then c else c\<lparr>cc_gateways := fresh\<rparr>))"

record connect_io =
  io_refresh :: "pystr list option"
  io_dials :: dialler
  io_refresh_again :: "pystr list option"
  io_dials_again :: dialler

definition client_connect :: "connect_io \<Rightarrow> ClusterClient \<Rightarrow> (exn + unit) \<times> ClusterClient" where
  "client_connect io c =
     (case attempt_connect (io_dials io) (refresh_gateways (io_refresh io) c) of
        (Inl e, c1) \<Rightarrow> (Inl e, c1)
      | (Inr None, c1) \<Rightarrow> (Inr (), c1)
      | (Inr (Some e), c1) \<Rightarrow>
          if \<not> cc_refresher c then (Inl (connection_exn ''Could not connect to any gateway''), c1)
          else
            (case attempt_connect (io_dials_again io) (refresh_gateways (io_refresh_again io) c1) of
               (Inl e, c2) \<Rightarrow> (Inl e, c2)
             | (Inr None, c2) \<Rightarrow> (Inr (), c2)
             | (Inr (Some e), c2) \<Rightarrow> (Inl (connection_exn ''Could not connect to any gateway''), c2)))"

subsection \<open>Calls under way\<close>

text \<open>\<^verbatim>\<open>if not future.done(): future.set_...\<close>\<close>

definition settle_call :: "nat \<Rightarrow> call_state \<Rightarrow> call_state list \<Rightarrow> call_state list" where
  "settle_call f v fs = (if f < length fs \<and> fs ! f = CallWaiting then fs[f := v] else fs)"

definition fail_pending :: "exn \<Rightarrow> ClusterClient \<Rightarrow> ClusterClient" where
  "fail_pending e c =
     c\<lparr>cc_pending := [], cc_calls := fold (\<lambda>(_, f) fs. settle_call f (CallError e) fs) (cc_pending c) (cc_calls c)\<rparr>"

text \<open>
  The first half of \<^verbatim>\<open>_invoke_once\<close>, up to the wait: the correlation id and the future of the call.
  A future whose call was never written has no one waiting for it.
\<close>

definition send_call :: "orjson \<Rightarrow> bool \<Rightarrow> json \<Rightarrow> ClusterClient \<Rightarrow> (exn + nat \<times> nat) \<times> ClusterClient" where
  "send_call oj write_ok payload c =
     (if \<not> cc_connected c then (Inl (connection_exn ''Not connected to any gateway''), c)
      else
        let cid = cc_counter c + 1; f = length (cc_calls c); c1 = c\<lparr>cc_counter := cid\<rparr>
        in (case gw_encode_frame oj GwRequest cid payload of
              Inl e \<Rightarrow> (Inl e, c1)
            | Inr frame \<Rightarrow>
                let c2 = c1\<lparr>cc_calls := cc_calls c @ [CallWaiting], cc_pending := dset (cc_pending c) cid f\<rparr>
                in if write_ok then (Inr (cid, f), c2)
                   else (Inl (connection_exn ''Write to gateway failed''),
                         c2\<lparr>cc_pending := dpop (cc_pending c2) cid, cc_calls := (cc_calls c2)[f := CallCancelled]\<rparr>)))"

text \<open>The read loop: a frame that arrives, and the end of the loop.\<close>

definition client_end_read_loop :: "exn option \<Rightarrow> ClusterClient \<Rightarrow> ClusterClient" where
  "client_end_read_loop escapes c =
     (fail_pending (connection_exn ''Connection lost'') c)
       \<lparr>cc_link := (if cc_link c = LinkOpen then LinkClosing else cc_link c), cc_read_task := ReadDone escapes\<rparr>"

definition client_read_frame :: "orjson \<Rightarrow> bytes \<Rightarrow> ClusterClient \<Rightarrow> ClusterClient" where
  "client_read_frame oj frame c =
     (if cc_read_task c \<noteq> Reading then c
      else
        (case gw_decode_frame oj frame of
           Inl _ \<Rightarrow> client_end_read_loop None c
         | Inr (_, cid, payload) \<Rightarrow>
             (case dget (cc_pending c) cid of
                None \<Rightarrow> c
              | Some f \<Rightarrow> c\<lparr>cc_pending := dpop (cc_pending c) cid,
                             cc_calls := settle_call f (CallResult payload) (cc_calls c)\<rparr>)))"

text \<open>
  The stream ends or breaks while the loop reads: a disconnect and a protocol error end the loop
  quietly, any other exception stays in its task.
\<close>

definition client_read_fails :: "exn option \<Rightarrow> ClusterClient \<Rightarrow> ClusterClient" where
  "client_read_fails escapes c = (if cc_read_task c \<noteq> Reading then c else client_end_read_loop escapes c)"

text \<open>A call's timeout, and a caller that is cancelled.\<close>

definition expire_call :: "nat \<Rightarrow> nat \<Rightarrow> ClusterClient \<Rightarrow> ClusterClient" where
  "expire_call cid f c =
     (if f < length (cc_calls c) \<and> cc_calls c ! f = CallWaiting
      then c\<lparr>cc_pending := dpop (cc_pending c) cid, cc_calls := (cc_calls c)[f := CallCancelled]\<rparr> else c)"

definition cancel_call :: "nat \<Rightarrow> ClusterClient \<Rightarrow> ClusterClient" where
  "cancel_call f c = c\<lparr>cc_calls := settle_call f CallCancelled (cc_calls c)\<rparr>"

text \<open>
  \<^verbatim>\<open>close\<close>: cancelling a read loop that runs makes it fail the pending calls; awaiting one that
  ended with an exception raises it, before anything is closed.
\<close>

definition client_close :: "ClusterClient \<Rightarrow> (exn + unit) \<times> ClusterClient" where
  "client_close c =
     (case cc_read_task c of
        ReadDone (Some e) \<Rightarrow> (Inl e, c)
      | t \<Rightarrow>
          let c1 = (if t = Reading then fail_pending (connection_exn ''Connection lost'') c else c)
          in (Inr (), (fail_pending (connection_exn ''Client closed'') (c1\<lparr>cc_link := NoLink, cc_read_task := NoTask\<rparr>))
                        \<lparr>cc_connected_gateway := None\<rparr>))"

definition reconnect_to_fresh_gateway :: "connect_io \<Rightarrow> ClusterClient \<Rightarrow> (exn + unit) \<times> ClusterClient" where
  "reconnect_to_fresh_gateway io c =
     (case client_close c of
        (Inl e, c1) \<Rightarrow> (Inl e, c1)
      | (Inr _, c1) \<Rightarrow> client_connect io c1)"

text \<open>What can happen to a client while a call waits.\<close>

datatype client_event =
    Sends json bool
  | Arrives bytes
  | ReadFails "exn option"
  | Expires nat
  | Cancels nat
  | Closes
  | Reconnects connect_io

fun client_step :: "orjson \<Rightarrow> client_event \<Rightarrow> ClusterClient \<Rightarrow> ClusterClient" where
  "client_step oj (Sends payload ok) c = snd (send_call oj ok payload c)"
| "client_step oj (Arrives frame) c = client_read_frame oj frame c"
| "client_step oj (ReadFails e) c = client_read_fails e c"
| "client_step oj (Expires cid) c =
     (case dget (cc_pending c) cid of None \<Rightarrow> c | Some f \<Rightarrow> expire_call cid f c)"
| "client_step oj (Cancels f) c = cancel_call f c"
| "client_step oj Closes c = snd (client_close c)"
| "client_step oj (Reconnects io) c = snd (reconnect_to_fresh_gateway io c)"

definition client_run :: "orjson \<Rightarrow> client_event list \<Rightarrow> ClusterClient \<Rightarrow> ClusterClient" where
  "client_run oj evs c = fold (client_step oj) evs c"

subsection \<open>A call\<close>

text \<open>What the caller makes of its response. A response that is no dict raises \<^verbatim>\<open>AttributeError\<close>.\<close>

definition read_response :: "json \<Rightarrow> exn + json" where
  "read_response payload =
     (case payload of
        JObj f \<Rightarrow>
          if truthy (get_or f (lit ''ok'') JNull) then Inr (get_or f (lit ''result'') JNull)
          else Inl (transport_exn (py_str (get_or f (lit ''error'') (JStr (lit ''Unknown error'')))))
      | _ \<Rightarrow> Inl (raise_named ''AttributeError'' None))"

text \<open>
  One attempt: the call is sent, the client goes through some events, and a call that is then still
  waiting has timed out.
\<close>

record attempt_io =
  at_write_ok :: bool
  at_events :: "client_event list"
  at_reconnect :: connect_io

definition invoke_once :: "orjson \<Rightarrow> attempt_io \<Rightarrow> json \<Rightarrow> ClusterClient \<Rightarrow> (exn + json) \<times> ClusterClient" where
  "invoke_once oj io payload c =
     (case send_call oj (at_write_ok io) payload c of
        (Inl e, c1) \<Rightarrow> (Inl e, c1)
      | (Inr (cid, f), c1) \<Rightarrow>
          let c2 = client_run oj (at_events io) c1
          in (case cc_calls c2 ! f of
                CallResult response \<Rightarrow> (read_response response, c2)
              | CallError e \<Rightarrow> (Inl e, c2)
              | CallCancelled \<Rightarrow> (Inl (raise_named ''CancelledError'' None), c2)
              | CallWaiting \<Rightarrow> (Inl (raise_named ''TimeoutError'' None), expire_call cid f c2)))"

fun invoke_attempts :: "orjson \<Rightarrow> json \<Rightarrow> attempt_io list \<Rightarrow> ClusterClient \<Rightarrow> (exn + json) \<times> ClusterClient" where
  "invoke_attempts oj payload [] c = (Inl (connection_exn ''invoke exhausted retry budget''), c)"
| "invoke_attempts oj payload (io # ios) c =
     (case invoke_once oj io payload c of
        (Inr r, c1) \<Rightarrow> (Inr r, c1)
      | (Inl e, c1) \<Rightarrow>
          if \<not> is_connection_error e \<or> ios = [] \<or> \<not> cc_refresher c1 then (Inl e, c1)
          else
            (case reconnect_to_fresh_gateway (at_reconnect io) c1 of
               (Inl e', c2) \<Rightarrow> (Inl e', c2)
             | (Inr _, c2) \<Rightarrow> invoke_attempts oj payload ios c2))"

definition client_invoke ::
  "orjson \<Rightarrow> (nat \<Rightarrow> attempt_io) \<Rightarrow> GrainId \<Rightarrow> pystr \<Rightarrow> json list \<Rightarrow> (pystr \<times> json) list \<Rightarrow> ClusterClient
   \<Rightarrow> (exn + json) \<times> ClusterClient" where
  "client_invoke oj ios g m args kwargs c =
     invoke_attempts oj (call_payload g m args kwargs) (map ios [0..<1 + cc_max_reconnect_attempts c]) c"

text \<open>A reference's method call; names with an underscore in front are attributes of the reference.\<close>

definition remote_ref_call ::
  "orjson \<Rightarrow> (nat \<Rightarrow> attempt_io) \<Rightarrow> GrainId \<Rightarrow> pystr \<Rightarrow> json list \<Rightarrow> (pystr \<times> json) list \<Rightarrow> ClusterClient
   \<Rightarrow> (exn + json) \<times> ClusterClient" where
  "remote_ref_call oj ios g name args kwargs c =
     (if take 1 name = lit ''_'' then (Inl (raise_named ''AttributeError'' None), c)
      else client_invoke oj ios g name args kwargs c)"

subsection \<open>No caller is forgotten\<close>

text \<open>Pending ids are in use, their futures exist and differ, and a future that waits is pending under a loop that reads.\<close>

definition client_ok :: "ClusterClient \<Rightarrow> bool" where
  "client_ok c \<longleftrightarrow> dict_ok (cc_pending c)
     \<and> (\<forall>cid f. dget (cc_pending c) cid = Some f \<longrightarrow> cid \<le> cc_counter c \<and> f < length (cc_calls c) \<and> cc_read_task c = Reading)
     \<and> (\<forall>cid cid' f. dget (cc_pending c) cid = Some f \<longrightarrow> dget (cc_pending c) cid' = Some f \<longrightarrow> cid' = cid)
     \<and> (\<forall>f < length (cc_calls c). cc_calls c ! f = CallWaiting \<longrightarrow> (\<exists>cid. dget (cc_pending c) cid = Some f))
     \<and> (cc_link c = LinkOpen \<longrightarrow> cc_read_task c = Reading)"

lemma client_okI:
  assumes "dict_ok (cc_pending c)"
    "\<And>cid f. dget (cc_pending c) cid = Some f \<Longrightarrow> cid \<le> cc_counter c \<and> f < length (cc_calls c) \<and> cc_read_task c = Reading"
    "\<And>cid cid' f. dget (cc_pending c) cid = Some f \<Longrightarrow> dget (cc_pending c) cid' = Some f \<Longrightarrow> cid' = cid"
    "\<And>f. f < length (cc_calls c) \<Longrightarrow> cc_calls c ! f = CallWaiting \<Longrightarrow> \<exists>cid. dget (cc_pending c) cid = Some f"
    "cc_link c = LinkOpen \<Longrightarrow> cc_read_task c = Reading"
  shows "client_ok c"
  using assms unfolding client_ok_def by blast

lemma client_okD:
  assumes "client_ok c"
  shows "dict_ok (cc_pending c)"
    "dget (cc_pending c) cid = Some f \<Longrightarrow> cid \<le> cc_counter c \<and> f < length (cc_calls c) \<and> cc_read_task c = Reading"
    "dget (cc_pending c) cid = Some f \<Longrightarrow> dget (cc_pending c) cid' = Some f \<Longrightarrow> cid' = cid"
    "f < length (cc_calls c) \<Longrightarrow> cc_calls c ! f = CallWaiting \<Longrightarrow> \<exists>cid. dget (cc_pending c) cid = Some f"
    "cc_link c = LinkOpen \<Longrightarrow> cc_read_task c = Reading"
  using assms unfolding client_ok_def by blast+

lemma length_settle_call [simp]: "length (settle_call f v fs) = length fs"
  by (simp add: settle_call_def)

lemma settle_call_other: "fs ! g \<noteq> CallWaiting \<or> g \<noteq> f \<Longrightarrow> settle_call f v fs ! g = fs ! g"
  by (auto simp: settle_call_def nth_list_update)

lemma settle_call_same: "f < length fs \<Longrightarrow> v \<noteq> CallWaiting \<Longrightarrow> settle_call f v fs ! f \<noteq> CallWaiting"
  by (auto simp: settle_call_def)

lemma length_fold_settle_call [simp]: "length (fold (\<lambda>(_, f) fs. settle_call f v fs) xs fs) = length fs"
  by (induction xs arbitrary: fs) (auto simp: split_beta)

lemma fold_settle_call:
  "g < length fs \<Longrightarrow> fold (\<lambda>(_, f) fs. settle_call f v fs) xs fs ! g =
     (if fs ! g = CallWaiting \<and> g \<in> snd ` set xs then v else fs ! g)"
proof (induction xs arbitrary: fs)
  case (Cons x xs)
  then show ?case by (cases x) (auto simp: settle_call_def nth_list_update)
qed simp

lemma fail_pending_simps [simp]:
  "cc_pending (fail_pending e c) = []" "length (cc_calls (fail_pending e c)) = length (cc_calls c)"
  "cc_link (fail_pending e c) = cc_link c" "cc_read_task (fail_pending e c) = cc_read_task c"
  "cc_counter (fail_pending e c) = cc_counter c" "cc_refresher (fail_pending e c) = cc_refresher c"
  "cc_max_reconnect_attempts (fail_pending e c) = cc_max_reconnect_attempts c"
  by (simp_all add: fail_pending_def)

lemma fail_pending_calls:
  "f < length (cc_calls c) \<Longrightarrow> cc_calls (fail_pending e c) ! f =
     (if cc_calls c ! f = CallWaiting \<and> f \<in> snd ` set (cc_pending c) then CallError e else cc_calls c ! f)"
  by (simp add: fail_pending_def fold_settle_call)

lemma fail_pending_none: "cc_pending c = [] \<Longrightarrow> fail_pending e c = c"
  by (simp add: fail_pending_def)

lemma dget_snd: "dict_ok d \<Longrightarrow> (\<exists>k. dget d k = Some v) \<longleftrightarrow> v \<in> snd ` set d"
  by (force simp: dget_Some_iff)

lemma fail_pending_settles:
  "client_ok c \<Longrightarrow> f < length (cc_calls c) \<Longrightarrow> cc_calls c ! f = CallWaiting \<Longrightarrow> cc_calls (fail_pending e c) ! f = CallError e"
  unfolding client_ok_def by (metis dget_snd fail_pending_calls)

lemma fail_pending_waiting:
  "client_ok c \<Longrightarrow> f < length (cc_calls c) \<Longrightarrow> cc_calls (fail_pending e c) ! f \<noteq> CallWaiting"
  by (cases "cc_calls c ! f = CallWaiting") (simp_all add: fail_pending_settles fail_pending_calls)

lemma client_ok_failed:
  "client_ok c \<Longrightarrow> (l = LinkOpen \<longrightarrow> t = Reading) \<Longrightarrow>
   client_ok ((fail_pending e c)\<lparr>cc_link := l, cc_read_task := t, cc_connected_gateway := gw\<rparr>)"
  using fail_pending_waiting [of c _ e] by (simp add: client_ok_def [of "_\<lparr>cc_link := _, cc_read_task := _, cc_connected_gateway := _\<rparr>"])

text \<open>Connecting changes gateways, link and read task only.\<close>

lemma attempt_gateways_frame:
  "attempt_gateways dials addrs prev c = (r, c') \<Longrightarrow>
     cc_pending c' = cc_pending c \<and> cc_calls c' = cc_calls c \<and> cc_counter c' = cc_counter c \<and> cc_refresher c' = cc_refresher c
     \<and> cc_max_reconnect_attempts c' = cc_max_reconnect_attempts c
     \<and> (r = Inr None \<and> cc_link c' = LinkOpen \<and> cc_read_task c' = Reading \<or> r \<noteq> Inr None \<and> c' = c)"
  by (induction dials addrs prev c rule: attempt_gateways.induct) (auto split: sum.splits dial.splits)

lemma refresh_frame [simp]:
  "cc_pending (refresh_gateways a c) = cc_pending c" "cc_calls (refresh_gateways a c) = cc_calls c"
  "cc_counter (refresh_gateways a c) = cc_counter c" "cc_refresher (refresh_gateways a c) = cc_refresher c"
  "cc_link (refresh_gateways a c) = cc_link c" "cc_read_task (refresh_gateways a c) = cc_read_task c"
  "cc_max_reconnect_attempts (refresh_gateways a c) = cc_max_reconnect_attempts c"
  by (simp_all add: refresh_gateways_def split: option.split)

lemma client_connect_frame:
  assumes "client_connect io c = (r, c')"
  shows "cc_pending c' = cc_pending c \<and> cc_calls c' = cc_calls c \<and> cc_counter c' = cc_counter c \<and> cc_refresher c' = cc_refresher c
     \<and> cc_max_reconnect_attempts c' = cc_max_reconnect_attempts c
     \<and> (r = Inr () \<and> cc_link c' = LinkOpen \<and> cc_read_task c' = Reading
        \<or> r \<noteq> Inr () \<and> cc_link c' = cc_link c \<and> cc_read_task c' = cc_read_task c)"
proof -
  obtain r1 c1 where a: "attempt_connect (io_dials io) (refresh_gateways (io_refresh io) c) = (r1, c1)" by fastforce
  obtain r2 c2 where b: "attempt_connect (io_dials_again io) (refresh_gateways (io_refresh_again io) c1) = (r2, c2)" by fastforce
  note fa = attempt_gateways_frame [OF a [unfolded attempt_connect_def]]
    and fb = attempt_gateways_frame [OF b [unfolded attempt_connect_def]]
  have c1: "cc_pending c1 = cc_pending c" "cc_calls c1 = cc_calls c" "cc_counter c1 = cc_counter c"
    "cc_refresher c1 = cc_refresher c" "cc_max_reconnect_attempts c1 = cc_max_reconnect_attempts c"
    "r1 \<noteq> Inr None \<Longrightarrow> cc_link c1 = cc_link c \<and> cc_read_task c1 = cc_read_task c"
    "r1 = Inr None \<Longrightarrow> cc_link c1 = LinkOpen \<and> cc_read_task c1 = Reading" using fa by auto
  have c2: "cc_pending c2 = cc_pending c1" "cc_calls c2 = cc_calls c1" "cc_counter c2 = cc_counter c1"
    "cc_refresher c2 = cc_refresher c1" "cc_max_reconnect_attempts c2 = cc_max_reconnect_attempts c1"
    "r2 \<noteq> Inr None \<Longrightarrow> cc_link c2 = cc_link c1 \<and> cc_read_task c2 = cc_read_task c1"
    "r2 = Inr None \<Longrightarrow> cc_link c2 = LinkOpen \<and> cc_read_task c2 = Reading" using fb by auto
  consider "\<exists>e. r1 = Inl e" | "r1 = Inr None" | e where "r1 = Inr (Some e)" by (cases r1) auto
  then show ?thesis
  proof cases
    case 3
    consider "\<exists>e. r2 = Inl e" | "r2 = Inr None" | "\<exists>e. r2 = Inr (Some e)" by (cases r2) auto
    then show ?thesis using assms 3 c1 c2 by cases (auto simp: client_connect_def a b split: if_splits)
  qed (use assms c1 in \<open>auto simp: client_connect_def a\<close>)
qed

text \<open>What a step may do to the calls: new ones at the end, and waiting ones settled.\<close>

definition calls_grow :: "ClusterClient \<Rightarrow> ClusterClient \<Rightarrow> bool" where
  "calls_grow c c' \<longleftrightarrow> cc_counter c \<le> cc_counter c' \<and> cc_refresher c' = cc_refresher c
     \<and> cc_max_reconnect_attempts c' = cc_max_reconnect_attempts c \<and> length (cc_calls c) \<le> length (cc_calls c')
     \<and> (\<forall>f < length (cc_calls c). cc_calls c ! f \<noteq> CallWaiting \<longrightarrow> cc_calls c' ! f = cc_calls c ! f)
     \<and> (\<forall>f < length (cc_calls c). \<forall>cid. dget (cc_pending c) cid = Some f \<longrightarrow> cc_calls c' ! f = CallWaiting
          \<longrightarrow> dget (cc_pending c') cid = Some f)"

lemma calls_grow_refl [simp]: "calls_grow c c"
  by (simp add: calls_grow_def)

lemma calls_grow_trans: "calls_grow a b \<Longrightarrow> calls_grow b c \<Longrightarrow> calls_grow a c"
proof -
  assume ab: "calls_grow a b" and bc: "calls_grow b c"
  then have "cc_calls c ! f = cc_calls a ! f" if "f < length (cc_calls a)" "cc_calls a ! f \<noteq> CallWaiting" for f
    using that unfolding calls_grow_def by (metis less_le_trans)
  moreover have "dget (cc_pending c) cid = Some f"
    if "f < length (cc_calls a)" "dget (cc_pending a) cid = Some f" "cc_calls c ! f = CallWaiting" for f cid
  proof -
    have l: "f < length (cc_calls b)" using ab that(1) by (simp add: calls_grow_def)
    then have "cc_calls b ! f = CallWaiting" using bc that(3) unfolding calls_grow_def by metis
    then have "dget (cc_pending b) cid = Some f" using ab that(1,2) by (simp add: calls_grow_def)
    then show ?thesis using bc l that(3) by (simp add: calls_grow_def)
  qed
  ultimately show ?thesis using ab bc by (simp add: calls_grow_def)
qed

lemma settle_one:
  assumes "client_ok c" "dget (cc_pending c) cid = Some f" "v \<noteq> CallWaiting"
    and c': "c' = c\<lparr>cc_pending := dpop (cc_pending c) cid, cc_calls := settle_call f v (cc_calls c)\<rparr>"
  shows "client_ok c' \<and> calls_grow c c'"
proof
  have f: "f < length (cc_calls c)" using assms(1,2) by (simp add: client_ok_def)
  have waits: "settle_call f v (cc_calls c) ! g = CallWaiting \<longleftrightarrow> g \<noteq> f \<and> cc_calls c ! g = CallWaiting" for g
    using settle_call_same [OF f assms(3)] settle_call_other [of "cc_calls c" g f v] by (cases "g = f") auto
  show "client_ok c'"
    unfolding client_ok_def c'
    using assms(1,2) by (simp add: client_ok_def waits) (metis option.inject)
  show "calls_grow c c'"
    unfolding calls_grow_def c'
    using assms(1,2) waits settle_call_other [of "cc_calls c"] by (simp add: client_ok_def) 
qed

lemma send_call_ok:
  assumes "client_ok c" "send_call oj ok payload c = (r, c')"
  shows "client_ok c' \<and> calls_grow c c'
    \<and> (\<forall>cid f. r = Inr (cid, f) \<longrightarrow> dget (cc_pending c') cid = Some f \<and> cc_calls c' ! f = CallWaiting
         \<and> f = length (cc_calls c) \<and> length (cc_calls c') = Suc f \<and> cid = cc_counter c + 1 \<and> cc_read_task c' = Reading)"
proof -
  have fresh: "dget (cc_pending c) (Suc (cc_counter c)) = None"
    using assms(1) by (cases "dget (cc_pending c) (Suc (cc_counter c))") (fastforce simp: client_ok_def)+
  have old: "dget (cc_pending c) cid = Some f \<Longrightarrow> f < length (cc_calls c) \<and> cid \<noteq> Suc (cc_counter c)" for cid f
    using assms(1) fresh by (auto simp: client_ok_def)
  consider "c' = c \<and> (\<exists>e. r = Inl e)" | "c' = c\<lparr>cc_counter := Suc (cc_counter c)\<rparr> \<and> (\<exists>e. r = Inl e)"
    | "cc_connected c" "c' = c\<lparr>cc_counter := Suc (cc_counter c), cc_calls := cc_calls c @ [CallWaiting],
        cc_pending := dset (cc_pending c) (Suc (cc_counter c)) (length (cc_calls c))\<rparr>"
      "r = Inr (Suc (cc_counter c), length (cc_calls c))"
    | "c' = c\<lparr>cc_counter := Suc (cc_counter c), cc_calls := cc_calls c @ [CallCancelled],
        cc_pending := dpop (dset (cc_pending c) (Suc (cc_counter c)) (length (cc_calls c))) (Suc (cc_counter c))\<rparr>
        \<and> (\<exists>e. r = Inl e)"
  proof (cases "cc_connected c")
    case False
    then show ?thesis using assms(2) that(1) by (auto simp: send_call_def)
  next
    case True
    note def = assms(2) [unfolded send_call_def Let_def]
    show ?thesis
    proof (cases "gw_encode_frame oj GwRequest (cc_counter c + 1) payload")
      case (Inl e)
      then have "c' = c\<lparr>cc_counter := Suc (cc_counter c)\<rparr>" "r = Inl e" using def True by simp_all
      then show ?thesis using that(2) by blast
    next
      case (Inr frame)
      show ?thesis
      proof (cases ok)
        case True
        then show ?thesis using def \<open>cc_connected c\<close> Inr by (intro that(3)) simp_all
      next
        case False
        then have "c' = c\<lparr>cc_counter := Suc (cc_counter c), cc_calls := cc_calls c @ [CallCancelled],
            cc_pending := dpop (dset (cc_pending c) (Suc (cc_counter c)) (length (cc_calls c))) (Suc (cc_counter c))\<rparr>"
          "r = Inl (connection_exn ''Write to gateway failed'')" using def \<open>cc_connected c\<close> Inr by auto
        then show ?thesis using that(4) by blast
      qed
    qed
  qed
  then show ?thesis
  proof cases
    case 3
    note ok = client_okD [OF assms(1)]
    have rd: "cc_read_task c = Reading" using ok(5) 3(1) by (simp add: cc_connected_def)
    have "client_ok c'"
    proof (rule client_okI)
      fix cid f assume "dget (cc_pending c') cid = Some f"
      then show "cid \<le> cc_counter c' \<and> f < length (cc_calls c') \<and> cc_read_task c' = Reading"
        using ok(2) [of cid f] rd by (auto simp: 3(2) split: if_splits)
    next
      fix cid cid' f assume "dget (cc_pending c') cid = Some f" "dget (cc_pending c') cid' = Some f"
      then show "cid' = cid" using ok(2,3) by (fastforce simp: 3(2) split: if_splits)
    next
      fix f assume "f < length (cc_calls c')" "cc_calls c' ! f = CallWaiting"
      then consider "f = length (cc_calls c)" | "f < length (cc_calls c)" "cc_calls c ! f = CallWaiting"
        by (auto simp: 3(2) nth_append less_Suc_eq)
      then show "\<exists>cid. dget (cc_pending c') cid = Some f"
      proof cases
        case 1
        then have "dget (cc_pending c') (Suc (cc_counter c)) = Some f" by (simp add: 3(2))
        then show ?thesis ..
      next
        case 2
        then obtain cid where "dget (cc_pending c) cid = Some f" using ok(4) by blast
        then have "dget (cc_pending c') cid = Some f" using fresh by (auto simp: 3(2))
        then show ?thesis ..
      qed
    qed (use ok(1) rd in \<open>simp_all add: 3(2)\<close>)
    moreover have "calls_grow c c'" using fresh unfolding calls_grow_def 3(2) by (auto simp: nth_append)
    moreover have "cc_read_task c = Reading" using assms(1) 3(1) by (simp add: client_ok_def cc_connected_def)
    ultimately show ?thesis by (simp add: 3(2,3) nth_append)
  next
    case 4
    then have c': "c' = c\<lparr>cc_counter := Suc (cc_counter c), cc_calls := cc_calls c @ [CallCancelled],
        cc_pending := dpop (dset (cc_pending c) (Suc (cc_counter c)) (length (cc_calls c))) (Suc (cc_counter c))\<rparr>"
      and r: "\<exists>e. r = Inl e" by simp_all
    have g: "dget (cc_pending c') cid = dget (cc_pending c) cid" for cid using fresh by (auto simp: c')
    note ok = client_okD [OF assms(1)]
    have "client_ok c'"
    proof (rule client_okI)
      fix cid f assume "dget (cc_pending c') cid = Some f"
      then show "cid \<le> cc_counter c' \<and> f < length (cc_calls c') \<and> cc_read_task c' = Reading"
        using ok(2) [of cid f] unfolding g by (simp add: c')
    next
      fix f assume "f < length (cc_calls c')" "cc_calls c' ! f = CallWaiting"
      then have "f < length (cc_calls c)" "cc_calls c ! f = CallWaiting" by (auto simp: c' nth_append less_Suc_eq)
      then show "\<exists>cid. dget (cc_pending c') cid = Some f" unfolding g by (rule ok(4))
    next
      fix cid cid' f assume "dget (cc_pending c') cid = Some f" "dget (cc_pending c') cid' = Some f"
      then show "cid' = cid" unfolding g by (rule ok(3))
    qed (use ok(1,5) in \<open>simp_all add: c'\<close>)
    moreover have "calls_grow c c'" using g unfolding calls_grow_def by (simp add: c' nth_append)
    ultimately show ?thesis using r by auto
  next
    case 2
    then show ?thesis using assms(1) by (auto simp: client_ok_def calls_grow_def le_SucI)
  qed (use assms(1) in auto)
qed

lemma fail_pending_grow:
  assumes "client_ok c"
  shows "calls_grow c ((fail_pending e c)\<lparr>cc_link := l, cc_read_task := t, cc_connected_gateway := gw\<rparr>)"
  using fail_pending_waiting [OF assms, of _ e] by (auto simp: calls_grow_def fail_pending_calls)

lemma client_end_read_loop_ok:
  assumes "client_ok c"
  shows "client_ok (client_end_read_loop e c) \<and> calls_grow c (client_end_read_loop e c)"
proof -
  let ?f = "fail_pending (connection_exn ''Connection lost'') c"
  let ?l = "if cc_link c = LinkOpen then LinkClosing else cc_link c"
  have eq: "client_end_read_loop e c = ?f\<lparr>cc_link := ?l, cc_read_task := ReadDone e, cc_connected_gateway := cc_connected_gateway ?f\<rparr>"
    by (simp add: client_end_read_loop_def)
  show ?thesis unfolding eq by (intro conjI client_ok_failed [OF assms] fail_pending_grow [OF assms]) simp
qed

text \<open>A close that returns leaves nothing pending and nobody waiting.\<close>

lemma client_close_Inr:
  assumes "client_ok c" "client_close c = (r, c')"
  shows "client_ok c' \<and> calls_grow c c'
    \<and> (r = Inr () \<and> cc_pending c' = [] \<and> cc_link c' = NoLink \<and> cc_read_task c' = NoTask
         \<and> (\<forall>f < length (cc_calls c). cc_calls c ! f = CallWaiting \<longrightarrow> cc_calls c' ! f = CallError (connection_exn ''Connection lost''))
       \<or> (\<exists>e. r = Inl e \<and> cc_read_task c = ReadDone (Some e) \<and> c' = c))"
proof (cases "\<exists>e. cc_read_task c = ReadDone (Some e)")
  case True
  then show ?thesis using assms by (auto simp: client_close_def)
next
  case False
  let ?lost = "connection_exn ''Connection lost''"
  let ?c1 = "if cc_read_task c = Reading then fail_pending ?lost c else c"
  have idle: "cc_pending c = []" if "cc_read_task c \<noteq> Reading"
  proof -
    have "dget (cc_pending c) cid = None" for cid using client_okD(2) [OF assms(1), of cid] that by (metis not_None_eq)
    then show ?thesis by (cases "cc_pending c") (auto simp: dget_None_iff)
  qed
  then have none: "cc_pending ?c1 = []" by simp
  have c': "r = Inr ()" "c' = ?c1\<lparr>cc_link := NoLink, cc_read_task := NoTask, cc_connected_gateway := None\<rparr>"
    using assms(2) False none
    by (auto simp: client_close_def fail_pending_none Let_def split: read_task.splits option.splits)
  show ?thesis
  proof (cases "cc_read_task c = Reading")
    case True
    then show ?thesis
      using client_ok_failed [OF assms(1), where l = NoLink and t = NoTask and e = ?lost and gw = None]
        fail_pending_grow [OF assms(1), where l = NoLink and t = NoTask and e = ?lost and gw = None]
        fail_pending_settles [OF assms(1), of _ ?lost] c' by simp
  next
    case False
    then have "cc_pending c = []" by (rule idle)
    moreover have "cc_calls c ! f \<noteq> CallWaiting" if "f < length (cc_calls c)" for f
      using client_okD(4) [OF assms(1) that] \<open>cc_pending c = []\<close> by auto
    ultimately show ?thesis using c' False by (simp add: client_ok_def calls_grow_def)
  qed
qed

lemma reconnect_ok:
  assumes "client_ok c" "reconnect_to_fresh_gateway io c = (r, c')"
  shows "client_ok c' \<and> calls_grow c c'"
proof -
  obtain r1 c1 where cl: "client_close c = (r1, c1)" by fastforce
  note close = client_close_Inr [OF assms(1) cl]
  show ?thesis
  proof (cases r1)
    case (Inl e)
    then show ?thesis using assms(2) close cl by (simp add: reconnect_to_fresh_gateway_def)
  next
    case (Inr u)
    then have conn: "client_connect io c1 = (r, c')" using assms(2) cl by (simp add: reconnect_to_fresh_gateway_def)
    note f = client_connect_frame [OF conn]
    have "client_ok c'" using close f Inr by (auto simp: client_ok_def)
    moreover have "calls_grow c1 c'" using f by (simp add: calls_grow_def)
    ultimately show ?thesis using calls_grow_trans close by blast
  qed
qed

lemma client_step_ok:
  assumes "client_ok c"
  shows "client_ok (client_step oj ev c) \<and> calls_grow c (client_step oj ev c)"
proof (cases ev)
  case (Sends payload ok)
  then show ?thesis using send_call_ok [OF assms] by (cases "send_call oj ok payload c") auto
next
  case (Arrives frame)
  have "client_ok (client_read_frame oj frame c) \<and> calls_grow c (client_read_frame oj frame c)"
    using client_end_read_loop_ok [OF assms] settle_one [OF assms _ _ refl]
    by (auto simp: client_read_frame_def assms split: sum.split option.split)
  then show ?thesis using Arrives by simp
next
  case (ReadFails e)
  then show ?thesis using client_end_read_loop_ok [OF assms] assms by (simp add: client_read_fails_def)
next
  case (Expires cid)
  show ?thesis
  proof (cases "dget (cc_pending c) cid")
    case (Some f)
    show ?thesis using settle_one [OF assms Some, of CallCancelled] Expires Some assms
      by (auto simp: expire_call_def settle_call_def)
  qed (use Expires assms in simp)
next
  case (Cancels f)
  have w: "settle_call f CallCancelled (cc_calls c) ! g = CallWaiting \<Longrightarrow> cc_calls c ! g = CallWaiting" for g
    by (cases "g < length (cc_calls c)") (auto simp: settle_call_def nth_list_update split: if_splits)
  let ?c = "c\<lparr>cc_calls := settle_call f CallCancelled (cc_calls c)\<rparr>"
  have "client_ok ?c"
    by (rule client_okI) (use client_okD [OF assms] w in auto)
  moreover have "calls_grow c ?c" using settle_call_other [of "cc_calls c"] by (simp add: calls_grow_def)
  ultimately show ?thesis using Cancels by (simp add: cancel_call_def)
next
  case Closes
  then show ?thesis using client_close_Inr [OF assms] by (cases "client_close c") auto
next
  case (Reconnects io)
  then show ?thesis using reconnect_ok [OF assms] by (cases "reconnect_to_fresh_gateway io c") auto
qed

lemma client_run_ok:
  "client_ok c \<Longrightarrow> client_ok (client_run oj evs c) \<and> calls_grow c (client_run oj evs c)"
  unfolding client_run_def
proof (induction evs arbitrary: c)
  case (Cons ev evs)
  then show ?case using client_step_ok [OF Cons.prems] calls_grow_trans by simp blast
qed simp

lemma new_client_ok: "new_client gateways refresher n = Inr c \<Longrightarrow> client_ok c"
  by (auto simp: new_client_def client_ok_def split: if_splits)


definition demo_io :: connect_io where
  "demo_io = \<lparr>io_refresh = None, io_dials = (\<lambda>_ _. Dialled), io_refresh_again = None, io_dials_again = (\<lambda>_ _. Dialled)\<rparr>"

lemma demo_client:
  obtains c where "new_client [lit ''a:1''] True 2 = Inr c"
    and "client_run oj [Reconnects demo_io] c = c\<lparr>cc_link := LinkOpen, cc_read_task := Reading,
           cc_connected_gateway := Some (lit ''a:1'')\<rparr>"
    and "cc_counter c = 0" "cc_calls c = []" "cc_refresher c" "cc_max_reconnect_attempts c = 2" "client_ok c"
proof -
  obtain c where c: "new_client [lit ''a:1''] True 2 = Inr c" by (simp add: new_client_def)
  then have "c = \<lparr>cc_gateways = [lit ''a:1''], cc_refresher = True, cc_max_reconnect_attempts = 2,
      cc_link = NoLink, cc_read_task = NoTask, cc_connected_gateway = None, cc_counter = 0, cc_pending = [], cc_calls = []\<rparr>"
    by (simp add: new_client_def)
  then show ?thesis using c new_client_ok [OF c]
    by (intro that [of c]) (simp_all add: client_run_def reconnect_to_fresh_gateway_def client_close_def client_connect_def
        attempt_connect_def refresh_gateways_def demo_io_def fail_pending_def parse_address_def numeral_eq_Suc
        int_of_str_def parse_int_def strip_ws_def is_ws_def is_digit_def str_int_def dec.simps Let_def)
qed

lemma demo_sends: "sendable demo_codec GwRequest 1 (call_payload demo_grain (lit ''get'') [] [])"
  by (simp add: sendable_def gw_encode_Inr demo_codec_def json_dumps_def utf8_bytes_def utf8_enc1_def MIN_FRAME_SIZE_def
      MAX_FRAME_SIZE_def UINT64_MAX_def call_members_def demo_grain_def json_string_def json_char_def valid_cp_def
      del: be_bytes.simps)


subsection \<open>A call through the gateway\<close>

text \<open>What the caller of a client makes of the outcome of the call at the silo.\<close>

definition client_view :: "(exn \<Rightarrow> pystr) \<Rightarrow> exn + json \<Rightarrow> exn + json" where
  "client_view etext r =
     (case r of
        Inr v \<Rightarrow> Inr v
      | Inl e \<Rightarrow> Inl (transport_exn (if is_pyleans_error e then etext e else internal_error etext e)))"

lemma read_response_answer: "read_response (answer_payload etext r) = client_view etext r"
  by (cases r) (simp_all add: read_response_def answer_payload_def client_view_def result_payload_def error_payload_def
      get_or_def jget_def dget_def py_str_def)

text \<open>
  C8. A call through a connected client is the call at the silo: the frame it writes makes the gateway run
  exactly that call, and whatever else the client does before and after the answer arrives, its caller
  gets the result, or a \<^verbatim>\<open>TransportError\<close> with the error's text, whatever the error was.
\<close>

theorem client_call_transparent:
  assumes "codec_ok oj" "client_ok c" "cc_connected c"
    and "sendable oj GwRequest (cc_counter c + 1) (call_payload g m args kwargs)"
    and "call g m args kwargs w = (Some r, w')"
    and "sendable oj GwResponse (cc_counter c + 1) (answer_payload etext r)" "\<forall>v. r = Inr v \<longrightarrow> (\<exists>bs. oj_dumps oj v = Inr bs)"
    and "cc_calls (client_run oj evs (snd (send_call oj True (call_payload g m args kwargs) c))) ! length (cc_calls c) = CallWaiting"
  shows "\<exists>frame response. gw_encode_frame oj GwRequest (cc_counter c + 1) (call_payload g m args kwargs) = Inr frame
    \<and> handle_client oj etext (runtime_gateway loose call) (Suc n) frame w = ([response], ClientClosed, w')
    \<and> fst (invoke_once oj \<lparr>at_write_ok = True, at_events = evs @ Arrives response # later, at_reconnect = io\<rparr>
             (call_payload g m args kwargs) c) = client_view etext r"
proof -
  let ?p = "call_payload g m args kwargs" and ?cid = "cc_counter c + 1" and ?f = "length (cc_calls c)"
  obtain frame where frame: "gw_encode_frame oj GwRequest ?cid ?p = Inr frame" and ok: "json_ok ?p"
    using assms(4) by (auto simp: sendable_def)
  obtain response where d: "gw_dispatch oj etext (runtime_gateway loose call) frame w = (Some (Inr response), w')"
    "gw_encode_frame oj GwResponse ?cid (answer_payload etext r) = Inr response"
    using gw_dispatch_call [OF assms(1) ok frame, of call w r w' etext loose] assms(5-7) by blast
  have dec: "gw_decode_frame oj response = Inr (GwResponse, ?cid, answer_payload etext r)"
    using gw_decode_encoded [OF d(2) assms(1)] assms(6) by (simp add: sendable_def)
  have served: "handle_client oj etext (runtime_gateway loose call) (Suc n) frame w = ([response], ClientClosed, w')"
    using gw_read_encoded [OF frame, of "[]"]
    by (simp add: handle_client.simps [of _ _ _ "Suc n"] handle_client.simps [of _ _ _ n "[]"] d gw_read_nothing)
  obtain c1 where send: "send_call oj True ?p c = (Inr (?cid, ?f), c1)"
    using assms(3) frame by (simp add: send_call_def Let_def)
  define c2 where "c2 = client_run oj evs c1"
  have ok1: "client_ok c1" "dget (cc_pending c1) ?cid = Some ?f" "?f < length (cc_calls c1)"
    using send_call_ok [OF assms(2) send] by simp_all
  have ok2: "client_ok c2" "calls_grow c1 c2" using client_run_ok [OF ok1(1)] by (simp_all add: c2_def)
  have w: "cc_calls c2 ! ?f = CallWaiting" using assms(8) send by (simp add: c2_def)
  then have p2: "dget (cc_pending c2) ?cid = Some ?f" using ok2(2) ok1(2,3) by (simp add: calls_grow_def)
  have f2: "?f < length (cc_calls c2)" "cc_read_task c2 = Reading" using client_okD(2) [OF ok2(1) p2] by simp_all
  let ?c3 = "client_read_frame oj response c2"
  have c3: "cc_calls ?c3 ! ?f = CallResult (answer_payload etext r)" "length (cc_calls ?c3) = length (cc_calls c2)"
    using f2 w p2 by (simp_all add: client_read_frame_def dec settle_call_def)
  have "client_ok ?c3" using client_step_ok [OF ok2(1), of oj "Arrives response"] by simp
  then have "cc_calls (client_run oj later ?c3) ! ?f = CallResult (answer_payload etext r)"
    using client_run_ok [of ?c3 oj later] c3 f2 by (simp add: calls_grow_def)
  moreover have "client_run oj (evs @ Arrives response # later) c1 = client_run oj later ?c3"
    by (simp add: client_run_def c2_def)
  ultimately have "fst (invoke_once oj \<lparr>at_write_ok = True, at_events = evs @ Arrives response # later, at_reconnect = io\<rparr> ?p c)
      = client_view etext r"
    by (simp add: invoke_once_def send Let_def read_response_answer)
  with frame served show ?thesis by blast
qed

lemma connected_demo_client:
  obtains c where "client_ok c" "cc_connected c" "cc_counter c = 0" "cc_calls c = []" "cc_refresher c"
    "cc_max_reconnect_attempts c = 2" "cc_read_task c = Reading"
proof -
  obtain c0 where c0: "client_run demo_codec [Reconnects demo_io] c0 = c0\<lparr>cc_link := LinkOpen, cc_read_task := Reading,
       cc_connected_gateway := Some (lit ''a:1'')\<rparr>" "cc_counter c0 = 0" "cc_calls c0 = []" "cc_refresher c0"
       "cc_max_reconnect_attempts c0 = 2" "client_ok c0"
    by (rule demo_client)
  show ?thesis
    using client_run_ok [OF c0(6), of demo_codec "[Reconnects demo_io]"] c0(2-5)
    by (intro that [of "client_run demo_codec [Reconnects demo_io] c0"]) (simp_all add: c0(1) cc_connected_def)
qed

theorem client_call_transparent_witness:
  "\<exists>c io. cc_connected c \<and> fst (invoke_once demo_codec io (call_payload demo_grain (lit ''get'') [] []) c) = Inr (JStr (lit ''v''))"
proof -
  let ?call = "\<lambda>g m args kwargs w. invoke_local demo_config 5 g m args kwargs w"
    and ?p = "call_payload demo_grain (lit ''get'') [] []"
  obtain rt' where call: "?call demo_grain (lit ''get'') [] [] (demo_runtime [] []) = (Some (Inr (JStr (lit ''v''))), rt')"
    by (rule demo_call)
  obtain c where c: "client_ok c" "cc_connected c" "cc_counter c = 0" by (rule connected_demo_client)
  have s1: "sendable demo_codec GwRequest (cc_counter c + 1) ?p" using demo_sends c(3) by simp
  have s2: "sendable demo_codec GwResponse (cc_counter c + 1) (answer_payload exn_text (Inr (JStr (lit ''v''))))"
    by (simp add: c(3) sendable_def gw_encode_Inr demo_codec_def json_dumps_def utf8_bytes_def utf8_enc1_def MIN_FRAME_SIZE_def
        MAX_FRAME_SIZE_def UINT64_MAX_def answer_payload_def result_payload_def json_string_def json_char_def valid_cp_def
        del: be_bytes.simps)
  obtain r1 c1 where send: "send_call demo_codec True ?p c = (r1, c1)" by fastforce
  then have "r1 = Inr (1, length (cc_calls c))" using s1 c(2,3) by (auto simp: send_call_def sendable_def Let_def)
  then have w: "cc_calls (client_run demo_codec [] (snd (send_call demo_codec True ?p c))) ! length (cc_calls c) = CallWaiting"
    using send_call_ok [OF c(1) send] send by (simp add: client_run_def)
  have "\<forall>v. Inr (JStr (lit ''v'')) = (Inr v :: exn + json) \<longrightarrow> (\<exists>bs. oj_dumps demo_codec v = Inr bs)"
    by (simp add: demo_codec_def)
  from client_call_transparent [where call = ?call, OF demo_codec_ok c(1,2) s1 call s2 this w]
  obtain io where "fst (invoke_once demo_codec io ?p c) = client_view exn_text (Inr (JStr (lit ''v'')))" by blast
  then show ?thesis using c(2) by (intro exI [of _ c] exI [of _ io]) (simp add: client_view_def)
qed

subsection \<open>Reconnecting\<close>

lemma connected_open: "cc_connected c \<longleftrightarrow> cc_link c = LinkOpen"
  by (simp add: cc_connected_def)

text \<open>Reconnecting for one call fails every other call under way, those already repeated included.\<close>

lemma reconnect_fails_others:
  assumes "client_ok c" "f < length (cc_calls c)" "cc_calls c ! f = CallWaiting"
  shows "cc_calls (client_step oj (Reconnects io) c) ! f = CallError (connection_exn ''Connection lost'')"
proof -
  obtain r c1 where cl: "client_close c = (r, c1)" by fastforce
  have "cc_read_task c = Reading" using client_okD(2,4) [OF assms(1)] assms(2,3) by metis
  then have c1: "r = Inr ()" "cc_calls c1 ! f = CallError (connection_exn ''Connection lost'')"
    using client_close_Inr [OF assms(1) cl] assms(2,3) by auto
  show ?thesis using client_connect_frame [of io c1] c1
    by (cases "client_connect io c1") (simp add: reconnect_to_fresh_gateway_def cl)
qed

text \<open>A client whose read loop died of an exception that it does not catch.\<close>

definition stuck_client :: "exn \<Rightarrow> ClusterClient \<Rightarrow> bool" where
  "stuck_client e c \<longleftrightarrow> cc_read_task c = ReadDone (Some e) \<and> cc_link c \<noteq> LinkOpen \<and> client_ok c"

lemma stuck_client_step: "stuck_client e c \<Longrightarrow> stuck_client e (client_step oj ev c) \<and> cc_refresher (client_step oj ev c) = cc_refresher c
    \<and> cc_max_reconnect_attempts (client_step oj ev c) = cc_max_reconnect_attempts c"
  using client_step_ok [of c oj ev]
  by (cases ev)
    (auto simp: stuck_client_def send_call_def cc_connected_def client_read_frame_def client_read_fails_def expire_call_def
      cancel_call_def client_close_def reconnect_to_fresh_gateway_def split: option.splits)

lemma stuck_client_run: "stuck_client e c \<Longrightarrow> stuck_client e (client_run oj evs c) \<and> cc_refresher (client_run oj evs c) = cc_refresher c
    \<and> cc_max_reconnect_attempts (client_run oj evs c) = cc_max_reconnect_attempts c"
  unfolding client_run_def
proof (induction evs arbitrary: c)
  case (Cons ev evs)
  then show ?case using stuck_client_step by simp
qed simp



text \<open>Events that send nothing leave the counter alone.\<close>

definition quiet :: "client_event list \<Rightarrow> bool" where
  "quiet evs \<longleftrightarrow> (\<forall>ev \<in> set evs. \<forall>p ok. ev \<noteq> Sends p ok)"

lemma counter_fail_pending: "cc_counter (fail_pending e c) = cc_counter c"
  by simp

lemma reconnect_counter:
  "cc_counter (snd (reconnect_to_fresh_gateway io c)) = cc_counter c"
proof -
  obtain r c1 where cl: "client_close c = (r, c1)" by fastforce
  then have "cc_counter c1 = cc_counter c"
    by (auto simp: client_close_def Let_def split: read_task.splits option.splits)
  then show ?thesis using client_connect_frame [of io c1]
    by (cases "client_connect io c1"; cases r) (simp_all add: reconnect_to_fresh_gateway_def cl)
qed

lemma quiet_step: "\<forall>p ok. ev \<noteq> Sends p ok \<Longrightarrow> cc_counter (client_step oj ev c) = cc_counter c"
  by (cases ev) (auto simp: client_read_frame_def client_end_read_loop_def client_read_fails_def expire_call_def cancel_call_def
      client_close_def Let_def reconnect_counter split: sum.split option.split read_task.split)

lemma quiet_run: "quiet evs \<Longrightarrow> cc_counter (client_run oj evs c) = cc_counter c"
  unfolding client_run_def
  by (induction evs arbitrary: c) (simp_all add: quiet_def quiet_step)

lemma invoke_once_counter:
  assumes "quiet (at_events io)"
  shows "cc_counter (snd (invoke_once oj io p c)) \<le> cc_counter c + 1"
proof -
  obtain r c1 where s: "send_call oj (at_write_ok io) p c = (r, c1)" by fastforce
  then have "cc_counter c1 \<le> cc_counter c + 1" by (auto simp: send_call_def Let_def split: if_splits sum.splits)
  then show ?thesis
    by (cases r) (auto simp: invoke_once_def s Let_def quiet_run [OF assms] expire_call_def split: call_state.split)
qed

lemma invoke_attempts_counter:
  "(\<And>io. io \<in> set ios \<Longrightarrow> quiet (at_events io)) \<Longrightarrow>
   cc_counter (snd (invoke_attempts oj p ios c)) \<le> cc_counter c + length ios"
proof (induction oj p ios c rule: invoke_attempts.induct)
  case (2 oj p io ios c)
  obtain r c1 where once: "invoke_once oj io p c = (r, c1)" by fastforce
  have le: "cc_counter c1 \<le> cc_counter c + 1" using invoke_once_counter [of io oj p c] once "2.prems" by simp
  show ?case
  proof (cases "\<exists>e. r = Inl e \<and> is_connection_error e \<and> ios \<noteq> [] \<and> cc_refresher c1")
    case True
    then obtain e where e: "r = Inl e" "is_connection_error e" "ios \<noteq> []" "cc_refresher c1" by blast
    obtain r2 c2 where re: "reconnect_to_fresh_gateway (at_reconnect io) c1 = (r2, c2)" by fastforce
    have c2: "cc_counter c2 = cc_counter c1" using reconnect_counter [of "at_reconnect io" c1] re by simp
    show ?thesis
    proof (cases r2)
      case (Inl x)
      then show ?thesis using le c2 by (simp add: once e re)
    next
      case (Inr u)
      have "cc_counter (snd (invoke_attempts oj p ios c2)) \<le> cc_counter c2 + length ios"
        using "2.IH" [OF once [symmetric] e(1)] e re Inr "2.prems" by simp
      then show ?thesis using le c2 Inr by (simp add: once e re)
    qed
  next
    case False
    then show ?thesis using le by (cases r) (auto simp: once)
  qed
qed simp

text \<open>
  A call is sent at most once more than the client may reconnect, whatever the connections do, and
  exactly the first attempt counts when there is no refresher or when it ended in anything but a lost
  connection: an answer, an error the silo reports, a timeout.
\<close>

theorem client_retries_bounded:
  assumes "\<forall>i. quiet (at_events (ios i))" "client_invoke oj ios g m args kwargs c = (r, c')"
  shows "cc_counter c' \<le> cc_counter c + 1 + cc_max_reconnect_attempts c
    \<and> (\<forall>r1 c1. invoke_once oj (ios 0) (call_payload g m args kwargs) c = (r1, c1) \<longrightarrow>
         \<not> cc_refresher c1 \<or> cc_max_reconnect_attempts c = 0 \<or> (\<forall>e. r1 = Inl e \<longrightarrow> \<not> is_connection_error e) \<longrightarrow>
         (r, c') = (r1, c1))"
proof
  let ?p = "call_payload g m args kwargs" and ?ios = "map ios [0..<1 + cc_max_reconnect_attempts c]"
  have run: "invoke_attempts oj ?p ?ios c = (r, c')" using assms(2) by (simp add: client_invoke_def)
  show "cc_counter c' \<le> cc_counter c + 1 + cc_max_reconnect_attempts c"
    using invoke_attempts_counter [of ?ios oj ?p c] assms(1) run by auto
  have split: "?ios = ios 0 # map ios [1..<1 + cc_max_reconnect_attempts c]" by (simp add: upt_rec del: upt_Suc)
  show "\<forall>r1 c1. invoke_once oj (ios 0) ?p c = (r1, c1) \<longrightarrow>
         \<not> cc_refresher c1 \<or> cc_max_reconnect_attempts c = 0 \<or> (\<forall>e. r1 = Inl e \<longrightarrow> \<not> is_connection_error e) \<longrightarrow>
         (r, c') = (r1, c1)"
  proof (intro allI impI)
    fix r1 c1
    assume one: "invoke_once oj (ios 0) ?p c = (r1, c1)"
      and stop: "\<not> cc_refresher c1 \<or> cc_max_reconnect_attempts c = 0 \<or> (\<forall>e. r1 = Inl e \<longrightarrow> \<not> is_connection_error e)"
    show "(r, c') = (r1, c1)" using run stop unfolding split by (cases r1) (auto simp: one)
  qed
qed

theorem client_retries_bounded_witness:
  "\<exists>c r c'. cc_connected c \<and> client_invoke demo_codec (\<lambda>_. \<lparr>at_write_ok = True, at_events = [ReadFails None], at_reconnect = demo_io\<rparr>)
      demo_grain (lit ''get'') [] [] c = (r, c') \<and> cc_counter c' \<le> 3"
proof -
  let ?ios = "\<lambda>_ :: nat. \<lparr>at_write_ok = True, at_events = [ReadFails None], at_reconnect = demo_io\<rparr>"
  obtain c where c: "cc_connected c" "cc_counter c = 0" "cc_max_reconnect_attempts c = 2" by (rule connected_demo_client)
  obtain r c' where i: "client_invoke demo_codec ?ios demo_grain (lit ''get'') [] [] c = (r, c')" by fastforce
  have "\<forall>i. quiet (at_events (?ios i))" by (simp add: quiet_def)
  from client_retries_bounded [OF this i] c i show ?thesis by auto
qed

end
