(* ===== verification/FileLock.thy ===== *)
theory FileLock
  imports PyText
begin

text \<open>
  \<^verbatim>\<open>pyleans/server/providers/file_lock.py\<close>: the lock and the atomic write under the file-based
  membership tables. The operating system's part is explicit: a \<^verbatim>\<open>flock\<close> belongs to one open file
  description, a second one is refused, and closing the descriptor releases it. An \<^verbatim>\<open>acquire\<close> is a
  begin and one turn per attempt, so that instances in any processes can interleave.
\<close>

subsection \<open>Locks\<close>

text \<open>Open descriptors with the sidecar file they are for, and the descriptor that holds each lock.\<close>

record lock_os =
  fd_count :: nat
  open_fds :: "(nat, pystr) dict"
  holders :: "(pystr, nat) dict"

record FileLock =
  fl_path :: pystr
  fl_timeout :: seconds
  fl_retry_interval :: seconds
  fl_fd :: "nat option"

definition LOCK_SIDECAR_SUFFIX :: pystr where
  "LOCK_SIDECAR_SUFFIX = lit ''.lock''"

definition lock_path :: "FileLock \<Rightarrow> pystr" where
  "lock_path l = fl_path l @ LOCK_SIDECAR_SUFFIX"

definition new_file_lock :: "pystr \<Rightarrow> seconds \<Rightarrow> seconds \<Rightarrow> FileLock result" where
  "new_file_lock p timeout retry =
     (if timeout \<le> 0 then Inl ValueError
      else if retry \<le> 0 then Inl ValueError
      else Inr \<lparr>fl_path = p, fl_timeout = timeout, fl_retry_interval = retry, fl_fd = None\<rparr>)"

definition is_held :: "FileLock \<Rightarrow> bool" where
  "is_held l \<longleftrightarrow> fl_fd l \<noteq> None"

definition os_open :: "pystr \<Rightarrow> lock_os \<Rightarrow> nat \<times> lock_os" where
  "os_open p os = (fd_count os, os\<lparr>fd_count := fd_count os + 1, open_fds := dset (open_fds os) (fd_count os) p\<rparr>)"

definition try_lock :: "nat \<Rightarrow> lock_os \<Rightarrow> bool \<times> lock_os" where
  "try_lock fd os =
     (case dget (open_fds os) fd of
        None \<Rightarrow> (False, os)
      | Some p \<Rightarrow>
          (case dget (holders os) p of
             None \<Rightarrow> (True, os\<lparr>holders := dset (holders os) p fd\<rparr>)
           | Some h \<Rightarrow> (h = fd, os)))"

definition release_lock :: "nat \<Rightarrow> lock_os \<Rightarrow> lock_os" where
  "release_lock fd os =
     (case dget (open_fds os) fd of
        None \<Rightarrow> os
      | Some p \<Rightarrow> if dget (holders os) p = Some fd then os\<lparr>holders := dpop (holders os) p\<rparr> else os)"

definition os_close :: "nat \<Rightarrow> lock_os \<Rightarrow> lock_os" where
  "os_close fd os = (let os' = release_lock fd os in os'\<lparr>open_fds := dpop (open_fds os') fd\<rparr>)"

text \<open>
  \<^verbatim>\<open>acquire\<close>: a begin opens the sidecar and fixes the deadline; each turn is an attempt, after which
  the task holds the lock, has given up, or sleeps.
\<close>

record acquiring =
  aq_fd :: nat
  aq_deadline :: seconds

definition acquire_begin :: "seconds \<Rightarrow> FileLock \<Rightarrow> lock_os \<Rightarrow> acquiring result \<times> lock_os" where
  "acquire_begin now l os =
     (if is_held l then (Inl RuntimeError, os)
      else (case os_open (lock_path l) os of
              (fd, os') \<Rightarrow> (Inr \<lparr>aq_fd = fd, aq_deadline = now + fl_timeout l\<rparr>, os')))"

datatype acquire_result = Acquired | GaveUp error | Sleeping

definition acquire_turn ::
  "seconds \<Rightarrow> acquiring \<Rightarrow> FileLock \<Rightarrow> lock_os \<Rightarrow> acquire_result \<times> FileLock \<times> lock_os" where
  "acquire_turn now a l os =
     (case try_lock (aq_fd a) os of
        (True, os') \<Rightarrow> (Acquired, l\<lparr>fl_fd := Some (aq_fd a)\<rparr>, os')
      | (False, os') \<Rightarrow>
          if now \<ge> aq_deadline a then (GaveUp MembershipUnavailableError, l, os_close (aq_fd a) os')
          else (Sleeping, l, os'))"

text \<open>A task that is cancelled while it sleeps.\<close>

definition acquire_cancelled :: "acquiring \<Rightarrow> lock_os \<Rightarrow> lock_os" where
  "acquire_cancelled a os = os_close (aq_fd a) os"

definition release :: "FileLock \<Rightarrow> lock_os \<Rightarrow> FileLock \<times> lock_os" where
  "release l os =
     (case fl_fd l of
        None \<Rightarrow> (l, os)
      | Some fd \<Rightarrow> (l\<lparr>fl_fd := None\<rparr>, os_close fd (release_lock fd os)))"

text \<open>
  Locks and tasks of all processes over one operating system. \<open>Crash\<close> is a process that dies with some
  of its instances: its descriptors are closed and nothing of its own runs any more.
\<close>

record lock_world =
  lw_locks :: "FileLock list"
  lw_tasks :: "(nat \<times> acquiring) list"
  lw_os :: lock_os

datatype lock_event =
    BeginAcquire nat seconds
  | AcquireTurn nat seconds
  | CancelAcquire nat
  | ReleaseLock nat
  | Crash "nat list"

definition drop_task :: "nat \<Rightarrow> 'a list \<Rightarrow> 'a list" where
  "drop_task t xs = take t xs @ drop (Suc t) xs"

fun lock_step :: "lock_event \<Rightarrow> lock_world \<Rightarrow> lock_world" where
  "lock_step (BeginAcquire i now) w =
     (if i < length (lw_locks w)
      then (case acquire_begin now (lw_locks w ! i) (lw_os w) of
              (Inl e, os) \<Rightarrow> w\<lparr>lw_os := os\<rparr>
            | (Inr a, os) \<Rightarrow> w\<lparr>lw_os := os, lw_tasks := lw_tasks w @ [(i, a)]\<rparr>)
      else w)"
| "lock_step (AcquireTurn t now) w =
     (if t < length (lw_tasks w)
      then (case lw_tasks w ! t of
              (i, a) \<Rightarrow>
                (case acquire_turn now a (lw_locks w ! i) (lw_os w) of
                   (r, l, os) \<Rightarrow>
                     w\<lparr>lw_locks := (lw_locks w)[i := l], lw_os := os,
                       lw_tasks := (if r = Sleeping then lw_tasks w else drop_task t (lw_tasks w))\<rparr>))
      else w)"
| "lock_step (CancelAcquire t) w =
     (if t < length (lw_tasks w)
      then w\<lparr>lw_os := acquire_cancelled (snd (lw_tasks w ! t)) (lw_os w), lw_tasks := drop_task t (lw_tasks w)\<rparr>
      else w)"
| "lock_step (ReleaseLock i) w =
     (if i < length (lw_locks w)
      then (case release (lw_locks w ! i) (lw_os w) of
              (l, os) \<Rightarrow> w\<lparr>lw_locks := (lw_locks w)[i := l], lw_os := os\<rparr>)
      else w)"
| "lock_step (Crash dead) w =
     (let fds = map (aq_fd \<circ> snd) (filter (\<lambda>(i, a). i \<in> set dead) (lw_tasks w))
                @ List.map_filter (\<lambda>i. if i < length (lw_locks w) then fl_fd (lw_locks w ! i) else None) dead
      in w\<lparr>lw_os := fold os_close fds (lw_os w),
           lw_tasks := filter (\<lambda>(i, a). i \<notin> set dead) (lw_tasks w),
           lw_locks := map (\<lambda>(i, l). if i \<in> set dead then l\<lparr>fl_fd := None\<rparr> else l)
                         (zip [0..<length (lw_locks w)] (lw_locks w))\<rparr>)"

definition lock_run :: "lock_event list \<Rightarrow> lock_world \<Rightarrow> lock_world" where
  "lock_run steps w = fold lock_step steps w"

subsection \<open>Atomic write\<close>

type_synonym file_path = "pystr \<times> pystr"

type_synonym file_system = "(file_path, bytes) dict"

text \<open>The sibling the data goes to first: parent directory and name are kept apart.\<close>

definition tmp_path :: "nat \<Rightarrow> file_path \<Rightarrow> file_path" where
  "tmp_path pid target = (fst target, lit ''.'' @ snd target @ lit ''.'' @ dec pid @ lit ''.tmp'')"

text \<open>What the system calls do: how much each write takes (nothing if it raises), and which calls succeed.\<close>

record write_io =
  io_open_ok :: bool
  io_chunk :: "nat \<Rightarrow> nat option"
  io_fsync_ok :: bool
  io_replace_ok :: bool

text \<open>The loop over short writes, with the files after every call.\<close>

function write_loop ::
  "write_io \<Rightarrow> nat \<Rightarrow> file_path \<Rightarrow> bytes \<Rightarrow> nat \<Rightarrow> file_system \<Rightarrow> bool \<times> file_system list" where
  "write_loop io k tmp data written fs =
     (if length data \<le> written then (True, [])
      else (case io_chunk io k of
              None \<Rightarrow> (False, [])
            | Some n \<Rightarrow>
                let chunk = min n (length data - written); fs' = dset fs tmp (take (written + chunk) data)
                in if chunk = 0 then (False, [])
                   else (case write_loop io (Suc k) tmp data (written + chunk) fs' of
                           (ok, seen) \<Rightarrow> (ok, fs' # seen))))"
  by pat_completeness auto
termination
  by (relation "measure (\<lambda>(io, k, tmp, data, written, fs). length data - written)") auto

declare write_loop.simps [simp del]

definition cleanup :: "file_path \<Rightarrow> file_system \<Rightarrow> file_system" where
  "cleanup tmp fs = dpop fs tmp"

text \<open>\<^verbatim>\<open>os.replace\<close> moves the temporary file over the target in one step.\<close>

definition os_replace :: "file_path \<Rightarrow> file_path \<Rightarrow> file_system \<Rightarrow> file_system" where
  "os_replace tmp target fs = (case dget fs tmp of None \<Rightarrow> fs | Some d \<Rightarrow> dpop (dset fs target d) tmp)"

text \<open>Whether the write succeeded, and the files after each system call, the last ones being the outcome.\<close>

definition atomic_write ::
  "write_io \<Rightarrow> file_path \<Rightarrow> file_path \<Rightarrow> bytes \<Rightarrow> file_system \<Rightarrow> unit result \<times> file_system list" where
  "atomic_write io tmp target data fs =
     (if \<not> io_open_ok io then (Inl OtherException, [cleanup tmp fs])
      else
        let fs1 = dset fs tmp []
        in (case write_loop io 0 tmp data 0 fs1 of
              (ok, seen) \<Rightarrow>
                let fs2 = last (fs1 # seen)
                in if ok \<and> io_fsync_ok io \<and> io_replace_ok io
                   then (Inr (), fs1 # seen @ [os_replace tmp target fs2])
                   else (Inl OtherException, fs1 # seen @ [cleanup tmp fs2])))"

subsection \<open>Mutual exclusion\<close>

definition os_ok :: "lock_os \<Rightarrow> bool" where
  "os_ok os \<longleftrightarrow> (\<forall>fd p. dget (open_fds os) fd = Some p \<longrightarrow> fd < fd_count os)
     \<and> (\<forall>p fd. dget (holders os) p = Some fd \<longrightarrow> dget (open_fds os) fd = Some p)"

lemma os_close_simps:
  assumes "os_ok os"
  shows "dget (open_fds (os_close fd os)) x = (if x = fd then None else dget (open_fds os) x)"
    and "dget (holders (os_close fd os)) p = (if dget (holders os) p = Some fd then None else dget (holders os) p)"
    and "fd_count (os_close fd os) = fd_count os" and "os_ok (os_close fd os)"
proof -
  show 1: "dget (open_fds (os_close fd os)) x = (if x = fd then None else dget (open_fds os) x)" for x
    by (simp add: os_close_def release_lock_def Let_def split: option.split)
  show 2: "dget (holders (os_close fd os)) p = (if dget (holders os) p = Some fd then None else dget (holders os) p)" for p
    using assms by (auto simp: os_close_def release_lock_def os_ok_def Let_def split: option.split)
  show 3: "fd_count (os_close fd os) = fd_count os"
    by (simp add: os_close_def release_lock_def Let_def split: option.split)
  show "os_ok (os_close fd os)"
    using assms unfolding os_ok_def 1 2 3 by (auto split: if_splits)
qed

lemma close_all_simps:
  "os_ok os \<Longrightarrow> os_ok (fold os_close fds os)
     \<and> (\<forall>x. dget (open_fds (fold os_close fds os)) x = (if x \<in> set fds then None else dget (open_fds os) x))
     \<and> (\<forall>p. dget (holders (fold os_close fds os)) p =
          (case dget (holders os) p of None \<Rightarrow> None | Some h \<Rightarrow> if h \<in> set fds then None else Some h))"
proof (induction fds arbitrary: os)
  case (Cons fd fds)
  note IH = Cons.IH [OF os_close_simps(4) [OF Cons.prems, of fd]]
  show ?case using IH by (auto simp: os_close_simps(1,2) [OF Cons.prems] split: option.split)
qed (simp split: option.split)

text \<open>Every descriptor is a task's, which does not hold its lock, or an instance's, which does.\<close>

definition lock_ok :: "lock_world \<Rightarrow> bool" where
  "lock_ok w \<longleftrightarrow> os_ok (lw_os w)
     \<and> (\<forall>(i, a) \<in> set (lw_tasks w). i < length (lw_locks w)
          \<and> dget (open_fds (lw_os w)) (aq_fd a) = Some (lock_path (lw_locks w ! i))
          \<and> (\<forall>p. dget (holders (lw_os w)) p \<noteq> Some (aq_fd a)))
     \<and> distinct (map (aq_fd \<circ> snd) (lw_tasks w))
     \<and> (\<forall>i < length (lw_locks w). \<forall>fd. fl_fd (lw_locks w ! i) = Some fd \<longrightarrow>
          dget (holders (lw_os w)) (lock_path (lw_locks w ! i)) = Some fd)
     \<and> (\<forall>i < length (lw_locks w). \<forall>j < length (lw_locks w). fl_fd (lw_locks w ! i) \<noteq> None \<longrightarrow>
          fl_fd (lw_locks w ! i) = fl_fd (lw_locks w ! j) \<longrightarrow> i = j)
     \<and> (\<forall>p fd. dget (holders (lw_os w)) p = Some fd \<longrightarrow> (\<exists>i < length (lw_locks w). fl_fd (lw_locks w ! i) = Some fd))"

lemma lock_okI:
  assumes "os_ok (lw_os w)"
    "\<And>i a. (i, a) \<in> set (lw_tasks w) \<Longrightarrow> i < length (lw_locks w)
       \<and> dget (open_fds (lw_os w)) (aq_fd a) = Some (lock_path (lw_locks w ! i))
       \<and> (\<forall>p. dget (holders (lw_os w)) p \<noteq> Some (aq_fd a))"
    "distinct (map (aq_fd \<circ> snd) (lw_tasks w))"
    "\<And>i fd. i < length (lw_locks w) \<Longrightarrow> fl_fd (lw_locks w ! i) = Some fd \<Longrightarrow>
       dget (holders (lw_os w)) (lock_path (lw_locks w ! i)) = Some fd"
    "\<And>i j fd. i < length (lw_locks w) \<Longrightarrow> j < length (lw_locks w) \<Longrightarrow> fl_fd (lw_locks w ! i) = Some fd \<Longrightarrow>
       fl_fd (lw_locks w ! j) = Some fd \<Longrightarrow> i = j"
    "\<And>p fd. dget (holders (lw_os w)) p = Some fd \<Longrightarrow> \<exists>i < length (lw_locks w). fl_fd (lw_locks w ! i) = Some fd"
  shows "lock_ok w"
  unfolding lock_ok_def
proof (intro conjI)
  show "\<forall>i < length (lw_locks w). \<forall>j < length (lw_locks w). fl_fd (lw_locks w ! i) \<noteq> None \<longrightarrow>
          fl_fd (lw_locks w ! i) = fl_fd (lw_locks w ! j) \<longrightarrow> i = j" using assms(5) by (metis not_None_eq)
qed (use assms in auto)

lemma lock_okD:
  assumes "lock_ok w"
  shows "os_ok (lw_os w)"
    "(i, a) \<in> set (lw_tasks w) \<Longrightarrow> i < length (lw_locks w)
       \<and> dget (open_fds (lw_os w)) (aq_fd a) = Some (lock_path (lw_locks w ! i))
       \<and> (\<forall>p. dget (holders (lw_os w)) p \<noteq> Some (aq_fd a))"
    "distinct (map (aq_fd \<circ> snd) (lw_tasks w))"
    "i < length (lw_locks w) \<Longrightarrow> fl_fd (lw_locks w ! i) = Some fd \<Longrightarrow>
       dget (holders (lw_os w)) (lock_path (lw_locks w ! i)) = Some fd"
    "i < length (lw_locks w) \<Longrightarrow> j < length (lw_locks w) \<Longrightarrow> fl_fd (lw_locks w ! i) = Some fd \<Longrightarrow>
       fl_fd (lw_locks w ! j) = Some fd \<Longrightarrow> i = j"
    "dget (holders (lw_os w)) p = Some fd \<Longrightarrow> \<exists>i < length (lw_locks w). fl_fd (lw_locks w ! i) = Some fd"
  using assms unfolding lock_ok_def by (blast, blast, blast, blast, metis option.distinct(1), blast)

lemma drop_task_facts:
  assumes "t < length xs"
  shows "set (drop_task t xs) \<subseteq> set xs" "distinct (map f xs) \<Longrightarrow> distinct (map f (drop_task t xs))"
    "distinct (map f xs) \<Longrightarrow> x \<in> set (drop_task t xs) \<Longrightarrow> f x \<noteq> f (xs ! t)"
proof -
  note split = id_take_nth_drop [OF assms]
  show "set (drop_task t xs) \<subseteq> set xs" by (auto simp: drop_task_def dest: in_set_takeD in_set_dropD)
  have s: "distinct (map f xs) = distinct (map f (take t xs @ xs ! t # drop (Suc t) xs))" using split by simp
  show "distinct (map f xs) \<Longrightarrow> distinct (map f (drop_task t xs))"
    unfolding s by (auto simp: drop_task_def)
  show "distinct (map f xs) \<Longrightarrow> x \<in> set (drop_task t xs) \<Longrightarrow> f x \<noteq> f (xs ! t)"
    unfolding s by (auto simp: drop_task_def) (metis imageI)+
qed

lemma lock_path_fd [simp]: "lock_path (l\<lparr>fl_fd := fd\<rparr>) = lock_path l"
  by (simp add: lock_path_def)

lemma lock_ok_begin:
  assumes "lock_ok w" "i < length (lw_locks w)"
  shows "lock_ok (lock_step (BeginAcquire i now) w)"
proof (cases "is_held (lw_locks w ! i)")
  case True
  then show ?thesis using assms by (simp add: acquire_begin_def)
next
  case False
  note D = lock_okD [OF assms(1)]
  let ?fd = "fd_count (lw_os w)"
  let ?os = "(lw_os w)\<lparr>fd_count := ?fd + 1, open_fds := dset (open_fds (lw_os w)) ?fd (lock_path (lw_locks w ! i))\<rparr>"
  have fresh: "dget (open_fds (lw_os w)) ?fd = None" "dget (holders (lw_os w)) p \<noteq> Some ?fd" for p
    using D(1) unfolding os_ok_def by (metis less_irrefl not_None_eq)+
  have step: "lock_step (BeginAcquire i now) w = w\<lparr>lw_os := ?os,
      lw_tasks := lw_tasks w @ [(i, \<lparr>aq_fd = ?fd, aq_deadline = now + fl_timeout (lw_locks w ! i)\<rparr>)]\<rparr>"
    using assms(2) False by (simp add: acquire_begin_def os_open_def)
  have new: "aq_fd a \<noteq> ?fd" if "(j, a) \<in> set (lw_tasks w)" for j a using D(2) [OF that] fresh(1) by auto
  show ?thesis
    unfolding step
  proof (rule lock_okI)
    show "os_ok (lw_os (w\<lparr>lw_os := ?os, lw_tasks := lw_tasks w @ [(i, \<lparr>aq_fd = ?fd, aq_deadline = now + fl_timeout (lw_locks w ! i)\<rparr>)]\<rparr>))"
      using D(1) fresh by (auto simp: os_ok_def less_Suc_eq)
  next
    show "distinct (map (aq_fd \<circ> snd) (lw_tasks (w\<lparr>lw_os := ?os,
        lw_tasks := lw_tasks w @ [(i, \<lparr>aq_fd = ?fd, aq_deadline = now + fl_timeout (lw_locks w ! i)\<rparr>)]\<rparr>)))"
      using D(3) new by (auto, metis)
  qed (use D fresh new assms(2) in \<open>auto\<close>)
qed

lemma lock_ok_drop:
  assumes "lock_ok w" "t < length (lw_tasks w)"
  shows "lock_ok (w\<lparr>lw_os := os_close (aq_fd (snd (lw_tasks w ! t))) (lw_os w), lw_tasks := drop_task t (lw_tasks w)\<rparr>)"
proof -
  let ?w = "w\<lparr>lw_os := os_close (aq_fd (snd (lw_tasks w ! t))) (lw_os w), lw_tasks := drop_task t (lw_tasks w)\<rparr>"
  note D = lock_okD [OF assms(1)] and C = os_close_simps [OF lock_okD(1) [OF assms(1)]]
  obtain i a where ia: "lw_tasks w ! t = (i, a)" by fastforce
  have "(i, a) \<in> set (lw_tasks w)" using assms(2) ia nth_mem by metis
  note this_task = D(2) [OF this]
  have other: "x \<in> set (lw_tasks w) \<and> aq_fd (snd x) \<noteq> aq_fd a" if "x \<in> set (drop_task t (lw_tasks w))" for x
    using drop_task_facts(1) [OF assms(2)] drop_task_facts(3) [OF assms(2), where f = "aq_fd \<circ> snd"] D(3) that ia by (metis comp_apply snd_conv subsetD)
  have held: "fl_fd (lw_locks w ! j) \<noteq> Some (aq_fd a)" if "j < length (lw_locks w)" for j
    using D(4) [OF that] this_task by blast
  show ?thesis
  proof (rule lock_okI)
    fix j b
    assume "(j, b) \<in> set (lw_tasks ?w)"
    then have "(j, b) \<in> set (lw_tasks w)" "aq_fd b \<noteq> aq_fd a" using other by fastforce+
    then show "j < length (lw_locks ?w)
        \<and> dget (open_fds (lw_os ?w)) (aq_fd b)
          = Some (lock_path (lw_locks ?w ! j))
        \<and> (\<forall>p. dget (holders (lw_os ?w)) p
          \<noteq> Some (aq_fd b))"
      using D(2) this_task by (simp add: C ia)
  next
    fix j k fd
    assume "j < length (lw_locks ?w)"
      "k < length (lw_locks ?w)"
      "fl_fd (lw_locks ?w ! j) = Some fd"
      "fl_fd (lw_locks ?w ! k) = Some fd"
    then show "j = k" using D(5) [of j k fd] by simp
  qed (use D(3,4,6) C held this_task ia drop_task_facts(2) [OF assms(2), where f = "aq_fd \<circ> snd"] in \<open>auto split: if_splits\<close>)
qed

lemma lock_ok_turn:
  assumes "lock_ok w" "t < length (lw_tasks w)"
  shows "lock_ok (lock_step (AcquireTurn t now) w)"
proof -
  note D = lock_okD [OF assms(1)]
  obtain i a where ia: "lw_tasks w ! t = (i, a)" by fastforce
  have mem: "(i, a) \<in> set (lw_tasks w)" using assms(2) ia nth_mem by metis
  note task = D(2) [OF mem]
  let ?p = "lock_path (lw_locks w ! i)"
  show ?thesis
  proof (cases "dget (holders (lw_os w)) ?p")
    case (Some h)
    then have h: "h \<noteq> aq_fd a" using task by auto
    then have tr: "try_lock (aq_fd a) (lw_os w) = (False, lw_os w)" using task Some by (simp add: try_lock_def)
    show ?thesis
    proof (cases "now \<ge> aq_deadline a")
      case True
      then show ?thesis using lock_ok_drop [OF assms] assms(2) task
        by (simp add: ia acquire_turn_def tr)
    next
      case False
      then show ?thesis using assms by (simp add: ia acquire_turn_def tr)
    qed
  next
    case None
    let ?w = "w\<lparr>lw_locks := (lw_locks w)[i := (lw_locks w ! i)\<lparr>fl_fd := Some (aq_fd a)\<rparr>],
        lw_os := (lw_os w)\<lparr>holders := dset (holders (lw_os w)) ?p (aq_fd a)\<rparr>, lw_tasks := drop_task t (lw_tasks w)\<rparr>"
    have step: "lock_step (AcquireTurn t now) w = ?w"
      using assms(2) task None by (simp add: ia acquire_turn_def try_lock_def)
    have free: "fl_fd (lw_locks w ! i) = None" using D(4) [of i] None task by (metis not_None_eq)
    have notheld: "fl_fd (lw_locks w ! j) \<noteq> Some (aq_fd a)" if "j < length (lw_locks w)" for j
      using D(4) [OF that] task by blast
    have other: "x \<in> set (lw_tasks w) \<and> aq_fd (snd x) \<noteq> aq_fd a" if "x \<in> set (drop_task t (lw_tasks w))" for x
      using drop_task_facts(1) [OF assms(2)] drop_task_facts(3) [OF assms(2), where f = "aq_fd \<circ> snd"] D(3) that ia by (metis comp_apply snd_conv subsetD)
    have paths: "lock_path (lw_locks ?w ! j) = lock_path (lw_locks w ! j)" for j
      using task by (cases "j = i") simp_all
    show ?thesis
      unfolding step
    proof (rule lock_okI)
      show "os_ok (lw_os ?w)" using D(1) task by (auto simp: os_ok_def)
      show "distinct (map (aq_fd \<circ> snd) (lw_tasks ?w))"
        using drop_task_facts(2) [OF assms(2), where f = "aq_fd \<circ> snd"] D(3) by simp
    next
      fix j b assume "(j, b) \<in> set (lw_tasks ?w)"
      then have "(j, b) \<in> set (lw_tasks w)" "aq_fd b \<noteq> aq_fd a" using other by fastforce+
      then show "j < length (lw_locks ?w) \<and> dget (open_fds (lw_os ?w)) (aq_fd b) = Some (lock_path (lw_locks ?w ! j))
          \<and> (\<forall>p. dget (holders (lw_os ?w)) p \<noteq> Some (aq_fd b))"
        using D(2) [of j b] unfolding paths by simp
    next
      fix j fd assume "j < length (lw_locks ?w)" "fl_fd (lw_locks ?w ! j) = Some fd"
      then show "dget (holders (lw_os ?w)) (lock_path (lw_locks ?w ! j)) = Some fd"
        unfolding paths using D(4) [of j fd] None task by (cases "j = i") auto
    next
      fix j k fd assume "j < length (lw_locks ?w)" "k < length (lw_locks ?w)" "fl_fd (lw_locks ?w ! j) = Some fd" "fl_fd (lw_locks ?w ! k) = Some fd"
      then show "j = k" using D(5) [of j k fd] notheld task by (cases "j = i"; cases "k = i") auto
    next
      fix p fd assume h: "dget (holders (lw_os ?w)) p = Some fd"
      show "\<exists>j < length (lw_locks ?w). fl_fd (lw_locks ?w ! j) = Some fd"
      proof (cases "fd = aq_fd a")
        case True
        then show ?thesis using task by (intro exI [of _ i]) simp
      next
        case False
        then have "dget (holders (lw_os w)) p = Some fd" using h by (auto split: if_splits)
        then obtain j where j: "j < length (lw_locks w)" "fl_fd (lw_locks w ! j) = Some fd" using D(6) by blast
        then have "j \<noteq> i" using free by auto
        then show ?thesis using j by (intro exI [of _ j]) simp
      qed
    qed
  qed
qed

lemma lock_ok_release:
  assumes "lock_ok w" "i < length (lw_locks w)"
  shows "lock_ok (lock_step (ReleaseLock i) w)"
proof (cases "fl_fd (lw_locks w ! i)")
  case None
  then show ?thesis using assms by (simp add: release_def)
next
  case (Some fd)
  note D = lock_okD [OF assms(1)] and C = os_close_simps [OF lock_okD(1) [OF assms(1)]]
  have h: "dget (holders (lw_os w)) (lock_path (lw_locks w ! i)) = Some fd" using D(4) [OF assms(2) Some] .
  have fd: "dget (open_fds (lw_os w)) fd = Some (lock_path (lw_locks w ! i))" using D(1) h by (simp add: os_ok_def)
  have twice: "os_close fd (release_lock fd (lw_os w)) = os_close fd (lw_os w)"
    by (simp add: os_close_def release_lock_def fd h Let_def)
  let ?w = "w\<lparr>lw_locks := (lw_locks w)[i := (lw_locks w ! i)\<lparr>fl_fd := None\<rparr>], lw_os := os_close fd (lw_os w)\<rparr>"
  have step: "lock_step (ReleaseLock i) w = ?w" using assms(2) Some by (simp add: release_def twice)
  have paths: "lock_path (lw_locks ?w ! j) = lock_path (lw_locks w ! j)" for j
    using assms(2) by (cases "j = i") simp_all
  have tasks: "aq_fd a \<noteq> fd" if "(j, a) \<in> set (lw_tasks w)" for j a using D(2) [OF that] h by auto
  show ?thesis
    unfolding step
  proof (rule lock_okI)
    fix j a assume "(j, a) \<in> set (lw_tasks ?w)"
    then have "(j, a) \<in> set (lw_tasks w)" by simp
    then show "j < length (lw_locks ?w) \<and> dget (open_fds (lw_os ?w)) (aq_fd a) = Some (lock_path (lw_locks ?w ! j))
        \<and> (\<forall>p. dget (holders (lw_os ?w)) p \<noteq> Some (aq_fd a))"
      unfolding paths using D(2) [of j a] tasks by (auto simp: C)
  next
    fix j g assume "j < length (lw_locks ?w)" "fl_fd (lw_locks ?w ! j) = Some g"
    then have "j < length (lw_locks w)" "j \<noteq> i" "fl_fd (lw_locks w ! j) = Some g" using assms(2) by (cases "j = i"; auto)+
    then show "dget (holders (lw_os ?w)) (lock_path (lw_locks ?w ! j)) = Some g"
      unfolding paths using D(4) [of j g] D(5) [of j i g] Some assms(2) by (cases "g = fd") (simp_all add: C)
  next
    fix p g assume "dget (holders (lw_os ?w)) p = Some g"
    then have g: "g \<noteq> fd" "dget (holders (lw_os w)) p = Some g" by (auto simp: C split: if_splits)
    then obtain j where "j < length (lw_locks w)" "fl_fd (lw_locks w ! j) = Some g" using D(6) by blast
    then show "\<exists>j < length (lw_locks ?w). fl_fd (lw_locks ?w ! j) = Some g"
      using g(1) Some by (cases "j = i") (auto intro!: exI [of _ j])
  next
    fix j k g assume "j < length (lw_locks ?w)" "k < length (lw_locks ?w)" "fl_fd (lw_locks ?w ! j) = Some g" "fl_fd (lw_locks ?w ! k) = Some g"
    then show "j = k" using D(5) [of j k g] assms(2) by (cases "j = i"; cases "k = i") auto
  qed (use D(3) in \<open>simp_all add: C\<close>)
qed

lemma lock_ok_crash:
  assumes "lock_ok w"
  shows "lock_ok (lock_step (Crash dead) w)"
proof -
  note D = lock_okD [OF assms]
  define fds where "fds = map (aq_fd \<circ> snd) (filter (\<lambda>(i, a). i \<in> set dead) (lw_tasks w))
    @ List.map_filter (\<lambda>i. if i < length (lw_locks w) then fl_fd (lw_locks w ! i) else None) dead"
  let ?locks = "map (\<lambda>(i, l). if i \<in> set dead then l\<lparr>fl_fd := None\<rparr> else l) (zip [0..<length (lw_locks w)] (lw_locks w))"
  let ?w = "w\<lparr>lw_os := fold os_close fds (lw_os w), lw_tasks := filter (\<lambda>(i, a). i \<notin> set dead) (lw_tasks w), lw_locks := ?locks\<rparr>"
  have step: "lock_step (Crash dead) w = ?w" by (simp add: fds_def Let_def)
  note C = close_all_simps [OF D(1), of fds]
  have lk: "lw_locks ?w ! i = (if i \<in> set dead then (lw_locks w ! i)\<lparr>fl_fd := None\<rparr> else lw_locks w ! i)" if "i < length (lw_locks w)" for i
    using that by simp
  have path: "lock_path (lw_locks ?w ! i) = lock_path (lw_locks w ! i)" if "i < length (lw_locks w)" for i
    unfolding lk [OF that] by simp
  have mem: "fd \<in> set fds \<longleftrightarrow> (\<exists>(i, a) \<in> set (lw_tasks w). i \<in> set dead \<and> fd = aq_fd a)
      \<or> (\<exists>i < length (lw_locks w). i \<in> set dead \<and> fl_fd (lw_locks w ! i) = Some fd)" for fd
    by (force simp: fds_def List.map_filter_def image_iff split: if_splits)
  have held: "fl_fd (lw_locks w ! j) \<noteq> Some (aq_fd a)" if "j < length (lw_locks w)" "(i, a) \<in> set (lw_tasks w)" for i j a
    using D(4) [OF that(1)] D(2) [OF that(2)] by blast
  have inj: "(i, a) = (j, b)" if "(i, a) \<in> set (lw_tasks w)" "(j, b) \<in> set (lw_tasks w)" "aq_fd a = aq_fd b" for i a j b
    using inj_onD [OF distinct_map [THEN iffD1, OF D(3), THEN conjunct2], of "(i, a)" "(j, b)"] that by simp
  have live_task: "aq_fd a \<notin> set fds" if "(i, a) \<in> set (lw_tasks w)" "i \<notin> set dead" for i a
  proof
    assume "aq_fd a \<in> set fds"
    then consider j b where "(j, b) \<in> set (lw_tasks w)" "j \<in> set dead" "aq_fd a = aq_fd b"
      | j where "j < length (lw_locks w)" "fl_fd (lw_locks w ! j) = Some (aq_fd a)" unfolding mem by blast
    then show False using inj [OF that(1)] that(2) held [OF _ that(1)] by cases blast+
  qed
  have live_lock: "fd \<notin> set fds" if "i < length (lw_locks w)" "i \<notin> set dead" "fl_fd (lw_locks w ! i) = Some fd" for i fd
    using that held D(5) [of i _ fd] unfolding mem by fast
  show ?thesis
    unfolding step
  proof (rule lock_okI)
    show "os_ok (lw_os ?w)" using C by simp
    show "distinct (map (aq_fd \<circ> snd) (lw_tasks ?w))" using D(3) by (simp add: distinct_map_filter)
  next
    fix i a assume "(i, a) \<in> set (lw_tasks ?w)"
    then have t: "(i, a) \<in> set (lw_tasks w)" "i \<notin> set dead" by auto
    then show "i < length (lw_locks ?w) \<and> dget (open_fds (lw_os ?w)) (aq_fd a) = Some (lock_path (lw_locks ?w ! i))
        \<and> (\<forall>p. dget (holders (lw_os ?w)) p \<noteq> Some (aq_fd a))"
      using D(2) [OF t(1)] live_task [OF t] C path [of i] by (auto split: option.splits)
  next
    fix i fd assume i: "i < length (lw_locks ?w)" "fl_fd (lw_locks ?w ! i) = Some fd"
    then have l: "i < length (lw_locks w)" by simp
    then have "i \<notin> set dead" "fl_fd (lw_locks w ! i) = Some fd" using i(2) unfolding lk [OF l] by (auto split: if_splits)
    then show "dget (holders (lw_os ?w)) (lock_path (lw_locks ?w ! i)) = Some fd"
      using D(4) [OF l] live_lock [OF l] C unfolding path [OF l] by simp
  next
    fix i j fd assume "i < length (lw_locks ?w)" "j < length (lw_locks ?w)" "fl_fd (lw_locks ?w ! i) = Some fd" "fl_fd (lw_locks ?w ! j) = Some fd"
    moreover from this have "i < length (lw_locks w)" "j < length (lw_locks w)" by simp_all
    ultimately show "i = j" using lk D(5) [of i j fd] by (auto split: if_splits)
  next
    fix p fd assume "dget (holders (lw_os ?w)) p = Some fd"
    then have h: "dget (holders (lw_os w)) p = Some fd" "fd \<notin> set fds" using C by (auto split: option.splits if_splits)
    then obtain i where i: "i < length (lw_locks w)" "fl_fd (lw_locks w ! i) = Some fd" using D(6) by blast
    then have "i \<notin> set dead" using h(2) mem by blast
    then show "\<exists>i < length (lw_locks ?w). fl_fd (lw_locks ?w ! i) = Some fd" using i lk [OF i(1)] by (intro exI [of _ i]) simp
  qed
qed

lemma lock_step_ok: "lock_ok w \<Longrightarrow> lock_ok (lock_step ev w)"
proof (cases ev)
  case (BeginAcquire i now)
  then show "lock_ok w \<Longrightarrow> ?thesis" using lock_ok_begin by (cases "i < length (lw_locks w)") auto
next
  case (AcquireTurn t now)
  then show "lock_ok w \<Longrightarrow> ?thesis" using lock_ok_turn by (cases "t < length (lw_tasks w)") auto
next
  case (CancelAcquire t)
  then show "lock_ok w \<Longrightarrow> ?thesis" using lock_ok_drop by (auto simp: acquire_cancelled_def)
next
  case (ReleaseLock i)
  then show "lock_ok w \<Longrightarrow> ?thesis" using lock_ok_release by (cases "i < length (lw_locks w)") auto
next
  case (Crash dead)
  then show "lock_ok w \<Longrightarrow> ?thesis" using lock_ok_crash by simp
qed

definition fresh_locks :: "FileLock list \<Rightarrow> lock_world" where
  "fresh_locks ls =
     \<lparr>lw_locks = map (\<lambda>l. l\<lparr>fl_fd := None\<rparr>) ls, lw_tasks = [], lw_os = \<lparr>fd_count = 0, open_fds = [], holders = []\<rparr>\<rparr>"

lemma lock_run_ok: "lock_ok (lock_run steps (fresh_locks ls))"
proof -
  have "lock_ok (fresh_locks ls)" by (simp add: lock_ok_def fresh_locks_def os_ok_def)
  then have "lock_ok w \<Longrightarrow> lock_ok (fold lock_step steps w)" for w
    by (induction steps arbitrary: w) (simp_all add: lock_step_ok)
  then show ?thesis using \<open>lock_ok (fresh_locks ls)\<close> by (simp add: lock_run_def)
qed

text \<open>
  C16. However the instances of all processes acquire, release, give up, are cancelled or die: at most one
  instance per path holds the lock, and when none does, the next attempt of any waiting task gets it.
\<close>

theorem file_lock_excludes:
  assumes "w = lock_run steps (fresh_locks ls)"
  shows "(\<forall>i < length (lw_locks w). \<forall>j < length (lw_locks w). is_held (lw_locks w ! i) \<and> is_held (lw_locks w ! j)
        \<and> lock_path (lw_locks w ! i) = lock_path (lw_locks w ! j) \<longrightarrow> i = j)
    \<and> (\<forall>(i, a) \<in> set (lw_tasks w). (\<forall>j < length (lw_locks w). lock_path (lw_locks w ! j) = lock_path (lw_locks w ! i) \<longrightarrow> \<not> is_held (lw_locks w ! j))
        \<longrightarrow> (\<forall>now. fst (acquire_turn now a (lw_locks w ! i) (lw_os w)) = Acquired))"
proof
  have ok: "lock_ok w" using lock_run_ok assms by simp
  note D = lock_okD [OF ok]
  show "\<forall>i < length (lw_locks w). \<forall>j < length (lw_locks w). is_held (lw_locks w ! i) \<and> is_held (lw_locks w ! j)
        \<and> lock_path (lw_locks w ! i) = lock_path (lw_locks w ! j) \<longrightarrow> i = j"
  proof (intro allI impI)
    fix i j assume l: "i < length (lw_locks w)" "j < length (lw_locks w)"
      and h: "is_held (lw_locks w ! i) \<and> is_held (lw_locks w ! j) \<and> lock_path (lw_locks w ! i) = lock_path (lw_locks w ! j)"
    then obtain f g where "fl_fd (lw_locks w ! i) = Some f" "fl_fd (lw_locks w ! j) = Some g" by (auto simp: is_held_def)
    then show "i = j" using D(4) [OF l(1)] D(4) [OF l(2)] D(5) [OF l] h by simp
  qed
  show "\<forall>(i, a) \<in> set (lw_tasks w). (\<forall>j < length (lw_locks w). lock_path (lw_locks w ! j) = lock_path (lw_locks w ! i) \<longrightarrow> \<not> is_held (lw_locks w ! j))
        \<longrightarrow> (\<forall>now. fst (acquire_turn now a (lw_locks w ! i) (lw_os w)) = Acquired)"
  proof safe
    fix i a now
    assume t: "(i, a) \<in> set (lw_tasks w)"
      and free: "\<forall>j < length (lw_locks w). lock_path (lw_locks w ! j) = lock_path (lw_locks w ! i) \<longrightarrow> \<not> is_held (lw_locks w ! j)"
    have "dget (holders (lw_os w)) (lock_path (lw_locks w ! i)) = None"
    proof (rule ccontr)
      assume "dget (holders (lw_os w)) (lock_path (lw_locks w ! i)) \<noteq> None"
      then obtain fd where fd: "dget (holders (lw_os w)) (lock_path (lw_locks w ! i)) = Some fd" by auto
      obtain j where j: "j < length (lw_locks w)" "fl_fd (lw_locks w ! j) = Some fd" using D(6) [OF fd] by blast
      have "dget (open_fds (lw_os w)) fd = Some (lock_path (lw_locks w ! j))"
        "dget (open_fds (lw_os w)) fd = Some (lock_path (lw_locks w ! i))"
        using D(1) D(4) [OF j] fd unfolding os_ok_def by blast+
      then show False using free j by (simp add: is_held_def)
    qed
    then show "fst (acquire_turn now a (lw_locks w ! i) (lw_os w)) = Acquired"
      using D(2) [OF t] by (simp add: acquire_turn_def try_lock_def)
  qed
qed

definition demo_lock :: FileLock where
  "demo_lock = \<lparr>fl_path = lit ''m.yaml'', fl_timeout = 5, fl_retry_interval = 1, fl_fd = None\<rparr>"

theorem file_lock_excludes_witness:
  "\<exists>(w :: lock_world) a. lw_tasks w = [(1, a)] \<and> is_held (lw_locks w ! 0) \<and> \<not> is_held (lw_locks w ! 1)
     \<and> lock_path (lw_locks w ! 0) = lock_path (lw_locks w ! 1)"
proof -
  define w where "w = lock_run [BeginAcquire 0 0, BeginAcquire 1 0, AcquireTurn 0 0] (fresh_locks [demo_lock, demo_lock])"
  have w: "lw_tasks w = [(1, \<lparr>aq_fd = 1, aq_deadline = 5\<rparr>)]" "length (lw_locks w) = 2"
    "lock_path (lw_locks w ! 0) = lock_path (lw_locks w ! 1)" "is_held (lw_locks w ! 0)"
    by (simp_all add: w_def lock_run_def fresh_locks_def demo_lock_def acquire_begin_def is_held_def os_open_def
        acquire_turn_def try_lock_def drop_task_def lock_path_def numeral_2_eq_2)
  moreover have "\<not> is_held (lw_locks w ! 1)" using conjunct1 [OF file_lock_excludes [OF w_def], rule_format, of 0 1] w by auto
  ultimately show ?thesis by blast
qed

text \<open>
  C17. An attempt to acquire ends: the turn after the timeout, counted in retry intervals, is not followed
  by another sleep, whatever the other processes do; and a task that gives up leaves no descriptor open
  and no lock behind.
\<close>

theorem acquire_terminates:
  assumes "acquire_begin start l os0 = (Inr a, os1)" "0 < fl_retry_interval l"
    and "start \<le> turn_at 0" "\<And>k. turn_at k + fl_retry_interval l \<le> turn_at (Suc k)"
  shows "fst (acquire_turn (turn_at (nat \<lceil>fl_timeout l / fl_retry_interval l\<rceil>)) a l os) \<noteq> Sleeping
    \<and> (\<forall>now l' os'. os_ok os \<longrightarrow> acquire_turn now a l os = (GaveUp MembershipUnavailableError, l', os') \<longrightarrow>
         l' = l \<and> dget (open_fds os') (aq_fd a) = None \<and> (\<forall>p. dget (holders os') p \<noteq> Some (aq_fd a)))"
proof
  have grow: "start + of_nat k * fl_retry_interval l \<le> turn_at k" for k
  proof (induction k)
    case (Suc k)
    then show ?case using assms(4) [of k] by (simp add: algebra_simps)
  qed (use assms(3) in simp)
  let ?n = "nat \<lceil>fl_timeout l / fl_retry_interval l\<rceil>"
  have "fl_timeout l / fl_retry_interval l \<le> of_nat ?n" by (rule of_nat_ceiling) 
  then have "fl_timeout l \<le> of_nat ?n * fl_retry_interval l" using assms(2) by (simp add: divide_le_eq)
  moreover have "aq_deadline a = start + fl_timeout l"
    using assms(1) by (auto simp: acquire_begin_def split: if_splits prod.splits)
  ultimately have "aq_deadline a \<le> turn_at ?n" using grow [of ?n] by simp
  then show "fst (acquire_turn (turn_at ?n) a l os) \<noteq> Sleeping"
    by (auto simp: acquire_turn_def split: prod.split bool.split)
  have same: "try_lock (aq_fd a) os = (False, os') \<Longrightarrow> os' = os" for os'
    by (auto simp: try_lock_def split: option.splits)
  show "\<forall>now l' os'. os_ok os \<longrightarrow> acquire_turn now a l os = (GaveUp MembershipUnavailableError, l', os') \<longrightarrow>
         l' = l \<and> dget (open_fds os') (aq_fd a) = None \<and> (\<forall>p. dget (holders os') p \<noteq> Some (aq_fd a))"
    by (auto simp: acquire_turn_def os_close_simps dest!: same split: prod.splits bool.splits if_splits)
qed

subsection \<open>A write is all or nothing\<close>

lemma write_loop_frame:
  assumes "write_loop io k tmp data written fs = (ok, seen)" "s \<in> set seen"
  shows "\<forall>p. p \<noteq> tmp \<longrightarrow> dget s p = dget fs p"
  using assms
proof (induction io k tmp data written fs arbitrary: ok seen rule: write_loop.induct)
  case (1 io k tmp data written fs)
  show ?case
  proof (cases "length data \<le> written \<or> io_chunk io k = None")
    case True
    then show ?thesis using "1.prems" by (auto simp: write_loop.simps [of io k] split: if_splits)
  next
    case False
    then obtain n where n: "io_chunk io k = Some n" by auto
    let ?chunk = "min n (length data - written)"
    let ?fs = "dset fs tmp (take (written + ?chunk) data)"
    obtain ok' seen' where rest: "write_loop io (Suc k) tmp data (written + ?chunk) ?fs = (ok', seen')" by fastforce
    have c: "?chunk \<noteq> 0" "s = ?fs \<or> s \<in> set seen'"
      using "1.prems" False by (auto simp: write_loop.simps [of io k] n rest Let_def split: if_splits)
    from c(2) show ?thesis
    proof
      assume "s \<in> set seen'"
      then have "\<forall>p. p \<noteq> tmp \<longrightarrow> dget s p = dget ?fs p" using "1.IH" [OF _ n refl refl c(1) rest] False by simp
      then show ?thesis by simp
    qed simp
  qed
qed

lemma write_loop_done:
  assumes "write_loop io k tmp data written fs = (True, seen)" "dget fs tmp = Some (take written data)" "written \<le> length data"
  shows "dget (last (fs # seen)) tmp = Some data"
  using assms
proof (induction io k tmp data written fs arbitrary: seen rule: write_loop.induct)
  case (1 io k tmp data written fs)
  show ?case
  proof (cases "length data \<le> written")
    case True
    then show ?thesis using "1.prems" by (simp add: write_loop.simps)
  next
    case False
    obtain n where n: "io_chunk io k = Some n" using "1.prems"(1) False by (auto simp: write_loop.simps [of io k] split: option.splits)
    define chunk where "chunk = min n (length data - written)"
    define fs' where "fs' = dset fs tmp (take (written + chunk) data)"
    obtain ok' seen' where rest: "write_loop io (Suc k) tmp data (written + chunk) fs' = (ok', seen')" by fastforce
    have c: "chunk \<noteq> 0" "ok'" "seen = fs' # seen'"
      using "1.prems"(1) False rest by (auto simp: write_loop.simps [of io k] n Let_def chunk_def [symmetric] fs'_def [symmetric] split: if_splits)
    have "written + chunk \<le> length data" using False by (simp add: chunk_def)
    then have "dget (last (fs' # seen')) tmp = Some data"
      using "1.IH" [OF False n chunk_def fs'_def c(1), of seen'] rest c(2) by (simp del: last.simps add: fs'_def)
    then show ?thesis by (simp del: last.simps add: c(3) last_ConsR)
  qed
qed

text \<open>
  C18. At every moment of an atomic write, so also if the process dies there, the target has its old content
  or the whole of the new one, and no other file but the temporary sibling is touched; a write that
  reports success has put the new content in place, a failed one has left the old, and neither leaves
  the temporary file.
\<close>

theorem atomic_write_all_or_nothing:
  assumes "atomic_write io (tmp_path pid target) target data fs = (r, seen)"
  shows "(\<forall>s \<in> set seen. (dget s target = dget fs target \<or> dget s target = Some data)
        \<and> (\<forall>p. p \<noteq> target \<and> p \<noteq> tmp_path pid target \<longrightarrow> dget s p = dget fs p))
    \<and> dget (last seen) (tmp_path pid target) = None
    \<and> (r = Inr () \<longrightarrow> dget (last seen) target = Some data)
    \<and> (r \<noteq> Inr () \<longrightarrow> dget (last seen) target = dget fs target)"
proof -
  let ?tmp = "tmp_path pid target"
  have ne: "target \<noteq> ?tmp"
  proof
    assume "target = ?tmp"
    then have "length (snd target) = length (snd ?tmp)" by simp
    then show False by (simp add: tmp_path_def)
  qed
  show ?thesis
  proof (cases "io_open_ok io")
    case False
    then show ?thesis using assms ne by (auto simp: atomic_write_def cleanup_def)
  next
    case True
    let ?fs1 = "dset fs ?tmp []"
    obtain ok chunks where w: "write_loop io 0 ?tmp data 0 ?fs1 = (ok, chunks)" by fastforce
    define fs2 where "fs2 = last (?fs1 # chunks)"
    have keep: "dget s p = dget fs p" if "s \<in> set (?fs1 # chunks)" "p \<noteq> ?tmp" for s p
      using write_loop_frame [OF w, of s] that by (cases p) auto
    have fs2: "fs2 \<in> set (?fs1 # chunks)" unfolding fs2_def by (rule last_in_set) simp
    have full: "dget fs2 ?tmp = Some data" if ok
      using write_loop_done [of io 0 ?tmp data 0 ?fs1 chunks] w that by (simp del: last.simps add: fs2_def)
    have r: "r = Inr () \<and> seen = (?fs1 # chunks) @ [dpop (dset fs2 target data) ?tmp]
        \<or> r \<noteq> Inr () \<and> seen = (?fs1 # chunks) @ [dpop fs2 ?tmp]"
      using assms True full by (auto simp: atomic_write_def cleanup_def w Let_def os_replace_def fs2_def [symmetric] simp del: last.simps split: if_splits)
    have target: "dget fs2 target = dget fs target" by (rule keep [OF fs2 ne])
    have "(dget s target = dget fs target \<or> dget s target = Some data) \<and> (\<forall>p. p \<noteq> target \<and> p \<noteq> ?tmp \<longrightarrow> dget s p = dget fs p)"
      if "s \<in> set seen" for s
    proof -
      have "s \<in> set (?fs1 # chunks) \<or> s = dpop (dset fs2 target data) ?tmp \<or> s = dpop fs2 ?tmp"
        using that r by (elim disjE) auto
      then show ?thesis using keep [of s] keep [OF fs2] ne by (elim disjE) auto
    qed
    moreover have "dget (last seen) ?tmp = None \<and> (r = Inr () \<longrightarrow> dget (last seen) target = Some data)
        \<and> (r \<noteq> Inr () \<longrightarrow> dget (last seen) target = dget fs target)"
      using r target ne by (elim disjE conjE) (simp_all only: last_snoc, simp_all)
    ultimately show ?thesis by blast
  qed
qed

theorem acquire_terminates_witness:
  "\<exists>a os. acquire_begin 0 demo_lock \<lparr>fd_count = 0, open_fds = [], holders = []\<rparr> = (Inr a, os)
     \<and> fst (acquire_turn 5 a demo_lock os) \<noteq> Sleeping"
proof -
  obtain a os where b: "acquire_begin 0 demo_lock \<lparr>fd_count = 0, open_fds = [], holders = []\<rparr> = (Inr a, os)"
    by (simp add: acquire_begin_def demo_lock_def is_held_def os_open_def)
  have "nat \<lceil>fl_timeout demo_lock / fl_retry_interval demo_lock\<rceil> = 5" by (simp add: demo_lock_def)
  then show ?thesis
    using acquire_terminates [OF b, of of_nat os] b by (simp add: demo_lock_def)
qed

theorem atomic_write_all_or_nothing_witness:
  "\<exists>seen. atomic_write \<lparr>io_open_ok = True, io_chunk = (\<lambda>_. Some 1), io_fsync_ok = True, io_replace_ok = True\<rparr>
      (tmp_path 7 ([], lit ''t'')) ([], lit ''t'') [1, 2] [(([], lit ''t''), [9])] = (Inr (), seen)
    \<and> dget (last seen) ([], lit ''t'') = Some [1, 2]"
proof -
  let ?io = "\<lparr>io_open_ok = True, io_chunk = (\<lambda>_. Some 1), io_fsync_ok = True, io_replace_ok = True\<rparr>"
  let ?t = "([], lit ''t'')"
  obtain r seen where w: "atomic_write ?io (tmp_path 7 ?t) ?t [1, 2] [(?t, [9])] = (r, seen)" by fastforce
  then have "r = Inr ()" by (auto simp: atomic_write_def write_loop.simps Let_def)
  then show ?thesis using atomic_write_all_or_nothing [OF w] w by auto
qed

end
