(* ===== verification/Streams.thy ===== *)
theory Streams
  imports RuntimeCalls
begin

text \<open>
  \<^verbatim>\<open>pyleans/server/providers/memory_stream.py\<close>: publish and subscribe within a silo. The lists of
  subscriptions are objects that the code shares and replaces: \<^verbatim>\<open>publish\<close> walks the list object it
  found, \<^verbatim>\<open>subscribe\<close> appends to the one in the table, \<^verbatim>\<open>unsubscribe\<close> puts a new one there. So they
  are kept in a store, and the table holds addresses. What a callback does, to the provider too, is a
  function; an id is the \<^verbatim>\<open>uuid4\<close> drawn for it.
\<close>

subsection \<open>Operations\<close>

record Subscription =
  sub_id :: pystr
  sub_callback :: nat

datatype stream_key = StreamKey pystr pystr

record InMemoryStreamProvider =
  sp_lists :: "Subscription list list"
  sp_streams :: "(stream_key, nat) dict"

record StreamSubscription =
  ss_id :: pystr
  ss_stream :: stream_key

definition new_stream_provider :: InMemoryStreamProvider where
  "new_stream_provider = \<lparr>sp_lists = [], sp_streams = []\<rparr>"

definition stream_subscribe ::
  "pystr \<Rightarrow> stream_key \<Rightarrow> nat \<Rightarrow> InMemoryStreamProvider \<Rightarrow> StreamSubscription \<times> InMemoryStreamProvider" where
  "stream_subscribe uid key cb p =
     (let s = \<lparr>sub_id = uid, sub_callback = cb\<rparr>
      in (\<lparr>ss_id = uid, ss_stream = key\<rparr>,
          case dget (sp_streams p) key of
            None \<Rightarrow> p\<lparr>sp_lists := sp_lists p @ [[s]], sp_streams := dset (sp_streams p) key (length (sp_lists p))\<rparr>
          | Some a \<Rightarrow> p\<lparr>sp_lists := (sp_lists p)[a := sp_lists p ! a @ [s]]\<rparr>))"

definition stream_unsubscribe :: "StreamSubscription \<Rightarrow> InMemoryStreamProvider \<Rightarrow> InMemoryStreamProvider" where
  "stream_unsubscribe handle p =
     (let key = ss_stream handle;
          subs = (case dget (sp_streams p) key of None \<Rightarrow> [] | Some a \<Rightarrow> sp_lists p ! a);
          kept = filter (\<lambda>s. sub_id s \<noteq> ss_id handle) subs;
          p1 = p\<lparr>sp_lists := sp_lists p @ [kept], sp_streams := dset (sp_streams p) key (length (sp_lists p))\<rparr>
      in if kept = [] then p1\<lparr>sp_streams := dpop (sp_streams p1) key\<rparr> else p1)"

type_synonym 'w callbacks = "nat \<Rightarrow> json \<Rightarrow> InMemoryStreamProvider \<times> 'w \<Rightarrow> exn option \<times> InMemoryStreamProvider \<times> 'w"

text \<open>
  The loop of \<^verbatim>\<open>publish\<close> over the list object at an address, as Python iterates over a list that
  may grow meanwhile: it may go on for ever, which is no outcome.
\<close>

partial_function (option) publish_loop ::
  "'w callbacks \<Rightarrow> json \<Rightarrow> nat \<Rightarrow> nat \<Rightarrow> exn list \<Rightarrow> InMemoryStreamProvider \<times> 'w
   \<Rightarrow> (exn list \<times> InMemoryStreamProvider \<times> 'w) option" where
  "publish_loop cbs event a i errs pw =
     (if i < length (sp_lists (fst pw) ! a)
      then (case cbs (sub_callback (sp_lists (fst pw) ! a ! i)) event pw of
              (r, pw') \<Rightarrow> publish_loop cbs event a (Suc i) (errs @ (case r of None \<Rightarrow> [] | Some e \<Rightarrow> [e])) pw')
      else Some (errs, pw))"

text \<open>The errors of an \<^verbatim>\<open>ExceptionGroup\<close>; none if \<^verbatim>\<open>publish\<close> returns.\<close>

definition stream_publish ::
  "'w callbacks \<Rightarrow> stream_key \<Rightarrow> json \<Rightarrow> InMemoryStreamProvider \<times> 'w
   \<Rightarrow> (exn list \<times> InMemoryStreamProvider \<times> 'w) option" where
  "stream_publish cbs key event pw =
     (case dget (sp_streams (fst pw)) key of
        None \<Rightarrow> Some ([], pw)
      | Some a \<Rightarrow> publish_loop cbs event a 0 [] pw)"

text \<open>\<^verbatim>\<open>StreamRef\<close>: a stream's name with the provider's operations.\<close>

record StreamRef =
  ref_namespace :: pystr
  ref_key :: pystr

definition get_stream :: "pystr \<Rightarrow> pystr \<Rightarrow> StreamRef" where
  "get_stream ns k = \<lparr>ref_namespace = ns, ref_key = k\<rparr>"

definition ref_publish ::
  "StreamRef \<Rightarrow> 'w callbacks \<Rightarrow> json \<Rightarrow> InMemoryStreamProvider \<times> 'w \<Rightarrow> (exn list \<times> InMemoryStreamProvider \<times> 'w) option" where
  "ref_publish r cbs event = stream_publish cbs (StreamKey (ref_namespace r) (ref_key r)) event"

definition ref_subscribe ::
  "StreamRef \<Rightarrow> pystr \<Rightarrow> nat \<Rightarrow> InMemoryStreamProvider \<Rightarrow> StreamSubscription \<times> InMemoryStreamProvider" where
  "ref_subscribe r uid cb = stream_subscribe uid (StreamKey (ref_namespace r) (ref_key r)) cb"

definition ref_unsubscribe :: "StreamRef \<Rightarrow> StreamSubscription \<Rightarrow> InMemoryStreamProvider \<Rightarrow> InMemoryStreamProvider" where
  "ref_unsubscribe r handle = stream_unsubscribe handle"

subsection \<open>The table of subscriptions\<close>

text \<open>What the provider is for its clients: the subscriptions of each stream, in order.\<close>

definition subscriptions :: "InMemoryStreamProvider \<Rightarrow> stream_key \<Rightarrow> Subscription list" where
  "subscriptions p key = (case dget (sp_streams p) key of None \<Rightarrow> [] | Some a \<Rightarrow> sp_lists p ! a)"

text \<open>No two streams share a list object, and a stream without subscriptions has no entry.\<close>

definition streams_ok :: "InMemoryStreamProvider \<Rightarrow> bool" where
  "streams_ok p \<longleftrightarrow> dict_ok (sp_streams p)
     \<and> (\<forall>key a. dget (sp_streams p) key = Some a \<longrightarrow> a < length (sp_lists p) \<and> sp_lists p ! a \<noteq> [])
     \<and> (\<forall>key key' a. dget (sp_streams p) key = Some a \<longrightarrow> dget (sp_streams p) key' = Some a \<longrightarrow> key' = key)"

lemma streams_okD:
  assumes "streams_ok p" "dget (sp_streams p) key = Some a"
  shows "a < length (sp_lists p)" "sp_lists p ! a \<noteq> []" "dget (sp_streams p) key' = Some a \<Longrightarrow> key' = key"
  using assms unfolding streams_ok_def by blast+

text \<open>A new list object for one stream, or none when it is empty.\<close>

lemma streams_put:
  assumes "streams_ok p" "dict_ok d"
    and d: "\<And>k. dget d k = (if k = key then (if xs = [] then None else Some (length (sp_lists p))) else dget (sp_streams p) k)"
  shows "streams_ok (p\<lparr>sp_lists := sp_lists p @ [xs], sp_streams := d\<rparr>)
    \<and> subscriptions (p\<lparr>sp_lists := sp_lists p @ [xs], sp_streams := d\<rparr>) = (subscriptions p)(key := xs)"
proof
  note D = streams_okD [OF assms(1)]
  have old: "a < length (sp_lists p)" if "k \<noteq> key" "dget d k = Some a" for k a using D(1) [of k a] that d by simp
  show "streams_ok (p\<lparr>sp_lists := sp_lists p @ [xs], sp_streams := d\<rparr>)"
    unfolding streams_ok_def
  proof (intro conjI allI impI)
    show "dict_ok (sp_streams (p\<lparr>sp_lists := sp_lists p @ [xs], sp_streams := d\<rparr>))" using assms(2) by simp
  next
    fix k a assume h: "dget (sp_streams (p\<lparr>sp_lists := sp_lists p @ [xs], sp_streams := d\<rparr>)) k = Some a"
    show "a < length (sp_lists (p\<lparr>sp_lists := sp_lists p @ [xs], sp_streams := d\<rparr>))"
      using h old [of k a] d [of k] by (cases "k = key") (auto split: if_splits)
    show "sp_lists (p\<lparr>sp_lists := sp_lists p @ [xs], sp_streams := d\<rparr>) ! a \<noteq> []"
      using h old [of k a] d [of k] D(2) [of k a] by (cases "k = key") (auto simp: nth_append split: if_splits)
  next
    fix k k' a
    assume "dget (sp_streams (p\<lparr>sp_lists := sp_lists p @ [xs], sp_streams := d\<rparr>)) k = Some a"
      "dget (sp_streams (p\<lparr>sp_lists := sp_lists p @ [xs], sp_streams := d\<rparr>)) k' = Some a"
    then have h: "dget d k = Some a" "dget d k' = Some a" by simp_all
    show "k' = k"
    proof (cases "k = key \<or> k' = key")
      case True
      then show ?thesis using h old [of k a] old [of k' a] d by (auto split: if_splits)
    next
      case False
      then show ?thesis using D(3) [of k a k'] h d by simp
    qed
  qed
  show "subscriptions (p\<lparr>sp_lists := sp_lists p @ [xs], sp_streams := d\<rparr>) = (subscriptions p)(key := xs)"
  proof
    fix k
    show "subscriptions (p\<lparr>sp_lists := sp_lists p @ [xs], sp_streams := d\<rparr>) k = ((subscriptions p)(key := xs)) k"
      using d [of k] D(1) [of k] by (cases "k = key") (auto simp: subscriptions_def nth_append split: option.split)
  qed
qed

lemma subscribe_ok:
  assumes "streams_ok p" "stream_subscribe uid key cb p = (h, p')"
  shows "streams_ok p' \<and> subscriptions p' = (subscriptions p)(key := subscriptions p key @ [\<lparr>sub_id = uid, sub_callback = cb\<rparr>])
    \<and> h = \<lparr>ss_id = uid, ss_stream = key\<rparr>"
proof (cases "dget (sp_streams p) key")
  case None
  have d: "dict_ok (sp_streams p)" using assms(1) by (simp add: streams_ok_def)
  let ?s = "[\<lparr>sub_id = uid, sub_callback = cb\<rparr>]"
  have p': "p' = p\<lparr>sp_lists := sp_lists p @ [?s], sp_streams := dset (sp_streams p) key (length (sp_lists p))\<rparr>"
    "h = \<lparr>ss_id = uid, ss_stream = key\<rparr>" using assms(2) None by (simp_all add: stream_subscribe_def Let_def)
  have "subscriptions p key = []" using None by (simp add: subscriptions_def)
  then show ?thesis unfolding p' using streams_put [OF assms(1) dict_ok_dset [OF d], of key "length (sp_lists p)" key ?s] by simp
next
  case (Some a)
  note D = streams_okD [OF assms(1)]
  have a: "a < length (sp_lists p)" "\<And>k. dget (sp_streams p) k = Some a \<Longrightarrow> k = key"
    using D(1,3) [OF Some] by auto
  have p': "p' = p\<lparr>sp_lists := (sp_lists p)[a := sp_lists p ! a @ [\<lparr>sub_id = uid, sub_callback = cb\<rparr>]]\<rparr>"
    "h = \<lparr>ss_id = uid, ss_stream = key\<rparr>" using assms(2) Some by (auto simp: stream_subscribe_def Let_def)
  have "streams_ok p'"
    unfolding streams_ok_def p'(1)
  proof (intro conjI allI impI)
    fix k b assume "dget (sp_streams (p\<lparr>sp_lists := (sp_lists p)[a := sp_lists p ! a @ [\<lparr>sub_id = uid, sub_callback = cb\<rparr>]]\<rparr>)) k = Some b"
    then have b: "dget (sp_streams p) k = Some b" by simp
    show "b < length (sp_lists (p\<lparr>sp_lists := (sp_lists p)[a := sp_lists p ! a @ [\<lparr>sub_id = uid, sub_callback = cb\<rparr>]]\<rparr>))"
      using D(1) [OF b] by simp
    show "sp_lists (p\<lparr>sp_lists := (sp_lists p)[a := sp_lists p ! a @ [\<lparr>sub_id = uid, sub_callback = cb\<rparr>]]\<rparr>) ! b \<noteq> []"
      using D(1,2) [OF b] a(1) by (simp add: nth_list_update)
  qed (use assms(1) D(3) in \<open>auto simp: streams_ok_def\<close>)
  moreover have "subscriptions p' = (subscriptions p)(key := subscriptions p key @ [\<lparr>sub_id = uid, sub_callback = cb\<rparr>])"
  proof
    fix k
    show "subscriptions p' k = ((subscriptions p)(key := subscriptions p key @ [\<lparr>sub_id = uid, sub_callback = cb\<rparr>])) k"
    proof (cases "k = key \<or> dget (sp_streams p) k = None")
      case True
      then show ?thesis using Some a(1) by (cases "k = key") (simp_all add: subscriptions_def p'(1))
    next
      case False
      then obtain b where "dget (sp_streams p) k = Some b" "b \<noteq> a" "k \<noteq> key" using a(2) [of k] by (metis not_None_eq)
      then show ?thesis by (simp add: subscriptions_def p'(1))
    qed
  qed
  ultimately show ?thesis using p'(2) by simp
qed

lemma unsubscribe_ok:
  assumes "streams_ok p"
  shows "streams_ok (stream_unsubscribe h p)
    \<and> subscriptions (stream_unsubscribe h p) =
        (subscriptions p)(ss_stream h := filter (\<lambda>s. sub_id s \<noteq> ss_id h) (subscriptions p (ss_stream h)))"
proof -
  let ?kept = "filter (\<lambda>s. sub_id s \<noteq> ss_id h) (subscriptions p (ss_stream h))"
  let ?d = "if ?kept = [] then dpop (dset (sp_streams p) (ss_stream h) (length (sp_lists p))) (ss_stream h)
    else dset (sp_streams p) (ss_stream h) (length (sp_lists p))"
  have eq: "stream_unsubscribe h p = p\<lparr>sp_lists := sp_lists p @ [?kept], sp_streams := ?d\<rparr>"
    by (simp add: stream_unsubscribe_def subscriptions_def Let_def)
  have "dict_ok (sp_streams p)" using assms by (simp add: streams_ok_def)
  then show ?thesis unfolding eq by (intro streams_put [OF assms]) simp_all
qed

text \<open>
  The provider is a table from streams to subscriptions in the order they came: subscribing adds one at
  the end of its stream, unsubscribing takes out those with its id and does nothing the second time, and
  no operation touches another stream. List objects are shared by no two streams.
\<close>

theorem stream_table:
  assumes "streams_ok p"
  shows "subscriptions (snd (stream_subscribe uid key cb p)) =
      (subscriptions p)(key := subscriptions p key @ [\<lparr>sub_id = uid, sub_callback = cb\<rparr>])
    \<and> subscriptions (stream_unsubscribe h p) =
      (subscriptions p)(ss_stream h := filter (\<lambda>s. sub_id s \<noteq> ss_id h) (subscriptions p (ss_stream h)))
    \<and> subscriptions (stream_unsubscribe h (stream_unsubscribe h p)) = subscriptions (stream_unsubscribe h p)
    \<and> (uid \<notin> sub_id ` set (subscriptions p key) \<longrightarrow>
        subscriptions (stream_unsubscribe (fst (stream_subscribe uid key cb p)) (snd (stream_subscribe uid key cb p))) = subscriptions p)
    \<and> streams_ok (snd (stream_subscribe uid key cb p)) \<and> streams_ok (stream_unsubscribe h p)"
proof -
  obtain h' p' where s: "stream_subscribe uid key cb p = (h', p')" by fastforce
  note sub = subscribe_ok [OF assms s] and un = unsubscribe_ok [OF assms, of h]
  have twice: "subscriptions (stream_unsubscribe h (stream_unsubscribe h p)) = subscriptions (stream_unsubscribe h p)"
    using unsubscribe_ok [OF conjunct1 [OF un], of h] un by (simp add: fun_eq_iff)
  have "filter (\<lambda>s. sub_id s \<noteq> uid) (subscriptions p key) = subscriptions p key" if "uid \<notin> sub_id ` set (subscriptions p key)"
    using that by (auto simp: filter_id_conv)
  then show ?thesis using sub un twice unsubscribe_ok [OF conjunct1 [OF sub], of h'] by (simp add: s)
qed

theorem stream_table_witness:
  "subscriptions (snd (stream_subscribe [1] (StreamKey [] []) 0 new_stream_provider)) (StreamKey [] []) = [\<lparr>sub_id = [1], sub_callback = 0\<rparr>]"
proof -
  have "streams_ok new_stream_provider" by (simp add: streams_ok_def new_stream_provider_def)
  from conjunct1 [OF stream_table [OF this, of "[1]" "StreamKey [] []" 0]] show ?thesis
    by (simp add: subscriptions_def new_stream_provider_def)
qed

subsection \<open>Publishing\<close>

text \<open>List objects only grow at their end, as the operations of the provider make them.\<close>

definition lists_grow :: "InMemoryStreamProvider \<Rightarrow> InMemoryStreamProvider \<Rightarrow> bool" where
  "lists_grow p p' \<longleftrightarrow> length (sp_lists p) \<le> length (sp_lists p')
     \<and> (\<forall>a < length (sp_lists p). \<exists>more. sp_lists p' ! a = sp_lists p ! a @ more)"

lemma lists_grow_ops:
  assumes "streams_ok p"
  shows "lists_grow p (snd (stream_subscribe uid key cb p))" "lists_grow p (stream_unsubscribe h p)"
  using streams_okD(1) [OF assms]
  by (auto simp: lists_grow_def stream_subscribe_def stream_unsubscribe_def Let_def nth_append nth_list_update split: option.split)

lemma lists_grow_trans: "lists_grow p q \<Longrightarrow> lists_grow q r \<Longrightarrow> lists_grow p r"
  unfolding lists_grow_def by (metis append_assoc le_trans less_le_trans)

text \<open>Callbacks that keep to the provider's operations, each noting that it ran with which event.\<close>

definition logging :: "'w callbacks \<Rightarrow> ('w \<Rightarrow> (nat \<times> json) list) \<Rightarrow> bool" where
  "logging cbs ranlog \<longleftrightarrow> (\<forall>c ev pw r pw'. cbs c ev pw = (r, pw') \<longrightarrow>
     lists_grow (fst pw) (fst pw') \<and> ranlog (snd pw') = ranlog (snd pw) @ [(c, ev)])"

lemma publish_loop_delivers:
  "publish_loop cbs event a i errs pw = Some res \<Longrightarrow> logging cbs ranlog \<Longrightarrow> a < length (sp_lists (fst pw)) \<Longrightarrow>
   i \<le> length (sp_lists (fst pw) ! a) \<Longrightarrow>
   lists_grow (fst pw) (fst (snd res))
     \<and> ranlog (snd (snd res)) = ranlog (snd pw) @ map (\<lambda>s. (sub_callback s, event)) (drop i (sp_lists (fst (snd res)) ! a))"
proof (induction rule: publish_loop.raw_induct [rotated, consumes 1, case_names step])
  case (step loop cbs event a i errs pw res)
  show ?case
  proof (cases "i < length (sp_lists (fst pw) ! a)")
    case False
    then show ?thesis using step.hyps step.prems by (auto simp: lists_grow_def)
  next
    case True
    let ?c = "sub_callback (sp_lists (fst pw) ! a ! i)"
    obtain r p1 w1 where cb: "cbs ?c event pw = (r, p1, w1)" by (metis prod_cases3)
    have step: "lists_grow (fst pw) p1" "ranlog w1 = ranlog (snd pw) @ [(?c, event)]"
      using step.prems(1) cb unfolding logging_def by (metis fst_conv snd_conv)+
    obtain more where more: "sp_lists p1 ! a = sp_lists (fst pw) ! a @ more" "a < length (sp_lists p1)"
      using step(1) step.prems(2) unfolding lists_grow_def by (metis less_le_trans)
    have "lists_grow p1 (fst (snd res)) \<and> ranlog (snd (snd res)) = ranlog w1 @ map (\<lambda>s. (sub_callback s, event)) (drop (Suc i) (sp_lists (fst (snd res)) ! a))"
      using step.IH [of cbs event a "Suc i" _ "(p1, w1)" res] step.hyps step.prems(1) True cb more by simp
    moreover from this obtain more' where "sp_lists (fst (snd res)) ! a = sp_lists p1 ! a @ more'"
      using more(2) unfolding lists_grow_def by blast
    ultimately show ?thesis
      using step True more(1) lists_grow_trans [OF step(1)]
      by (simp add: Cons_nth_drop_Suc [symmetric] nth_append)
  qed
qed

text \<open>
  C35. A publish that ends has delivered its event exactly once to each subscription of the list object it
  started with, also to one that was unsubscribed meanwhile, and after those to the ones appended to that
  object during it.
\<close>

theorem publish_exactly_once:
  assumes "streams_ok p" "logging cbs ranlog" "dget (sp_streams p) key = Some a"
    and "stream_publish cbs key event (p, w) = Some (errs, p', w')"
  shows "ranlog w' = ranlog w @ map (\<lambda>s. (sub_callback s, event)) (sp_lists p' ! a)
    \<and> (\<exists>more. sp_lists p' ! a = subscriptions p key @ more)"
proof -
  have a: "a < length (sp_lists p)" using streams_okD(1) [OF assms(1,3)] .
  have "publish_loop cbs event a 0 [] (p, w) = Some (errs, p', w')" using assms(3,4) by (simp add: stream_publish_def)
  from publish_loop_delivers [OF this assms(2)] a show ?thesis
    using assms(3) by (simp add: subscriptions_def lists_grow_def)
qed

text \<open>One event to a list of subscriptions: every callback runs, what they raise is collected in order.\<close>

primrec deliver_all ::
  "'w callbacks \<Rightarrow> json \<Rightarrow> Subscription list \<Rightarrow> exn list \<times> InMemoryStreamProvider \<times> 'w
   \<Rightarrow> exn list \<times> InMemoryStreamProvider \<times> 'w" where
  "deliver_all cbs event [] st = st"
| "deliver_all cbs event (s # ss) st =
     (case cbs (sub_callback s) event (snd st) of
        (r, pw') \<Rightarrow> deliver_all cbs event ss (fst st @ (case r of None \<Rightarrow> [] | Some e \<Rightarrow> [e]), pw'))"

lemma publish_loop_inert:
  assumes "\<And>c ev pw. fst (snd (cbs c ev pw)) = fst pw"
  shows "publish_loop cbs event a i errs pw = Some (deliver_all cbs event (drop i (sp_lists (fst pw) ! a)) (errs, pw))"
proof (induction "length (sp_lists (fst pw) ! a) - i" arbitrary: i errs pw)
  case 0
  then show ?case by (subst publish_loop.simps) simp
next
  case (Suc n)
  let ?xs = "sp_lists (fst pw) ! a"
  have i: "i < length ?xs" using Suc.hyps(2) by simp
  obtain r pw' where cb: "cbs (sub_callback (?xs ! i)) event pw = (r, pw')" by (metis surj_pair)
  then have same: "fst pw' = fst pw" using assms [of "sub_callback (?xs ! i)" event pw] by simp
  have "publish_loop cbs event a (Suc i) e pw' = Some (deliver_all cbs event (drop (Suc i) ?xs) (e, pw'))" for e
    using Suc.hyps(1) [of pw' "Suc i" e] Suc.hyps(2) by (simp add: same)
  then show ?case using i by (subst publish_loop.simps) (simp add: cb Cons_nth_drop_Suc [symmetric])
qed

text \<open>
  Callbacks that leave the provider alone: a publish ends, having run each subscriber of its stream once
  in the order of their subscription, whether or not others failed, and reports exactly what they raised.
\<close>

theorem publish_delivers:
  assumes "\<And>c ev pw. fst (snd (cbs c ev pw)) = fst pw"
  shows "stream_publish cbs key event (p, w) = Some (deliver_all cbs event (subscriptions p key) ([], p, w))"
  using publish_loop_inert [OF assms] by (auto simp: stream_publish_def subscriptions_def split: option.split)

text \<open>A stream with a subscriber that fails and one that notes what it got.\<close>

definition demo_callbacks :: "json list callbacks" where
  "demo_callbacks c ev pw = (if c = 0 then Some (Exn (lit ''E'') [] None) else None, fst pw, snd pw @ [ev])"

definition demo_streams :: InMemoryStreamProvider where
  "demo_streams = snd (stream_subscribe [2] (StreamKey [] []) 1 (snd (stream_subscribe [1] (StreamKey [] []) 0 new_stream_provider)))"

theorem publish_delivers_witness:
  "stream_publish demo_callbacks (StreamKey [] []) JNull (demo_streams, []) =
     Some ([Exn (lit ''E'') [] None], demo_streams, [JNull, JNull])"
  using publish_delivers [of demo_callbacks "StreamKey [] []" JNull demo_streams "[]"]
  by (simp add: demo_callbacks_def demo_streams_def stream_subscribe_def new_stream_provider_def subscriptions_def Let_def)

theorem publish_exactly_once_witness:
  "\<exists>w' errs p'. stream_publish (\<lambda>c ev pw. (None, fst pw, snd pw @ [(c, ev)])) (StreamKey [] []) JNull (demo_streams, []) = Some (errs, p', w')
     \<and> w' = map (\<lambda>s. (sub_callback s, JNull)) (sp_lists p' ! 0)"
proof -
  let ?cbs = "\<lambda>c ev (pw :: InMemoryStreamProvider \<times> (nat \<times> json) list). (None :: exn option, fst pw, snd pw @ [(c, ev)])"
  have ok: "streams_ok demo_streams" "dget (sp_streams demo_streams) (StreamKey [] []) = Some 0"
    by (simp_all add: streams_ok_def demo_streams_def stream_subscribe_def new_stream_provider_def Let_def)
  have l: "logging ?cbs (\<lambda>w. w)" by (auto simp: logging_def lists_grow_def)
  have r: "stream_publish ?cbs (StreamKey [] []) JNull (demo_streams, []) = Some ([], demo_streams, [(0, JNull), (1, JNull)])"
    using publish_loop_inert [of ?cbs JNull 0 0 "[]" "(demo_streams, [])"]
    by (simp add: stream_publish_def ok(2))
      (simp add: demo_streams_def stream_subscribe_def new_stream_provider_def Let_def)
  have "[(0, JNull), (1, JNull)] = map (\<lambda>s. (sub_callback s, JNull)) (sp_lists demo_streams ! 0)"
    using conjunct1 [OF publish_exactly_once [OF ok(1) l ok(2) r]] by simp
  with r show ?thesis
    by (intro exI [of _ "[(0, JNull), (1, JNull)]"] exI [of _ "[]"] exI [of _ demo_streams] conjI)
qed

end
