(* ===== verification/GrainReferences.thy ===== *)
theory GrainReferences
  imports Runtime
begin

text \<open>
  What a grain author touches besides method bodies: the decorator and its registry
  (\<^verbatim>\<open>pyleans/grain.py\<close>), the identity of a grain (\<^verbatim>\<open>pyleans/grain_base.py\<close>), references and their
  factory (\<^verbatim>\<open>pyleans/reference.py\<close>), and timers (\<^verbatim>\<open>pyleans/server/timer.py\<close>).
\<close>

subsection \<open>The decorator\<close>

text \<open>What the decorator writes into the dictionary of a class; \<open>None\<close> as state type is no state.\<close>

record 't grain_metadata =
  meta_grain_type :: pystr
  meta_state_type :: "'t option"
  meta_storage_name :: pystr

text \<open>
  A class: its name, its \<^verbatim>\<open>__orig_bases__\<close> (whether the origin of each is \<^verbatim>\<open>Grain\<close>, and its type
  arguments, with \<open>None\<close> for \<^verbatim>\<open>NoneType\<close>), and the metadata in the dictionaries of the classes of its
  method resolution order, its own first.
\<close>

record 't py_class =
  pc_name :: pystr
  pc_orig_bases :: "(bool \<times> 't option list) list"
  pc_own_metadata :: "'t grain_metadata option"
  pc_inherited_metadata :: "'t grain_metadata option list"

type_synonym 't grain_registry = "(pystr, 't py_class) dict"

fun infer_state_type :: "(bool \<times> 't option list) list \<Rightarrow> 't option" where
  "infer_state_type [] = None"
| "infer_state_type ((origin_is_grain, args) # bases) =
     (if origin_is_grain
      then (case args of Some t # _ \<Rightarrow> Some t | _ \<Rightarrow> infer_state_type bases)
      else infer_state_type bases)"

definition grain :: "'t option \<Rightarrow> pystr \<Rightarrow> 't py_class \<Rightarrow> 't grain_registry \<Rightarrow> 't py_class \<times> 't grain_registry" where
  "grain state_type storage cls reg =
     (let resolved = (case state_type of Some t \<Rightarrow> Some t | None \<Rightarrow> infer_state_type (pc_orig_bases cls));
          cls' = cls\<lparr>pc_own_metadata := Some \<lparr>meta_grain_type = pc_name cls, meta_state_type = resolved,
                                             meta_storage_name = storage\<rparr>\<rparr>
      in (cls', dset reg (pc_name cls) cls'))"

text \<open>The attribute is looked up like any other: the first class of the resolution order that has it.\<close>

fun first_metadata :: "'t grain_metadata option list \<Rightarrow> 't grain_metadata option" where
  "first_metadata [] = None"
| "first_metadata (Some m # _) = Some m"
| "first_metadata (None # ms) = first_metadata ms"

definition get_grain_type_name :: "'t py_class \<Rightarrow> pystr" where
  "get_grain_type_name cls =
     (case first_metadata (pc_own_metadata cls # pc_inherited_metadata cls) of
        None \<Rightarrow> pc_name cls
      | Some m \<Rightarrow> meta_grain_type m)"

definition registered_class :: "'t grain_registry \<Rightarrow> pystr \<Rightarrow> exn + 't py_class" where
  "registered_class reg t =
     (case dget reg t of None \<Rightarrow> Inl (raise_named ''GrainNotFoundError'' None) | Some c \<Rightarrow> Inr c)"

subsection \<open>Identity\<close>

text \<open>
  \<^verbatim>\<open>Grain.identity\<close>: what the runtime wrote into the instance, before that (during
  \<^verbatim>\<open>__init__\<close>) the context variable of the activation.
\<close>

definition grain_identity :: "GrainId option \<Rightarrow> GrainId option \<Rightarrow> exn + GrainId" where
  "grain_identity own context_id =
     (case own of
        Some g \<Rightarrow> Inr g
      | None \<Rightarrow>
          (case context_id of
             Some g \<Rightarrow> Inr g
           | None \<Rightarrow> Inl (raise_named ''GrainActivationError'' None)))"

definition set_identity :: "GrainId \<Rightarrow> GrainId option \<Rightarrow> GrainId option" where
  "set_identity g own = Some g"

text \<open>The four methods of the base class that only the runtime's bindings replace.\<close>

definition unbound_method :: "pystr \<Rightarrow> exn option" where
  "unbound_method name =
     (if name \<in> set BASE_CLASS_METHODS then Some (raise_named ''GrainActivationError'' None) else None)"

subsection \<open>References\<close>

datatype GrainRef = GrainRef (ref_identity: GrainId)

definition get_grain :: "'t py_class \<Rightarrow> pystr \<Rightarrow> GrainRef" where
  "get_grain cls key = GrainRef (GrainId (get_grain_type_name cls) key)"

definition grain_ref_eq :: "GrainRef \<Rightarrow> GrainRef \<Rightarrow> bool" where
  "grain_ref_eq r r' \<longleftrightarrow> ref_identity r = ref_identity r'"

definition grain_ref_call ::
  "('i, 'st) RuntimeConfig \<Rightarrow> 'd IGrainDirectory \<Rightarrow> (GrainId \<Rightarrow> 'd \<Rightarrow> 'd) \<Rightarrow> picker \<Rightarrow> 'w grain_rpc option
   \<Rightarrow> seconds \<Rightarrow> GrainRef \<Rightarrow> pystr \<Rightarrow> json list \<Rightarrow> (pystr \<times> json) list \<Rightarrow> ('i, 'st) GrainRuntime \<Rightarrow> 'd \<Rightarrow> 'w
   \<Rightarrow> (exn + json) option \<times> ('i, 'st) GrainRuntime \<times> 'd \<times> 'w" where
  "grain_ref_call cfg ops forget pick send now r name args kwargs rt d w =
     (if take 1 name = lit ''_'' then (Some (Inl (raise_named ''AttributeError'' None)), rt, d, w)
      else invoke cfg ops forget pick send now (ref_identity r) name args kwargs rt d w)"

subsection \<open>Timers\<close>

record GrainTimer =
  tm_grain :: GrainId
  tm_callback :: pystr
  tm_interval :: rat
  tm_due_time :: rat

text \<open>
  Where the task of a timer stands: created and not run yet, in its first sleep, in a call of the
  runtime, in the sleep after one, ended. A timer id is the index of its task, which no other timer
  has, as \<^verbatim>\<open>uuid4\<close> gives. A cancelled task ends at once: the loop turns the cancellation into a return
  at whatever \<^verbatim>\<open>await\<close> it stands.
\<close>

datatype timer_phase = TimerCreated | TimerDue | TimerCalling | TimerWaiting | TimerEnded

record TimerRegistry =
  tr_timers :: "(nat, GrainTimer) dict"
  tr_grain_timers :: "(GrainId, nat list) dict"
  tr_tasks :: "(GrainTimer \<times> timer_phase) list"

definition new_timer_registry :: TimerRegistry where
  "new_timer_registry = \<lparr>tr_timers = [], tr_grain_timers = [], tr_tasks = []\<rparr>"

definition timers_of :: "TimerRegistry \<Rightarrow> GrainId \<Rightarrow> nat list" where
  "timers_of reg g = (case dget (tr_grain_timers reg) g of None \<Rightarrow> [] | Some ids \<Rightarrow> ids)"

definition register_timer ::
  "GrainId \<Rightarrow> pystr \<Rightarrow> rat \<Rightarrow> rat \<Rightarrow> TimerRegistry \<Rightarrow> nat \<times> TimerRegistry" where
  "register_timer g callback interval due reg =
     (let tid = length (tr_tasks reg);
          timer = \<lparr>tm_grain = g, tm_callback = callback, tm_interval = interval, tm_due_time = due\<rparr>
      in (tid, reg\<lparr>tr_timers := dset (tr_timers reg) tid timer,
                  tr_grain_timers := dset (tr_grain_timers reg) g (timers_of reg g @ [tid]),
                  tr_tasks := tr_tasks reg @ [(timer, TimerCreated)]\<rparr>))"

definition cancel_task :: "nat \<Rightarrow> (GrainTimer \<times> timer_phase) list \<Rightarrow> (GrainTimer \<times> timer_phase) list" where
  "cancel_task tid tasks = tasks[tid := (fst (tasks ! tid), TimerEnded)]"

text \<open>The list of the grain is changed in place; a grain without one is not given one.\<close>

definition unregister_timer :: "nat \<Rightarrow> TimerRegistry \<Rightarrow> TimerRegistry" where
  "unregister_timer tid reg =
     (case dget (tr_timers reg) tid of
        None \<Rightarrow> reg
      | Some timer \<Rightarrow>
          let reg1 = reg\<lparr>tr_timers := dpop (tr_timers reg) tid, tr_tasks := cancel_task tid (tr_tasks reg)\<rparr>
          in if tid \<in> set (timers_of reg1 (tm_grain timer))
             then reg1\<lparr>tr_grain_timers := dset (tr_grain_timers reg1) (tm_grain timer)
                         (remove1 tid (timers_of reg1 (tm_grain timer)))\<rparr>
             else reg1)"

fun cancel_timers :: "nat list \<Rightarrow> TimerRegistry \<Rightarrow> TimerRegistry" where
  "cancel_timers [] reg = reg"
| "cancel_timers (tid # tids) reg =
     cancel_timers tids
       (case dget (tr_timers reg) tid of
          None \<Rightarrow> reg
        | Some _ \<Rightarrow> reg\<lparr>tr_timers := dpop (tr_timers reg) tid, tr_tasks := cancel_task tid (tr_tasks reg)\<rparr>)"

definition unregister_all :: "GrainId \<Rightarrow> TimerRegistry \<Rightarrow> TimerRegistry" where
  "unregister_all g reg =
     cancel_timers (timers_of reg g) (reg\<lparr>tr_grain_timers := dpop (tr_grain_timers reg) g\<rparr>)"

text \<open>What a timer does next, with the answer of the call it may be waiting for.\<close>

datatype timer_action = TimerSleeps rat | TimerInvokes GrainId pystr | TimerWarns

definition timer_loop :: "GrainTimer \<Rightarrow> timer_phase \<Rightarrow> exn + json \<Rightarrow> timer_phase \<times> timer_action list" where
  "timer_loop timer phase answer =
     (let call = (TimerCalling, [TimerInvokes (tm_grain timer) (tm_callback timer)]);
          sleep = [TimerSleeps (tm_interval timer)]
      in case phase of
           TimerCreated \<Rightarrow> if tm_due_time timer > 0 then (TimerDue, [TimerSleeps (tm_due_time timer)]) else call
         | TimerDue \<Rightarrow> call
         | TimerCalling \<Rightarrow> (case answer of Inl _ \<Rightarrow> (TimerWaiting, TimerWarns # sleep) | Inr _ \<Rightarrow> (TimerWaiting, sleep))
         | TimerWaiting \<Rightarrow> call
         | TimerEnded \<Rightarrow> (TimerEnded, []))"

definition timer_wake :: "nat \<Rightarrow> exn + json \<Rightarrow> TimerRegistry \<Rightarrow> timer_action list \<times> TimerRegistry" where
  "timer_wake tid answer reg =
     (if tid < length (tr_tasks reg)
      then (case tr_tasks reg ! tid of
              (timer, phase) \<Rightarrow>
                (case timer_loop timer phase answer of
                   (phase', acts) \<Rightarrow> (acts, reg\<lparr>tr_tasks := (tr_tasks reg)[tid := (timer, phase')]\<rparr>)))
      else ([], reg))"

datatype timer_operation =
    RegisterTimer GrainId pystr rat rat
  | UnregisterTimer nat
  | UnregisterAll GrainId
  | TimerWake nat "exn + json"

fun timer_step :: "timer_operation \<Rightarrow> TimerRegistry \<Rightarrow> timer_action list \<times> TimerRegistry" where
  "timer_step (RegisterTimer g cb interval due) reg = ([], snd (register_timer g cb interval due reg))"
| "timer_step (UnregisterTimer tid) reg = ([], unregister_timer tid reg)"
| "timer_step (UnregisterAll g) reg = ([], unregister_all g reg)"
| "timer_step (TimerWake tid answer) reg = timer_wake tid answer reg"

text \<open>The registry after some events, and what each timer did.\<close>

fun timer_run :: "timer_operation list \<Rightarrow> TimerRegistry \<Rightarrow> (nat \<times> timer_action) list \<times> TimerRegistry" where
  "timer_run [] reg = ([], reg)"
| "timer_run (ev # evs) reg =
     (case timer_step ev reg of
        (acts, reg1) \<Rightarrow>
          (case timer_run evs reg1 of
             (trace, reg2) \<Rightarrow> (map (Pair (case ev of TimerWake tid _ \<Rightarrow> tid | _ \<Rightarrow> 0)) acts @ trace, reg2)))"

subsection \<open>Classes and references\<close>

lemma first_metadata_own [simp]: "first_metadata (Some m # ms) = Some m"
  by simp

text \<open>A decorated class is found under the type name its references carry, until a class of the same name is decorated.\<close>

lemma reference_reaches_class:
  assumes "grain st storage cls reg = (cls', reg')"
  shows "registered_class reg' (grain_type (ref_identity (get_grain cls' key))) = Inr cls'"
    "grain_key (ref_identity (get_grain cls' key)) = key"
    "pc_name other \<noteq> pc_name cls \<Longrightarrow>
      registered_class (snd (grain st2 storage2 other reg')) (grain_type (ref_identity (get_grain cls' key))) = Inr cls'"
  using assms by (auto simp: grain_def registered_class_def get_grain_def get_grain_type_name_def Let_def)

text \<open>A class that inherits from a grain class and is not decorated itself has references to the inherited one.\<close>

lemma undecorated_subclass:
  assumes "pc_own_metadata cls = None" "pc_inherited_metadata cls = Some m # ms"
  shows "ref_identity (get_grain cls key) = GrainId (meta_grain_type m) key"
  using assms by (simp add: get_grain_def get_grain_type_name_def)

lemma inferred_state:
  "infer_state_type [(True, Some t # args)] = Some t" "infer_state_type [(True, None # args)] = None"
  "meta_state_type (the (pc_own_metadata (fst (grain (Some t) storage cls reg)))) = Some t"
  by (simp_all add: grain_def Let_def)

lemma identity_before_and_after:
  "grain_identity None (Some g) = Inr g" "grain_identity (set_identity g own) c = Inr g"
  "isl (grain_identity own c) \<longleftrightarrow> own = None \<and> c = None"
  by (auto simp: grain_identity_def set_identity_def split: option.splits)

subsection \<open>The registry of timers\<close>

text \<open>The table holds exactly the timers whose tasks run, and every grain's list exactly its own.\<close>

definition timers_ok :: "TimerRegistry \<Rightarrow> bool" where
  "timers_ok reg \<longleftrightarrow>
     (\<forall>tid timer. dget (tr_timers reg) tid = Some timer \<longleftrightarrow>
        tid < length (tr_tasks reg) \<and> fst (tr_tasks reg ! tid) = timer \<and> snd (tr_tasks reg ! tid) \<noteq> TimerEnded)
   \<and> (\<forall>g. distinct (timers_of reg g)
        \<and> (\<forall>tid. tid \<in> set (timers_of reg g) \<longleftrightarrow> (\<exists>timer. dget (tr_timers reg) tid = Some timer \<and> tm_grain timer = g)))"

lemma timers_okD:
  assumes "timers_ok reg"
  shows "dget (tr_timers reg) tid = Some timer \<longleftrightarrow>
      tid < length (tr_tasks reg) \<and> fst (tr_tasks reg ! tid) = timer \<and> snd (tr_tasks reg ! tid) \<noteq> TimerEnded"
    "distinct (timers_of reg g)"
    "tid \<in> set (timers_of reg g) \<longleftrightarrow> (\<exists>timer. dget (tr_timers reg) tid = Some timer \<and> tm_grain timer = g)"
  using assms unfolding timers_ok_def by blast+

lemma timers_okI:
  assumes "\<And>tid timer. dget (tr_timers reg) tid = Some timer \<longleftrightarrow>
      tid < length (tr_tasks reg) \<and> fst (tr_tasks reg ! tid) = timer \<and> snd (tr_tasks reg ! tid) \<noteq> TimerEnded"
    "\<And>g. distinct (timers_of reg g)"
    "\<And>tid g. tid \<in> set (timers_of reg g) \<longleftrightarrow> (\<exists>timer. dget (tr_timers reg) tid = Some timer \<and> tm_grain timer = g)"
  shows "timers_ok reg"
  using assms unfolding timers_ok_def by blast

lemma register_ok:
  assumes "timers_ok reg"
  shows "timers_ok (snd (register_timer g cb interval due reg))" (is "timers_ok ?reg")
proof (rule timers_okI)
  let ?n = "length (tr_tasks reg)"
  note ok = timers_okD [OF assms]
  have new: "dget (tr_timers reg) ?n = None" using ok(1) [of ?n] by (cases "dget (tr_timers reg) ?n") auto
  then have fresh: "?n \<notin> set (timers_of reg h)" for h using ok(3) by simp
  have of_new: "timers_of ?reg h = (if h = g then timers_of reg g @ [?n] else timers_of reg h)" for h
    by (simp add: timers_of_def register_timer_def Let_def)
  have get: "dget (tr_timers ?reg) tid = (if tid = ?n then Some \<lparr>tm_grain = g, tm_callback = cb, tm_interval = interval, tm_due_time = due\<rparr>
      else dget (tr_timers reg) tid)" for tid
    by (simp add: register_timer_def Let_def)
  have tasks: "tr_tasks ?reg = tr_tasks reg @ [(\<lparr>tm_grain = g, tm_callback = cb, tm_interval = interval, tm_due_time = due\<rparr>, TimerCreated)]"
    by (simp add: register_timer_def Let_def)
  show "dget (tr_timers ?reg) tid = Some timer \<longleftrightarrow>
      tid < length (tr_tasks ?reg) \<and> fst (tr_tasks ?reg ! tid) = timer \<and> snd (tr_tasks ?reg ! tid) \<noteq> TimerEnded" for tid timer
    using ok(1) [of tid timer] new unfolding get tasks by (auto simp: nth_append less_Suc_eq)
  show "distinct (timers_of ?reg h)" for h using ok(2) fresh unfolding of_new by simp
  show "tid \<in> set (timers_of ?reg h) \<longleftrightarrow> (\<exists>timer. dget (tr_timers ?reg) tid = Some timer \<and> tm_grain timer = h)" for tid h
    using ok(3) [of tid h] fresh unfolding of_new get by auto
qed

lemma cancel_task_nth:
  "length (cancel_task tid ts) = length ts"
  "k < length ts \<Longrightarrow> cancel_task tid ts ! k = (fst (ts ! k), if k = tid then TimerEnded else snd (ts ! k))"
  by (auto simp: cancel_task_def nth_list_update prod_eq_iff)

lemma cancelled_get:
  assumes "timers_ok reg" "dget (tr_timers reg) tid = Some timer"
  shows "dget (dpop (tr_timers reg) tid) k = Some t \<longleftrightarrow>
      k < length (cancel_task tid (tr_tasks reg)) \<and> fst (cancel_task tid (tr_tasks reg) ! k) = t
      \<and> snd (cancel_task tid (tr_tasks reg) ! k) \<noteq> TimerEnded"
  using timers_okD(1) [OF assms(1), of k t] by (auto simp: cancel_task_nth)

lemma unregister_ok:
  assumes "timers_ok reg"
  shows "timers_ok (unregister_timer tid reg)"
proof (cases "dget (tr_timers reg) tid")
  case None
  then show ?thesis using assms by (simp add: unregister_timer_def)
next
  case (Some timer)
  let ?reg = "unregister_timer tid reg"
  note ok = timers_okD [OF assms]
  have mem: "tid \<in> set (timers_of reg (tm_grain timer))" using Some ok(3) by simp
  have reg: "tr_timers ?reg = dpop (tr_timers reg) tid" "tr_tasks ?reg = cancel_task tid (tr_tasks reg)"
    using Some by (simp_all add: unregister_timer_def Let_def)
  have of_new: "timers_of ?reg h = (if h = tm_grain timer then remove1 tid (timers_of reg h) else timers_of reg h)" for h
    using Some mem by (simp add: unregister_timer_def timers_of_def Let_def)
  show ?thesis
  proof (rule timers_okI)
    show "dget (tr_timers ?reg) k = Some t \<longleftrightarrow> k < length (tr_tasks ?reg) \<and> fst (tr_tasks ?reg ! k) = t
        \<and> snd (tr_tasks ?reg ! k) \<noteq> TimerEnded" for k t
      unfolding reg by (rule cancelled_get [OF assms Some])
    show "distinct (timers_of ?reg h)" for h using ok(2) unfolding of_new by simp
    show "k \<in> set (timers_of ?reg h) \<longleftrightarrow> (\<exists>t. dget (tr_timers ?reg) k = Some t \<and> tm_grain t = h)" for k h
      using ok(2) [of h] ok(3) [of k h] Some unfolding of_new reg by auto
  qed
qed

lemma cancel_timers_eq:
  "tr_grain_timers (cancel_timers tids reg) = tr_grain_timers reg"
  "dget (tr_timers (cancel_timers tids reg)) k = (if k \<in> set tids then None else dget (tr_timers reg) k)"
  "length (tr_tasks (cancel_timers tids reg)) = length (tr_tasks reg)"
  "k < length (tr_tasks reg) \<Longrightarrow> tr_tasks (cancel_timers tids reg) ! k =
     (fst (tr_tasks reg ! k), if k \<in> set tids \<and> dget (tr_timers reg) k \<noteq> None then TimerEnded else snd (tr_tasks reg ! k))"
  by (induction tids arbitrary: reg) (auto simp: cancel_task_nth split: option.split)

lemma unregister_all_ok:
  assumes "timers_ok reg"
  shows "timers_ok (unregister_all g reg)" (is "timers_ok ?reg")
proof (rule timers_okI)
  note ok = timers_okD [OF assms]
  have of_new: "timers_of ?reg h = (if h = g then [] else timers_of reg h)" for h
    by (simp add: unregister_all_def timers_of_def cancel_timers_eq)
  have get: "dget (tr_timers ?reg) k = (if k \<in> set (timers_of reg g) then None else dget (tr_timers reg) k)" for k
    by (simp add: unregister_all_def cancel_timers_eq)
  show "dget (tr_timers ?reg) k = Some t \<longleftrightarrow> k < length (tr_tasks ?reg) \<and> fst (tr_tasks ?reg ! k) = t
      \<and> snd (tr_tasks ?reg ! k) \<noteq> TimerEnded" for k t
    using ok(1) [of k t] ok(3) [of k g] unfolding get
    by (auto simp: unregister_all_def cancel_timers_eq split: if_splits)
  show "distinct (timers_of ?reg h)" for h using ok(2) unfolding of_new by simp
  show "k \<in> set (timers_of ?reg h) \<longleftrightarrow> (\<exists>t. dget (tr_timers ?reg) k = Some t \<and> tm_grain t = h)" for k h
    using ok(3) [of k h] ok(3) [of k g] unfolding of_new get by auto
qed

lemma timer_loop_ended: "fst (timer_loop timer phase answer) = TimerEnded \<longleftrightarrow> phase = TimerEnded"
  by (auto simp: timer_loop_def Let_def split: timer_phase.split sum.split)

lemma wake_eq:
  assumes "tid < length (tr_tasks reg)" "tr_tasks reg ! tid = (timer, phase)"
    "timer_loop timer phase answer = (phase', acts)"
  shows "timer_wake tid answer reg = (acts, reg\<lparr>tr_tasks := (tr_tasks reg)[tid := (timer, phase')]\<rparr>)"
  using assms by (simp add: timer_wake_def)

lemma wake_ok:
  assumes "timers_ok reg"
  shows "timers_ok (snd (timer_wake tid answer reg))" "tr_timers (snd (timer_wake tid answer reg)) = tr_timers reg"
proof -
  have "timers_ok (snd (timer_wake tid answer reg)) \<and> tr_timers (snd (timer_wake tid answer reg)) = tr_timers reg"
  proof (cases "tid < length (tr_tasks reg)")
    case True
    obtain timer phase where t: "tr_tasks reg ! tid = (timer, phase)" by fastforce
    obtain phase' acts where l: "timer_loop timer phase answer = (phase', acts)" by fastforce
    have ended: "phase' = TimerEnded \<longleftrightarrow> phase = TimerEnded" using timer_loop_ended [of timer phase answer] l by simp
    let ?reg = "reg\<lparr>tr_tasks := (tr_tasks reg)[tid := (timer, phase')]\<rparr>"
    have "timers_ok ?reg"
    proof (rule timers_okI)
      show "dget (tr_timers ?reg) k = Some t \<longleftrightarrow> k < length (tr_tasks ?reg) \<and> fst (tr_tasks ?reg ! k) = t
          \<and> snd (tr_tasks ?reg ! k) \<noteq> TimerEnded" for k t
        using timers_okD(1) [OF assms, of k t] True \<open>tr_tasks reg ! tid = _\<close> ended by (auto simp: nth_list_update)
    qed (use timers_okD(2,3) [OF assms] in \<open>simp_all add: timers_of_def\<close>)
    then show ?thesis using wake_eq [OF True t l] by simp
  qed (use assms in \<open>simp add: timer_wake_def\<close>)
  then show "timers_ok (snd (timer_wake tid answer reg))" "tr_timers (snd (timer_wake tid answer reg)) = tr_timers reg"
    by simp_all
qed

lemma timer_step_ok: "timers_ok reg \<Longrightarrow> timers_ok (snd (timer_step ev reg))"
  by (cases ev) (simp_all add: register_ok unregister_ok unregister_all_ok wake_ok)

lemma timer_run_ok: "timers_ok reg \<Longrightarrow> timers_ok (snd (timer_run evs reg))"
  by (induction evs arbitrary: reg) (use timer_step_ok in \<open>fastforce simp: case_prod_beta\<close>)+

lemma new_timers_ok: "timers_ok new_timer_registry"
  by (simp add: timers_ok_def new_timer_registry_def timers_of_def)

subsection \<open>What a timer does\<close>

definition timer_prelude :: "GrainTimer \<Rightarrow> timer_action list" where
  "timer_prelude timer = (if tm_due_time timer > 0 then [TimerSleeps (tm_due_time timer)] else [])"

definition timer_rounds :: "GrainTimer \<Rightarrow> nat \<Rightarrow> timer_action list" where
  "timer_rounds timer k =
     concat (replicate k [TimerInvokes (tm_grain timer) (tm_callback timer), TimerSleeps (tm_interval timer)])"

text \<open>The actions follow the schedule: the due time, then call and interval in turn, as far as they go.\<close>

definition on_schedule :: "GrainTimer \<Rightarrow> timer_action list \<Rightarrow> bool" where
  "on_schedule timer acts \<longleftrightarrow> acts = take (length acts) (timer_prelude timer @ timer_rounds timer (length acts))"

definition acts_of :: "nat \<Rightarrow> (nat \<times> timer_action) list \<Rightarrow> timer_action list" where
  "acts_of tid trace = filter (\<lambda>a. a \<noteq> TimerWarns) (map snd (filter (\<lambda>(i, a). i = tid) trace))"

lemma acts_of_append [simp]: "acts_of tid (xs @ ys) = acts_of tid xs @ acts_of tid ys"
  by (simp add: acts_of_def)

lemma acts_of_pairs: "acts_of tid (map (Pair i) acts) = (if i = tid then filter (\<lambda>a. a \<noteq> TimerWarns) acts else [])"
  by (induction acts) (auto simp: acts_of_def)

definition at_phase :: "GrainTimer \<Rightarrow> timer_phase \<Rightarrow> timer_action list \<Rightarrow> bool" where
  "at_phase timer phase acts \<longleftrightarrow>
     (case phase of
        TimerCreated \<Rightarrow> acts = []
      | TimerDue \<Rightarrow> tm_due_time timer > 0 \<and> acts = timer_prelude timer
      | TimerCalling \<Rightarrow>
          (\<exists>k. acts = timer_prelude timer @ timer_rounds timer k @ [TimerInvokes (tm_grain timer) (tm_callback timer)])
      | TimerWaiting \<Rightarrow> (\<exists>k. acts = timer_prelude timer @ timer_rounds timer k)
      | TimerEnded \<Rightarrow> on_schedule timer acts)"

lemma timer_rounds_add: "timer_rounds timer (j + k) = timer_rounds timer j @ timer_rounds timer k"
  by (simp add: timer_rounds_def replicate_add)

lemma timer_rounds_Suc:
  "timer_rounds timer (Suc k) =
     timer_rounds timer k @ [TimerInvokes (tm_grain timer) (tm_callback timer), TimerSleeps (tm_interval timer)]"
  using timer_rounds_add [of timer k 1] by (simp add: timer_rounds_def)

lemma length_timer_rounds [simp]: "length (timer_rounds timer k) = 2 * k"
  by (induction k) (simp_all add: timer_rounds_def)

lemma on_schedule_rounds:
  assumes "timer_rounds timer m = acts @ rest" "m \<le> length (timer_prelude timer @ acts)"
  shows "on_schedule timer (timer_prelude timer @ acts)"
proof -
  obtain j where "length (timer_prelude timer @ acts) = m + j" using assms(2) le_Suc_ex by blast
  then have "timer_rounds timer (length (timer_prelude timer @ acts)) = acts @ rest @ timer_rounds timer j"
    using assms(1) by (simp only: timer_rounds_add append_assoc)
  then show ?thesis by (simp add: on_schedule_def)
qed

lemma at_phase_on_schedule:
  assumes "at_phase timer phase acts"
  shows "on_schedule timer acts"
proof (cases phase)
  case TimerCreated
  then show ?thesis using assms by (simp add: at_phase_def on_schedule_def)
next
  case TimerDue
  then show ?thesis using assms by (simp add: at_phase_def on_schedule_def timer_prelude_def)
next
  case TimerCalling
  then obtain k where "acts = timer_prelude timer @ timer_rounds timer k @ [TimerInvokes (tm_grain timer) (tm_callback timer)]"
    using assms by (auto simp: at_phase_def)
  then show ?thesis
    using on_schedule_rounds [of timer "Suc k" "timer_rounds timer k @ [TimerInvokes (tm_grain timer) (tm_callback timer)]"
        "[TimerSleeps (tm_interval timer)]"]
    by (simp add: timer_rounds_Suc)
next
  case TimerWaiting
  then obtain k where "acts = timer_prelude timer @ timer_rounds timer k" using assms by (auto simp: at_phase_def)
  then show ?thesis using on_schedule_rounds [of timer k "timer_rounds timer k" "[]"] by simp
next
  case TimerEnded
  then show ?thesis using assms by (simp add: at_phase_def)
qed

lemma timer_loop_phase:
  assumes "at_phase timer phase acts" "timer_loop timer phase answer = (phase', new)"
  shows "at_phase timer phase' (acts @ filter (\<lambda>a. a \<noteq> TimerWarns) new)"
proof (cases phase)
  case TimerCreated
  have "timer_rounds timer 0 = []" by (simp add: timer_rounds_def)
  then show ?thesis using assms TimerCreated
    by (auto simp: at_phase_def timer_loop_def timer_prelude_def Let_def split: if_splits intro!: exI [of _ 0])
next
  case TimerDue
  have "timer_rounds timer 0 = []" by (simp add: timer_rounds_def)
  then show ?thesis using assms TimerDue
    by (auto simp: at_phase_def timer_loop_def Let_def intro!: exI [of _ 0])
next
  case TimerCalling
  then obtain k where a: "acts = timer_prelude timer @ timer_rounds timer k @ [TimerInvokes (tm_grain timer) (tm_callback timer)]"
    using assms(1) by (auto simp: at_phase_def)
  have "phase' = TimerWaiting" "filter (\<lambda>a. a \<noteq> TimerWarns) new = [TimerSleeps (tm_interval timer)]"
    using assms(2) TimerCalling by (auto simp: timer_loop_def Let_def split: sum.splits)
  then show ?thesis using a by (auto simp: at_phase_def timer_rounds_Suc intro!: exI [of _ "Suc k"])
next
  case TimerWaiting
  then show ?thesis using assms by (auto simp: at_phase_def timer_loop_def Let_def)
next
  case TimerEnded
  then show ?thesis using assms by (simp add: at_phase_def timer_loop_def)
qed

text \<open>Where the tasks stand, with what they did so far.\<close>

definition follows_schedule :: "TimerRegistry \<Rightarrow> (nat \<Rightarrow> timer_action list) \<Rightarrow> bool" where
  "follows_schedule reg did \<longleftrightarrow>
     (\<forall>tid. if tid < length (tr_tasks reg) then at_phase (fst (tr_tasks reg ! tid)) (snd (tr_tasks reg ! tid)) (did tid)
            else did tid = [])"

lemma follows_scheduleD:
  "follows_schedule reg did \<Longrightarrow> tid < length (tr_tasks reg) \<Longrightarrow>
     at_phase (fst (tr_tasks reg ! tid)) (snd (tr_tasks reg ! tid)) (did tid)"
  "follows_schedule reg did \<Longrightarrow> \<not> tid < length (tr_tasks reg) \<Longrightarrow> did tid = []"
  unfolding follows_schedule_def by (metis+)

lemma follows_schedule_tasks:
  assumes "follows_schedule reg did" "length (tr_tasks reg') = length (tr_tasks reg)"
    "\<And>tid. tid < length (tr_tasks reg) \<Longrightarrow> tr_tasks reg' ! tid = tr_tasks reg ! tid
        \<or> tr_tasks reg' ! tid = (fst (tr_tasks reg ! tid), TimerEnded)"
  shows "follows_schedule reg' did"
  unfolding follows_schedule_def
proof
  fix tid
  show "if tid < length (tr_tasks reg') then at_phase (fst (tr_tasks reg' ! tid)) (snd (tr_tasks reg' ! tid)) (did tid) else did tid = []"
  proof (cases "tid < length (tr_tasks reg)")
    case True
    note at = follows_scheduleD(1) [OF assms(1) True]
    then have "at_phase (fst (tr_tasks reg ! tid)) TimerEnded (did tid)"
      using at_phase_on_schedule [OF at] by (simp add: at_phase_def)
    then show ?thesis using at assms(3) [OF True] True assms(2) by auto
  qed (use assms(2) follows_scheduleD(2) [OF assms(1)] in simp)
qed

lemma unregister_tasks:
  assumes "tid < length (tr_tasks reg)"
  shows "length (tr_tasks (unregister_timer k reg)) = length (tr_tasks reg)"
    "tr_tasks (unregister_timer k reg) ! tid = tr_tasks reg ! tid
       \<or> tr_tasks (unregister_timer k reg) ! tid = (fst (tr_tasks reg ! tid), TimerEnded)"
  using assms by (auto simp: unregister_timer_def cancel_task_nth Let_def split: option.split)

lemma unregister_length [simp]: "length (tr_tasks (unregister_timer k reg)) = length (tr_tasks reg)"
  by (simp add: unregister_timer_def cancel_task_nth Let_def split: option.split)

lemma timer_step_schedule:
  assumes "follows_schedule reg did" "timer_step ev reg = (acts, reg')"
  shows "follows_schedule reg' (\<lambda>tid. did tid @ acts_of tid (map (Pair (case ev of TimerWake t _ \<Rightarrow> t | _ \<Rightarrow> 0)) acts))"
proof (cases ev)
  case (RegisterTimer g cb interval due)
  then obtain timer where reg': "tr_tasks reg' = tr_tasks reg @ [(timer, TimerCreated)]" and acts: "acts = []"
    using assms(2) by (auto simp: register_timer_def Let_def)
  have none: "did (length (tr_tasks reg)) = []" using follows_scheduleD(2) [OF assms(1)] by simp
  then have "at_phase timer TimerCreated (did (length (tr_tasks reg)))" by (simp add: at_phase_def)
  then have "follows_schedule reg' did" using assms(1)
    unfolding follows_schedule_def reg' by (auto simp: nth_append less_Suc_eq)
  then show ?thesis by (simp add: acts acts_of_def)
next
  case (UnregisterTimer k)
  then show ?thesis using assms(2) follows_schedule_tasks [OF assms(1), of "unregister_timer k reg"] unregister_tasks(2) [of _ reg k]
    by (auto simp: acts_of_def)
next
  case (UnregisterAll g)
  have "follows_schedule (unregister_all g reg) did"
    by (rule follows_schedule_tasks [OF assms(1)]) (auto simp: unregister_all_def cancel_timers_eq prod_eq_iff)
  then show ?thesis using assms(2) UnregisterAll by (auto simp: acts_of_def)
next
  case (TimerWake t answer)
  show ?thesis
  proof (cases "t < length (tr_tasks reg)")
    case True
    obtain timer phase where tp: "tr_tasks reg ! t = (timer, phase)" by fastforce
    obtain phase' new where l: "timer_loop timer phase answer = (phase', new)" by fastforce
    have "at_phase timer phase (did t)" using follows_scheduleD(1) [OF assms(1) True] tp by simp
    note at = timer_loop_phase [OF this l]
    have r: "acts = new" "reg' = reg\<lparr>tr_tasks := (tr_tasks reg)[t := (timer, phase')]\<rparr>"
      using assms(2) TimerWake wake_eq [OF True tp l] by simp_all
    show ?thesis using assms(1) at TimerWake True
      by (auto simp: follows_schedule_def r acts_of_pairs nth_list_update)
  next
    case False
    then show ?thesis using assms TimerWake by (auto simp: timer_wake_def acts_of_def)
  qed
qed

lemma timer_run_schedule:
  assumes "timer_run evs reg = (trace, reg')" "follows_schedule reg did"
  shows "follows_schedule reg' (\<lambda>tid. did tid @ acts_of tid trace)"
  using assms
proof (induction evs arbitrary: reg did trace)
  case Nil
  then show ?case by (simp add: acts_of_def)
next
  case (Cons ev evs)
  obtain acts reg1 where s: "timer_step ev reg = (acts, reg1)" by fastforce
  obtain trace2 reg2 where r: "timer_run evs reg1 = (trace2, reg2)" by fastforce
  note Cons.IH [OF _ timer_step_schedule [OF Cons.prems(2) s], of trace2]
  then show ?case using Cons.prems(1) s r by auto
qed

text \<open>A task that ended does nothing more.\<close>

lemma timer_run_ended:
  assumes "tid < length (tr_tasks reg)" "snd (tr_tasks reg ! tid) = TimerEnded"
  shows "acts_of tid (fst (timer_run evs reg)) = []"
  using assms
proof (induction evs arbitrary: reg)
  case Nil
  then show ?case by (simp add: acts_of_def)
next
  case (Cons ev evs)
  have step: "acts_of tid (map (Pair (case ev of TimerWake t _ \<Rightarrow> t | _ \<Rightarrow> 0)) (fst (timer_step ev reg))) = []
      \<and> tid < length (tr_tasks (snd (timer_step ev reg))) \<and> snd (tr_tasks (snd (timer_step ev reg)) ! tid) = TimerEnded"
  proof (cases ev)
    case (TimerWake t answer)
    then show ?thesis using Cons.prems
      by (auto simp: timer_wake_def timer_loop_def acts_of_pairs nth_list_update case_prod_beta)
  next
    case (UnregisterTimer k)
    then show ?thesis using Cons.prems unregister_tasks(2) [OF Cons.prems(1), of k] by (auto simp: acts_of_def)
  qed (use Cons.prems in \<open>auto simp: register_timer_def Let_def nth_append unregister_all_def cancel_timers_eq acts_of_def\<close>)
  then show ?case using Cons.IH [of "snd (timer_step ev reg)"] by (simp add: case_prod_beta)
qed

text \<open>
  C36. Timers: whatever is registered, cancelled and woken in whatever order, and whatever the calls
  raise, every timer does exactly its due time and then calls of its own grain and callback with its
  interval after each, as far as it gets; a registered timer goes on at every wake; and a timer that
  was cancelled, alone or with all timers of its grain, does nothing any more.
\<close>

theorem timers_keep_schedule:
  assumes "timer_run evs new_timer_registry = (trace, reg)"
  shows "(\<forall>tid < length (tr_tasks reg). on_schedule (fst (tr_tasks reg ! tid)) (acts_of tid trace))
    \<and> (dget (tr_timers reg) tid = Some timer \<longrightarrow>
        acts_of tid (map (Pair tid) (fst (timer_wake tid answer reg))) \<noteq> []
        \<and> dget (tr_timers (snd (timer_wake tid answer reg))) tid = Some timer
        \<and> acts_of tid (fst (timer_run later (unregister_timer tid reg))) = []
        \<and> acts_of tid (fst (timer_run later (unregister_all (tm_grain timer) reg))) = [])"
proof -
  have ok: "timers_ok reg" using timer_run_ok [OF new_timers_ok, of evs] assms by simp
  have "follows_schedule new_timer_registry (\<lambda>_. [])" by (simp add: follows_schedule_def new_timer_registry_def)
  note sched = timer_run_schedule [OF assms this]
  have "on_schedule (fst (tr_tasks reg ! k)) (acts_of k trace)" if "k < length (tr_tasks reg)" for k
    using at_phase_on_schedule [OF follows_scheduleD(1) [OF sched that]] by simp
  moreover have "acts_of tid (map (Pair tid) (fst (timer_wake tid answer reg))) \<noteq> []
      \<and> dget (tr_timers (snd (timer_wake tid answer reg))) tid = Some timer
      \<and> acts_of tid (fst (timer_run later (unregister_timer tid reg))) = []
      \<and> acts_of tid (fst (timer_run later (unregister_all (tm_grain timer) reg))) = []"
    if reg: "dget (tr_timers reg) tid = Some timer"
  proof (intro conjI)
    have t: "tid < length (tr_tasks reg)" "fst (tr_tasks reg ! tid) = timer" "snd (tr_tasks reg ! tid) \<noteq> TimerEnded"
      using timers_okD(1) [OF ok] reg by auto
    obtain phase where tp: "tr_tasks reg ! tid = (timer, phase)" "phase \<noteq> TimerEnded" using t by (metis prod.collapse)
    obtain phase' new where l: "timer_loop timer phase answer = (phase', new)" by fastforce
    then have "filter (\<lambda>a. a \<noteq> TimerWarns) new \<noteq> []"
      using tp(2) by (auto simp: timer_loop_def Let_def split: timer_phase.splits sum.splits if_splits)
    then show "acts_of tid (map (Pair tid) (fst (timer_wake tid answer reg))) \<noteq> []"
      using wake_eq [OF t(1) tp(1) l] by (simp add: acts_of_pairs)
    show "dget (tr_timers (snd (timer_wake tid answer reg))) tid = Some timer" using wake_ok(2) [OF ok] reg by simp
    have "snd (tr_tasks (unregister_timer tid reg) ! tid) = TimerEnded"
      using reg t(1) by (simp add: unregister_timer_def cancel_task_nth Let_def)
    then show "acts_of tid (fst (timer_run later (unregister_timer tid reg))) = []"
      using timer_run_ended [of tid "unregister_timer tid reg"] t(1) by simp
    have "snd (tr_tasks (unregister_all (tm_grain timer) reg) ! tid) = TimerEnded"
      using reg t(1) timers_okD(3) [OF ok, of tid "tm_grain timer"] by (simp add: unregister_all_def cancel_timers_eq)
    then show "acts_of tid (fst (timer_run later (unregister_all (tm_grain timer) reg))) = []"
      using timer_run_ended [of tid "unregister_all (tm_grain timer) reg"] t(1) by (simp add: unregister_all_def cancel_timers_eq)
  qed
  ultimately show ?thesis by blast
qed

theorem timers_keep_schedule_witness:
  "\<exists>trace reg. timer_run [RegisterTimer (GrainId [] []) (lit ''tick'') 5 2, TimerWake 0 (Inr JNull), TimerWake 0 (Inr JNull)]
      new_timer_registry = (trace, reg)
    \<and> acts_of 0 trace = [TimerSleeps 2, TimerInvokes (GrainId [] []) (lit ''tick'')]
    \<and> acts_of 0 (fst (timer_run [TimerWake 0 (Inr JNull)] (unregister_timer 0 reg))) = []"
proof -
  let ?evs = "[RegisterTimer (GrainId [] []) (lit ''tick'') 5 2, TimerWake 0 (Inr JNull), TimerWake 0 (Inr JNull)]"
  obtain trace reg where r: "timer_run ?evs new_timer_registry = (trace, reg)" by fastforce
  have tr: "acts_of 0 trace = [TimerSleeps 2, TimerInvokes (GrainId [] []) (lit ''tick'')]"
    "\<exists>timer. dget (tr_timers reg) 0 = Some timer"
    using r by (auto simp: new_timer_registry_def register_timer_def timers_of_def timer_wake_def timer_loop_def acts_of_def Let_def)
  then show ?thesis
    using timers_keep_schedule [OF r, of 0 _ "Inr JNull" "[TimerWake 0 (Inr JNull)]"] r by blast
qed

end
