(* ===== verification/MemoryNetwork.thy ===== *)
theory MemoryNetwork
  imports PyText
begin

text \<open>
  \<^verbatim>\<open>pyleans/net/memory_network.py\<close>: the simulated network behind the network port. One direction
  of a connection is a transport with its write accounting and the stream reader of the other side;
  reads and drains that have to wait are separate steps. The network itself is a table of servers.
  \<^verbatim>\<open>asyncio.StreamReader\<close> is the buffer and the end-of-file mark of the standard library's, with
  \<^verbatim>\<open>readexactly\<close> and \<^verbatim>\<open>read(n)\<close> for \<open>n \<ge> 0\<close>.
\<close>

subsection \<open>One direction\<close>

definition DEFAULT_HIGH_WATER :: nat where
  "DEFAULT_HIGH_WATER = 64 * 1024"

definition DEFAULT_LOW_WATER :: nat where
  "DEFAULT_LOW_WATER = 16 * 1024"

datatype net_error = ResetError | RefusedError | AddressInUse | IncompleteReadErr bytes | AssertionErr | NetValueError

datatype drain_state = DrainWaiting | Drained | DrainReset

record MemoryTransport =
  mt_high_water :: nat
  mt_low_water :: nat
  mt_buffered :: nat
  mt_closing :: bool
  mt_reset_pending :: bool
  mt_drain_waiter :: "nat option"
  mt_drains :: "drain_state list"
  rd_buffer :: bytes
  rd_eof :: bool

definition new_memory_transport :: "nat \<Rightarrow> nat \<Rightarrow> net_error + MemoryTransport" where
  "new_memory_transport high low =
     (if low \<ge> high then Inl NetValueError
      else Inr \<lparr>mt_high_water = high, mt_low_water = low, mt_buffered = 0, mt_closing = False, mt_reset_pending = False,
                mt_drain_waiter = None, mt_drains = [], rd_buffer = [], rd_eof = False\<rparr>)"

definition is_over_high_water :: "MemoryTransport \<Rightarrow> bool" where
  "is_over_high_water t \<longleftrightarrow> mt_buffered t \<ge> mt_high_water t"

definition settle_drain :: "nat \<Rightarrow> drain_state \<Rightarrow> drain_state list \<Rightarrow> drain_state list" where
  "settle_drain f v fs = (if f < length fs \<and> fs ! f = DrainWaiting then fs[f := v] else fs)"

definition settle_waiter :: "drain_state \<Rightarrow> MemoryTransport \<Rightarrow> MemoryTransport" where
  "settle_waiter v t =
     (case mt_drain_waiter t of None \<Rightarrow> t | Some f \<Rightarrow> t\<lparr>mt_drains := settle_drain f v (mt_drains t)\<rparr>)"

text \<open>\<^verbatim>\<open>await_drain\<close>: it raises, returns, or waits on a future of its own.\<close>

datatype drain_start = DrainRaises net_error | DrainReturns | DrainWaits nat

definition drain_begin :: "MemoryTransport \<Rightarrow> drain_start \<times> MemoryTransport" where
  "drain_begin t =
     (if mt_reset_pending t then (DrainRaises ResetError, t)
      else if \<not> is_over_high_water t then (DrainReturns, t)
      else (let f = length (mt_drains t)
            in (DrainWaits f, t\<lparr>mt_drains := mt_drains t @ [DrainWaiting], mt_drain_waiter := Some f\<rparr>)))"

text \<open>The task of a settled future goes on: its \<^verbatim>\<open>finally\<close> clears the waiter, whoever's it is.\<close>

definition drain_end :: "nat \<Rightarrow> MemoryTransport \<Rightarrow> MemoryTransport" where
  "drain_end f t =
     (if f < length (mt_drains t) \<and> mt_drains t ! f \<noteq> DrainWaiting then t\<lparr>mt_drain_waiter := None\<rparr> else t)"

definition trigger_reset :: "MemoryTransport \<Rightarrow> MemoryTransport" where
  "trigger_reset t = settle_waiter DrainReset (t\<lparr>mt_reset_pending := True\<rparr>)"

definition feed_peer_eof :: "MemoryTransport \<Rightarrow> MemoryTransport" where
  "feed_peer_eof t = t\<lparr>rd_eof := True\<rparr>"

text \<open>Feeding data after the end of file fails in the reader, after the bytes were counted.\<close>

definition memory_write :: "bytes \<Rightarrow> MemoryTransport \<Rightarrow> (net_error + unit) \<times> MemoryTransport" where
  "memory_write data t =
     (if mt_reset_pending t then (Inl ResetError, t)
      else if mt_closing t then (Inl ResetError, t)
      else if data = [] then (Inr (), t)
      else
        let t1 = t\<lparr>mt_buffered := mt_buffered t + length data\<rparr>
        in if rd_eof t then (Inl AssertionErr, t1) else (Inr (), t1\<lparr>rd_buffer := rd_buffer t @ data\<rparr>))"

text \<open>\<^verbatim>\<open>writelines\<close>: one write after the other, up to the first that raises.\<close>

fun memory_writelines :: "bytes list \<Rightarrow> MemoryTransport \<Rightarrow> (net_error + unit) \<times> MemoryTransport" where
  "memory_writelines [] t = (Inr (), t)"
| "memory_writelines (d # ds) t =
     (case memory_write d t of
        (Inl e, t1) \<Rightarrow> (Inl e, t1)
      | (Inr _, t1) \<Rightarrow> memory_writelines ds t1)"

definition notify_consumed :: "nat \<Rightarrow> MemoryTransport \<Rightarrow> MemoryTransport" where
  "notify_consumed n t =
     (let t1 = t\<lparr>mt_buffered := mt_buffered t - n\<rparr>
      in if mt_buffered t1 \<le> mt_low_water t1 then settle_waiter Drained t1 else t1)"

text \<open>\<^verbatim>\<open>_notify_peer\<close>: nothing is told of a read of nothing.\<close>

definition notify_peer :: "nat \<Rightarrow> MemoryTransport \<Rightarrow> MemoryTransport" where
  "notify_peer n t = (if n = 0 then t else notify_consumed n t)"

text \<open>
  The reader's side; no outcome is a read that has to wait. An incomplete read takes the rest of the
  buffer with its exception, and the transport is not told.
\<close>

definition memory_readexactly :: "nat \<Rightarrow> MemoryTransport \<Rightarrow> (net_error + bytes) option \<times> MemoryTransport" where
  "memory_readexactly n t =
     (if n \<le> length (rd_buffer t)
      then (Some (Inr (take n (rd_buffer t))), notify_peer n (t\<lparr>rd_buffer := drop n (rd_buffer t)\<rparr>))
      else if rd_eof t then (Some (Inl (IncompleteReadErr (rd_buffer t))), t\<lparr>rd_buffer := []\<rparr>)
      else (None, t))"

definition memory_read :: "nat \<Rightarrow> MemoryTransport \<Rightarrow> (net_error + bytes) option \<times> MemoryTransport" where
  "memory_read n t =
     (if n = 0 then (Some (Inr []), t)
      else if rd_buffer t = [] \<and> \<not> rd_eof t then (None, t)
      else
        let data = take n (rd_buffer t)
        in (Some (Inr data), notify_peer (length data) (t\<lparr>rd_buffer := drop n (rd_buffer t)\<rparr>)))"

definition memory_close :: "MemoryTransport \<Rightarrow> MemoryTransport" where
  "memory_close t = (if mt_closing t then t else t\<lparr>mt_closing := True, rd_eof := True\<rparr>)"

definition memory_abort :: "MemoryTransport \<Rightarrow> MemoryTransport" where
  "memory_abort t = memory_close t"

definition memory_write_eof :: "MemoryTransport \<Rightarrow> MemoryTransport" where
  "memory_write_eof t = (if mt_closing t then t else t\<lparr>rd_eof := True\<rparr>)"

definition memory_is_reading :: "MemoryTransport \<Rightarrow> bool" where
  "memory_is_reading t \<longleftrightarrow> \<not> mt_closing t"

definition set_write_buffer_limits :: "nat option \<Rightarrow> nat option \<Rightarrow> MemoryTransport \<Rightarrow> (net_error + unit) \<times> MemoryTransport" where
  "set_write_buffer_limits high low t =
     (let h = (case high of None \<Rightarrow> mt_high_water t | Some h \<Rightarrow> h);
          l = (case low of None \<Rightarrow> h div 4 | Some l \<Rightarrow> l)
      in if l \<ge> h then (Inl NetValueError, t) else (Inr (), t\<lparr>mt_high_water := h, mt_low_water := l\<rparr>))"

text \<open>What happens to a direction, and what it has taken and given.\<close>

datatype pipe_event =
    PipeWrite bytes
  | PipeReadExactly nat
  | PipeRead nat
  | PipeDrain
  | PipeDrainEnd nat
  | PipeReset
  | PipePeerEof
  | PipeClose
  | PipeWriteEof
  | PipeLimits "nat option" "nat option"

text \<open>The state after an event, the bytes a write put in and the bytes a read took out.\<close>

fun pipe_step :: "pipe_event \<Rightarrow> MemoryTransport \<Rightarrow> MemoryTransport \<times> bytes \<times> bytes" where
  "pipe_step (PipeWrite data) t = (case memory_write data t of (Inr _, t') \<Rightarrow> (t', data, []) | (Inl _, t') \<Rightarrow> (t', [], []))"
| "pipe_step (PipeReadExactly n) t =
     (case memory_readexactly n t of
        (Some (Inr data), t') \<Rightarrow> (t', [], data)
      | (Some (Inl (IncompleteReadErr data)), t') \<Rightarrow> (t', [], data)
      | (_, t') \<Rightarrow> (t', [], []))"
| "pipe_step (PipeRead n) t = (case memory_read n t of (Some (Inr data), t') \<Rightarrow> (t', [], data) | (_, t') \<Rightarrow> (t', [], []))"
| "pipe_step PipeDrain t = (snd (drain_begin t), [], [])"
| "pipe_step (PipeDrainEnd f) t = (drain_end f t, [], [])"
| "pipe_step PipeReset t = (trigger_reset t, [], [])"
| "pipe_step PipePeerEof t = (feed_peer_eof t, [], [])"
| "pipe_step PipeClose t = (memory_close t, [], [])"
| "pipe_step PipeWriteEof t = (memory_write_eof t, [], [])"
| "pipe_step (PipeLimits h l) t = (snd (set_write_buffer_limits h l t), [], [])"

fun pipe_run :: "pipe_event list \<Rightarrow> MemoryTransport \<Rightarrow> MemoryTransport \<times> bytes \<times> bytes" where
  "pipe_run [] t = (t, [], [])"
| "pipe_run (ev # evs) t =
     (case pipe_step ev t of
        (t1, put, got) \<Rightarrow> (case pipe_run evs t1 of (t2, puts, gots) \<Rightarrow> (t2, put @ puts, got @ gots)))"

subsection \<open>Servers\<close>

definition VIRTUAL_PORT_START :: int where
  "VIRTUAL_PORT_START = 40000"

record InMemoryServer =
  sv_address :: "pystr \<times> int"
  sv_closed :: bool
  sv_handlers :: nat

text \<open>A connection: which server took it and its two directions.\<close>

record memory_connection =
  mc_server :: nat
  mc_client :: "pystr \<times> int"
  mc_to_server :: MemoryTransport
  mc_to_client :: MemoryTransport

record InMemoryNetwork =
  nw_high_water :: nat
  nw_low_water :: nat
  nw_servers :: "(pystr \<times> int, nat) dict"
  nw_all_servers :: "InMemoryServer list"
  nw_next_virtual_port :: int
  nw_connections :: "memory_connection list"

definition new_network :: "nat \<Rightarrow> nat \<Rightarrow> net_error + InMemoryNetwork" where
  "new_network high low =
     (if low \<ge> high then Inl NetValueError
      else Inr \<lparr>nw_high_water = high, nw_low_water = low, nw_servers = [], nw_all_servers = [],
                nw_next_virtual_port = VIRTUAL_PORT_START, nw_connections = []\<rparr>)"

definition allocate_virtual_port :: "InMemoryNetwork \<Rightarrow> int \<times> InMemoryNetwork" where
  "allocate_virtual_port nw =
     (nw_next_virtual_port nw, nw\<lparr>nw_next_virtual_port := nw_next_virtual_port nw + 1\<rparr>)"

definition server_closed :: "InMemoryNetwork \<Rightarrow> nat \<Rightarrow> bool" where
  "server_closed nw i \<longleftrightarrow> sv_closed (nw_all_servers nw ! i)"

definition network_start_server :: "pystr \<Rightarrow> int \<Rightarrow> InMemoryNetwork \<Rightarrow> (net_error + nat) \<times> InMemoryNetwork" where
  "network_start_server hst p nw =
     (case (if p = 0 then allocate_virtual_port nw else (p, nw)) of
        (p', nw1) \<Rightarrow>
          if (case dget (nw_servers nw1) (hst, p') of None \<Rightarrow> False | Some i \<Rightarrow> \<not> server_closed nw1 i)
          then (Inl AddressInUse, nw1)
          else
            let i = length (nw_all_servers nw1)
            in (Inr i, nw1\<lparr>nw_servers := dset (nw_servers nw1) (hst, p') i,
                         nw_all_servers := nw_all_servers nw1
                           @ [\<lparr>sv_address = (hst, p'), sv_closed = False, sv_handlers = 0\<rparr>]\<rparr>))"

definition network_unregister :: "pystr \<times> int \<Rightarrow> InMemoryNetwork \<Rightarrow> InMemoryNetwork" where
  "network_unregister address nw = nw\<lparr>nw_servers := dpop (nw_servers nw) address\<rparr>"

definition server_close :: "nat \<Rightarrow> InMemoryNetwork \<Rightarrow> InMemoryNetwork" where
  "server_close i nw =
     (if \<not> i < length (nw_all_servers nw) \<or> server_closed nw i then nw
      else network_unregister (sv_address (nw_all_servers nw ! i))
             (nw\<lparr>nw_all_servers := (nw_all_servers nw)[i := (nw_all_servers nw ! i)\<lparr>sv_closed := True\<rparr>]\<rparr>))"

text \<open>Whether \<^verbatim>\<open>wait_closed\<close> returns: it waits for the handlers that run.\<close>

definition server_wait_closed :: "nat \<Rightarrow> InMemoryNetwork \<Rightarrow> bool" where
  "server_wait_closed i nw \<longleftrightarrow> sv_handlers (nw_all_servers nw ! i) = 0"

definition handle_incoming :: "nat \<Rightarrow> memory_connection \<Rightarrow> InMemoryNetwork \<Rightarrow> InMemoryNetwork" where
  "handle_incoming i conn nw =
     (if server_closed nw i
      then nw\<lparr>nw_connections := nw_connections nw @ [conn\<lparr>mc_to_client := memory_close (mc_to_client conn)\<rparr>]\<rparr>
      else nw\<lparr>nw_connections := nw_connections nw @ [conn],
              nw_all_servers := (nw_all_servers nw)[i := (nw_all_servers nw ! i)\<lparr>sv_handlers := sv_handlers (nw_all_servers nw ! i) + 1\<rparr>]\<rparr>)"

definition handler_ends :: "nat \<Rightarrow> InMemoryNetwork \<Rightarrow> InMemoryNetwork" where
  "handler_ends i nw =
     nw\<lparr>nw_all_servers := (nw_all_servers nw)[i := (nw_all_servers nw ! i)\<lparr>sv_handlers := sv_handlers (nw_all_servers nw ! i) - 1\<rparr>]\<rparr>"

definition make_pair :: "InMemoryNetwork \<Rightarrow> net_error + MemoryTransport" where
  "make_pair nw = new_memory_transport (nw_high_water nw) (nw_low_water nw)"

definition network_open_connection :: "pystr \<Rightarrow> int \<Rightarrow> InMemoryNetwork \<Rightarrow> (net_error + nat) \<times> InMemoryNetwork" where
  "network_open_connection hst p nw =
     (case dget (nw_servers nw) (hst, p) of
        None \<Rightarrow> (Inl RefusedError, nw)
      | Some i \<Rightarrow>
          if server_closed nw i then (Inl RefusedError, nw)
          else
            (case allocate_virtual_port nw of
               (cp, nw1) \<Rightarrow>
                 (case make_pair nw1 of
                    Inl e \<Rightarrow> (Inl e, nw1)
                  | Inr pipe \<Rightarrow>
                      (Inr (length (nw_connections nw1)),
                       handle_incoming i \<lparr>mc_server = i, mc_client = (lit ''127.0.0.1'', cp), mc_to_server = pipe, mc_to_client = pipe\<rparr> nw1))))"

definition active_addresses :: "InMemoryNetwork \<Rightarrow> (pystr \<times> int) list" where
  "active_addresses nw = map fst (filter (\<lambda>(a, i). \<not> server_closed nw i) (nw_servers nw))"

subsection \<open>A direction is a queue of bytes\<close>

lemma settle_waiter_simps [simp]:
  "rd_buffer (settle_waiter v t) = rd_buffer t" "mt_buffered (settle_waiter v t) = mt_buffered t"
  "mt_high_water (settle_waiter v t) = mt_high_water t" "mt_low_water (settle_waiter v t) = mt_low_water t"
  "mt_drain_waiter (settle_waiter v t) = mt_drain_waiter t" "mt_reset_pending (settle_waiter v t) = mt_reset_pending t"
  "length (mt_drains (settle_waiter v t)) = length (mt_drains t)" "rd_eof (settle_waiter v t) = rd_eof t"
  by (simp_all add: settle_waiter_def settle_drain_def split: option.split)

lemma notify_simps [simp]:
  "rd_buffer (notify_peer n t) = rd_buffer t" "mt_buffered (notify_peer n t) = mt_buffered t - n"
  "mt_high_water (notify_peer n t) = mt_high_water t" "mt_low_water (notify_peer n t) = mt_low_water t"
  "mt_drain_waiter (notify_peer n t) = mt_drain_waiter t" "mt_reset_pending (notify_peer n t) = mt_reset_pending t"
  "length (mt_drains (notify_peer n t)) = length (mt_drains t)" "rd_eof (notify_peer n t) = rd_eof t"
  by (simp_all add: notify_peer_def notify_consumed_def Let_def)

lemma pipe_step_queue:
  assumes "pipe_step ev t = (t', put, got)" "length (rd_buffer t) \<le> mt_buffered t"
  shows "rd_buffer t @ put = got @ rd_buffer t' \<and> length (rd_buffer t') \<le> mt_buffered t'"
proof (cases ev)
  case (PipeWrite data)
  then show ?thesis using assms by (auto simp: memory_write_def Let_def split: if_splits)
next
  case (PipeReadExactly n)
  then show ?thesis using assms by (auto simp: memory_readexactly_def split: if_splits)
next
  case (PipeRead n)
  then show ?thesis using assms by (auto simp: memory_read_def Let_def split: if_splits)
next
  case (PipeLimits h l)
  then show ?thesis using assms by (auto simp: set_write_buffer_limits_def Let_def split: if_splits)
qed (use assms in \<open>auto simp: drain_begin_def drain_end_def trigger_reset_def feed_peer_eof_def memory_close_def
    memory_write_eof_def Let_def split: if_splits\<close>)

text \<open>
  A direction of a simulated connection is a queue of bytes, whatever is written, read, drained, reset
  and closed in between: what readers have taken, the tail of an incomplete read included, followed by
  what is left is exactly what writers have put in, in order, and the bytes left are at most the bytes
  the writer's accounting counts.
\<close>

theorem pipe_fifo:
  assumes "new_memory_transport high low = Inr t0" "pipe_run evs t0 = (t, put, got)"
  shows "put = got @ rd_buffer t \<and> length (rd_buffer t) \<le> mt_buffered t"
proof -
  have "pipe_run evs u = (t, put, got) \<Longrightarrow> length (rd_buffer u) \<le> mt_buffered u \<Longrightarrow>
      rd_buffer u @ put = got @ rd_buffer t \<and> length (rd_buffer t) \<le> mt_buffered t" for u
  proof (induction evs arbitrary: u put got)
    case (Cons ev evs)
    obtain u1 p1 g1 where s: "pipe_step ev u = (u1, p1, g1)" by (metis prod_cases3)
    obtain t2 p2 g2 where r: "pipe_run evs u1 = (t2, p2, g2)" by (metis prod_cases3)
    note st = pipe_step_queue [OF s Cons.prems(2)]
    have eq: "t2 = t" "put = p1 @ p2" "got = g1 @ g2" using Cons.prems(1) s r by auto
    have "rd_buffer u1 @ p2 = g2 @ rd_buffer t \<and> length (rd_buffer t) \<le> mt_buffered t"
      using Cons.IH [of u1 p2 g2] r st eq(1) by simp
    then show ?case using st eq by (metis append.assoc)
  qed simp
  moreover have "rd_buffer t0 = []" using assms(1) by (auto simp: new_memory_transport_def split: if_splits)
  ultimately show ?thesis using assms(2) by fastforce
qed

definition demo_pipe :: MemoryTransport where
  "demo_pipe = \<lparr>mt_high_water = 4, mt_low_water = 1, mt_buffered = 0, mt_closing = False, mt_reset_pending = False,
     mt_drain_waiter = None, mt_drains = [], rd_buffer = [], rd_eof = False\<rparr>"

theorem pipe_fifo_witness:
  "\<exists>t put. pipe_run [PipeWrite [1, 2], PipeReadExactly 1] demo_pipe = (t, put, [1]) \<and> put = 1 # rd_buffer t"
proof -
  have new: "new_memory_transport 4 1 = Inr demo_pipe" by (simp add: new_memory_transport_def demo_pipe_def)
  obtain t put got where r: "pipe_run [PipeWrite [1, 2], PipeReadExactly 1] demo_pipe = (t, put, got)" by (metis prod_cases3)
  have "snd (snd (pipe_run [PipeWrite [1, 2], PipeReadExactly 1] demo_pipe)) = [1]"
    by (simp add: demo_pipe_def memory_write_def memory_readexactly_def)
  then have "got = [1]" using r by simp
  with pipe_fifo [OF new r] r show ?thesis by simp
qed

subsection \<open>Drains\<close>

text \<open>The drain the transport knows of waits only while more than the low-water mark is buffered.\<close>

definition drain_ok :: "MemoryTransport \<Rightarrow> bool" where
  "drain_ok t \<longleftrightarrow> mt_low_water t < mt_high_water t
     \<and> (\<forall>f. mt_drain_waiter t = Some f \<longrightarrow> f < length (mt_drains t)
          \<and> (mt_drains t ! f = DrainWaiting \<longrightarrow> mt_low_water t < mt_buffered t \<and> \<not> mt_reset_pending t))"

definition fixed_limits :: "pipe_event list \<Rightarrow> bool" where
  "fixed_limits evs \<longleftrightarrow> (\<forall>ev \<in> set evs. \<forall>h l. ev \<noteq> PipeLimits h l)"

lemma drain_ok_settle:
  assumes "v \<noteq> DrainWaiting" "mt_low_water t < mt_high_water t" "\<forall>f. mt_drain_waiter t = Some f \<longrightarrow> f < length (mt_drains t)"
  shows "drain_ok (settle_waiter v t)"
  using assms by (cases "mt_drain_waiter t") (auto simp: drain_ok_def settle_waiter_def settle_drain_def)

lemma drain_ok_notify:
  assumes "drain_ok t"
  shows "drain_ok (notify_peer n (t\<lparr>rd_buffer := b\<rparr>))"
proof (cases "n = 0 \<or> mt_low_water t < mt_buffered t - n")
  case True
  then show ?thesis using assms by (auto simp: notify_peer_def notify_consumed_def drain_ok_def Let_def)
next
  case False
  then show ?thesis using assms
    by (auto simp: notify_peer_def notify_consumed_def Let_def drain_ok_def [of t] intro!: drain_ok_settle)
qed

lemma drain_ok_step:
  assumes "drain_ok t" "\<forall>h l. ev \<noteq> PipeLimits h l"
  shows "drain_ok (fst (pipe_step ev t))"
proof (cases ev)
  case (PipeWrite data)
  then show ?thesis using assms(1) by (auto simp: memory_write_def drain_ok_def Let_def)
next
  case (PipeReadExactly n)
  have "drain_ok (t\<lparr>rd_buffer := []\<rparr>)" using assms(1) by (simp add: drain_ok_def)
  then show ?thesis using PipeReadExactly assms(1) drain_ok_notify [OF assms(1)] by (simp add: memory_readexactly_def)
next
  case (PipeRead n)
  then show ?thesis using assms(1) drain_ok_notify [OF assms(1)] by (simp add: memory_read_def Let_def)
next
  case PipeReset
  then show ?thesis using assms(1) by (auto simp: trigger_reset_def drain_ok_def [of t] intro!: drain_ok_settle)
next
  case PipeDrain
  then show ?thesis using assms(1) by (auto simp: drain_begin_def drain_ok_def is_over_high_water_def Let_def)
next
  case (PipeDrainEnd f)
  then show ?thesis using assms(1) by (auto simp: drain_end_def drain_ok_def)
next
  case PipePeerEof
  then show ?thesis using assms(1) by (auto simp: feed_peer_eof_def drain_ok_def)
next
  case PipeClose
  then show ?thesis using assms(1) by (auto simp: memory_close_def drain_ok_def)
next
  case PipeWriteEof
  then show ?thesis using assms(1) by (auto simp: memory_write_eof_def drain_ok_def)
qed (use assms(2) in simp)

text \<open>A writer that waits goes on as soon as the reader has caught up to the low-water mark.\<close>

lemma drain_backpressure:
  assumes "new_memory_transport high low = Inr t0" "fixed_limits evs" "pipe_run evs t0 = (t, put, got)"
  shows "drain_ok t"
proof -
  have "drain_ok u \<Longrightarrow> fixed_limits evs \<Longrightarrow> pipe_run evs u = (t, put, got) \<Longrightarrow> drain_ok t" for u
  proof (induction evs arbitrary: u put got)
    case (Cons ev evs)
    obtain u1 p1 g1 where s: "pipe_step ev u = (u1, p1, g1)" by (metis prod_cases3)
    obtain t2 p2 g2 where r: "pipe_run evs u1 = (t2, p2, g2)" by (metis prod_cases3)
    have "drain_ok u1" using drain_ok_step [OF Cons.prems(1), of ev] Cons.prems(2) s by (simp add: fixed_limits_def)
    then show ?case using Cons.IH [of u1 p2 g2] Cons.prems(2,3) s r by (auto simp: fixed_limits_def)
  qed simp
  moreover have "drain_ok t0" using assms(1) by (auto simp: new_memory_transport_def drain_ok_def split: if_splits)
  ultimately show ?thesis using assms(2,3) by blast
qed

text \<open>But a drain that waits while another one does is forgotten: nothing ever settles its future.\<close>

lemma forgotten_drain:
  assumes "f < length (mt_drains t)" "mt_drains t ! f = DrainWaiting" "mt_drain_waiter t \<noteq> Some f"
  shows "mt_drains (fst (pipe_run evs t)) ! f = DrainWaiting"
proof -
  have settle: "mt_drains (settle_waiter v u) ! f = DrainWaiting"
    if "mt_drains u ! f = DrainWaiting" "mt_drain_waiter u \<noteq> Some f" for v u
    using that by (auto simp: settle_waiter_def settle_drain_def nth_list_update split: option.split)
  have notify: "mt_drains (notify_peer n u) ! f = DrainWaiting"
    if "mt_drains u ! f = DrainWaiting" "mt_drain_waiter u \<noteq> Some f" for n u
    using that settle [of "u\<lparr>mt_buffered := mt_buffered u - n\<rparr>" Drained] by (simp add: notify_peer_def notify_consumed_def Let_def)
  have step: "f < length (mt_drains (fst (pipe_step ev u))) \<and> mt_drains (fst (pipe_step ev u)) ! f = DrainWaiting
      \<and> mt_drain_waiter (fst (pipe_step ev u)) \<noteq> Some f"
    if "f < length (mt_drains u)" "mt_drains u ! f = DrainWaiting" "mt_drain_waiter u \<noteq> Some f" for ev u
    using that
    by (cases ev) (auto simp: memory_write_def memory_readexactly_def memory_read_def drain_begin_def drain_end_def
        trigger_reset_def feed_peer_eof_def memory_close_def memory_write_eof_def set_write_buffer_limits_def
        nth_append Let_def settle notify)
  show ?thesis using assms
  proof (induction evs arbitrary: t)
    case (Cons ev evs)
    then show ?case using step [of t ev] by (simp add: case_prod_beta)
  qed simp
qed

subsection \<open>Servers and addresses\<close>

text \<open>The table names exactly the open servers, each under its own address.\<close>

definition network_ok :: "InMemoryNetwork \<Rightarrow> bool" where
  "network_ok nw \<longleftrightarrow> nw_low_water nw < nw_high_water nw
     \<and> (\<forall>a i. dget (nw_servers nw) a = Some i \<longleftrightarrow>
          i < length (nw_all_servers nw) \<and> \<not> server_closed nw i \<and> sv_address (nw_all_servers nw ! i) = a)"

lemma network_okD:
  assumes "network_ok nw"
  shows "dget (nw_servers nw) a = Some i \<longleftrightarrow>
    i < length (nw_all_servers nw) \<and> \<not> sv_closed (nw_all_servers nw ! i) \<and> sv_address (nw_all_servers nw ! i) = a"
  using assms unfolding network_ok_def server_closed_def by blast

lemma network_okI:
  assumes "nw_low_water nw < nw_high_water nw"
    "\<And>a i. dget (nw_servers nw) a = Some i \<longleftrightarrow>
      i < length (nw_all_servers nw) \<and> \<not> sv_closed (nw_all_servers nw ! i) \<and> sv_address (nw_all_servers nw ! i) = a"
  shows "network_ok nw"
  using assms unfolding network_ok_def server_closed_def by blast

lemma network_ok_start:
  assumes "network_ok nw"
  shows "network_ok (snd (network_start_server hst p nw))"
proof -
  obtain p' nw1 where port: "(if p = 0 then allocate_virtual_port nw else (p, nw)) = (p', nw1)" by fastforce
  have same: "nw_servers nw1 = nw_servers nw" "nw_all_servers nw1 = nw_all_servers nw"
    "nw_low_water nw1 = nw_low_water nw" "nw_high_water nw1 = nw_high_water nw"
    using port by (auto simp: allocate_virtual_port_def split: if_splits)
  have ok1: "network_ok nw1" using assms same by (simp add: network_ok_def server_closed_def)
  show ?thesis
  proof (cases "case dget (nw_servers nw1) (hst, p') of None \<Rightarrow> False | Some i \<Rightarrow> \<not> server_closed nw1 i")
    case True
    then show ?thesis using ok1 port by (simp add: network_start_server_def)
  next
    case False
    then have free: "dget (nw_servers nw1) (hst, p') = None"
      using network_okD [OF ok1] by (cases "dget (nw_servers nw1) (hst, p')") (auto simp: server_closed_def)
    let ?all = "nw_all_servers nw1 @ [\<lparr>sv_address = (hst, p'), sv_closed = False, sv_handlers = 0\<rparr>]"
    let ?nw2 = "nw1\<lparr>nw_servers := dset (nw_servers nw1) (hst, p') (length (nw_all_servers nw1)), nw_all_servers := ?all\<rparr>"
    have "network_ok ?nw2"
    proof (rule network_okI)
      show "nw_low_water ?nw2 < nw_high_water ?nw2" using ok1 by (simp add: network_ok_def)
      fix a i
      have taken: "dget (nw_servers nw1) (hst, p') \<noteq> Some i" using free by simp
      show "dget (nw_servers ?nw2) a = Some i \<longleftrightarrow> i < length (nw_all_servers ?nw2)
          \<and> \<not> sv_closed (nw_all_servers ?nw2 ! i) \<and> sv_address (nw_all_servers ?nw2 ! i) = a"
        using network_okD [OF ok1, of a i] taken
        by (cases "i = length (nw_all_servers nw1)") (auto simp: nth_append dest: network_okD [OF ok1, THEN iffD1])
    qed
    then show ?thesis using False port by (simp add: network_start_server_def Let_def)
  qed
qed

lemma network_ok_close:
  assumes "network_ok nw"
  shows "network_ok (server_close i nw)"
proof (cases "\<not> i < length (nw_all_servers nw) \<or> server_closed nw i")
  case True
  then show ?thesis using assms by (simp add: server_close_def)
next
  case False
  then have i: "dget (nw_servers nw) (sv_address (nw_all_servers nw ! i)) = Some i"
    using network_okD [OF assms] by (simp add: server_closed_def)
  show ?thesis
  proof (rule network_okI)
    show "nw_low_water (server_close i nw) < nw_high_water (server_close i nw)"
      using False assms by (simp add: server_close_def network_unregister_def network_ok_def)
    fix a j
    show "dget (nw_servers (server_close i nw)) a = Some j \<longleftrightarrow> j < length (nw_all_servers (server_close i nw))
        \<and> \<not> sv_closed (nw_all_servers (server_close i nw) ! j) \<and> sv_address (nw_all_servers (server_close i nw) ! j) = a"
      using False network_okD [OF assms, of a j] i
      by (cases "i = j") (auto simp: server_close_def network_unregister_def)
  qed
qed

lemma network_ok_tick:
  assumes "network_ok nw"
  shows "network_ok (snd (allocate_virtual_port nw))" "network_ok (nw\<lparr>nw_connections := cs\<rparr>)"
  using assms by (auto simp: network_ok_def allocate_virtual_port_def server_closed_def)

lemma network_ok_handlers:
  assumes "network_ok nw"
  shows "network_ok (nw\<lparr>nw_connections := cs, nw_all_servers := (nw_all_servers nw)[i := (nw_all_servers nw ! i)\<lparr>sv_handlers := k\<rparr>]\<rparr>)"
    "network_ok (nw\<lparr>nw_all_servers := (nw_all_servers nw)[i := (nw_all_servers nw ! i)\<lparr>sv_handlers := k\<rparr>]\<rparr>)"
proof -
  let ?all = "(nw_all_servers nw)[i := (nw_all_servers nw ! i)\<lparr>sv_handlers := k\<rparr>]"
  have same: "sv_closed (?all ! j) = sv_closed (nw_all_servers nw ! j) \<and> sv_address (?all ! j) = sv_address (nw_all_servers nw ! j)" for j
  proof (cases "i = j \<and> i < length (nw_all_servers nw)")
    case True
    then show ?thesis by simp
  next
    case False
    then have "?all ! j = nw_all_servers nw ! j" by (cases "i = j") (simp_all add: list_update_beyond)
    then show ?thesis by simp
  qed
  show "network_ok (nw\<lparr>nw_connections := cs, nw_all_servers := ?all\<rparr>)" "network_ok (nw\<lparr>nw_all_servers := ?all\<rparr>)"
    using assms by (simp_all add: network_ok_def server_closed_def same)
qed

lemma network_ok_incoming:
  assumes "network_ok nw"
  shows "network_ok (handle_incoming i conn nw)"
  using network_ok_handlers(1) [OF assms] network_ok_tick(2) [OF assms] by (simp add: handle_incoming_def)

lemma network_ok_open:
  assumes "network_ok nw"
  shows "network_ok (snd (network_open_connection hst p nw))"
  using network_ok_incoming [OF network_ok_tick(1) [OF assms]] network_ok_tick(1) [OF assms] assms
  by (auto simp: network_open_connection_def allocate_virtual_port_def split: option.split sum.split)

lemma network_ok_ends:
  assumes "network_ok nw"
  shows "network_ok (handler_ends i nw)"
  using network_ok_handlers(2) [OF assms] by (simp add: handler_ends_def)

text \<open>A connection to an address is refused exactly when no open server has it, and reaches the server that has.\<close>

lemma open_connection_spec:
  assumes "network_ok nw"
  shows "isl (fst (network_open_connection hst p nw)) \<longleftrightarrow>
      \<not> (\<exists>i < length (nw_all_servers nw). \<not> server_closed nw i \<and> sv_address (nw_all_servers nw ! i) = (hst, p))"
    "network_open_connection hst p nw = (Inr c, nw') \<Longrightarrow>
      c = length (nw_connections nw) \<and> dget (nw_servers nw) (hst, p) = Some (mc_server (nw_connections nw' ! c))"
proof -
  have made: "make_pair nw \<noteq> Inl e" for e
    using assms by (simp add: make_pair_def new_memory_transport_def network_ok_def)
  have made1: "make_pair (nw\<lparr>nw_next_virtual_port := q\<rparr>) = make_pair nw" for q by (simp add: make_pair_def)
  have open1: "server_closed (nw\<lparr>nw_next_virtual_port := q\<rparr>) i = server_closed nw i" for q i by (simp add: server_closed_def)
  show "isl (fst (network_open_connection hst p nw)) \<longleftrightarrow>
      \<not> (\<exists>i < length (nw_all_servers nw). \<not> server_closed nw i \<and> sv_address (nw_all_servers nw ! i) = (hst, p))"
  proof (cases "dget (nw_servers nw) (hst, p)")
    case None
    have "i < length (nw_all_servers nw) \<Longrightarrow> \<not> server_closed nw i \<Longrightarrow> sv_address (nw_all_servers nw ! i) \<noteq> (hst, p)" for i
      using network_okD [OF assms, of "(hst, p)" i] None by (simp add: server_closed_def)
    then show ?thesis using None by (auto simp: network_open_connection_def)
  next
    case (Some i)
    then have "i < length (nw_all_servers nw)" "\<not> server_closed nw i" "sv_address (nw_all_servers nw ! i) = (hst, p)"
      using assms by (auto simp: network_ok_def)
    then show ?thesis using Some made
      by (auto simp: network_open_connection_def allocate_virtual_port_def made1 split: sum.split)
  qed
  show "c = length (nw_connections nw) \<and> dget (nw_servers nw) (hst, p) = Some (mc_server (nw_connections nw' ! c))"
    if "network_open_connection hst p nw = (Inr c, nw')"
    using that
    by (auto simp: network_open_connection_def allocate_virtual_port_def handle_incoming_def open1
        split: option.splits if_splits sum.splits)
qed

text \<open>A server on any free port may be refused: the next virtual port is not compared with the ports in use.\<close>

lemma virtual_port_collides:
  assumes "network_ok nw" "dget (nw_servers nw) (hst, nw_next_virtual_port nw) = Some i"
  shows "fst (network_start_server hst 0 nw) = Inl AddressInUse"
  using network_okD [OF assms(1), of "(hst, nw_next_virtual_port nw)" i] assms(2)
  by (simp add: network_start_server_def allocate_virtual_port_def server_closed_def)

end
