(* ===== verification/MarkdownText.thy ===== *)
theory MarkdownText
  imports Membership
begin

text \<open>
  The text of the Markdown membership table, first half of
  \<^verbatim>\<open>pyleans/server/providers/markdown_table_membership.py\<close>: timestamps, cells, rows and the
  table, each with its printer and its parser and the round trip between them. The parts of
  Python's standard library they use (\<^verbatim>\<open>datetime\<close> in UTC, \<^verbatim>\<open>strip\<close>, \<^verbatim>\<open>split\<close>,
  \<^verbatim>\<open>splitlines\<close>) are modelled as far as the code uses them.
\<close>

subsection \<open>The calendar\<close>

definition is_leap :: "int \<Rightarrow> bool" where
  "is_leap y \<longleftrightarrow> y mod 4 = 0 \<and> (y mod 100 \<noteq> 0 \<or> y mod 400 = 0)"

definition days_before_year :: "int \<Rightarrow> int" where
  "days_before_year y = (y - 1) * 365 + (y - 1) div 4 - (y - 1) div 100 + (y - 1) div 400"

definition month_lengths :: "int \<Rightarrow> int list" where
  "month_lengths y = [31, if is_leap y then 29 else 28, 31, 30, 31, 30, 31, 31, 30, 31, 30, 31]"

text \<open>Days are counted from 1 on the first of January of year 1.\<close>

definition year_of :: "int \<Rightarrow> int" where
  "year_of n =
     (case find (\<lambda>y. n \<le> days_before_year (y + 1)) [(n - 1) div 366 + 1..(n - 1) div 365 + 1] of
        None \<Rightarrow> 0 | Some y \<Rightarrow> y)"

fun month_day :: "int list \<Rightarrow> int \<Rightarrow> nat \<times> int" where
  "month_day [] d = (1, d)"
| "month_day (l # ls) d = (if d \<le> l then (1, d) else (case month_day ls (d - l) of (m, d') \<Rightarrow> (Suc m, d')))"

definition ymd_ordinal :: "int \<Rightarrow> nat \<Rightarrow> int \<Rightarrow> int" where
  "ymd_ordinal y m d = days_before_year y + sum_list (take (m - 1) (month_lengths y)) + d"

lemma div_pred:
  assumes "0 < (k::int)"
  shows "y div k = (y - 1) div k + of_bool (k dvd y)"
proof (cases "k dvd y")
  case True
  then have "y = k * (y div k)" by simp
  then have "y - 1 = k * (y div k - 1) + (k - 1)" unfolding right_diff_distrib by linarith
  from int_div_pos_eq [OF this] assms True show ?thesis by simp
next
  case False
  then have "y mod k \<noteq> 0" by (simp add: dvd_eq_mod_eq_0)
  moreover have "0 \<le> y mod k" "y mod k < k" using assms by simp_all
  moreover have "y - 1 = k * (y div k) + (y mod k - 1)" using mult_div_mod_eq [of k y] by linarith
  note int_div_pos_eq [OF this]
  ultimately show ?thesis using False by simp
qed

lemma leap_day:
  "(p \<longleftrightarrow> a \<and> (\<not> b \<or> c)) \<Longrightarrow> (c \<Longrightarrow> b) \<Longrightarrow> (b \<Longrightarrow> a) \<Longrightarrow>
     (365::int) + of_bool a - of_bool b + of_bool c = (if p then 366 else 365)"
  by (cases a; cases b; cases c) simp_all

lemma days_before_year_Suc: "days_before_year (y + 1) = days_before_year y + (if is_leap y then 366 else 365)"
proof -
  have add: "y * 365 + a' - b' + c' = ((y - 1) * 365 + a - b + c) + (365 + da - db + dc)"
    if "a' = a + da" "b' = b + db" "c' = c + dc" for a b c a' b' c' da db dc :: int
    using that by simp
  have h: "(100::int) dvd 400" by (rule dvdI [of _ _ 4]) simp
  have f: "(4::int) dvd 100" by (rule dvdI [of _ _ 25]) simp
  have leap: "is_leap y \<longleftrightarrow> 4 dvd y \<and> (\<not> 100 dvd y \<or> 400 dvd y)" by (simp add: is_leap_def dvd_eq_mod_eq_0)
  have "days_before_year (y + 1) = y * 365 + y div 4 - y div 100 + y div 400" by (simp add: days_before_year_def)
  also have "\<dots> = days_before_year y + (365 + of_bool (4 dvd y) - of_bool (100 dvd y) + of_bool (400 dvd y))"
    unfolding days_before_year_def by (rule add; rule div_pred; simp)
  also have "365 + of_bool (4 dvd y) - of_bool (100 dvd y) + of_bool (400 dvd y) = (if is_leap y then 366 else (365::int))"
    by (rule leap_day [OF leap dvd_trans [OF h] dvd_trans [OF f]])
  finally show ?thesis .
qed

lemma days_before_year_bounds:
  assumes "1 \<le> y"
  shows "365 * (y - 1) \<le> days_before_year y" "days_before_year y \<le> 366 * (y - 1)"
proof -
  have "(y - 1) div 100 \<le> (y - 1) div 4" "0 \<le> (y - 1) div 400" "(y - 1) div 400 \<le> (y - 1) div 100" "(y - 1) div 4 \<le> y - 1"
    using assms zdiv_mono2 [of "y - 1" 4 100] zdiv_mono2 [of "y - 1" 100 400] zdiv_mono2 [of "y - 1" 1 4]
    by (simp_all add: pos_imp_zdiv_nonneg_iff)
  then show "365 * (y - 1) \<le> days_before_year y" "days_before_year y \<le> 366 * (y - 1)"
    by (simp_all add: days_before_year_def)
qed

lemma sum_month_lengths: "sum_list (month_lengths y) = (if is_leap y then 366 else 365)"
  by (simp add: month_lengths_def)

lemma year_of_spec:
  assumes "1 \<le> n"
  shows "1 \<le> year_of n" "days_before_year (year_of n) < n" "n \<le> days_before_year (year_of n + 1)"
proof -
  let ?lo = "(n - 1) div 366 + 1" and ?hi = "(n - 1) div 365 + 1"
  let ?P = "\<lambda>y. n \<le> days_before_year (y + 1)"
  have lo: "1 \<le> ?lo" using assms by (simp add: pos_imp_zdiv_nonneg_iff)
  have le: "?lo \<le> ?hi" using assms zdiv_mono2 [of "n - 1" 365 366] by simp
  have "365 * ?hi \<le> days_before_year (?hi + 1)" using days_before_year_bounds(1) [of "?hi + 1"] lo le by simp
  moreover have "n \<le> 365 * ?hi"
  proof -
    have "(n - 1) mod 365 < 365" by simp
    then show ?thesis using div_mult_mod_eq [of "n - 1" 365] by simp
  qed
  ultimately have hi: "?P ?hi" by linarith
  then have "find ?P [?lo..?hi] \<noteq> None" using le by (auto simp: find_None_iff)
  then obtain y where y: "find ?P [?lo..?hi] = Some y" by blast
  then obtain i where i: "i < length [?lo..?hi]" "?P ([?lo..?hi] ! i)" "y = [?lo..?hi] ! i" "\<And>j. j < i \<Longrightarrow> \<not> ?P ([?lo..?hi] ! j)"
    by (auto simp: find_Some_iff)
  have len: "int i \<le> ?hi - ?lo" using i(1) le by simp
  then have yi: "y = ?lo + int i" using i(3) by (simp add: nth_upto)
  have "days_before_year y < n"
  proof (cases i)
    case 0
    then have "days_before_year y \<le> 366 * (?lo - 1)" using days_before_year_bounds(2) [OF lo] yi by simp
    also have "\<dots> < n"
    proof -
      have "0 \<le> (n - 1) mod 366" by simp
      then show ?thesis using div_mult_mod_eq [of "n - 1" 366] by simp
    qed
    finally show ?thesis .
  next
    case (Suc j)
    have "[?lo..?hi] ! j = y - 1" using Suc yi len by (simp add: nth_upto)
    then show ?thesis using i(4) [of j] Suc by simp
  qed
  moreover have "n \<le> days_before_year (y + 1)" using i(2) i(3) by blast
  moreover have "1 \<le> y" using lo yi by linarith
  moreover have "year_of n = y" unfolding year_of_def y by simp
  ultimately show "1 \<le> year_of n" "days_before_year (year_of n) < n" "n \<le> days_before_year (year_of n + 1)"
    by blast+
qed

lemma month_day_spec:
  assumes "month_day ls d = (m, d')" "1 \<le> d" "d \<le> sum_list ls"
  shows "1 \<le> m \<and> m \<le> length ls \<and> 1 \<le> d' \<and> d' \<le> ls ! (m - 1) \<and> sum_list (take (m - 1) ls) + d' = d"
  using assms
proof (induction ls arbitrary: d m)
  case (Cons l ls)
  show ?case
  proof (cases "d \<le> l")
    case False
    then obtain m' where m': "month_day ls (d - l) = (m', d')" "m = Suc m'" using Cons.prems(1) by (auto split: prod.splits)
    from Cons.IH [OF m'(1)] Cons.prems False have IH: "1 \<le> m' \<and> m' \<le> length ls \<and> 1 \<le> d' \<and> d' \<le> ls ! (m' - 1) \<and> sum_list (take (m' - 1) ls) + d' = d - l"
      by simp
    then obtain k where "m' = Suc k" by (cases m') auto
    then show ?thesis using IH m'(2) by simp
  qed (use Cons.prems in auto)
qed simp

text \<open>Every day from the first has one date, and the date names the day.\<close>

definition ordinal_ymd :: "int \<Rightarrow> int \<times> nat \<times> int" where
  "ordinal_ymd n =
     (let y = year_of n in case month_day (month_lengths y) (n - days_before_year y) of (m, d) \<Rightarrow> (y, m, d))"

lemma ordinal_ymd_spec:
  assumes "1 \<le> n" "ordinal_ymd n = (y, m, d)"
  shows "1 \<le> y" "1 \<le> m" "m \<le> 12" "1 \<le> d" "d \<le> month_lengths y ! (m - 1)" "ymd_ordinal y m d = n"
    "days_before_year y < n"
proof -
  have y: "y = year_of n" and md: "month_day (month_lengths y) (n - days_before_year y) = (m, d)"
    using assms(2) by (auto simp: ordinal_ymd_def Let_def split: prod.splits)
  note spec = year_of_spec [OF assms(1), folded y]
  have "n - days_before_year y \<le> sum_list (month_lengths y)"
    using spec(3) days_before_year_Suc [of y] by (simp add: sum_month_lengths)
  from month_day_spec [OF md _ this] spec(2)
  have "1 \<le> m \<and> m \<le> length (month_lengths y) \<and> 1 \<le> d \<and> d \<le> month_lengths y ! (m - 1)
      \<and> sum_list (take (m - 1) (month_lengths y)) + d = n - days_before_year y" by simp
  then show "1 \<le> m" "m \<le> 12" "1 \<le> d" "d \<le> month_lengths y ! (m - 1)" "ymd_ordinal y m d = n"
    by (simp_all add: month_lengths_def ymd_ordinal_def)
  show "1 \<le> y" using spec(1) .
  show "days_before_year y < n" using spec(2) .
qed

lemma month_length_le: "m \<le> 12 \<Longrightarrow> 1 \<le> m \<Longrightarrow> month_lengths y ! (m - 1) \<le> 31"
proof -
  assume m: "m \<le> 12" "1 \<le> m"
  then have "m - 1 < length (month_lengths y)" by (simp add: month_lengths_def)
  then have "month_lengths y ! (m - 1) \<in> set (month_lengths y)" by (rule nth_mem)
  then show ?thesis by (auto simp: month_lengths_def split: if_splits)
qed

subsection \<open>Fields of digits\<close>

fun pad :: "nat \<Rightarrow> nat \<Rightarrow> pystr" where
  "pad 0 n = []"
| "pad (Suc w) n = pad w (n div 10) @ [48 + n mod 10]"

definition digits_value :: "pystr \<Rightarrow> nat option" where
  "digits_value s = (if list_all is_digit s then Some (foldl (\<lambda>a c. a * 10 + (c - 48)) 0 s) else None)"

lemma length_pad [simp]: "length (pad w n) = w"
  by (induction w n rule: pad.induct) auto

lemma pad_digits: "list_all is_digit (pad w n)"
  by (induction w n rule: pad.induct) (auto simp: is_digit_def)

lemma pad_value: "n < 10 ^ w \<Longrightarrow> foldl (\<lambda>a c. a * 10 + (c - 48)) 0 (pad w n) = n"
proof (induction w n rule: pad.induct)
  case (2 w n)
  then have "n div 10 < 10 ^ w" by (simp add: less_mult_imp_div_less mult.commute)
  then show ?case using 2 by simp
qed simp

lemma digits_value_pad [simp]: "n < 10 ^ w \<Longrightarrow> digits_value (pad w n) = Some n"
  by (simp add: digits_value_def pad_digits pad_value)

subsection \<open>Timestamps\<close>

definition EPOCH_ORDINAL :: int where
  "EPOCH_ORDINAL = 719163"

text \<open>\<^verbatim>\<open>fromtimestamp\<close> rounds to microseconds, half to even, and \<^verbatim>\<open>timespec="seconds"\<close> cuts them off.\<close>

definition round_half_even :: "rat \<Rightarrow> int" where
  "round_half_even x =
     (let f = \<lfloor>x\<rfloor>; r = x - of_int f
      in if r < 1 / 2 then f else if r > 1 / 2 then f + 1 else if even f then f else f + 1)"

definition whole_seconds :: "seconds \<Rightarrow> int" where
  "whole_seconds ts = round_half_even (ts * 1000000) div 1000000"

definition iso_text :: "int \<Rightarrow> pystr" where
  "iso_text secs =
     (case ordinal_ymd (secs div 86400 + EPOCH_ORDINAL) of
        (y, m, d) \<Rightarrow>
          let r = nat (secs mod 86400)
          in pad 4 (nat y) @ lit ''-'' @ pad 2 m @ lit ''-'' @ pad 2 (nat d) @ lit ''T''
             @ pad 2 (r div 3600) @ lit '':'' @ pad 2 (r div 60 mod 60) @ lit '':'' @ pad 2 (r mod 60) @ lit ''+00:00'')"

text \<open>
  Years 1 to 9999; times further out are errors (the model does not tell the exceptions apart that
  the C library raises far outside).
\<close>

definition time_ok :: "seconds \<Rightarrow> bool" where
  "time_ok ts \<longleftrightarrow> 1 \<le> whole_seconds ts div 86400 + EPOCH_ORDINAL \<and> whole_seconds ts div 86400 + EPOCH_ORDINAL \<le> 3652059"

definition format_timestamp :: "seconds \<Rightarrow> pystr result" where
  "format_timestamp ts =
     (if ts = 0 then Inr [] else if time_ok ts then Inr (iso_text (whole_seconds ts)) else Inl ValueError)"

text \<open>
  \<open>other_iso\<close> is \<^verbatim>\<open>fromisoformat\<close> with \<^verbatim>\<open>timestamp\<close> on any text but the one the code writes: other
  notations of ISO 8601, and times without an offset, which the local time zone decides.
\<close>

definition iso_seconds :: "pystr \<Rightarrow> int option" where
  "iso_seconds s =
     (case (digits_value (take 4 s), digits_value (take 2 (drop 5 s)), digits_value (take 2 (drop 8 s)),
            digits_value (take 2 (drop 11 s)), digits_value (take 2 (drop 14 s)), digits_value (take 2 (drop 17 s))) of
        (Some y, Some m, Some d, Some hh, Some mm, Some ss) \<Rightarrow>
          if length s = 25 \<and> s ! 4 = 45 \<and> s ! 7 = 45 \<and> s ! 10 = 84 \<and> s ! 13 = 58 \<and> s ! 16 = 58 \<and> drop 19 s = lit ''+00:00''
             \<and> 1 \<le> y \<and> 1 \<le> m \<and> m \<le> 12 \<and> 1 \<le> d \<and> int d \<le> month_lengths (int y) ! (m - 1)
             \<and> hh < 24 \<and> mm < 60 \<and> ss < 60
          then Some ((ymd_ordinal (int y) m (int d) - EPOCH_ORDINAL) * 86400 + int (hh * 3600 + mm * 60 + ss))
          else None
      | _ \<Rightarrow> None)"

definition parse_timestamp :: "(pystr \<Rightarrow> rat option) \<Rightarrow> pystr \<Rightarrow> rat result" where
  "parse_timestamp other_iso s =
     (if s = [] then Inr 0
      else (case iso_seconds s of
              Some n \<Rightarrow> Inr (of_int n)
            | None \<Rightarrow> (case other_iso s of None \<Rightarrow> Inl ValueError | Some t \<Rightarrow> Inr t)))"

lemma iso_seconds_parts:
  assumes "length a = 4" "length b = 2" "length c = 2" "length d = 2" "length e = 2" "length f = 2"
    and "digits_value a = Some y" "digits_value b = Some m" "digits_value c = Some dd"
      "digits_value d = Some hh" "digits_value e = Some mm" "digits_value f = Some ss"
    and "1 \<le> y" "1 \<le> m" "m \<le> 12" "1 \<le> dd" "int dd \<le> month_lengths (int y) ! (m - 1)" "hh < 24" "mm < 60" "ss < 60"
  shows "iso_seconds (a @ lit ''-'' @ b @ lit ''-'' @ c @ lit ''T'' @ d @ lit '':'' @ e @ lit '':'' @ f @ lit ''+00:00'')
    = Some ((ymd_ordinal (int y) m (int dd) - EPOCH_ORDINAL) * 86400 + int (hh * 3600 + mm * 60 + ss))"
  using assms by (simp add: iso_seconds_def nth_append)

lemma days_before_year_10000: "10000 \<le> y \<Longrightarrow> 3652059 \<le> days_before_year y"
proof (induction y rule: int_ge_induct)
  case base
  then show ?case by (simp add: days_before_year_def)
next
  case (step y)
  then show ?case using days_before_year_Suc [of y] by (simp split: if_splits)
qed

lemma seconds_of_day: "(r::nat) < 86400 \<Longrightarrow> r div 3600 * 3600 + r div 60 mod 60 * 60 + r mod 60 = r"
proof -
  have "r div 3600 = r div 60 div 60" by (simp add: div_mult2_eq [of r 60 60, simplified])
  then show ?thesis using div_mult_mod_eq [of r 60] div_mult_mod_eq [of "r div 60" 60] by linarith
qed

lemma iso_seconds_text:
  assumes "1 \<le> secs div 86400 + EPOCH_ORDINAL" "secs div 86400 + EPOCH_ORDINAL \<le> 3652059"
  shows "iso_seconds (iso_text secs) = Some secs"
proof -
  let ?n = "secs div 86400 + EPOCH_ORDINAL" and ?r = "nat (secs mod 86400)"
  obtain y m d where od: "ordinal_ymd ?n = (y, m, d)" by (metis prod_cases3)
  note spec = ordinal_ymd_spec [OF assms(1) od]
  have "y < 10000" using days_before_year_10000 [of y] spec(7) assms(2) by linarith
  then have y: "nat y < 10 ^ 4" "1 \<le> nat y" "int (nat y) = y" using spec(1) by simp_all
  have d: "1 \<le> nat d" "int (nat d) = d" "d \<le> 31" using spec(4,5) month_length_le [OF spec(3,2), of y] by simp_all
  then have d2: "nat d < 10 ^ 2" and m2: "m < 10 ^ 2" using spec(3) by simp_all
  have r: "?r < 86400" by simp
  then have hms: "?r div 3600 < 24" "?r div 60 mod 60 < 60" "?r mod 60 < 60" by (simp_all add: less_mult_imp_div_less)
  have eq: "iso_text secs = pad 4 (nat y) @ lit ''-'' @ pad 2 m @ lit ''-'' @ pad 2 (nat d) @ lit ''T''
      @ pad 2 (?r div 3600) @ lit '':'' @ pad 2 (?r div 60 mod 60) @ lit '':'' @ pad 2 (?r mod 60) @ lit ''+00:00''"
    by (simp add: iso_text_def od Let_def del: list.map pad.simps)
  have "iso_seconds (iso_text secs) = Some ((ymd_ordinal (int (nat y)) m (int (nat d)) - EPOCH_ORDINAL) * 86400
      + int (?r div 3600 * 3600 + ?r div 60 mod 60 * 60 + ?r mod 60))"
    unfolding eq
  proof (rule iso_seconds_parts [OF length_pad length_pad length_pad length_pad length_pad length_pad
        digits_value_pad [OF y(1)] digits_value_pad [OF m2] digits_value_pad [OF d2]
        digits_value_pad digits_value_pad digits_value_pad y(2) spec(2,3) d(1) _ hms])
    show "?r div 3600 < 10 ^ 2" "?r div 60 mod 60 < 10 ^ 2" "?r mod 60 < 10 ^ 2" using hms by simp_all
    show "int (nat d) \<le> month_lengths (int (nat y)) ! (m - 1)" using spec(5) y(3) d(2) by simp
  qed
  then show ?thesis using spec(6) seconds_of_day [OF r] y(3) d(2) by simp
qed

definition rounded_time :: "seconds \<Rightarrow> seconds" where
  "rounded_time ts = (if ts = 0 then 0 else of_int (whole_seconds ts))"

lemma length_iso_text [simp]: "length (iso_text secs) = 25"
  by (simp add: iso_text_def Let_def split: prod.split)

lemma parse_format_timestamp:
  assumes "format_timestamp ts = Inr t"
  shows "parse_timestamp other_iso t = Inr (rounded_time ts)"
proof (cases "ts = 0")
  case False
  then have t: "time_ok ts" "t = iso_text (whole_seconds ts)"
    using assms by (auto simp: format_timestamp_def split: if_splits)
  then have "iso_seconds t = Some (whole_seconds ts)" using iso_seconds_text by (simp add: time_ok_def)
  moreover have "t \<noteq> []" using t(2) by (metis length_iso_text list.size(3) zero_neq_numeral)
  ultimately show ?thesis using False by (simp add: parse_timestamp_def rounded_time_def)
qed (use assms in \<open>simp add: format_timestamp_def parse_timestamp_def rounded_time_def\<close>)

lemma round_half_even_int [simp]: "round_half_even (of_int k) = k"
  by (simp add: round_half_even_def)

lemma whole_seconds_int [simp]: "whole_seconds (of_int k) = k"
proof -
  have "(of_int k :: rat) * 1000000 = of_int (k * 1000000)" by simp
  then have "whole_seconds (of_int k) = k * 1000000 div 1000000" by (simp only: whole_seconds_def round_half_even_int)
  then show ?thesis by simp
qed

lemma rounded_time_idem [simp]: "rounded_time (rounded_time ts) = rounded_time ts"
  by (simp add: rounded_time_def)

lemma round_half_even_close: "\<bar>of_int (round_half_even x) - x\<bar> \<le> 1 / 2"
proof -
  have "of_int \<lfloor>x\<rfloor> \<le> x" "x < of_int \<lfloor>x\<rfloor> + 1" using floor_correct [of x] by simp_all
  moreover have "round_half_even x = \<lfloor>x\<rfloor> \<and> x - of_int \<lfloor>x\<rfloor> \<le> 1 / 2
      \<or> round_half_even x = \<lfloor>x\<rfloor> + 1 \<and> 1 / 2 \<le> x - of_int \<lfloor>x\<rfloor>"
    unfolding round_half_even_def Let_def by (simp only: linorder_not_less split: if_split) linarith
  ultimately show ?thesis by (auto simp: abs_le_iff)
qed

text \<open>Rounding moves a time by less than a second and half a microsecond.\<close>

lemma rounded_time_close: "\<bar>rounded_time ts - ts\<bar> < 1 + 1 / 2000000"
proof -
  let ?us = "round_half_even (ts * 1000000)"
  have us: "\<bar>of_int ?us - ts * 1000000\<bar> \<le> 1 / 2" by (rule round_half_even_close)
  have "?us = ?us div 1000000 * 1000000 + ?us mod 1000000" "0 \<le> ?us mod 1000000" "?us mod 1000000 < 1000000" by simp_all
  then have "whole_seconds ts * 1000000 \<le> ?us" "?us < whole_seconds ts * 1000000 + 1000000"
    unfolding whole_seconds_def by linarith+
  then have "of_int (whole_seconds ts) * 1000000 \<le> (of_int ?us :: rat)" "of_int ?us < of_int (whole_seconds ts) * 1000000 + (1000000 :: rat)"
    by (metis of_int_le_iff of_int_mult of_int_numeral, metis of_int_less_iff of_int_add of_int_mult of_int_numeral)
  moreover have "of_int ?us \<le> ts * 1000000 + 1 / 2" "ts * 1000000 - 1 / 2 \<le> of_int ?us" using us by linarith+
  ultimately have "\<bar>of_int (whole_seconds ts) - ts\<bar> < 1 + 1 / 2000000" by linarith
  then show ?thesis by (simp add: rounded_time_def)
qed

subsection \<open>Lines and cells\<close>

definition is_space :: "nat \<Rightarrow> bool" where
  "is_space c \<longleftrightarrow> 9 \<le> c \<and> c \<le> 13 \<or> 28 \<le> c \<and> c \<le> 32
     \<or> c \<in> {133, 160, 5760, 8232, 8233, 8239, 8287, 12288} \<or> 8192 \<le> c \<and> c \<le> 8202"

definition is_linebreak :: "nat \<Rightarrow> bool" where
  "is_linebreak c \<longleftrightarrow> 10 \<le> c \<and> c \<le> 13 \<or> 28 \<le> c \<and> c \<le> 30 \<or> c \<in> {133, 8232, 8233}"

definition strip_by :: "(nat \<Rightarrow> bool) \<Rightarrow> pystr \<Rightarrow> pystr" where
  "strip_by p s = rev (dropWhile p (rev (dropWhile p s)))"

abbreviation strip :: "pystr \<Rightarrow> pystr" where
  "strip s \<equiv> strip_by is_space s"

text \<open>\<^verbatim>\<open>splitlines\<close>: a carriage return takes a newline behind it with it.\<close>

function split_lines :: "pystr \<Rightarrow> pystr list" where
  "split_lines [] = []"
| "split_lines (c # cs) =
     (if is_linebreak c then [] # split_lines (if c = 13 \<and> take 1 cs = [10] then drop 1 cs else cs)
      else (case split_lines cs of [] \<Rightarrow> [[c]] | l # ls \<Rightarrow> (c # l) # ls))"
  by pat_completeness auto

termination
  by (relation "measure length") auto

fun split_on :: "nat \<Rightarrow> pystr \<Rightarrow> pystr list" where
  "split_on c [] = [[]]"
| "split_on c (x # xs) =
     (if x = c then [] # split_on c xs
      else (case split_on c xs of [] \<Rightarrow> [[x]] | p # ps \<Rightarrow> (x # p) # ps))"

fun join_with :: "pystr \<Rightarrow> pystr list \<Rightarrow> pystr" where
  "join_with sep [] = []"
| "join_with sep [x] = x"
| "join_with sep (x # y # xs) = x @ sep @ join_with sep (y # xs)"

lemma strip_by_id:
  assumes "s = [] \<or> \<not> p (hd s) \<and> \<not> p (last s)"
  shows "strip_by p s = s"
proof (cases s)
  case (Cons x xs)
  then have "dropWhile p s = s" using assms by auto
  moreover obtain y ys where "rev s = y # ys" using Cons by (cases "rev s") auto
  moreover have "y = last s" using \<open>rev s = y # ys\<close> by (metis hd_rev list.sel(1))
  ultimately show ?thesis using assms Cons by (auto simp: strip_by_def) (metis rev_rev_ident rev.simps(2))
qed (simp add: strip_by_def)

lemma strip_by_stable: "strip_by p s = s \<Longrightarrow> s = [] \<or> \<not> p (hd s) \<and> \<not> p (last s)"
proof -
  assume eq: "strip_by p s = s"
  have h: "t = [] \<or> \<not> p (hd t)" if "t = dropWhile p u" for t u using that hd_dropWhile by metis
  have "rev s = dropWhile p (rev (dropWhile p s))" using eq by (metis strip_by_def rev_rev_ident)
  then have "rev s = [] \<or> \<not> p (hd (rev s))" by (rule h)
  then have l: "s = [] \<or> \<not> p (last s)" by (simp add: hd_rev)
  have "length (dropWhile p (rev (dropWhile p s))) \<le> length (dropWhile p s)"
    by (metis length_dropWhile_le length_rev)
  moreover have "length (strip_by p s) = length (dropWhile p (rev (dropWhile p s)))" by (simp add: strip_by_def)
  ultimately have "length s \<le> length (dropWhile p s)" using eq by simp
  moreover have "length (dropWhile p s) < length s" if "s \<noteq> []" "p (hd s)"
    using that length_dropWhile_le [of p "tl s"] by (cases s) auto
  ultimately have "s = [] \<or> \<not> p (hd s)" by (metis leD)
  then show ?thesis using l by blast
qed

lemma strip_padded:
  assumes "strip c = c"
  shows "strip (32 # c @ [32]) = c"
proof (cases "c = []")
  case True
  then show ?thesis by (simp add: strip_by_def is_space_def)
next
  case False
  then obtain x xs where c: "c = x # xs" by (cases c) auto
  have s: "\<not> is_space (hd c)" "is_space 32" using strip_by_stable [OF assms] False by (auto simp: is_space_def)
  then have "dropWhile is_space (32 # c @ [32]) = c @ [32]" by (simp add: c)
  moreover have "dropWhile is_space (rev (c @ [32])) = dropWhile is_space (rev c)" using s by simp
  moreover have "rev (dropWhile is_space (rev c)) = c"
    using assms s(1) by (simp add: strip_by_def c)
  ultimately show ?thesis by (simp add: strip_by_def)
qed

lemma split_lines_joined:
  assumes "\<forall>x \<in> set xs. \<forall>c \<in> set x. \<not> is_linebreak c"
  shows "split_lines (concat (map (\<lambda>x. x @ [10]) xs)) = xs"
  using assms
proof (induction xs)
  case (Cons x xs)
  have nl: "is_linebreak 10" by (simp add: is_linebreak_def)
  have "split_lines (x @ 10 # r) = x # split_lines r" if "\<forall>c \<in> set x. \<not> is_linebreak c" for r
    using that by (induction x) (simp_all add: nl)
  then show ?case using Cons by simp
qed simp

lemma join_newlines: "join_with [10] (xs @ [[]]) = concat (map (\<lambda>x. x @ [10]) xs)"
proof (induction xs)
  case (Cons x xs)
  then show ?case by (cases xs) simp_all
qed simp

lemma split_on_part:
  assumes "c \<notin> set x"
  shows "split_on c (x @ c # r) = x # split_on c r" "split_on c x = [x]"
  using assms by (induction x) simp_all

lemma split_on_cells:
  assumes "\<forall>x \<in> set xs. 124 \<notin> set x" "xs \<noteq> []"
  shows "split_on 124 (32 # join_with (lit '' | '') xs @ [32]) = map (\<lambda>x. 32 # x @ [32]) xs"
  using assms
proof (induction xs)
  case (Cons x xs)
  show ?case
  proof (cases xs)
    case Nil
    have "124 \<notin> set (32 # x @ [32])" using Cons.prems by simp
    from split_on_part(2) [OF this] show ?thesis by (simp add: Nil)
  next
    case (Cons y ys)
    have x: "124 \<notin> set (32 # x @ [32])" using Cons.prems by simp
    have "32 # join_with (lit '' | '') (x # y # ys) @ [32] = (32 # x @ [32]) @ 124 # 32 # join_with (lit '' | '') (y # ys) @ [32]"
      by simp
    then show ?thesis using split_on_part(1) [OF x] Cons.IH Cons.prems \<open>xs = y # ys\<close> by simp
  qed
qed simp

lemma split_on_joined:
  assumes "\<forall>x \<in> set xs. c \<notin> set x" "xs \<noteq> []"
  shows "split_on c (join_with [c] xs) = xs"
  using assms
proof (induction xs)
  case (Cons x xs)
  then show ?case by (cases xs) (simp_all add: split_on_part)
qed simp

end
