(* ===== verification/MarkdownMembership.thy ===== *)
theory MarkdownMembership
  imports MarkdownText YamlMembership
begin

text \<open>
  \<^verbatim>\<open>pyleans/server/providers/markdown_table_membership.py\<close>, second half: the rows and the table as
  text, and the provider that compares and swaps rows of the file. Like the YAML provider's, its
  operations run under its locks; the file is its bytes. Whether the disk takes a write comes with
  the call.
\<close>

subsection \<open>Rows\<close>

definition HEADER :: pystr where
  "HEADER = lit ''| ID | Host | Port | Epoch | Status | ClusterId | GatewayPort '' @
     lit ''| LastHeartbeat | IAmAlive | StartTime | Suspicions | ETag |''"

definition SEPARATOR :: pystr where
  "SEPARATOR = lit ''| --- | --- | --- | --- | --- | --- | --- | --- | --- | --- | --- | --- |''"

definition COLUMN_COUNT :: nat where
  "COLUMN_COUNT = 12"

definition render_suspicions :: "SuspicionVote list \<Rightarrow> pystr result" where
  "render_suspicions votes =
     res_bind (res_map (\<lambda>v. res_bind (format_timestamp (timestamp v)) (\<lambda>t. Inr (suspecting_silo v @ lit ''@'' @ t))) votes)
       (\<lambda>parts. Inr (join_with (lit '';'') parts))"

definition row_cells :: "SiloInfo \<Rightarrow> pystr list result" where
  "row_cells s =
     res_bind (format_timestamp (last_heartbeat s)) (\<lambda>heartbeat.
     res_bind (format_timestamp (i_am_alive s)) (\<lambda>alive.
     res_bind (format_timestamp (start_time s)) (\<lambda>start.
     res_bind (render_suspicions (suspicions s)) (\<lambda>votes.
       Inr [encoded (address s), host (address s), str_int (port (address s)), str_int (epoch (address s)),
            status_value (status s), (case cluster_id s of None \<Rightarrow> [] | Some c \<Rightarrow> c),
            (case gateway_port s of None \<Rightarrow> [] | Some p \<Rightarrow> str_int p), heartbeat, alive, start, votes,
            (case etag s of None \<Rightarrow> [] | Some e \<Rightarrow> e)]))))"

definition render_row :: "SiloInfo \<Rightarrow> pystr result" where
  "render_row s =
     res_bind (row_cells s) (\<lambda>cells.
       if \<exists>c \<in> set cells. 124 \<in> set c \<or> 10 \<in> set c \<or> 13 \<in> set c then Inl MembershipError
       else Inr (lit ''| '' @ join_with (lit '' | '') cells @ lit '' |''))"

definition parse_vote :: "(pystr \<Rightarrow> rat option) \<Rightarrow> pystr \<Rightarrow> SuspicionVote result" where
  "parse_vote other_iso chunk =
     (case rsplit_once 64 chunk of
        None \<Rightarrow> Inl MembershipError
      | Some (sid, t) \<Rightarrow> res_bind (parse_timestamp other_iso t) (\<lambda>ts. Inr (SuspicionVote sid ts)))"

definition parse_suspicions :: "(pystr \<Rightarrow> rat option) \<Rightarrow> pystr \<Rightarrow> SuspicionVote list result" where
  "parse_suspicions other_iso cell = (if cell = [] then Inr [] else res_map (parse_vote other_iso) (split_on 59 cell))"

definition some_text :: "pystr \<Rightarrow> pystr option" where
  "some_text c = (if c = [] then None else Some c)"

text \<open>Whatever is wrong with a row, the error is a \<^verbatim>\<open>MembershipError\<close>.\<close>

definition parse_row :: "(pystr \<Rightarrow> rat option) \<Rightarrow> pystr \<Rightarrow> SiloInfo result" where
  "parse_row other_iso line =
     (case map strip (split_on 124 (strip_by (\<lambda>c. c = 124) line)) of
        [_, h, p, ep, st, cluster, gw, heartbeat, alive, start, votes, et] \<Rightarrow>
          (case res_bind (int_of_str p) (\<lambda>p'.
                res_bind (int_of_str ep) (\<lambda>ep'.
                res_bind (status_of_value st) (\<lambda>st'.
                res_bind (parse_timestamp other_iso heartbeat) (\<lambda>lh.
                res_bind (parse_timestamp other_iso start) (\<lambda>sti.
                res_bind (if gw = [] then Inr None else res_bind (int_of_str gw) (\<lambda>g. Inr (Some g))) (\<lambda>gw'.
                res_bind (parse_timestamp other_iso alive) (\<lambda>al.
                res_bind (parse_suspicions other_iso votes) (\<lambda>vs.
                  Inr \<lparr>address = SiloAddress h p' ep', status = st', last_heartbeat = lh, start_time = sti,
                       cluster_id = some_text cluster, gateway_port = gw', row_version = 0, i_am_alive = al,
                       suspicions = vs, etag = some_text et\<rparr>)))))))) of
             Inl e \<Rightarrow> Inl MembershipError
           | Inr s \<Rightarrow> Inr s)
      | _ \<Rightarrow> Inl MembershipError)"

subsection \<open>The table\<close>

record md_state =
  md_version :: int
  md_silos :: "SiloInfo list"

definition empty_state :: md_state where
  "empty_state = \<lparr>md_version = 0, md_silos = []\<rparr>"

definition md_render :: "md_state \<Rightarrow> pystr result" where
  "md_render st =
     res_bind (res_map render_row (md_silos st)) (\<lambda>rows.
       Inr (join_with [10]
         ([lit ''# Membership'', [], lit ''Version: '' @ str_int (md_version st), [], HEADER, SEPARATOR] @ rows @ [[]])))"

definition lower_ascii :: "nat \<Rightarrow> nat" where
  "lower_ascii c = (if 65 \<le> c \<and> c \<le> 90 then c + 32 else c)"

text \<open>The line starts with the eight characters that \<^verbatim>\<open>_parse\<close> looks for.\<close>

definition parse_version :: "pystr \<Rightarrow> int result" where
  "parse_version line =
     (case int_of_str (strip (drop 8 line)) of Inl e \<Rightarrow> Inl MembershipError | Inr v \<Rightarrow> Inr v)"

fun parse_lines :: "(pystr \<Rightarrow> rat option) \<Rightarrow> bool \<Rightarrow> md_state \<Rightarrow> pystr list \<Rightarrow> md_state result" where
  "parse_lines other_iso in_table st [] = Inr st"
| "parse_lines other_iso in_table st (line # lines) =
     (let stripped = strip line
      in if map lower_ascii (take 8 stripped) = lit ''version:''
         then res_bind (parse_version stripped) (\<lambda>v. parse_lines other_iso in_table (st\<lparr>md_version := v\<rparr>) lines)
         else if stripped = HEADER then parse_lines other_iso True st lines
         else if \<not> in_table then parse_lines other_iso in_table st lines
         else if stripped = [] then parse_lines other_iso False st lines
         else if take 5 stripped = lit ''| ---'' then parse_lines other_iso in_table st lines
         else if take 1 stripped = lit ''|''
         then res_bind (parse_row other_iso stripped)
                (\<lambda>s. parse_lines other_iso in_table (st\<lparr>md_silos := md_silos st @ [s]\<rparr>) lines)
         else parse_lines other_iso in_table st lines)"

definition md_parse :: "(pystr \<Rightarrow> rat option) \<Rightarrow> pystr \<Rightarrow> md_state result" where
  "md_parse other_iso content = parse_lines other_iso False empty_state (split_lines content)"

subsection \<open>The provider\<close>

datatype md_file = MdAbsent | MdUnreadable | MdBytes bytes

definition md_load :: "(pystr \<Rightarrow> rat option) \<Rightarrow> md_file \<Rightarrow> md_state result" where
  "md_load other_iso file =
     (case file of
        MdAbsent \<Rightarrow> Inr empty_state
      | MdUnreadable \<Rightarrow> Inl MembershipError
      | MdBytes b \<Rightarrow> (case utf8_decode b of None \<Rightarrow> Inl ValueError | Some content \<Rightarrow> md_parse other_iso content))"

definition md_read_all :: "(pystr \<Rightarrow> rat option) \<Rightarrow> md_file \<Rightarrow> MembershipSnapshot result" where
  "md_read_all other_iso file =
     res_bind (md_load other_iso file) (\<lambda>st. Inr \<lparr>version = md_version st, silos = md_silos st\<rparr>)"

definition md_write :: "bool \<Rightarrow> md_state \<Rightarrow> md_file \<Rightarrow> unit result \<times> md_file" where
  "md_write disk_ok st file =
     (case res_bind (md_render st) utf8_encode of
        Inl e \<Rightarrow> (Inl e, file)
      | Inr b \<Rightarrow> if disk_ok then (Inr (), MdBytes b) else (Inl MembershipError, file))"

fun md_find_index :: "SiloInfo list \<Rightarrow> pystr \<Rightarrow> nat option" where
  "md_find_index [] sid = None"
| "md_find_index (s # ss) sid =
     (if silo_id (address s) = sid then Some 0 else map_option Suc (md_find_index ss sid))"

definition with_etag :: "SiloInfo \<Rightarrow> pystr option \<Rightarrow> SiloInfo" where
  "with_etag s e = s\<lparr>etag := e\<rparr>"

text \<open>\<^verbatim>\<open>json.dumps(..., sort_keys=True)\<close> with its default separators.\<close>

definition dict_text :: "(pystr \<times> pystr) list \<Rightarrow> pystr" where
  "dict_text members =
     lit ''{'' @ join_with (lit '', '') (map (\<lambda>(k, v). json_text (JStr k) @ lit '': '' @ v) members) @ lit ''}''"

definition etag_payload :: "SiloInfo \<Rightarrow> pystr" where
  "etag_payload s =
     dict_text
       [(lit ''cluster_id'', json_text (case cluster_id s of None \<Rightarrow> JNull | Some c \<Rightarrow> JStr c)),
        (lit ''gateway_port'', json_text (case gateway_port s of None \<Rightarrow> JNull | Some p \<Rightarrow> JInt p)),
        (lit ''i_am_alive'', json_text (JFloat (i_am_alive s))),
        (lit ''last_heartbeat'', json_text (JFloat (last_heartbeat s))),
        (lit ''silo_id'', json_text (JStr (silo_id (address s)))),
        (lit ''start_time'', json_text (JFloat (start_time s))),
        (lit ''status'', json_text (JStr (status_value (status s)))),
        (lit ''suspicions'',
         lit ''['' @ join_with (lit '', '')
           (map (\<lambda>v. dict_text [(lit ''suspecting_silo'', json_text (JStr (suspecting_silo v))),
                                (lit ''timestamp'', json_text (JFloat (timestamp v)))]) (suspicions s)) @ lit '']'')]"

definition md_compute_etag :: "(bytes \<Rightarrow> bytes) \<Rightarrow> SiloInfo \<Rightarrow> int \<Rightarrow> pystr" where
  "md_compute_etag sha s v =
     (let digest = concat (map (\<lambda>b. [hexdig (unat b div 16), hexdig (unat b mod 16)])
                     (sha (utf8_bytes (str_int v @ lit ''::'' @ etag_payload s))))
      in lit ''h-'' @ take 12 digest)"

definition md_finalise_write ::
  "(bytes \<Rightarrow> bytes) \<Rightarrow> bool \<Rightarrow> md_state \<Rightarrow> nat \<Rightarrow> md_file \<Rightarrow> SiloInfo result \<times> md_file" where
  "md_finalise_write sha disk_ok st i file =
     (let v = md_version st + 1; target = md_silos st ! i;
          fresh = with_etag target (Some (md_compute_etag sha target v))
      in (case md_write disk_ok (st\<lparr>md_version := v, md_silos := (md_silos st)[i := fresh]\<rparr>) file of
            (Inl e, file') \<Rightarrow> (Inl e, file')
          | (Inr _, file') \<Rightarrow> (Inr fresh, file')))"

definition md_try_update ::
  "(pystr \<Rightarrow> rat option) \<Rightarrow> (bytes \<Rightarrow> bytes) \<Rightarrow> bool \<Rightarrow> SiloInfo \<Rightarrow> md_file \<Rightarrow> SiloInfo result \<times> md_file" where
  "md_try_update other_iso sha disk_ok s file =
     (case md_load other_iso file of
        Inl e \<Rightarrow> (Inl e, file)
      | Inr st \<Rightarrow>
          (case md_find_index (md_silos st) (silo_id (address s)) of
             None \<Rightarrow>
               if etag s \<noteq> None then (Inl SiloNotFoundError, file)
               else md_finalise_write sha disk_ok (st\<lparr>md_silos := md_silos st @ [s]\<rparr>) (length (md_silos st)) file
           | Some i \<Rightarrow>
               if etag (md_silos st ! i) \<noteq> etag s then (Inl TableStaleError, file)
               else md_finalise_write sha disk_ok (st\<lparr>md_silos := (md_silos st)[i := with_etag s None]\<rparr>) i file))"

definition md_try_delete :: "(pystr \<Rightarrow> rat option) \<Rightarrow> bool \<Rightarrow> SiloInfo \<Rightarrow> md_file \<Rightarrow> unit result \<times> md_file" where
  "md_try_delete other_iso disk_ok s file =
     (case md_load other_iso file of
        Inl e \<Rightarrow> (Inl e, file)
      | Inr st \<Rightarrow>
          (case md_find_index (md_silos st) (silo_id (address s)) of
             None \<Rightarrow> (Inr (), file)
           | Some i \<Rightarrow>
               if etag (md_silos st ! i) \<noteq> etag s then (Inl TableStaleError, file)
               else md_write disk_ok
                      \<lparr>md_version = md_version st + 1, md_silos = take i (md_silos st) @ drop (Suc i) (md_silos st)\<rparr> file))"

definition md_try_add_suspicion ::
  "(pystr \<Rightarrow> rat option) \<Rightarrow> (bytes \<Rightarrow> bytes) \<Rightarrow> bool \<Rightarrow> pystr \<Rightarrow> SuspicionVote \<Rightarrow> pystr \<Rightarrow> md_file
   \<Rightarrow> SiloInfo result \<times> md_file" where
  "md_try_add_suspicion other_iso sha disk_ok sid vote expected_etag file =
     (case md_load other_iso file of
        Inl e \<Rightarrow> (Inl e, file)
      | Inr st \<Rightarrow>
          (case md_find_index (md_silos st) sid of
             None \<Rightarrow> (Inl SiloNotFoundError, file)
           | Some i \<Rightarrow>
               let current = md_silos st ! i
               in if etag current \<noteq> Some expected_etag then (Inl TableStaleError, file)
                  else md_finalise_write sha disk_ok
                         (st\<lparr>md_silos := (md_silos st)[i := current\<lparr>suspicions := suspicions current @ [vote]\<rparr>]\<rparr>) i file))"

subsection \<open>Rows that survive\<close>

text \<open>
  What the columns can hold: text without bars and line breaks that starts and ends with something
  visible, times in range, and votes whose silo has no semicolon. A row whose first column starts with
  dashes would be taken for the line under the header.
\<close>

definition cell_ok :: "pystr \<Rightarrow> bool" where
  "cell_ok c \<longleftrightarrow> strip c = c \<and> (\<forall>x \<in> set c. x \<noteq> 124 \<and> \<not> is_linebreak x \<and> valid_cp x)"

definition stamp_ok :: "seconds \<Rightarrow> bool" where
  "stamp_ok ts \<longleftrightarrow> ts = 0 \<or> time_ok ts"

definition vote_ok :: "SuspicionVote \<Rightarrow> bool" where
  "vote_ok v \<longleftrightarrow> cell_ok (suspecting_silo v) \<and> 59 \<notin> set (suspecting_silo v) \<and> stamp_ok (timestamp v)"

definition optional_cell_ok :: "pystr option \<Rightarrow> bool" where
  "optional_cell_ok v \<longleftrightarrow> v \<noteq> Some [] \<and> (\<forall>c. v = Some c \<longrightarrow> cell_ok c)"

definition row_ok :: "SiloInfo \<Rightarrow> bool" where
  "row_ok s \<longleftrightarrow> cell_ok (host (address s)) \<and> take 3 (encoded (address s)) \<noteq> lit ''---''
     \<and> optional_cell_ok (cluster_id s) \<and> optional_cell_ok (etag s)
     \<and> stamp_ok (last_heartbeat s) \<and> stamp_ok (i_am_alive s) \<and> stamp_ok (start_time s)
     \<and> list_all vote_ok (suspicions s)"

definition rounded_vote :: "SuspicionVote \<Rightarrow> SuspicionVote" where
  "rounded_vote v = SuspicionVote (suspecting_silo v) (rounded_time (timestamp v))"

text \<open>What the table keeps of a row: times to the second, and no row version.\<close>

definition rounded :: "SiloInfo \<Rightarrow> SiloInfo" where
  "rounded s = s\<lparr>last_heartbeat := rounded_time (last_heartbeat s), start_time := rounded_time (start_time s),
     row_version := 0, i_am_alive := rounded_time (i_am_alive s), suspicions := map rounded_vote (suspicions s)\<rparr>"

lemma linebreak_space: "is_linebreak x \<Longrightarrow> is_space x"
  by (auto simp: is_linebreak_def is_space_def)

lemma visible_cell:
  assumes "\<forall>x \<in> set c. x \<noteq> 124 \<and> \<not> is_space x \<and> valid_cp x"
  shows "cell_ok c"
proof -
  have "c = [] \<or> \<not> is_space (hd c) \<and> \<not> is_space (last c)" using assms by (metis hd_in_set last_in_set)
  then show ?thesis using assms linebreak_space by (auto simp: cell_ok_def strip_by_id)
qed

lemma digit_visible: "is_digit x \<Longrightarrow> x \<noteq> 124 \<and> \<not> is_space x \<and> valid_cp x \<and> x \<noteq> 59 \<and> x \<noteq> 64"
  by (auto simp: is_digit_def is_space_def valid_cp_def)

lemma str_int_visible: "x \<in> set (str_int i) \<Longrightarrow> x \<noteq> 124 \<and> \<not> is_space x \<and> valid_cp x"
  using str_int_chars digit_visible by (fastforce simp: is_space_def valid_cp_def)

lemma iso_text_chars:
  assumes "x \<in> set (iso_text secs)"
  shows "x \<noteq> 124 \<and> \<not> is_space x \<and> valid_cp x \<and> x \<noteq> 59 \<and> x \<noteq> 64"
proof -
  have "is_digit x \<or> x \<in> {43, 45, 58, 84} \<or> is_digit 48"
    by (simp add: is_digit_def)
  have pads: "\<forall>y \<in> set (pad w n). is_digit y" for w n using pad_digits by (simp add: list_all_iff)
  have "is_digit x \<or> x \<in> {43, 45, 58, 84}"
    using assms pads by (auto simp: iso_text_def Let_def is_digit_def simp del: pad.simps split: prod.splits)
  then show ?thesis using digit_visible by (auto simp: is_space_def valid_cp_def)
qed

lemma format_stamp:
  assumes "stamp_ok ts"
  obtains t where "format_timestamp ts = Inr t"
    "\<forall>x \<in> set t. x \<noteq> 124 \<and> \<not> is_space x \<and> valid_cp x \<and> x \<noteq> 59 \<and> x \<noteq> 64"
  using assms iso_text_chars by (cases "ts = 0") (auto simp: format_timestamp_def stamp_ok_def)

lemma cell_ok_append:
  assumes "cell_ok a" "\<forall>x \<in> set b. x \<noteq> 124 \<and> \<not> is_space x \<and> valid_cp x" "b \<noteq> []"
  shows "cell_ok (a @ b)"
proof -
  have "hd (a @ b) \<in> set b \<or> a \<noteq> [] \<and> hd (a @ b) = hd a" using assms(3) by (cases a) auto
  then have "\<not> is_space (hd (a @ b))" using assms strip_by_stable [of is_space a] by (auto simp: cell_ok_def)
  moreover have "\<not> is_space (last (a @ b))" using assms by simp
  ultimately show ?thesis using assms linebreak_space by (auto simp: cell_ok_def strip_by_id)
qed

lemma encoded_cell: "cell_ok (host a) \<Longrightarrow> cell_ok (encoded a)"
  unfolding encoded_def
  by (rule cell_ok_append) (auto dest: str_int_visible simp: is_space_def valid_cp_def)

lemma res_map_all: "(\<And>x. x \<in> set xs \<Longrightarrow> f x = Inr (g x)) \<Longrightarrow> res_map f xs = Inr (map g xs)"
  by (induction xs) auto

text \<open>The cell of the votes.\<close>

lemma render_suspicions_spec:
  assumes "list_all vote_ok vs"
  obtains cell where "render_suspicions vs = Inr cell" "cell_ok cell"
    "parse_suspicions other_iso cell = Inr (map rounded_vote vs)"
proof -
  define part where "part v = (case format_timestamp (timestamp v) of Inr t \<Rightarrow> suspecting_silo v @ lit ''@'' @ t | Inl _ \<Rightarrow> [])" for v
  have p: "res_bind (format_timestamp (timestamp v)) (\<lambda>t. Inr (suspecting_silo v @ lit ''@'' @ t)) = Inr (part v)
      \<and> cell_ok (part v) \<and> 59 \<notin> set (part v) \<and> part v \<noteq> []
      \<and> parse_vote other_iso (part v) = Inr (rounded_vote v)" if "v \<in> set vs" for v
  proof -
    have ok: "vote_ok v" using assms that by (simp add: list_all_iff)
    then obtain t where t: "format_timestamp (timestamp v) = Inr t"
      "\<forall>x \<in> set t. x \<noteq> 124 \<and> \<not> is_space x \<and> valid_cp x \<and> x \<noteq> 59 \<and> x \<noteq> 64"
      using format_stamp by (auto simp: vote_ok_def)
    have part: "part v = suspecting_silo v @ 64 # t" by (simp add: part_def t(1))
    have "cell_ok (suspecting_silo v @ 64 # t)"
      by (rule cell_ok_append) (use ok t(2) in \<open>auto simp: vote_ok_def is_space_def valid_cp_def\<close>)
    moreover have "rsplit_once 64 (part v) = Some (suspecting_silo v, t)"
      using t(2) rsplit_once_append [of 64 t] by (auto simp: part)
    ultimately show ?thesis
      using ok t parse_format_timestamp [OF t(1), of other_iso]
      by (auto simp: part parse_vote_def rounded_vote_def vote_ok_def)
  qed
  have parts: "res_map (\<lambda>v. res_bind (format_timestamp (timestamp v)) (\<lambda>t. Inr (suspecting_silo v @ lit ''@'' @ t))) vs = Inr (map part vs)"
    by (rule res_map_all) (rule conjunct1 [OF p])
  show ?thesis
  proof (cases "vs = []")
    case True
    then show ?thesis using that [of "[]"] by (simp add: render_suspicions_def parse_suspicions_def cell_ok_def strip_by_def)
  next
    case False
    let ?cell = "join_with [59] (map part vs)"
    have "render_suspicions vs = Inr ?cell" using parts by (simp add: render_suspicions_def)
    moreover have "cell_ok ?cell \<and> ?cell \<noteq> []"
      using False p
    proof (induction vs)
      case (Cons v ws)
      show ?case
      proof (cases ws)
        case (Cons w us)
        have a: "cell_ok (part v)" "part v \<noteq> []" using Cons.prems(2) by simp_all
        have b: "cell_ok (join_with [59] (map part ws))" "join_with [59] (map part ws) \<noteq> []"
          using Cons.IH Cons.prems(2) \<open>ws = w # us\<close> by simp_all
        have eq: "join_with [59] (map part (v # ws)) = part v @ 59 # join_with [59] (map part ws)"
          by (simp add: \<open>ws = w # us\<close>)
        have "hd (part v @ 59 # join_with [59] (map part ws)) = hd (part v)"
          "last (part v @ 59 # join_with [59] (map part ws)) = last (join_with [59] (map part ws))" using a b by simp_all
        then have "strip (part v @ 59 # join_with [59] (map part ws)) = part v @ 59 # join_with [59] (map part ws)"
          using strip_by_stable [of is_space "part v"] strip_by_stable [of is_space "join_with [59] (map part ws)"] a b
          by (intro strip_by_id) (auto simp: cell_ok_def)
        then show ?thesis using a b unfolding eq by (auto simp: cell_ok_def is_linebreak_def valid_cp_def)
      qed (use Cons.prems in simp)
    qed simp
    moreover have "split_on 59 ?cell = map part vs" by (rule split_on_joined) (use p False in auto)
    moreover have "res_map (parse_vote other_iso) (map part vs) = Inr (map rounded_vote vs)"
      using p by (induction vs) auto
    ultimately show ?thesis using that [of ?cell] by (simp add: parse_suspicions_def)
  qed
qed

text \<open>A row and its text.\<close>

lemma row_cells_spec:
  assumes "row_ok s"
  obtains heartbeat alive start votes where
    "row_cells s = Inr [encoded (address s), host (address s), str_int (port (address s)), str_int (epoch (address s)),
        status_value (status s), (case cluster_id s of None \<Rightarrow> [] | Some c \<Rightarrow> c),
        (case gateway_port s of None \<Rightarrow> [] | Some p \<Rightarrow> str_int p), heartbeat, alive, start, votes,
        (case etag s of None \<Rightarrow> [] | Some e \<Rightarrow> e)]"
    "parse_timestamp other_iso heartbeat = Inr (rounded_time (last_heartbeat s))"
    "parse_timestamp other_iso alive = Inr (rounded_time (i_am_alive s))"
    "parse_timestamp other_iso start = Inr (rounded_time (start_time s))"
    "parse_suspicions other_iso votes = Inr (map rounded_vote (suspicions s))"
    "cell_ok heartbeat" "cell_ok alive" "cell_ok start" "cell_ok votes"
proof -
  obtain t1 where t1: "format_timestamp (last_heartbeat s) = Inr t1" "cell_ok t1"
    using assms format_stamp visible_cell unfolding row_ok_def by metis
  obtain t2 where t2: "format_timestamp (i_am_alive s) = Inr t2" "cell_ok t2"
    using assms format_stamp visible_cell unfolding row_ok_def by metis
  obtain t3 where t3: "format_timestamp (start_time s) = Inr t3" "cell_ok t3"
    using assms format_stamp visible_cell unfolding row_ok_def by metis
  obtain votes where v: "render_suspicions (suspicions s) = Inr votes" "cell_ok votes"
    "parse_suspicions other_iso votes = Inr (map rounded_vote (suspicions s))"
    using assms render_suspicions_spec unfolding row_ok_def by metis
  show ?thesis
    by (rule that [of t1 t2 t3 votes])
      (simp_all add: row_cells_def t1 t2 t3 v parse_format_timestamp)
qed

lemma status_cell: "cell_ok (status_value st)"
  by (rule visible_cell) (cases st; simp add: is_space_def valid_cp_def)

lemma int_cell: "cell_ok (str_int i)"
  by (rule visible_cell) (auto dest: str_int_visible)

lemma empty_cell: "cell_ok []"
  by (rule visible_cell) simp

lemma optional_cell: "optional_cell_ok v \<Longrightarrow> cell_ok (case v of None \<Rightarrow> [] | Some c \<Rightarrow> c)"
  by (cases v) (simp_all add: optional_cell_ok_def empty_cell)

lemma join_bars_chars:
  "x \<in> set (join_with (lit '' | '') cells) \<Longrightarrow> x = 32 \<or> x = 124 \<or> (\<exists>c \<in> set cells. x \<in> set c)"
  by (induction "lit '' | ''" cells rule: join_with.induct) auto

lemma strip_bars:
  "strip_by (\<lambda>c. c = 124) (lit ''| '' @ body @ lit '' |'') = 32 # body @ [32]"
  by (simp add: strip_by_def)

lemma render_row_spec:
  assumes "row_ok s"
  obtains line where "render_row s = Inr line" "parse_row other_iso line = Inr (rounded s)"
    "\<forall>x \<in> set line. \<not> is_linebreak x \<and> valid_cp x" "strip line = line" "take 1 line = lit ''|''"
    "take 5 line \<noteq> lit ''| ---''" "map lower_ascii (take 8 line) \<noteq> lit ''version:''" "line \<noteq> HEADER" "line \<noteq> []"
proof -
  obtain heartbeat alive start votes where c: "row_cells s = Inr [encoded (address s), host (address s), str_int (port (address s)), str_int (epoch (address s)),
        status_value (status s), (case cluster_id s of None \<Rightarrow> [] | Some c \<Rightarrow> c),
        (case gateway_port s of None \<Rightarrow> [] | Some p \<Rightarrow> str_int p), heartbeat, alive, start, votes,
        (case etag s of None \<Rightarrow> [] | Some e \<Rightarrow> e)]" (is "_ = Inr ?cells")
    and t: "parse_timestamp other_iso heartbeat = Inr (rounded_time (last_heartbeat s))"
      "parse_timestamp other_iso alive = Inr (rounded_time (i_am_alive s))"
      "parse_timestamp other_iso start = Inr (rounded_time (start_time s))"
      "parse_suspicions other_iso votes = Inr (map rounded_vote (suspicions s))"
    and ok: "cell_ok heartbeat" "cell_ok alive" "cell_ok start" "cell_ok votes"
    by (rule row_cells_spec [OF assms])
  have gw: "cell_ok (case gateway_port s of None \<Rightarrow> [] | Some p \<Rightarrow> str_int p)"
    by (cases "gateway_port s") (simp_all add: int_cell empty_cell)
  have cells: "\<forall>c \<in> set ?cells. cell_ok c"
    using assms ok gw optional_cell encoded_cell status_cell int_cell by (simp add: row_ok_def)
  have no_bar: "\<forall>c \<in> set ?cells. 124 \<notin> set c" and stable: "\<forall>c \<in> set ?cells. strip c = c"
    using cells by (auto simp: cell_ok_def simp del: list.set)
  have no_break: "\<not> (\<exists>c \<in> set ?cells. 124 \<in> set c \<or> 10 \<in> set c \<or> 13 \<in> set c)"
    using cells unfolding cell_ok_def is_linebreak_def by fastforce
  let ?body = "join_with (lit '' | '') ?cells"
  let ?line = "lit ''| '' @ ?body @ lit '' |''"
  have render: "render_row s = Inr ?line" using no_break by (simp only: render_row_def c res_bind.simps if_False)
  have "map strip (split_on 124 (strip_by (\<lambda>c. c = 124) ?line)) = map strip (map (\<lambda>x. 32 # x @ [32]) ?cells)"
    using split_on_cells [OF no_bar] by (simp only: strip_bars) simp
  also have "\<dots> = map (\<lambda>x. x) ?cells"
    unfolding map_map by (rule map_cong [OF refl]) (use stable strip_padded in \<open>simp del: list.set\<close>)
  finally have split: "map strip (split_on 124 (strip_by (\<lambda>c. c = 124) ?line)) = ?cells" by simp
  have opt: "some_text (case v of None \<Rightarrow> [] | Some c \<Rightarrow> c) = v" if "optional_cell_ok v" for v
    using that by (cases v) (auto simp: some_text_def optional_cell_ok_def)
  have gwp: "(if (case gateway_port s of None \<Rightarrow> [] | Some p \<Rightarrow> str_int p) = [] then Inr None
      else res_bind (int_of_str (case gateway_port s of None \<Rightarrow> [] | Some p \<Rightarrow> str_int p)) (\<lambda>g. Inr (Some g))) = Inr (gateway_port s)"
    by (cases "gateway_port s") simp_all
  have parse: "parse_row other_iso ?line = Inr (rounded s)"
    using assms unfolding parse_row_def split
    by (simp add: t gwp opt row_ok_def rounded_def)
  have chars: "x \<in> set ?line \<Longrightarrow> x = 32 \<or> x = 124 \<or> (\<exists>c \<in> set ?cells. x \<in> set c)" for x
    using join_bars_chars [of x ?cells] by auto
  have plain: "\<forall>x \<in> set ?line. \<not> is_linebreak x \<and> valid_cp x"
  proof
    fix x assume "x \<in> set ?line"
    from chars [OF this] cells show "\<not> is_linebreak x \<and> valid_cp x"
      by (auto simp: cell_ok_def is_linebreak_def valid_cp_def simp del: list.set)
  qed
  have strip: "strip ?line = ?line"
    by (rule strip_by_id) (simp add: is_space_def)
  have first: "take 5 (lit ''| '' @ b) = lit ''| '' @ take 3 b" "join_with sep (x # y # zs) = x @ sep @ join_with sep (y # zs)"
    for b x y sep and zs :: "pystr list" by simp_all
  obtain rest where rest: "?body @ lit '' |'' = encoded (address s) @ rest" unfolding first(2) by (metis append.assoc)
  have "length (encoded (address s)) \<ge> 3"
    using str_int_nonempty [of "port (address s)"] str_int_nonempty [of "epoch (address s)"]
    by (cases "str_int (port (address s))"; cases "str_int (epoch (address s))") (simp_all add: encoded_def)
  then have "take 3 (encoded (address s) @ rest) = take 3 (encoded (address s))" by simp
  then have "take 5 ?line = lit ''| '' @ take 3 (encoded (address s))" unfolding first(1) rest by (rule arg_cong)
  moreover have "take 3 (encoded (address s)) \<noteq> lit ''---''" using assms by (simp add: row_ok_def)
  ultimately have dashes: "take 5 ?line \<noteq> lit ''| ---''" by simp
  have version: "map lower_ascii (take 8 ?line) \<noteq> lit ''version:''" by (simp add: lower_ascii_def)
  have "?line \<noteq> HEADER"
  proof
    assume h: "?line = HEADER"
    have "split_on 124 (strip_by (\<lambda>c. c = 124) HEADER) ! 4 = lit '' Status ''"
      by (simp add: HEADER_def strip_by_def)
    then have "strip (split_on 124 (strip_by (\<lambda>c. c = 124) ?line) ! 4) = lit ''Status''"
      unfolding h by (simp add: strip_by_def is_space_def)
    moreover have "length (map strip (split_on 124 (strip_by (\<lambda>c. c = 124) ?line))) = length ?cells"
      by (rule arg_cong [OF split])
    then have "4 < length (split_on 124 (strip_by (\<lambda>c. c = 124) ?line))" unfolding length_map by simp
    ultimately have "map strip (split_on 124 (strip_by (\<lambda>c. c = 124) ?line)) ! 4 = lit ''Status''" by simp
    then have "status_value (status s) = lit ''Status''" unfolding split by simp
    then show False by (cases "status s") simp_all
  qed
  moreover have "take 1 ?line = lit ''|''" by simp
  moreover have "?line \<noteq> []" by simp
  ultimately show ?thesis using that [OF render parse plain strip _ dashes version] by blast
qed

subsection \<open>The whole table\<close>

definition good_state :: "md_state \<Rightarrow> bool" where
  "good_state st \<longleftrightarrow> list_all row_ok (md_silos st) \<and> distinct (row_ids (md_silos st))"

definition rounded_state :: "md_state \<Rightarrow> md_state" where
  "rounded_state st = st\<lparr>md_silos := map rounded (md_silos st)\<rparr>"

lemma stamp_ok_rounded: "stamp_ok ts \<Longrightarrow> stamp_ok (rounded_time ts)"
  by (auto simp: stamp_ok_def rounded_time_def time_ok_def)

lemma rounded_fields [simp]:
  "address (rounded s) = address s" "etag (rounded s) = etag s" "row_version (rounded s) = 0"
  "rounded (s\<lparr>etag := e\<rparr>) = (rounded s)\<lparr>etag := e\<rparr>"
  by (simp_all add: rounded_def)

lemma rounded_idem [simp]: "rounded (rounded s) = rounded s"
  by (simp add: rounded_def rounded_vote_def)

lemma row_ok_rounded: "row_ok s \<Longrightarrow> row_ok (rounded s)"
  by (auto simp: row_ok_def rounded_def stamp_ok_rounded list_all_iff vote_ok_def rounded_vote_def)

lemma good_state_rounded: "good_state st \<Longrightarrow> good_state (rounded_state st)"
  by (auto simp: good_state_def rounded_state_def list_all_iff row_ok_rounded comp_def)

lemma render_rows:
  assumes "list_all row_ok ss"
  obtains rows where "res_map render_row ss = Inr rows" "\<forall>r \<in> set rows. \<forall>x \<in> set r. \<not> is_linebreak x \<and> valid_cp x"
    "\<And>st. parse_lines other_iso True st rows = Inr (st\<lparr>md_silos := md_silos st @ map rounded ss\<rparr>)"
  using assms
proof (induction ss arbitrary: thesis)
  case Nil
  then show ?case by (simp add: Nil.prems(1) [of "[]"])
next
  case (Cons s ss)
  obtain rows where rows: "res_map render_row ss = Inr rows" "\<forall>r \<in> set rows. \<forall>x \<in> set r. \<not> is_linebreak x \<and> valid_cp x"
    "\<And>st. parse_lines other_iso True st rows = Inr (st\<lparr>md_silos := md_silos st @ map rounded ss\<rparr>)"
    using Cons.IH Cons.prems(2) by auto
  obtain line where line: "render_row s = Inr line" "parse_row other_iso line = Inr (rounded s)"
    "\<forall>x \<in> set line. \<not> is_linebreak x \<and> valid_cp x" "strip line = line" "take 1 line = lit ''|''"
    "take 5 line \<noteq> lit ''| ---''" "map lower_ascii (take 8 line) \<noteq> lit ''version:''" "line \<noteq> HEADER" "line \<noteq> []"
    using render_row_spec [of s other_iso] Cons.prems(2) by (auto simp del: list.map)
  have "parse_lines other_iso True st (line # rows) = Inr (st\<lparr>md_silos := md_silos st @ rounded s # map rounded ss\<rparr>)" for st
    using line(2,4-9) rows(3) by (simp add: Let_def del: list.map)
  then show ?case using line(1,3) rows(1,2) by (intro Cons.prems(1) [of "line # rows"]) auto
qed

lemma strip_header: "strip HEADER = HEADER" "strip SEPARATOR = SEPARATOR" "take 5 SEPARATOR = lit ''| ---''"
  "map lower_ascii (take 8 HEADER) \<noteq> lit ''version:''" "map lower_ascii (take 8 SEPARATOR) \<noteq> lit ''version:''"
  "SEPARATOR \<noteq> HEADER" "SEPARATOR \<noteq> []"
proof -
  show "strip HEADER = HEADER" "strip SEPARATOR = SEPARATOR"
    by (rule strip_by_id, simp add: HEADER_def SEPARATOR_def is_space_def)+
qed (simp_all add: HEADER_def SEPARATOR_def lower_ascii_def)

lemma version_line:
  "strip (lit ''Version: '' @ str_int v) = lit ''Version: '' @ str_int v"
  "map lower_ascii (take 8 (lit ''Version: '' @ str_int v)) = lit ''version:''"
  "parse_version (lit ''Version: '' @ str_int v) = Inr v"
proof -
  have last: "\<not> is_space (last (str_int v))" using str_int_visible [of "last (str_int v)" v] by simp
  show "strip (lit ''Version: '' @ str_int v) = lit ''Version: '' @ str_int v"
    by (rule strip_by_id) (use last in \<open>simp add: is_space_def\<close>)
  have "strip (str_int v) = str_int v" using int_cell by (simp add: cell_ok_def)
  then have "strip (32 # str_int v) = str_int v" using last by (simp add: strip_by_def is_space_def)
  then show "parse_version (lit ''Version: '' @ str_int v) = Inr v" by (simp add: parse_version_def)
qed (simp add: lower_ascii_def)

lemma render_parse:
  assumes "list_all row_ok (md_silos st)"
  obtains content where "md_render st = Inr content" "list_all valid_cp content"
    "md_parse other_iso content = Inr (rounded_state st)"
proof -
  obtain rows where rows: "res_map render_row (md_silos st) = Inr rows" "\<forall>r \<in> set rows. \<forall>x \<in> set r. \<not> is_linebreak x \<and> valid_cp x"
    "\<And>st'. parse_lines other_iso True st' rows = Inr (st'\<lparr>md_silos := md_silos st' @ map rounded (md_silos st)\<rparr>)"
    using render_rows [OF assms] by blast
  let ?version = "lit ''Version: '' @ str_int (md_version st)"
  let ?lines = "[lit ''# Membership'', [], ?version, [], HEADER, SEPARATOR] @ rows"
  let ?content = "join_with [10] (?lines @ [[]])"
  have render: "md_render st = Inr ?content" using rows(1) by (simp add: md_render_def del: list.map)
  have chars: "\<forall>l \<in> set ?lines. \<forall>x \<in> set l. \<not> is_linebreak x \<and> valid_cp x"
  proof -
    have "\<forall>x \<in> set ?version. \<not> is_linebreak x \<and> valid_cp x"
      using str_int_visible linebreak_space by (fastforce simp: is_linebreak_def valid_cp_def)
    moreover have "\<forall>x \<in> set HEADER. \<not> is_linebreak x \<and> valid_cp x" "\<forall>x \<in> set SEPARATOR. \<not> is_linebreak x \<and> valid_cp x"
      "\<forall>x \<in> set (lit ''# Membership''). \<not> is_linebreak x \<and> valid_cp x"
      by (simp_all add: HEADER_def SEPARATOR_def is_linebreak_def valid_cp_def)
    ultimately show ?thesis using rows(2) by (simp del: list.map)
  qed
  have content: "?content = concat (map (\<lambda>l. l @ [10]) ?lines)" by (rule join_newlines)
  have valid: "list_all valid_cp ?content" unfolding content list_all_iff using chars by (auto simp: valid_cp_def simp del: list.map append.simps)
  have lines: "split_lines ?content = ?lines" unfolding content by (rule split_lines_joined) (use chars in blast)
  have title: "strip (lit ''# Membership'') = lit ''# Membership''" "map lower_ascii (take 8 (lit ''# Membership'')) \<noteq> lit ''version:''"
    "lit ''# Membership'' \<noteq> HEADER" "strip [] = []" "[] \<noteq> HEADER" "map lower_ascii (take 8 []) \<noteq> lit ''version:''"
    by (rule strip_by_id) (simp_all add: is_space_def lower_ascii_def HEADER_def strip_by_def)
  have version: "map lower_ascii (take 8 (lit ''Version: '')) = lit ''version:''" by (simp add: lower_ascii_def)
  have "parse_lines other_iso False empty_state ?lines = Inr (rounded_state st)"
    by (cases st) (simp add: version Let_def title strip_header version_line rows(3) empty_state_def rounded_state_def del: list.map)
  then have "md_parse other_iso ?content = Inr (rounded_state st)" unfolding md_parse_def lines .
  then show ?thesis using that render valid by blast
qed

subsection \<open>Compare and swap\<close>

definition md_ok :: "md_file \<Rightarrow> bool" where
  "md_ok file \<longleftrightarrow> (\<exists>st. good_state st \<and>
     (file = MdAbsent \<and> st = empty_state \<or> (\<exists>content. md_render st = Inr content \<and> file = MdBytes (utf8_bytes content))))"

definition md_row :: "(pystr \<Rightarrow> rat option) \<Rightarrow> md_file \<Rightarrow> pystr \<Rightarrow> SiloInfo option" where
  "md_row other_iso file sid =
     (case read_silo (md_read_all other_iso file) sid of Inl _ \<Rightarrow> None | Inr r \<Rightarrow> r)"

definition md_file_version :: "(pystr \<Rightarrow> rat option) \<Rightarrow> md_file \<Rightarrow> int" where
  "md_file_version other_iso file = (case md_read_all other_iso file of Inl _ \<Rightarrow> 0 | Inr snap \<Rightarrow> version snap)"

text \<open>The calls whose row or vote the columns can hold.\<close>

fun md_op_ok :: "mem_op \<Rightarrow> bool" where
  "md_op_ok (TryUpdate s) = row_ok (s\<lparr>etag := None\<rparr>)"
| "md_op_ok (TryDelete s) = True"
| "md_op_ok (TryAddSuspicion sid v e) = vote_ok v"

lemma md_load_ok:
  assumes "md_ok file"
  obtains st where "md_load other_iso file = Inr st" "good_state st" "map rounded (md_silos st) = md_silos st"
    "md_row other_iso file = find_silo (md_silos st)" "md_file_version other_iso file = md_version st"
proof -
  obtain st0 where st0: "good_state st0"
    "file = MdAbsent \<and> st0 = empty_state \<or> (\<exists>content. md_render st0 = Inr content \<and> file = MdBytes (utf8_bytes content))"
    using assms by (auto simp: md_ok_def)
  have "md_load other_iso file = Inr (rounded_state st0)"
  proof (cases "file = MdAbsent")
    case True
    then show ?thesis using st0(2) by (auto simp: md_load_def rounded_state_def empty_state_def)
  next
    case False
    obtain content where "md_render st0 = Inr content" "list_all valid_cp content" "md_parse other_iso content = Inr (rounded_state st0)"
      using render_parse st0(1) unfolding good_state_def by blast
    then show ?thesis using False st0(2) by (auto simp: md_load_def utf8_decode_bytes)
  qed
  then show ?thesis
    using good_state_rounded [OF st0(1)]
    by (intro that [of "rounded_state st0"])
      (auto simp: rounded_state_def md_row_def md_file_version_def md_read_all_def read_silo_def fun_eq_iff)
qed

lemma md_write_ok:
  assumes "good_state st"
  obtains file' where "md_write True st file = (Inr (), file')" "md_ok file'"
    "md_row other_iso file' = find_silo (map rounded (md_silos st))" "md_file_version other_iso file' = md_version st"
proof -
  obtain content where c: "md_render st = Inr content" "list_all valid_cp content" "md_parse other_iso content = Inr (rounded_state st)"
    using render_parse assms unfolding good_state_def by blast
  let ?file = "MdBytes (utf8_bytes content)"
  have "md_write True st file = (Inr (), ?file)" by (simp add: md_write_def c utf8_encode_def)
  moreover have "md_ok ?file" using assms c(1) by (auto simp: md_ok_def)
  moreover have "md_load other_iso ?file = Inr (rounded_state st)" by (simp add: md_load_def c utf8_decode_bytes)
  then have "md_row other_iso ?file = find_silo (map rounded (md_silos st))" "md_file_version other_iso ?file = md_version st"
    by (simp_all add: rounded_state_def md_row_def md_file_version_def md_read_all_def read_silo_def fun_eq_iff)
  ultimately show ?thesis by (rule that)
qed

lemma md_find_index_spec:
  "case md_find_index ss sid of
     None \<Rightarrow> find_silo ss sid = None
   | Some i \<Rightarrow> i < length ss \<and> find_silo ss sid = Some (ss ! i) \<and> silo_id (address (ss ! i)) = sid
       \<and> (\<forall>s. silo_id (address s) = sid \<longrightarrow> find_silo (ss[i := s]) = (find_silo ss)(sid \<mapsto> s)
             \<and> row_ids (ss[i := s]) = row_ids ss)
       \<and> (distinct (row_ids ss) \<longrightarrow>
            find_silo (take i ss @ drop (Suc i) ss) = (find_silo ss)(sid := None))"
proof (induction ss)
  case (Cons s ss)
  show ?case
  proof (cases "silo_id (address s) = sid")
    case True
    have "find_silo ss sid = None" if "distinct (row_ids (s # ss))"
      using that True by (auto simp: find_silo_None)
    with True show ?thesis by (auto simp: fun_eq_iff)
  next
    case False
    then show ?thesis using Cons.IH by (cases "md_find_index ss sid") (auto simp: fun_eq_iff)
  qed
qed simp

lemma hex_cell: "cell_ok (md_compute_etag sha s v)" "md_compute_etag sha s v \<noteq> []"
proof -
  have hex: "hexdig n \<noteq> 124 \<and> \<not> is_space (hexdig n) \<and> valid_cp (hexdig n)" if "n < 16" for n
    using that by (auto simp: hexdig_def is_space_def valid_cp_def)
  have "unat b < 256" for b :: byte using unsigned_less [of b] by simp
  then have nib: "unat b div 16 < 16" "unat b mod 16 < 16" for b :: byte
    by (simp_all add: less_mult_imp_div_less)
  have "\<forall>x \<in> set (concat (map (\<lambda>b. [hexdig (unat b div 16), hexdig (unat b mod 16)]) bs)).
      x \<noteq> 124 \<and> \<not> is_space x \<and> valid_cp x" for bs :: bytes
    using hex nib by auto
  then show "cell_ok (md_compute_etag sha s v)"
    by (intro visible_cell) (auto simp: md_compute_etag_def Let_def is_space_def valid_cp_def dest!: in_set_takeD)
  show "md_compute_etag sha s v \<noteq> []" by (simp add: md_compute_etag_def Let_def)
qed

lemma row_ok_etag: "row_ok (s\<lparr>etag := None\<rparr>) \<Longrightarrow> optional_cell_ok e \<Longrightarrow> row_ok (s\<lparr>etag := e\<rparr>)"
  by (simp add: row_ok_def)

text \<open>One write of a row: version plus one, a new etag, the row in its place and nothing else changed.\<close>

lemma md_finalise_ok:
  assumes "good_state (st\<lparr>md_silos := (md_silos st)[i := (md_silos st ! i)\<lparr>etag := None\<rparr>]\<rparr>)" "i < length (md_silos st)"
  obtains e file' where "md_finalise_write sha True st i file = (Inr ((md_silos st ! i)\<lparr>etag := Some e\<rparr>), file')" "md_ok file'"
    "md_row other_iso file' = find_silo (map rounded ((md_silos st)[i := (md_silos st ! i)\<lparr>etag := Some e\<rparr>]))"
    "md_file_version other_iso file' = md_version st + 1"
proof -
  let ?e = "md_compute_etag sha (md_silos st ! i) (md_version st + 1)"
  let ?fresh = "(md_silos st ! i)\<lparr>etag := Some ?e\<rparr>"
  let ?st = "st\<lparr>md_version := md_version st + 1, md_silos := (md_silos st)[i := ?fresh]\<rparr>"
  have old: "list_all row_ok ((md_silos st)[i := (md_silos st ! i)\<lparr>etag := None\<rparr>])"
    and ids: "distinct (row_ids ((md_silos st)[i := (md_silos st ! i)\<lparr>etag := None\<rparr>]))"
    using assms(1) by (simp_all add: good_state_def)
  have "row_ok ((md_silos st ! i)\<lparr>etag := None\<rparr>)"
  proof -
    have "row_ok ((md_silos st)[i := (md_silos st ! i)\<lparr>etag := None\<rparr>] ! i)"
      using old assms(2) unfolding list_all_length length_list_update by blast
    then show ?thesis using assms(2) by simp
  qed
  then have fresh: "row_ok ?fresh" by (rule row_ok_etag) (simp add: optional_cell_ok_def hex_cell)
  have "row_ok ((md_silos st)[i := ?fresh] ! k)" if "k < length (md_silos st)" for k
  proof (cases "k = i")
    case False
    have "row_ok ((md_silos st)[i := (md_silos st ! i)\<lparr>etag := None\<rparr>] ! k)" using old that unfolding list_all_length by simp
    then show ?thesis using False by simp
  qed (use fresh assms(2) in simp)
  then have "list_all row_ok ((md_silos st)[i := ?fresh])" by (simp add: list_all_length)
  moreover have "row_ids ((md_silos st)[i := ?fresh]) = row_ids ((md_silos st)[i := (md_silos st ! i)\<lparr>etag := None\<rparr>])"
    by (simp add: map_update)
  ultimately have good: "good_state ?st" using ids by (simp add: good_state_def)
  obtain file' where "md_write True ?st file = (Inr (), file')" "md_ok file'"
    "md_row other_iso file' = find_silo (map rounded (md_silos ?st))" "md_file_version other_iso file' = md_version ?st"
    by (rule md_write_ok [OF good])
  then show ?thesis by (intro that [of ?e file']) (simp_all add: md_finalise_write_def with_etag_def Let_def)
qed

text \<open>The four outcomes of an update and of a vote, and those of a removal.\<close>

lemma md_update_cases:
  assumes "md_ok file"
  shows "md_row other_iso file (silo_id (address s)) = None \<Longrightarrow> etag s \<noteq> None \<Longrightarrow>
      md_try_update other_iso sha disk_ok s file = (Inl SiloNotFoundError, file)"
    "md_row other_iso file (silo_id (address s)) = Some r \<Longrightarrow> etag r \<noteq> etag s \<Longrightarrow>
      md_try_update other_iso sha disk_ok s file = (Inl TableStaleError, file)"
    "row_ok (s\<lparr>etag := None\<rparr>) \<Longrightarrow>
      md_row other_iso file (silo_id (address s)) = None \<and> etag s = None
        \<or> (\<exists>r. md_row other_iso file (silo_id (address s)) = Some r \<and> etag r = etag s) \<Longrightarrow>
      \<exists>e file'. md_try_update other_iso sha True s file = (Inr (s\<lparr>etag := Some e\<rparr>), file') \<and> md_ok file'
        \<and> md_row other_iso file' = (md_row other_iso file)(silo_id (address s) \<mapsto> (rounded s)\<lparr>etag := Some e\<rparr>)
        \<and> md_file_version other_iso file' = md_file_version other_iso file + 1"
proof -
  let ?sid = "silo_id (address s)"
  obtain st where st: "md_load other_iso file = Inr st" "good_state st" "map rounded (md_silos st) = md_silos st"
    "md_row other_iso file = find_silo (md_silos st)" "md_file_version other_iso file = md_version st"
    by (rule md_load_ok [OF assms])
  note idx = md_find_index_spec [of "md_silos st" ?sid]
  show "md_row other_iso file ?sid = None \<Longrightarrow> etag s \<noteq> None \<Longrightarrow>
      md_try_update other_iso sha disk_ok s file = (Inl SiloNotFoundError, file)"
    using idx by (cases "md_find_index (md_silos st) ?sid") (simp_all add: md_try_update_def st)
  show "md_row other_iso file ?sid = Some r \<Longrightarrow> etag r \<noteq> etag s \<Longrightarrow>
      md_try_update other_iso sha disk_ok s file = (Inl TableStaleError, file)"
    using idx by (cases "md_find_index (md_silos st) ?sid") (auto simp: md_try_update_def st)
  assume ok: "row_ok (s\<lparr>etag := None\<rparr>)"
    and guard: "md_row other_iso file ?sid = None \<and> etag s = None \<or> (\<exists>r. md_row other_iso file ?sid = Some r \<and> etag r = etag s)"
  show "\<exists>e file'. md_try_update other_iso sha True s file = (Inr (s\<lparr>etag := Some e\<rparr>), file') \<and> md_ok file'
        \<and> md_row other_iso file' = (md_row other_iso file)(?sid \<mapsto> (rounded s)\<lparr>etag := Some e\<rparr>)
        \<and> md_file_version other_iso file' = md_file_version other_iso file + 1"
  proof (cases "md_find_index (md_silos st) ?sid")
    case None
    then have none: "find_silo (md_silos st) ?sid = None" "etag s = None" using idx guard st(4) by auto
    let ?st = "st\<lparr>md_silos := md_silos st @ [s]\<rparr>" and ?n = "length (md_silos st)"
    have "?sid \<notin> set (row_ids (md_silos st))" using none(1) by (auto simp: find_silo_None)
    then have good: "good_state (?st\<lparr>md_silos := (md_silos ?st)[?n := (md_silos ?st ! ?n)\<lparr>etag := None\<rparr>]\<rparr>)"
      using st(2) ok by (simp add: good_state_def)
    obtain e file' where f: "md_finalise_write sha True ?st ?n file = (Inr ((md_silos ?st ! ?n)\<lparr>etag := Some e\<rparr>), file')" "md_ok file'"
      "md_row other_iso file' = find_silo (map rounded ((md_silos ?st)[?n := (md_silos ?st ! ?n)\<lparr>etag := Some e\<rparr>]))"
      "md_file_version other_iso file' = md_version ?st + 1"
      by (rule md_finalise_ok [OF good]) simp
    have "find_silo (md_silos st @ [(rounded s)\<lparr>etag := Some e\<rparr>]) = (find_silo (md_silos st))(?sid \<mapsto> (rounded s)\<lparr>etag := Some e\<rparr>)"
      using find_silo_append_new [of "md_silos st" "(rounded s)\<lparr>etag := Some e\<rparr>"] none(1) by simp
    then show ?thesis using f none None st
      by (intro exI [of _ e] exI [of _ file']) (simp add: md_try_update_def)
  next
    case (Some i)
    then have i: "i < length (md_silos st)" "etag (md_silos st ! i) = etag s"
      "\<And>s'. silo_id (address s') = ?sid \<Longrightarrow> find_silo ((md_silos st)[i := s']) = (find_silo (md_silos st))(?sid \<mapsto> s')
        \<and> row_ids ((md_silos st)[i := s']) = row_ids (md_silos st)"
      using idx guard st(4) by auto
    let ?st = "st\<lparr>md_silos := (md_silos st)[i := with_etag s None]\<rparr>"
    have "list_all row_ok ((md_silos st)[i := s\<lparr>etag := None\<rparr>])"
      using st(2) ok by (auto simp: good_state_def list_all_iff dest!: set_update_subset_insert [THEN subsetD])
    moreover have "distinct (row_ids ((md_silos st)[i := s\<lparr>etag := None\<rparr>]))" using st(2) i(3) [of "s\<lparr>etag := None\<rparr>"] by (simp add: good_state_def)
    ultimately have good: "good_state (?st\<lparr>md_silos := (md_silos ?st)[i := (md_silos ?st ! i)\<lparr>etag := None\<rparr>]\<rparr>)"
      using i(1) by (simp add: good_state_def with_etag_def)
    obtain e file' where f: "md_finalise_write sha True ?st i file = (Inr ((md_silos ?st ! i)\<lparr>etag := Some e\<rparr>), file')" "md_ok file'"
      "md_row other_iso file' = find_silo (map rounded ((md_silos ?st)[i := (md_silos ?st ! i)\<lparr>etag := Some e\<rparr>]))"
      "md_file_version other_iso file' = md_version ?st + 1"
      by (rule md_finalise_ok [OF good]) (simp add: i(1))
    have "map rounded ((md_silos st)[i := s\<lparr>etag := Some e\<rparr>]) = (md_silos st)[i := (rounded s)\<lparr>etag := Some e\<rparr>]"
      by (simp add: map_update st(3))
    then have "md_row other_iso file' = (find_silo (md_silos st))(?sid \<mapsto> (rounded s)\<lparr>etag := Some e\<rparr>)"
      using f(3) i(1) i(3) [of "(rounded s)\<lparr>etag := Some e\<rparr>"] by (simp add: with_etag_def)
    then show ?thesis using f(1,2,4) i(1,2) Some st
      by (intro exI [of _ e] exI [of _ file']) (simp add: md_try_update_def with_etag_def)
  qed
qed

lemma md_delete_cases:
  assumes "md_ok file"
  shows "md_row other_iso file (silo_id (address s)) = None \<Longrightarrow> md_try_delete other_iso disk_ok s file = (Inr (), file)"
    "md_row other_iso file (silo_id (address s)) = Some r \<Longrightarrow> etag r \<noteq> etag s \<Longrightarrow>
      md_try_delete other_iso disk_ok s file = (Inl TableStaleError, file)"
    "md_row other_iso file (silo_id (address s)) = Some r \<Longrightarrow> etag r = etag s \<Longrightarrow>
      \<exists>file'. md_try_delete other_iso True s file = (Inr (), file') \<and> md_ok file'
        \<and> md_row other_iso file' = (md_row other_iso file)(silo_id (address s) := None)
        \<and> md_file_version other_iso file' = md_file_version other_iso file + 1"
proof -
  let ?sid = "silo_id (address s)"
  obtain st where st: "md_load other_iso file = Inr st" "good_state st" "map rounded (md_silos st) = md_silos st"
    "md_row other_iso file = find_silo (md_silos st)" "md_file_version other_iso file = md_version st"
    by (rule md_load_ok [OF assms])
  note idx = md_find_index_spec [of "md_silos st" ?sid]
  show "md_row other_iso file ?sid = None \<Longrightarrow> md_try_delete other_iso disk_ok s file = (Inr (), file)"
    using idx by (cases "md_find_index (md_silos st) ?sid") (simp_all add: md_try_delete_def st)
  show "md_row other_iso file ?sid = Some r \<Longrightarrow> etag r \<noteq> etag s \<Longrightarrow>
      md_try_delete other_iso disk_ok s file = (Inl TableStaleError, file)"
    using idx by (cases "md_find_index (md_silos st) ?sid") (auto simp: md_try_delete_def st)
  assume row: "md_row other_iso file ?sid = Some r" "etag r = etag s"
  then obtain i where i: "md_find_index (md_silos st) ?sid = Some i" using idx st(4) by (cases "md_find_index (md_silos st) ?sid") auto
  let ?cut = "take i (md_silos st) @ drop (Suc i) (md_silos st)"
  let ?st = "\<lparr>md_version = md_version st + 1, md_silos = ?cut\<rparr>"
  have set: "set ?cut \<subseteq> set (md_silos st)" using set_take_subset set_drop_subset by fastforce
  have "row_ids ?cut = take i (row_ids (md_silos st)) @ drop (Suc i) (row_ids (md_silos st))" by (simp add: take_map drop_map)
  then have "distinct (row_ids ?cut)" using distinct_cut [of "row_ids (md_silos st)" i] st(2) by (simp add: good_state_def)
  then have good: "good_state ?st" using st(2) set by (auto simp: good_state_def list_all_iff)
  obtain file' where f: "md_write True ?st file = (Inr (), file')" "md_ok file'"
    "md_row other_iso file' = find_silo (map rounded (md_silos ?st))" "md_file_version other_iso file' = md_version ?st"
    by (rule md_write_ok [OF good])
  have "rounded x = x" if "x \<in> set (md_silos st)" for x
    using that map_eq_conv [of rounded "md_silos st" id] st(3) by simp
  then have "map rounded ?cut = ?cut" by (intro map_idI) (use set in blast)
  then have "md_row other_iso file' = (find_silo (md_silos st))(?sid := None)"
    using f(3) idx i st(2) by (simp add: good_state_def)
  then show "\<exists>file'. md_try_delete other_iso True s file = (Inr (), file') \<and> md_ok file'
      \<and> md_row other_iso file' = (md_row other_iso file)(?sid := None)
      \<and> md_file_version other_iso file' = md_file_version other_iso file + 1"
    using f i idx row st by (intro exI [of _ file']) (simp add: md_try_delete_def)
qed

lemma md_suspect_cases:
  assumes "md_ok file"
  shows "md_row other_iso file sid = None \<Longrightarrow> md_try_add_suspicion other_iso sha disk_ok sid v e file = (Inl SiloNotFoundError, file)"
    "md_row other_iso file sid = Some r \<Longrightarrow> etag r \<noteq> Some e \<Longrightarrow>
      md_try_add_suspicion other_iso sha disk_ok sid v e file = (Inl TableStaleError, file)"
    "vote_ok v \<Longrightarrow> md_row other_iso file sid = Some r \<Longrightarrow> etag r = Some e \<Longrightarrow>
      \<exists>e' file'. md_try_add_suspicion other_iso sha True sid v e file
          = (Inr (r\<lparr>suspicions := suspicions r @ [v], etag := Some e'\<rparr>), file') \<and> md_ok file'
        \<and> md_row other_iso file' = (md_row other_iso file)(sid \<mapsto> r\<lparr>suspicions := suspicions r @ [rounded_vote v], etag := Some e'\<rparr>)
        \<and> md_file_version other_iso file' = md_file_version other_iso file + 1"
proof -
  obtain st where st: "md_load other_iso file = Inr st" "good_state st" "map rounded (md_silos st) = md_silos st"
    "md_row other_iso file = find_silo (md_silos st)" "md_file_version other_iso file = md_version st"
    by (rule md_load_ok [OF assms])
  note idx = md_find_index_spec [of "md_silos st" sid]
  show "md_row other_iso file sid = None \<Longrightarrow> md_try_add_suspicion other_iso sha disk_ok sid v e file = (Inl SiloNotFoundError, file)"
    using idx by (cases "md_find_index (md_silos st) sid") (simp_all add: md_try_add_suspicion_def st)
  show "md_row other_iso file sid = Some r \<Longrightarrow> etag r \<noteq> Some e \<Longrightarrow>
      md_try_add_suspicion other_iso sha disk_ok sid v e file = (Inl TableStaleError, file)"
    using idx by (cases "md_find_index (md_silos st) sid") (auto simp: md_try_add_suspicion_def st)
  assume ok: "vote_ok v" and row: "md_row other_iso file sid = Some r" "etag r = Some e"
  then obtain i where i: "md_find_index (md_silos st) sid = Some i" "i < length (md_silos st)" "md_silos st ! i = r"
      "silo_id (address r) = sid"
    and put: "\<And>s'. silo_id (address s') = sid \<Longrightarrow> find_silo ((md_silos st)[i := s']) = (find_silo (md_silos st))(sid \<mapsto> s')
        \<and> row_ids ((md_silos st)[i := s']) = row_ids (md_silos st)"
    using idx st(4) by (cases "md_find_index (md_silos st) sid") auto
  have r: "row_ok r" "rounded r = r"
    using i(2,3) st(2,3) nth_mem [OF i(2)] by (auto simp: good_state_def list_all_iff dest: map_eq_conv [of rounded "md_silos st" id, THEN iffD1, simplified])
  let ?new = "r\<lparr>suspicions := suspicions r @ [v]\<rparr>"
  let ?st = "st\<lparr>md_silos := (md_silos st)[i := ?new]\<rparr>"
  have "row_ok (?new\<lparr>etag := None\<rparr>)" using r(1) ok by (simp add: row_ok_def optional_cell_ok_def)
  then have "list_all row_ok ((md_silos st)[i := ?new\<lparr>etag := None\<rparr>])"
    using st(2) by (auto simp: good_state_def list_all_iff dest!: set_update_subset_insert [THEN subsetD])
  moreover have "distinct (row_ids ((md_silos st)[i := ?new\<lparr>etag := None\<rparr>]))"
    using st(2) put [of "?new\<lparr>etag := None\<rparr>"] i(4) by (simp add: good_state_def)
  ultimately have good: "good_state (?st\<lparr>md_silos := (md_silos ?st)[i := (md_silos ?st ! i)\<lparr>etag := None\<rparr>]\<rparr>)"
    using i(2) by (simp add: good_state_def)
  obtain e' file' where f: "md_finalise_write sha True ?st i file = (Inr ((md_silos ?st ! i)\<lparr>etag := Some e'\<rparr>), file')" "md_ok file'"
    "md_row other_iso file' = find_silo (map rounded ((md_silos ?st)[i := (md_silos ?st ! i)\<lparr>etag := Some e'\<rparr>]))"
    "md_file_version other_iso file' = md_version ?st + 1"
    by (rule md_finalise_ok [OF good]) (simp add: i(2))
  let ?kept = "r\<lparr>suspicions := suspicions r @ [rounded_vote v], etag := Some e'\<rparr>"
  have "rounded ?new = (rounded r)\<lparr>suspicions := suspicions (rounded r) @ [rounded_vote v]\<rparr>" by (simp add: rounded_def)
  then have "rounded (?new\<lparr>etag := Some e'\<rparr>) = ?kept" using r(2) by simp
  then have "map rounded ((md_silos st)[i := ?new\<lparr>etag := Some e'\<rparr>]) = (md_silos st)[i := ?kept]" by (simp add: map_update st(3))
  then have "md_row other_iso file' = (find_silo (md_silos st))(sid \<mapsto> ?kept)"
    using f(3) i put [of ?kept] by simp
  then show "\<exists>e' file'. md_try_add_suspicion other_iso sha True sid v e file
          = (Inr (r\<lparr>suspicions := suspicions r @ [v], etag := Some e'\<rparr>), file') \<and> md_ok file'
        \<and> md_row other_iso file' = (md_row other_iso file)(sid \<mapsto> r\<lparr>suspicions := suspicions r @ [rounded_vote v], etag := Some e'\<rparr>)
        \<and> md_file_version other_iso file' = md_file_version other_iso file + 1"
    using f i row st by (intro exI [of _ e'] exI [of _ file']) (simp add: md_try_add_suspicion_def Let_def)
qed

text \<open>The file is a compare-and-swap table for rows and votes that the columns can hold.\<close>

interpretation md_table: cas_table "md_row other_iso" "md_file_version other_iso"
  "md_try_update other_iso sha True" "md_try_delete other_iso True" "md_try_add_suspicion other_iso sha True" md_op_ok md_ok
  for other_iso sha
proof
  fix t :: md_file and s r :: SiloInfo
  assume t: "md_ok t"
  show "md_row other_iso t (silo_id (address s)) = None \<Longrightarrow> etag s \<noteq> None \<Longrightarrow>
      md_try_update other_iso sha True s t = (Inl SiloNotFoundError, t)"
    by (rule md_update_cases(1) [OF t])
  show "md_row other_iso t (silo_id (address s)) = Some r \<Longrightarrow> etag r \<noteq> etag s \<Longrightarrow>
      md_try_update other_iso sha True s t = (Inl TableStaleError, t)"
    by (rule md_update_cases(2) [OF t])
next
  fix t t' :: md_file and op and r :: "SiloInfo option result"
  assume t: "md_ok t" and ok: "md_op_ok op"
    and step: "mem_step (md_try_update other_iso sha True) (md_try_delete other_iso True) (md_try_add_suspicion other_iso sha True) op t = (r, t')"
  let ?rd = "md_row other_iso" and ?ver = "md_file_version other_iso"
  show "md_ok t' \<and>
      (t' = t \<and> (\<exists>x. r = Inl x \<or> r = Inr None)
       \<or> ?ver t' = ?ver t + 1
         \<and> (\<exists>sid. (r = Inr None \<and> ?rd t' = (?rd t)(sid := None))
               \<or> (\<exists>k s. r = Inr (Some s) \<and> etag k = etag s \<and> etag s \<noteq> None \<and> ?rd t' = (?rd t)(sid \<mapsto> k))))"
  proof (cases op)
    case (TryUpdate s)
    let ?sid = "silo_id (address s)"
    consider "?rd t ?sid = None" "etag s \<noteq> None" | row where "?rd t ?sid = Some row" "etag row \<noteq> etag s"
      | "?rd t ?sid = None \<and> etag s = None \<or> (\<exists>r. ?rd t ?sid = Some r \<and> etag r = etag s)"
      by (cases "?rd t ?sid") auto
    then show ?thesis
    proof cases
      case 1
      then show ?thesis using md_update_cases(1) [OF t 1, of sha True] step TryUpdate t by auto
    next
      case (2 row)
      then show ?thesis using md_update_cases(2) [OF t 2, of sha True] step TryUpdate t by auto
    next
      case 3
      have "row_ok (s\<lparr>etag := None\<rparr>)" using ok TryUpdate by simp
      from md_update_cases(3) [OF t this 3, of sha] obtain e u where
        u: "md_try_update other_iso sha True s t = (Inr (s\<lparr>etag := Some e\<rparr>), u)" "md_ok u"
        "?rd u = (?rd t)(?sid \<mapsto> (rounded s)\<lparr>etag := Some e\<rparr>)" "?ver u = ?ver t + 1" by blast
      then have r: "r = Inr (Some (s\<lparr>etag := Some e\<rparr>))" "t' = u" using step TryUpdate by auto
      have "etag ((rounded s)\<lparr>etag := Some e\<rparr>) = etag (s\<lparr>etag := Some e\<rparr>)" "etag (s\<lparr>etag := Some e\<rparr>) \<noteq> None" by simp_all
      then show ?thesis using u r by blast
    qed
  next
    case (TryDelete s)
    let ?sid = "silo_id (address s)"
    consider "?rd t ?sid = None" | row where "?rd t ?sid = Some row" "etag row \<noteq> etag s"
      | row where "?rd t ?sid = Some row" "etag row = etag s"
      by (cases "?rd t ?sid") auto
    then show ?thesis
    proof cases
      case 1
      then show ?thesis using md_delete_cases(1) [OF t 1, of True] step TryDelete t by auto
    next
      case (2 row)
      then show ?thesis using md_delete_cases(2) [OF t 2, of True] step TryDelete t by auto
    next
      case (3 row)
      from md_delete_cases(3) [OF t 3] obtain u where
        u: "md_try_delete other_iso True s t = (Inr (), u)" "md_ok u" "?rd u = (?rd t)(?sid := None)" "?ver u = ?ver t + 1" by blast
      then have "r = Inr None" "t' = u" using step TryDelete by auto
      then show ?thesis using u by blast
    qed
  next
    case (TryAddSuspicion sid v e)
    consider "?rd t sid = None" | row where "?rd t sid = Some row" "etag row \<noteq> Some e"
      | row where "?rd t sid = Some row" "etag row = Some e"
      by (cases "?rd t sid") auto
    then show ?thesis
    proof cases
      case 1
      then show ?thesis using md_suspect_cases(1) [OF t 1, of sha True] step TryAddSuspicion t by auto
    next
      case (2 row)
      then show ?thesis using md_suspect_cases(2) [OF t 2, of sha True] step TryAddSuspicion t by auto
    next
      case (3 row)
      have "vote_ok v" using ok TryAddSuspicion by simp
      from md_suspect_cases(3) [OF t this 3, of sha] obtain e' u where
        u: "md_try_add_suspicion other_iso sha True sid v e t = (Inr (row\<lparr>suspicions := suspicions row @ [v], etag := Some e'\<rparr>), u)" "md_ok u"
        "?rd u = (?rd t)(sid \<mapsto> row\<lparr>suspicions := suspicions row @ [rounded_vote v], etag := Some e'\<rparr>)" "?ver u = ?ver t + 1" by blast
      then have r: "r = Inr (Some (row\<lparr>suspicions := suspicions row @ [v], etag := Some e'\<rparr>))" "t' = u" using step TryAddSuspicion by auto
      have "etag (row\<lparr>suspicions := suspicions row @ [rounded_vote v], etag := Some e'\<rparr>) = etag (row\<lparr>suspicions := suspicions row @ [v], etag := Some e'\<rparr>)"
        "etag (row\<lparr>suspicions := suspicions row @ [v], etag := Some e'\<rparr>) \<noteq> None" by simp_all
      then show ?thesis using u r by blast
    qed
  qed
qed

text \<open>
  A cluster id or host with one of the line breaks that the printer lets through writes a table that
  nobody can read any more.
\<close>

definition broken_row :: SiloInfo where
  "broken_row = demo_row\<lparr>i_am_alive := 0, cluster_id := Some [99, 8232, 99]\<rparr>"

lemma unreadable_table:
  "\<exists>content. md_render \<lparr>md_version = 1, md_silos = [broken_row]\<rparr> = Inr content
     \<and> md_parse other_iso content = Inl MembershipError"
proof -
  let ?row = "lit ''| h_7_1 | h | 7 | 1 | active | c'' @ [8232] @ lit ''c |  |  |  |  |  |  |''"
  have row: "render_row broken_row = Inr ?row"
    by (simp add: render_row_def row_cells_def broken_row_def demo_row_def silo_addr_def format_timestamp_def
        render_suspicions_def encoded_def str_int_def dec.simps)
  let ?lines = "[lit ''# Membership'', [], lit ''Version: '' @ str_int 1, [], HEADER, SEPARATOR,
    lit ''| h_7_1 | h | 7 | 1 | active | c'', lit ''c |  |  |  |  |  |  |'']"
  let ?content = "join_with [10] ([lit ''# Membership'', [], lit ''Version: '' @ str_int 1, [], HEADER, SEPARATOR] @ [?row] @ [[]])"
  have r: "md_render \<lparr>md_version = 1, md_silos = [broken_row]\<rparr> = Inr ?content"
    by (simp add: md_render_def row del: list.map)
  have lines: "split_lines ?content = ?lines"
    by (simp add: HEADER_def SEPARATOR_def is_linebreak_def str_int_def dec.simps)
  have vl: "map lower_ascii (take 8 (lit ''Version: '')) = lit ''version:''" by (simp add: lower_ascii_def)
  have bad: "parse_row other_iso (lit ''| h_7_1 | h | 7 | 1 | active | c'') = Inl MembershipError"
    by (simp add: parse_row_def strip_by_def)
  have strip: "strip (lit ''| h_7_1 | h | 7 | 1 | active | c'') = lit ''| h_7_1 | h | 7 | 1 | active | c''"
    by (rule strip_by_id) (simp add: is_space_def)
  have title: "strip (lit ''# Membership'') = lit ''# Membership''" "map lower_ascii (take 8 (lit ''# Membership'')) \<noteq> lit ''version:''"
    "lit ''# Membership'' \<noteq> HEADER" "strip [] = []" "[] \<noteq> HEADER" "map lower_ascii (take 8 []) \<noteq> lit ''version:''"
    by (rule strip_by_id) (simp_all add: is_space_def lower_ascii_def HEADER_def strip_by_def)
  have row': "map lower_ascii (take 8 (lit ''| h_7_1 | h | 7 | 1 | active | c'')) \<noteq> lit ''version:''"
    "lit ''| h_7_1 | h | 7 | 1 | active | c'' \<noteq> HEADER" "take 5 (lit ''| h_7_1 | h | 7 | 1 | active | c'') \<noteq> lit ''| ---''"
    "take (Suc 0) (lit ''| h_7_1 | h | 7 | 1 | active | c'') = lit ''|''" "lit ''| h_7_1 | h | 7 | 1 | active | c'' \<noteq> []"
    by (simp_all add: lower_ascii_def HEADER_def)
  have "parse_lines other_iso False empty_state ?lines = Inl MembershipError"
    by (simp add: Let_def title strip_header version_line vl strip row' bad del: list.map)
  then show ?thesis using r by (intro exI [of _ ?content]) (simp only: md_parse_def lines)
qed

subsection \<open>Properties\<close>


lemma demo_row_ok: "row_ok (demo_row\<lparr>etag := None\<rparr>)"
proof -
  have "time_ok 3" using whole_seconds_int [of 3] by (simp add: time_ok_def EPOCH_ORDINAL_def)
  then show ?thesis
    by (simp add: row_ok_def demo_row_def silo_addr_def stamp_ok_def optional_cell_ok_def encoded_def str_int_def dec.simps
        cell_ok_def strip_by_def is_space_def is_linebreak_def valid_cp_def)
qed


text \<open>
  C28. No lost update on the Markdown table: if a silo read a row, other silos then made any calls with
  rows and votes that the columns can hold, and the silo's update with the etag it read succeeds, then
  the row is still the one it read, and the update replaces it and nothing else. As for the YAML table,
  the digests of the rows written in between differ from the etag that was read.
\<close>

theorem markdown_no_lost_update:
  assumes "md_ok t" "md_row other_iso t (silo_id (address s)) = Some r" "etag s = etag r" "etag r \<noteq> None"
    and "list_all md_op_ok ops" "row_ok (s\<lparr>etag := None\<rparr>)"
    and "mem_run (md_try_update other_iso sha True) (md_try_delete other_iso True)
           (md_try_add_suspicion other_iso sha True) ops t = (t', written)"
    and "etag r \<notin> etag ` set written"
    and "md_try_update other_iso sha True s t' = (Inr s', t'')"
  shows "md_row other_iso t' (silo_id (address s)) = Some r \<and> md_file_version other_iso t \<le> md_file_version other_iso t'
    \<and> md_row other_iso t'' = (md_row other_iso t')(silo_id (address s) \<mapsto> rounded s') \<and> md_ok t''"
proof -
  note keep = md_table.no_lost_update [OF assms(1-5,7-9)]
  then have "md_ok t'" "md_row other_iso t' (silo_id (address s)) = None \<and> etag s = None
      \<or> (\<exists>r. md_row other_iso t' (silo_id (address s)) = Some r \<and> etag r = etag s)" using assms(3) by simp_all
  from md_update_cases(3) [OF this(1) assms(6) this(2), of sha] assms(9) keep show ?thesis by auto
qed

theorem markdown_no_lost_update_witness:
  "\<exists>r t s' t''. md_row (\<lambda>_. None) t (silo_id silo_addr) = Some r
     \<and> md_try_update (\<lambda>_. None) (take 1) True (r\<lparr>status := DEAD\<rparr>) t = (Inr s', t'')
     \<and> md_row (\<lambda>_. None) t'' (silo_id silo_addr) = Some (rounded s')"
proof -
  have absent: "md_ok MdAbsent" by (auto simp: md_ok_def good_state_def empty_state_def)
  have none: "md_row (\<lambda>_. None) MdAbsent = Map.empty"
    by (simp add: md_row_def md_read_all_def md_load_def read_silo_def empty_state_def fun_eq_iff)
  have addr: "address demo_row = silo_addr" "etag demo_row = None" by (simp_all add: demo_row_def)
  have "md_row (\<lambda>_. None) MdAbsent (silo_id (address demo_row)) = None \<and> etag demo_row = None
      \<or> (\<exists>r. md_row (\<lambda>_. None) MdAbsent (silo_id (address demo_row)) = Some r \<and> etag r = etag demo_row)"
    using none addr by simp
  from md_update_cases(3) [OF absent demo_row_ok this, of "take 1"] obtain e t where
    t: "md_ok t" "md_row (\<lambda>_. None) t = [silo_id silo_addr \<mapsto> (rounded demo_row)\<lparr>etag := Some e\<rparr>]"
    using none addr(1) by auto
  let ?r = "(rounded demo_row)\<lparr>etag := Some e\<rparr>"
  let ?s = "?r\<lparr>status := DEAD\<rparr>"
  have s: "address ?s = silo_addr" using addr(1) by simp
  have "?s\<lparr>etag := None\<rparr> = (rounded (demo_row\<lparr>etag := None\<rparr>))\<lparr>status := DEAD\<rparr>" by simp
  then have ok: "row_ok (?s\<lparr>etag := None\<rparr>)" using row_ok_rounded [OF demo_row_ok] by (simp add: row_ok_def)
  have row: "md_row (\<lambda>_. None) t (silo_id (address ?s)) = Some ?r" using t(2) s by simp
  then have "md_row (\<lambda>_. None) t (silo_id (address ?s)) = None \<and> etag ?s = None
      \<or> (\<exists>r. md_row (\<lambda>_. None) t (silo_id (address ?s)) = Some r \<and> etag r = etag ?s)" by simp
  from md_update_cases(3) [OF t(1) ok this, of "take 1"] obtain s' t'' where
    u: "md_try_update (\<lambda>_. None) (take 1) True ?s t = (Inr s', t'')" by blast
  have "md_row (\<lambda>_. None) t (silo_id (address ?s)) = Some ?r
      \<and> md_file_version (\<lambda>_. None) t \<le> md_file_version (\<lambda>_. None) t
      \<and> md_row (\<lambda>_. None) t'' = (md_row (\<lambda>_. None) t)(silo_id (address ?s) \<mapsto> rounded s') \<and> md_ok t''"
    by (rule markdown_no_lost_update [OF t(1) row _ _ _ ok _ _ u, where ops = "[]" and written = "[]"]) simp_all
  then have "md_row (\<lambda>_. None) t'' (silo_id silo_addr) = Some (rounded s')" by (simp add: s)
  then show ?thesis using row u s by (intro exI [of _ ?r] exI [of _ t] exI [of _ s'] exI [of _ t'']) simp
qed

end
