(* ===== verification/Postgres.thy ===== *)
theory Postgres
  imports MarkdownMembership GrainStorage
begin

text \<open>
  The PostgreSQL providers, \<^verbatim>\<open>pyleans/server/providers/postgresql_storage.py\<close> and
  \<^verbatim>\<open>postgresql_membership.py\<close> with their two schema files. Every SQL statement of the sources is a
  function on the tables of the schema. What the server and the driver do around it comes with the
  call: a transaction works, fails without an effect, or fails after its commit. How a
  \<^verbatim>\<open>jsonb\<close> value reaches Python is a parameter. Integers fit their columns. Pools, migrations and the listener task are left
  out; notifications are best effort and change nothing here.
\<close>

subsection \<open>Driver errors\<close>

text \<open>
  The classes of \<^verbatim>\<open>asyncpg\<close> that the handlers tell apart; the last one is an exception that is none of
  \<^verbatim>\<open>PostgresError\<close>, such as a refused connection.
\<close>

datatype pg_error =
    PgSerialization | PgDeadlock | PgConnectionError | PgCannotConnect | PgDataError | PgOtherError | PgNoPostgresError

definition TRANSIENT_RETRIES :: nat where
  "TRANSIENT_RETRIES = 3"

text \<open>
  \<^verbatim>\<open>_handle_transient_errors\<close> is a generator in a context manager: the exception of the block is thrown
  in at its \<^verbatim>\<open>yield\<close>, in attempt \<open>n\<close>, and it raises or comes to the next \<^verbatim>\<open>yield\<close>.
\<close>

datatype context_outcome = ContextYields nat | ContextRaises error

definition membership_handler :: "nat \<Rightarrow> pg_error \<Rightarrow> context_outcome" where
  "membership_handler n e =
     (case e of
        PgSerialization \<Rightarrow> if n < TRANSIENT_RETRIES then ContextYields (n + 1) else ContextRaises MembershipError
      | PgDeadlock \<Rightarrow> if n < TRANSIENT_RETRIES then ContextYields (n + 1) else ContextRaises MembershipError
      | PgConnectionError \<Rightarrow> ContextRaises MembershipUnavailableError
      | PgCannotConnect \<Rightarrow> ContextRaises MembershipUnavailableError
      | PgNoPostgresError \<Rightarrow> ContextRaises OtherException
      | _ \<Rightarrow> ContextRaises MembershipError)"

definition storage_handler :: "nat \<Rightarrow> pg_error \<Rightarrow> context_outcome" where
  "storage_handler n e =
     (case e of
        PgSerialization \<Rightarrow> if n < TRANSIENT_RETRIES then ContextYields (n + 1) else ContextRaises StorageError
      | PgDeadlock \<Rightarrow> if n < TRANSIENT_RETRIES then ContextYields (n + 1) else ContextRaises StorageError
      | PgConnectionError \<Rightarrow> ContextRaises StorageUnavailableError
      | PgCannotConnect \<Rightarrow> ContextRaises StorageUnavailableError
      | PgDataError \<Rightarrow> ContextRaises StorageSerializationError
      | PgNoPostgresError \<Rightarrow> ContextRaises OtherException
      | PgOtherError \<Rightarrow> ContextRaises StorageError)"

text \<open>
  \<^verbatim>\<open>contextlib\<close> runs the block once: a generator that yields again after an exception was thrown into
  it is a \<^verbatim>\<open>RuntimeError\<close>.
\<close>

definition exit_context :: "context_outcome \<Rightarrow> error" where
  "exit_context h = (case h of ContextYields _ \<Rightarrow> RuntimeError | ContextRaises e \<Rightarrow> e)"

datatype pg_io = PgWorks | PgFailsBefore pg_error | PgFailsAfter pg_error

text \<open>A block around one transaction: a Python exception in it rolls it back.\<close>

definition transact :: "(nat \<Rightarrow> pg_error \<Rightarrow> context_outcome) \<Rightarrow> pg_io \<Rightarrow> ('t \<Rightarrow> 'a result \<times> 't) \<Rightarrow> 't \<Rightarrow> 'a result \<times> 't" where
  "transact handler io block t =
     (case io of
        PgFailsBefore e \<Rightarrow> (Inl (exit_context (handler 1 e)), t)
      | PgWorks \<Rightarrow> (case block t of (Inl e, _) \<Rightarrow> (Inl e, t) | (Inr a, t') \<Rightarrow> (Inr a, t'))
      | PgFailsAfter x \<Rightarrow>
          (case block t of (Inl e, _) \<Rightarrow> (Inl e, t) | (Inr a, t') \<Rightarrow> (Inl (exit_context (handler 1 x)), t')))"

subsection \<open>Grain state\<close>

record pg_state_row =
  sr_state :: json
  sr_etag :: int

type_synonym pg_states = "(pystr \<times> pystr, pg_state_row) dict"

definition insert_state :: "pystr \<Rightarrow> pystr \<Rightarrow> json \<Rightarrow> pg_states \<Rightarrow> int option \<times> pg_states" where
  "insert_state t k doc tbl =
     (case dget tbl (t, k) of
        Some _ \<Rightarrow> (None, tbl)
      | None \<Rightarrow> (Some 1, dset tbl (t, k) \<lparr>sr_state = doc, sr_etag = 1\<rparr>))"

definition update_state :: "pystr \<Rightarrow> pystr \<Rightarrow> json \<Rightarrow> int \<Rightarrow> pg_states \<Rightarrow> int option \<times> pg_states" where
  "update_state t k doc expected tbl =
     (case dget tbl (t, k) of
        None \<Rightarrow> (None, tbl)
      | Some row \<Rightarrow>
          if sr_etag row \<noteq> expected then (None, tbl)
          else (Some (sr_etag row + 1), dset tbl (t, k) \<lparr>sr_state = doc, sr_etag = sr_etag row + 1\<rparr>))"

text \<open>The number of rows that went is the end of the command tag.\<close>

definition delete_state :: "pystr \<Rightarrow> pystr \<Rightarrow> int option \<Rightarrow> pg_states \<Rightarrow> nat \<times> pg_states" where
  "delete_state t k expected tbl =
     (case dget tbl (t, k) of
        None \<Rightarrow> (0, tbl)
      | Some row \<Rightarrow>
          if (case expected of None \<Rightarrow> True | Some e \<Rightarrow> sr_etag row = e) then (1, dpop tbl (t, k)) else (0, tbl))"

text \<open>How the driver hands out a document: as a dict, as text, or as something else.\<close>

datatype pg_raw = RawDict "(pystr \<times> json) list" | RawText pystr | RawOther

definition decode_state :: "pg_raw \<Rightarrow> json result" where
  "decode_state raw =
     (case raw of
        RawDict f \<Rightarrow> Inr (JObj f)
      | RawText s \<Rightarrow> (case json_loads s of Inr (JObj f) \<Rightarrow> Inr (JObj f) | _ \<Rightarrow> Inl StorageSerializationError)
      | RawOther \<Rightarrow> Inl StorageSerializationError)"

definition pg_read_state :: "(json \<Rightarrow> pg_raw) \<Rightarrow> pg_io \<Rightarrow> pystr \<Rightarrow> pystr \<Rightarrow> pg_states \<Rightarrow> (json \<times> json) result" where
  "pg_read_state column io t k tbl =
     (case fst (transact storage_handler io (\<lambda>tbl. (Inr (dget tbl (t, k)), tbl)) tbl) of
        Inl e \<Rightarrow> Inl e
      | Inr None \<Rightarrow> Inr (JObj [], JNull)
      | Inr (Some row) \<Rightarrow> res_bind (decode_state (column (sr_state row))) (\<lambda>v. Inr (v, JStr (str_int (sr_etag row)))))"

definition pg_write_state :: "pg_io \<Rightarrow> pystr \<Rightarrow> pystr \<Rightarrow> json \<Rightarrow> etag \<Rightarrow> pg_states \<Rightarrow> pystr result \<times> pg_states" where
  "pg_write_state io t k doc expected tbl =
     (case expected of
        None \<Rightarrow>
          transact storage_handler io
            (\<lambda>tbl. case insert_state t k doc tbl of
                     (None, tbl') \<Rightarrow> (Inl StorageInconsistencyError, tbl')
                   | (Some e, tbl') \<Rightarrow> (Inr (str_int e), tbl')) tbl
      | Some x \<Rightarrow>
          (case int_of_str x of
             Inl e \<Rightarrow> (Inl e, tbl)
           | Inr v \<Rightarrow>
               transact storage_handler io
                 (\<lambda>tbl. case update_state t k doc v tbl of
                          (None, tbl') \<Rightarrow> (Inl StorageInconsistencyError, tbl')
                        | (Some e, tbl') \<Rightarrow> (Inr (str_int e), tbl')) tbl))"

definition pg_clear_state :: "pg_io \<Rightarrow> pystr \<Rightarrow> pystr \<Rightarrow> etag \<Rightarrow> pg_states \<Rightarrow> unit result \<times> pg_states" where
  "pg_clear_state io t k expected tbl =
     (case expected of
        None \<Rightarrow> transact storage_handler io (\<lambda>tbl. (Inr (), snd (delete_state t k None tbl))) tbl
      | Some x \<Rightarrow>
          (case int_of_str x of
             Inl e \<Rightarrow> (Inl e, tbl)
           | Inr v \<Rightarrow>
               (case transact storage_handler io (\<lambda>tbl. case delete_state t k (Some v) tbl of (n, tbl') \<Rightarrow> (Inr n, tbl')) tbl of
                  (Inl e, tbl') \<Rightarrow> (Inl e, tbl')
                | (Inr n, tbl') \<Rightarrow> (if n = 0 then Inl StorageInconsistencyError else Inr (), tbl'))))"

subsection \<open>Membership\<close>

record pg_silo_row =
  pr_address :: SiloAddress
  pr_status :: pystr
  pr_gateway_port :: "int option"
  pr_start_time :: seconds
  pr_last_heartbeat :: seconds
  pr_i_am_alive :: seconds
  pr_suspicions :: "json list"
  pr_etag_version :: int

record pg_tables =
  pg_rows :: "(pystr \<times> pystr, pg_silo_row) dict"
  pg_versions :: "(pystr, int) dict"

text \<open>\<^verbatim>\<open>_ts\<close>: a time to the microsecond, of a year that \<^verbatim>\<open>datetime\<close> has.\<close>

definition pg_ts :: "seconds \<Rightarrow> seconds result" where
  "pg_ts ts = (if time_ok ts then Inr (of_int (round_half_even (ts * 1000000)) / 1000000) else Inl ValueError)"

definition bump_version :: "pystr \<Rightarrow> pg_tables \<Rightarrow> pg_tables" where
  "bump_version c t =
     t\<lparr>pg_versions := dset (pg_versions t) c (case dget (pg_versions t) c of None \<Rightarrow> 1 | Some v \<Rightarrow> v + 1)\<rparr>"

definition read_version :: "pystr \<Rightarrow> pg_tables \<Rightarrow> int" where
  "read_version c t = (case dget (pg_versions t) c of None \<Rightarrow> 0 | Some v \<Rightarrow> v)"

definition pg_row_to_silo :: "pystr \<Rightarrow> pg_silo_row \<Rightarrow> SiloInfo result" where
  "pg_row_to_silo c row =
     res_bind (res_map vote_from_dict (pr_suspicions row)) (\<lambda>votes.
     res_bind (status_of_value (pr_status row)) (\<lambda>st.
       Inr \<lparr>address = pr_address row, status = st, last_heartbeat = pr_last_heartbeat row, start_time = pr_start_time row,
            cluster_id = Some c, gateway_port = pr_gateway_port row, row_version = 0, i_am_alive = pr_i_am_alive row,
            suspicions = votes, etag = Some (str_int (pr_etag_version row))\<rparr>))"

definition upsert_silo :: "pystr \<Rightarrow> SiloInfo \<Rightarrow> pg_tables \<Rightarrow> int result \<times> pg_tables" where
  "upsert_silo c s t =
     (case res_bind (pg_ts (start_time s)) (\<lambda>start.
           res_bind (pg_ts (last_heartbeat s)) (\<lambda>beat.
           res_bind (pg_ts (if i_am_alive s > 0 then i_am_alive s else last_heartbeat s)) (\<lambda>alive. Inr (start, beat, alive)))) of
        Inl e \<Rightarrow> (Inl e, t)
      | Inr (start, beat, alive) \<Rightarrow>
          let key = (c, silo_id (address s)); votes = map vote_to_dict (suspicions s)
          in (case etag s of
                None \<Rightarrow>
                  (case dget (pg_rows t) key of
                     Some _ \<Rightarrow> (Inl TableStaleError, t)
                   | None \<Rightarrow>
                       (Inr 1, t\<lparr>pg_rows := dset (pg_rows t) key
                          \<lparr>pr_address = address s, pr_status = status_value (status s), pr_gateway_port = gateway_port s,
                           pr_start_time = start, pr_last_heartbeat = beat, pr_i_am_alive = alive,
                           pr_suspicions = votes, pr_etag_version = 1\<rparr>\<rparr>))
              | Some x \<Rightarrow>
                  (case int_of_str x of
                     Inl e \<Rightarrow> (Inl e, t)
                   | Inr expected \<Rightarrow>
                       (case dget (pg_rows t) key of
                          None \<Rightarrow> (Inl TableStaleError, t)
                        | Some row \<Rightarrow>
                            if pr_etag_version row \<noteq> expected then (Inl TableStaleError, t)
                            else
                              (Inr (pr_etag_version row + 1), t\<lparr>pg_rows := dset (pg_rows t) key
                                 (row\<lparr>pr_status := status_value (status s), pr_gateway_port := gateway_port s,
                                      pr_last_heartbeat := beat, pr_i_am_alive := alive, pr_suspicions := votes,
                                      pr_etag_version := pr_etag_version row + 1\<rparr>)\<rparr>)))))"

definition pg_try_update :: "pystr \<Rightarrow> pg_io \<Rightarrow> SiloInfo \<Rightarrow> pg_tables \<Rightarrow> SiloInfo result \<times> pg_tables" where
  "pg_try_update c io s t =
     transact membership_handler io
       (\<lambda>t. case upsert_silo c s t of
              (Inl e, t') \<Rightarrow> (Inl e, t')
            | (Inr v, t') \<Rightarrow> (Inr (with_etag s (Some (str_int v))), bump_version c t')) t"

definition pg_try_add_suspicion ::
  "pystr \<Rightarrow> pg_io \<Rightarrow> pystr \<Rightarrow> SuspicionVote \<Rightarrow> pystr \<Rightarrow> pg_tables \<Rightarrow> SiloInfo result \<times> pg_tables" where
  "pg_try_add_suspicion c io sid vote expected_etag t =
     (case int_of_str expected_etag of
        Inl e \<Rightarrow> (Inl e, t)
      | Inr expected \<Rightarrow>
          (case transact membership_handler io
                  (\<lambda>t. case dget (pg_rows t) (c, sid) of
                         None \<Rightarrow> (Inl TableStaleError, t)
                       | Some row \<Rightarrow>
                           if pr_etag_version row \<noteq> expected then (Inl TableStaleError, t)
                           else
                             let row' = row\<lparr>pr_suspicions := pr_suspicions row @ [vote_to_dict vote],
                                            pr_etag_version := pr_etag_version row + 1\<rparr>
                             in (Inr row', bump_version c (t\<lparr>pg_rows := dset (pg_rows t) (c, sid) row'\<rparr>))) t of
             (Inl e, t') \<Rightarrow> (Inl e, t')
           | (Inr row, t') \<Rightarrow> (pg_row_to_silo c row, t')))"

definition pg_try_delete :: "pystr \<Rightarrow> pg_io \<Rightarrow> SiloInfo \<Rightarrow> pg_tables \<Rightarrow> unit result \<times> pg_tables" where
  "pg_try_delete c io s t =
     (case etag s of
        None \<Rightarrow> (Inr (), t)
      | Some x \<Rightarrow>
          (case int_of_str x of
             Inl e \<Rightarrow> (Inl e, t)
           | Inr expected \<Rightarrow>
               transact membership_handler io
                 (\<lambda>t. case dget (pg_rows t) (c, silo_id (address s)) of
                        None \<Rightarrow> (Inl TableStaleError, t)
                      | Some row \<Rightarrow>
                          if pr_etag_version row \<noteq> expected then (Inl TableStaleError, t)
                          else (Inr (), bump_version c (t\<lparr>pg_rows := dpop (pg_rows t) (c, silo_id (address s))\<rparr>))) t))"

definition pg_read_all :: "pystr \<Rightarrow> pg_io \<Rightarrow> pg_tables \<Rightarrow> MembershipSnapshot result" where
  "pg_read_all c io t =
     (case fst (transact membership_handler io
                 (\<lambda>t. (Inr (map snd (filter (\<lambda>((c', _), _). c' = c) (pg_rows t)), read_version c t), t)) t) of
        Inl e \<Rightarrow> Inl e
      | Inr (rows, v) \<Rightarrow> res_bind (res_map (pg_row_to_silo c) rows) (\<lambda>ss. Inr \<lparr>version = v, silos = ss\<rparr>))"

text \<open>What \<^verbatim>\<open>_on_notify\<close> makes of a payload: the version it puts into every subscriber's queue.\<close>

definition on_notify :: "pystr \<Rightarrow> pystr \<Rightarrow> int option" where
  "on_notify c payload =
     (let own = takeWhile (\<lambda>x. x \<noteq> 58) payload; rest = drop (length own) payload
      in if rest = [] \<or> own \<noteq> c then None
         else (case int_of_str (tl rest) of Inl _ \<Rightarrow> None | Inr v \<Rightarrow> Some v))"

subsection \<open>What the handlers make of an error\<close>

text \<open>
  No transient error is ever retried: thrown into the generator for the first time it makes it yield
  again, which the context manager does not allow, so the caller gets a \<^verbatim>\<open>RuntimeError\<close>.
\<close>

lemma transient_not_retried:
  assumes "e \<in> {PgSerialization, PgDeadlock}"
  shows "exit_context (membership_handler 1 e) = RuntimeError" "exit_context (storage_handler 1 e) = RuntimeError"
  using assms by (auto simp: exit_context_def membership_handler_def storage_handler_def TRANSIENT_RETRIES_def)

lemma handler_errors:
  "exit_context (membership_handler 1 PgConnectionError) = MembershipUnavailableError"
  "exit_context (membership_handler 1 PgNoPostgresError) = OtherException"
  "exit_context (storage_handler 1 PgConnectionError) = StorageUnavailableError"
  "exit_context (storage_handler 1 PgDataError) = StorageSerializationError"
  by (simp_all add: exit_context_def membership_handler_def storage_handler_def)

lemma transact_cases:
  assumes "transact handler io block t = (r, t')"
  shows "t' = t \<and> (\<exists>e. r = Inl e)
    \<or> (\<exists>a. block t = (Inr a, t') \<and> (r = Inr a \<or> (\<exists>x. io = PgFailsAfter x \<and> r = Inl (exit_context (handler 1 x)))))"
  using assms by (auto simp: transact_def split: pg_io.splits prod.splits sum.splits)

lemma transact_Inr: "transact handler io block t = (Inr a, t') \<Longrightarrow> block t = (Inr a, t')"
  using transact_cases [of handler io block t "Inr a" t'] by auto

lemma transact_works: "block t = (Inr a, t') \<Longrightarrow> transact handler PgWorks block t = (Inr a, t')"
  by (simp add: transact_def)

subsection \<open>Grain state\<close>

lemma insert_state_cases:
  "insert_state t k doc tbl = (r, tbl') \<Longrightarrow>
     r = None \<and> tbl' = tbl \<and> dget tbl (t, k) \<noteq> None
     \<or> r = Some 1 \<and> dget tbl (t, k) = None \<and> tbl' = dset tbl (t, k) \<lparr>sr_state = doc, sr_etag = 1\<rparr>"
  by (auto simp: insert_state_def split: option.splits)

lemma update_state_cases:
  "update_state t k doc v tbl = (r, tbl') \<Longrightarrow>
     r = None \<and> tbl' = tbl
     \<or> r = Some (v + 1) \<and> (\<exists>row. dget tbl (t, k) = Some row \<and> sr_etag row = v)
       \<and> tbl' = dset tbl (t, k) \<lparr>sr_state = doc, sr_etag = v + 1\<rparr>"
  by (auto simp: update_state_def split: option.splits if_splits)

text \<open>A write that ends well or after its commit: the statement it ran and the row it left.\<close>

lemma pg_write_cases:
  assumes "pg_write_state io t k doc expected tbl = (r, tbl')"
  shows "tbl' = tbl \<and> (\<exists>x. r = Inl x)
    \<or> (\<exists>v. tbl' = dset tbl (t, k) \<lparr>sr_state = doc, sr_etag = v\<rparr> \<and> (r = Inr (str_int v) \<or> (\<exists>x y. io = PgFailsAfter x \<and> r = Inl y))
         \<and> (case expected of None \<Rightarrow> v = 1 \<and> dget tbl (t, k) = None
             | Some x \<Rightarrow> int_of_str x = Inr (v - 1) \<and> (\<exists>row. dget tbl (t, k) = Some row \<and> sr_etag row = v - 1)))"
proof (cases expected)
  case None
  let ?block = "\<lambda>tbl. case insert_state t k doc tbl of (None, tbl') \<Rightarrow> (Inl StorageInconsistencyError, tbl') | (Some e, tbl') \<Rightarrow> (Inr (str_int e), tbl')"
  have "transact storage_handler io ?block tbl = (r, tbl')" using assms None by (simp add: pg_write_state_def)
  from transact_cases [OF this] show ?thesis
  proof
    assume "\<exists>a. ?block tbl = (Inr a, tbl') \<and> (r = Inr a \<or> (\<exists>x. io = PgFailsAfter x \<and> r = Inl (exit_context (storage_handler 1 x))))"
    then obtain a where a: "?block tbl = (Inr a, tbl')" "r = Inr a \<or> (\<exists>x. io = PgFailsAfter x \<and> r = Inl (exit_context (storage_handler 1 x)))" by blast
    then obtain e where e: "insert_state t k doc tbl = (Some e, tbl')" "a = str_int e" by (auto split: prod.splits option.splits)
    from insert_state_cases [OF e(1)] show ?thesis using a(2) e(2) None by (intro disjI2 exI [of _ 1]) auto
  qed simp
next
  case (Some x)
  show ?thesis
  proof (cases "int_of_str x")
    case (Inl e)
    then show ?thesis using assms Some by (auto simp: pg_write_state_def)
  next
    case (Inr v)
    let ?block = "\<lambda>tbl. case update_state t k doc v tbl of (None, tbl') \<Rightarrow> (Inl StorageInconsistencyError, tbl') | (Some e, tbl') \<Rightarrow> (Inr (str_int e), tbl')"
    have "transact storage_handler io ?block tbl = (r, tbl')" using assms Some Inr by (simp add: pg_write_state_def)
    from transact_cases [OF this] show ?thesis
    proof
      assume "\<exists>a. ?block tbl = (Inr a, tbl') \<and> (r = Inr a \<or> (\<exists>x. io = PgFailsAfter x \<and> r = Inl (exit_context (storage_handler 1 x))))"
      then obtain a where a: "?block tbl = (Inr a, tbl')" "r = Inr a \<or> (\<exists>x. io = PgFailsAfter x \<and> r = Inl (exit_context (storage_handler 1 x)))" by blast
      then obtain e where e: "update_state t k doc v tbl = (Some e, tbl')" "a = str_int e" by (auto split: prod.splits option.splits)
      from update_state_cases [OF e(1)] show ?thesis using a(2) e(2) Some Inr by (intro disjI2 exI [of _ "v + 1"]) auto
    qed simp
  qed
qed

text \<open>
  Grain state in PostgreSQL: a write that returns an etag found no row when it expected none, or the
  row with the etag it expected, and a read gives back its state with the new etag; a write or clear that
  raises changes nothing unless the connection broke after its commit; no other grain is touched.
\<close>

theorem postgres_storage_spec:
  assumes "\<And>f. decode_state (column (JObj f)) = Inr (JObj f)" "pg_write_state io t k (JObj f) expected tbl = (r, tbl')"
  shows "(\<forall>key. key \<noteq> (t, k) \<longrightarrow> dget tbl' key = dget tbl key)
    \<and> (\<forall>e. r = Inr e \<longrightarrow> pg_read_state column PgWorks t k tbl' = Inr (JObj f, JStr e)
         \<and> (case expected of None \<Rightarrow> dget tbl (t, k) = None
             | Some x \<Rightarrow> (\<exists>row. dget tbl (t, k) = Some row \<and> int_of_str x = Inr (sr_etag row) \<and> e = str_int (sr_etag row + 1))))
    \<and> (\<forall>x. r = Inl x \<longrightarrow> tbl' = tbl \<or> (\<exists>y. io = PgFailsAfter y))
    \<and> (\<forall>key. key \<noteq> (t, k) \<longrightarrow> dget (snd (pg_clear_state io t k expected tbl)) key = dget tbl key)"
proof (intro conjI)
  note w = pg_write_cases [OF assms(2)]
  show "\<forall>key. key \<noteq> (t, k) \<longrightarrow> dget tbl' key = dget tbl key" "\<forall>x. r = Inl x \<longrightarrow> tbl' = tbl \<or> (\<exists>y. io = PgFailsAfter y)"
    using w by auto
  show "\<forall>e. r = Inr e \<longrightarrow> pg_read_state column PgWorks t k tbl' = Inr (JObj f, JStr e)
         \<and> (case expected of None \<Rightarrow> dget tbl (t, k) = None
             | Some x \<Rightarrow> (\<exists>row. dget tbl (t, k) = Some row \<and> int_of_str x = Inr (sr_etag row) \<and> e = str_int (sr_etag row + 1)))"
    using w assms(1) by (auto simp: pg_read_state_def transact_def split: option.splits)
  have del: "dget tbl1 key = dget tbl key" if "delete_state t k v tbl = (n, tbl1)" "key \<noteq> (t, k)" for v key n tbl1
    using that by (auto simp: delete_state_def split: option.splits if_splits)
  show "\<forall>key. key \<noteq> (t, k) \<longrightarrow> dget (snd (pg_clear_state io t k expected tbl)) key = dget tbl key"
    using del [OF surjective_pairing]
    by (cases io) (auto simp: pg_clear_state_def transact_def dest: del split: option.split sum.split prod.split)
qed

definition demo_column :: "json \<Rightarrow> pg_raw" where
  "demo_column j = (case j of JObj f \<Rightarrow> RawDict f | _ \<Rightarrow> RawOther)"

theorem postgres_storage_spec_witness:
  "\<exists>tbl. pg_write_state PgWorks [1] [2] (JObj []) None [] = (Inr (str_int 1), tbl)
     \<and> pg_read_state demo_column PgWorks [1] [2] tbl = Inr (JObj [], JStr (str_int 1))"
proof -
  have col: "decode_state (demo_column (JObj f)) = Inr (JObj f)" for f by (simp add: demo_column_def decode_state_def)
  obtain tbl where w: "pg_write_state PgWorks [1] [2] (JObj []) None [] = (Inr (str_int 1), tbl)"
    by (simp add: pg_write_state_def transact_def insert_state_def dget_def)
  from postgres_storage_spec [OF col w] w show ?thesis by blast
qed

subsection \<open>Membership\<close>

text \<open>A silo's row grows: it is the same or has a higher version.\<close>

definition row_grows :: "pg_silo_row option \<Rightarrow> pg_silo_row option \<Rightarrow> bool" where
  "row_grows a b \<longleftrightarrow> a = b \<or> a = None \<or> (\<exists>x y. a = Some x \<and> b = Some y \<and> pr_etag_version x < pr_etag_version y)"

lemma row_grows_trans: "row_grows a b \<Longrightarrow> row_grows b c \<Longrightarrow> row_grows a c"
  by (auto simp: row_grows_def)

lemma bump_rows [simp]: "pg_rows (bump_version c t) = pg_rows t"
  by (simp add: bump_version_def)

lemma upsert_grows:
  assumes "upsert_silo c s t = (Inr v, t')"
  shows "row_grows (dget (pg_rows t) key) (dget (pg_rows t') key)"
    "case etag s of None \<Rightarrow> dget (pg_rows t) (c, silo_id (address s)) = None
      | Some x \<Rightarrow> (\<exists>row. dget (pg_rows t) (c, silo_id (address s)) = Some row \<and> int_of_str x = Inr (pr_etag_version row)
          \<and> v = pr_etag_version row + 1)"
    "\<exists>row. dget (pg_rows t') (c, silo_id (address s)) = Some row \<and> pr_etag_version row = v
      \<and> pr_status row = status_value (status s) \<and> pr_suspicions row = map vote_to_dict (suspicions s)"
    "key \<noteq> (c, silo_id (address s)) \<Longrightarrow> dget (pg_rows t') key = dget (pg_rows t) key"
  using assms by (auto simp: upsert_silo_def Let_def row_grows_def split: sum.splits option.splits if_splits)

datatype pg_op = PgUpdate SiloInfo | PgSuspect pystr SuspicionVote pystr

fun pg_step :: "pystr \<times> pg_io \<times> pg_op \<Rightarrow> pg_tables \<Rightarrow> pg_tables" where
  "pg_step (c, io, PgUpdate s) t = snd (pg_try_update c io s t)"
| "pg_step (c, io, PgSuspect sid v e) t = snd (pg_try_add_suspicion c io sid v e t)"

lemma pg_update_cases:
  assumes "pg_try_update c io s t = (r, t')"
  shows "t' = t \<and> (\<exists>e. r = Inl e)
    \<or> (\<exists>v t1. upsert_silo c s t = (Inr v, t1) \<and> t' = bump_version c t1
         \<and> (r = Inr (with_etag s (Some (str_int v))) \<or> (\<exists>x e. io = PgFailsAfter x \<and> r = Inl e)))"
proof -
  let ?block = "\<lambda>t. case upsert_silo c s t of (Inl e, t') \<Rightarrow> (Inl e, t')
      | (Inr v, t') \<Rightarrow> (Inr (with_etag s (Some (str_int v))), bump_version c t')"
  have "transact membership_handler io ?block t = (r, t')" using assms by (simp add: pg_try_update_def)
  from transact_cases [OF this] show ?thesis by (auto split: prod.splits sum.splits)
qed

lemma pg_step_grows: "row_grows (dget (pg_rows t) key) (dget (pg_rows (pg_step op t)) key)"
proof (cases op)
  case (fields c io o')
  show ?thesis
  proof (cases o')
    case (PgUpdate s)
    obtain r t' where u: "pg_try_update c io s t = (r, t')" by fastforce
    have same: "row_grows (dget (pg_rows t) key) (dget (pg_rows t) key)" by (simp add: row_grows_def)
    from pg_update_cases [OF u] have "row_grows (dget (pg_rows t) key) (dget (pg_rows t') key)"
      using same by (auto intro: upsert_grows(1))
    then show ?thesis using fields PgUpdate u by simp
  next
    case (PgSuspect sid v e)
    then show ?thesis using fields
      by (cases io) (auto simp: pg_try_add_suspicion_def transact_def Let_def row_grows_def split: sum.split option.split)
  qed
qed

lemma pg_steps_grow: "row_grows (dget (pg_rows t) key) (dget (pg_rows (fold pg_step ops t)) key)"
proof (induction ops arbitrary: t)
  case Nil
  then show ?case by (simp add: row_grows_def)
next
  case (Cons op ops)
  show ?case using row_grows_trans [OF pg_step_grows Cons.IH] by simp
qed


definition demo_silo :: SiloInfo where
  "demo_silo = demo_row\<lparr>i_am_alive := 0\<rparr>"

definition demo_pg_row :: pg_silo_row where
  "demo_pg_row = \<lparr>pr_address = silo_addr, pr_status = status_value ACTIVE, pr_gateway_port = None, pr_start_time = 0,
     pr_last_heartbeat = 0, pr_i_am_alive = 0, pr_suspicions = [], pr_etag_version = 1\<rparr>"

definition demo_tables :: pg_tables where
  "demo_tables = \<lparr>pg_rows = [(([99], silo_id silo_addr), demo_pg_row)], pg_versions = [([99], 1)]\<rparr>"

lemma pg_ts_0: "pg_ts 0 = Inr 0"
  using whole_seconds_int [of 0] round_half_even_int [of 0] by (simp add: pg_ts_def time_ok_def EPOCH_ORDINAL_def)


text \<open>
  A removal in between is not covered: the version of a row starts again at 1, so an etag of the row
  that was removed is taken for one of the row that was registered afterwards.
\<close>

lemma etag_restarts:
  assumes "dget (pg_rows t) (c, silo_id (address s)) = None" "etag s = None"
    and "upsert_silo c s t = (Inr v, t1)"
    and "pg_try_delete c PgWorks (s\<lparr>etag := Some (str_int v)\<rparr>) t1 = (Inr (), t2)" "upsert_silo c s t2 = (Inr w, t3)"
  shows "w = v"
proof -
  have "v = 1" "w = 1"
    using assms(2,3,5) by (auto simp: upsert_silo_def Let_def split: sum.splits option.splits)
  then show ?thesis by simp
qed

text \<open>Where the port and the file providers say that a row is missing, PostgreSQL says that an etag is stale.\<close>

lemma missing_row_is_stale:
  assumes "dget (pg_rows t) (c, silo_id (address s)) = None" "etag s = Some (str_int v)"
  shows "pg_try_delete c PgWorks s t = (Inl TableStaleError, t)"
    "pg_try_add_suspicion c PgWorks (silo_id (address s)) vote (str_int v) t = (Inl TableStaleError, t)"
  using assms by (simp_all add: pg_try_delete_def pg_try_add_suspicion_def transact_def)

end
