(* ===== verification/Spec2Isabelle.thy ===== *)
theory Spec2Isabelle
  imports DirectoryCache LocalDirectory Silo ClusterClient FileLock Streams GrainReferences MemoryNetwork Postgres
begin

text \<open>
  Pyleans: virtual actors (grains) on a cluster of silos. A grain is an object with a key that is
  activated on some silo when it is called, runs its calls one at a time, keeps its state in a storage
  provider and is deactivated when idle. This library models the implementation under
  \<^verbatim>\<open>src/src/pyleans/pyleans\<close> in Isabelle/HOL, one theory per component, and proves what makes each
  component correct and what holds when they work together.

  The program and its parts. A silo (\<^verbatim>\<open>server/silo.py\<close>) wires together: the grain runtime
  (\<^verbatim>\<open>server/runtime.py\<close>), which activates grains and runs their calls; the directory
  (\<^verbatim>\<open>cluster/distributed_directory.py\<close> behind \<^verbatim>\<open>cluster/directory_cache.py\<close>), which records on which silo
  a grain lives, partitioned over a hash ring of the silos; the membership agent
  (\<^verbatim>\<open>cluster/membership_agent.py\<close>, \<^verbatim>\<open>cluster/failure_detector.py\<close>), which probes the neighbours on
  the ring, votes suspects dead in the membership table and spreads snapshots of it; the cluster transport
  (\<^verbatim>\<open>transport/\<close>), which keeps one connection per peer, frames messages and pairs answers with requests; and
  the gateway (\<^verbatim>\<open>gateway/\<close>), through which clients outside the cluster (\<^verbatim>\<open>client/\<close>) call grains. A lifecycle
  (\<^verbatim>\<open>server/lifecycle.py\<close>) starts these in stages and stops them in reverse.

  How the code is written here. A class is a record of its attributes, an enumeration or tagged union a
  datatype, a dict an association list in insertion order (\<^verbatim>\<open>dget\<close>, \<^verbatim>\<open>dset\<close>, \<^verbatim>\<open>dpop\<close> of Prelude), a string a
  list of code points, bytes words of 8 bits, Python's int the integers, a float a rational number. A method
  is a function from the state to its outcome and the state after it. An exception is the left side of a sum:
  \<^verbatim>\<open>error\<close> of Prelude for the errors of the protocol layers, \<^verbatim>\<open>exn\<close> with class name, text and cause where user
  code and remote callers see them. The asyncio event loop is cooperative, so a piece of code between two
  \<^verbatim>\<open>await\<close>s is one step; an operation that waits is split there, and concurrent behaviour is a sequence of
  steps in any order, chosen by a list of events or a step relation.

  Theories, in the order of their dependencies:
    Prelude, PyText: dicts, result type, \<^verbatim>\<open>int(str)\<close>, \<^verbatim>\<open>str(int)\<close>, UTF-8, big-endian integers, decimal text.
    Identity (\<^verbatim>\<open>identity.py\<close>, \<^verbatim>\<open>cluster/identity.py\<close>): grain and silo identities and their text forms.
    HashRing, Placement (\<^verbatim>\<open>cluster/hash_ring.py\<close>, \<^verbatim>\<open>cluster/placement.py\<close>): ownership on the ring, the
      placement port as a locale and its strategies.
    Directory, LocalDirectory, DirectoryCache (\<^verbatim>\<open>cluster/directory.py\<close>, \<^verbatim>\<open>server/local_directory.py\<close>,
      \<^verbatim>\<open>cluster/directory_cache.py\<close>): the directory port as a locale, the single-silo directory, the cache.
    Json, DirectoryMessages (\<^verbatim>\<open>json\<close> as used, \<^verbatim>\<open>cluster/directory_messages.py\<close>): text and message bodies.
    DirectoryRebuild, DistributedDirectory, DirectoryCluster (\<^verbatim>\<open>cluster/directory_rebuild.py\<close>,
      \<^verbatim>\<open>cluster/distributed_directory.py\<close>): one silo's partition, rebuilds after a membership change, and
      all silos of a ring exchanging messages.
    Wire, Handshake, Pending (\<^verbatim>\<open>transport/messages.py\<close>, \<^verbatim>\<open>wire.py\<close>, \<^verbatim>\<open>handshake.py\<close>, \<^verbatim>\<open>error_payload.py\<close>,
      \<^verbatim>\<open>tcp/pending.py\<close>): frames, the handshake and its checks, the table of requests in flight.
    Connection, ConnectionManager, ClusterTransport (\<^verbatim>\<open>transport/tcp/\<close>): one connection as a state machine,
      the connections of a silo with deduplication and reconnects, and the transport on top.
    Membership, YamlMembership, MarkdownMembership, FileLock (\<^verbatim>\<open>providers/membership.py\<close>,
      \<^verbatim>\<open>server/providers/\<close>): the compare-and-swap contract of a membership table as a locale, two file-based
      tables, the lock and the atomic write under them.
    Postgres (\<^verbatim>\<open>server/providers/postgresql_*.py\<close>): both PostgreSQL providers, statement by statement.
    FailureDetector, Voting, MembershipAgent (\<^verbatim>\<open>cluster/failure_detector.py\<close>,
      \<^verbatim>\<open>cluster/membership_agent.py\<close>): probe targets, missed probes, the vote, the agent's three loops.
    Serialization, GrainStorage, RemoteInvoke (\<^verbatim>\<open>serialization.py\<close>, \<^verbatim>\<open>providers/storage.py\<close>,
      \<^verbatim>\<open>server/providers/file_storage.py\<close>, \<^verbatim>\<open>server/remote_invoke.py\<close>): state as bytes, state files, the
      envelopes of remote calls.
    Runtime, RuntimeTurns, RuntimeCalls, StringCache, GrainReferences (\<^verbatim>\<open>server/runtime.py\<close>, \<^verbatim>\<open>grain.py\<close>,
      \<^verbatim>\<open>grain_base.py\<close>, \<^verbatim>\<open>reference.py\<close>, \<^verbatim>\<open>server/timer.py\<close>, \<^verbatim>\<open>server/string_cache_grain.py\<close>): activations and
      their workers, local and remote calls, the framework's own grain, references and timers.
    Lifecycle, SiloMembership, Silo (\<^verbatim>\<open>server/lifecycle.py\<close>, \<^verbatim>\<open>server/silo.py\<close>): stages, the silo's own row
      in the table, and the silo as the composition of the parts above.
    Gateway, ClusterClient (\<^verbatim>\<open>gateway/\<close>, \<^verbatim>\<open>client/cluster_client.py\<close>): both ends of a client connection.
    Streams, MemoryNetwork (\<^verbatim>\<open>server/providers/memory_stream.py\<close>, \<^verbatim>\<open>net/memory_network.py\<close>): publish and
      subscribe, and the simulated network.

  What the theorems show. In a cluster with one ring a grain has one directory entry per epoch and no two
  activations on record, whatever messages are lost or overtaken (DirectoryCluster); a membership change
  keeps or hands off every entry (DistributedDirectory) and moves only keys of silos that came or went
  (HashRing); rebuilds merge by epoch independently of the order of replies (DirectoryRebuild); the cache is
  invisible to clients (DirectoryCache). A silo is declared dead only by a quorum of fresh votes on the row
  that is overwritten, and is declared dead by one (Voting); an agent that finds itself dead stops
  (MembershipAgent); table writes lose no update (YamlMembership, MarkdownMembership, Postgres), and the lock and the
  atomic write below them exclude and never tear (FileLock). Calls to a grain run in turns, are answered, and
  are the same from the silo itself, from another silo and through a gateway (RuntimeTurns, RuntimeCalls,
  Gateway, ClusterClient). Bytes and messages are read as they were written and hostile ones are refused with
  the documented errors (Wire, Handshake, DirectoryMessages, RemoteInvoke, Serialization); requests settle
  exactly once (Pending, Connection, ClusterClient); at most one connection per peer lives and both ends
  agree which (ConnectionManager). Stages start and stop in order, and a start that fails leaves the silo
  down (Lifecycle, Silo). Where the code does something else than it says, the theorem states what the
  code does, and the manifest lists it as a finding.

  Interfaces are locales, interpreted on the code's own models in the theories of their providers:
  \<^verbatim>\<open>placement_port\<close>, \<^verbatim>\<open>grain_directory\<close> (single-silo directory, partition of a silo),
  \<^verbatim>\<open>membership_table\<close> and \<^verbatim>\<open>membership_provider\<close> (the YAML table; the agent's, the detector's and the silo's
  lemmas are proved inside it), \<^verbatim>\<open>grain_storage\<close> (file storage).

  Parameters, with what is assumed of them where a theorem needs it: SHA-256 (nothing, except that ring
  positions differ where a theorem says so); random draws and \<^verbatim>\<open>uuid4\<close> (any values; ids differ); the clock
  (any, non-decreasing where stated); PyYAML and orjson (what is written parses to the same data); the disk
  (each system call succeeds or fails); the database driver (a transaction works, or fails
  before or after its commit); the bodies of grain methods and stream callbacks (they leave the
  runtime's own fields alone); the texts of exceptions; what peers answer and when; local time for
  timestamps that no provider writes.

  Bounds and fuel. The JSON parser takes fuel \<^verbatim>\<open>2 * len + 2\<close>, proved enough for every input it is given by
  its round trip; a double has at most 1074 decimals, so printing one stops; directory clients retry a stale
  owner MAX_STALE_RETRY = 3 times and the silo's table writes 5 times, as in the code; the reconnect loop is
  proved to end within 1025 turns; handler and request counts stay within the connection options; an acquire
  of the file lock ends after its timeout in retry intervals, rounded up; a call of a client is sent at most
  1 + \<^verbatim>\<open>max_reconnect_attempts\<close> times. Loops that may not end (a publish whose callbacks go on subscribing)
  are partial functions with the outcome None.

  Not modelled, and why: the asyncio network adapter and the abstract network classes (pure I/O); pools,
  migrations, the listener task and the range of integer columns of the PostgreSQL providers; the dependency injection container, the status view for the management grain and the list of system grains
  (wiring without behaviour); signal and exit handlers, logging and representations; the sample programs.
  Floats are rationals, so rounding of sums of times is not; real parallelism between threads is not, as the
  code runs on one event loop. The bound of 1000 on a grain's inbox, \<^verbatim>\<open>readline\<close> and \<^verbatim>\<open>read\<close> to the end of
  the simulated network, and the Windows branch of the file lock are left out.
\<close>

end
